(* ===== verification/Prelude.thy ===== *)
theory Prelude
  imports Main "HOL-Library.Word"
begin

text \<open>
  Shared vocabulary of the development: the C integer types as machine words, C's
  truncating division, byte/sample packing on a little-endian target, bounded C strings,
  and the generic list lemmas that the component theories use.
\<close>

unbundle bit_operations_syntax

named_theorems ring_simps \<open>facts about indices of the 32768-slot rings\<close>
named_theorems frame_simps \<open>which globals an operation of the engine leaves alone\<close>
named_theorems lock_simps \<open>effect of the engine's operations on the audio mutex\<close>

type_synonym u8 = "8 word"
type_synonym u16 = "16 word"
type_synonym u32 = "32 word"
type_synonym u64 = "64 word"
type_synonym i16 = "16 word"
type_synonym i32 = "32 word"
type_synonym i64 = "64 word"

section \<open>C arithmetic\<close>

text \<open>C's \<open>/\<close> on signed integers truncates towards zero.\<close>

definition cdiv :: "int \<Rightarrow> int \<Rightarrow> int" where
  "cdiv a b = sgn a * sgn b * (\<bar>a\<bar> div \<bar>b\<bar>)"

lemma cdiv_1 [simp]: "cdiv a 1 = a"
  by (simp add: cdiv_def sgn_if)

lemma cdiv_0 [simp]: "cdiv 0 b = 0"
  by (simp add: cdiv_def)

lemma cdiv_mult_cancel: "0 < n \<Longrightarrow> cdiv (n * x) n = x"
  by (auto simp: cdiv_def sgn_if abs_mult zero_less_mult_iff mult_less_0_iff)

lemma cdiv_uminus: "cdiv (- a) b = - cdiv a b"
  by (simp add: cdiv_def sgn_if)

lemma cdiv_bounds:
  assumes n: "0 < n" and lo: "- n * b \<le> a" and hi: "a \<le> n * c" and nn: "0 \<le> b" "0 \<le> c"
  shows "- b \<le> cdiv a n \<and> cdiv a n \<le> c"
proof (cases "0 \<le> a")
  case True
  have "cdiv a n = a div n"
    using True n by (auto simp: cdiv_def sgn_if)
  moreover have "a div n \<le> c"
    using hi n by (metis nonzero_mult_div_cancel_left order_less_irrefl zdiv_mono1)
  moreover have "0 \<le> a div n"
    using True n by (simp add: pos_imp_zdiv_nonneg_iff)
  ultimately show ?thesis using nn by linarith
next
  case False
  have "cdiv a n = - (- a div n)"
    using False n by (auto simp: cdiv_def sgn_if)
  moreover have "- a div n \<le> b"
  proof -
    have "- a \<le> n * b" using lo by simp
    then show ?thesis
      using n by (metis nonzero_mult_div_cancel_left order_less_irrefl zdiv_mono1)
  qed
  moreover have "0 \<le> - a div n"
    using False n by (simp add: pos_imp_zdiv_nonneg_iff)
  ultimately show ?thesis using nn by linarith
qed

lemma unat_of_nat_u32: "n < 2 ^ 32 \<Longrightarrow> unat (of_nat n :: u32) = n"
  by (simp add: unat_of_nat take_bit_nat_eq_self)

lemma sint16_bounds: "- 32768 \<le> sint (x :: i16)" "sint (x :: i16) \<le> 32767"
  using sint_range_size [of x] by (auto simp: word_size)

lemma sint16_of_int: "- 32768 \<le> k \<Longrightarrow> k \<le> 32767 \<Longrightarrow> sint (word_of_int k :: i16) = k"
  by (simp add: signed_of_int signed_take_bit_int_eq_self)

lemma sint16_of_nat_small: "n \<le> 32767 \<Longrightarrow> sint (of_nat n :: i16) = int n"
  using sint16_of_int [of "int n"] by simp

section \<open>Bytes and samples\<close>

text \<open>
  The engine reads and writes \<open>int16_t\<close> samples through \<open>uint8_t*\<close> buffers; its targets
  (x86-64 and ARM64, Windows and Linux) are little-endian.
\<close>

definition i16_of_bytes :: "u8 \<Rightarrow> u8 \<Rightarrow> i16" where
  "i16_of_bytes lo hi = push_bit 8 (ucast hi) OR ucast lo"

definition bytes_of_i16 :: "i16 \<Rightarrow> u8 list" where
  "bytes_of_i16 x = [ucast x, ucast (drop_bit 8 x)]"

fun samples_of_bytes :: "u8 list \<Rightarrow> i16 list" where
  "samples_of_bytes (a # b # bs) = i16_of_bytes a b # samples_of_bytes bs"
| "samples_of_bytes _ = []"

definition bytes_of_samples :: "i16 list \<Rightarrow> u8 list" where
  "bytes_of_samples xs = concat (map bytes_of_i16 xs)"

lemma i16_bytes_roundtrip [simp]: "i16_of_bytes (ucast x) (ucast (drop_bit 8 x)) = x"
  by (rule bit_word_eqI)
    (auto simp: i16_of_bytes_def bit_simps)

lemma samples_bytes_roundtrip [simp]: "samples_of_bytes (bytes_of_samples xs) = xs"
  by (induction xs) (auto simp: bytes_of_samples_def bytes_of_i16_def)

lemma length_bytes_of_samples [simp]: "length (bytes_of_samples xs) = 2 * length xs"
  by (induction xs) (auto simp: bytes_of_samples_def bytes_of_i16_def)

lemma length_samples_of_bytes [simp]: "length (samples_of_bytes bs) = length bs div 2"
  by (induction bs rule: samples_of_bytes.induct) auto

section \<open>Generic lemmas on lists and folds\<close>

lemma foldl_append_map: "foldl (\<lambda>ys x. ys @ [f x]) zs xs = zs @ map f xs"
  by (induction xs arbitrary: zs) auto

lemma map_upt_shift: "map f [a..<a + n] = map (\<lambda>i. f (a + i)) [0..<n]"
  by (induction n) auto

lemma upt_add_eq: "[0..<a + b] = [0..<a] @ map (\<lambda>i. a + i) [0..<b]"
  by (induction b) auto

lemma find_Some_iff_first:
  "find P xs = Some x \<Longrightarrow> P x \<and> x \<in> set xs"
  by (induction xs) (auto split: if_splits)

lemma find_None_all: "find P xs = None \<longleftrightarrow> (\<forall>x \<in> set xs. \<not> P x)"
  by (induction xs) auto

lemma find_unique:
  assumes "x \<in> set xs" "P x" "\<And>y. y \<in> set xs \<Longrightarrow> P y \<Longrightarrow> y = x"
  shows "find P xs = Some x"
proof (cases "find P xs")
  case None
  then show ?thesis using assms(1,2) by (auto simp: find_None_all)
next
  case (Some y)
  then have "P y \<and> y \<in> set xs" by (rule find_Some_iff_first)
  then show ?thesis using assms(3) Some by auto
qed

end
