(* ===== verification/CFloat.thy ===== *)
theory CFloat
  imports Prelude "HOL-Library.Log_Nat" Complex_Main
begin

text \<open>
  The C types \<open>float\<close> and \<open>double\<close>, as IEEE 754 binary32 and binary64 with round to nearest,
  ties to even, every operation rounded on its own (\<open>FLT_EVAL_METHOD\<close> 0, no contraction), as on
  the engine's x86-64 and ARM64 targets. A finite value is kept as the rational number it denotes;
  the two zeros are not told apart (the code modelled here never looks at a sign bit, and
  where it divides by a variable, in the design of filters and in means, a zero divisor is the value
  of an unsigned integer, so it cannot tell them apart either). Rounding is an executable function
  on any Archimedean field with a floor, so it also rounds real numbers.
\<close>

section \<open>Rounding to nearest even\<close>

definition rhe :: "'a::floor_ceiling \<Rightarrow> int" where
  "rhe y = (let f = \<lfloor>y\<rfloor>; d = y - of_int f
            in if d < 1 / 2 \<or> (d = 1 / 2 \<and> even f) then f else f + 1)"

lemma rhe_of_int [simp]: "rhe (of_int z) = z"
  by (simp add: rhe_def)

lemma rhe_0: "rhe 0 = 0"
  using rhe_of_int [of 0] by simp

lemma rhe_pow2 [simp]: "rhe (2 ^ n) = 2 ^ n"
  using rhe_of_int [of "2 ^ n"] by simp

lemma rhe_bounds: "\<lfloor>y\<rfloor> \<le> rhe y" "rhe y \<le> \<lfloor>y\<rfloor> + 1"
  by (simp_all add: rhe_def Let_def)

lemma rhe_mono: "x \<le> y \<Longrightarrow> rhe x \<le> rhe y"
proof (cases "\<lfloor>x\<rfloor> = \<lfloor>y\<rfloor>")
  case True
  assume "x \<le> y"
  then show ?thesis using True by (auto simp: rhe_def Let_def)
next
  case False
  assume "x \<le> y"
  then have "\<lfloor>x\<rfloor> < \<lfloor>y\<rfloor>" using False floor_mono [of x y] by linarith
  then show ?thesis using rhe_bounds(2) [of x] rhe_bounds(1) [of y] by linarith
qed

lemma rhe_error: "\<bar>of_int (rhe y) - y\<bar> \<le> 1 / 2"
proof -
  have "of_int \<lfloor>y\<rfloor> \<le> y" "y < of_int \<lfloor>y\<rfloor> + 1"
    using floor_correct [of y] by simp_all
  then have "of_int (rhe y) - y \<le> 1 / 2 \<and> - (of_int (rhe y) - y) \<le> 1 / 2"
    unfolding rhe_def Let_def by (auto simp del: of_int_floor_le) (linarith+)?
  then show ?thesis unfolding abs_le_iff .
qed

text \<open>
  \<open>excess p n\<close> is the number of low bits of \<open>n\<close> that do not fit a \<open>p\<close>-bit significand.
  \<open>rnd_nn p s x\<close> rounds \<open>x \<ge> 0\<close> to \<open>p\<close> significant bits with the least exponent \<open>-s\<close>:
  \<open>p = 24, s = 149\<close> for binary32, \<open>p = 53, s = 1074\<close> for binary64 (subnormals included).
\<close>

definition excess :: "nat \<Rightarrow> int \<Rightarrow> nat" where
  "excess p n = nat (bitlen n - int p)"

definition rnd_nn :: "nat \<Rightarrow> nat \<Rightarrow> 'a::floor_ceiling \<Rightarrow> rat" where
  "rnd_nn p s x =
     (let k = excess p \<lfloor>x * 2 ^ s\<rfloor>
      in of_int (rhe (x * 2 ^ s / 2 ^ k)) * 2 ^ k / 2 ^ s)"

definition rnd :: "nat \<Rightarrow> nat \<Rightarrow> 'a::floor_ceiling \<Rightarrow> rat" where
  "rnd p s x = (if x < 0 then - rnd_nn p s (- x) else rnd_nn p s x)"

lemma excess_upper: "n < 2 ^ (p + excess p n)"
proof -
  have "bitlen n \<le> int (p + excess p n)" by (simp add: excess_def)
  then show ?thesis unfolding bitlen_le_iff_power by (simp add: nat_add_distrib)
qed

lemma excess_lower:
  assumes "0 < excess p n" "0 < p"
  shows "2 ^ (p - 1 + excess p n) \<le> n"
proof -
  have "int (p + excess p n) \<le> bitlen n" using assms by (simp add: excess_def)
  then have "int (p + excess p n) \<le> 0 \<or> 2 ^ (nat (int (p + excess p n)) - 1) \<le> n"
    unfolding bitlen_ge_iff_power .
  then show ?thesis using assms by (simp only: nat_int) simp
qed

lemma excess_leI: "n < 2 ^ (p + k) \<Longrightarrow> excess p n \<le> k"
proof -
  assume "n < 2 ^ (p + k)"
  then have "bitlen n \<le> int (p + k)" unfolding bitlen_le_iff_power by (simp add: nat_add_distrib)
  then show ?thesis by (simp add: excess_def)
qed

lemma excess_mono: "m \<le> n \<Longrightarrow> excess p m \<le> excess p n"
  using excess_leI [of m p "excess p n"] excess_upper [of n p] by linarith

lemma rnd_nn_nonneg: "0 \<le> x \<Longrightarrow> 0 \<le> rnd_nn p s x"
proof -
  assume "0 \<le> x"
  then have "0 \<le> rhe (x * 2 ^ s / 2 ^ excess p \<lfloor>x * 2 ^ s\<rfloor>)"
    using rhe_mono [of 0 "x * 2 ^ s / 2 ^ excess p \<lfloor>x * 2 ^ s\<rfloor>"] by (simp add: rhe_0)
  then show ?thesis by (simp add: rnd_nn_def Let_def)
qed

lemma scaled_le_pow:
  fixes x :: "'a::floor_ceiling"
  assumes "0 \<le> x"
  shows "x * 2 ^ s / 2 ^ excess p \<lfloor>x * 2 ^ s\<rfloor> < 2 ^ p"
proof -
  have "\<lfloor>x * 2 ^ s\<rfloor> < 2 ^ (p + excess p \<lfloor>x * 2 ^ s\<rfloor>)" by (rule excess_upper)
  then have "x * 2 ^ s < of_int (2 ^ (p + excess p \<lfloor>x * 2 ^ s\<rfloor>))"
    by (simp only: floor_less_iff)
  then show ?thesis by (simp add: divide_simps power_add)
qed

lemma scaled_ge_pow:
  fixes x :: "'a::floor_ceiling"
  assumes "0 < excess p \<lfloor>x * 2 ^ s\<rfloor>" "0 < p"
  shows "2 ^ (p - 1) \<le> x * 2 ^ s / 2 ^ excess p \<lfloor>x * 2 ^ s\<rfloor>"
proof -
  have "2 ^ (p - 1 + excess p \<lfloor>x * 2 ^ s\<rfloor>) \<le> \<lfloor>x * 2 ^ s\<rfloor>"
    by (rule excess_lower) (use assms in auto)
  then have "of_int (2 ^ (p - 1 + excess p \<lfloor>x * 2 ^ s\<rfloor>)) \<le> x * 2 ^ s"
    by (simp only: le_floor_iff)
  then show ?thesis by (simp add: divide_simps power_add)
qed

lemma rhe_le_pow: "y \<le> 2 ^ p \<Longrightarrow> rhe y \<le> 2 ^ p"
  using rhe_mono [of y "2 ^ p"] by simp

lemma rhe_ge_pow: "2 ^ p \<le> y \<Longrightarrow> 2 ^ p \<le> rhe y"
  using rhe_mono [of "2 ^ p" y] by simp

lemma rnd_nn_mono:
  fixes x y :: "'a::floor_ceiling"
  assumes "0 < p" "0 \<le> x" "x \<le> y"
  shows "rnd_nn p s x \<le> rnd_nn p s y"
proof -
  define a where "a = x * 2 ^ s"
  define b where "b = y * 2 ^ s"
  define k where "k = excess p \<lfloor>a\<rfloor>"
  define l where "l = excess p \<lfloor>b\<rfloor>"
  have ab: "a \<le> b" using assms by (simp add: a_def b_def)
  have kl: "k \<le> l" unfolding k_def l_def by (intro excess_mono floor_mono ab)
  have "of_int (rhe (a / 2 ^ k)) * 2 ^ k \<le> (of_int (rhe (b / 2 ^ l)) * 2 ^ l :: rat)"
  proof (cases "k = l")
    case True
    have "rhe (a / 2 ^ k) \<le> rhe (b / 2 ^ k)" by (intro rhe_mono divide_right_mono ab) simp
    then show ?thesis using True by simp
  next
    case False
    then have "k < l" using kl by simp
    have "rhe (a / 2 ^ k) \<le> 2 ^ p"
      using scaled_le_pow [of x s p] assms(2) by (intro rhe_le_pow) (simp add: a_def k_def)
    moreover have "2 ^ (p - 1) \<le> rhe (b / 2 ^ l)"
      using scaled_ge_pow [of p y s] \<open>k < l\<close> assms(1)
      by (intro rhe_ge_pow) (simp add: b_def l_def)
    ultimately have "rhe (a / 2 ^ k) * 2 ^ k \<le> 2 ^ p * 2 ^ k" "2 ^ (p - 1) * 2 ^ l \<le> rhe (b / 2 ^ l) * 2 ^ l"
      by simp_all
    moreover have "(2::int) ^ p * 2 ^ k \<le> 2 ^ (p - 1) * 2 ^ l"
      using \<open>k < l\<close> assms(1) by (simp flip: power_add add: power_increasing)
    ultimately have "rhe (a / 2 ^ k) * 2 ^ k \<le> rhe (b / 2 ^ l) * 2 ^ l" by linarith
    then have "(of_int (rhe (a / 2 ^ k) * 2 ^ k) :: rat) \<le> of_int (rhe (b / 2 ^ l) * 2 ^ l)"
      by (simp only: of_int_le_iff)
    then show ?thesis by simp
  qed
  then show ?thesis
    by (simp add: rnd_nn_def Let_def a_def b_def k_def l_def divide_right_mono)
qed

lemma rnd_uminus: "rnd p s (- x) = - rnd p s x"
proof -
  have "rnd_nn p s (0 :: 'a) = 0" by (simp add: rnd_nn_def rhe_def)
  then show ?thesis by (cases x "0 :: 'a" rule: linorder_cases) (simp_all add: rnd_def)
qed

lemma rnd_mono:
  assumes "0 < p" "x \<le> y"
  shows "rnd p s x \<le> rnd p s y"
proof -
  consider "0 \<le> x" | "x < 0" "0 \<le> y" | "y < 0" by linarith
  then show ?thesis
  proof cases
    case 1
    then show ?thesis using assms by (simp add: rnd_def rnd_nn_mono)
  next
    case 2
    then show ?thesis using rnd_nn_nonneg [of "- x" p s] rnd_nn_nonneg [of y p s]
      by (simp add: rnd_def)
  next
    case 3
    then show ?thesis using assms rnd_nn_mono [of p "- y" "- x" s] by (simp add: rnd_def)
  qed
qed

lemma rnd_0 [simp]: "rnd p s 0 = 0"
  by (simp add: rnd_def rnd_nn_def rhe_0)

lemma rnd_nonneg: "0 < p \<Longrightarrow> 0 \<le> x \<Longrightarrow> 0 \<le> rnd p s x"
  by (simp add: rnd_def rnd_nn_nonneg)

text \<open>A number with at most \<open>p\<close> significant bits and exponent at least \<open>-s\<close> is kept as it is.\<close>

lemma rnd_nn_exact:
  assumes "0 < p" "0 \<le> m" "m \<le> 2 ^ p" "x * 2 ^ s = of_int m * 2 ^ e"
  shows "rnd_nn p s x * 2 ^ s = of_int m * 2 ^ e"
proof -
  define k where "k = excess p \<lfloor>x * 2 ^ s\<rfloor>"
  have fl: "\<lfloor>x * 2 ^ s\<rfloor> = m * 2 ^ e"
    unfolding assms(4) by (metis floor_of_int of_int_mult of_int_numeral of_int_power)
  have "\<exists>z. m * 2 ^ e = z * 2 ^ k"
  proof (cases "m = 2 ^ p")
    case True
    have "(2::int) ^ p * 2 ^ e < 2 ^ (p + (e + 1))" by (simp add: power_add)
    then have "k \<le> p + e"
      using excess_leI [of "m * 2 ^ e" p "e + 1"] assms(1) by (simp add: k_def fl True)
    then have "(2::int) ^ (p + e) = 2 ^ (p + e - k) * 2 ^ k" by (simp flip: power_add)
    then show ?thesis using True by (metis power_add)
  next
    case False
    then have "m * 2 ^ e < 2 ^ (p + e)" using assms(3) by (simp add: power_add)
    then have "k \<le> e" using excess_leI [of "m * 2 ^ e" p e] by (simp add: k_def fl)
    then have "m * 2 ^ e = (m * 2 ^ (e - k)) * 2 ^ k" by (simp add: mult.assoc flip: power_add)
    then show ?thesis by blast
  qed
  then obtain z where z: "m * 2 ^ e = z * 2 ^ k" ..
  then have "x * 2 ^ s = of_int z * 2 ^ k"
    unfolding assms(4) by (metis of_int_mult of_int_numeral of_int_power)
  then have "x * 2 ^ s / 2 ^ k = of_int z" by simp
  then have "rnd_nn p s x * 2 ^ s = of_int (z * 2 ^ k)"
    by (simp add: rnd_nn_def Let_def flip: k_def)
  then show ?thesis by (simp flip: z)
qed

lemma rnd_exact:
  fixes x :: rat
  assumes "0 < p" "\<bar>m\<bar> \<le> 2 ^ p" "x * 2 ^ s = of_int m * 2 ^ e"
  shows "rnd p s x = x"
proof -
  have eq: "\<bar>x\<bar> * 2 ^ s = of_int \<bar>m\<bar> * 2 ^ e"
    using arg_cong [OF assms(3), of abs] by (simp add: abs_mult)
  then have "rnd_nn p s \<bar>x\<bar> * 2 ^ s = of_int \<bar>m\<bar> * 2 ^ e"
    by (intro rnd_nn_exact) (use assms in auto)
  also note eq [symmetric]
  finally have "rnd_nn p s \<bar>x\<bar> = \<bar>x\<bar>" by simp
  then show ?thesis by (auto simp: rnd_def abs_if split: if_splits)
qed

lemma rnd_of_int_exact: "0 < p \<Longrightarrow> \<bar>m\<bar> \<le> 2 ^ p \<Longrightarrow> rnd p s (of_int m :: rat) = of_int m"
  by (rule rnd_exact [where m = m and e = s]) simp_all

lemma rnd_nn_error:
  fixes x :: rat
  assumes "0 < p" "0 \<le> x"
  shows "\<bar>rnd_nn p s x - x\<bar> \<le> x / 2 ^ p + 1 / 2 ^ (s + 1)"
proof -
  define k where "k = excess p \<lfloor>x * 2 ^ s\<rfloor>"
  have "\<bar>of_int (rhe (x * 2 ^ s / 2 ^ k)) - x * 2 ^ s / 2 ^ k\<bar> \<le> 1 / 2" by (rule rhe_error)
  then have "\<bar>of_int (rhe (x * 2 ^ s / 2 ^ k)) - x * 2 ^ s / 2 ^ k\<bar> * (2 ^ k / 2 ^ s)
      \<le> 1 / 2 * (2 ^ k / 2 ^ s)" by (intro mult_right_mono) simp_all
  also have "\<bar>of_int (rhe (x * 2 ^ s / 2 ^ k)) - x * 2 ^ s / 2 ^ k\<bar> * (2 ^ k / 2 ^ s)
      = \<bar>(of_int (rhe (x * 2 ^ s / 2 ^ k)) - x * 2 ^ s / 2 ^ k) * (2 ^ k / 2 ^ s)\<bar>"
    by (simp add: abs_mult)
  also have "(of_int (rhe (x * 2 ^ s / 2 ^ k)) - x * 2 ^ s / 2 ^ k) * (2 ^ k / 2 ^ s)
      = rnd_nn p s x - x"
    by (simp add: rnd_nn_def Let_def field_simps flip: k_def)
  finally have err: "\<bar>rnd_nn p s x - x\<bar> \<le> 1 / 2 * (2 ^ k / 2 ^ s)" .
  show ?thesis
  proof (cases "k = 0")
    case True
    have "0 \<le> x / 2 ^ p" using assms(2) by simp
    moreover have "1 / 2 * (2 ^ k / 2 ^ s) = (1::rat) / 2 ^ (s + 1)" using True by simp
    ultimately show ?thesis using err by linarith
  next
    case False
    have "2 ^ (p - 1) \<le> x * 2 ^ s / 2 ^ k"
      using scaled_ge_pow [of p x s] False assms(1) by (simp add: k_def)
    then have "2 ^ (p - 1) * 2 * (2 ^ k / 2 ^ s) \<le> x * 2" by (simp add: divide_simps mult.commute)
    then have "2 ^ p * (2 ^ k / 2 ^ s) \<le> x * 2" using assms(1) by (simp flip: power_Suc2)
    then have "1 / 2 * (2 ^ k / 2 ^ s) \<le> x / 2 ^ p" by (simp add: divide_simps mult.commute)
    moreover have "(0::rat) \<le> 1 / 2 ^ (s + 1)" by simp
    ultimately show ?thesis using err by linarith
  qed
qed

lemma rnd_error:
  fixes x :: rat
  assumes "0 < p"
  shows "\<bar>rnd p s x - x\<bar> \<le> \<bar>x\<bar> / 2 ^ p + 1 / 2 ^ (s + 1)"
proof (cases "x < 0")
  case True
  then show ?thesis
    using rnd_nn_error [of p "- x" s] assms by (simp add: rnd_def abs_minus_commute)
next
  case False
  then show ?thesis using rnd_nn_error [of p x s] assms by (simp add: rnd_def)
qed

text \<open>The numbers of the format: the results of rounding, and what rounding keeps.\<close>

definition repr :: "nat \<Rightarrow> nat \<Rightarrow> rat \<Rightarrow> bool" where
  "repr p s x \<longleftrightarrow> (\<exists>m e. \<bar>m\<bar> \<le> 2 ^ p \<and> x * 2 ^ s = of_int m * 2 ^ e)"

lemma rnd_repr [simp]: "0 < p \<Longrightarrow> repr p s x \<Longrightarrow> rnd p s x = x"
  by (auto simp: repr_def intro: rnd_exact)

lemma repr_uminus [simp]: "repr p s (- x) = repr p s x"
proof -
  have "repr p s (- y)" if y: "repr p s y" for y
  proof -
    obtain m e where "\<bar>m\<bar> \<le> 2 ^ p" "y * 2 ^ s = of_int m * 2 ^ e" using y by (auto simp: repr_def)
    then have "\<bar>- m\<bar> \<le> 2 ^ p" "- y * 2 ^ s = of_int (- m) * 2 ^ e" by simp_all
    then show ?thesis unfolding repr_def by blast
  qed
  from this [of x] this [of "- x"] show ?thesis by auto
qed

lemma repr_rnd_nn: "0 \<le> x \<Longrightarrow> repr p s (rnd_nn p s x)"
proof -
  assume x: "0 \<le> x"
  let ?m = "rhe (x * 2 ^ s / 2 ^ excess p \<lfloor>x * 2 ^ s\<rfloor>)"
  have "?m \<le> 2 ^ p" using scaled_le_pow [OF x, of s p] by (intro rhe_le_pow) simp
  moreover have "0 \<le> ?m"
    using x rhe_mono [of 0 "x * 2 ^ s / 2 ^ excess p \<lfloor>x * 2 ^ s\<rfloor>"] by (simp add: rhe_0)
  moreover have "rnd_nn p s x * 2 ^ s = of_int ?m * 2 ^ excess p \<lfloor>x * 2 ^ s\<rfloor>"
    by (simp add: rnd_nn_def Let_def)
  ultimately show ?thesis unfolding repr_def by (metis abs_of_nonneg)
qed

lemma repr_rnd [simp]: "repr p s (rnd p s x)"
  by (auto simp: rnd_def intro: repr_rnd_nn)

lemma repr_mult_pow2: "repr p s x \<Longrightarrow> repr p s (x * 2 ^ j)"
proof -
  assume "repr p s x"
  then obtain m e where m: "\<bar>m\<bar> \<le> 2 ^ p" "x * 2 ^ s = of_int m * 2 ^ e" by (auto simp: repr_def)
  have "x * 2 ^ j * 2 ^ s = of_int m * 2 ^ (e + j)"
    using m(2) by (simp add: power_add mult.assoc mult.commute [of "2 ^ j"] flip: mult.assoc)
  then show ?thesis using m(1) unfolding repr_def by blast
qed

lemma reprI: "\<bar>m\<bar> \<le> 2 ^ p \<Longrightarrow> j \<le> s \<Longrightarrow> x = of_int m / 2 ^ j \<Longrightarrow> repr p s x"
proof -
  assume a: "\<bar>m\<bar> \<le> 2 ^ p" "j \<le> s" "x = of_int m / 2 ^ j"
  have "(2::rat) ^ s = 2 ^ j * 2 ^ (s - j)" using a(2) by (simp flip: power_add)
  then have "x * 2 ^ s = of_int m * 2 ^ (s - j)" using a(3) by simp
  then show ?thesis using a(1) unfolding repr_def by blast
qed

text \<open>Rounding never crosses a number of the format.\<close>

lemma rnd_le_repr: "0 < p \<Longrightarrow> x \<le> y \<Longrightarrow> repr p s y \<Longrightarrow> rnd p s x \<le> y"
  using rnd_mono [of p x y s] by simp

lemma repr_le_rnd: "0 < p \<Longrightarrow> y \<le> x \<Longrightarrow> repr p s y \<Longrightarrow> y \<le> rnd p s x"
  using rnd_mono [of p y x s] by simp

text \<open>
  The certificate by which a concrete rounding is evaluated: the scale \<open>t\<close> that brings \<open>x\<close> into
  \<open>[2^(p-1), 2^p)\<close> and the integer \<open>m\<close> nearest to \<open>x * 2^t\<close>.
\<close>

lemma rnd_eqI:
  fixes x :: rat
  assumes "0 < p" "t \<le> s" "2 ^ (p - 1) \<le> x * 2 ^ t" "x * 2 ^ t < 2 ^ p"
    and near: "\<bar>x * 2 ^ t - of_int m\<bar> < 1 / 2"
  shows "rnd p s x = of_int m / 2 ^ t"
proof -
  define k where "k = excess p \<lfloor>x * 2 ^ s\<rfloor>"
  have pos: "0 \<le> x"
    using assms(3) by (metis (no_types, opaque_lifting) less_le_not_le linorder_not_le
      mult_neg_pos order_trans zero_less_numeral zero_less_power)
  have split_s: "(2::rat) ^ s = 2 ^ t * 2 ^ (s - t)" using assms(2) by (simp flip: power_add)
  have "x * 2 ^ s < of_int (2 ^ (p + (s - t)))"
    using mult_strict_right_mono [OF assms(4), of "2 ^ (s - t)"]
    by (simp add: split_s power_add mult.assoc)
  then have "\<lfloor>x * 2 ^ s\<rfloor> < 2 ^ (p + (s - t))" by (simp only: floor_less_iff)
  then have le: "k \<le> s - t" unfolding k_def by (rule excess_leI)
  have "of_int (2 ^ (p - 1 + (s - t))) \<le> x * 2 ^ s"
    using mult_right_mono [OF assms(3), of "2 ^ (s - t)"]
    by (simp add: split_s power_add mult.assoc)
  then have "2 ^ (p - 1 + (s - t)) \<le> \<lfloor>x * 2 ^ s\<rfloor>" by (simp only: le_floor_iff)
  also have "\<dots> < 2 ^ (p + k)" unfolding k_def by (rule excess_upper)
  finally have "p - 1 + (s - t) < p + k" using power_less_imp_less_exp [of "2::int"] by simp
  then have k: "k = s - t" using le assms(1) by linarith
  have m: "rhe (x * 2 ^ t) = m"
  proof -
    have "\<bar>of_int (rhe (x * 2 ^ t)) - x * 2 ^ t\<bar> \<le> 1 / 2" by (rule rhe_error)
    then have "\<bar>of_int (rhe (x * 2 ^ t)) - (of_int m :: rat)\<bar> < 1" using near by linarith
    then have "\<bar>of_int (rhe (x * 2 ^ t) - m) :: rat\<bar> < of_int 1" by simp
    then have "\<bar>rhe (x * 2 ^ t) - m\<bar> < 1" by (simp only: of_int_abs [symmetric] of_int_less_iff)
    then show ?thesis by simp
  qed
  have "x * 2 ^ s / 2 ^ k = x * 2 ^ t" by (simp add: k split_s)
  then have "rnd_nn p s x = of_int m * 2 ^ k / 2 ^ s" by (simp add: rnd_nn_def Let_def m flip: k_def)
  then show ?thesis using pos by (simp add: rnd_def k split_s)
qed

section \<open>Floating-point values and operations\<close>

datatype fp = Fin rat | PInf | NInf | NaN

type_synonym f32 = fp
type_synonym f64 = fp

definition fp_round :: "nat \<Rightarrow> nat \<Rightarrow> nat \<Rightarrow> rat \<Rightarrow> fp" where
  "fp_round p s emax x =
     (let r = rnd p s x in if 2 ^ emax \<le> r then PInf else if r \<le> - (2 ^ emax) then NInf else Fin r)"

definition f32 :: "rat \<Rightarrow> f32" where "f32 = fp_round 24 149 128"
definition f64 :: "rat \<Rightarrow> f64" where "f64 = fp_round 53 1074 1024"

abbreviation rnd32 :: "rat \<Rightarrow> rat" where "rnd32 \<equiv> rnd 24 149"
abbreviation rnd64 :: "rat \<Rightarrow> rat" where "rnd64 \<equiv> rnd 53 1074"

fun fp_neg :: "fp \<Rightarrow> fp" where
  "fp_neg (Fin x) = Fin (- x)"
| "fp_neg PInf = NInf"
| "fp_neg NInf = PInf"
| "fp_neg NaN = NaN"

fun fp_add :: "(rat \<Rightarrow> fp) \<Rightarrow> fp \<Rightarrow> fp \<Rightarrow> fp" where
  "fp_add R (Fin x) (Fin y) = R (x + y)"
| "fp_add R NaN b = NaN"
| "fp_add R a NaN = NaN"
| "fp_add R PInf NInf = NaN"
| "fp_add R NInf PInf = NaN"
| "fp_add R PInf b = PInf"
| "fp_add R NInf b = NInf"
| "fp_add R a PInf = PInf"
| "fp_add R a NInf = NInf"

definition fp_sub :: "(rat \<Rightarrow> fp) \<Rightarrow> fp \<Rightarrow> fp \<Rightarrow> fp" where
  "fp_sub R a b = fp_add R a (fp_neg b)"

fun fp_mul :: "(rat \<Rightarrow> fp) \<Rightarrow> fp \<Rightarrow> fp \<Rightarrow> fp" where
  "fp_mul R (Fin x) (Fin y) = R (x * y)"
| "fp_mul R NaN b = NaN"
| "fp_mul R a NaN = NaN"
| "fp_mul R (Fin x) PInf = (if x = 0 then NaN else if x < 0 then NInf else PInf)"
| "fp_mul R (Fin x) NInf = (if x = 0 then NaN else if x < 0 then PInf else NInf)"
| "fp_mul R PInf (Fin x) = (if x = 0 then NaN else if x < 0 then NInf else PInf)"
| "fp_mul R NInf (Fin x) = (if x = 0 then NaN else if x < 0 then PInf else NInf)"
| "fp_mul R PInf PInf = PInf"
| "fp_mul R PInf NInf = NInf"
| "fp_mul R NInf PInf = NInf"
| "fp_mul R NInf NInf = PInf"

text \<open>Division by a positive constant, the only division the code performs.\<close>

fun fp_divc :: "(rat \<Rightarrow> fp) \<Rightarrow> fp \<Rightarrow> rat \<Rightarrow> fp" where
  "fp_divc R (Fin x) c = R (x / c)"
| "fp_divc R a c = a"

text \<open>Comparisons are false when an operand is a NaN.\<close>

fun fp_le :: "fp \<Rightarrow> fp \<Rightarrow> bool" where
  "fp_le (Fin x) (Fin y) = (x \<le> y)"
| "fp_le NaN b = False"
| "fp_le a NaN = False"
| "fp_le NInf b = True"
| "fp_le a PInf = True"
| "fp_le (Fin x) NInf = False"
| "fp_le PInf b = False"

fun fp_lt :: "fp \<Rightarrow> fp \<Rightarrow> bool" where
  "fp_lt (Fin x) (Fin y) = (x < y)"
| "fp_lt NaN b = False"
| "fp_lt a NaN = False"
| "fp_lt NInf NInf = False"
| "fp_lt NInf b = True"
| "fp_lt PInf b = False"
| "fp_lt a PInf = True"
| "fp_lt (Fin x) NInf = False"

fun fp_finite :: "fp \<Rightarrow> bool" where
  "fp_finite (Fin x) = True"
| "fp_finite _ = False"

text \<open>Conversions: a cast to a narrower format rounds once more; a cast to an integer type
  truncates, and is undefined (\<open>None\<close>) when the truncated value does not fit.\<close>

fun fp_cast :: "(rat \<Rightarrow> fp) \<Rightarrow> fp \<Rightarrow> fp" where
  "fp_cast R (Fin x) = R x"
| "fp_cast R a = a"

definition trunc :: "rat \<Rightarrow> int" where
  "trunc x = (if x < 0 then - \<lfloor>- x\<rfloor> else \<lfloor>x\<rfloor>)"

fun fp_to_int :: "int \<Rightarrow> int \<Rightarrow> fp \<Rightarrow> int option" where
  "fp_to_int lo hi (Fin x) = (if lo \<le> trunc x \<and> trunc x \<le> hi then Some (trunc x) else None)"
| "fp_to_int lo hi _ = None"

lemma trunc_uminus: "trunc (- x) = - trunc x"
  by (cases x "0 :: rat" rule: linorder_cases) (simp_all add: trunc_def)

lemma trunc_of_int [simp]: "trunc (of_int z) = z"
  by (simp add: trunc_def)

lemma trunc_mono: "x \<le> y \<Longrightarrow> trunc x \<le> trunc y"
proof -
  assume le: "x \<le> y"
  consider "0 \<le> x" | "x < 0" "0 \<le> y" | "y < 0" by linarith
  then show ?thesis
  proof cases
    case 1
    then show ?thesis using le by (simp add: trunc_def floor_mono)
  next
    case 2
    then have "0 \<le> \<lfloor>- x\<rfloor>" "0 \<le> \<lfloor>y\<rfloor>" by simp_all
    moreover have "trunc x = - \<lfloor>- x\<rfloor>" "trunc y = \<lfloor>y\<rfloor>" using 2 by (simp_all add: trunc_def)
    ultimately show ?thesis by linarith
  next
    case 3
    then show ?thesis using le by (simp add: trunc_def floor_mono)
  qed
qed

lemma trunc_bound: "\<bar>x\<bar> < of_int b \<Longrightarrow> \<bar>trunc x\<bar> < b"
proof -
  assume "\<bar>x\<bar> < of_int b"
  then have "\<lfloor>\<bar>x\<bar>\<rfloor> < b" by (simp add: floor_less_iff)
  moreover have "\<bar>trunc x\<bar> = \<lfloor>\<bar>x\<bar>\<rfloor>"
  proof (cases "x < 0")
    case True
    then have "0 \<le> \<lfloor>- x\<rfloor>" by simp
    then have "\<bar>- \<lfloor>- x\<rfloor>\<bar> = \<lfloor>- x\<rfloor>" by linarith
    then show ?thesis using True by (simp add: trunc_def abs_of_neg)
  qed (simp add: trunc_def)
  ultimately show ?thesis by simp
qed

lemma fp_round_Fin:
  assumes "0 < p" "p \<le> emax" "\<bar>x\<bar> \<le> 2 ^ (emax - 1)" "0 < emax"
  shows "fp_round p s emax x = Fin (rnd p s x)"
proof -
  have c: "rnd p s (2 ^ (emax - 1) :: rat) = 2 ^ (emax - 1)"
    by (rule rnd_exact [where m = 1 and e = "emax - 1 + s"]) (use assms in \<open>simp_all only: power_add mult_1 of_int_1 abs_one one_le_power one_le_numeral\<close>)
  have "rnd p s x \<le> rnd p s (2 ^ (emax - 1) :: rat)" "rnd p s (- (2 ^ (emax - 1)) :: rat) \<le> rnd p s x"
    by (rule rnd_mono; use assms in linarith)+
  then have "\<bar>rnd p s x\<bar> \<le> 2 ^ (emax - 1)" unfolding rnd_uminus c abs_le_iff by linarith
  moreover have "(2::rat) ^ (emax - 1) < 2 ^ emax" using assms by simp
  ultimately have "\<not> 2 ^ emax \<le> rnd p s x" "\<not> rnd p s x \<le> - (2 ^ emax)"
    by linarith+
  then show ?thesis by (simp add: fp_round_def)
qed

lemma f32_Fin: "\<bar>x\<bar> \<le> 2 ^ 127 \<Longrightarrow> f32 x = Fin (rnd32 x)"
  unfolding f32_def using fp_round_Fin [of 24 128 x 149] by simp

lemma f64_Fin: "\<bar>x\<bar> \<le> 2 ^ 1023 \<Longrightarrow> f64 x = Fin (rnd64 x)"
  unfolding f64_def using fp_round_Fin [of 53 1024 x 1074] by (simp del: power_numeral)

lemma f32_of_int: "\<bar>m\<bar> \<le> 2 ^ 24 \<Longrightarrow> f32 (of_int m) = Fin (of_int m)"
proof -
  assume m: "\<bar>m\<bar> \<le> 2 ^ 24"
  then have "\<bar>rat_of_int m\<bar> \<le> of_int (2 ^ 24)" by (simp only: of_int_abs [symmetric] of_int_le_iff)
  then have "f32 (of_int m) = Fin (rnd32 (of_int m))" by (intro f32_Fin) simp
  then show ?thesis using m by (simp add: rnd_of_int_exact)
qed

lemma f64_of_int: "\<bar>m\<bar> \<le> 2 ^ 53 \<Longrightarrow> f64 (of_int m) = Fin (of_int m)"
proof -
  assume m: "\<bar>m\<bar> \<le> 2 ^ 53"
  then have "\<bar>rat_of_int m\<bar> \<le> of_int (2 ^ 53)" by (simp only: of_int_abs [symmetric] of_int_le_iff)
  then have "f64 (of_int m) = Fin (rnd64 (of_int m))"
    by (intro f64_Fin) (erule order_trans, simp)
  then show ?thesis using m by (simp add: rnd_of_int_exact)
qed

lemma f32_range: "f32 x = Fin r \<Longrightarrow> \<bar>r\<bar> < 2 ^ 128"
  by (auto simp: f32_def fp_round_def Let_def abs_less_iff split: if_splits)

lemma f32_not_NaN [simp]: "f32 x \<noteq> NaN"
  by (simp add: f32_def fp_round_def Let_def)

end
