(* ===== verification/Ring.thy ===== *)
theory Ring
  imports Prelude
begin

text \<open>
  The circular buffers of \<open>client/native/libvoice_engine.c\<close>: the 32768-slot capture ring and
  the ring of every \<open>PeerStream\<close>. Both are an array, a read and a write index advanced by
  \<open>(idx + 1) % RING_BUFFER_SIZE\<close>, with no test for a full ring. The array is a function on slot
  numbers; that every index stays below \<open>RING_BUFFER_SIZE\<close> is proved, not assumed.
  \<open>bounded_fifo\<close> is the queue the clients rely on, \<open>sample_ring\<close> the index discipline the code
  follows, and the \<open>sublocale\<close> the proof that the discipline gives the queue.
\<close>

section \<open>Index arithmetic\<close>

definition RING_BUFFER_SIZE :: u32 where
  "RING_BUFFER_SIZE = 32768"

definition ring_next :: "u32 \<Rightarrow> u32" where
  "ring_next i = (i + 1) mod RING_BUFFER_SIZE"

definition ring_available :: "u32 \<Rightarrow> u32 \<Rightarrow> u32" where
  "ring_available r w = (if r \<le> w then w - r else RING_BUFFER_SIZE - r + w)"

definition ring_contents :: "(nat \<Rightarrow> i16) \<Rightarrow> u32 \<Rightarrow> u32 \<Rightarrow> i16 list" where
  "ring_contents b r w = map (\<lambda>i. b ((unat r + i) mod 32768)) [0..<unat (ring_available r w)]"

definition ring_valid :: "u32 \<Rightarrow> u32 \<Rightarrow> bool" where
  "ring_valid r w \<longleftrightarrow> unat r < 32768 \<and> unat w < 32768"

lemma unat_ring_next [ring_simps]: "unat (ring_next i) = (unat i + 1) mod 32768"
proof -
  have "unat (ring_next i) = unat (i + 1) mod 32768"
    by (simp add: ring_next_def RING_BUFFER_SIZE_def unat_mod)
  also have "unat (i + 1) = (unat i + 1) mod 2 ^ 32"
    by (simp add: unat_word_ariths)
  also have "(unat i + 1) mod 2 ^ 32 mod 32768 = (unat i + 1) mod 32768"
    by (rule mod_mod_cancel) simp
  finally show ?thesis .
qed

lemma ring_next_less [simp]: "unat (ring_next i) < 32768"
  by (simp add: unat_ring_next)

lemma ring_next_0_32768 [simp]: "ring_next 0 = 1"
  by (simp add: ring_next_def RING_BUFFER_SIZE_def)

lemma ring_next_cases:
  "unat i < 32768 \<Longrightarrow> unat (ring_next i) = (if unat i = 32767 then 0 else unat i + 1)"
  by (auto simp: unat_ring_next)

lemma wrap_cases:
  "a < 32768 \<Longrightarrow> i < 32768 \<Longrightarrow> (a + i) mod 32768 = (if a + i < 32768 then a + i else a + i - 32768)"
  for a i :: nat
  by (simp add: mod_if)

lemma unat_ring_available [ring_simps]:
  assumes "ring_valid r w"
  shows "unat (ring_available r w) =
    (if unat r \<le> unat w then unat w - unat r else 32768 - unat r + unat w)"
proof (cases "r \<le> w")
  case True
  then have le: "unat r \<le> unat w" by (simp add: word_le_nat_alt)
  then show ?thesis using True by (simp add: ring_available_def unat_sub_if')
next
  case False
  then have lt: "unat w < unat r" by (simp add: word_le_nat_alt)
  have "r \<le> 32768" using assms by (simp add: ring_valid_def word_le_nat_alt)
  then have "unat (32768 - r) = 32768 - unat r"
    by (simp add: unat_sub)
  then have "unat (32768 - r + w) = 32768 - unat r + unat w"
    using assms lt by (simp add: unat_word_ariths ring_valid_def)
  then show ?thesis
    using False lt by (simp add: ring_available_def RING_BUFFER_SIZE_def)
qed

lemma ring_available_less: "ring_valid r w \<Longrightarrow> unat (ring_available r w) < 32768"
  by (auto simp: unat_ring_available ring_valid_def)

lemma length_ring_contents [simp]: "length (ring_contents b r w) = unat (ring_available r w)"
  by (simp add: ring_contents_def)

lemma ring_available_0_iff: "ring_valid r w \<Longrightarrow> unat (ring_available r w) = 0 \<longleftrightarrow> r = w"
  by (auto simp: unat_ring_available ring_valid_def word_unat_eq_iff)

lemma ring_contents_empty_iff: "ring_valid r w \<Longrightarrow> ring_contents b r w = [] \<longleftrightarrow> r = w"
  using ring_available_0_iff [of r w] by (metis length_0_conv length_ring_contents)

lemma ring_available_put:
  assumes "ring_valid r w"
  shows "unat (ring_available r (ring_next w)) =
    (if unat (ring_available r w) = 32767 then 0 else unat (ring_available r w) + 1)"
proof -
  have v: "ring_valid r (ring_next w)" using assms by (simp add: ring_valid_def)
  show ?thesis
    using assms unfolding unat_ring_available [OF v] unat_ring_available [OF assms]
    by (auto simp: ring_next_cases ring_valid_def)
qed

lemma ring_available_get:
  assumes "ring_valid r w" "r \<noteq> w"
  shows "unat (ring_available (ring_next r) w) = unat (ring_available r w) - 1"
proof -
  have v: "ring_valid (ring_next r) w" using assms by (simp add: ring_valid_def)
  have "unat r \<noteq> unat w" using assms(2) by (simp add: word_unat_eq_iff)
  then show ?thesis
    using assms unfolding unat_ring_available [OF v] unat_ring_available [OF assms(1)]
    by (auto simp: ring_next_cases ring_valid_def)
qed

text \<open>Writing one slot and advancing: the queue grows at its end, unless 32767 samples are
  pending, when the write index meets the read index and the whole queue is lost.\<close>

lemma ring_contents_put:
  assumes v: "ring_valid r w"
  shows "ring_contents (b(unat w := x)) r (ring_next w) =
    (if unat (ring_available r w) = 32767 then [] else ring_contents b r w @ [x])"
proof (cases "unat (ring_available r w) = 32767")
  case True
  then show ?thesis using ring_available_put [OF v] by (simp add: ring_contents_def)
next
  case False
  let ?n = "unat (ring_available r w)"
  have n: "?n < 32767" using False ring_available_less [OF v] by linarith
  have slot: "(unat r + i) mod 32768 = unat w \<longleftrightarrow> i = ?n" if "i \<le> ?n" for i
    using that n v
    by (auto simp: wrap_cases unat_ring_available [OF v] ring_valid_def split: if_splits)
  have "unat (ring_available r (ring_next w)) = Suc ?n"
    using ring_available_put [OF v] n by simp
  then show ?thesis
    using False slot by (auto simp: ring_contents_def)
qed

lemma ring_contents_get:
  assumes v: "ring_valid r w" and ne: "r \<noteq> w"
  shows "ring_contents b r w = b (unat r) # ring_contents b (ring_next r) w"
proof -
  let ?n = "unat (ring_available r w)"
  have pos: "?n = Suc (?n - 1)"
    using ring_available_0_iff [OF v] ne by simp
  have "ring_contents b r w = map (\<lambda>i. b ((unat r + i) mod 32768)) [0..<Suc (?n - 1)]"
    unfolding ring_contents_def using pos by simp
  also have "\<dots> = b (unat r mod 32768)
      # map (\<lambda>i. b ((unat r + Suc i) mod 32768)) [0..<?n - 1]"
    by (simp add: map_upt_Suc del: upt_Suc)
  also have "map (\<lambda>i. b ((unat r + Suc i) mod 32768)) [0..<?n - 1]
      = ring_contents b (ring_next r) w"
    using ring_available_get [OF v ne]
    by (auto simp: ring_contents_def unat_ring_next mod_simps)
  finally show ?thesis using v by (simp add: ring_valid_def)
qed

section \<open>The queue a client sees\<close>

text \<open>The loop that takes \<open>n\<close> samples, whatever the ring.\<close>

fun take_samples :: "('s \<Rightarrow> i16 \<times> 's) \<Rightarrow> nat \<Rightarrow> 's \<Rightarrow> i16 list \<times> 's" where
  "take_samples g 0 s = ([], s)"
| "take_samples g (Suc n) s =
     (let (x, s1) = g s; (xs, s2) = take_samples g n s1 in (x # xs, s2))"

lemma length_take_samples [simp]: "length (fst (take_samples g n s)) = n"
  by (induction g n s rule: take_samples.induct) (auto simp: Let_def split: prod.splits)

locale bounded_fifo =
  fixes valid :: "'s \<Rightarrow> bool"
    and contents :: "'s \<Rightarrow> i16 list"
    and put :: "i16 \<Rightarrow> 's \<Rightarrow> 's"
    and get :: "'s \<Rightarrow> i16 \<times> 's"
    and cap :: nat
  assumes valid_put: "valid s \<Longrightarrow> valid (put x s)"
    and valid_get: "valid s \<Longrightarrow> valid (snd (get s))"
    and contents_cap: "valid s \<Longrightarrow> length (contents s) \<le> cap"
    and contents_put:
      "valid s \<Longrightarrow> contents (put x s) = (if length (contents s) = cap then [] else contents s @ [x])"
    and contents_get:
      "valid s \<Longrightarrow> contents s = x # xs \<Longrightarrow> fst (get s) = x \<and> contents (snd (get s)) = xs"
begin

lemma valid_fold: "valid s \<Longrightarrow> valid (fold put xs s)"
  by (induction xs arbitrary: s) (auto intro: valid_put)

lemma contents_fold:
  assumes "valid s" "length (contents s) + length xs \<le> cap"
  shows "contents (fold put xs s) = contents s @ xs"
  using assms
proof (induction xs arbitrary: s)
  case Nil
  then show ?case by simp
next
  case (Cons x xs)
  then have c: "contents (put x s) = contents s @ [x]" by (simp add: contents_put)
  with Cons show ?case by (simp add: valid_put)
qed

lemma pending_fold:
  assumes "valid s"
  shows "length (contents (fold put xs s)) = (length (contents s) + length xs) mod (cap + 1)"
  using assms
proof (induction xs arbitrary: s)
  case Nil
  then show ?case using contents_cap [of s] by simp
next
  case (Cons x xs)
  have "length (contents (put x s)) = (length (contents s) + 1) mod (cap + 1)"
    using Cons.prems contents_cap [of s] by (simp add: contents_put)
  then have "length (contents (fold put (x # xs) s))
      = ((length (contents s) + 1) mod (cap + 1) + length xs) mod (cap + 1)"
    using Cons.IH [of "put x s"] Cons.prems by (simp add: valid_put)
  also have "\<dots> = (length (contents s) + length (x # xs)) mod (cap + 1)"
    by (simp add: mod_add_left_eq)
  finally show ?case .
qed

lemma take_samples_contents:
  assumes "valid s" "n \<le> length (contents s)"
  shows "fst (take_samples get n s) = take n (contents s)
    \<and> contents (snd (take_samples get n s)) = drop n (contents s)
    \<and> valid (snd (take_samples get n s))"
  using assms
proof (induction n arbitrary: s)
  case 0
  then show ?case by simp
next
  case (Suc n)
  then obtain x xs where c: "contents s = x # xs" by (cases "contents s") auto
  then have g: "fst (get s) = x" "contents (snd (get s)) = xs"
    using contents_get [OF Suc.prems(1) c] by auto
  have "n \<le> length (contents (snd (get s)))" using Suc.prems(2) c g by simp
  from Suc.IH [OF valid_get [OF Suc.prems(1)] this] show ?case
    using c g by (auto simp: Let_def split: prod.splits)
qed

text \<open>What was written comes out, in order, once room was left for it.\<close>

lemma fifo_roundtrip:
  assumes "valid s" "contents s = []" "length xs \<le> cap"
  shows "fst (take_samples get (length xs) (fold put xs s)) = xs"
  using assms take_samples_contents [of "fold put xs s" "length xs"]
  by (simp add: valid_fold contents_fold)

end

section \<open>The index discipline of the code\<close>

locale sample_ring =
  fixes buf :: "'s \<Rightarrow> nat \<Rightarrow> i16"
    and rd :: "'s \<Rightarrow> u32"
    and wr :: "'s \<Rightarrow> u32"
    and put :: "i16 \<Rightarrow> 's \<Rightarrow> 's"
    and get :: "'s \<Rightarrow> i16 \<times> 's"
  assumes rd_put: "rd (put x s) = rd s"
    and wr_put: "wr (put x s) = ring_next (wr s)"
    and buf_put: "buf (put x s) = (buf s)(unat (wr s) := x)"
    and get_val: "fst (get s) = buf s (unat (rd s))"
    and rd_get: "rd (snd (get s)) = ring_next (rd s)"
    and wr_get: "wr (snd (get s)) = wr s"
    and buf_get: "buf (snd (get s)) = buf s"
begin

lemma ring_fifo:
  "bounded_fifo (\<lambda>s. ring_valid (rd s) (wr s)) (\<lambda>s. ring_contents (buf s) (rd s) (wr s)) put get 32767"
proof
  fix s x xs
  assume v: "ring_valid (rd s) (wr s)"
  show "ring_valid (rd (put x s)) (wr (put x s))"
    using v by (simp add: rd_put wr_put ring_valid_def)
  show "ring_valid (rd (snd (get s))) (wr (snd (get s)))"
    using v by (simp add: rd_get wr_get ring_valid_def)
  show "length (ring_contents (buf s) (rd s) (wr s)) \<le> 32767"
    using ring_available_less [OF v] by simp
  show "ring_contents (buf (put x s)) (rd (put x s)) (wr (put x s)) =
      (if length (ring_contents (buf s) (rd s) (wr s)) = 32767 then []
       else ring_contents (buf s) (rd s) (wr s) @ [x])"
    using ring_contents_put [OF v, of "buf s" x] by (simp add: rd_put wr_put buf_put)
  assume c: "ring_contents (buf s) (rd s) (wr s) = x # xs"
  then have "rd s \<noteq> wr s" using ring_contents_empty_iff [OF v] by auto
  from ring_contents_get [OF v this, of "buf s"] c
  show "fst (get s) = x \<and> ring_contents (buf (snd (get s))) (rd (snd (get s))) (wr (snd (get s))) = xs"
    by (simp add: get_val rd_get wr_get buf_get)
qed

end

sublocale sample_ring \<subseteq>
  bounded_fifo "\<lambda>s. ring_valid (rd s) (wr s)" "\<lambda>s. ring_contents (buf s) (rd s) (wr s)" put get 32767
  by (rule ring_fifo)

end
