(* ===== verification/Engine_State.thy ===== *)
theory Engine_State
  imports CFloat Ring
begin

text \<open>
  The data of \<open>client/native/libvoice_engine.h\<close> and the static variables of
  \<open>libvoice_engine.c\<close>: configuration, statistics, peer streams, the engine's globals with
  their initial values, the audio mutex, and the two families of rings with their queue
  interpretations. The calls the engine makes into miniaudio are kept in a log, one entry per
  call with its result, so that the order of these calls can be reasoned about.
\<close>

section \<open>Structures\<close>

definition MAX_PEERS :: nat where "MAX_PEERS = 32"

definition SAMPLES_PER_FRAME :: u32 where "SAMPLES_PER_FRAME = 960"

record AudioEngineConfig =
  sample_rate :: u32
  channels :: u32
  frame_duration_ms :: u32
  opus_bitrate :: u32
  vad_threshold_db :: f32
  vad_hangover_ms :: u32

record AudioEngineStats =
  input_level_db :: f32
  stats_is_speaking :: bool
  packets_sent :: u32
  packets_received :: u32
  packets_lost :: u32
  current_jitter_ms :: f32

record PeerStream =
  user_id :: u32
  is_active :: bool
  is_speaking :: bool
  user_volume :: f32
  buffer :: "nat \<Rightarrow> i16"
  read_idx :: u32
  write_idx :: u32

datatype dev_kind = Capture | Playback

text \<open>The fields of \<open>ma_device_config\<close> the engine sets: sample format (always s16), channels of
  the device's side, sample rate, and the device asked for (\<open>None\<close> is the default device).\<close>

record 'i dev_config =
  dc_channels :: u32
  dc_sample_rate :: u32
  dc_device_id :: "'i option"

text \<open>One entry per call into miniaudio; the boolean is \<open>result == MA_SUCCESS\<close>. The log keeps
  with every call how often the caller held the audio mutex.\<close>

datatype 'i ma_call =
    Context_init bool
  | Context_uninit
  | Get_devices bool
  | Device_init dev_kind "'i dev_config" bool
  | Device_start dev_kind bool
  | Device_stop dev_kind
  | Device_uninit dev_kind

record 'i engine =
  g_config :: AudioEngineConfig
  g_stats :: AudioEngineStats
  g_initialized :: bool
  g_capturing :: bool
  g_playing :: bool
  g_local_muted :: bool
  g_local_deafened :: bool
  g_ptt_pressed :: bool
  g_vad_mode :: bool
  g_vad_threshold :: f32
  g_mic_test_loopback :: bool
  g_peers :: "nat \<Rightarrow> PeerStream"
  g_speaking_cb :: "nat option"
  g_packet_ready_cb :: "nat option"
  g_input_device_id :: string
  g_output_device_id :: string
  g_capture_ring :: "nat \<Rightarrow> i16"
  g_capture_read_idx :: u32
  g_capture_write_idx :: u32
  g_hangover_ms_left :: u32
  g_ma_context_initialized :: bool
  g_capture_device_initialized :: bool
  g_playback_device_initialized :: bool
  g_mutex_initialized :: bool
  mutex_depth :: nat
  ma_log :: "(nat \<times> 'i ma_call) list"

text \<open>Static storage: everything is zero unless it has an initialiser.\<close>

definition zero_config :: AudioEngineConfig where
  "zero_config = \<lparr>sample_rate = 0, channels = 0, frame_duration_ms = 0, opus_bitrate = 0,
     vad_threshold_db = Fin 0, vad_hangover_ms = 0\<rparr>"

definition zero_stats :: AudioEngineStats where
  "zero_stats = \<lparr>input_level_db = Fin 0, stats_is_speaking = False, packets_sent = 0,
     packets_received = 0, packets_lost = 0, current_jitter_ms = Fin 0\<rparr>"

definition zero_peer :: PeerStream where
  "zero_peer = \<lparr>user_id = 0, is_active = False, is_speaking = False, user_volume = Fin 0,
     buffer = (\<lambda>_. 0), read_idx = 0, write_idx = 0\<rparr>"

definition static_init :: "'i engine" where
  "static_init = \<lparr>g_config = zero_config, g_stats = zero_stats, g_initialized = False,
     g_capturing = False, g_playing = False, g_local_muted = False, g_local_deafened = False,
     g_ptt_pressed = False, g_vad_mode = True, g_vad_threshold = Fin (- 45),
     g_mic_test_loopback = False, g_peers = (\<lambda>_. zero_peer), g_speaking_cb = None,
     g_packet_ready_cb = None, g_input_device_id = ''default_input'',
     g_output_device_id = ''default_output'', g_capture_ring = (\<lambda>_. 0), g_capture_read_idx = 0,
     g_capture_write_idx = 0, g_hangover_ms_left = 0, g_ma_context_initialized = False,
     g_capture_device_initialized = False, g_playback_device_initialized = False,
     g_mutex_initialized = False, mutex_depth = 0, ma_log = []\<rparr>"

section \<open>The audio mutex\<close>

text \<open>A recursive mutex; \<open>mutex_depth\<close> is how often the calling thread holds it. Before
  \<open>init_cs\<close> and after \<open>destroy_cs\<close> locking does nothing, as in the code.\<close>

definition init_cs :: "'i engine \<Rightarrow> 'i engine" where
  "init_cs s = (if \<not> g_mutex_initialized s then s\<lparr>mutex_depth := 0, g_mutex_initialized := True\<rparr> else s)"

definition destroy_cs :: "'i engine \<Rightarrow> 'i engine" where
  "destroy_cs s = (if g_mutex_initialized s then s\<lparr>g_mutex_initialized := False\<rparr> else s)"

definition enter_cs :: "'i engine \<Rightarrow> 'i engine" where
  "enter_cs s = (if g_mutex_initialized s then s\<lparr>mutex_depth := Suc (mutex_depth s)\<rparr> else s)"

definition leave_cs :: "'i engine \<Rightarrow> 'i engine" where
  "leave_cs s = (if g_mutex_initialized s then s\<lparr>mutex_depth := mutex_depth s - 1\<rparr> else s)"

lemma leave_enter_cs [simp]: "leave_cs (enter_cs s) = s"
  by (simp add: enter_cs_def leave_cs_def)

text \<open>Locking touches only the mutex.\<close>

lemma enter_cs_frame [frame_simps]:
  "g_config (enter_cs s) = g_config s" "g_stats (enter_cs s) = g_stats s"
  "g_capturing (enter_cs s) = g_capturing s" "g_playing (enter_cs s) = g_playing s"
  "g_local_muted (enter_cs s) = g_local_muted s" "g_local_deafened (enter_cs s) = g_local_deafened s"
  "g_ptt_pressed (enter_cs s) = g_ptt_pressed s" "g_vad_mode (enter_cs s) = g_vad_mode s"
  "g_vad_threshold (enter_cs s) = g_vad_threshold s"
  "g_mic_test_loopback (enter_cs s) = g_mic_test_loopback s" "g_peers (enter_cs s) = g_peers s"
  "g_capture_ring (enter_cs s) = g_capture_ring s"
  "g_capture_read_idx (enter_cs s) = g_capture_read_idx s"
  "g_capture_write_idx (enter_cs s) = g_capture_write_idx s"
  "g_hangover_ms_left (enter_cs s) = g_hangover_ms_left s"
  "g_mutex_initialized (enter_cs s) = g_mutex_initialized s"
  "g_speaking_cb (enter_cs s) = g_speaking_cb s"
  "ma_log (enter_cs s) = ma_log s"
  by (simp_all add: enter_cs_def)

lemma leave_cs_frame [frame_simps]:
  "g_config (leave_cs s) = g_config s" "g_stats (leave_cs s) = g_stats s"
  "g_capturing (leave_cs s) = g_capturing s" "g_playing (leave_cs s) = g_playing s"
  "g_local_muted (leave_cs s) = g_local_muted s" "g_local_deafened (leave_cs s) = g_local_deafened s"
  "g_ptt_pressed (leave_cs s) = g_ptt_pressed s" "g_vad_mode (leave_cs s) = g_vad_mode s"
  "g_vad_threshold (leave_cs s) = g_vad_threshold s"
  "g_mic_test_loopback (leave_cs s) = g_mic_test_loopback s" "g_peers (leave_cs s) = g_peers s"
  "g_capture_ring (leave_cs s) = g_capture_ring s"
  "g_capture_read_idx (leave_cs s) = g_capture_read_idx s"
  "g_capture_write_idx (leave_cs s) = g_capture_write_idx s"
  "g_hangover_ms_left (leave_cs s) = g_hangover_ms_left s"
  "g_mutex_initialized (leave_cs s) = g_mutex_initialized s"
  "g_speaking_cb (leave_cs s) = g_speaking_cb s"
  "ma_log (leave_cs s) = ma_log s"
  by (simp_all add: leave_cs_def)

section \<open>The two kinds of ring\<close>

definition peer_put :: "i16 \<Rightarrow> PeerStream \<Rightarrow> PeerStream" where
  "peer_put x p = p\<lparr>buffer := (buffer p)(unat (write_idx p) := x),
                    write_idx := ring_next (write_idx p)\<rparr>"

definition peer_get :: "PeerStream \<Rightarrow> i16 \<times> PeerStream" where
  "peer_get p = (buffer p (unat (read_idx p)), p\<lparr>read_idx := ring_next (read_idx p)\<rparr>)"

definition capture_put :: "i16 \<Rightarrow> 'i engine \<Rightarrow> 'i engine" where
  "capture_put x s = s\<lparr>g_capture_ring := (g_capture_ring s)(unat (g_capture_write_idx s) := x),
                       g_capture_write_idx := ring_next (g_capture_write_idx s)\<rparr>"

definition capture_get :: "'i engine \<Rightarrow> i16 \<times> 'i engine" where
  "capture_get s = (g_capture_ring s (unat (g_capture_read_idx s)),
                    s\<lparr>g_capture_read_idx := ring_next (g_capture_read_idx s)\<rparr>)"

abbreviation peer_pending :: "PeerStream \<Rightarrow> i16 list" where
  "peer_pending p \<equiv> ring_contents (buffer p) (read_idx p) (write_idx p)"

abbreviation peer_valid :: "PeerStream \<Rightarrow> bool" where
  "peer_valid p \<equiv> ring_valid (read_idx p) (write_idx p)"

abbreviation capture_pending :: "'i engine \<Rightarrow> i16 list" where
  "capture_pending s \<equiv>
     ring_contents (g_capture_ring s) (g_capture_read_idx s) (g_capture_write_idx s)"

abbreviation capture_valid :: "'i engine \<Rightarrow> bool" where
  "capture_valid s \<equiv> ring_valid (g_capture_read_idx s) (g_capture_write_idx s)"

interpretation peer_ring: sample_ring buffer read_idx write_idx peer_put peer_get
  by unfold_locales (simp_all add: peer_put_def peer_get_def)

interpretation capture_queue: sample_ring g_capture_ring g_capture_read_idx g_capture_write_idx
    capture_put capture_get
  by unfold_locales (simp_all add: capture_put_def capture_get_def)

lemma peer_put_frame [frame_simps]:
  "user_id (peer_put x p) = user_id p" "is_active (peer_put x p) = is_active p"
  "is_speaking (peer_put x p) = is_speaking p" "user_volume (peer_put x p) = user_volume p"
  "read_idx (peer_put x p) = read_idx p"
  by (simp_all add: peer_put_def)

lemma fold_peer_put_frame [frame_simps]:
  "user_id (fold peer_put xs p) = user_id p" "is_active (fold peer_put xs p) = is_active p"
  "is_speaking (fold peer_put xs p) = is_speaking p"
  "user_volume (fold peer_put xs p) = user_volume p" "read_idx (fold peer_put xs p) = read_idx p"
  by (induction xs arbitrary: p) (simp_all add: frame_simps)

section \<open>Properties\<close>

text \<open>C33: The capture ring is a FIFO queue. From an empty ring, up to 32767 samples written by the
  callback's loop are read back by the frame loop unchanged and in order, and leave it empty.\<close>

theorem capture_ring_fifo:
  assumes "capture_valid s" "g_capture_read_idx s = g_capture_write_idx s" "length xs \<le> 32767"
  shows "fst (take_samples capture_get (length xs) (fold capture_put xs s)) = xs \<and>
    capture_pending (snd (take_samples capture_get (length xs) (fold capture_put xs s))) = []"
proof -
  have e: "capture_pending s = []" using assms by (simp add: ring_contents_empty_iff)
  have "capture_pending (fold capture_put xs s) = xs"
    by (subst capture_queue.contents_fold [OF assms(1)]) (use assms e in auto)
  then show ?thesis
    using capture_queue.take_samples_contents [OF capture_queue.valid_fold [OF assms(1)], of "length xs" xs]
    by simp
qed

lemma capture_ring_fifo_witness:
  "fst (take_samples capture_get (length [5, - 7, 9 :: i16])
     (fold capture_put [5, - 7, 9] (static_init :: nat engine))) = [5, - 7, 9]"
  by (rule conjunct1 [OF capture_ring_fifo]) (simp_all add: static_init_def ring_valid_def)

text \<open>There is no test for a full ring. Whatever is written, the number of pending samples
  afterwards is the count modulo 32768: the 32768th unread sample empties the queue, and all the
  audio waiting in it is lost.\<close>

theorem peer_ring_overflow:
  assumes "peer_valid p"
  shows "length (peer_pending (fold peer_put xs p)) = (length (peer_pending p) + length xs) mod 32768"
  using peer_ring.pending_fold [OF assms, of xs] by simp

lemma peer_ring_overflow_witness:
  "length (peer_pending (fold peer_put (replicate 32768 1) zero_peer)) = 0"
  using peer_ring_overflow [of zero_peer "replicate 32768 1"]
  by (simp add: zero_peer_def ring_valid_def ring_available_def)

end
