(* ===== verification/Devices.thy ===== *)
theory Devices
  imports Engine_State
begin

text \<open>
  Device enumeration and selection of \<open>libvoice_engine.c\<close>: the identifiers \<open>dev_in_%u\<close> and
  \<open>dev_out_%u\<close> handed to the client, and how an identifier is turned back into a device. The C
  library's \<open>strcmp\<close>, \<open>strncpy\<close>, \<open>snprintf\<close> and \<open>sscanf\<close> are modelled on strings without
  their terminating NUL. The answers of the operating system's audio backend, reached through
  miniaudio, come from an environment record; every answer may depend on how many calls were made.
\<close>

section \<open>C strings\<close>

definition is_digit :: "char \<Rightarrow> bool" where
  "is_digit c \<longleftrightarrow> 48 \<le> (of_char c :: nat) \<and> (of_char c :: nat) \<le> 57"

definition is_space :: "char \<Rightarrow> bool" where
  "is_space c \<longleftrightarrow> (of_char c :: nat) = 32 \<or> (9 \<le> (of_char c :: nat) \<and> (of_char c :: nat) \<le> 13)"

definition digits_value :: "string \<Rightarrow> nat" where
  "digits_value = foldl (\<lambda>n c. 10 * n + (of_char c - 48)) 0"

fun show_nat :: "nat \<Rightarrow> string" where
  "show_nat n = (if n < 10 then [char_of (48 + n)] else show_nat (n div 10) @ [char_of (48 + n mod 10)])"

declare show_nat.simps [simp del]

fun strip_prefix :: "string \<Rightarrow> string \<Rightarrow> string option" where
  "strip_prefix [] s = Some s"
| "strip_prefix (c # cs) [] = None"
| "strip_prefix (c # cs) (d # ds) = (if c = d then strip_prefix cs ds else None)"

text \<open>The \<open>%u\<close> conversion: blanks, an optional sign, decimal digits.\<close>

definition scan_u :: "string \<Rightarrow> int option" where
  "scan_u s =
     (let s = dropWhile is_space s;
          (neg, s) = (case s of [] \<Rightarrow> (False, s)
                      | c # t \<Rightarrow> if c = CHR ''-'' then (True, t) else if c = CHR ''+'' then (False, t) else (False, s));
          ds = takeWhile is_digit s
      in if ds = [] then None
         else Some (if neg then - int (digits_value ds) else int (digits_value ds)))"

text \<open>\<open>sscanf(s, "<lit>%u", &u) == 1\<close>, with the number stored; a number that does not fit an
  \<open>unsigned int\<close> stores a value the standard does not fix, given by \<open>ovf\<close>.\<close>

definition sscanf_u :: "(int \<Rightarrow> u32) \<Rightarrow> string \<Rightarrow> string \<Rightarrow> u32 option" where
  "sscanf_u ovf lit s =
     (case strip_prefix lit s of
        None \<Rightarrow> None
      | Some rest \<Rightarrow>
          map_option (\<lambda>n. if \<bar>n\<bar> < 2 ^ 32 then word_of_int n else ovf n) (scan_u rest))"

definition strncpy_term :: "nat \<Rightarrow> string \<Rightarrow> string" where
  "strncpy_term sz s = take (sz - 1) s"

section \<open>The environment\<close>

record 'i ma_device_info =
  info_id :: 'i
  info_name :: string
  info_isDefault :: bool

record AudioDeviceInfo =
  adi_id :: string
  adi_name :: string
  adi_is_default :: bool

text \<open>The backend's answers, as functions of the number of calls made so far: does
  \<open>ma_context_init\<close> succeed, the playback and capture devices of \<open>ma_context_get_devices\<close>
  (\<open>None\<close> when it fails), do \<open>ma_device_init\<close> and \<open>ma_device_start\<close> succeed.\<close>

record 'i ma_env =
  env_context_init :: "nat \<Rightarrow> bool"
  env_get_devices :: "nat \<Rightarrow> ('i ma_device_info list \<times> 'i ma_device_info list) option"
  env_device_init :: "nat \<Rightarrow> dev_kind \<Rightarrow> 'i dev_config \<Rightarrow> bool"
  env_device_start :: "nat \<Rightarrow> dev_kind \<Rightarrow> bool"
  env_scan_overflow :: "int \<Rightarrow> u32"

definition log_call :: "'i ma_call \<Rightarrow> 'i engine \<Rightarrow> 'i engine" where
  "log_call c s = s\<lparr>ma_log := ma_log s @ [(mutex_depth s, c)]\<rparr>"

abbreviation calls :: "'i engine \<Rightarrow> nat" where
  "calls s \<equiv> length (ma_log s)"

definition ensure_context :: "'i ma_env \<Rightarrow> 'i engine \<Rightarrow> 'i engine" where
  "ensure_context env s =
     (if \<not> g_ma_context_initialized s then
        if env_context_init env (calls s)
        then (log_call (Context_init True) s)\<lparr>g_ma_context_initialized := True\<rparr>
        else log_call (Context_init False) s
      else s)"

definition query_devices ::
    "'i ma_env \<Rightarrow> 'i engine \<Rightarrow> ('i ma_device_info list \<times> 'i ma_device_info list) option \<times> 'i engine" where
  "query_devices env s =
     (let r = env_get_devices env (calls s) in (r, log_call (Get_devices (r \<noteq> None)) s))"

section \<open>Identifier to device\<close>

definition find_by_name :: "string \<Rightarrow> 'i ma_device_info list \<Rightarrow> 'i option" where
  "find_by_name name infos = map_option info_id (find (\<lambda>d. info_name d = name) infos)"

definition index_or_name ::
    "u32 option \<Rightarrow> string \<Rightarrow> 'i ma_device_info list \<Rightarrow> 'i option" where
  "index_or_name scanned name infos =
     (case scanned of
        Some k \<Rightarrow> if unat k < length infos then Some (info_id (infos ! unat k)) else find_by_name name infos
      | None \<Rightarrow> find_by_name name infos)"

definition or_else :: "'a option \<Rightarrow> 'a option \<Rightarrow> 'a option" where
  "or_else a b = (case a of Some x \<Rightarrow> Some x | None \<Rightarrow> b)"

definition find_capture_device_id ::
    "(int \<Rightarrow> u32) \<Rightarrow> string option \<Rightarrow> 'i ma_device_info list \<Rightarrow> 'i option" where
  "find_capture_device_id ovf device_id infos =
     (case device_id of
        None \<Rightarrow> None
      | Some d \<Rightarrow>
          if d = ''default_input'' \<or> d = [] then None
          else index_or_name (or_else (sscanf_u ovf ''dev_in_'' d) (sscanf_u ovf ''winmm_in_'' d)) d infos)"

definition find_playback_device_id ::
    "(int \<Rightarrow> u32) \<Rightarrow> string option \<Rightarrow> 'i ma_device_info list \<Rightarrow> 'i option" where
  "find_playback_device_id ovf device_id infos =
     (case device_id of
        None \<Rightarrow> None
      | Some d \<Rightarrow>
          if d = ''default_output'' \<or> d = [] then None
          else index_or_name (or_else (sscanf_u ovf ''dev_out_'' d) (sscanf_u ovf ''winmm_out_'' d)) d infos)"

section \<open>Devices to identifiers\<close>

definition snprintf_s :: "nat \<Rightarrow> string \<Rightarrow> string" where
  "snprintf_s sz s = take (sz - 1) s"

definition device_entry :: "string \<Rightarrow> u32 \<Rightarrow> 'i ma_device_info \<Rightarrow> AudioDeviceInfo" where
  "device_entry prefix i d =
     \<lparr>adi_id = snprintf_s 128 (prefix @ show_nat (unat i)), adi_name = snprintf_s 256 (info_name d),
      adi_is_default = info_isDefault d\<rparr>"

fun device_loop ::
    "string \<Rightarrow> u32 \<Rightarrow> 'i ma_device_info list \<Rightarrow> int \<Rightarrow> int \<Rightarrow> AudioDeviceInfo list" where
  "device_loop prefix i [] count max_count = []"
| "device_loop prefix i (d # ds) count max_count =
     (if count < max_count
      then device_entry prefix i d # device_loop prefix (i + 1) ds (count + 1) max_count
      else [])"

text \<open>The entries written from the start of the caller's array, whose length is the count
  returned; \<open>devices\<close> says whether the pointer is non-null.\<close>

definition voice_engine_get_input_devices ::
    "'i ma_env \<Rightarrow> bool \<Rightarrow> i32 \<Rightarrow> 'i engine \<Rightarrow> AudioDeviceInfo list \<times> 'i engine" where
  "voice_engine_get_input_devices env devices max_count s =
     (if \<not> devices \<or> sint max_count < 1 then ([], s)
      else
        let s1 = ensure_context env s;
            default = \<lparr>adi_id = snprintf_s 128 ''default_input'',
                       adi_name = snprintf_s 256 ''Default System Microphone'', adi_is_default = True\<rparr>
        in if g_ma_context_initialized s1 then
             case query_devices env s1 of
               (Some (playback, capture), s2) \<Rightarrow>
                 (default # device_loop ''dev_in_'' 0 capture 1 (sint max_count), s2)
             | (None, s2) \<Rightarrow> ([default], s2)
           else ([default], s1))"

definition voice_engine_get_output_devices ::
    "'i ma_env \<Rightarrow> bool \<Rightarrow> i32 \<Rightarrow> 'i engine \<Rightarrow> AudioDeviceInfo list \<times> 'i engine" where
  "voice_engine_get_output_devices env devices max_count s =
     (if \<not> devices \<or> sint max_count < 1 then ([], s)
      else
        let s1 = ensure_context env s;
            default = \<lparr>adi_id = snprintf_s 128 ''default_output'',
                       adi_name = snprintf_s 256 ''Default System Speakers'', adi_is_default = True\<rparr>
        in if g_ma_context_initialized s1 then
             case query_devices env s1 of
               (Some (playback, capture), s2) \<Rightarrow>
                 (default # device_loop ''dev_out_'' 0 playback 1 (sint max_count), s2)
             | (None, s2) \<Rightarrow> ([default], s2)
           else ([default], s1))"

section \<open>Decimal numbers\<close>

lemma digits_value_append: "digits_value (s @ [c]) = 10 * digits_value s + (of_char c - 48)"
  by (simp add: digits_value_def)

lemma of_char_digit: "n < 10 \<Longrightarrow> of_char (char_of (48 + n) :: char) = (48 + n :: nat)"
  by simp

lemma show_nat_correct:
  "digits_value (show_nat n) = n \<and> (\<forall>c \<in> set (show_nat n). is_digit c) \<and> show_nat n \<noteq> []"
proof (induction n rule: show_nat.induct)
  case (1 n)
  show ?case
  proof (cases "n < 10")
    case True
    then have s: "show_nat n = [char_of (48 + n)]" by (simp add: show_nat.simps [of n])
    show ?thesis unfolding s using True by (simp add: digits_value_def is_digit_def)
  next
    case False
    then have s: "show_nat n = show_nat (n div 10) @ [char_of (48 + n mod 10)]"
      by (simp add: show_nat.simps [of n])
    show ?thesis unfolding s using 1 [OF False] by (simp add: digits_value_append is_digit_def)
  qed
qed

lemma length_show_nat: "n < 10 ^ k \<Longrightarrow> 0 < k \<Longrightarrow> length (show_nat n) \<le> k"
proof (induction k arbitrary: n)
  case 0
  then show ?case by simp
next
  case (Suc k)
  show ?case
  proof (cases "n < 10")
    case True
    then show ?thesis by (simp add: show_nat.simps)
  next
    case False
    then have "0 < k" using Suc.prems by (cases k) auto
    moreover have "n div 10 < 10 ^ k" using Suc.prems(1) by (simp add: less_mult_imp_div_less mult.commute)
    ultimately show ?thesis using Suc.IH False by (simp add: show_nat.simps [of n])
  qed
qed

lemma takeWhile_all: "\<forall>c \<in> set s. P c \<Longrightarrow> takeWhile P s = s"
  by (simp add: takeWhile_eq_all_conv)

lemma scan_u_show_nat: "scan_u (show_nat n) = Some (int n)"
proof -
  obtain c t where ct: "show_nat n = c # t" using show_nat_correct [of n] by (cases "show_nat n") auto
  then have c: "is_digit c" using show_nat_correct [of n] by auto
  then have "\<not> is_space c" "c \<noteq> CHR ''-''" "c \<noteq> CHR ''+''"
    by (auto simp: is_digit_def is_space_def)
  then have "scan_u (show_nat n) =
      (if takeWhile is_digit (show_nat n) = [] then None
       else Some (int (digits_value (takeWhile is_digit (show_nat n)))))"
    by (simp add: scan_u_def Let_def ct)
  also have "takeWhile is_digit (show_nat n) = show_nat n"
    using show_nat_correct by (intro takeWhile_all) blast
  finally show ?thesis using show_nat_correct [of n] by simp
qed

lemma strip_prefix_append [simp]: "strip_prefix p (p @ s) = Some s"
  by (induction p) auto

lemma sscanf_u_show:
  assumes "n < 2 ^ 32"
  shows "sscanf_u ovf lit (lit @ show_nat n) = Some (of_nat n)"
  using assms by (simp add: sscanf_u_def scan_u_show_nat)

lemma device_loop_eq:
  "length (device_loop prefix i ds count max_count) = min (length ds) (nat (max_count - count))"
  "k < length (device_loop prefix i ds count max_count) \<Longrightarrow>
     device_loop prefix i ds count max_count ! k = device_entry prefix (i + of_nat k) (ds ! k)"
proof (induction prefix i ds count max_count arbitrary: k rule: device_loop.induct)
  case (1 prefix i count max_count)
  {
    case 1
    then show ?case by simp
  next
    case 2
    then show ?case by simp
  }
next
  case (2 prefix i d ds count max_count)
  {
    case 1
    then show ?case using 2 by (auto simp: nat_diff_distrib min_def)
  next
    case 2
    then show ?case using "2.IH" by (cases k) (auto simp: add.assoc split: if_splits)
  }
qed

lemma short_id:
  assumes "length prefix \<le> 8"
  shows "snprintf_s 128 (prefix @ show_nat (unat (i :: u32))) = prefix @ show_nat (unat i)"
proof -
  have "unat i < 2 ^ LENGTH(32)" by (rule unsigned_less)
  then have "unat i < 10 ^ 10" by simp
  then have "length (show_nat (unat i)) \<le> 10" by (rule length_show_nat) simp
  then show ?thesis using assms by (simp add: snprintf_s_def)
qed

lemma index_or_name_show:
  assumes "n < length infos" "length infos \<le> 2 ^ 32"
  shows "index_or_name (or_else (sscanf_u ovf lit (lit @ show_nat n)) b) d infos = Some (info_id (infos ! n))"
proof -
  have n: "n < 2 ^ 32" using assms by simp
  then have "unat (of_nat n :: u32) = n" by (simp add: unat_of_nat take_bit_nat_eq_self)
  then show ?thesis using assms(1) by (simp add: sscanf_u_show [OF n] or_else_def index_or_name_def)
qed

lemma find_capture_listed:
  "n < length infos \<Longrightarrow> length infos \<le> 2 ^ 32 \<Longrightarrow>
     find_capture_device_id ovf (Some (''dev_in_'' @ show_nat n)) infos = Some (info_id (infos ! n))"
  unfolding find_capture_device_id_def using index_or_name_show [of n infos ovf "''dev_in_''"] by simp

lemma find_playback_listed:
  "n < length infos \<Longrightarrow> length infos \<le> 2 ^ 32 \<Longrightarrow>
     find_playback_device_id ovf (Some (''dev_out_'' @ show_nat n)) infos = Some (info_id (infos ! n))"
  unfolding find_playback_device_id_def using index_or_name_show [of n infos ovf "''dev_out_''"] by simp

lemma ensure_context_cases:
  obtains (ready) "g_ma_context_initialized s" "ensure_context env s = s"
  | (made) "\<not> g_ma_context_initialized s"
      "ensure_context env s = (log_call (Context_init True) s)\<lparr>g_ma_context_initialized := True\<rparr>"
  | (failed) "\<not> g_ma_context_initialized s" "ensure_context env s = log_call (Context_init False) s"
  by (cases "g_ma_context_initialized s"; cases "env_context_init env (calls s)")
    (simp_all add: ensure_context_def)

section \<open>Properties\<close>

text \<open>The list of microphones never overruns the caller's array: at most \<open>max_count\<close> entries
  are written, the first of them is the system default, and every identifier and name fits its
  field of 128 or 256 characters with the terminating NUL.\<close>

theorem get_input_devices_bounds:
  assumes "1 \<le> sint max_count"
  shows "int (length (fst (voice_engine_get_input_devices env True max_count s))) \<le> sint max_count \<and>
    adi_id (fst (voice_engine_get_input_devices env True max_count s) ! 0) = ''default_input'' \<and>
    (\<forall>d \<in> set (fst (voice_engine_get_input_devices env True max_count s)).
       length (adi_id d) < 128 \<and> length (adi_name d) < 256)"
proof -
  have fit: "length (adi_id d) < 128 \<and> length (adi_name d) < 256"
    if "d \<in> set (device_loop prefix i ds count m)" for d prefix i count m and ds :: "'a ma_device_info list"
    using that by (induction prefix i ds count m rule: device_loop.induct)
      (auto simp: device_entry_def snprintf_s_def split: if_splits)
  show ?thesis
    using assms fit
    by (auto simp: voice_engine_get_input_devices_def Let_def query_devices_def device_loop_eq
        snprintf_s_def split: option.splits)
qed

lemma get_input_devices_bounds_witness:
  "length (fst (voice_engine_get_input_devices
     \<lparr>env_context_init = (\<lambda>_. True),
      env_get_devices = (\<lambda>_. Some ([], replicate 40 \<lparr>info_id = (), info_name = ''mic'', info_isDefault = False\<rparr>)),
      env_device_init = (\<lambda>_ _ _. True), env_device_start = (\<lambda>_ _. True), env_scan_overflow = (\<lambda>_. 0)\<rparr>
     True 16 static_init)) \<le> 16"
  using get_input_devices_bounds [of 16 "\<lparr>env_context_init = (\<lambda>_. True),
      env_get_devices = (\<lambda>_. Some ([], replicate 40 \<lparr>info_id = (), info_name = ''mic'', info_isDefault = False\<rparr>)),
      env_device_init = (\<lambda>_ _ _. True), env_device_start = (\<lambda>_ _. True), env_scan_overflow = (\<lambda>_. 0)\<rparr>" static_init]
  by simp

text \<open>C34: Selecting a listed device selects that device. The identifier of entry \<open>k\<close> of the list
  of microphones, stored with \<open>strncpy\<close> as \<open>set_input_device\<close> does and resolved against the same
  enumeration, is the \<open>k\<close>-th capture device of the backend; entry 0 resolves to the default.\<close>

theorem input_device_roundtrip:
  assumes "fst (voice_engine_get_input_devices env True max_count s) = entries"
    and "g_ma_context_initialized s" "env_get_devices env (calls s) = Some (playback, capture)"
    and "length capture \<le> 2 ^ 32" "k < length entries"
  shows "find_capture_device_id ovf (Some (strncpy_term 128 (adi_id (entries ! k)))) capture
    = (if k = 0 then None else Some (info_id (capture ! (k - 1))))"
proof (cases k)
  case 0
  then show ?thesis
    using assms by (auto simp: voice_engine_get_input_devices_def ensure_context_def query_devices_def
        Let_def snprintf_s_def strncpy_term_def find_capture_device_id_def split: if_splits)
next
  case (Suc n)
  have e: "n < length (device_loop ''dev_in_'' 0 capture 1 (sint max_count))"
    "entries ! k = device_loop ''dev_in_'' 0 capture 1 (sint max_count) ! n"
    using assms Suc
    by (auto simp: voice_engine_get_input_devices_def ensure_context_def query_devices_def Let_def split: if_splits)
  then have n: "n < length capture" by (simp add: device_loop_eq(1))
  then have u: "unat (of_nat n :: u32) = n" using assms(4) by (intro unat_of_nat_u32) simp
  have "adi_id (entries ! k) = ''dev_in_'' @ show_nat n"
    using e short_id [of "''dev_in_''" "of_nat n"] by (simp add: device_loop_eq(2) device_entry_def u)
  moreover have "strncpy_term 128 (''dev_in_'' @ show_nat n) = ''dev_in_'' @ show_nat n"
    using short_id [of "''dev_in_''" "of_nat n"] by (simp add: strncpy_term_def snprintf_s_def u)
  ultimately show ?thesis using find_capture_listed [OF n assms(4)] Suc by simp
qed

lemma input_device_roundtrip_witness:
  "find_capture_device_id (\<lambda>_. 0) (Some (strncpy_term 128 ''dev_in_1''))
     [\<lparr>info_id = 10, info_name = ''a'', info_isDefault = True\<rparr>, \<lparr>info_id = (11 :: nat), info_name = ''b'', info_isDefault = False\<rparr>]
   = Some 11"
proof -
  let ?ds = "[\<lparr>info_id = 10, info_name = ''a'', info_isDefault = True\<rparr>, \<lparr>info_id = (11 :: nat), info_name = ''b'', info_isDefault = False\<rparr>]"
  let ?env = "\<lparr>env_context_init = (\<lambda>_. True), env_get_devices = (\<lambda>_. Some ([], ?ds)),
      env_device_init = (\<lambda>_ _ _. True), env_device_start = (\<lambda>_ _. True), env_scan_overflow = (\<lambda>_. 0)\<rparr>"
  let ?s = "static_init\<lparr>g_ma_context_initialized := True\<rparr>"
  have e: "fst (voice_engine_get_input_devices ?env True 16 ?s) ! 2
      = device_entry ''dev_in_'' 1 \<lparr>info_id = (11 :: nat), info_name = ''b'', info_isDefault = False\<rparr>"
    "length (fst (voice_engine_get_input_devices ?env True 16 ?s)) = 3"
    by (simp_all add: voice_engine_get_input_devices_def ensure_context_def query_devices_def)
  have "adi_id (device_entry ''dev_in_'' 1 \<lparr>info_id = (11 :: nat), info_name = ''b'', info_isDefault = False\<rparr>) = ''dev_in_1''"
    by (simp add: device_entry_def show_nat.simps snprintf_s_def char_of_def bit_0)
  then show ?thesis
    using input_device_roundtrip [of ?env 16 ?s _ "[]" ?ds 2 "\<lambda>_. 0", OF refl] e by simp
qed

end
