(* ===== verification/Peers.thy ===== *)
theory Peers
  imports Engine_State
begin

text \<open>
  The pool of 32 peer streams of \<open>libvoice_engine.c\<close>: finding the stream of a user, taking a
  free slot for a new one, \<open>voice_engine_set_user_volume\<close> and \<open>voice_engine_clear_peers\<close>.
  Slot 0 belongs to the microphone test; slots 1 to 31 belong to remote users. The invariant
  says that every ring index is in range and that a remote user has at most one slot.
\<close>

section \<open>Operations\<close>

definition find_peer :: "(nat \<Rightarrow> PeerStream) \<Rightarrow> u32 \<Rightarrow> nat option" where
  "find_peer ps uid = find (\<lambda>i. is_active (ps i) \<and> user_id (ps i) = uid) [1..<MAX_PEERS]"

definition find_free :: "(nat \<Rightarrow> PeerStream) \<Rightarrow> nat option" where
  "find_free ps = find (\<lambda>i. \<not> is_active (ps i)) [1..<MAX_PEERS]"

definition alloc_peer :: "u32 \<Rightarrow> f32 \<Rightarrow> PeerStream \<Rightarrow> PeerStream" where
  "alloc_peer uid vol p =
     p\<lparr>user_id := uid, is_active := True, user_volume := vol, read_idx := 0, write_idx := 0\<rparr>"

definition reset_peer :: "PeerStream \<Rightarrow> PeerStream" where
  "reset_peer p = p\<lparr>user_id := 0, is_active := False, is_speaking := False,
     user_volume := Fin 1, read_idx := 0, write_idx := 0\<rparr>"

definition reset_peers :: "(nat \<Rightarrow> PeerStream) \<Rightarrow> (nat \<Rightarrow> PeerStream)" where
  "reset_peers ps = (\<lambda>i. if i < MAX_PEERS then reset_peer (ps i) else ps i)"

definition voice_engine_set_user_volume :: "u32 \<Rightarrow> f32 \<Rightarrow> 'i engine \<Rightarrow> 'i engine" where
  "voice_engine_set_user_volume uid vol s =
     (if uid = 0 then s
      else let s1 = enter_cs s; ps = g_peers s1 in
        case find_peer ps uid of
          Some i \<Rightarrow> leave_cs (s1\<lparr>g_peers := ps(i := (ps i)\<lparr>user_volume := vol\<rparr>)\<rparr>)
        | None \<Rightarrow>
            (case find_free ps of
               Some i \<Rightarrow> leave_cs (s1\<lparr>g_peers := ps(i := alloc_peer uid vol (ps i))\<rparr>)
             | None \<Rightarrow> leave_cs s1))"

definition voice_engine_clear_peers :: "'i engine \<Rightarrow> 'i engine" where
  "voice_engine_clear_peers s =
     (let s1 = (enter_cs s)\<lparr>g_mic_test_loopback := False\<rparr>
      in leave_cs (s1\<lparr>g_peers := reset_peers (g_peers s1)\<rparr>))"

section \<open>Searching the pool\<close>

lemma find_peer_SomeD:
  "find_peer ps uid = Some i \<Longrightarrow> 0 < i \<and> i < 32 \<and> is_active (ps i) \<and> user_id (ps i) = uid"
  using find_Some_iff_first [of "\<lambda>i. is_active (ps i) \<and> user_id (ps i) = uid" "[1..<MAX_PEERS]" i]
  by (auto simp: find_peer_def MAX_PEERS_def)

lemma find_peer_None_iff:
  "find_peer ps uid = None \<longleftrightarrow> (\<forall>i. 0 < i \<longrightarrow> i < 32 \<longrightarrow> is_active (ps i) \<longrightarrow> user_id (ps i) \<noteq> uid)"
  unfolding find_peer_def find_None_all MAX_PEERS_def by (simp add: Ball_def Suc_le_eq) blast

lemma find_free_SomeD: "find_free ps = Some i \<Longrightarrow> 0 < i \<and> i < 32 \<and> \<not> is_active (ps i)"
  using find_Some_iff_first [of "\<lambda>i. \<not> is_active (ps i)" "[1..<MAX_PEERS]" i]
  by (auto simp: find_free_def MAX_PEERS_def)

lemma find_free_None_iff:
  "find_free ps = None \<longleftrightarrow> (\<forall>i. 0 < i \<longrightarrow> i < 32 \<longrightarrow> is_active (ps i))"
  by (auto simp: find_free_def find_None_all MAX_PEERS_def)

section \<open>The pool invariant\<close>

definition peers_wf :: "(nat \<Rightarrow> PeerStream) \<Rightarrow> bool" where
  "peers_wf ps \<longleftrightarrow>
     (\<forall>i < 32. peer_valid (ps i)) \<and>
     (\<forall>i < 32. 0 < i \<longrightarrow> is_active (ps i) \<longrightarrow> user_id (ps i) \<noteq> 0) \<and>
     (\<forall>i < 32. \<forall>j < 32. 0 < i \<longrightarrow> 0 < j \<longrightarrow> is_active (ps i) \<longrightarrow> is_active (ps j) \<longrightarrow>
        user_id (ps i) = user_id (ps j) \<longrightarrow> i = j)"

named_theorems peers_wf_intros

lemma ring_valid_0 [simp]: "ring_valid 0 0"
  by (simp add: ring_valid_def)

lemma peers_wf_zero: "peers_wf (\<lambda>_. zero_peer)"
  by (simp add: peers_wf_def zero_peer_def)

lemma peers_wf_reset [peers_wf_intros]: "peers_wf (reset_peers ps)"
  by (simp add: peers_wf_def reset_peers_def reset_peer_def MAX_PEERS_def)

text \<open>An update that keeps a slot's owner and leaves its indices in range.\<close>

lemma peers_wf_update [peers_wf_intros]:
  assumes "peers_wf ps" "peer_valid p" "is_active p = is_active (ps i)" "user_id p = user_id (ps i)"
  shows "peers_wf (ps(i := p))"
  using assms unfolding peers_wf_def by simp metis

text \<open>A free slot may be given to a user who has none.\<close>

lemma peers_wf_alloc [peers_wf_intros]:
  assumes "peers_wf ps" "find_peer ps uid = None" "uid \<noteq> 0" "peer_valid p" "user_id p = uid" "i < 32"
  shows "peers_wf (ps(i := p))"
  using assms unfolding peers_wf_def find_peer_None_iff by simp metis

text \<open>Slot 0 is outside the ownership conditions.\<close>

lemma peers_wf_slot0 [peers_wf_intros]:
  "peers_wf ps \<Longrightarrow> peer_valid p \<Longrightarrow> peers_wf (ps(0 := p))"
  unfolding peers_wf_def by simp

lemma peers_wf_valid: "peers_wf ps \<Longrightarrow> i < 32 \<Longrightarrow> peer_valid (ps i)"
  by (simp add: peers_wf_def)

lemma find_peer_owner:
  assumes "peers_wf ps" "0 < i" "i < 32" "is_active (ps i)"
  shows "find_peer ps (user_id (ps i)) = Some i"
  unfolding find_peer_def
  by (rule find_unique) (use assms in \<open>auto simp: peers_wf_def MAX_PEERS_def\<close>)

lemma alloc_peer_simps [simp]:
  "user_id (alloc_peer uid vol p) = uid" "is_active (alloc_peer uid vol p)"
  "user_volume (alloc_peer uid vol p) = vol" "read_idx (alloc_peer uid vol p) = 0"
  "write_idx (alloc_peer uid vol p) = 0" "is_speaking (alloc_peer uid vol p) = is_speaking p"
  "buffer (alloc_peer uid vol p) = buffer p"
  by (simp_all add: alloc_peer_def)

lemma peer_pending_alloc [simp]: "peer_pending (alloc_peer uid vol p) = []"
  by (simp add: ring_contents_empty_iff)

lemma set_user_volume_peers_wf:
  assumes "peers_wf (g_peers s)"
  shows "peers_wf (g_peers (voice_engine_set_user_volume uid vol s))"
proof (cases "find_peer (g_peers s) uid")
  case None
  then show ?thesis
    using assms find_free_SomeD [of "g_peers s"]
    by (auto simp: voice_engine_set_user_volume_def Let_def frame_simps split: option.splits
        intro!: peers_wf_alloc)
next
  case (Some i)
  then show ?thesis
    using assms find_peer_SomeD [OF Some] peers_wf_valid [OF assms, of i]
    by (auto simp: voice_engine_set_user_volume_def Let_def frame_simps intro!: peers_wf_update)
qed

lemma clear_peers_peers_wf: "peers_wf (g_peers (voice_engine_clear_peers s))"
  by (simp add: voice_engine_clear_peers_def Let_def frame_simps peers_wf_reset)

section \<open>What the operations do\<close>

text \<open>Setting a user's volume changes that user's volume and nobody else's. If the user has a
  stream or a slot is free, then after the call the user has a stream with that volume, and every
  other slot is the same record as before.\<close>

theorem set_user_volume_effect:
  assumes "peers_wf (g_peers s)" "uid \<noteq> 0"
    and room: "find_peer (g_peers s) uid \<noteq> None \<or> find_free (g_peers s) \<noteq> None"
  shows "\<exists>i. find_peer (g_peers (voice_engine_set_user_volume uid vol s)) uid = Some i
    \<and> user_volume (g_peers (voice_engine_set_user_volume uid vol s) i) = vol
    \<and> (\<forall>j. j \<noteq> i \<longrightarrow> g_peers (voice_engine_set_user_volume uid vol s) j = g_peers s j)"
proof -
  let ?t = "voice_engine_set_user_volume uid vol s"
  have wf: "peers_wf (g_peers ?t)" by (rule set_user_volume_peers_wf [OF assms(1)])
  obtain i where i: "0 < i" "i < 32" "is_active (g_peers ?t i)" "user_id (g_peers ?t i) = uid"
      "user_volume (g_peers ?t i) = vol" "\<And>j. j \<noteq> i \<Longrightarrow> g_peers ?t j = g_peers s j"
  proof (cases "find_peer (g_peers s) uid")
    case (Some i)
    with find_peer_SomeD [OF Some] that [of i] assms(2) show ?thesis
      by (auto simp: voice_engine_set_user_volume_def Let_def frame_simps)
  next
    case None
    with room obtain i where "find_free (g_peers s) = Some i" by auto
    with None find_free_SomeD [OF this] that [of i] assms(2) show ?thesis
      by (auto simp: voice_engine_set_user_volume_def Let_def frame_simps)
  qed
  have "find_peer (g_peers ?t) uid = Some i"
    using find_peer_owner [OF wf i(1-3)] i(4) by simp
  with i show ?thesis by blast
qed

lemma set_user_volume_effect_witness:
  "\<exists>i. find_peer (g_peers (voice_engine_set_user_volume 42 (Fin 2) (static_init :: nat engine))) 42 = Some i
    \<and> user_volume (g_peers (voice_engine_set_user_volume 42 (Fin 2) (static_init :: nat engine)) i) = Fin 2"
proof -
  have "find_free (g_peers (static_init :: nat engine)) \<noteq> None"
    by (auto simp: find_free_None_iff static_init_def zero_peer_def)
  then show ?thesis
    using set_user_volume_effect [of "static_init :: nat engine" 42 "Fin 2"] peers_wf_zero
    by (auto simp: static_init_def)
qed

lemma set_user_volume_full:
  assumes "find_peer (g_peers s) uid = None" "find_free (g_peers s) = None"
  shows "voice_engine_set_user_volume uid vol s = s"
  using assms by (simp add: voice_engine_set_user_volume_def Let_def frame_simps)

lemma set_user_volume_lock [lock_simps]:
  "mutex_depth (voice_engine_set_user_volume uid vol s) = mutex_depth s"
  by (auto simp: voice_engine_set_user_volume_def Let_def enter_cs_def leave_cs_def
      split: option.splits)

lemma clear_peers_lock [lock_simps]: "mutex_depth (voice_engine_clear_peers s) = mutex_depth s"
  by (simp add: voice_engine_clear_peers_def Let_def enter_cs_def leave_cs_def)

end
