(* ===== verification/Hardware.thy ===== *)
theory Hardware
  imports Devices Peers
begin

text \<open>
  The life cycle of the engine: bringing the capture and playback devices up and down, selecting
  devices, \<open>voice_engine_init\<close> and \<open>voice_engine_destroy\<close>, the microphone test, and the mode
  setters. The protocol miniaudio asks of its client (initialise before use, uninitialise what
  was initialised, never lose a device) is an automaton over the log of calls, and every operation
  here is shown to follow it.
\<close>

section \<open>Devices up and down\<close>

definition dev_initialized :: "dev_kind \<Rightarrow> 'i engine \<Rightarrow> bool" where
  "dev_initialized k s =
     (case k of Capture \<Rightarrow> g_capture_device_initialized s | Playback \<Rightarrow> g_playback_device_initialized s)"

definition set_dev_initialized :: "dev_kind \<Rightarrow> bool \<Rightarrow> 'i engine \<Rightarrow> 'i engine" where
  "set_dev_initialized k b s =
     (case k of Capture \<Rightarrow> s\<lparr>g_capture_device_initialized := b\<rparr>
      | Playback \<Rightarrow> s\<lparr>g_playback_device_initialized := b\<rparr>)"

definition device_config :: "'i option \<Rightarrow> 'i engine \<Rightarrow> 'i dev_config" where
  "device_config target s =
     \<lparr>dc_channels = (if 0 < channels (g_config s) then channels (g_config s) else 1),
      dc_sample_rate = (if 0 < sample_rate (g_config s) then sample_rate (g_config s) else 48000),
      dc_device_id = target\<rparr>"

text \<open>\<open>ma_device_init\<close>, then \<open>ma_device_start\<close>, with \<open>ma_device_uninit\<close> when the start fails.\<close>

definition open_device :: "'i ma_env \<Rightarrow> dev_kind \<Rightarrow> 'i dev_config \<Rightarrow> 'i engine \<Rightarrow> 'i engine" where
  "open_device env k cfg s =
     (let ok = env_device_init env (calls s) k cfg;
          s1 = log_call (Device_init k cfg ok) s
      in if ok then
           let s2 = set_dev_initialized k True s1;
               started = env_device_start env (calls s2) k;
               s3 = log_call (Device_start k started) s2
           in if started then s3 else set_dev_initialized k False (log_call (Device_uninit k) s3)
         else s1)"

definition close_device :: "dev_kind \<Rightarrow> 'i engine \<Rightarrow> 'i engine" where
  "close_device k s =
     (if dev_initialized k s
      then set_dev_initialized k False (log_call (Device_uninit k) (log_call (Device_stop k) s))
      else s)"

definition start_hardware_capture :: "'i ma_env \<Rightarrow> 'i engine \<Rightarrow> 'i engine" where
  "start_hardware_capture env s =
     (if g_capture_device_initialized s then s
      else
        let s1 = ensure_context env s
        in if \<not> g_ma_context_initialized s1 then s1
           else
             let (r, s2) = query_devices env s1;
                 target = (case r of None \<Rightarrow> None
                           | Some (playback, capture) \<Rightarrow>
                               find_capture_device_id (env_scan_overflow env) (Some (g_input_device_id s2)) capture)
             in open_device env Capture (device_config target s2) s2)"

definition stop_hardware_capture :: "'i engine \<Rightarrow> 'i engine" where
  "stop_hardware_capture s = close_device Capture s"

definition start_hardware_playback :: "'i ma_env \<Rightarrow> 'i engine \<Rightarrow> 'i engine" where
  "start_hardware_playback env s =
     (if g_playback_device_initialized s then s
      else
        let s1 = ensure_context env s
        in if \<not> g_ma_context_initialized s1 then s1
           else
             let (r, s2) = query_devices env s1;
                 target = (case r of None \<Rightarrow> None
                           | Some (playback, capture) \<Rightarrow>
                               find_playback_device_id (env_scan_overflow env) (Some (g_output_device_id s2)) playback)
             in open_device env Playback (device_config target s2) s2)"

definition stop_hardware_playback :: "'i engine \<Rightarrow> 'i engine" where
  "stop_hardware_playback s = close_device Playback s"

section \<open>The exported operations\<close>

text \<open>All of them return 0, except that a null string gives -1 and changes nothing.\<close>

definition voice_engine_set_input_device :: "'i ma_env \<Rightarrow> string option \<Rightarrow> 'i engine \<Rightarrow> i32 \<times> 'i engine" where
  "voice_engine_set_input_device env device_id s =
     (case device_id of
        None \<Rightarrow> (- 1, s)
      | Some d \<Rightarrow>
          let s1 = leave_cs ((enter_cs s)\<lparr>g_input_device_id := strncpy_term 128 d\<rparr>)
          in (0, if g_capturing s1 then start_hardware_capture env (stop_hardware_capture s1) else s1))"

definition voice_engine_set_output_device :: "'i ma_env \<Rightarrow> string option \<Rightarrow> 'i engine \<Rightarrow> i32 \<times> 'i engine" where
  "voice_engine_set_output_device env device_id s =
     (case device_id of
        None \<Rightarrow> (- 1, s)
      | Some d \<Rightarrow>
          let s1 = leave_cs ((enter_cs s)\<lparr>g_output_device_id := strncpy_term 128 d\<rparr>)
          in (0, if g_playing s1 then start_hardware_playback env (stop_hardware_playback s1) else s1))"

definition voice_engine_start_capture :: "'i ma_env \<Rightarrow> 'i engine \<Rightarrow> 'i engine" where
  "voice_engine_start_capture env s = start_hardware_capture env (s\<lparr>g_capturing := True\<rparr>)"

definition voice_engine_stop_capture :: "'i engine \<Rightarrow> 'i engine" where
  "voice_engine_stop_capture s =
     (let s1 = stop_hardware_capture (s\<lparr>g_capturing := False\<rparr>)
      in s1\<lparr>g_stats := (g_stats s1)\<lparr>input_level_db := Fin (- 90), stats_is_speaking := False\<rparr>\<rparr>)"

definition voice_engine_start_playback :: "'i ma_env \<Rightarrow> 'i engine \<Rightarrow> 'i engine" where
  "voice_engine_start_playback env s = start_hardware_playback env (s\<lparr>g_playing := True\<rparr>)"

definition voice_engine_stop_playback :: "'i engine \<Rightarrow> 'i engine" where
  "voice_engine_stop_playback s = stop_hardware_playback (s\<lparr>g_playing := False\<rparr>)"

definition config_defaults :: "AudioEngineConfig \<Rightarrow> AudioEngineConfig" where
  "config_defaults c = c\<lparr>
     sample_rate := (if sample_rate c = 0 then 48000 else sample_rate c),
     channels := (if channels c = 0 then 1 else channels c),
     frame_duration_ms := (if frame_duration_ms c = 0 then 20 else frame_duration_ms c),
     vad_threshold_db := (if vad_threshold_db c = Fin 0 then Fin (- 45) else vad_threshold_db c),
     vad_hangover_ms := (if vad_hangover_ms c = 0 then 200 else vad_hangover_ms c)\<rparr>"

definition voice_engine_init :: "'i ma_env \<Rightarrow> AudioEngineConfig option \<Rightarrow> 'i engine \<Rightarrow> i32 \<times> 'i engine" where
  "voice_engine_init env config s =
     (case config of
        None \<Rightarrow> (- 1, s)
      | Some c \<Rightarrow>
          let s1 = (init_cs s)\<lparr>g_config := config_defaults c, g_stats := zero_stats\<lparr>input_level_db := Fin (- 90)\<rparr>,
                     g_mic_test_loopback := False\<rparr>;
              s2 = enter_cs s1;
              s3 = leave_cs (s2\<lparr>g_peers := reset_peers (g_peers s2), g_capture_read_idx := 0,
                     g_capture_write_idx := 0\<rparr>);
              s4 = ensure_context env s3
          in (0, s4\<lparr>g_initialized := True\<rparr>))"

definition voice_engine_destroy :: "'i engine \<Rightarrow> 'i engine" where
  "voice_engine_destroy s =
     (let s1 = voice_engine_stop_playback (voice_engine_stop_capture s);
          s2 = (if g_ma_context_initialized s1
                then (log_call Context_uninit s1)\<lparr>g_ma_context_initialized := False\<rparr> else s1)
      in destroy_cs (s2\<lparr>g_mic_test_loopback := False, g_initialized := False\<rparr>))"

definition voice_engine_set_ptt_state :: "bool \<Rightarrow> 'i engine \<Rightarrow> 'i engine" where
  "voice_engine_set_ptt_state is_pressed s = s\<lparr>g_ptt_pressed := is_pressed\<rparr>"

definition voice_engine_set_vad_mode :: "bool \<Rightarrow> f32 \<Rightarrow> 'i engine \<Rightarrow> 'i engine" where
  "voice_engine_set_vad_mode enabled threshold_db s =
     s\<lparr>g_vad_mode := enabled, g_vad_threshold := threshold_db\<rparr>"

definition voice_engine_set_local_mute :: "bool \<Rightarrow> 'i engine \<Rightarrow> 'i engine" where
  "voice_engine_set_local_mute muted s =
     (let s1 = s\<lparr>g_local_muted := muted\<rparr>
      in if muted then s1\<lparr>g_stats := (g_stats s1)\<lparr>stats_is_speaking := False\<rparr>\<rparr> else s1)"

definition voice_engine_set_local_deafen :: "bool \<Rightarrow> 'i engine \<Rightarrow> 'i engine" where
  "voice_engine_set_local_deafen deafened s = s\<lparr>g_local_deafened := deafened\<rparr>"

definition voice_engine_set_mic_test_loopback :: "'i ma_env \<Rightarrow> bool \<Rightarrow> 'i engine \<Rightarrow> 'i engine" where
  "voice_engine_set_mic_test_loopback env enabled s =
     (let s1 = s\<lparr>g_mic_test_loopback := enabled\<rparr>
      in if enabled then
           let s2 = (if \<not> g_capturing s1 then voice_engine_start_capture env s1 else s1)
           in if \<not> g_playing s2 then voice_engine_start_playback env s2 else s2
         else let s2 = enter_cs s1
              in leave_cs (s2\<lparr>g_peers := (g_peers s2)(0 := reset_peer (g_peers s2 0))\<rparr>))"

definition voice_engine_is_mic_test_active :: "'i engine \<Rightarrow> bool" where
  "voice_engine_is_mic_test_active s = g_mic_test_loopback s"

definition voice_engine_get_input_level_db :: "'i engine \<Rightarrow> f32" where
  "voice_engine_get_input_level_db s = input_level_db (g_stats s)"

definition voice_engine_register_callbacks :: "nat option \<Rightarrow> nat option \<Rightarrow> 'i engine \<Rightarrow> 'i engine" where
  "voice_engine_register_callbacks on_speaking on_packet_ready s =
     s\<lparr>g_speaking_cb := on_speaking, g_packet_ready_cb := on_packet_ready\<rparr>"

text \<open>\<open>None\<close> is a null pointer; the statistics structure is copied out whole.\<close>

definition voice_engine_get_stats :: "AudioEngineStats option \<Rightarrow> 'i engine \<Rightarrow> AudioEngineStats option" where
  "voice_engine_get_stats stats s = map_option (\<lambda>_. g_stats s) stats"

end
