(* ===== verification/Protocol.thy ===== *)
theory Protocol
  imports Hardware
begin

text \<open>
  The order of the engine's calls into miniaudio, as an automaton: a context is initialised once
  and uninitialised only when no device is left; a device is initialised only on a live context
  and only when it is absent, started once, and uninitialised exactly when it was initialised. A
  run of the automaton over the call log gives the state of every miniaudio object, and the
  invariant says that it is what the engine's three flags claim.
\<close>

datatype dev_state = Absent | Ready | Running

record proto =
  p_ctx :: bool
  p_cap :: dev_state
  p_play :: dev_state

definition dev_of :: "dev_kind \<Rightarrow> proto \<Rightarrow> dev_state" where
  "dev_of k p = (case k of Capture \<Rightarrow> p_cap p | Playback \<Rightarrow> p_play p)"

definition set_dev :: "dev_kind \<Rightarrow> dev_state \<Rightarrow> proto \<Rightarrow> proto" where
  "set_dev k d p = (case k of Capture \<Rightarrow> p\<lparr>p_cap := d\<rparr> | Playback \<Rightarrow> p\<lparr>p_play := d\<rparr>)"

fun proto_step :: "'i ma_call \<Rightarrow> proto \<Rightarrow> proto option" where
  "proto_step (Context_init ok) p = (if p_ctx p then None else Some (p\<lparr>p_ctx := ok\<rparr>))"
| "proto_step Context_uninit p =
     (if p_ctx p \<and> p_cap p = Absent \<and> p_play p = Absent then Some (p\<lparr>p_ctx := False\<rparr>) else None)"
| "proto_step (Get_devices ok) p = (if p_ctx p then Some p else None)"
| "proto_step (Device_init k cfg ok) p =
     (if p_ctx p \<and> dev_of k p = Absent then Some (set_dev k (if ok then Ready else Absent) p) else None)"
| "proto_step (Device_start k ok) p =
     (if dev_of k p = Ready then Some (set_dev k (if ok then Running else Ready) p) else None)"
| "proto_step (Device_stop k) p =
     (if dev_of k p \<noteq> Absent then Some (set_dev k Ready p) else None)"
| "proto_step (Device_uninit k) p =
     (if dev_of k p \<noteq> Absent then Some (set_dev k Absent p) else None)"

fun proto_run :: "(nat \<times> 'i ma_call) list \<Rightarrow> proto \<Rightarrow> proto option" where
  "proto_run [] p = Some p"
| "proto_run ((d, c) # cs) p = (case proto_step c p of None \<Rightarrow> None | Some q \<Rightarrow> proto_run cs q)"

definition proto_start :: proto where
  "proto_start = \<lparr>p_ctx = False, p_cap = Absent, p_play = Absent\<rparr>"

definition proto_claimed :: "'i engine \<Rightarrow> proto" where
  "proto_claimed s = \<lparr>p_ctx = g_ma_context_initialized s,
     p_cap = (if g_capture_device_initialized s then Running else Absent),
     p_play = (if g_playback_device_initialized s then Running else Absent)\<rparr>"

definition proto_at :: "'i engine \<Rightarrow> proto \<Rightarrow> bool" where
  "proto_at s p \<longleftrightarrow> proto_run (ma_log s) proto_start = Some p"

text \<open>The invariant: the log is a run that ends where the flags say, and no call into miniaudio
  was made while the audio mutex was held (the audio callbacks take that mutex, and
  \<open>ma_device_stop\<close> waits for the callback to return). A live device needs a live context.\<close>

definition protocol_ok :: "'i engine \<Rightarrow> bool" where
  "protocol_ok s \<longleftrightarrow> proto_at s (proto_claimed s) \<and> (\<forall>(d, c) \<in> set (ma_log s). d = 0) \<and> mutex_depth s = 0
     \<and> (g_capture_device_initialized s \<or> g_playback_device_initialized s \<longrightarrow> g_ma_context_initialized s)"

lemma proto_run_append:
  "proto_run (xs @ ys) p = (case proto_run xs p of None \<Rightarrow> None | Some q \<Rightarrow> proto_run ys q)"
  by (induction xs p rule: proto_run.induct) (auto split: option.splits)

lemma proto_at_log:
  "proto_at s p \<Longrightarrow> proto_step c p = Some q \<Longrightarrow> proto_at (log_call c s) q"
  by (simp add: proto_at_def log_call_def proto_run_append)

lemma protocol_ok_frame:
  assumes "protocol_ok s" "ma_log t = ma_log s" "mutex_depth t = 0"
    "g_ma_context_initialized t = g_ma_context_initialized s"
    "g_capture_device_initialized t = g_capture_device_initialized s"
    "g_playback_device_initialized t = g_playback_device_initialized s"
  shows "protocol_ok t"
  using assms by (simp add: protocol_ok_def proto_at_def proto_claimed_def)

lemma protocol_ok_static: "protocol_ok static_init"
  by (simp add: protocol_ok_def proto_at_def proto_claimed_def static_init_def proto_start_def)

lemma log_call_simps [simp]:
  "g_ma_context_initialized (log_call c s) = g_ma_context_initialized s"
  "g_capture_device_initialized (log_call c s) = g_capture_device_initialized s"
  "g_playback_device_initialized (log_call c s) = g_playback_device_initialized s"
  "mutex_depth (log_call c s) = mutex_depth s" "ma_log (log_call c s) = ma_log s @ [(mutex_depth s, c)]"
  by (simp_all add: log_call_def)

lemma ensure_context_ok: "protocol_ok s \<Longrightarrow> protocol_ok (ensure_context env s)"
  by (cases rule: ensure_context_cases [of s env])
    (auto simp: protocol_ok_def proto_at_def proto_claimed_def proto_run_append)

lemma query_devices_ok:
  "protocol_ok s \<Longrightarrow> g_ma_context_initialized s \<Longrightarrow> protocol_ok (snd (query_devices env s))"
  by (auto simp: query_devices_def Let_def protocol_ok_def proto_at_def proto_claimed_def proto_run_append)

lemma query_devices_simps [simp]:
  "g_ma_context_initialized (snd (query_devices env s)) = g_ma_context_initialized s"
  "g_capture_device_initialized (snd (query_devices env s)) = g_capture_device_initialized s"
  "g_playback_device_initialized (snd (query_devices env s)) = g_playback_device_initialized s"
  by (simp_all add: query_devices_def Let_def)

lemma ensure_context_simps [simp]:
  "g_capture_device_initialized (ensure_context env s) = g_capture_device_initialized s"
  "g_playback_device_initialized (ensure_context env s) = g_playback_device_initialized s"
  by (cases rule: ensure_context_cases [of s env]; simp)+

lemma open_device_ok:
  assumes "protocol_ok s" "g_ma_context_initialized s" "\<not> dev_initialized k s"
  shows "protocol_ok (open_device env k cfg s)"
  using assms
  by (cases k) (auto simp: open_device_def Let_def protocol_ok_def proto_at_def proto_claimed_def
      proto_run_append dev_initialized_def set_dev_initialized_def dev_of_def set_dev_def)

lemma close_device_ok: "protocol_ok s \<Longrightarrow> protocol_ok (close_device k s)"
  by (cases k) (auto simp: close_device_def protocol_ok_def proto_at_def proto_claimed_def
      proto_run_append dev_initialized_def set_dev_initialized_def dev_of_def set_dev_def)

lemma start_capture_ok: "protocol_ok s \<Longrightarrow> protocol_ok (start_hardware_capture env s)"
  using ensure_context_ok [of s env] query_devices_ok [of "ensure_context env s" env]
  by (auto simp: start_hardware_capture_def Let_def split_beta dev_initialized_def intro!: open_device_ok)

lemma start_playback_ok: "protocol_ok s \<Longrightarrow> protocol_ok (start_hardware_playback env s)"
  using ensure_context_ok [of s env] query_devices_ok [of "ensure_context env s" env]
  by (auto simp: start_hardware_playback_def Let_def split_beta dev_initialized_def intro!: open_device_ok)

lemma close_device_off: "\<not> dev_initialized k (close_device k s)"
  by (cases k) (auto simp: close_device_def dev_initialized_def set_dev_initialized_def)

lemma close_device_other:
  "k \<noteq> k' \<Longrightarrow> dev_initialized k' (close_device k s) = dev_initialized k' s"
  by (cases k; cases k') (auto simp: close_device_def dev_initialized_def set_dev_initialized_def)

end
