(* ===== verification/Wire.thy ===== *)
theory Wire
  imports Prelude
begin

text \<open>
  The 20-byte big-endian datagram header as the Go forwarding server writes and reads it
  (\<open>backend/internal/audio/protocol.go\<close> and \<open>packet.go\<close>): the other end of the wire format
  that \<open>voice_engine_feed_inbound_packet\<close> parses.
\<close>

section \<open>Big-endian fields\<close>

definition get_be16 :: "u8 \<Rightarrow> u8 \<Rightarrow> u16" where
  "get_be16 a b = push_bit 8 (ucast a) OR ucast b"

definition get_be32 :: "u8 \<Rightarrow> u8 \<Rightarrow> u8 \<Rightarrow> u8 \<Rightarrow> u32" where
  "get_be32 a b c d =
     push_bit 24 (ucast a) OR push_bit 16 (ucast b) OR push_bit 8 (ucast c) OR ucast d"

definition put_be16 :: "u16 \<Rightarrow> u8 list" where
  "put_be16 x = [ucast (drop_bit 8 x), ucast x]"

definition put_be32 :: "u32 \<Rightarrow> u8 list" where
  "put_be32 x = [ucast (drop_bit 24 x), ucast (drop_bit 16 x), ucast (drop_bit 8 x), ucast x]"

lemma get_put_be16 [simp]: "get_be16 (ucast (drop_bit 8 x)) (ucast x) = x"
  by (rule bit_word_eqI) (auto simp: get_be16_def bit_simps)

lemma get_put_be32 [simp]:
  "get_be32 (ucast (drop_bit 24 x)) (ucast (drop_bit 16 x)) (ucast (drop_bit 8 x)) (ucast x) = x"
proof (rule bit_word_eqI)
  fix n assume n: "n < LENGTH(32)"
  consider "n < 8" | "8 \<le> n" "n < 16" | "16 \<le> n" "n < 24" | "24 \<le> n" "n < 32"
    using n by fastforce
  then show "bit (get_be32 (ucast (drop_bit 24 x)) (ucast (drop_bit 16 x)) (ucast (drop_bit 8 x))
      (ucast x)) n = bit x n"
    by cases (auto simp: get_be32_def bit_simps)
qed

section \<open>Flags\<close>

definition EncodeFlags :: "bool \<Rightarrow> u8 \<Rightarrow> u8" where
  "EncodeFlags vad energy = (if vad then 1 else 0) OR push_bit 4 (energy AND 0x0F)"

definition DecodeFlags :: "u8 \<Rightarrow> bool \<times> u8" where
  "DecodeFlags flags = (flags AND 0x01 \<noteq> 0, drop_bit 4 (flags AND 0xF0))"

text \<open>Statements on bytes are checked bit by bit.\<close>

lemma bit_15: "bit (15 :: int) n \<longleftrightarrow> n < 4"
proof -
  have "(15 :: int) = mask 4" by (simp add: mask_eq_exp_minus_1)
  then show ?thesis by (simp only: bit_mask_iff) simp
qed

lemma flags_vad_bit: "EncodeFlags vad energy AND 0x01 = (if vad then 1 else 0)"
  by (rule bit_word_eqI) (auto simp: EncodeFlags_def bit_and_iff bit_or_iff bit_1_iff
    bit_push_bit_iff)

lemma flags_energy_bits: "drop_bit 4 (EncodeFlags vad energy) = energy AND 15"
  by (rule bit_word_eqI) (auto simp: EncodeFlags_def bit_drop_bit_eq bit_or_iff bit_push_bit_iff
    bit_and_iff bit_15 bit_1_iff)

lemma flags_roundtrip: "DecodeFlags (EncodeFlags vad energy) = (vad, energy AND 0x0F)"
  by (simp add: DecodeFlags_def flags_vad_bit flags_energy_bits)

section \<open>Packets\<close>

record Packet =
  Magic :: u8
  Version :: u8
  PType :: u8
  Flags :: u8
  VAD :: bool
  EnergyLevel :: u8
  SenderID :: u32
  ChannelID :: u32
  Sequence :: u16
  PayloadLen :: u16
  Timestamp :: u32
  Payload :: "u8 list"

datatype wire_error =
    ErrPacketTooShort | ErrInvalidMagic | ErrInvalidVersion | ErrInvalidType
  | ErrPayloadTooLarge | ErrPayloadLengthMismatch

definition IsValidPacketType :: "u8 \<Rightarrow> bool" where
  "IsValidPacketType t \<longleftrightarrow> t = 1 \<or> t = 2 \<or> t = 3 \<or> t = 4"

definition Encode :: "Packet \<Rightarrow> u8 list" where
  "Encode p =
     (let magic = (if Magic p = 0 then 0x56 else Magic p);
          version = (if Version p = 0 then 0x01 else Version p)
      in [magic, version, PType p, EncodeFlags (VAD p) (EnergyLevel p)]
         @ put_be32 (SenderID p) @ put_be32 (ChannelID p) @ put_be16 (Sequence p)
         @ put_be16 (of_nat (length (Payload p))) @ put_be32 (Timestamp p) @ Payload p)"

definition Decode :: "u8 list \<Rightarrow> wire_error + Packet" where
  "Decode d =
     (if length d < 20 then Inl ErrPacketTooShort
      else if d ! 0 \<noteq> 0x56 then Inl ErrInvalidMagic
      else if d ! 1 \<noteq> 0x01 then Inl ErrInvalidVersion
      else if \<not> IsValidPacketType (d ! 2) then Inl ErrInvalidType
      else let (vad, energy) = DecodeFlags (d ! 3); plen = get_be16 (d ! 14) (d ! 15) in
        if 4076 < plen then Inl ErrPayloadTooLarge
        else if length d < 20 + unat plen then Inl ErrPayloadLengthMismatch
        else Inr \<lparr>Magic = d ! 0, Version = d ! 1, PType = d ! 2, Flags = d ! 3, VAD = vad,
               EnergyLevel = energy,
               SenderID = get_be32 (d ! 4) (d ! 5) (d ! 6) (d ! 7),
               ChannelID = get_be32 (d ! 8) (d ! 9) (d ! 10) (d ! 11),
               Sequence = get_be16 (d ! 12) (d ! 13), PayloadLen = plen,
               Timestamp = get_be32 (d ! 16) (d ! 17) (d ! 18) (d ! 19),
               Payload = take (unat plen) (drop 20 d)\<rparr>)"

lemma length_Encode [simp]: "length (Encode p) = 20 + length (Payload p)"
  by (simp add: Encode_def Let_def put_be16_def put_be32_def)

text \<open>The bytes of an encoded packet, one by one.\<close>

lemma Encode_nth:
  "Encode p ! 0 = (if Magic p = 0 then 0x56 else Magic p)"
  "Encode p ! 1 = (if Version p = 0 then 0x01 else Version p)"
  "Encode p ! 2 = PType p"
  "Encode p ! 3 = EncodeFlags (VAD p) (EnergyLevel p)"
  "get_be32 (Encode p ! 4) (Encode p ! 5) (Encode p ! 6) (Encode p ! 7) = SenderID p"
  "get_be32 (Encode p ! 8) (Encode p ! 9) (Encode p ! 10) (Encode p ! 11) = ChannelID p"
  "get_be16 (Encode p ! 12) (Encode p ! 13) = Sequence p"
  "get_be16 (Encode p ! 14) (Encode p ! 15) = of_nat (length (Payload p))"
  "get_be32 (Encode p ! 16) (Encode p ! 17) (Encode p ! 18) (Encode p ! 19) = Timestamp p"
  "drop 20 (Encode p) = Payload p"
  by (simp_all add: Encode_def Let_def put_be16_def put_be32_def)

text \<open>C35: The server's codec is a round trip: a voice packet with the protocol's magic and version, a
  valid type, an energy of four bits and at most 4076 payload bytes is decoded from its encoding
  with every field intact.\<close>

theorem wire_roundtrip:
  assumes "Magic p = 0x56" "Version p = 0x01" "IsValidPacketType (PType p)"
    and "EnergyLevel p AND 0x0F = EnergyLevel p" "length (Payload p) \<le> 4076"
  shows "Decode (Encode p) = Inr (p\<lparr>Flags := EncodeFlags (VAD p) (EnergyLevel p),
    PayloadLen := of_nat (length (Payload p))\<rparr>)"
proof -
  have len: "unat (of_nat (length (Payload p)) :: u16) = length (Payload p)"
    using assms(5) by (simp add: unat_of_nat)
  then have "\<not> (4076 :: u16) < of_nat (length (Payload p))"
    using assms(5) by (simp add: word_less_nat_alt)
  then show ?thesis
    using assms len by (simp add: Decode_def Encode_nth Encode_nth(2) [simplified] flags_roundtrip)
qed

lemma wire_roundtrip_witness:
  "Decode (Encode \<lparr>Magic = 0x56, Version = 1, PType = 1, Flags = 0, VAD = True, EnergyLevel = 9, SenderID = 7,
     ChannelID = 3, Sequence = 65535, PayloadLen = 0, Timestamp = 960, Payload = [1, 2, 3]\<rparr>)
   = Inr \<lparr>Magic = 0x56, Version = 1, PType = 1, Flags = EncodeFlags True 9, VAD = True, EnergyLevel = 9, SenderID = 7,
     ChannelID = 3, Sequence = 65535, PayloadLen = 3, Timestamp = 960, Payload = [1, 2, 3]\<rparr>"
  using wire_roundtrip [of "\<lparr>Magic = 0x56, Version = 1, PType = 1, Flags = 0, VAD = True, EnergyLevel = 9, SenderID = 7,
     ChannelID = 3, Sequence = 65535, PayloadLen = 0, Timestamp = 960, Payload = [1, 2, 3]\<rparr>"]
  by (simp add: IsValidPacketType_def)

end
