(* ===== verification/Inbound.thy ===== *)
theory Inbound
  imports Peers Wire
begin

text \<open>
  \<open>voice_engine_feed_inbound_packet\<close>: the parser of a received datagram and the write of its
  samples into the sender's ring. A null pointer is \<open>None\<close>; the caller's contract is that the
  pointer covers \<open>length\<close> bytes. The speaking callback's invocation is returned as a value.
\<close>

section \<open>The header fields the parser reads\<close>

definition hdr_vad :: "u8 list \<Rightarrow> bool" where
  "hdr_vad b \<longleftrightarrow> b ! 3 AND 0x01 \<noteq> 0"

definition hdr_energy :: "u8 list \<Rightarrow> f32" where
  "hdr_energy b = fp_divc f32 (f32 (of_int (uint (drop_bit 4 (b ! 3 AND 0xF0))))) 15"

definition hdr_sender :: "u8 list \<Rightarrow> u32" where
  "hdr_sender b = push_bit 24 (ucast (b ! 4)) OR push_bit 16 (ucast (b ! 5))
                  OR push_bit 8 (ucast (b ! 6)) OR ucast (b ! 7)"

definition hdr_payload_len :: "u8 list \<Rightarrow> u16" where
  "hdr_payload_len b = push_bit 8 (ucast (b ! 14)) OR ucast (b ! 15)"

definition peer_for_sender :: "u32 \<Rightarrow> (nat \<Rightarrow> PeerStream) \<Rightarrow> (nat \<Rightarrow> PeerStream) \<times> nat option" where
  "peer_for_sender uid ps =
     (case find_peer ps uid of
        Some i \<Rightarrow> (ps, Some i)
      | None \<Rightarrow>
          (case find_free ps of
             Some i \<Rightarrow> (ps(i := alloc_peer uid (Fin 1) (ps i)), Some i)
           | None \<Rightarrow> (ps, None)))"

definition samples_to_write :: "u16 \<Rightarrow> u32" where
  "samples_to_write plen =
     (let n = ucast plen div 2 :: u32 in if SAMPLES_PER_FRAME < n then SAMPLES_PER_FRAME else n)"

definition buffer_payload :: "u8 list \<Rightarrow> PeerStream \<Rightarrow> PeerStream" where
  "buffer_payload b p =
     fold peer_put (take (unat (samples_to_write (hdr_payload_len b))) (samples_of_bytes (drop 20 b)))
       (p\<lparr>is_speaking := hdr_vad b\<rparr>)"

definition voice_engine_feed_inbound_packet ::
    "u8 list option \<Rightarrow> u32 \<Rightarrow> 'i engine \<Rightarrow> 'i engine \<times> (nat \<times> u32 \<times> bool \<times> f32) option" where
  "voice_engine_feed_inbound_packet packet_bytes len s =
     (case packet_bytes of
        None \<Rightarrow> (s, None)
      | Some b \<Rightarrow>
          if len < 20 then (s, None)
          else
            let s1 = s\<lparr>g_stats := (g_stats s)\<lparr>packets_received := packets_received (g_stats s) + 1\<rparr>\<rparr>
            in if b ! 0 \<noteq> 0x56 then (s1, None)
            else if hdr_sender b = 0 then (s1, None)
            else if len < 20 + ucast (hdr_payload_len b) then (s1, None)
            else
              let s2 = enter_cs s1;
                  (ps, slot) = peer_for_sender (hdr_sender b) (g_peers s2);
                  ps' = (case slot of None \<Rightarrow> ps | Some i \<Rightarrow> ps(i := buffer_payload b (ps i)));
                  s3 = leave_cs (s2\<lparr>g_peers := ps'\<rparr>)
              in (s3, map_option (\<lambda>cb. (cb, hdr_sender b, hdr_vad b, hdr_energy b)) (g_speaking_cb s3)))"

text \<open>The datagrams the parser takes.\<close>

definition inbound_accepted :: "u8 list \<Rightarrow> u32 \<Rightarrow> bool" where
  "inbound_accepted b len \<longleftrightarrow> 20 \<le> len \<and> b ! 0 = 0x56 \<and> hdr_sender b \<noteq> 0
     \<and> 20 + ucast (hdr_payload_len b) \<le> len"

section \<open>Lemmas\<close>

lemma samples_to_write_le: "unat (samples_to_write n) \<le> 960"
  by (auto simp: samples_to_write_def Let_def SAMPLES_PER_FRAME_def word_less_nat_alt)

lemma unat_samples_to_write: "unat (samples_to_write n) = min 960 (unat n div 2)"
proof -
  have "unat n < 2 ^ LENGTH(16)" by (rule unsigned_less)
  then have "unat (ucast n :: u32) = unat n"
    by (simp add: unsigned_ucast_eq take_bit_nat_eq_self)
  then have "unat (ucast n div 2 :: u32) = unat n div 2" by (simp add: unat_div)
  then show ?thesis
    by (auto simp: samples_to_write_def Let_def SAMPLES_PER_FRAME_def word_less_nat_alt)
qed

lemma buffer_payload_frame [frame_simps]:
  "user_id (buffer_payload b p) = user_id p" "is_active (buffer_payload b p) = is_active p"
  "user_volume (buffer_payload b p) = user_volume p" "is_speaking (buffer_payload b p) = hdr_vad b"
  by (simp_all add: buffer_payload_def frame_simps)

lemma buffer_payload_valid: "peer_valid p \<Longrightarrow> peer_valid (buffer_payload b p)"
  unfolding buffer_payload_def by (rule peer_ring.valid_fold) simp

lemma buffer_payload_pending:
  assumes "peer_valid p"
    and "length (peer_pending p) + unat (samples_to_write (hdr_payload_len b)) \<le> 32767"
  shows "peer_pending (buffer_payload b p) = peer_pending p
    @ take (unat (samples_to_write (hdr_payload_len b))) (samples_of_bytes (drop 20 b))"
  unfolding buffer_payload_def
  by (subst peer_ring.contents_fold) (use assms in auto)

lemma peer_for_sender_cases:
  obtains (known) i where "find_peer ps uid = Some i" "peer_for_sender uid ps = (ps, Some i)"
  | (fresh) i where "find_peer ps uid = None" "find_free ps = Some i"
      "peer_for_sender uid ps = (ps(i := alloc_peer uid (Fin 1) (ps i)), Some i)"
  | (full) "find_peer ps uid = None" "find_free ps = None" "peer_for_sender uid ps = (ps, None)"
  by (cases "find_peer ps uid"; cases "find_free ps") (auto simp: peer_for_sender_def)

lemma peer_for_sender_wf:
  assumes "peers_wf ps" "uid \<noteq> 0" "peer_for_sender uid ps = (ps', slot)"
  shows "peers_wf ps' \<and> (\<forall>i. slot = Some i \<longrightarrow> 0 < i \<and> i < 32 \<and> is_active (ps' i) \<and> user_id (ps' i) = uid)"
proof (cases rule: peer_for_sender_cases [of ps uid])
  case (known i)
  then show ?thesis using assms find_peer_SomeD [of ps uid i] by auto
next
  case (fresh i)
  then show ?thesis using assms find_free_SomeD [of ps i] by (auto intro!: peers_wf_alloc)
next
  case full
  then show ?thesis using assms by auto
qed

lemma feed_rejected:
  assumes "\<not> inbound_accepted b len"
  shows "g_peers (fst (voice_engine_feed_inbound_packet (Some b) len s)) = g_peers s
    \<and> snd (voice_engine_feed_inbound_packet (Some b) len s) = None"
  using assms
  by (auto simp: voice_engine_feed_inbound_packet_def inbound_accepted_def Let_def not_le not_less)

lemma feed_accepted:
  assumes "inbound_accepted b len" "peer_for_sender (hdr_sender b) (g_peers s) = (ps, slot)"
  shows "g_peers (fst (voice_engine_feed_inbound_packet (Some b) len s))
      = (case slot of None \<Rightarrow> ps | Some i \<Rightarrow> ps(i := buffer_payload b (ps i)))
    \<and> snd (voice_engine_feed_inbound_packet (Some b) len s)
      = map_option (\<lambda>cb. (cb, hdr_sender b, hdr_vad b, hdr_energy b)) (g_speaking_cb s)"
  using assms
  by (auto simp: voice_engine_feed_inbound_packet_def inbound_accepted_def Let_def not_le [symmetric]
      frame_simps)

lemma feed_peers_wf:
  assumes "peers_wf (g_peers s)"
  shows "peers_wf (g_peers (fst (voice_engine_feed_inbound_packet pkt len s)))"
proof (cases pkt)
  case None
  then show ?thesis using assms by (simp add: voice_engine_feed_inbound_packet_def)
next
  case (Some b)
  show ?thesis
  proof (cases "inbound_accepted b len")
    case False
    then show ?thesis using assms Some by (simp add: feed_rejected)
  next
    case True
    obtain ps slot where p: "peer_for_sender (hdr_sender b) (g_peers s) = (ps, slot)" by fastforce
    have "hdr_sender b \<noteq> 0" using True by (simp add: inbound_accepted_def)
    from peer_for_sender_wf [OF assms this p] show ?thesis
      using feed_accepted [OF True p] Some peers_wf_valid [of ps]
      by (auto split: option.splits intro!: peers_wf_update buffer_payload_valid simp: frame_simps)
  qed
qed

lemma feed_frame [frame_simps]:
  "capture_pending (fst (voice_engine_feed_inbound_packet pkt len s)) = capture_pending s"
  "g_capture_read_idx (fst (voice_engine_feed_inbound_packet pkt len s)) = g_capture_read_idx s"
  "g_capture_write_idx (fst (voice_engine_feed_inbound_packet pkt len s)) = g_capture_write_idx s"
  "g_mutex_initialized (fst (voice_engine_feed_inbound_packet pkt len s)) = g_mutex_initialized s"
  "mutex_depth (fst (voice_engine_feed_inbound_packet pkt len s)) = mutex_depth s"
  "ma_log (fst (voice_engine_feed_inbound_packet pkt len s)) = ma_log s"
  by (auto simp: voice_engine_feed_inbound_packet_def Let_def enter_cs_def leave_cs_def
      split: option.splits prod.splits)

lemma feed_modes:
  "g_playing (fst (voice_engine_feed_inbound_packet pkt len s)) = g_playing s"
  "g_local_deafened (fst (voice_engine_feed_inbound_packet pkt len s)) = g_local_deafened s"
  "g_mic_test_loopback (fst (voice_engine_feed_inbound_packet pkt len s)) = g_mic_test_loopback s"
  by (auto simp: voice_engine_feed_inbound_packet_def Let_def enter_cs_def leave_cs_def
      split: option.splits prod.splits)

section \<open>Properties\<close>


text \<open>The datagram of the witnesses: a client's packet with one sample, speaking, energy 15.\<close>

definition demo_packet :: "u8 list" where
  "demo_packet = [0x56, 1, 1, 0xF1, 0, 0, 0, 9, 0, 0, 0, 1, 0, 0, 0, 2, 0, 0, 0, 0, 0x34, 0x12]"

lemma demo_packet_accepted: "inbound_accepted demo_packet 22" "hdr_sender demo_packet = 9"
    "hdr_payload_len demo_packet = 2" "hdr_vad demo_packet" "samples_of_bytes (drop 20 demo_packet) = [0x1234]"
  by (simp_all add: inbound_accepted_def demo_packet_def hdr_sender_def hdr_payload_len_def hdr_vad_def
      i16_of_bytes_def)

lemma no_peers: "find_peer (g_peers (static_init :: nat engine)) uid = None"
  "find_free (g_peers (static_init :: nat engine)) = Some 1" "peers_wf (g_peers (static_init :: nat engine))"
  using peers_wf_zero
  by (simp_all add: find_peer_def find_free_def static_init_def zero_peer_def MAX_PEERS_def find_None_all upt_rec)


text \<open>C37: A datagram that is too short for its header or its declared payload, has the wrong magic
  byte, or names sender 0 changes no stream and calls no callback; but it is counted as received as
  soon as it has 20 bytes.\<close>

theorem feed_rejects:
  assumes "\<not> inbound_accepted b len"
  shows "fst (voice_engine_feed_inbound_packet (Some b) len s) =
      (if len < 20 then s
       else s\<lparr>g_stats := (g_stats s)\<lparr>packets_received := packets_received (g_stats s) + 1\<rparr>\<rparr>) \<and>
    snd (voice_engine_feed_inbound_packet (Some b) len s) = None"
  using assms
  by (auto simp: voice_engine_feed_inbound_packet_def inbound_accepted_def Let_def not_le not_less)

lemma feed_rejects_witness:
  "snd (voice_engine_feed_inbound_packet (Some (0x57 # tl demo_packet)) 22 (static_init :: nat engine)) = None"
  using feed_rejects [of "0x57 # tl demo_packet" 22 "static_init :: nat engine"]
  by (simp add: inbound_accepted_def)

text \<open>C38: With all 31 remote slots taken, a packet of a 32nd sender is dropped without a trace in the
  streams, although the speaking callback is still told that this user speaks.\<close>

theorem feed_pool_full:
  assumes "inbound_accepted b len" "find_peer (g_peers s) (hdr_sender b) = None" "find_free (g_peers s) = None"
  shows "g_peers (fst (voice_engine_feed_inbound_packet (Some b) len s)) = g_peers s \<and>
    snd (voice_engine_feed_inbound_packet (Some b) len s)
      = map_option (\<lambda>cb. (cb, hdr_sender b, hdr_vad b, hdr_energy b)) (g_speaking_cb s)"
  using feed_accepted [OF assms(1), of s] assms(2,3) by (simp add: peer_for_sender_def)

lemma feed_pool_full_witness:
  "g_peers (fst (voice_engine_feed_inbound_packet (Some demo_packet) 22
     ((static_init :: nat engine)\<lparr>g_peers := (\<lambda>i. zero_peer\<lparr>is_active := True, user_id := 105\<rparr>)\<rparr>))) 5
   = zero_peer\<lparr>is_active := True, user_id := 105\<rparr>"
proof -
  let ?ps = "\<lambda>i :: nat. zero_peer\<lparr>is_active := True, user_id := 105\<rparr>"
  have "find_free ?ps = None" "find_peer ?ps 9 = None" by (simp_all add: find_free_None_iff find_peer_None_iff)
  then show ?thesis
    using feed_pool_full [OF demo_packet_accepted(1), of "(static_init :: nat engine)\<lparr>g_peers := ?ps\<rparr>"]
    by (simp add: demo_packet_accepted)
qed

end
