(* ===== verification/Level.thy ===== *)
theory Level
  imports Engine_State
begin

text \<open>
  The arithmetic of \<open>voice_engine_capture_frame\<close>: the level of a frame in dBFS, the quantised
  energy, and the speaking decision (voice activity with hangover, or push to talk).
  \<open>sqrt\<close> is correctly rounded, as IEEE 754 asks; the accuracy of \<open>log10\<close> is left open by the
  C standard, so it is an argument \<open>lg\<close> of the definitions, and the locale \<open>libm_log10\<close> states
  what the proofs use of it.
\<close>

section \<open>sqrt\<close>

text \<open>The integer square root, two bits at a time.\<close>

fun isqrt :: "nat \<Rightarrow> nat" where
  "isqrt n = (if n = 0 then 0
     else let r = 2 * isqrt (n div 4) in if (r + 1) * (r + 1) \<le> n then r + 1 else r)"

declare isqrt.simps [simp del]

lemma isqrt_bounds: "isqrt n * isqrt n \<le> n \<and> n < (isqrt n + 1) * (isqrt n + 1)"
proof (induction n rule: isqrt.induct)
  case (1 n)
  show ?case
  proof (cases "n = 0")
    case True
    then show ?thesis by (simp add: isqrt.simps)
  next
    case False
    let ?q = "isqrt (n div 4)"
    have ih: "?q * ?q \<le> n div 4" "n div 4 < (?q + 1) * (?q + 1)" using 1 False by auto
    have "4 * (?q * ?q) \<le> n" using ih(1) by simp
    moreover have "n < 4 * ((?q + 1) * (?q + 1))" using ih(2) by linarith
    ultimately show ?thesis
      using False by (auto simp: isqrt.simps [of n] Let_def algebra_simps)
  qed
qed

text \<open>The root of \<open>x * 4^n\<close>, scaled back; an inexact root is replaced by the midpoint above it,
  which lies on the same side of every number of the format. \<open>n = 1200\<close> gives the integer root
  more than 600 bits even for the least positive \<open>double\<close>.\<close>

definition sqrt_at :: "nat \<Rightarrow> rat \<Rightarrow> rat" where
  "sqrt_at n x =
     (let y = x * 4 ^ n; r = isqrt (nat \<lfloor>y\<rfloor>)
      in if of_nat (r * r) = y then of_nat r / 2 ^ n else of_nat (2 * r + 1) / 2 ^ Suc n)"

fun c_sqrt :: "f64 \<Rightarrow> f64" where
  "c_sqrt (Fin x) = (if x < 0 then NaN else f64 (sqrt_at 1200 x))"
| "c_sqrt PInf = PInf"
| "c_sqrt NInf = NaN"
| "c_sqrt NaN = NaN"

lemma isqrt_nat_floor: "0 \<le> y \<Longrightarrow> rat_of_nat (isqrt (nat \<lfloor>y\<rfloor>) * isqrt (nat \<lfloor>y\<rfloor>)) \<le> y"
proof -
  assume y: "0 \<le> y"
  have "isqrt (nat \<lfloor>y\<rfloor>) * isqrt (nat \<lfloor>y\<rfloor>) \<le> nat \<lfloor>y\<rfloor>" using isqrt_bounds by blast
  then have "rat_of_nat (isqrt (nat \<lfloor>y\<rfloor>) * isqrt (nat \<lfloor>y\<rfloor>)) \<le> rat_of_nat (nat \<lfloor>y\<rfloor>)"
    by (simp only: of_nat_le_iff)
  also have "\<dots> \<le> y" using y by (simp add: of_nat_nat)
  finally show ?thesis .
qed

lemma isqrt_square: "isqrt (k * k) = k"
proof -
  have b: "isqrt (k * k) * isqrt (k * k) \<le> k * k" "k * k < (isqrt (k * k) + 1) * (isqrt (k * k) + 1)"
    using isqrt_bounds [of "k * k"] by auto
  have "isqrt (k * k) \<le> k" using b(1) by (metis mult_le_mono mult_strict_mono' not_le zero_le)
  moreover have "k < isqrt (k * k) + 1" using b(2) by (metis mult_le_mono not_le)
  ultimately show ?thesis by simp
qed

lemma sqrt_at_nonneg: "0 \<le> sqrt_at n x"
  by (simp add: sqrt_at_def Let_def)

lemma four_pow: "(4::rat) ^ n = 2 ^ n * 2 ^ n"
proof -
  have "(4::rat) = 2 * 2" by simp
  then show ?thesis by (simp only: power_mult_distrib)
qed

lemma sqrt_at_square: "sqrt_at n (of_nat k * of_nat k) = of_nat k"
proof -
  have y: "of_nat k * of_nat k * (4::rat) ^ n = of_nat ((k * 2 ^ n) * (k * 2 ^ n))"
    by (simp add: four_pow mult_ac)
  have fl: "nat \<lfloor>rat_of_nat ((k * 2 ^ n) * (k * 2 ^ n))\<rfloor> = (k * 2 ^ n) * (k * 2 ^ n)"
    by (simp only: floor_of_nat nat_int)
  show ?thesis
    unfolding sqrt_at_def Let_def y fl isqrt_square by simp
qed

lemma sqrt_at_0 [simp]: "sqrt_at n 0 = 0"
  using sqrt_at_square [of n 0] by simp

text \<open>The root stays below every integer whose square bounds the argument.\<close>

lemma sqrt_at_le:
  assumes "0 \<le> x" "x \<le> of_nat (b * b)"
  shows "sqrt_at n x \<le> of_nat b"
proof -
  let ?y = "x * 4 ^ n"
  let ?r = "isqrt (nat \<lfloor>?y\<rfloor>)"
  have le: "rat_of_nat (?r * ?r) \<le> ?y" using assms(1) by (intro isqrt_nat_floor) simp
  have "?y \<le> of_nat (b * b) * 4 ^ n" using assms(2) by (rule mult_right_mono) simp
  also have "\<dots> = of_nat ((b * 2 ^ n) * (b * 2 ^ n))" by (simp add: four_pow mult_ac)
  finally have upper: "?y \<le> of_nat ((b * 2 ^ n) * (b * 2 ^ n))" .
  show ?thesis
  proof (cases "rat_of_nat (?r * ?r) = ?y")
    case True
    have "rat_of_nat (?r * ?r) \<le> of_nat ((b * 2 ^ n) * (b * 2 ^ n))" using upper True by simp
    then have "?r * ?r \<le> (b * 2 ^ n) * (b * 2 ^ n)" by (simp only: of_nat_le_iff)
    then have "?r \<le> b * 2 ^ n" by (metis mult_strict_mono' not_le zero_le)
    then have "rat_of_nat ?r \<le> of_nat (b * 2 ^ n)" by (simp only: of_nat_le_iff)
    then have "rat_of_nat ?r / 2 ^ n \<le> of_nat b" by (simp add: pos_divide_le_eq)
    then show ?thesis using True by (simp add: sqrt_at_def Let_def)
  next
    case False
    then have "rat_of_nat (?r * ?r) < of_nat ((b * 2 ^ n) * (b * 2 ^ n))" using le upper by linarith
    then have "?r * ?r < (b * 2 ^ n) * (b * 2 ^ n)" by (simp only: of_nat_less_iff)
    then have "?r < b * 2 ^ n" by (metis mult_le_mono not_le)
    then have "2 * ?r + 1 \<le> b * 2 ^ Suc n" by simp
    then have "rat_of_nat (2 * ?r + 1) \<le> of_nat (b * 2 ^ Suc n)" by (simp only: of_nat_le_iff)
    then have "rat_of_nat (2 * ?r + 1) / 2 ^ Suc n \<le> of_nat b" by (simp add: pos_divide_le_eq)
    then show ?thesis using False by (simp add: sqrt_at_def Let_def)
  qed
qed

text \<open>And above every dyadic number whose square the argument reaches.\<close>

lemma isqrt_ge: "k * k \<le> m \<Longrightarrow> k \<le> isqrt m"
proof -
  assume "k * k \<le> m"
  then have "k * k < (isqrt m + 1) * (isqrt m + 1)" using isqrt_bounds [of m] by linarith
  then have "k < isqrt m + 1" by (metis mult_le_mono not_le)
  then show ?thesis by simp
qed

lemma sqrt_at_ge:
  assumes "j \<le> n" "of_nat (b * b) / 4 ^ j \<le> x"
  shows "of_nat b / 2 ^ j \<le> sqrt_at n x"
proof -
  let ?y = "x * 4 ^ n"
  let ?r = "isqrt (nat \<lfloor>?y\<rfloor>)"
  have n4: "(4::rat) ^ n = 4 ^ j * 4 ^ (n - j)" and n2: "(2::rat) ^ n = 2 ^ j * 2 ^ (n - j)"
    using assms(1) by (simp_all flip: power_add)
  have "of_nat (b * b) / 4 ^ j * 4 ^ n \<le> ?y" using assms(2) by (rule mult_right_mono) simp
  also have "of_nat (b * b) / 4 ^ j * 4 ^ n = rat_of_nat ((b * 2 ^ (n - j)) * (b * 2 ^ (n - j)))"
    unfolding n4 by (simp add: four_pow [of "n - j"] mult_ac)
  finally have "rat_of_nat ((b * 2 ^ (n - j)) * (b * 2 ^ (n - j))) \<le> ?y" .
  then have "of_int (int ((b * 2 ^ (n - j)) * (b * 2 ^ (n - j)))) \<le> ?y" by simp
  then have "int ((b * 2 ^ (n - j)) * (b * 2 ^ (n - j))) \<le> \<lfloor>?y\<rfloor>" by (simp only: le_floor_iff)
  then have "(b * 2 ^ (n - j)) * (b * 2 ^ (n - j)) \<le> nat \<lfloor>?y\<rfloor>" by linarith
  then have "b * 2 ^ (n - j) \<le> ?r" by (rule isqrt_ge)
  then have "rat_of_nat (b * 2 ^ (n - j)) \<le> of_nat ?r" by (simp only: of_nat_le_iff)
  then have "of_nat b / 2 ^ j \<le> rat_of_nat ?r / 2 ^ n" unfolding n2 by (simp add: divide_simps)
  moreover have "rat_of_nat ?r / 2 ^ n \<le> of_nat (2 * ?r + 1) / 2 ^ Suc n" by (simp add: divide_simps)
  ultimately show ?thesis by (auto simp: sqrt_at_def Let_def)
qed

section \<open>log10\<close>

locale libm_log10 =
  fixes lg :: "f64 \<Rightarrow> f64"
  assumes lg_not_nan: "0 < x \<Longrightarrow> lg (Fin x) \<noteq> NaN"
    and lg_one: "lg (Fin 1) = Fin 0"

text \<open>The correctly rounded \<open>log10\<close>.\<close>

fun log10_rounded :: "f64 \<Rightarrow> f64" where
  "log10_rounded (Fin x) =
     (if 0 < x then Fin (rnd 53 1074 (log 10 (real_of_rat x))) else if x = 0 then NInf else NaN)"
| "log10_rounded PInf = PInf"
| "log10_rounded NInf = NaN"
| "log10_rounded NaN = NaN"

interpretation log10_cr: libm_log10 log10_rounded
  by unfold_locales simp_all

section \<open>The level of a frame\<close>

definition i16_to_f64 :: "i16 \<Rightarrow> f64" where
  "i16_to_f64 x = f64 (of_int (sint x))"

definition frame_sum_sq :: "i16 list \<Rightarrow> f64" where
  "frame_sum_sq pcm =
     foldl (\<lambda>a s. fp_add f64 a (fp_mul f64 (i16_to_f64 s) (i16_to_f64 s))) (Fin 0) pcm"

definition frame_rms :: "i16 list \<Rightarrow> f64" where
  "frame_rms pcm = c_sqrt (fp_divc f64 (frame_sum_sq pcm) 960)"

definition frame_dbfs :: "(f64 \<Rightarrow> f64) \<Rightarrow> i16 list \<Rightarrow> f32" where
  "frame_dbfs lg pcm =
     (let rms = frame_rms pcm;
          d0 = (if fp_lt (Fin 0) rms
                then fp_cast f32 (fp_mul f64 (Fin 20) (lg (fp_divc f64 rms 32768)))
                else Fin (- 90));
          d1 = (if fp_lt d0 (Fin (- 90)) then Fin (- 90) else d0)
      in if fp_lt (Fin 0) d1 then Fin 0 else d1)"

definition energy_level :: "f32 \<Rightarrow> u8 option" where
  "energy_level dbfs =
     (let n0 = fp_divc f32 (fp_add f32 dbfs (Fin 60)) 60;
          n1 = (if fp_lt n0 (Fin 0) then Fin 0 else n0);
          n2 = (if fp_lt (Fin 1) n1 then Fin 1 else n1)
      in map_option word_of_int
           (fp_to_int 0 255 (fp_add f32 (fp_mul f32 n2 (Fin 15)) (Fin (1 / 2)))))"

text \<open>The sum of squares is exact: no addition or multiplication of it rounds.\<close>

definition square_sum :: "i16 list \<Rightarrow> int" where
  "square_sum pcm = (\<Sum>x\<leftarrow>pcm. sint x * sint x)"

lemma sint_square_bounds: "0 \<le> sint x * sint x \<and> sint x * sint x \<le> 2 ^ 30" for x :: i16
proof -
  have "\<bar>sint x\<bar> * \<bar>sint x\<bar> \<le> 2 ^ 15 * 2 ^ 15"
    using sint16_bounds [of x] by (intro mult_mono) auto
  then show ?thesis by (simp flip: abs_mult)
qed

lemma square_sum_bounds: "0 \<le> square_sum pcm \<and> square_sum pcm \<le> int (length pcm) * 2 ^ 30"
proof (induction pcm)
  case Nil
  then show ?case by (simp add: square_sum_def)
next
  case (Cons x pcm)
  then show ?case using sint_square_bounds [of x] by (simp add: square_sum_def algebra_simps)
qed

lemma i16_to_f64_Fin: "sint x = k \<Longrightarrow> i16_to_f64 x = Fin (of_int k)"
  unfolding i16_to_f64_def using sint16_bounds [of x] f64_of_int [of k] by (simp add: abs_le_iff)

lemma frame_sum_sq_step:
  assumes "0 \<le> z" "z \<le> 2 ^ 52"
  shows "fp_add f64 (Fin (of_int z)) (fp_mul f64 (i16_to_f64 x) (i16_to_f64 x))
    = Fin (of_int (z + sint x * sint x))"
proof -
  obtain k where k: "sint x = k" by simp
  have sq: "0 \<le> k * k" "k * k \<le> 2 ^ 30" using sint_square_bounds [of x] k by auto
  have "fp_mul f64 (i16_to_f64 x) (i16_to_f64 x) = f64 (of_int (k * k))"
    by (simp add: i16_to_f64_Fin [OF k])
  also have "\<dots> = Fin (of_int (k * k))" using sq by (intro f64_of_int) simp
  finally have "fp_add f64 (Fin (of_int z)) (fp_mul f64 (i16_to_f64 x) (i16_to_f64 x))
      = f64 (of_int (z + k * k))" by simp
  also have "\<dots> = Fin (of_int (z + k * k))" using sq assms by (intro f64_of_int) simp
  finally show ?thesis by (simp add: k)
qed

lemma frame_sum_sq_exact:
  assumes "length pcm \<le> 960"
  shows "frame_sum_sq pcm = Fin (of_int (square_sum pcm))"
  using assms
proof (induction pcm rule: rev_induct)
  case Nil
  then show ?case by (simp add: frame_sum_sq_def square_sum_def)
next
  case (snoc x pcm)
  have "square_sum pcm \<le> 960 * 2 ^ 30" using square_sum_bounds [of pcm] snoc.prems by simp
  then have "fp_add f64 (Fin (of_int (square_sum pcm))) (fp_mul f64 (i16_to_f64 x) (i16_to_f64 x))
      = Fin (of_int (square_sum pcm + sint x * sint x))"
    using square_sum_bounds [of pcm] by (intro frame_sum_sq_step) auto
  then show ?case using snoc by (simp add: frame_sum_sq_def square_sum_def)
qed

lemma f64_Fin_small: "\<bar>x\<bar> \<le> 2 ^ 40 \<Longrightarrow> f64 x = Fin (rnd64 x)"
  by (rule f64_Fin) (erule order_trans, simp)

lemma repr64_int: "\<bar>m\<bar> \<le> 2 ^ 40 \<Longrightarrow> repr 53 1074 (of_int m)"
  by (rule reprI [where m = m and j = 0]) simp_all

lemma frame_mean:
  assumes "length pcm = 960"
  shows "\<exists>x. fp_divc f64 (frame_sum_sq pcm) 960 = Fin x \<and> 0 \<le> x \<and> x \<le> 2 ^ 30
    \<and> (square_sum pcm = 0 \<longrightarrow> x = 0) \<and> (square_sum pcm \<noteq> 0 \<longrightarrow> 1 / 2 ^ 10 \<le> x)
    \<and> (square_sum pcm = 960 * 2 ^ 30 \<longrightarrow> x = 2 ^ 30)"
proof -
  let ?q = "rat_of_int (square_sum pcm) / 960"
  have "square_sum pcm \<le> 960 * 2 ^ 30" "0 \<le> square_sum pcm"
    using square_sum_bounds [of pcm] assms by auto
  then have "rat_of_int (square_sum pcm) \<le> of_int (960 * 2 ^ 30)" "0 \<le> rat_of_int (square_sum pcm)"
    by (simp_all only: of_int_le_iff of_int_0_le_iff)
  then have q: "0 \<le> ?q" "?q \<le> 2 ^ 30" by simp_all
  then have div: "fp_divc f64 (frame_sum_sq pcm) 960 = Fin (rnd64 ?q)"
    using assms by (simp add: frame_sum_sq_exact f64_Fin_small)
  have "0 \<le> rnd64 ?q" using q by (simp add: rnd_nonneg)
  moreover have r30: "repr 53 1074 (2 ^ 30)" using repr64_int [of "2 ^ 30"] by simp
  then have "rnd64 ?q \<le> 2 ^ 30" using q by (intro rnd_le_repr) simp_all
  moreover have "square_sum pcm = 0 \<longrightarrow> rnd64 ?q = 0" by simp
  moreover have "1 / 2 ^ 10 \<le> rnd64 ?q" if nz: "square_sum pcm \<noteq> 0"
  proof -
    have "1 \<le> square_sum pcm" using nz \<open>0 \<le> square_sum pcm\<close> by simp
    then have "1 \<le> rat_of_int (square_sum pcm)" by simp
    then have "1 / 2 ^ 10 \<le> ?q" by simp
    moreover have "repr 53 1074 (1 / 2 ^ 10)" by (rule reprI [where m = 1 and j = 10]) simp_all
    ultimately show ?thesis by (intro repr_le_rnd) simp_all
  qed
  moreover have "rnd64 ?q = 2 ^ 30" if "square_sum pcm = 960 * 2 ^ 30"
    using r30 by (simp add: that)
  ultimately show ?thesis using div by blast
qed

lemma c_sqrt_bounds:
  assumes "0 \<le> x" "x \<le> 2 ^ 30"
  shows "\<exists>r. c_sqrt (Fin x) = Fin r \<and> 0 \<le> r \<and> r \<le> 32768 \<and> (x = 0 \<longrightarrow> r = 0)
    \<and> (1 / 2 ^ 10 \<le> x \<longrightarrow> 1 / 2 ^ 5 \<le> r) \<and> (x = 2 ^ 30 \<longrightarrow> r = 32768)"
proof -
  let ?z = "sqrt_at 1200 x"
  have z: "0 \<le> ?z" "?z \<le> 32768"
    using sqrt_at_nonneg [of 1200 x] sqrt_at_le [of x 32768 1200] assms by simp_all
  then have "f64 ?z = Fin (rnd64 ?z)" by (intro f64_Fin_small) simp
  moreover have "0 \<le> rnd64 ?z" using z by (simp add: rnd_nonneg)
  moreover have r: "repr 53 1074 32768" using repr64_int [of 32768] by simp
  then have "rnd64 ?z \<le> 32768" using z by (intro rnd_le_repr) simp_all
  moreover have "x = 0 \<longrightarrow> rnd64 ?z = 0" by simp
  moreover have "1 / 2 ^ 5 \<le> rnd64 ?z" if "1 / 2 ^ 10 \<le> x"
  proof -
    have "1 / 2 ^ 5 \<le> ?z" using sqrt_at_ge [of 5 1200 1 x] that by simp
    moreover have "repr 53 1074 (1 / 2 ^ 5)" by (rule reprI [where m = 1 and j = 5]) simp_all
    ultimately show ?thesis by (intro repr_le_rnd) simp_all
  qed
  moreover have "rnd64 ?z = 32768" if "x = 2 ^ 30"
    using sqrt_at_square [of 1200 32768] r that by simp
  ultimately show ?thesis using assms(1) by simp
qed

lemma frame_rms_Fin:
  assumes "length pcm = 960"
  shows "\<exists>r. frame_rms pcm = Fin r \<and> 0 \<le> r \<and> r \<le> 32768 \<and> (r = 0 \<longleftrightarrow> square_sum pcm = 0)
    \<and> (r \<noteq> 0 \<longrightarrow> 1 / 2 ^ 5 \<le> r) \<and> (square_sum pcm = 960 * 2 ^ 30 \<longrightarrow> r = 32768)"
proof -
  obtain x where x: "fp_divc f64 (frame_sum_sq pcm) 960 = Fin x" "0 \<le> x" "x \<le> 2 ^ 30"
      "square_sum pcm = 0 \<longrightarrow> x = 0" "square_sum pcm \<noteq> 0 \<longrightarrow> 1 / 2 ^ 10 \<le> x"
      "square_sum pcm = 960 * 2 ^ 30 \<longrightarrow> x = 2 ^ 30"
    using frame_mean [OF assms] by blast
  obtain r where r: "c_sqrt (Fin x) = Fin r" "0 \<le> r" "r \<le> 32768" "x = 0 \<longrightarrow> r = 0"
      "1 / 2 ^ 10 \<le> x \<longrightarrow> 1 / 2 ^ 5 \<le> r" "x = 2 ^ 30 \<longrightarrow> r = 32768"
    using c_sqrt_bounds [OF x(2,3)] by blast
  have "r = 0 \<longleftrightarrow> square_sum pcm = 0" "r \<noteq> 0 \<longrightarrow> 1 / 2 ^ 5 \<le> r" using x(4,5) r(4,5) by fastforce+
  then show ?thesis unfolding frame_rms_def x(1) r(1) using x(6) r by blast
qed

lemma square_sum_0_iff: "square_sum pcm = 0 \<longleftrightarrow> (\<forall>x \<in> set pcm. x = 0)"
proof (induction pcm)
  case Nil
  then show ?case by (simp add: square_sum_def)
next
  case (Cons x pcm)
  have "square_sum (x # pcm) = sint x * sint x + square_sum pcm" by (simp add: square_sum_def)
  moreover have "0 \<le> sint x * sint x" "0 \<le> square_sum pcm"
    using sint_square_bounds [of x] square_sum_bounds [of pcm] by auto
  ultimately have "square_sum (x # pcm) = 0 \<longleftrightarrow> sint x = 0 \<and> square_sum pcm = 0"
    by (simp add: add_nonneg_eq_0_iff)
  then show ?case using Cons by (simp add: signed_eq_0_iff)
qed

text \<open>The clamps: whatever \<open>log10\<close> returned, short of a NaN, the level is in \<open>[-90, 0]\<close>.\<close>

lemma clamp_level:
  assumes "d \<noteq> NaN"
  shows "\<exists>v. (let d1 = (if fp_lt d (Fin (- 90)) then Fin (- 90) else d)
              in if fp_lt (Fin 0) d1 then Fin 0 else d1) = Fin v \<and> - 90 \<le> v \<and> v \<le> 0"
  using assms by (cases d) auto

lemma fp_cast_not_nan: "a \<noteq> NaN \<Longrightarrow> fp_cast f32 a \<noteq> NaN"
  by (cases a) auto

lemma f64_not_NaN [simp]: "f64 x \<noteq> NaN"
  by (simp add: f64_def fp_round_def Let_def)

context libm_log10
begin

lemma level_range:
  assumes "length pcm = 960"
  shows "\<exists>v. frame_dbfs lg pcm = Fin v \<and> - 90 \<le> v \<and> v \<le> 0"
proof -
  obtain r where r: "frame_rms pcm = Fin r" "0 \<le> r" "r \<le> 32768" "r \<noteq> 0 \<longrightarrow> 1 / 2 ^ 5 \<le> r"
    using frame_rms_Fin [OF assms] by blast
  show ?thesis
  proof (cases "r = 0")
    case True
    then show ?thesis using r by (simp add: frame_dbfs_def)
  next
    case False
    have q: "fp_divc f64 (Fin r) 32768 = Fin (rnd64 (r / 32768))"
      using r by (simp add: f64_Fin_small)
    have "repr 53 1074 (1 / 2 ^ 20)" by (rule reprI [where m = 1 and j = 20]) simp_all
    then have "1 / 2 ^ 20 \<le> rnd64 (r / 32768)" using r False by (intro repr_le_rnd) simp_all
    then have "0 < rnd64 (r / 32768)" by (rule less_le_trans [rotated]) simp
    then have "lg (Fin (rnd64 (r / 32768))) \<noteq> NaN" by (rule lg_not_nan)
    then have "fp_mul f64 (Fin 20) (lg (Fin (rnd64 (r / 32768)))) \<noteq> NaN"
      by (cases "lg (Fin (rnd64 (r / 32768)))") simp_all
    note nn = fp_cast_not_nan [OF this]
    have "fp_lt (Fin 0) (Fin r)" using r False by simp
    then have "frame_dbfs lg pcm =
        (let d0 = fp_cast f32 (fp_mul f64 (Fin 20) (lg (Fin (rnd64 (r / 32768)))));
             d1 = (if fp_lt d0 (Fin (- 90)) then Fin (- 90) else d0)
         in if fp_lt (Fin 0) d1 then Fin 0 else d1)"
      unfolding frame_dbfs_def r(1) Let_def q by (simp only: if_True)
    with clamp_level [OF nn] show ?thesis by (simp only: Let_def)
  qed
qed

lemma level_full_scale:
  assumes "length pcm = 960" "square_sum pcm = 960 * 2 ^ 30"
  shows "frame_dbfs lg pcm = Fin 0"
proof -
  have rms: "frame_rms pcm = Fin 32768" using frame_rms_Fin [OF assms(1)] assms(2) by auto
  have "f64 1 = Fin 1" "f64 0 = Fin 0" "f32 0 = Fin 0"
    using f64_of_int [of 1] f64_of_int [of 0] f32_of_int [of 0] by simp_all
  then show ?thesis by (simp add: frame_dbfs_def rms lg_one)
qed

end

lemma level_silent: "length pcm = 960 \<Longrightarrow> \<forall>x \<in> set pcm. x = 0 \<Longrightarrow> frame_dbfs lg pcm = Fin (- 90)"
  using frame_rms_Fin [of pcm] square_sum_0_iff [of pcm] by (auto simp: frame_dbfs_def)

section \<open>The quantised energy\<close>

definition norm_level :: "rat \<Rightarrow> rat" where
  "norm_level d = (let n = rnd32 (rnd32 (d + 60) / 60) in if n < 0 then 0 else if 1 < n then 1 else n)"

definition energy_int :: "rat \<Rightarrow> int" where
  "energy_int d = trunc (rnd32 (rnd32 (norm_level d * 15) + 1 / 2))"

lemma repr_of_int24: "\<bar>m\<bar> \<le> 2 ^ 24 \<Longrightarrow> repr 24 149 (of_int m)"
  by (rule reprI [where m = m and j = 0]) simp_all

lemma norm_level_range: "0 \<le> norm_level d" "norm_level d \<le> 1"
  by (auto simp: norm_level_def Let_def)

lemma norm_level_mono: "d \<le> d' \<Longrightarrow> norm_level d \<le> norm_level d'"
proof -
  assume "d \<le> d'"
  then have "rnd32 (d + 60) / 60 \<le> rnd32 (d' + 60) / 60"
    by (intro divide_right_mono rnd_mono) simp_all
  then have "rnd32 (rnd32 (d + 60) / 60) \<le> rnd32 (rnd32 (d' + 60) / 60)" by (intro rnd_mono) simp_all
  then show ?thesis by (auto simp: norm_level_def Let_def)
qed

lemma energy_int_mono: "d \<le> d' \<Longrightarrow> energy_int d \<le> energy_int d'"
  unfolding energy_int_def
  by (intro trunc_mono rnd_mono add_right_mono mult_right_mono norm_level_mono) simp_all

lemma energy_int_range: "0 \<le> energy_int d \<and> energy_int d \<le> 15"
proof -
  have "rnd32 (norm_level d * 15) \<le> 15"
    using norm_level_range [of d] repr_of_int24 [of 15] by (intro rnd_le_repr) simp_all
  moreover have "repr 24 149 (31 / 2)" using reprI [of 31 24 1 149] by simp
  ultimately have "rnd32 (rnd32 (norm_level d * 15) + 1 / 2) \<le> 31 / 2" by (intro rnd_le_repr) simp_all
  moreover have "0 \<le> rnd32 (rnd32 (norm_level d * 15) + 1 / 2)"
    using norm_level_range [of d] by (intro rnd_nonneg add_nonneg_nonneg) simp_all
  ultimately have e: "trunc 0 \<le> energy_int d" "energy_int d \<le> trunc (31 / 2)"
    unfolding energy_int_def by (intro trunc_mono; simp)+
  moreover have "\<lfloor>31 / 2 :: rat\<rfloor> = 15" by (rule floor_unique) simp_all
  ultimately show ?thesis by (simp add: trunc_def)
qed

lemma energy_level_eq:
  assumes "fp_divc f32 (fp_add f32 dbfs (Fin 60)) 60 = Fin (rnd32 (rnd32 (d + 60) / 60))"
  shows "energy_level dbfs = map_option word_of_int
    (fp_to_int 0 255 (fp_add f32 (fp_mul f32 (Fin (norm_level d)) (Fin 15)) (Fin (1 / 2))))"
  by (simp add: energy_level_def norm_level_def assms Let_def del: fp_add.simps fp_mul.simps fp_to_int.simps)

lemma energy_level_Fin:
  assumes "\<bar>d\<bar> \<le> 1000"
  shows "energy_level (Fin d) = Some (word_of_int (energy_int d))"
proof -
  have small: "f32 x = Fin (rnd32 x)" if "\<bar>x\<bar> \<le> 2000" for x using that by (intro f32_Fin) simp
  have r: "\<bar>rnd32 (d + 60)\<bar> \<le> 1060"
    using assms rnd_le_repr [of 24 "d + 60" 1060 149] repr_le_rnd [of 24 "- 1060" "d + 60" 149]
      repr_of_int24 [of 1060] by (auto simp: abs_le_iff)
  have "fp_divc f32 (fp_add f32 (Fin d) (Fin 60)) 60 = Fin (rnd32 (rnd32 (d + 60) / 60))"
    using assms r by (simp add: small abs_le_iff)
  note eq = energy_level_eq [OF this]
  have n: "0 \<le> norm_level d * 15" "norm_level d * 15 \<le> 15" using norm_level_range [of d] by auto
  then have "0 \<le> rnd32 (norm_level d * 15)" "rnd32 (norm_level d * 15) \<le> 15"
    using repr_of_int24 [of 15] by (auto intro: rnd_nonneg rnd_le_repr)
  then have "f32 (rnd32 (norm_level d * 15) + 1 / 2) = Fin (rnd32 (rnd32 (norm_level d * 15) + 1 / 2))"
    by (intro small) simp
  moreover have "f32 (norm_level d * 15) = Fin (rnd32 (norm_level d * 15))" using n by (intro small) simp
  ultimately have "energy_level (Fin d) = map_option word_of_int
      (fp_to_int 0 255 (Fin (rnd32 (rnd32 (norm_level d * 15) + 1 / 2))))"
    unfolding eq by (simp del: fp_to_int.simps)
  then show ?thesis using energy_int_range [of d] by (simp add: energy_int_def [of d])
qed

end
