(* ===== verification/Capture.thy ===== *)
theory Capture
  imports Level Peers
begin

text \<open>
  The capture path of \<open>libvoice_engine.c\<close>: \<open>ma_capture_callback\<close>, which the audio thread runs to
  put the microphone's samples into the capture ring (averaging the channels of a multi-channel
  device), and \<open>voice_engine_capture_frame\<close>, which takes a 20 ms frame out of it, measures it,
  decides whether the user is speaking and, in the microphone test, feeds it back to peer slot 0.
\<close>

section \<open>The capture callback\<close>

text \<open>\<open>mixed\<close> is an \<open>int32_t\<close>, indexed with unsigned 32-bit arithmetic.\<close>

definition mixed_sum :: "u32 \<Rightarrow> (nat \<Rightarrow> i16) \<Rightarrow> u32 \<Rightarrow> i32" where
  "mixed_sum chans samples i =
     foldl (\<lambda>m c. m + scast (samples (unat (i * chans + of_nat c)))) 0 [0..<unat chans]"

definition downmix :: "u32 \<Rightarrow> (nat \<Rightarrow> i16) \<Rightarrow> u32 \<Rightarrow> i16" where
  "downmix chans samples i =
     (let val = cdiv (sint (mixed_sum chans samples i)) (sint chans);
          val = (if 32767 < val then 32767 else val);
          val = (if val < - 32768 then - 32768 else val)
      in word_of_int val)"

definition captured :: "u32 \<Rightarrow> (nat \<Rightarrow> i16) \<Rightarrow> u32 \<Rightarrow> i16 list" where
  "captured chans samples n =
     map (\<lambda>i. if chans \<le> 1 then samples i else downmix chans samples (of_nat i)) [0..<unat n]"

text \<open>\<open>dev\<close> is \<open>capture.channels\<close> of the device, \<open>None\<close> a null pointer.\<close>

definition ma_capture_callback ::
    "u32 option \<Rightarrow> (nat \<Rightarrow> i16) option \<Rightarrow> u32 \<Rightarrow> 'i engine \<Rightarrow> 'i engine" where
  "ma_capture_callback dev pInput frameCount s =
     (case pInput of
        None \<Rightarrow> s
      | Some samples \<Rightarrow>
          if frameCount = 0 \<or> \<not> g_capturing s then s
          else
            let chans = (case dev of Some c \<Rightarrow> if 0 < c then c else 1 | None \<Rightarrow> 1);
                s1 = enter_cs s
            in leave_cs (fold capture_put (captured chans samples frameCount) s1))"

section \<open>Taking a frame\<close>

record capture_out =
  co_ret :: i32
  co_buffer :: "u8 list option"
  co_level_db :: "f32 option"
  co_is_speaking :: "bool option"
  co_energy_level :: "u8 option"

text \<open>A write through a pointer that may be null (\<open>None\<close>), and a write at the start of the
  caller's buffer.\<close>

definition store_out :: "'a \<Rightarrow> 'a option \<Rightarrow> 'a option" where
  "store_out v = map_option (\<lambda>_. v)"

definition write_bytes :: "u8 list \<Rightarrow> u8 list \<Rightarrow> u8 list" where
  "write_bytes bs buf = bs @ drop (length bs) buf"

definition frame_out ::
    "i16 list \<Rightarrow> f32 \<Rightarrow> bool \<Rightarrow> u8 \<Rightarrow> u8 list \<Rightarrow> f32 option \<Rightarrow> bool option \<Rightarrow> u8 option \<Rightarrow> capture_out" where
  "frame_out pcm dbfs speaking energy buf lvl spk en =
     \<lparr>co_ret = 960 * 2, co_buffer = Some (write_bytes (bytes_of_samples pcm) buf),
      co_level_db = store_out dbfs lvl, co_is_speaking = store_out speaking spk,
      co_energy_level = store_out energy en\<rparr>"

definition set_level_stats :: "f32 \<Rightarrow> bool \<Rightarrow> 'i engine \<Rightarrow> 'i engine" where
  "set_level_stats dbfs speaking s =
     s\<lparr>g_stats := (g_stats s)\<lparr>input_level_db := dbfs, stats_is_speaking := speaking\<rparr>\<rparr>"

definition count_sent :: "'i engine \<Rightarrow> 'i engine" where
  "count_sent s = s\<lparr>g_stats := (g_stats s)\<lparr>packets_sent := packets_sent (g_stats s) + 1\<rparr>\<rparr>"

text \<open>Voice activity with hangover, or push to talk: speaking, and the hangover left.\<close>

definition vad_step :: "bool \<Rightarrow> f32 \<Rightarrow> u32 \<Rightarrow> bool \<Rightarrow> f32 \<Rightarrow> u32 \<Rightarrow> bool \<times> u32" where
  "vad_step vad_mode threshold hangover ptt dbfs left =
     (if vad_mode then
        if fp_le threshold dbfs then (True, hangover)
        else if 20 \<le> left then (True, left - 20)
        else (False, 0)
      else (ptt, left))"

definition loopback_frame :: "i16 list \<Rightarrow> 'i engine \<Rightarrow> 'i engine" where
  "loopback_frame pcm s =
     (if g_mic_test_loopback s then
        let s1 = enter_cs s;
            p = (g_peers s1 0)\<lparr>user_id := 999999, is_active := True, user_volume := Fin 1\<rparr>
        in leave_cs (s1\<lparr>g_peers := (g_peers s1)(0 := fold peer_put pcm p)\<rparr>)
      else s)"

definition process_frame ::
    "(f64 \<Rightarrow> f64) \<Rightarrow> i16 list \<Rightarrow> u8 list \<Rightarrow> f32 option \<Rightarrow> bool option \<Rightarrow> u8 option \<Rightarrow> 'i engine
       \<Rightarrow> (capture_out \<times> 'i engine) option" where
  "process_frame lg pcm buf lvl spk en s =
     (let dbfs = frame_dbfs lg pcm;
          (speaking, left) = vad_step (g_vad_mode s) (g_vad_threshold s) (vad_hangover_ms (g_config s))
                               (g_ptt_pressed s) dbfs (g_hangover_ms_left s)
      in case energy_level dbfs of
           None \<Rightarrow> None
         | Some energy \<Rightarrow>
             let s1 = count_sent (set_level_stats dbfs speaking (s\<lparr>g_hangover_ms_left := left\<rparr>))
             in Some (frame_out pcm dbfs speaking energy buf lvl spk en, loopback_frame pcm s1))"

text \<open>\<open>None\<close> is an undefined cast of the energy; every proper run is \<open>Some\<close>, which is proved.\<close>

definition voice_engine_capture_frame ::
    "(f64 \<Rightarrow> f64) \<Rightarrow> u8 list option \<Rightarrow> u32 \<Rightarrow> f32 option \<Rightarrow> bool option \<Rightarrow> u8 option \<Rightarrow> 'i engine
       \<Rightarrow> (capture_out \<times> 'i engine) option" where
  "voice_engine_capture_frame lg out_buffer max_len lvl spk en s =
     (case out_buffer of
        None \<Rightarrow> Some (\<lparr>co_ret = 0, co_buffer = None, co_level_db = lvl, co_is_speaking = spk,
                        co_energy_level = en\<rparr>, s)
      | Some buf \<Rightarrow>
          if max_len < SAMPLES_PER_FRAME * 2
          then Some (\<lparr>co_ret = 0, co_buffer = Some buf, co_level_db = lvl, co_is_speaking = spk,
                       co_energy_level = en\<rparr>, s)
          else if (\<not> g_capturing s \<and> \<not> g_mic_test_loopback s) \<or> g_local_muted s
          then Some (frame_out (replicate 960 0) (Fin (- 90)) False 0 buf lvl spk en,
                     set_level_stats (Fin (- 90)) False s)
          else
            let s1 = enter_cs s;
                available = ring_available (g_capture_read_idx s1) (g_capture_write_idx s1)
            in if SAMPLES_PER_FRAME \<le> available
               then let (pcm, s2) = take_samples capture_get (unat SAMPLES_PER_FRAME) s1
                    in process_frame lg pcm buf lvl spk en (leave_cs s2)
               else Some (frame_out (replicate 960 0) (Fin (- 90)) False 0 buf lvl spk en,
                          count_sent (set_level_stats (Fin (- 90)) False
                            ((leave_cs s1)\<lparr>g_hangover_ms_left := 0\<rparr>))))"

section \<open>Down-mixing\<close>

text \<open>The average of a frame's channels, computed without wrap-around, as the reference.\<close>

definition channel_sum :: "nat \<Rightarrow> (nat \<Rightarrow> i16) \<Rightarrow> nat \<Rightarrow> int" where
  "channel_sum n samples i = (\<Sum>c\<leftarrow>[0..<n]. sint (samples (i * n + c)))"

lemma channel_sum_bounds:
  "- int n * 32768 \<le> (\<Sum>c\<leftarrow>[0..<n]. sint (f c :: i16)) \<and> (\<Sum>c\<leftarrow>[0..<n]. sint (f c)) \<le> int n * 32767"
proof (induction n)
  case 0
  then show ?case by simp
next
  case (Suc n)
  then show ?case using sint16_bounds [of "f n"] by simp
qed

lemma sint32_of_int: "- (2 ^ 31) \<le> k \<Longrightarrow> k < 2 ^ 31 \<Longrightarrow> sint (word_of_int k :: i32) = k"
  by (simp add: signed_of_int signed_take_bit_int_eq_self)

lemma mixed_sum_foldl:
  "foldl (\<lambda>m c. m + scast (f c :: i16)) (0 :: i32) [0..<n] = word_of_int (\<Sum>c\<leftarrow>[0..<n]. sint (f c))"
proof (induction n)
  case 0
  then show ?case by simp
next
  case (Suc n)
  have "(scast (f n) :: i32) = word_of_int (sint (f n))" by simp
  then show ?case using Suc by (simp del: of_int_sint)
qed

lemma frame_index_no_wrap:
  assumes "i < n" "n * unat chans < 2 ^ 32" "c < unat chans" "n < 2 ^ 32"
  shows "unat ((of_nat i :: u32) * chans + of_nat c) = i * unat chans + c"
proof -
  have "i * unat chans + c < n * unat chans"
  proof -
    have "i * unat chans + c < (i + 1) * unat chans" using assms(3) by simp
    also have "\<dots> \<le> n * unat chans" using assms(1) by (intro mult_le_mono) auto
    finally show ?thesis .
  qed
  then have lt: "i * unat chans + c < 2 ^ LENGTH(32)" using assms(2) by simp
  have "(of_nat i :: u32) * chans + of_nat c = of_nat (i * unat chans + c)" by simp
  then show ?thesis using lt by (simp only: unat_of_nat mod_less)
qed

lemma cdiv_channel_sum_bounds:
  assumes "0 < n"
  shows "- 32768 \<le> cdiv (channel_sum n samples i) (int n) \<and> cdiv (channel_sum n samples i) (int n) \<le> 32767"
  using channel_sum_bounds [of n "\<lambda>c. samples (i * n + c)"] assms
  by (intro cdiv_bounds) (auto simp: channel_sum_def)

lemma downmix_eq:
  assumes m: "unat chans = m" "1 < m" "m \<le> 65535" and i: "i < n" "n * m < 2 ^ 32" "n < 2 ^ 32"
  shows "downmix chans samples (of_nat i) = word_of_int (cdiv (channel_sum m samples i) (int m))"
proof -
  have "mixed_sum chans samples (of_nat i) = foldl (\<lambda>k c. k + scast (samples (i * m + c))) 0 [0..<m]"
    unfolding mixed_sum_def m(1)
    by (rule foldl_cong) (use frame_index_no_wrap [of i n chans] m i in auto)
  then have ms: "mixed_sum chans samples (of_nat i) = word_of_int (channel_sum m samples i)"
    by (simp only: mixed_sum_foldl channel_sum_def)
  have "- int m * 32768 \<le> channel_sum m samples i" "channel_sum m samples i \<le> int m * 32767"
    using channel_sum_bounds [of m "\<lambda>c. samples (i * m + c)"] by (auto simp: channel_sum_def)
  then have sm: "sint (mixed_sum chans samples (of_nat i)) = channel_sum m samples i"
    unfolding ms using m(3) by (intro sint32_of_int) auto
  have "chans = word_of_int (int m)" unfolding m(1) [symmetric] by simp
  then have "sint chans = sint (word_of_int (int m) :: i32)" by simp
  also have "\<dots> = int m" using m(3) by (intro sint32_of_int) auto
  finally have sc: "sint chans = int m" .
  show ?thesis
    using cdiv_channel_sum_bounds [of m samples i] m(2) unfolding downmix_def sm sc by simp
qed

lemma channel_sum_const:
  "(\<And>c. c < n \<Longrightarrow> samples (i * n + c) = x) \<Longrightarrow> channel_sum n samples i = int n * sint x"
proof -
  have "(\<Sum>c\<leftarrow>[0..<m]. sint (f c)) = int m * sint x" if "\<forall>c < m. f c = x" for m and f :: "nat \<Rightarrow> i16"
    using that by (induction m) (auto simp: algebra_simps)
  then show "(\<And>c. c < n \<Longrightarrow> samples (i * n + c) = x) \<Longrightarrow> channel_sum n samples i = int n * sint x"
    by (simp add: channel_sum_def)
qed

section \<open>The callback is a queue insertion\<close>

lemma length_captured [simp]: "length (captured chans samples n) = unat n"
  by (simp add: captured_def)

lemma capture_put_frame [frame_simps]:
  "g_peers (fold capture_put xs s) = g_peers s" "g_mutex_initialized (fold capture_put xs s) = g_mutex_initialized s"
  "mutex_depth (fold capture_put xs s) = mutex_depth s" "ma_log (fold capture_put xs s) = ma_log s"
  "g_capture_read_idx (fold capture_put xs s) = g_capture_read_idx s"
  by (induction xs arbitrary: s) (simp_all add: capture_put_def)

lemma capture_put_depth:
  "capture_put x (s\<lparr>mutex_depth := d\<rparr>) = (capture_put x s)\<lparr>mutex_depth := d\<rparr>"
  by (simp add: capture_put_def)

lemma fold_capture_put_modes:
  "g_local_muted (fold capture_put xs s) = g_local_muted s" "g_capturing (fold capture_put xs s) = g_capturing s"
  by (induction xs arbitrary: s) (simp_all add: capture_put_def)

lemma leave_cs_capture_put:
  "leave_cs (fold capture_put xs (enter_cs s)) = fold capture_put xs s"
proof -
  have "fold capture_put xs (s\<lparr>mutex_depth := d\<rparr>) = (fold capture_put xs s)\<lparr>mutex_depth := d\<rparr>" for d
    by (induction xs arbitrary: s) (simp_all add: capture_put_depth)
  then show ?thesis
    by (cases "g_mutex_initialized s") (simp_all add: enter_cs_def leave_cs_def frame_simps)
qed

lemma capture_callback_eq:
  "ma_capture_callback dev (Some samples) n s =
     (if g_capturing s then fold capture_put (captured (case dev of Some c \<Rightarrow> if 0 < c then c else 1 | None \<Rightarrow> 1) samples n) s
      else s)"
  by (auto simp: ma_capture_callback_def Let_def leave_cs_capture_put captured_def)

lemma capture_callback_None [simp]: "ma_capture_callback dev None n s = s"
  by (simp add: ma_capture_callback_def)

lemma capture_callback_valid: "capture_valid s \<Longrightarrow> capture_valid (ma_capture_callback dev pInput n s)"
  by (cases pInput) (auto simp: capture_callback_eq intro: capture_queue.valid_fold)

lemma capture_callback_frame [frame_simps]:
  "g_peers (ma_capture_callback dev pInput n s) = g_peers s"
  "g_mutex_initialized (ma_capture_callback dev pInput n s) = g_mutex_initialized s"
  "ma_log (ma_capture_callback dev pInput n s) = ma_log s"
  by (cases pInput; simp add: capture_callback_eq frame_simps)+

lemma capture_callback_lock [lock_simps]:
  "mutex_depth (ma_capture_callback dev pInput n s) = mutex_depth s"
  by (cases pInput; simp add: capture_callback_eq frame_simps)

section \<open>What a call to capture_frame does\<close>

lemma take_capture:
  "\<exists>r. snd (take_samples capture_get n s) = s\<lparr>g_capture_read_idx := r\<rparr>"
proof (induction n arbitrary: s)
  case 0
  have "s = s\<lparr>g_capture_read_idx := g_capture_read_idx s\<rparr>" by simp
  then show ?case by (metis snd_conv take_samples.simps(1))
next
  case (Suc n)
  obtain r where r: "snd (take_samples capture_get n (snd (capture_get s)))
      = (snd (capture_get s))\<lparr>g_capture_read_idx := r\<rparr>" using Suc by blast
  have "snd (take_samples capture_get (Suc n) s) = snd (take_samples capture_get n (snd (capture_get s)))"
    by (simp add: split_beta)
  also have "\<dots> = s\<lparr>g_capture_read_idx := r\<rparr>" unfolding r by (simp add: capture_get_def)
  finally show ?case by blast
qed

lemma capture_get_depth:
  "capture_get (s\<lparr>mutex_depth := d\<rparr>) = map_prod id (\<lambda>t. t\<lparr>mutex_depth := d\<rparr>) (capture_get s)"
  by (simp add: capture_get_def)

lemma leave_cs_take_capture:
  "map_prod id leave_cs (take_samples capture_get n (enter_cs s)) = take_samples capture_get n s"
proof -
  have "take_samples capture_get n (s\<lparr>mutex_depth := d\<rparr>)
      = map_prod id (\<lambda>t. t\<lparr>mutex_depth := d\<rparr>) (take_samples capture_get n s)" for d
    by (induction n arbitrary: s) (simp_all add: capture_get_depth split_beta map_prod_def)
  moreover obtain r where "snd (take_samples capture_get n s) = s\<lparr>g_capture_read_idx := r\<rparr>"
    using take_capture by blast
  then have "mutex_depth (snd (take_samples capture_get n s)) = mutex_depth s"
    "g_mutex_initialized (snd (take_samples capture_get n s)) = g_mutex_initialized s" by simp_all
  ultimately show ?thesis
    by (cases "g_mutex_initialized s")
      (auto simp: enter_cs_def leave_cs_def map_prod_def split: prod.splits)
qed

text \<open>The silent answers.\<close>

lemma capture_frame_silent:
  assumes "1920 \<le> max_len" "(\<not> g_capturing s \<and> \<not> g_mic_test_loopback s) \<or> g_local_muted s"
  shows "voice_engine_capture_frame lg (Some buf) max_len lvl spk en s =
    Some (frame_out (replicate 960 0) (Fin (- 90)) False 0 buf lvl spk en,
          set_level_stats (Fin (- 90)) False s)"
  using assms by (auto simp: voice_engine_capture_frame_def SAMPLES_PER_FRAME_def)

definition capture_ready :: "u32 \<Rightarrow> 'i engine \<Rightarrow> bool" where
  "capture_ready max_len s \<longleftrightarrow>
     1920 \<le> max_len \<and> (g_capturing s \<or> g_mic_test_loopback s) \<and> \<not> g_local_muted s"

lemma available_960_iff: "960 \<le> ring_available r w \<longleftrightarrow> 960 \<le> length (ring_contents b r w)"
  by (simp add: word_le_nat_alt)

lemma capture_frame_underrun:
  assumes "capture_ready max_len s" "length (capture_pending s) < 960"
  shows "voice_engine_capture_frame lg (Some buf) max_len lvl spk en s =
    Some (frame_out (replicate 960 0) (Fin (- 90)) False 0 buf lvl spk en,
          count_sent (set_level_stats (Fin (- 90)) False (s\<lparr>g_hangover_ms_left := 0\<rparr>)))"
proof -
  have "\<not> 960 \<le> ring_available (g_capture_read_idx s) (g_capture_write_idx s)"
    using assms(2) by (simp add: word_le_nat_alt)
  moreover have "\<not> max_len < 1920" using assms(1) by (simp add: capture_ready_def not_less)
  ultimately show ?thesis
    using assms(1)
    by (auto simp: voice_engine_capture_frame_def capture_ready_def SAMPLES_PER_FRAME_def frame_simps Let_def)
qed

lemma capture_frame_process:
  assumes "capture_ready max_len s" "960 \<le> length (capture_pending s)"
  shows "voice_engine_capture_frame lg (Some buf) max_len lvl spk en s =
    (let (pcm, s') = take_samples capture_get 960 s in process_frame lg pcm buf lvl spk en s')"
proof -
  have "960 \<le> ring_available (g_capture_read_idx s) (g_capture_write_idx s)"
    using assms(2) by (simp add: word_le_nat_alt)
  moreover have "\<not> max_len < 1920" using assms(1) by (simp add: capture_ready_def not_less)
  ultimately show ?thesis
    using assms(1) leave_cs_take_capture [of 960 s, symmetric]
    by (auto simp: voice_engine_capture_frame_def capture_ready_def SAMPLES_PER_FRAME_def frame_simps
        Let_def map_prod_def split: prod.splits)
qed

lemma process_frame_eq:
  assumes "libm_log10 lg" "length pcm = 960"
    and "vad_step (g_vad_mode s) (g_vad_threshold s) (vad_hangover_ms (g_config s)) (g_ptt_pressed s)
           (frame_dbfs lg pcm) (g_hangover_ms_left s) = (speaking, left)"
  shows "\<exists>v. frame_dbfs lg pcm = Fin v \<and> - 90 \<le> v \<and> v \<le> 0 \<and>
    process_frame lg pcm buf lvl spk en s =
      Some (frame_out pcm (Fin v) speaking (word_of_int (energy_int v)) buf lvl spk en,
            loopback_frame pcm (count_sent (set_level_stats (Fin v) speaking (s\<lparr>g_hangover_ms_left := left\<rparr>))))"
proof -
  obtain v where v: "frame_dbfs lg pcm = Fin v" "- 90 \<le> v" "v \<le> 0"
    using libm_log10.level_range [OF assms(1,2)] by blast
  then have "energy_level (Fin v) = Some (word_of_int (energy_int v))"
    by (intro energy_level_Fin) simp
  then show ?thesis using v assms(3) by (simp add: process_frame_def Let_def)
qed

lemma loopback_frame_eq:
  "loopback_frame pcm s =
     (if g_mic_test_loopback s
      then s\<lparr>g_peers := (g_peers s)(0 := fold peer_put pcm
             ((g_peers s 0)\<lparr>user_id := 999999, is_active := True, user_volume := Fin 1\<rparr>))\<rparr>
      else s)"
  by (simp add: loopback_frame_def Let_def frame_simps enter_cs_def leave_cs_def)

lemma loopback_frame_simps [simp]:
  "g_stats (loopback_frame pcm s) = g_stats s"
  "g_hangover_ms_left (loopback_frame pcm s) = g_hangover_ms_left s"
  "g_capture_ring (loopback_frame pcm s) = g_capture_ring s"
  "g_capture_read_idx (loopback_frame pcm s) = g_capture_read_idx s"
  "g_capture_write_idx (loopback_frame pcm s) = g_capture_write_idx s"
  "mutex_depth (loopback_frame pcm s) = mutex_depth s"
  "g_mutex_initialized (loopback_frame pcm s) = g_mutex_initialized s"
  "ma_log (loopback_frame pcm s) = ma_log s"
  by (simp_all add: loopback_frame_eq)

lemma stats_updates_simps [simp]:
  "g_peers (count_sent (set_level_stats d k s)) = g_peers s"
  "g_mic_test_loopback (count_sent (set_level_stats d k s)) = g_mic_test_loopback s"
  "g_capture_ring (count_sent (set_level_stats d k s)) = g_capture_ring s"
  "g_capture_read_idx (count_sent (set_level_stats d k s)) = g_capture_read_idx s"
  "g_capture_write_idx (count_sent (set_level_stats d k s)) = g_capture_write_idx s"
  "g_hangover_ms_left (count_sent (set_level_stats d k s)) = g_hangover_ms_left s"
  "input_level_db (g_stats (count_sent (set_level_stats d k s))) = d"
  "stats_is_speaking (g_stats (count_sent (set_level_stats d k s))) = k"
  "packets_sent (g_stats (count_sent (set_level_stats d k s))) = packets_sent (g_stats s) + 1"
  "mutex_depth (count_sent (set_level_stats d k s)) = mutex_depth s"
  "g_mutex_initialized (count_sent (set_level_stats d k s)) = g_mutex_initialized s"
  "ma_log (count_sent (set_level_stats d k s)) = ma_log s"
  by (simp_all add: count_sent_def set_level_stats_def)

lemma set_level_stats_simps [simp]:
  "g_peers (set_level_stats d k s) = g_peers s"
  "g_capture_ring (set_level_stats d k s) = g_capture_ring s"
  "g_capture_read_idx (set_level_stats d k s) = g_capture_read_idx s"
  "g_capture_write_idx (set_level_stats d k s) = g_capture_write_idx s"
  "mutex_depth (set_level_stats d k s) = mutex_depth s"
  "g_mutex_initialized (set_level_stats d k s) = g_mutex_initialized s"
  "ma_log (set_level_stats d k s) = ma_log s"
  by (simp_all add: set_level_stats_def)

text \<open>The live case, in one statement the properties unfold.\<close>

lemma capture_frame_live_eq:
  assumes lg: "libm_log10 lg" and v: "capture_valid s" and rdy: "capture_ready max_len s"
    and full: "960 \<le> length (capture_pending s)"
    and vad: "vad_step (g_vad_mode s) (g_vad_threshold s) (vad_hangover_ms (g_config s)) (g_ptt_pressed s)
           (frame_dbfs lg (take 960 (capture_pending s))) (g_hangover_ms_left s) = (speaking, left)"
  shows "\<exists>d r. frame_dbfs lg (take 960 (capture_pending s)) = Fin d \<and> - 90 \<le> d \<and> d \<le> 0 \<and>
    ring_valid r (g_capture_write_idx s) \<and>
    ring_contents (g_capture_ring s) r (g_capture_write_idx s) = drop 960 (capture_pending s) \<and>
    voice_engine_capture_frame lg (Some buf) max_len lvl spk en s =
      Some (frame_out (take 960 (capture_pending s)) (Fin d) speaking (word_of_int (energy_int d)) buf lvl spk en,
            loopback_frame (take 960 (capture_pending s)) (count_sent (set_level_stats (Fin d) speaking
              (s\<lparr>g_capture_read_idx := r, g_hangover_ms_left := left\<rparr>))))"
proof -
  let ?pcm = "take 960 (capture_pending s)"
  obtain r where r: "snd (take_samples capture_get 960 s) = s\<lparr>g_capture_read_idx := r\<rparr>"
    using take_capture by blast
  note t = capture_queue.take_samples_contents [OF v full]
  have pcm: "take_samples capture_get 960 s = (?pcm, s\<lparr>g_capture_read_idx := r\<rparr>)"
    using t r by (metis prod.collapse)
  have "vad_step (g_vad_mode (s\<lparr>g_capture_read_idx := r\<rparr>)) (g_vad_threshold (s\<lparr>g_capture_read_idx := r\<rparr>))
      (vad_hangover_ms (g_config (s\<lparr>g_capture_read_idx := r\<rparr>))) (g_ptt_pressed (s\<lparr>g_capture_read_idx := r\<rparr>))
      (frame_dbfs lg ?pcm) (g_hangover_ms_left (s\<lparr>g_capture_read_idx := r\<rparr>)) = (speaking, left)"
    using vad by simp
  from process_frame_eq [OF lg _ this, of buf lvl spk en] full
  obtain d where d: "frame_dbfs lg ?pcm = Fin d" "- 90 \<le> d" "d \<le> 0"
      "process_frame lg ?pcm buf lvl spk en (s\<lparr>g_capture_read_idx := r\<rparr>) =
        Some (frame_out ?pcm (Fin d) speaking (word_of_int (energy_int d)) buf lvl spk en,
            loopback_frame ?pcm (count_sent (set_level_stats (Fin d) speaking
              (s\<lparr>g_capture_read_idx := r, g_hangover_ms_left := left\<rparr>))))" by auto
  have "voice_engine_capture_frame lg (Some buf) max_len lvl spk en s =
      process_frame lg ?pcm buf lvl spk en (s\<lparr>g_capture_read_idx := r\<rparr>)"
    unfolding capture_frame_process [OF rdy full] pcm by simp
  then show ?thesis using d t r by auto
qed

section \<open>What every call preserves\<close>

lemma take_capture_valid: "capture_valid s \<Longrightarrow> capture_valid (snd (take_samples capture_get n s))"
proof (induction n arbitrary: s)
  case 0
  then show ?case by simp
next
  case (Suc n)
  then show ?case using capture_queue.valid_get [of s] by (simp add: split_beta)
qed

text \<open>The shape of the state after a call, whatever the frame was.\<close>

lemma capture_frame_state:
  assumes "voice_engine_capture_frame lg ob max_len lvl spk en s = Some (out, s')" "capture_valid s"
  shows "\<exists>r d k h n pcm. ring_valid r (g_capture_write_idx s) \<and>
    s' \<in> {s, set_level_stats d k s,
           count_sent (set_level_stats d k (s\<lparr>g_hangover_ms_left := h\<rparr>)),
           loopback_frame pcm (count_sent (set_level_stats d k
             (s\<lparr>g_capture_read_idx := r, g_hangover_ms_left := h\<rparr>)))}"
proof (cases ob)
  case None
  then show ?thesis using assms by (auto simp: voice_engine_capture_frame_def)
next
  case (Some buf)
  consider "max_len < 1920" | "1920 \<le> max_len" "(\<not> g_capturing s \<and> \<not> g_mic_test_loopback s) \<or> g_local_muted s"
    | "capture_ready max_len s" "length (capture_pending s) < 960"
    | "capture_ready max_len s" "960 \<le> length (capture_pending s)"
    unfolding capture_ready_def by (meson not_le)
  then show ?thesis
  proof cases
    case 1
    then show ?thesis using assms Some by (auto simp: voice_engine_capture_frame_def SAMPLES_PER_FRAME_def)
  next
    case 2
    then show ?thesis using assms Some by (auto simp: capture_frame_silent)
  next
    case 3
    then show ?thesis using assms Some by (auto simp: capture_frame_underrun)
  next
    case 4
    obtain r where r: "snd (take_samples capture_get 960 s) = s\<lparr>g_capture_read_idx := r\<rparr>"
      using take_capture by blast
    then have "ring_valid r (g_capture_write_idx s)" using take_capture_valid [OF assms(2), of 960] by simp
    moreover obtain pcm where "take_samples capture_get 960 s = (pcm, s\<lparr>g_capture_read_idx := r\<rparr>)"
      using r by (metis prod.collapse)
    ultimately show ?thesis
      using assms(1) Some capture_frame_process [OF 4]
      by (force simp: process_frame_def Let_def split: option.splits prod.splits)
  qed
qed

lemma capture_frame_valid:
  assumes "voice_engine_capture_frame lg ob max_len lvl spk en s = Some (out, s')" "capture_valid s"
  shows "capture_valid s'"
  using capture_frame_state [OF assms] assms(2) by auto

lemma capture_frame_peers_wf:
  assumes "voice_engine_capture_frame lg ob max_len lvl spk en s = Some (out, s')" "capture_valid s"
    and "peers_wf (g_peers s)"
  shows "peers_wf (g_peers s')"
proof -
  have "peer_valid (g_peers s 0)" using assms(3) by (intro peers_wf_valid) simp_all
  then show ?thesis
    using capture_frame_state [OF assms(1,2)] assms(3)
    by (auto simp: loopback_frame_eq intro!: peers_wf_slot0 peer_ring.valid_fold)
qed

lemma capture_frame_keeps:
  assumes "voice_engine_capture_frame lg ob max_len lvl spk en s = Some (out, s')" "capture_valid s"
  shows "mutex_depth s' = mutex_depth s \<and> ma_log s' = ma_log s \<and> g_mutex_initialized s' = g_mutex_initialized s"
  using capture_frame_state [OF assms] by auto

lemma capture_frame_defined:
  assumes "libm_log10 lg" "capture_valid s"
  shows "voice_engine_capture_frame lg ob max_len lvl spk en s \<noteq> None"
proof (cases "ob = None \<or> max_len < 1920")
  case True
  then show ?thesis
    by (cases ob) (auto simp: voice_engine_capture_frame_def SAMPLES_PER_FRAME_def)
next
  case False
  then obtain buf where ob: "ob = Some buf" and len: "1920 \<le> max_len" by (auto simp: not_less)
  consider "(\<not> g_capturing s \<and> \<not> g_mic_test_loopback s) \<or> g_local_muted s"
    | "capture_ready max_len s" "length (capture_pending s) < 960"
    | "capture_ready max_len s" "960 \<le> length (capture_pending s)"
    unfolding capture_ready_def using len by (meson not_le)
  then show ?thesis
  proof cases
    case 3
    obtain speaking left where "vad_step (g_vad_mode s) (g_vad_threshold s) (vad_hangover_ms (g_config s))
      (g_ptt_pressed s) (frame_dbfs lg (take 960 (capture_pending s))) (g_hangover_ms_left s) = (speaking, left)"
      by fastforce
    from capture_frame_live_eq [OF assms 3 this, of buf lvl spk en] show ?thesis using ob by auto
  qed (simp_all add: ob len capture_frame_silent capture_frame_underrun)
qed

section \<open>Voice activity\<close>

text \<open>The speaking decisions of a run of frames with the given levels.\<close>

fun vad_run :: "f32 \<Rightarrow> u32 \<Rightarrow> f32 list \<Rightarrow> u32 \<Rightarrow> bool list" where
  "vad_run threshold hangover [] left = []"
| "vad_run threshold hangover (d # ds) left =
     (let (speaking, left') = vad_step True threshold hangover False d left
      in speaking # vad_run threshold hangover ds left')"

lemma vad_run_quiet:
  assumes "\<forall>d \<in> set ds. \<not> fp_le threshold d"
  shows "vad_run threshold hangover ds left = map (\<lambda>i. i < unat left div 20) [0..<length ds]"
  using assms
proof (induction ds arbitrary: left)
  case Nil
  then show ?case by simp
next
  case (Cons d ds)
  have split: "map f [0..<length (d # ds)] = f 0 # map (\<lambda>i. f (Suc i)) [0..<length ds]" for f :: "nat \<Rightarrow> bool"
    by (simp add: map_upt_Suc del: upt_Suc)
  show ?case
  proof (cases "20 \<le> left")
    case True
    then have le: "20 \<le> unat left" by (simp add: word_le_nat_alt)
    have "unat (left - 20) = unat left - 20" using True by (simp add: unat_sub)
    then have "vad_run threshold hangover (d # ds) left
        = True # map (\<lambda>i. i < (unat left - 20) div 20) [0..<length ds]"
      using Cons True by (simp add: vad_step_def)
    moreover obtain m where "unat left = 20 + m" using le by (metis le_add_diff_inverse)
    then have "unat left div 20 = Suc ((unat left - 20) div 20)" by simp
    ultimately show ?thesis unfolding split by simp
  next
    case False
    then have "unat left div 20 = 0" by (simp add: word_le_nat_alt)
    then show ?thesis using Cons False unfolding split by (simp add: vad_step_def)
  qed
qed

section \<open>Properties\<close>

text \<open>An engine that is capturing and holds the given samples, for the witnesses.\<close>

definition recorded :: "i16 list \<Rightarrow> nat engine" where
  "recorded xs = fold capture_put xs (static_init\<lparr>g_capturing := True\<rparr>)"

lemma recorded_simps [simp]:
  "g_capturing (recorded xs)" "\<not> g_local_muted (recorded xs)" "\<not> g_mic_test_loopback (recorded xs)"
  "g_mutex_initialized (recorded xs) = False"
proof -
  have "\<exists>b w. fold capture_put xs s = s\<lparr>g_capture_ring := b, g_capture_write_idx := w\<rparr>" for s :: "nat engine"
  proof (induction xs arbitrary: s)
    case Nil
    have "s = s\<lparr>g_capture_ring := g_capture_ring s, g_capture_write_idx := g_capture_write_idx s\<rparr>" by simp
    then show ?case by (metis fold_simps(1))
  next
    case (Cons x xs)
    obtain b w where "fold capture_put xs (capture_put x s)
        = (capture_put x s)\<lparr>g_capture_ring := b, g_capture_write_idx := w\<rparr>" using Cons by blast
    then have "fold capture_put (x # xs) s = (capture_put x s)\<lparr>g_capture_ring := b, g_capture_write_idx := w\<rparr>"
      by simp
    also have "\<dots> = s\<lparr>g_capture_ring := b, g_capture_write_idx := w\<rparr>" by (simp add: capture_put_def)
    finally show ?case by blast
  qed
  from this [of "static_init\<lparr>g_capturing := True\<rparr>"]
  show "g_capturing (recorded xs)" "\<not> g_local_muted (recorded xs)" "\<not> g_mic_test_loopback (recorded xs)"
    "g_mutex_initialized (recorded xs) = False"
    by (auto simp: recorded_def static_init_def)
qed

lemma recorded_pending:
  assumes "length xs \<le> 32767"
  shows "capture_valid (recorded xs)" "capture_pending (recorded xs) = xs"
proof -
  have v: "capture_valid (static_init\<lparr>g_capturing := True\<rparr> :: nat engine)"
    by (simp add: static_init_def)
  have e: "capture_pending (static_init\<lparr>g_capturing := True\<rparr> :: nat engine) = []"
    by (simp add: static_init_def ring_contents_empty_iff)
  show "capture_valid (recorded xs)" unfolding recorded_def by (rule capture_queue.valid_fold [OF v])
  show "capture_pending (recorded xs) = xs"
    unfolding recorded_def by (subst capture_queue.contents_fold [OF v]) (use assms e in auto)
qed

text \<open>The capture callback queues every frame of the device's buffer, in order, behind what
  is already waiting: the sample itself for a mono device, and for a device with up to 65535
  channels the average of the frame's channels truncated towards zero, with no wrap-around of the
  32-bit sum or index as long as the buffer has fewer than 2^32 samples.\<close>

theorem capture_callback_queues:
  assumes "capture_valid s" "g_capturing s" "unat chans \<le> 65535"
    and "unat n * unat chans < 2 ^ 32" "length (capture_pending s) + unat n \<le> 32767"
  shows "capture_pending (ma_capture_callback (Some chans) (Some samples) n s) = capture_pending s @
    map (\<lambda>i. if unat chans \<le> 1 then samples i
             else word_of_int (cdiv (channel_sum (unat chans) samples i) (int (unat chans)))) [0..<unat n]"
proof -
  have n: "unat n < 2 ^ 32" using unsigned_less [of n] by simp
  have le: "(if 0 < chans then chans else 1) \<le> 1 \<longleftrightarrow> unat chans \<le> 1"
    by (auto simp: word_le_nat_alt word_less_nat_alt)
  have "captured (if 0 < chans then chans else 1) samples n =
      map (\<lambda>i. if unat chans \<le> 1 then samples i
             else word_of_int (cdiv (channel_sum (unat chans) samples i) (int (unat chans)))) [0..<unat n]"
    unfolding captured_def le
    using assms(3,4) n downmix_eq [of chans "unat chans" _ "unat n" samples]
    by (intro map_cong) (auto simp: word_less_nat_alt)
  then show ?thesis
    using assms by (simp add: capture_callback_eq capture_queue.contents_fold)
qed

text \<open>C11: A live frame. With 960 samples waiting, capturing on and not muted, a call returns 1920
  bytes holding exactly the oldest 960 samples and takes exactly these from the queue; the level
  is a number in [-90, 0] dB, the energy is the quantised level and at most 15, the speaking flag
  is the decision of the voice-activity step, and the statistics agree with what was returned.\<close>

theorem capture_frame_live:
  assumes "libm_log10 lg" "capture_valid s" "capture_ready max_len s" "960 \<le> length (capture_pending s)"
  shows "\<exists>out s' d energy.
    voice_engine_capture_frame lg (Some buf) max_len (Some l) (Some k) (Some e) s = Some (out, s') \<and>
    co_ret out = 1920 \<and>
    co_buffer out = Some (bytes_of_samples (take 960 (capture_pending s)) @ drop 1920 buf) \<and>
    capture_pending s' = drop 960 (capture_pending s) \<and>
    co_level_db out = Some (Fin d) \<and> - 90 \<le> d \<and> d \<le> 0 \<and>
    co_energy_level out = Some energy \<and> uint energy = energy_int d \<and> energy \<le> 15 \<and>
    co_is_speaking out = Some (stats_is_speaking (g_stats s')) \<and>
    (stats_is_speaking (g_stats s'), g_hangover_ms_left s') =
      vad_step (g_vad_mode s) (g_vad_threshold s) (vad_hangover_ms (g_config s)) (g_ptt_pressed s)
        (Fin d) (g_hangover_ms_left s) \<and>
    input_level_db (g_stats s') = Fin d \<and> packets_sent (g_stats s') = packets_sent (g_stats s) + 1"
proof -
  obtain speaking left where vad: "vad_step (g_vad_mode s) (g_vad_threshold s) (vad_hangover_ms (g_config s))
      (g_ptt_pressed s) (frame_dbfs lg (take 960 (capture_pending s))) (g_hangover_ms_left s) = (speaking, left)"
    by fastforce
  obtain d r where live: "frame_dbfs lg (take 960 (capture_pending s)) = Fin d" "- 90 \<le> d" "d \<le> 0"
      "ring_contents (g_capture_ring s) r (g_capture_write_idx s) = drop 960 (capture_pending s)"
      "voice_engine_capture_frame lg (Some buf) max_len (Some l) (Some k) (Some e) s =
        Some (frame_out (take 960 (capture_pending s)) (Fin d) speaking (word_of_int (energy_int d)) buf (Some l) (Some k) (Some e),
            loopback_frame (take 960 (capture_pending s)) (count_sent (set_level_stats (Fin d) speaking
              (s\<lparr>g_capture_read_idx := r, g_hangover_ms_left := left\<rparr>))))"
    using capture_frame_live_eq [OF assms vad, of buf "Some l" "Some k" "Some e"] by blast
  have u: "uint (word_of_int (energy_int d) :: u8) = energy_int d"
    using energy_int_range [of d] by (simp add: unsigned_of_int take_bit_int_eq_self)
  then have "(word_of_int (energy_int d) :: u8) \<le> 15"
    using energy_int_range [of d] by (simp add: word_le_def)
  then show ?thesis
    using live(1-4) vad assms(4) u unfolding live(5)
    by (simp add: frame_out_def store_out_def write_bytes_def)
qed

lemma capture_frame_live_witness:
  "\<exists>out s' d energy.
    voice_engine_capture_frame log10_rounded (Some []) 1920 (Some NaN) (Some True) (Some 7)
      (recorded (replicate 960 5)) = Some (out, s') \<and>
    co_ret out = 1920 \<and> co_buffer out = Some (bytes_of_samples (replicate 960 5)) \<and>
    co_level_db out = Some (Fin d) \<and> co_energy_level out = Some energy \<and> energy \<le> 15 \<and>
    capture_pending s' = []"
  using capture_frame_live [OF log10_cr.libm_log10_axioms, of "recorded (replicate 960 5)" 1920 "[]" NaN True 7]
    recorded_pending [of "replicate 960 5"] by (fastforce simp: capture_ready_def)

lemma capture_callback_queues_witness:
  "capture_pending (ma_capture_callback (Some 2) (Some (\<lambda>i. if even i then 100 else - 3)) 2 (recorded [7]))
    = [7, 48, 48]"
proof -
  have s: "sint (100 :: i16) = 100" "sint (- 3 :: i16) = - 3" by simp_all
  have c: "channel_sum 2 (\<lambda>i. if even i then 100 else - 3) i = 97" for i
    by (simp add: channel_sum_def s upt_rec)
  show ?thesis
    using capture_callback_queues [of "recorded [7]" 2 2 "\<lambda>i. if even i then 100 else - 3"]
      recorded_pending [of "[7]"]
    by (simp add: c cdiv_def upt_rec)
qed

text \<open>C31: Hangover. In voice-activity mode a frame at or above the threshold is speech, and of the
  quiet frames after it exactly the first \<open>vad_hangover_ms div 20\<close> still count as speech, however
  many follow: the speaker is cut off after the configured time, not earlier and not later.\<close>

theorem vad_hangover:
  assumes "fp_le threshold loud" "\<forall>d \<in> set quiet. \<not> fp_le threshold d"
  shows "vad_run threshold hangover (loud # quiet) left
    = True # map (\<lambda>i. i < unat hangover div 20) [0..<length quiet]"
  using assms vad_run_quiet [OF assms(2), of hangover] by (simp add: vad_step_def)

lemma vad_hangover_witness:
  "vad_run (Fin (- 45)) 200 (Fin (- 20) # replicate 12 (Fin (- 70))) 0
    = True # map (\<lambda>i. i < 10) [0..<12]"
  using vad_hangover [of "Fin (- 45)" "Fin (- 20)" "replicate 12 (Fin (- 70))" 200 0] by simp

text \<open>C30: Every call to capture_frame is defined, whatever the state and the arguments: no cast of
  it overflows. It returns 0 or 1920; where it returns 1920 the first 1920 bytes of the caller's
  buffer are written, the rest of it is left alone, and the level written is in [-90, 0] dB; where
  it returns 0 (null buffer or one declared too small) nothing is written and no state changes.\<close>

theorem capture_frame_total:
  assumes "libm_log10 lg" "capture_valid s"
  shows "\<exists>out s'. voice_engine_capture_frame lg ob max_len lvl spk en s = Some (out, s') \<and>
    (if ob = None \<or> max_len < 1920
     then out = \<lparr>co_ret = 0, co_buffer = ob, co_level_db = lvl, co_is_speaking = spk, co_energy_level = en\<rparr> \<and> s' = s
     else co_ret out = 1920 \<and>
       (\<exists>pcm d. length pcm = 960 \<and> co_buffer out = Some (bytes_of_samples pcm @ drop 1920 (the ob)) \<and>
          co_level_db out = map_option (\<lambda>_. Fin d) lvl \<and> - 90 \<le> d \<and> d \<le> 0))"
proof (cases "ob = None \<or> max_len < 1920")
  case True
  then show ?thesis
    by (cases ob) (auto simp: voice_engine_capture_frame_def SAMPLES_PER_FRAME_def)
next
  case False
  then obtain buf where ob: "ob = Some buf" and len: "1920 \<le> max_len" by (auto simp: not_less)
  consider "(\<not> g_capturing s \<and> \<not> g_mic_test_loopback s) \<or> g_local_muted s"
    | "capture_ready max_len s" "length (capture_pending s) < 960"
    | "capture_ready max_len s" "960 \<le> length (capture_pending s)"
    unfolding capture_ready_def using len by (meson not_le)
  then show ?thesis
  proof cases
    case 3
    obtain speaking left where "vad_step (g_vad_mode s) (g_vad_threshold s) (vad_hangover_ms (g_config s))
      (g_ptt_pressed s) (frame_dbfs lg (take 960 (capture_pending s))) (g_hangover_ms_left s) = (speaking, left)"
      by fastforce
    from capture_frame_live_eq [OF assms 3 this, of buf lvl spk en] show ?thesis
      using False ob 3(2) by (force simp: frame_out_def store_out_def write_bytes_def)
  qed (use False ob len in \<open>force simp: capture_frame_silent capture_frame_underrun frame_out_def
        store_out_def write_bytes_def intro!: exI [of _ "replicate 960 0"] exI [of _ "- 90"]\<close>)+
qed

lemma capture_frame_total_witness:
  "\<exists>out s'. voice_engine_capture_frame log10_rounded None 4000 None None None (recorded []) = Some (out, s') \<and>
    co_ret out = 0 \<and> s' = recorded []"
  using capture_frame_total [OF log10_cr.libm_log10_axioms, of "recorded []" None 4000 None None None]
    recorded_pending [of "[]"] by auto

text \<open>Microphone test. With the loopback on, a live frame is also appended to the queue of peer
  slot 0, which becomes active at unit volume, provided that queue has room; no other peer stream
  changes.\<close>

theorem capture_frame_loopback:
  assumes "libm_log10 lg" "capture_valid s" "capture_ready max_len s" "960 \<le> length (capture_pending s)"
    and "g_mic_test_loopback s" "peers_wf (g_peers s)" "length (peer_pending (g_peers s 0)) + 960 \<le> 32767"
  shows "\<exists>out s'. voice_engine_capture_frame lg (Some buf) max_len lvl spk en s = Some (out, s') \<and>
    peer_pending (g_peers s' 0) = peer_pending (g_peers s 0) @ take 960 (capture_pending s) \<and>
    is_active (g_peers s' 0) \<and> user_volume (g_peers s' 0) = Fin 1 \<and>
    (\<forall>i. i \<noteq> 0 \<longrightarrow> g_peers s' i = g_peers s i)"
proof -
  let ?pcm = "take 960 (capture_pending s)"
  let ?p = "(g_peers s 0)\<lparr>user_id := 999999, is_active := True, user_volume := Fin 1\<rparr>"
  obtain speaking left where "vad_step (g_vad_mode s) (g_vad_threshold s) (vad_hangover_ms (g_config s))
      (g_ptt_pressed s) (frame_dbfs lg ?pcm) (g_hangover_ms_left s) = (speaking, left)"
    by fastforce
  from capture_frame_live_eq [OF assms(1-4) this, of buf lvl spk en]
  obtain out r d where c: "voice_engine_capture_frame lg (Some buf) max_len lvl spk en s =
      Some (out, loopback_frame ?pcm (count_sent (set_level_stats d speaking
              (s\<lparr>g_capture_read_idx := r, g_hangover_ms_left := left\<rparr>))))" by blast
  have v: "peer_valid ?p" using peers_wf_valid [OF assms(6), of 0] by simp
  have "peer_pending (fold peer_put ?pcm ?p) = peer_pending (g_peers s 0) @ ?pcm"
    by (subst peer_ring.contents_fold [OF v]) (use assms(7) in auto)
  then show ?thesis
    using assms(5) unfolding c by (simp add: loopback_frame_eq frame_simps count_sent_def set_level_stats_def)
qed

lemma capture_frame_loopback_witness:
  "\<exists>out s'. voice_engine_capture_frame log10_rounded (Some []) 1920 None None None
      ((recorded (replicate 960 9))\<lparr>g_mic_test_loopback := True, g_peers := (\<lambda>_. zero_peer)\<rparr>) = Some (out, s') \<and>
    peer_pending (g_peers s' 0) = replicate 960 9"
proof -
  let ?s = "(recorded (replicate 960 9))\<lparr>g_mic_test_loopback := True, g_peers := (\<lambda>_. zero_peer)\<rparr>"
  have z: "peer_pending zero_peer = []" by (simp add: zero_peer_def ring_contents_empty_iff)
  have "capture_ready 1920 ?s" by (simp add: capture_ready_def)
  from capture_frame_loopback [OF log10_cr.libm_log10_axioms _ this, of "[]" None None None]
  show ?thesis
    using recorded_pending [of "replicate 960 9"] peers_wf_zero z by fastforce
qed

end
