(* ===== verification/Mixer.thy ===== *)
theory Mixer
  imports Peers
begin

text \<open>
  \<open>mix_audio_streams\<close> and the playback callback. The mixer works in chunks of at most 960
  samples: it adds, per peer, one pending sample times the peer's volume to a \<open>float\<close>
  accumulator, and turns the sum into an \<open>int16_t\<close> through a cubic limiter. The result is
  \<open>None\<close> where the final cast would be undefined (a NaN, or a value outside \<open>int16_t\<close>).
\<close>

section \<open>Model\<close>

definition i16_to_f32 :: "i16 \<Rightarrow> f32" where
  "i16_to_f32 x = f32 (of_int (sint x))"

fun mix_peer_loop :: "f32 \<Rightarrow> PeerStream \<Rightarrow> f32 list \<Rightarrow> f32 list \<times> PeerStream" where
  "mix_peer_loop gain p [] = ([], p)"
| "mix_peer_loop gain p (a # acc) =
     (if read_idx p \<noteq> write_idx p then
        let (pcm, p1) = peer_get p;
            (rest, p2) = mix_peer_loop gain p1 acc
        in (fp_add f32 a (fp_mul f32 (i16_to_f32 pcm) gain) # rest, p2)
      else let (rest, p2) = mix_peer_loop gain p acc in (a # rest, p2))"

definition mix_peer ::
    "bool \<Rightarrow> nat \<Rightarrow> f32 list \<times> (nat \<Rightarrow> PeerStream) \<Rightarrow> f32 list \<times> (nat \<Rightarrow> PeerStream)" where
  "mix_peer loopback i st =
     (let (acc, ps) = st in
        if \<not> is_active (ps i) then st
        else if i = 0 \<and> \<not> loopback then st
        else let (acc', p') = mix_peer_loop (user_volume (ps i)) (ps i) acc in (acc', ps(i := p')))"

definition mix_chunk ::
    "bool \<Rightarrow> nat \<Rightarrow> (nat \<Rightarrow> PeerStream) \<Rightarrow> f32 list \<times> (nat \<Rightarrow> PeerStream)" where
  "mix_chunk loopback chunk ps = fold (mix_peer loopback) [0..<MAX_PEERS] (replicate chunk (Fin 0), ps)"

definition limiter_gain :: f32 where
  "limiter_gain = fp_divc f32 (Fin 4) 27"

definition soft_limit :: "f32 \<Rightarrow> f32" where
  "soft_limit x =
     (if fp_le (Fin (3 / 2)) x then Fin 1
      else if fp_le x (Fin (- 3 / 2)) then Fin (- 1)
      else fp_sub f32 x (fp_mul f32 limiter_gain (fp_mul f32 (fp_mul f32 x x) x)))"

definition limit_sample :: "f32 \<Rightarrow> i16 option" where
  "limit_sample acc =
     map_option word_of_int
       (fp_to_int (- 32768) 32767 (fp_mul f32 (soft_limit (fp_divc f32 acc 32768)) (Fin 32767)))"

fun limit_samples :: "f32 list \<Rightarrow> i16 list option" where
  "limit_samples [] = Some []"
| "limit_samples (a # acc) =
     (case limit_sample a of None \<Rightarrow> None
      | Some y \<Rightarrow> (case limit_samples acc of None \<Rightarrow> None | Some ys \<Rightarrow> Some (y # ys)))"

definition chunk_size :: "u32 \<Rightarrow> u32" where
  "chunk_size remaining = (if SAMPLES_PER_FRAME < remaining then SAMPLES_PER_FRAME else remaining)"

lemma chunk_size_bounds: "0 < r \<Longrightarrow> 0 < chunk_size r \<and> chunk_size r \<le> r"
  by (auto simp: chunk_size_def SAMPLES_PER_FRAME_def)

lemma chunk_decreases: "0 < r \<Longrightarrow> unat (r - chunk_size r) < unat r"
  using chunk_size_bounds [of r] by (auto simp: unat_sub word_less_nat_alt word_le_nat_alt)

function mix_loop ::
    "bool \<Rightarrow> u32 \<Rightarrow> (nat \<Rightarrow> PeerStream) \<Rightarrow> (i16 list \<times> (nat \<Rightarrow> PeerStream)) option" where
  "mix_loop loopback remaining ps =
     (if remaining = 0 then Some ([], ps)
      else
        let chunk = chunk_size remaining;
            (acc, ps1) = mix_chunk loopback (unat chunk) ps
        in case limit_samples acc of
             None \<Rightarrow> None
           | Some out \<Rightarrow>
               (case mix_loop loopback (remaining - chunk) ps1 of
                  None \<Rightarrow> None
                | Some (out', ps2) \<Rightarrow> Some (out @ out', ps2)))"
  by pat_completeness auto
termination
  by (relation "measure (\<lambda>(lb, r, ps). unat r)") (auto simp: word_neq_0_conv chunk_decreases)

declare mix_loop.simps [simp del]

text \<open>\<open>output_buffer\<close> non-null is a boolean; the result lists the samples written from its start.\<close>

definition mix_audio_streams :: "bool \<Rightarrow> u32 \<Rightarrow> 'i engine \<Rightarrow> (i16 list \<times> 'i engine) option" where
  "mix_audio_streams out frame_samples s =
     (if \<not> out \<or> frame_samples = 0 \<or> g_local_deafened s
      then Some (if out then replicate (unat frame_samples) 0 else [], s)
      else map_option (\<lambda>(ys, ps). (ys, s\<lparr>g_peers := ps\<rparr>))
             (mix_loop (g_mic_test_loopback s) frame_samples (g_peers s)))"

text \<open>One mono sample copied to every channel of a frame of the device's buffer, at the index the
  code computes in 32 bits.\<close>

definition dup_frame :: "u32 \<Rightarrow> u32 \<Rightarrow> i16 \<Rightarrow> (nat \<Rightarrow> i16) \<Rightarrow> (nat \<Rightarrow> i16)" where
  "dup_frame chans frame sample out =
     fold (\<lambda>c o'. o'(unat (frame * chans + of_nat c) := sample)) [0..<unat chans] out"

fun dup_frames :: "u32 \<Rightarrow> u32 \<Rightarrow> i16 list \<Rightarrow> (nat \<Rightarrow> i16) \<Rightarrow> (nat \<Rightarrow> i16)" where
  "dup_frames chans frame [] out = out"
| "dup_frames chans frame (x # xs) out = dup_frames chans (frame + 1) xs (dup_frame chans frame x out)"

function playback_loop ::
    "u32 \<Rightarrow> u32 \<Rightarrow> u32 \<Rightarrow> (nat \<Rightarrow> i16) \<Rightarrow> 'i engine \<Rightarrow> ((nat \<Rightarrow> i16) \<times> 'i engine) option" where
  "playback_loop chans remaining offset out s =
     (if remaining = 0 then Some (out, s)
      else
        let chunk = chunk_size remaining in
        case mix_audio_streams True chunk s of
          None \<Rightarrow> None
        | Some (ms, s1) \<Rightarrow>
            playback_loop chans (remaining - chunk) (offset + chunk) (dup_frames chans offset ms out) s1)"
  by pat_completeness auto
termination
  by (relation "measure (\<lambda>(c, r, off, out, s). unat r)") (auto simp: word_neq_0_conv chunk_decreases)

declare playback_loop.simps [simp del]

definition store_from :: "i16 list \<Rightarrow> (nat \<Rightarrow> i16) \<Rightarrow> (nat \<Rightarrow> i16)" where
  "store_from xs out = (\<lambda>j. if j < length xs then xs ! j else out j)"

text \<open>\<open>pDevice\<close> null is \<open>None\<close>; otherwise its \<open>playback.channels\<close>. \<open>pOutput\<close> null is \<open>None\<close>.\<close>

definition callback_channels :: "u32 option \<Rightarrow> u32" where
  "callback_channels dev = (case dev of Some c \<Rightarrow> if 0 < c then c else 1 | None \<Rightarrow> 1)"

definition ma_playback_callback ::
    "u32 option \<Rightarrow> (nat \<Rightarrow> i16) option \<Rightarrow> u32 \<Rightarrow> 'i engine \<Rightarrow> ((nat \<Rightarrow> i16) option \<times> 'i engine) option" where
  "ma_playback_callback dev pOutput frameCount s =
     (case pOutput of
        None \<Rightarrow> Some (None, s)
      | Some out \<Rightarrow>
          if frameCount = 0 then Some (Some out, s)
          else
            let chans = callback_channels dev in
            if \<not> g_playing s \<or> g_local_deafened s
            then Some (Some (store_from (replicate (unat (frameCount * chans)) 0) out), s)
            else
              let s1 = enter_cs s in
              if chans \<le> 1
              then map_option (\<lambda>(ys, s2). (Some (store_from ys out), leave_cs s2))
                     (mix_audio_streams True frameCount s1)
              else map_option (\<lambda>(o', s2). (Some o', leave_cs s2))
                     (playback_loop chans frameCount 0 out s1))"

section \<open>Reference: the mix of the pending samples, one sample at a time\<close>

definition audible :: "bool \<Rightarrow> (nat \<Rightarrow> PeerStream) \<Rightarrow> nat \<Rightarrow> bool" where
  "audible loopback ps i \<longleftrightarrow> is_active (ps i) \<and> (i = 0 \<longrightarrow> loopback)"

definition contribute :: "f32 \<Rightarrow> i16 list \<Rightarrow> nat \<Rightarrow> f32 \<Rightarrow> f32" where
  "contribute gain pending t a =
     (if t < length pending then fp_add f32 a (fp_mul f32 (i16_to_f32 (pending ! t)) gain) else a)"

definition mix_value :: "bool \<Rightarrow> (nat \<Rightarrow> PeerStream) \<Rightarrow> nat \<Rightarrow> f32" where
  "mix_value loopback ps t =
     foldl (\<lambda>a i. if audible loopback ps i
                   then contribute (user_volume (ps i)) (peer_pending (ps i)) t a else a)
       (Fin 0) [0..<MAX_PEERS]"

section \<open>One peer's contribution\<close>

fun skip_samples :: "nat \<Rightarrow> PeerStream \<Rightarrow> PeerStream" where
  "skip_samples 0 p = p"
| "skip_samples (Suc n) p =
     skip_samples n (if read_idx p \<noteq> write_idx p then snd (peer_get p) else p)"

lemma peer_get_pending:
  "peer_valid p \<Longrightarrow> read_idx p \<noteq> write_idx p \<Longrightarrow>
     peer_pending p = fst (peer_get p) # peer_pending (snd (peer_get p))"
  using ring_contents_get [of "read_idx p" "write_idx p" "buffer p"] by (simp add: peer_get_def)

lemma peer_get_frame [frame_simps]:
  "user_id (snd (peer_get p)) = user_id p" "is_active (snd (peer_get p)) = is_active p"
  "is_speaking (snd (peer_get p)) = is_speaking p" "user_volume (snd (peer_get p)) = user_volume p"
  by (simp_all add: peer_get_def)

lemma skip_samples_frame [frame_simps]:
  "user_id (skip_samples n p) = user_id p" "is_active (skip_samples n p) = is_active p"
  "is_speaking (skip_samples n p) = is_speaking p" "user_volume (skip_samples n p) = user_volume p"
  by (induction n p rule: skip_samples.induct) (simp_all add: frame_simps)

lemma skip_samples_pending:
  "peer_valid p \<Longrightarrow> peer_valid (skip_samples n p) \<and> peer_pending (skip_samples n p) = drop n (peer_pending p)"
proof (induction n p rule: skip_samples.induct)
  case (1 p)
  then show ?case by simp
next
  case (2 n p)
  show ?case
  proof (cases "read_idx p = write_idx p")
    case True
    then have "peer_pending p = []" using 2 by (simp add: ring_contents_empty_iff)
    then show ?thesis using 2 True by simp
  next
    case False
    then show ?thesis
      using 2 peer_get_pending [of p] peer_ring.valid_get [of p] by simp
  qed
qed

lemma skip_samples_add: "skip_samples (m + n) p = skip_samples n (skip_samples m p)"
  by (induction m p rule: skip_samples.induct) simp_all

lemma mix_peer_loop_eq:
  "peer_valid p \<Longrightarrow> mix_peer_loop gain p acc =
     (map (\<lambda>t. contribute gain (peer_pending p) t (acc ! t)) [0..<length acc],
      skip_samples (length acc) p)"
proof (induction gain p acc rule: mix_peer_loop.induct)
  case (1 gain p)
  then show ?case by simp
next
  case (2 gain p a acc)
  show ?case
  proof (cases "read_idx p = write_idx p")
    case True
    then have "peer_pending p = []" using "2.prems" by (simp add: ring_contents_empty_iff)
    then show ?thesis
      using 2 True by (simp add: contribute_def map_upt_Suc del: upt_Suc)
  next
    case False
    have pend: "peer_pending p = fst (peer_get p) # peer_pending (snd (peer_get p))"
      using peer_get_pending "2.prems" False by blast
    have v: "peer_valid (snd (peer_get p))"
      using peer_ring.valid_get "2.prems" by blast
    have "mix_peer_loop gain (snd (peer_get p)) acc =
       (map (\<lambda>t. contribute gain (peer_pending (snd (peer_get p))) t (acc ! t)) [0..<length acc],
        skip_samples (length acc) (snd (peer_get p)))"
      by (rule "2.IH"(1) [OF False refl prod.collapse v])
    then show ?thesis
      using False
      by (simp add: pend contribute_def map_upt_Suc Let_def split_beta del: upt_Suc)
  qed
qed

section \<open>One chunk\<close>

definition advance ::
    "bool \<Rightarrow> nat \<Rightarrow> (nat \<Rightarrow> PeerStream) \<Rightarrow> (nat \<Rightarrow> PeerStream)" where
  "advance loopback n ps =
     (\<lambda>i. if i < MAX_PEERS \<and> audible loopback ps i then skip_samples n (ps i) else ps i)"

lemma mix_peer_eq:
  assumes "peer_valid (ps i)"
  shows "mix_peer loopback i (acc, ps) =
    (if audible loopback ps i
     then (map (\<lambda>t. contribute (user_volume (ps i)) (peer_pending (ps i)) t (acc ! t)) [0..<length acc],
           ps(i := skip_samples (length acc) (ps i)))
     else (acc, ps))"
  using assms by (simp add: mix_peer_def audible_def mix_peer_loop_eq)

lemma mix_peers_fold:
  assumes "distinct is" "\<And>i. i \<in> set is \<Longrightarrow> peer_valid (ps i)"
  shows "fold (mix_peer loopback) is (acc, ps) =
    (map (\<lambda>t. foldl (\<lambda>a i. if audible loopback ps i
               then contribute (user_volume (ps i)) (peer_pending (ps i)) t a else a) (acc ! t) is)
       [0..<length acc],
     \<lambda>i. if i \<in> set is \<and> audible loopback ps i then skip_samples (length acc) (ps i) else ps i)"
  using assms
proof (induction "is" arbitrary: acc ps)
  case Nil
  then show ?case by (simp add: map_nth)
next
  case (Cons j js)
  let ?ps1 = "ps(j := skip_samples (length acc) (ps j))"
  have same: "foldl (\<lambda>a i. if audible loopback ?ps1 i
        then contribute (user_volume (?ps1 i)) (peer_pending (?ps1 i)) t a else a) x js
      = foldl (\<lambda>a i. if audible loopback ps i
        then contribute (user_volume (ps i)) (peer_pending (ps i)) t a else a) x js" for x t
    using Cons.prems(1) by (intro foldl_cong) (auto simp: audible_def)
  show ?case
  proof (cases "audible loopback ps j")
    case True
    let ?acc1 = "map (\<lambda>t. contribute (user_volume (ps j)) (peer_pending (ps j)) t (acc ! t)) [0..<length acc]"
    have "fold (mix_peer loopback) (j # js) (acc, ps) = fold (mix_peer loopback) js (?acc1, ?ps1)"
      using Cons.prems True by (simp add: mix_peer_eq)
    also have "\<dots> = (map (\<lambda>t. foldl (\<lambda>a i. if audible loopback ?ps1 i
               then contribute (user_volume (?ps1 i)) (peer_pending (?ps1 i)) t a else a) (?acc1 ! t) js)
         [0..<length ?acc1],
       \<lambda>i. if i \<in> set js \<and> audible loopback ?ps1 i then skip_samples (length ?acc1) (?ps1 i) else ?ps1 i)"
      by (rule Cons.IH) (use Cons.prems in auto)
    finally show ?thesis
      using True Cons.prems(1) unfolding same
      by (auto simp: audible_def fun_eq_iff intro!: map_cong)
  next
    case False
    then show ?thesis
      using Cons.prems Cons.IH [of ps acc] by (auto simp: mix_peer_eq fun_eq_iff)
  qed
qed

lemma mix_chunk_eq:
  assumes "peers_wf ps"
  shows "mix_chunk loopback n ps = (map (mix_value loopback ps) [0..<n], advance loopback n ps)"
proof -
  have "fold (mix_peer loopback) [0..<MAX_PEERS] (replicate n (Fin 0), ps) =
    (map (\<lambda>t. foldl (\<lambda>a i. if audible loopback ps i
               then contribute (user_volume (ps i)) (peer_pending (ps i)) t a else a)
               (replicate n (Fin 0) ! t) [0..<MAX_PEERS]) [0..<length (replicate n (Fin 0))],
     \<lambda>i. if i \<in> set [0..<MAX_PEERS] \<and> audible loopback ps i
          then skip_samples (length (replicate n (Fin 0))) (ps i) else ps i)"
    by (rule mix_peers_fold) (auto simp: MAX_PEERS_def peers_wf_valid [OF assms])
  then show ?thesis
    by (auto simp: mix_chunk_def mix_value_def advance_def intro!: map_cong)
qed

section \<open>Chunks do not matter\<close>

lemma audible_advance [simp]: "audible lb (advance lb' n ps) i = audible lb ps i"
  by (simp add: audible_def advance_def frame_simps)

lemma advance_peers_wf: "peers_wf ps \<Longrightarrow> peers_wf (advance lb n ps)"
  using skip_samples_pending by (auto simp: peers_wf_def advance_def frame_simps)

lemma advance_add: "advance lb (m + n) ps = advance lb n (advance lb m ps)"
  by (auto simp: advance_def [of lb "m + n"] advance_def [of lb n] fun_eq_iff skip_samples_add)
    (simp_all add: advance_def)

lemma contribute_drop: "contribute g (drop m xs) t a = contribute g xs (m + t) a"
  by (auto simp: contribute_def less_diff_conv add.commute)

lemma mix_value_advance:
  assumes "peers_wf ps"
  shows "mix_value lb (advance lb m ps) t = mix_value lb ps (m + t)"
proof -
  have "contribute (user_volume (advance lb m ps i)) (peer_pending (advance lb m ps i)) t a
      = contribute (user_volume (ps i)) (peer_pending (ps i)) (m + t) a"
    if "i < 32" "audible lb ps i" for i a
    using that skip_samples_pending [OF peers_wf_valid [OF assms that(1)], of m]
    by (simp add: advance_def MAX_PEERS_def contribute_drop frame_simps)
  then show ?thesis
    unfolding mix_value_def by (intro foldl_cong) (auto simp: MAX_PEERS_def)
qed

lemma limit_samples_append:
  "limit_samples (xs @ ys) =
     (case limit_samples xs of None \<Rightarrow> None
      | Some a \<Rightarrow> (case limit_samples ys of None \<Rightarrow> None | Some b \<Rightarrow> Some (a @ b)))"
  by (induction xs) (auto split: option.splits)

lemma length_limit_samples: "limit_samples xs = Some ys \<Longrightarrow> length ys = length xs"
  by (induction xs arbitrary: ys) (auto split: option.splits)

lemma limit_mix_split:
  assumes "peers_wf ps"
  shows "limit_samples (map (mix_value lb ps) [0..<a + b]) =
    (case limit_samples (map (mix_value lb ps) [0..<a]) of None \<Rightarrow> None
     | Some x \<Rightarrow> (case limit_samples (map (mix_value lb (advance lb a ps)) [0..<b]) of
                   None \<Rightarrow> None | Some y \<Rightarrow> Some (x @ y)))"
proof -
  have "mix_value lb (advance lb a ps) = (\<lambda>t. mix_value lb ps (a + t))"
    by (simp add: fun_eq_iff mix_value_advance [OF assms])
  then have "map (mix_value lb ps) [0..<a + b]
      = map (mix_value lb ps) [0..<a] @ map (mix_value lb (advance lb a ps)) [0..<b]"
    unfolding upt_add_eq by (simp add: comp_def)
  then show ?thesis by (simp only: limit_samples_append)
qed

lemma mix_loop_eq:
  "peers_wf ps \<Longrightarrow> mix_loop lb n ps =
     map_option (\<lambda>ys. (ys, advance lb (unat n) ps))
       (limit_samples (map (mix_value lb ps) [0..<unat n]))"
proof (induction lb n ps rule: mix_loop.induct)
  case (1 lb n ps)
  show ?case
  proof (cases "n = 0")
    case True
    then show ?thesis by (simp add: mix_loop.simps advance_def fun_eq_iff)
  next
    case False
    let ?c = "unat (chunk_size n)" and ?ps1 = "advance lb (unat (chunk_size n)) ps"
    have le: "chunk_size n \<le> n" using False chunk_size_bounds [of n] by (simp add: word_neq_0_conv)
    then have n: "unat n = ?c + unat (n - chunk_size n)"
      by (simp add: unat_sub word_le_nat_alt)
    note split = limit_mix_split [OF "1.prems", of lb ?c "unat (n - chunk_size n)", folded n]
    have adv: "advance lb (unat n) ps = advance lb (unat (n - chunk_size n)) ?ps1"
      unfolding n advance_add ..
    show ?thesis
      using False "1.IH" [OF False refl mix_chunk_eq [OF "1.prems", symmetric]]
        advance_peers_wf [OF "1.prems"]
      by (auto simp: mix_loop.simps [of lb n ps] Let_def mix_chunk_eq [OF "1.prems"]
          split adv split: option.splits)
  qed
qed

end
