(* ===== verification/Limiter.thy ===== *)
theory Limiter
  imports Mixer
begin

text \<open>
  The cubic soft limiter of \<open>mix_audio_streams\<close> under binary32 rounding: it is odd, never
  amplifies, stays within one (up to rounding), follows the exact curve to a unit of the 16-bit
  sample, and the sample it yields always fits \<open>int16_t\<close> and never reaches the most negative value.
\<close>

section \<open>The polynomial on \<open>[0, 3/2)\<close>\<close>

definition limiter_c :: rat where "limiter_c = 9942054 / 67108864"

lemma limiter_gain_eq: "limiter_gain = Fin limiter_c"
proof -
  have "rnd32 (4 / 27) = of_int 9942054 / 2 ^ 26"
    by (rule rnd_eqI) simp_all
  then show ?thesis
    by (simp add: limiter_gain_def limiter_c_def f32_Fin)
qed

definition soft_poly :: "rat \<Rightarrow> rat" where
  "soft_poly x = rnd32 (x - rnd32 (limiter_c * rnd32 (rnd32 (x * x) * x)))"

lemma soft_poly_uminus: "soft_poly (- x) = - soft_poly x"
proof -
  have "rnd32 (rnd32 (- x * - x) * - x) = - rnd32 (rnd32 (x * x) * x)"
    by (simp flip: rnd_uminus)
  then have "soft_poly (- x) = rnd32 (- (x - rnd32 (limiter_c * rnd32 (rnd32 (x * x) * x))))"
    by (simp add: soft_poly_def rnd_uminus)
  also have "\<dots> = - soft_poly x" unfolding soft_poly_def by (rule rnd_uminus)
  finally show ?thesis .
qed

lemma repr_small: "\<bar>m\<bar> \<le> 2 ^ 24 \<Longrightarrow> repr 24 149 (of_int m / 2 ^ 3)"
  by (rule reprI [where m = m and j = 3]) simp_all

text \<open>The numbers the polynomial branch is taken on, up to sign.\<close>

definition poly_input :: "rat \<Rightarrow> bool" where
  "poly_input x \<longleftrightarrow> 0 \<le> x \<and> x < 3 / 2 \<and> repr 24 149 x"

lemma poly_inputD: "poly_input x \<Longrightarrow> 0 \<le> x" "poly_input x \<Longrightarrow> x < 3 / 2"
  "poly_input x \<Longrightarrow> repr 24 149 x"
  by (simp_all add: poly_input_def)

lemma square_bounds:
  assumes "poly_input x"
  shows "0 \<le> rnd32 (x * x)" "rnd32 (x * x) \<le> 9 / 4"
proof -
  note x0 = poly_inputD(1) [OF assms] and x1 = poly_inputD(2) [OF assms] and rx = poly_inputD(3) [OF assms]
  show "0 \<le> rnd32 (x * x)" using x0 by (simp add: rnd_nonneg)
  have "x * x \<le> 3 / 2 * (3 / 2)" using x0 x1 by (intro mult_mono) auto
  then show "rnd32 (x * x) \<le> 9 / 4"
    using repr_small [of 18] by (intro rnd_le_repr) simp_all
qed

lemma cube_bounds:
  assumes "poly_input x"
  shows "0 \<le> rnd32 (rnd32 (x * x) * x)" "rnd32 (rnd32 (x * x) * x) \<le> 27 / 8"
  "rnd32 (rnd32 (x * x) * x) \<le> 4 * x"
proof -
  note x0 = poly_inputD(1) [OF assms] and x1 = poly_inputD(2) [OF assms] and rx = poly_inputD(3) [OF assms]
  show "0 \<le> rnd32 (rnd32 (x * x) * x)" using x0 square_bounds [OF assms] by (simp add: rnd_nonneg)
  have "rnd32 (x * x) * x \<le> 9 / 4 * (3 / 2)" using x0 x1 square_bounds [OF assms] by (intro mult_mono) auto
  then show "rnd32 (rnd32 (x * x) * x) \<le> 27 / 8"
    using repr_small [of 27] by (intro rnd_le_repr) simp_all
  have "rnd32 (x * x) * x \<le> 4 * x" using x0 square_bounds [OF assms] by (intro mult_right_mono) auto
  then show "rnd32 (rnd32 (x * x) * x) \<le> 4 * x"
    using repr_mult_pow2 [OF rx, of 2] by (intro rnd_le_repr) (simp_all add: mult.commute)
qed

lemma correction_bounds:
  assumes "poly_input x"
  shows "0 \<le> rnd32 (limiter_c * rnd32 (rnd32 (x * x) * x))"
  "rnd32 (limiter_c * rnd32 (rnd32 (x * x) * x)) \<le> x"
proof -
  note x0 = poly_inputD(1) [OF assms] and x1 = poly_inputD(2) [OF assms] and rx = poly_inputD(3) [OF assms]
  show "0 \<le> rnd32 (limiter_c * rnd32 (rnd32 (x * x) * x))"
    using cube_bounds [OF assms] by (simp add: rnd_nonneg limiter_c_def)
  have "limiter_c * rnd32 (rnd32 (x * x) * x) \<le> x"
    using cube_bounds [OF assms] x0 by (simp add: limiter_c_def)
  then show "rnd32 (limiter_c * rnd32 (rnd32 (x * x) * x)) \<le> x"
    using rx by (intro rnd_le_repr) simp_all
qed

text \<open>Each rounding loses at most \<open>2^-22\<close>, so the correction is within \<open>2^-20\<close> of
  \<open>4/27 x^3\<close>, and \<open>x - 4/27 x^3 <= 1\<close> on the whole interval.\<close>

lemma rnd32_error_le: "0 \<le> y \<Longrightarrow> y \<le> 27 / 8 \<Longrightarrow> y - 1 / 2 ^ 22 \<le> rnd32 y"
proof -
  assume y: "0 \<le> y" "y \<le> 27 / 8"
  have "\<bar>rnd32 y - y\<bar> \<le> \<bar>y\<bar> / 2 ^ 24 + 1 / 2 ^ (149 + 1)" by (rule rnd_error) simp
  moreover have "\<bar>y\<bar> / 2 ^ 24 \<le> 27 / 8 / 2 ^ 24" using y by (intro divide_right_mono) auto
  moreover have "(27 / 8 / 2 ^ 24 + 1 / 2 ^ (149 + 1) :: rat) \<le> 1 / 2 ^ 22" by simp
  ultimately show ?thesis by linarith
qed

lemma rnd32_error_ge: "0 \<le> y \<Longrightarrow> y \<le> 27 / 8 \<Longrightarrow> rnd32 y \<le> y + 1 / 2 ^ 22"
proof -
  assume y: "0 \<le> y" "y \<le> 27 / 8"
  have "\<bar>rnd32 y - y\<bar> \<le> \<bar>y\<bar> / 2 ^ 24 + 1 / 2 ^ (149 + 1)" by (rule rnd_error) simp
  moreover have "\<bar>y\<bar> / 2 ^ 24 \<le> 27 / 8 / 2 ^ 24" using y by (intro divide_right_mono) auto
  moreover have "(27 / 8 / 2 ^ 24 + 1 / 2 ^ (149 + 1) :: rat) \<le> 1 / 2 ^ 22" by simp
  ultimately show ?thesis by linarith
qed

lemma cubic_le_1:
  assumes "poly_input x"
  shows "x - 4 / 27 * (x * x * x) \<le> 1"
proof -
  note x0 = poly_inputD(1) [OF assms] and x1 = poly_inputD(2) [OF assms] and rx = poly_inputD(3) [OF assms]
  have "0 \<le> 4 / 27 * ((x - 3 / 2) * (x - 3 / 2)) * (x + 3)" using x0 by simp
  also have "\<dots> = 1 - (x - 4 / 27 * (x * x * x))" by (simp add: field_simps)
  finally show ?thesis by simp
qed

lemma correction_lower:
  assumes "poly_input x"
  shows "4 / 27 * (x * x * x) - 1 / 2 ^ 20 \<le> rnd32 (limiter_c * rnd32 (rnd32 (x * x) * x))"
proof -
  note x0 = poly_inputD(1) [OF assms] and x1 = poly_inputD(2) [OF assms] and rx = poly_inputD(3) [OF assms]
  let ?t1 = "rnd32 (x * x)" and ?t2 = "rnd32 (rnd32 (x * x) * x)"
  have xx: "x * x \<le> 9 / 4" using x0 x1 mult_mono [of x "3/2" x "3/2"] by simp
  have "x * x - 1 / 2 ^ 22 \<le> ?t1" using xx x0 by (intro rnd32_error_le) auto
  then have "(x * x - 1 / 2 ^ 22) * x \<le> ?t1 * x" using x0 by (rule mult_right_mono)
  then have a: "x * x * x - 3 / 2 / 2 ^ 22 \<le> ?t1 * x" using x1 by (simp add: algebra_simps)
  have "?t1 * x \<le> 9 / 4 * (3 / 2)" using x0 x1 square_bounds [OF assms] by (intro mult_mono) auto
  then have "?t1 * x - 1 / 2 ^ 22 \<le> ?t2" using x0 square_bounds [OF assms] by (intro rnd32_error_le) auto
  then have b: "x * x * x - 5 / 2 / 2 ^ 22 \<le> ?t2" using a by simp
  have "4 / 27 * ?t2 \<le> limiter_c * ?t2"
    using cube_bounds [OF assms] by (intro mult_right_mono) (simp_all add: limiter_c_def)
  moreover have "limiter_c * ?t2 - 1 / 2 ^ 22 \<le> rnd32 (limiter_c * ?t2)"
    using cube_bounds [OF assms] by (intro rnd32_error_le) (simp_all add: limiter_c_def)
  ultimately show ?thesis using b by simp
qed

lemma correction_upper:
  assumes "poly_input x"
  shows "rnd32 (limiter_c * rnd32 (rnd32 (x * x) * x)) \<le> 4 / 27 * (x * x * x) + 1 / 2 ^ 20"
proof -
  note x0 = poly_inputD(1) [OF assms] and x1 = poly_inputD(2) [OF assms]
  let ?t1 = "rnd32 (x * x)" and ?t2 = "rnd32 (rnd32 (x * x) * x)"
  have xx: "x * x \<le> 9 / 4" using x0 x1 mult_mono [of x "3/2" x "3/2"] by simp
  have "?t1 \<le> x * x + 1 / 2 ^ 22" using xx x0 by (intro rnd32_error_ge) auto
  then have "?t1 * x \<le> (x * x + 1 / 2 ^ 22) * x" using x0 by (rule mult_right_mono)
  then have a: "?t1 * x \<le> x * x * x + 3 / 2 / 2 ^ 22" using x1 by (simp add: algebra_simps)
  have "?t1 * x \<le> 9 / 4 * (3 / 2)" using x0 x1 square_bounds [OF assms] by (intro mult_mono) auto
  then have "?t2 \<le> ?t1 * x + 1 / 2 ^ 22" using x0 square_bounds [OF assms] by (intro rnd32_error_ge) auto
  then have b: "?t2 \<le> x * x * x + 5 / 2 / 2 ^ 22" using a by simp
  have "limiter_c * ?t2 \<le> (4 / 27 + 1 / 2 ^ 26) * ?t2"
    using cube_bounds [OF assms] by (intro mult_right_mono) (simp_all add: limiter_c_def)
  then have c: "limiter_c * ?t2 \<le> 4 / 27 * ?t2 + 27 / 8 / 2 ^ 26"
    using cube_bounds [OF assms] by (simp add: algebra_simps)
  have "rnd32 (limiter_c * ?t2) \<le> limiter_c * ?t2 + 1 / 2 ^ 22"
    using cube_bounds [OF assms] by (intro rnd32_error_ge) (simp_all add: limiter_c_def)
  then show ?thesis using b c by simp
qed

text \<open>The rounded polynomial against the exact one.\<close>

lemma soft_poly_error:
  assumes "poly_input x"
  shows "\<bar>soft_poly x - (x - 4 / 27 * (x * x * x))\<bar> \<le> 1 / 2 ^ 19"
proof -
  let ?u = "x - rnd32 (limiter_c * rnd32 (rnd32 (x * x) * x))"
  have u: "0 \<le> ?u" "?u \<le> 27 / 8"
    using correction_bounds [OF assms] poly_inputD(2) [OF assms] by simp_all
  show ?thesis
    using rnd32_error_le [OF u] rnd32_error_ge [OF u] correction_lower [OF assms] correction_upper [OF assms]
    unfolding soft_poly_def abs_diff_le_iff by (simp add: algebra_simps)
qed

lemma soft_poly_bounds:
  assumes "poly_input x"
  shows "0 \<le> soft_poly x" "soft_poly x \<le> x" "soft_poly x \<le> 1 + 1 / 2 ^ 20"
proof -
  note x0 = poly_inputD(1) [OF assms] and x1 = poly_inputD(2) [OF assms] and rx = poly_inputD(3) [OF assms]
  show "0 \<le> soft_poly x" unfolding soft_poly_def
    using correction_bounds [OF assms] by (intro rnd_nonneg) auto
  show "soft_poly x \<le> x" unfolding soft_poly_def
    using correction_bounds [OF assms] rx by (intro rnd_le_repr) auto
  have "repr 24 149 (1 + 1 / 2 ^ 20)"
    by (rule reprI [where m = "2 ^ 20 + 1" and j = 20]) simp_all
  then show "soft_poly x \<le> 1 + 1 / 2 ^ 20" unfolding soft_poly_def
    using correction_lower [OF assms] cubic_le_1 [OF assms] by (intro rnd_le_repr) auto
qed

section \<open>The limiter on finite values\<close>

lemma f32_Fin_small: "\<bar>x\<bar> \<le> 1000 \<Longrightarrow> f32 x = Fin (rnd32 x)"
  by (rule f32_Fin) simp

lemma repr_abs [simp]: "repr p s \<bar>x\<bar> = repr p s x"
  by (simp add: abs_if)

lemma soft_limit_mid:
  assumes "\<bar>x\<bar> < 3 / 2" "repr 24 149 x"
  shows "soft_limit (Fin x) = Fin (soft_poly x)"
proof -
  have sq: "0 \<le> rnd32 (\<bar>x\<bar> * \<bar>x\<bar>)" "rnd32 (\<bar>x\<bar> * \<bar>x\<bar>) \<le> 9 / 4"
    using square_bounds [of "\<bar>x\<bar>"] assms by (auto simp: poly_input_def)
  have cu: "\<bar>rnd32 (rnd32 (x * x) * x)\<bar> \<le> 27 / 8"
  proof (cases "0 \<le> x")
    case True
    then show ?thesis using cube_bounds [of x] assms by (auto simp: poly_input_def)
  next
    case False
    then have "rnd32 (rnd32 (x * x) * x) = - rnd32 (rnd32 ((- x) * (- x)) * (- x))"
      by (simp flip: rnd_uminus)
    then show ?thesis using cube_bounds [of "- x"] assms False by (auto simp: poly_input_def)
  qed
  have a: "\<bar>x * x\<bar> \<le> 1000" using assms(1) mult_mono [of "\<bar>x\<bar>" "3/2" "\<bar>x\<bar>" "3/2"] by (simp add: abs_mult)
  have b: "\<bar>rnd32 (x * x) * x\<bar> \<le> 1000"
    using sq assms(1) mult_mono [of "rnd32 (x * x)" "9/4" "\<bar>x\<bar>" "3/2"] by (simp add: abs_mult)
  have c: "\<bar>limiter_c * rnd32 (rnd32 (x * x) * x)\<bar> \<le> 1"
    using cu by (simp add: limiter_c_def abs_mult)
  then have d: "\<bar>rnd32 (limiter_c * rnd32 (rnd32 (x * x) * x))\<bar> \<le> 1"
    using rnd_le_repr [of 24 "limiter_c * rnd32 (rnd32 (x * x) * x)" 1 149]
      repr_le_rnd [of 24 "- 1" "limiter_c * rnd32 (rnd32 (x * x) * x)" 149] repr_small [of 8]
    by (simp add: abs_le_iff)
  have e: "\<bar>x - rnd32 (limiter_c * rnd32 (rnd32 (x * x) * x))\<bar> \<le> 1000"
    using d assms(1) by linarith
  have "\<not> 3 / 2 \<le> x" "\<not> x \<le> - 3 / 2" using assms(1) by (auto simp: abs_less_iff)
  moreover have "fp_mul f32 (fp_mul f32 (Fin x) (Fin x)) (Fin x) = Fin (rnd32 (rnd32 (x * x) * x))"
    using a b by (simp only: fp_mul.simps f32_Fin_small)
  moreover have "fp_mul f32 limiter_gain (Fin (rnd32 (rnd32 (x * x) * x)))
      = Fin (rnd32 (limiter_c * rnd32 (rnd32 (x * x) * x)))"
    using c by (simp only: limiter_gain_eq fp_mul.simps) (rule f32_Fin_small, linarith)
  ultimately show ?thesis
    using e by (simp only: soft_limit_def fp_sub_def fp_le.simps fp_neg.simps fp_add.simps if_False
      add_uminus_conv_diff f32_Fin_small soft_poly_def)
qed

lemma soft_limit_Fin_cases:
  assumes "repr 24 149 x"
  shows "soft_limit (Fin x) = Fin (if 3 / 2 \<le> x then 1 else if x \<le> - 3 / 2 then - 1 else soft_poly x)"
  using assms soft_limit_mid [of x] by (auto simp: soft_limit_def abs_less_iff)

definition limited :: "rat \<Rightarrow> rat" where
  "limited x = (if 3 / 2 \<le> x then 1 else if x \<le> - 3 / 2 then - 1 else soft_poly x)"

lemma limited_uminus: "limited (- x) = - limited x"
  by (auto simp: limited_def soft_poly_uminus)

lemma limited_nonneg_bounds:
  assumes "0 \<le> x" "repr 24 149 x"
  shows "0 \<le> limited x \<and> limited x \<le> x \<and> limited x \<le> 1 + 1 / 2 ^ 20"
  using assms soft_poly_bounds [of x] by (auto simp: limited_def poly_input_def)

lemma limited_bound:
  assumes "repr 24 149 x"
  shows "\<bar>limited x\<bar> \<le> 1 + 1 / 2 ^ 20"
proof (cases "0 \<le> x")
  case True
  then show ?thesis using limited_nonneg_bounds [of x] assms by simp
next
  case False
  then show ?thesis using limited_nonneg_bounds [of "- x"] assms by (simp add: limited_uminus)
qed

section \<open>The sample written to the device\<close>

definition limited_int :: "rat \<Rightarrow> int" where
  "limited_int acc = trunc (rnd32 (limited (rnd32 (acc / 32768)) * 32767))"

lemma limited_int_uminus: "limited_int (- acc) = - limited_int acc"
proof -
  have "rnd32 (- acc / 32768) = - rnd32 (acc / 32768)"
    unfolding minus_divide_left [symmetric] by (rule rnd_uminus)
  then have "limited (rnd32 (- acc / 32768)) * 32767 = - (limited (rnd32 (acc / 32768)) * 32767)"
    by (simp only: limited_uminus minus_mult_left)
  then show ?thesis by (simp only: limited_int_def rnd_uminus trunc_uminus)
qed

lemma limited_int_bound: "\<bar>limited_int acc\<bar> \<le> 32767"
proof -
  let ?y = "limited (rnd32 (acc / 32768))"
  have "\<bar>?y\<bar> \<le> 1 + 1 / 2 ^ 20" by (rule limited_bound) simp
  then have y: "?y * 32767 \<le> 65535 / 2" "- (65535 / 2) \<le> ?y * 32767"
    unfolding abs_le_iff by simp_all
  have r: "repr 24 149 (65535 / 2)" using reprI [of 65535 24 1 149] by simp
  have "rnd32 (?y * 32767) \<le> 65535 / 2" by (rule rnd_le_repr [OF _ y(1) r]) simp
  moreover have "- (65535 / 2) \<le> rnd32 (?y * 32767)"
    by (rule repr_le_rnd [OF _ y(2)]) (use r repr_uminus [of 24 149 "65535 / 2"] in simp_all)
  ultimately have "\<bar>rnd32 (?y * 32767)\<bar> < of_int 32768" by (simp add: abs_less_iff)
  from trunc_bound [OF this] show ?thesis by (simp add: limited_int_def)
qed

lemma limit_sample_Fin:
  assumes "\<bar>acc\<bar> \<le> 2 ^ 128"
  shows "limit_sample (Fin acc) = Some (word_of_int (limited_int acc))"
proof -
  let ?y = "limited (rnd32 (acc / 32768))"
  have "\<bar>acc / 32768\<bar> \<le> 2 ^ 127" using assms by simp
  then have "fp_divc f32 (Fin acc) 32768 = Fin (rnd32 (acc / 32768))" by (simp add: f32_Fin)
  moreover have "soft_limit (Fin (rnd32 (acc / 32768))) = Fin ?y"
    by (simp add: soft_limit_Fin_cases limited_def)
  moreover have "\<bar>?y * 32767\<bar> \<le> 2 ^ 127"
    using limited_bound [of "rnd32 (acc / 32768)"] by (simp add: abs_mult)
  ultimately show ?thesis
    using limited_int_bound [of acc]
    by (simp add: limit_sample_def f32_Fin limited_int_def abs_le_iff)
qed

lemma limit_sample_range:
  assumes "\<And>r. a = Fin r \<Longrightarrow> \<bar>r\<bar> \<le> 2 ^ 128" "a \<noteq> NaN"
  shows "\<exists>y. limit_sample a = Some y \<and> \<bar>sint y\<bar> \<le> 32767"
proof -
  have one: "f32 32767 = Fin 32767" using f32_of_int [of 32767] by simp
  have mone: "f32 (- 32767) = Fin (- 32767)" using f32_of_int [of "- 32767"] by simp
  show ?thesis
  proof (cases a)
    case (Fin r)
    then have "limit_sample a = Some (word_of_int (limited_int r))"
      using limit_sample_Fin [of r] assms by simp
    then show ?thesis
      using limited_int_bound [of r] by (simp add: sint16_of_int abs_le_iff)
  next
    case PInf
    then show ?thesis using sint16_of_int [of 32767] trunc_of_int [of 32767]
      by (simp add: limit_sample_def soft_limit_def one)
  next
    case NInf
    then show ?thesis using sint16_of_int [of "- 32767"] trunc_of_int [of "- 32767"]
      by (simp add: limit_sample_def soft_limit_def mone)
  next
    case NaN
    then show ?thesis using assms by simp
  qed
qed

lemma limit_sample_NaN: "limit_sample NaN = None"
  by (simp add: limit_sample_def soft_limit_def fp_sub_def)

section \<open>Accuracy\<close>

text \<open>The curve the limiter draws, in exact arithmetic: the cubic between \<open>-3/2\<close> and \<open>3/2\<close>, full scale
  of the same sign beyond. It is odd, rises, and never rises faster than its argument.\<close>

definition limiter_curve :: "rat \<Rightarrow> rat" where
  "limiter_curve x = (if 3 / 2 \<le> x then 1 else if x \<le> - 3 / 2 then - 1 else x - 4 / 27 * (x * x * x))"

lemma limiter_curve_uminus: "limiter_curve (- x) = - limiter_curve x"
  by (auto simp: limiter_curve_def)

lemma limiter_curve_min: "0 \<le> x \<Longrightarrow> limiter_curve x = min x (3 / 2) - 4 / 27 * (min x (3 / 2) * min x (3 / 2) * min x (3 / 2))"
  by (cases "x < 3 / 2") (simp_all add: limiter_curve_def)

lemma cubic_rise:
  assumes "0 \<le> a" "a \<le> b" "b \<le> (3 / 2 :: rat)"
  shows "a - 4 / 27 * (a * a * a) \<le> b - 4 / 27 * (b * b * b)" "b - 4 / 27 * (b * b * b) \<le> a - 4 / 27 * (a * a * a) + (b - a)"
proof -
  have sq: "a * a \<le> 9 / 4" "a * b \<le> 9 / 4" "b * b \<le> 9 / 4" "0 \<le> a * a" "0 \<le> a * b" "0 \<le> b * b"
    using assms mult_mono [of a "3 / 2" a "3 / 2"] mult_mono [of a "3 / 2" b "3 / 2"] mult_mono [of b "3 / 2" b "3 / 2"] by simp_all
  have eq: "b - 4 / 27 * (b * b * b) - (a - 4 / 27 * (a * a * a)) = (b - a) * (1 - 4 / 27 * (a * a + a * b + b * b))"
    by (simp add: field_simps)
  have "0 \<le> (b - a) * (1 - 4 / 27 * (a * a + a * b + b * b))" using assms(2) sq by (intro mult_nonneg_nonneg) simp_all
  moreover have "(b - a) * (1 - 4 / 27 * (a * a + a * b + b * b)) \<le> (b - a) * 1"
    using assms(2) sq by (intro mult_left_mono) simp_all
  ultimately show "a - 4 / 27 * (a * a * a) \<le> b - 4 / 27 * (b * b * b)"
      "b - 4 / 27 * (b * b * b) \<le> a - 4 / 27 * (a * a * a) + (b - a)"
    using eq by simp_all
qed

lemma limiter_curve_rise:
  assumes "0 \<le> a" "a \<le> b"
  shows "limiter_curve a \<le> limiter_curve b" "limiter_curve b \<le> limiter_curve a + (b - a)"
proof -
  have b: "0 \<le> b" using assms by simp
  have m: "0 \<le> min a (3 / 2)" "min a (3 / 2) \<le> min b (3 / 2)" "min b (3 / 2) \<le> 3 / 2" using assms by (simp_all add: min_def)
  have d: "min b (3 / 2) - min a (3 / 2) \<le> b - a" using assms(2) by (simp add: min_def)
  show "limiter_curve a \<le> limiter_curve b"
    unfolding limiter_curve_min [OF assms(1)] limiter_curve_min [OF b] by (rule cubic_rise(1) [OF m])
  show "limiter_curve b \<le> limiter_curve a + (b - a)"
    unfolding limiter_curve_min [OF assms(1)] limiter_curve_min [OF b] using cubic_rise(2) [OF m] d by linarith
qed

lemma limiter_curve_close: "0 \<le> a \<Longrightarrow> 0 \<le> b \<Longrightarrow> \<bar>limiter_curve a - limiter_curve b\<bar> \<le> \<bar>a - b\<bar>"
  using limiter_curve_rise [of a b] limiter_curve_rise [of b a] by (cases "a \<le> b") simp_all

lemma limited_error:
  assumes "0 \<le> x" "repr 24 149 x"
  shows "\<bar>limited x - limiter_curve x\<bar> \<le> 1 / 2 ^ 19"
proof (cases "x < 3 / 2")
  case True
  then show ?thesis using soft_poly_error [of x] assms by (simp add: limited_def limiter_curve_def poly_input_def)
next
  case False
  then show ?thesis by (simp add: limited_def limiter_curve_def)
qed

text \<open>Rounding the argument moves the curve as little, and not at all where it is flat.\<close>

lemma limiter_curve_rounded:
  assumes "0 \<le> x"
  shows "\<bar>limiter_curve (rnd32 x) - limiter_curve x\<bar> \<le> 1 / 2 ^ 22"
proof (cases "x \<le> 27 / 8")
  case True
  then show ?thesis
    using limiter_curve_close [OF rnd_nonneg [OF _ assms] assms, of 24 149] rnd32_error_le [OF assms True] rnd32_error_ge [OF assms True]
    by linarith
next
  case False
  then have "3 / 2 \<le> rnd32 x" using repr_small [of 12] by (intro repr_le_rnd) simp_all
  then show ?thesis using False by (simp add: limiter_curve_def)
qed

lemma trunc_near: "0 \<le> z \<Longrightarrow> of_int (trunc z) \<le> z \<and> z < of_int (trunc z) + 1"
  by (simp add: trunc_def) linarith

lemma scaled_close: "\<bar>y - c\<bar> \<le> e \<Longrightarrow> \<bar>y * 32767 - 32767 * c\<bar> \<le> 32767 * (e :: rat)"
  by (simp add: abs_le_iff)

lemma errors_add:
  fixes t z a b :: rat
  assumes "t \<le> z" "z < t + 1" "\<bar>z - a\<bar> \<le> 1 / 2 ^ 8" "\<bar>a - b\<bar> \<le> 32767 * (1 / 2 ^ 19 + 1 / 2 ^ 22)"
  shows "\<bar>t - b\<bar> \<le> 9 / 8"
proof -
  have "32767 * (1 / 2 ^ 19 + 1 / 2 ^ 22) \<le> (1 / 8 - 1 / 2 ^ 8 :: rat)" by simp
  then show ?thesis using assms by linarith
qed

lemma limited_int_accurate:
  assumes "0 \<le> acc"
  shows "\<bar>of_int (limited_int acc) - 32767 * limiter_curve (acc / 32768)\<bar> \<le> 9 / 8" "0 \<le> limited_int acc"
proof -
  let ?x = "acc / 32768"
  let ?y = "limited (rnd32 ?x)"
  let ?z = "rnd32 (?y * 32767)"
  have x: "0 \<le> ?x" "0 \<le> rnd32 ?x" using assms rnd_nonneg [of 24 ?x 149] by simp_all
  have y: "0 \<le> ?y" "?y \<le> 1 + 1 / 2 ^ 20" using limited_nonneg_bounds [OF x(2)] by simp_all
  have "\<bar>?y - limiter_curve ?x\<bar> \<le> 1 / 2 ^ 19 + 1 / 2 ^ 22"
    using limited_error [OF x(2) repr_rnd] limiter_curve_rounded [OF x(1)] by linarith
  note curve = scaled_close [OF this]
  have "\<bar>?z - ?y * 32767\<bar> \<le> \<bar>?y * 32767\<bar> / 2 ^ 24 + 1 / 2 ^ (149 + 1)" by (rule rnd_error) simp
  then have z: "\<bar>?z - ?y * 32767\<bar> \<le> 1 / 2 ^ 8" using y by (simp add: abs_mult)
  have z0: "0 \<le> ?z" using y(1) by (intro rnd_nonneg) simp_all
  show "\<bar>of_int (limited_int acc) - 32767 * limiter_curve ?x\<bar> \<le> 9 / 8"
    unfolding limited_int_def using trunc_near [OF z0] z curve by (intro errors_add) auto
  show "0 \<le> limited_int acc" using trunc_mono [OF z0] trunc_of_int [of 0] by (simp add: limited_int_def)
qed

lemma limited_int_full:
  assumes "49152 \<le> acc"
  shows "limited_int acc = 32767"
proof -
  have "3 / 2 \<le> rnd32 (acc / 32768)" using assms repr_small [of 12] by (intro repr_le_rnd) simp_all
  moreover have "rnd32 32767 = 32767" using rnd_of_int_exact [of 24 32767 149] by simp
  ultimately show ?thesis using trunc_of_int [of 32767] by (simp add: limited_int_def limited_def)
qed

lemma limited_int_gentle:
  assumes "0 \<le> acc"
  shows "of_int (limited_int acc) \<le> acc"
proof -
  let ?x = "rnd32 (acc / 32768)"
  let ?z = "rnd32 (limited ?x * 32767)"
  have x: "0 \<le> ?x" using assms by (intro rnd_nonneg) simp_all
  have y: "0 \<le> limited ?x" "limited ?x \<le> ?x" using limited_nonneg_bounds [OF x] by simp_all
  have z0: "0 \<le> ?z" using y(1) by (intro rnd_nonneg) simp_all
  have z: "of_int (limited_int acc) \<le> ?z" using trunc_near [OF z0] by (simp add: limited_int_def)
  show ?thesis
  proof (cases "acc \<le> 1 / 2")
    case True
    have "?x \<le> 1 / 2 ^ 16" using True reprI [of 1 24 16 149 "1 / 2 ^ 16"] by (intro rnd_le_repr) simp_all
    then have "?z \<le> 1 / 2" using y(2) reprI [of 1 24 1 149 "1 / 2"] by (intro rnd_le_repr) simp_all
    then have "trunc ?z \<le> 0" using trunc_near [OF z0] by simp
    then have "rat_of_int (limited_int acc) \<le> 0" by (simp add: limited_int_def)
    then show ?thesis using assms by linarith
  next
    case False
    have "\<bar>?x - acc / 32768\<bar> \<le> \<bar>acc / 32768\<bar> / 2 ^ 24 + 1 / 2 ^ (149 + 1)" by (rule rnd_error) simp
    then have "?x \<le> acc / 32768 + acc / 32768 / 2 ^ 24 + 1 / 2 ^ 150" using assms by simp
    moreover have "\<bar>?z - limited ?x * 32767\<bar> \<le> \<bar>limited ?x * 32767\<bar> / 2 ^ 24 + 1 / 2 ^ (149 + 1)" by (rule rnd_error) simp
    then have "?z \<le> limited ?x * 32767 + limited ?x * 32767 / 2 ^ 24 + 1 / 2 ^ 150" using y(1) by simp
    ultimately show ?thesis using False z y(2) by simp
  qed
qed

lemma limited_int_follows:
  "\<bar>of_int (limited_int acc) - 32767 * limiter_curve (acc / 32768)\<bar> \<le> 9 / 8 \<and>
   (49152 \<le> acc \<longrightarrow> limited_int acc = 32767) \<and> (acc \<le> - 49152 \<longrightarrow> limited_int acc = - 32767) \<and>
   \<bar>of_int (limited_int acc)\<bar> \<le> \<bar>acc\<bar> \<and> (0 \<le> acc \<longrightarrow> 0 \<le> limited_int acc) \<and> (acc \<le> 0 \<longrightarrow> limited_int acc \<le> 0)"
proof (cases "0 \<le> acc")
  case True
  then show ?thesis
    using limited_int_accurate [OF True] limited_int_gentle [OF True] limited_int_full [of acc] limited_int_uminus [of 0]
    by (cases "acc = 0") auto
next
  case False
  then have neg: "0 \<le> - acc" by simp
  have "limited_int acc = - limited_int (- acc)" "limiter_curve (acc / 32768) = - limiter_curve (- acc / 32768)"
    using limited_int_uminus [of acc] limiter_curve_uminus [of "acc / 32768"] by simp_all
  then show ?thesis
    using limited_int_accurate [OF neg] limited_int_gentle [OF neg] limited_int_full [of "- acc"] False
    by (auto simp: abs_minus_commute)
qed

end
