(* ===== verification/Playback.thy ===== *)
theory Playback
  imports Limiter
begin

text \<open>
  When a mix is defined and what it is: the mixer and the playback callback against the
  sample-by-sample reference \<open>mix_value\<close>, for any number of frames and channels.
\<close>

section \<open>Sums of bounded contributions stay finite\<close>

definition gain_ok :: "f32 \<Rightarrow> bool" where
  "gain_ok g \<longleftrightarrow> (case g of Fin v \<Rightarrow> \<bar>v\<bar> \<le> 2 ^ 100 | _ \<Rightarrow> False)"

definition gains_ok :: "bool \<Rightarrow> (nat \<Rightarrow> PeerStream) \<Rightarrow> bool" where
  "gains_ok lb ps \<longleftrightarrow> (\<forall>i < 32. audible lb ps i \<longrightarrow> gain_ok (user_volume (ps i)))"

lemma i16_to_f32_Fin: "sint x = k \<Longrightarrow> i16_to_f32 x = Fin (of_int k)"
  unfolding i16_to_f32_def using sint16_bounds [of x] f32_of_int [of k] by (simp add: abs_le_iff)

lemma advance_0 [simp]: "advance lb 0 ps = ps"
  by (auto simp: advance_def)

lemma repr_sum_bound: "k \<le> 2 ^ 24 \<Longrightarrow> repr 24 149 (of_nat k * 2 ^ 115)"
  unfolding repr_def
  by (rule exI [of _ "int k"], rule exI [of _ "264"]) simp

lemma abs_rnd_le: "0 < p \<Longrightarrow> \<bar>x\<bar> \<le> y \<Longrightarrow> repr p s y \<Longrightarrow> \<bar>rnd p s x\<bar> \<le> y"
  using rnd_le_repr [of p x y s] repr_le_rnd [of p "- y" x s] by (simp add: abs_le_iff)

lemma contribute_bound:
  assumes "gain_ok g" "\<bar>r\<bar> \<le> of_nat k * 2 ^ 115" "k < 64"
  shows "\<exists>r'. contribute g xs t (Fin r) = Fin r' \<and> \<bar>r'\<bar> \<le> of_nat (Suc k) * 2 ^ 115"
proof (cases "t < length xs")
  case False
  then show ?thesis using assms(2) by (simp add: contribute_def)
next
  case True
  obtain v where v: "g = Fin v" "\<bar>v\<bar> \<le> 2 ^ 100" using assms(1) by (cases g) (auto simp: gain_ok_def)
  obtain z where z: "sint (xs ! t) = z" by simp
  let ?s = "of_int z :: rat"
  have "\<bar>z\<bar> \<le> 32768" using sint16_bounds [of "xs ! t"] z by simp
  then have "rat_of_int \<bar>z\<bar> \<le> of_int 32768" by (simp only: of_int_le_iff)
  then have "\<bar>?s\<bar> \<le> 2 ^ 15" by simp
  then have p: "\<bar>?s * v\<bar> \<le> 2 ^ 115"
    using v mult_mono [of "\<bar>?s\<bar>" "2 ^ 15" "\<bar>v\<bar>" "2 ^ 100"] by (simp add: abs_mult)
  then have q: "\<bar>rnd32 (?s * v)\<bar> \<le> 2 ^ 115"
    using abs_rnd_le [of 24 _ "2 ^ 115" 149] repr_sum_bound [of 1] by simp
  have k: "rat_of_nat k \<le> 64"
    using assms(3) by (metis less_imp_le of_nat_le_iff of_nat_numeral)
  have sum: "\<bar>r + rnd32 (?s * v)\<bar> \<le> of_nat (Suc k) * 2 ^ 115"
    using assms(2) q by (simp add: algebra_simps)
  have "of_nat (Suc k) * 2 ^ 115 \<le> 65 * (2 ^ 115 :: rat)"
    using k by (intro mult_right_mono) simp_all
  also have "\<dots> \<le> 2 ^ 127" by simp
  finally have "\<bar>r + rnd32 (?s * v)\<bar> \<le> 2 ^ 127" using sum by linarith
  moreover have "\<bar>?s * v\<bar> \<le> 2 ^ 127" using p by simp
  ultimately have "contribute g xs t (Fin r) = Fin (rnd32 (r + rnd32 (?s * v)))"
    using True v by (simp add: contribute_def i16_to_f32_Fin [OF z] f32_Fin)
  moreover have "\<bar>rnd32 (r + rnd32 (?s * v))\<bar> \<le> of_nat (Suc k) * 2 ^ 115"
    using sum repr_sum_bound [of "Suc k"] assms(3) by (intro abs_rnd_le) auto
  ultimately show ?thesis by blast
qed

lemma mix_foldl_bound:
  assumes "\<And>i. i \<in> set is \<Longrightarrow> audible lb ps i \<Longrightarrow> gain_ok (user_volume (ps i))"
    and "\<bar>r\<bar> \<le> of_nat k * 2 ^ 115" "k + length is \<le> 64"
  shows "\<exists>r'. foldl (\<lambda>a i. if audible lb ps i
      then contribute (user_volume (ps i)) (peer_pending (ps i)) t a else a) (Fin r) is = Fin r'
    \<and> \<bar>r'\<bar> \<le> of_nat (k + length is) * 2 ^ 115"
  using assms
proof (induction "is" arbitrary: r k)
  case Nil
  then show ?case by simp
next
  case (Cons i "is")
  show ?case
  proof (cases "audible lb ps i")
    case True
    have "\<exists>r1. contribute (user_volume (ps i)) (peer_pending (ps i)) t (Fin r) = Fin r1
        \<and> \<bar>r1\<bar> \<le> of_nat (Suc k) * 2 ^ 115"
      by (rule contribute_bound) (use Cons.prems True in auto)
    then obtain r1 where r1: "contribute (user_volume (ps i)) (peer_pending (ps i)) t (Fin r) = Fin r1"
        "\<bar>r1\<bar> \<le> of_nat (Suc k) * 2 ^ 115" by blast
    show ?thesis using Cons.IH [of r1 "Suc k"] Cons.prems r1 True by simp
  next
    case False
    have "of_nat k * 2 ^ 115 \<le> (of_nat (Suc k) * 2 ^ 115 :: rat)" by simp
    then have "\<bar>r\<bar> \<le> of_nat (Suc k) * 2 ^ 115" using Cons.prems(2) by linarith
    then show ?thesis using Cons.IH [of r "Suc k"] Cons.prems False by simp
  qed
qed

lemma mix_value_finite:
  assumes "gains_ok lb ps"
  shows "\<exists>r. mix_value lb ps t = Fin r \<and> \<bar>r\<bar> \<le> 2 ^ 120"
proof -
  obtain r where "mix_value lb ps t = Fin r" "\<bar>r\<bar> \<le> of_nat 32 * 2 ^ 115"
    using mix_foldl_bound [of "[0..<32]" lb ps 0 0 t] assms
    by (auto simp: mix_value_def gains_ok_def MAX_PEERS_def)
  then show ?thesis by simp
qed

lemma limit_samples_defined:
  assumes "\<And>a. a \<in> set xs \<Longrightarrow> \<exists>y. limit_sample a = Some y \<and> \<bar>sint y\<bar> \<le> 32767"
  shows "\<exists>ys. limit_samples xs = Some ys \<and> (\<forall>y \<in> set ys. \<bar>sint y\<bar> \<le> 32767)"
  using assms
proof (induction xs)
  case Nil
  then show ?case by simp
next
  case (Cons a xs)
  obtain y where "limit_sample a = Some y" "\<bar>sint y\<bar> \<le> 32767" using Cons.prems by auto
  moreover obtain ys where "limit_samples xs = Some ys" "\<forall>y \<in> set ys. \<bar>sint y\<bar> \<le> 32767"
    using Cons by auto
  ultimately show ?case by simp
qed

lemma limit_samples_mix_defined:
  assumes "gains_ok lb ps"
  shows "\<exists>ys. limit_samples (map (mix_value lb ps) [0..<n]) = Some ys \<and> length ys = n
    \<and> (\<forall>y \<in> set ys. \<bar>sint y\<bar> \<le> 32767)"
proof -
  have "\<exists>y. limit_sample a = Some y \<and> \<bar>sint y\<bar> \<le> 32767"
    if a: "a \<in> set (map (mix_value lb ps) [0..<n])" for a
  proof -
    obtain r where "a = Fin r" "\<bar>r\<bar> \<le> 2 ^ 120" using a mix_value_finite [OF assms] by fastforce
    then show ?thesis by (intro limit_sample_range) auto
  qed
  from limit_samples_defined [OF this] show ?thesis using length_limit_samples by fastforce
qed

section \<open>The mixer against the reference\<close>

lemma mix_audio_streams_eq:
  assumes "peers_wf (g_peers s)" "\<not> g_local_deafened s"
  shows "mix_audio_streams True n s =
    map_option (\<lambda>ys. (ys, s\<lparr>g_peers := advance (g_mic_test_loopback s) (unat n) (g_peers s)\<rparr>))
      (limit_samples (map (mix_value (g_mic_test_loopback s) (g_peers s)) [0..<unat n]))"
proof (cases "n = 0")
  case True
  then show ?thesis by (simp add: mix_audio_streams_def)
next
  case False
  then show ?thesis
    using assms by (simp add: mix_audio_streams_def mix_loop_eq option.map_comp comp_def)
qed

lemma one_stream_unity:
  assumes "sint p = k"
  shows "limit_sample (contribute (Fin 1) [p] 0 (Fin 0)) = Some (word_of_int (limited_int (of_int k)))"
proof -
  have k: "\<bar>k\<bar> \<le> 2 ^ 24" "\<bar>k\<bar> \<le> 2 ^ 15" using sint16_bounds [of p] assms by auto
  then have "contribute (Fin 1) [p] 0 (Fin 0) = Fin (of_int k)"
    using f32_of_int [of k] by (simp add: contribute_def i16_to_f32_Fin [OF assms])
  moreover have "\<bar>rat_of_int k\<bar> \<le> 2 ^ 128"
    using k(2) by (simp only: of_int_abs [symmetric]) (erule order_trans [OF of_int_le_iff [THEN iffD2]], simp)
  ultimately show ?thesis by (simp add: limit_sample_Fin)
qed

text \<open>The limiter never makes a lone stream louder.\<close>

lemma limited_int_le:
  assumes "0 \<le> k" "k \<le> 32768"
  shows "0 \<le> limited_int (of_int k) \<and> limited_int (of_int k) \<le> k"
proof -
  have r: "repr 24 149 (of_int k / 2 ^ 15)" using assms by (intro reprI [where m = k and j = 15]) simp_all
  then have x: "rnd32 (of_int k / 32768) = of_int k / 32768" by simp
  have l: "0 \<le> limited (of_int k / 32768)" "limited (of_int k / 32768) \<le> of_int k / 32768"
    using limited_nonneg_bounds [of "of_int k / 32768"] r assms by auto
  then have "limited (of_int k / 32768) * 32767 \<le> of_int k"
    using assms by simp
  moreover have "repr 24 149 (of_int k)" using assms reprI [of k 24 0 149] by simp
  ultimately have "rnd32 (limited (of_int k / 32768) * 32767) \<le> of_int k"
    by (intro rnd_le_repr) simp_all
  from trunc_mono [OF this] have "limited_int (of_int k) \<le> k" by (simp add: limited_int_def x)
  moreover have "0 \<le> rnd32 (limited (of_int k / 32768) * 32767)" using l by (simp add: rnd_nonneg)
  then have "0 \<le> limited_int (of_int k)" using trunc_mono [of 0] by (simp add: limited_int_def x trunc_def)
  ultimately show ?thesis by simp
qed

lemma limited_int_abs_le: "\<bar>k\<bar> \<le> 32768 \<Longrightarrow> \<bar>limited_int (of_int k)\<bar> \<le> \<bar>k\<bar>"
proof (cases "0 \<le> k")
  case True
  assume "\<bar>k\<bar> \<le> 32768"
  then show ?thesis using True limited_int_le [of k] by simp
next
  case False
  assume "\<bar>k\<bar> \<le> 32768"
  then show ?thesis
    using False limited_int_le [of "- k"] limited_int_uminus [of "of_int k"] by simp
qed

section \<open>Duplication over the channels\<close>

lemma index_no_wrap:
  fixes f c :: u32
  assumes "(unat f + 1) * unat c \<le> 2 ^ 32" "i < unat c"
  shows "unat (f * c + of_nat i) = unat f * unat c + i"
proof -
  have "unat f * unat c + i < 2 ^ 32" using assms by simp
  moreover have "i < 2 ^ 32" using calculation by linarith
  ultimately show ?thesis by (simp add: unat_word_ariths unat_of_nat)
qed

lemma dup_frame_eq:
  assumes "(unat f + 1) * unat c \<le> 2 ^ 32"
  shows "dup_frame c f x out =
    (\<lambda>j. if unat f * unat c \<le> j \<and> j < (unat f + 1) * unat c then x else out j)"
proof -
  have "fold (\<lambda>i o'. o'(unat (f * c + of_nat i) := x)) [0..<n] out
      = (\<lambda>j. if unat f * unat c \<le> j \<and> j < unat f * unat c + n then x else out j)"
    if "n \<le> unat c" for n
    using that
  proof (induction n)
    case 0
    then show ?case by (auto simp: fun_eq_iff)
  next
    case (Suc n)
    then show ?case using index_no_wrap [OF assms, of n] by (auto simp: fun_eq_iff)
  qed
  from this [of "unat c"] show ?thesis unfolding dup_frame_def by (simp add: add.commute)
qed

lemma dup_frames_eq:
  assumes "(unat f + length xs) * unat c < 2 ^ 32" "0 < unat c"
  shows "dup_frames c f xs out =
    (\<lambda>j. if unat f * unat c \<le> j \<and> j < (unat f + length xs) * unat c
         then xs ! (j div unat c - unat f) else out j)"
  using assms
proof (induction xs arbitrary: f out)
  case Nil
  then show ?case by (auto simp: fun_eq_iff)
next
  case (Cons x xs)
  let ?c = "unat c"
  have upper: "(unat f + 1) * ?c \<le> (unat f + length (x # xs)) * ?c" by (rule mult_right_mono) auto
  then have le: "(unat f + 1) * ?c \<le> 2 ^ 32" using Cons.prems by linarith
  have "unat f + 1 \<le> (unat f + 1) * ?c"
    by (metis Cons.prems(2) Suc_leI One_nat_def mult.right_neutral mult_le_mono2)
  moreover have "(unat f + 1) * ?c < 2 ^ 32"
    using upper Cons.prems by linarith
  ultimately have f1: "unat (f + 1) = unat f + 1" by (simp add: unat_word_ariths)
  have "dup_frames c f (x # xs) out = dup_frames c (f + 1) xs (dup_frame c f x out)" by simp
  also have "\<dots> = (\<lambda>j. if (unat f + 1) * ?c \<le> j \<and> j < (unat f + 1 + length xs) * ?c
         then xs ! (j div ?c - (unat f + 1)) else dup_frame c f x out j)"
    using Cons.IH [of "f + 1", unfolded f1] Cons.prems by (simp add: add.assoc)
  also have "\<dots> = (\<lambda>j. if unat f * ?c \<le> j \<and> j < (unat f + length (x # xs)) * ?c
         then (x # xs) ! (j div ?c - unat f) else out j)"
  proof
    fix j
    have first: "j div ?c = unat f" if "unat f * ?c \<le> j" "j < (unat f + 1) * ?c"
      using that by (intro div_nat_eqI) (simp_all add: algebra_simps)
    have later: "unat f + 1 \<le> j div ?c" if "(unat f + 1) * ?c \<le> j"
      using that Cons.prems(2) by (simp add: less_eq_div_iff_mult_less_eq)
    have inside: "j < (unat f + length (x # xs)) * ?c" if "j < (unat f + 1) * ?c"
      using that upper by (rule less_le_trans)
    show "(if (unat f + 1) * ?c \<le> j \<and> j < (unat f + 1 + length xs) * ?c
         then xs ! (j div ?c - (unat f + 1)) else dup_frame c f x out j) =
        (if unat f * ?c \<le> j \<and> j < (unat f + length (x # xs)) * ?c
         then (x # xs) ! (j div ?c - unat f) else out j)"
      using first later inside by (auto simp: dup_frame_eq [OF le] nth_Cons' not_le)
  qed
  finally show ?case .
qed

section \<open>The playback callback\<close>

lemma mix_next_state:
  assumes "mix_audio_streams True n s = Some (ys, s1)"
    "peers_wf (g_peers s)" "\<not> g_local_deafened s"
  shows "length ys = unat n \<and> peers_wf (g_peers s1) \<and> g_local_deafened s1 = g_local_deafened s
    \<and> g_mic_test_loopback s1 = g_mic_test_loopback s
    \<and> g_peers s1 = advance (g_mic_test_loopback s) (unat n) (g_peers s)
    \<and> s1 = s\<lparr>g_peers := g_peers s1\<rparr>"
  using assms length_limit_samples by (fastforce simp: mix_audio_streams_eq advance_peers_wf)

text \<open>The chunked multi-channel loop writes the interleaved duplicate of the one mono mix.\<close>

lemma playback_loop_eq:
  assumes "peers_wf (g_peers s)" "\<not> g_local_deafened s" "0 < unat c"
    "(unat off + unat n) * unat c < 2 ^ 32"
  shows "playback_loop c n off out s =
    map_option (\<lambda>ys. (\<lambda>j. if unat off * unat c \<le> j \<and> j < (unat off + unat n) * unat c
                        then ys ! (j div unat c - unat off) else out j,
        s\<lparr>g_peers := advance (g_mic_test_loopback s) (unat n) (g_peers s)\<rparr>))
      (limit_samples (map (mix_value (g_mic_test_loopback s) (g_peers s)) [0..<unat n]))"
  using assms
proof (induction c n off out s rule: playback_loop.induct)
  case (1 c n off out s)
  let ?lb = "g_mic_test_loopback s" and ?ps = "g_peers s" and ?c = "unat c"
  show ?case
  proof (cases "n = 0")
    case True
    then show ?thesis by (subst playback_loop.simps) (auto simp: fun_eq_iff)
  next
    case False
    let ?k = "unat (chunk_size n)" and ?m = "unat (n - chunk_size n)"
    have le: "chunk_size n \<le> n" using False chunk_size_bounds [of n] by (simp add: word_neq_0_conv)
    then have n: "unat n = ?k + ?m" by (simp add: unat_sub word_le_nat_alt)
    have off_small: "unat off + ?k < 2 ^ 32"
    proof -
      have "unat off + ?k \<le> (unat off + unat n) * 1" using n by simp
      also have "\<dots> \<le> (unat off + unat n) * ?c" using "1.prems"(3) by (intro mult_left_mono) auto
      finally show ?thesis using "1.prems"(4) by linarith
    qed
    then have off: "unat (off + chunk_size n) = unat off + ?k" by (simp add: unat_word_ariths)
    note split = limit_mix_split [OF "1.prems"(1), of ?lb ?k ?m, folded n]
    show ?thesis
    proof (cases "mix_audio_streams True (chunk_size n) s")
      case None
      then show ?thesis
        using False split mix_audio_streams_eq [OF "1.prems"(1,2), of "chunk_size n"]
        by (simp add: playback_loop.simps [of c n] Let_def split: option.splits)
    next
      case (Some r)
      then obtain ms s1 where m: "mix_audio_streams True (chunk_size n) s = Some (ms, s1)"
        by (cases r) auto
      note s1 = mix_next_state [OF m "1.prems"(1,2)]
      have lim: "limit_samples (map (mix_value ?lb ?ps) [0..<?k]) = Some ms"
        using m mix_audio_streams_eq [OF "1.prems"(1,2), of "chunk_size n"] by auto
      have bound: "(unat off + length ms) * ?c < 2 ^ 32"
      proof -
        have "(unat off + length ms) * ?c \<le> (unat off + unat n) * ?c"
          using s1 n by (intro mult_right_mono) auto
        then show ?thesis using "1.prems"(4) by linarith
      qed
      have rec: "playback_loop c (n - chunk_size n) (off + chunk_size n) (dup_frames c off ms out) s1 =
        map_option (\<lambda>ys. (\<lambda>j. if (unat off + ?k) * ?c \<le> j \<and> j < (unat off + ?k + ?m) * ?c
                        then ys ! (j div ?c - (unat off + ?k)) else dup_frames c off ms out j,
            s1\<lparr>g_peers := advance ?lb ?m (g_peers s1)\<rparr>))
          (limit_samples (map (mix_value ?lb (g_peers s1)) [0..<?m]))"
      proof -
        have a: "peers_wf (g_peers s1)" "\<not> g_local_deafened s1" "g_mic_test_loopback s1 = ?lb"
          using s1 "1.prems"(2) by auto
        have b: "(unat off + ?k + ?m) * ?c < 2 ^ 32" using "1.prems"(4) n by (simp add: add.assoc)
        show ?thesis
          using "1.IH" [OF False refl m refl a(1,2) "1.prems"(3), unfolded off, OF b] by (simp only: a(3))
      qed
      have upd: "s1\<lparr>g_peers := advance ?lb ?m (g_peers s1)\<rparr> = s\<lparr>g_peers := advance ?lb (unat n) ?ps\<rparr>"
        using s1 unfolding n by (metis advance_add engine.surjective engine.update_convs(12))
      have glue: "(if (unat off + ?k) * ?c \<le> j \<and> j < (unat off + ?k + ?m) * ?c
            then ys ! (j div ?c - (unat off + ?k)) else dup_frames c off ms out j)
          = (if unat off * ?c \<le> j \<and> j < (unat off + unat n) * ?c
             then (ms @ ys) ! (j div ?c - unat off) else out j)" if "length ys = ?m" for ys j
      proof -
        have dup: "dup_frames c off ms out j = (if unat off * ?c \<le> j \<and> j < (unat off + ?k) * ?c
            then ms ! (j div ?c - unat off) else out j)"
          using dup_frames_eq [OF bound] "1.prems"(3) s1 by simp
        have lo: "j div ?c < unat off + ?k" if "j < (unat off + ?k) * ?c"
          using that "1.prems"(3) by (simp add: less_mult_imp_div_less)
        have hi: "unat off + ?k \<le> j div ?c" if "(unat off + ?k) * ?c \<le> j"
          using that "1.prems"(3) by (simp add: less_eq_div_iff_mult_less_eq)
        have mono: "unat off * ?c \<le> (unat off + ?k) * ?c" "(unat off + ?k) * ?c \<le> (unat off + unat n) * ?c"
          using n by (auto intro: mult_right_mono)
        have low: "unat off \<le> j div ?c" if "unat off * ?c \<le> j"
          using that "1.prems"(3) by (simp add: less_eq_div_iff_mult_less_eq)
        have len: "length ms = ?k" using s1 by blast
        show ?thesis
        proof (cases "(unat off + ?k) * ?c \<le> j")
          case True
          then have "unat off * ?c \<le> j" using mono(1) by (rule order_trans [rotated])
          then show ?thesis
            using True hi [OF True] unfolding dup n by (auto simp: nth_append add.assoc len)
        next
          case False
          then have "j < (unat off + unat n) * ?c" using mono(2) by linarith
          then show ?thesis
            using False lo low unfolding dup by (auto simp: nth_append len)
        qed
      qed
      have unfold: "playback_loop c n off out s
          = playback_loop c (n - chunk_size n) (off + chunk_size n) (dup_frames c off ms out) s1"
        using False m by (simp add: playback_loop.simps [of c n] Let_def)
      have peers1: "g_peers s1 = advance ?lb ?k ?ps" using s1 by blast
      show ?thesis
      proof (cases "limit_samples (map (mix_value ?lb (advance ?lb ?k ?ps)) [0..<?m])")
        case None
        then show ?thesis unfolding unfold rec peers1 split lim by simp
      next
        case (Some ys)
        then have "length ys = ?m" using length_limit_samples [OF Some] by simp
        then show ?thesis
          unfolding unfold rec upd [unfolded peers1] split lim peers1 Some option.case option.map by (simp only: glue)
      qed
    qed
  qed
qed

lemma leave_enter_peers [simp]: "leave_cs ((enter_cs s)\<lparr>g_peers := ps\<rparr>) = s\<lparr>g_peers := ps\<rparr>"
  by (simp add: enter_cs_def leave_cs_def)

lemma playback_callback_eq:
  assumes "peers_wf (g_peers s)" "g_playing s" "\<not> g_local_deafened s" "n \<noteq> 0"
    "unat n * unat (callback_channels dev) < 2 ^ 32"
  shows "ma_playback_callback dev (Some out) n s =
    map_option (\<lambda>ys. (Some (\<lambda>j. if j < unat n * unat (callback_channels dev)
                              then ys ! (j div unat (callback_channels dev)) else out j),
        s\<lparr>g_peers := advance (g_mic_test_loopback s) (unat n) (g_peers s)\<rparr>))
      (limit_samples (map (mix_value (g_mic_test_loopback s) (g_peers s)) [0..<unat n]))"
proof -
  let ?c = "callback_channels dev"
  have pos: "0 < ?c" by (auto simp: callback_channels_def split: option.split)
  show ?thesis
  proof (cases "?c \<le> 1")
    case True
    then have "unat ?c = 1" using pos by (simp add: word_le_nat_alt word_less_nat_alt)
    then have one: "?c = 1" by (simp add: word_unat_eq_iff)
    then show ?thesis
      using assms length_limit_samples
      by (auto simp: ma_playback_callback_def Let_def mix_audio_streams_eq frame_simps store_from_def
          option.map_comp comp_def fun_eq_iff intro!: option.map_cong split: option.splits)
  next
    case False
    have "playback_loop ?c n 0 out (enter_cs s) = map_option (\<lambda>ys. (\<lambda>j. if j < unat n * unat ?c
          then ys ! (j div unat ?c) else out j,
        (enter_cs s)\<lparr>g_peers := advance (g_mic_test_loopback s) (unat n) (g_peers s)\<rparr>))
      (limit_samples (map (mix_value (g_mic_test_loopback s) (g_peers s)) [0..<unat n]))"
      using playback_loop_eq [of "enter_cs s" ?c 0 n out] assms pos
      by (simp add: frame_simps word_less_nat_alt cong: if_cong)
    then show ?thesis
      using False assms
      by (simp add: ma_playback_callback_def Let_def frame_simps option.map_comp comp_def)
  qed
qed

lemma playback_callback_silent:
  assumes "\<not> g_playing s \<or> g_local_deafened s" "n \<noteq> 0"
    "unat n * unat (callback_channels dev) < 2 ^ 32"
  shows "ma_playback_callback dev (Some out) n s =
    Some (Some (\<lambda>j. if j < unat n * unat (callback_channels dev) then 0 else out j), s)"
proof -
  have "unat (n * callback_channels dev) = unat n * unat (callback_channels dev)"
    using assms(3) by (simp add: unat_word_ariths)
  then show ?thesis
    using assms by (auto simp: ma_playback_callback_def Let_def store_from_def fun_eq_iff)
qed

section \<open>Properties\<close>

text \<open>C10: The mixer computes the reference mix. With a well-formed pool and usable volumes, a call
  for \<open>n\<close> samples returns \<open>n\<close> samples: the \<open>t\<close>-th is the limiter applied to the sum, in slot
  order, of the \<open>t\<close>-th pending sample of every audible stream times its volume, streams that run
  out adding nothing, whatever the division into chunks of 960. Each stream loses exactly the
  samples played; the samples stay within [-32767, 32767] and no cast of the limiter is undefined.
  The limiter is the one of the code, \<open>x - 4/27 x^3\<close> up to \<open>3/2\<close>; a test in
  \<open>tests/adversarial_voice_engine_test.c\<close> expects \<open>x - x^3/3\<close> up to one, and fails (\<open>mixer_half_scale\<close>).\<close>

theorem mixer_reference:
  assumes "peers_wf (g_peers s)" "\<not> g_local_deafened s" "gains_ok (g_mic_test_loopback s) (g_peers s)"
  shows "\<exists>ys s'. mix_audio_streams True n s = Some (ys, s') \<and> length ys = unat n \<and>
    limit_samples (map (mix_value (g_mic_test_loopback s) (g_peers s)) [0..<unat n]) = Some ys \<and>
    (\<forall>y \<in> set ys. \<bar>sint y\<bar> \<le> 32767) \<and>
    (\<forall>i < 32. peer_pending (g_peers s' i) =
       (if audible (g_mic_test_loopback s) (g_peers s) i then drop (unat n) (peer_pending (g_peers s i))
        else peer_pending (g_peers s i)))"
proof -
  obtain ys where ys: "limit_samples (map (mix_value (g_mic_test_loopback s) (g_peers s)) [0..<unat n]) = Some ys"
      "length ys = unat n" "\<forall>y \<in> set ys. \<bar>sint y\<bar> \<le> 32767"
    using limit_samples_mix_defined [OF assms(3)] by blast
  have "peer_pending (advance (g_mic_test_loopback s) (unat n) (g_peers s) i) =
       (if audible (g_mic_test_loopback s) (g_peers s) i then drop (unat n) (peer_pending (g_peers s i))
        else peer_pending (g_peers s i))" if "i < 32" for i
    using that skip_samples_pending [OF peers_wf_valid [OF assms(1) that]] by (simp add: advance_def MAX_PEERS_def)
  then show ?thesis using ys mix_audio_streams_eq [OF assms(1,2), of n] by simp
qed

lemma mixer_reference_witness:
  "\<exists>ys s'. mix_audio_streams True 2000 (static_init :: nat engine) = Some (ys, s') \<and> length ys = 2000"
  using mixer_reference [of "static_init :: nat engine" 2000] peers_wf_zero
  by (fastforce simp: static_init_def gains_ok_def audible_def zero_peer_def)

text \<open>Mixing \<open>a + b\<close> samples in one call is mixing \<open>a\<close> and then \<open>b\<close>: the audio does not depend on
  how the device splits its callbacks.\<close>

theorem mixing_is_incremental:
  assumes "peers_wf (g_peers s)" "\<not> g_local_deafened s" "unat a + unat b < 2 ^ 32"
  shows "mix_audio_streams True (a + b) s =
    (case mix_audio_streams True a s of
       None \<Rightarrow> None
     | Some (xs, s1) \<Rightarrow> map_option (\<lambda>(ys, s2). (xs @ ys, s2)) (mix_audio_streams True b s1))"
proof -
  let ?lb = "g_mic_test_loopback s" and ?ps = "g_peers s"
  have ab: "unat (a + b) = unat a + unat b" using assms(3) by (simp add: unat_word_ariths)
  have wf: "peers_wf (advance ?lb (unat a) ?ps)" by (rule advance_peers_wf [OF assms(1)])
  have b: "mix_audio_streams True b (s\<lparr>g_peers := advance ?lb (unat a) ?ps\<rparr>) =
    map_option (\<lambda>ys. (ys, s\<lparr>g_peers := advance ?lb (unat b) (advance ?lb (unat a) ?ps)\<rparr>))
      (limit_samples (map (mix_value ?lb (advance ?lb (unat a) ?ps)) [0..<unat b]))"
    using mix_audio_streams_eq [of "s\<lparr>g_peers := advance ?lb (unat a) ?ps\<rparr>" b] wf assms(2) by simp
  show ?thesis
    unfolding mix_audio_streams_eq [OF assms(1,2)] ab limit_mix_split [OF assms(1)] advance_add
    by (auto simp: b split: option.split)
qed

lemma mixing_is_incremental_witness:
  "mix_audio_streams True (7 + 3000) (static_init :: nat engine) =
    (case mix_audio_streams True 7 (static_init :: nat engine) of
       None \<Rightarrow> None
     | Some (xs, s1) \<Rightarrow> map_option (\<lambda>(ys, s2). (xs @ ys, s2)) (mix_audio_streams True 3000 s1))"
  by (rule mixing_is_incremental) (use peers_wf_zero in \<open>simp_all add: static_init_def\<close>)

text \<open>C14: The limiter follows its curve for every sum a \<open>float\<close> of magnitude up to \<open>2 ^ 128\<close> can hold. The
  sample is within \<open>9/8\<close> of \<open>32767\<close> times \<open>x - 4/27 x^3\<close> for \<open>x\<close> the sum over 32768, and of full scale with
  the sign of the sum from \<open>3/2\<close> on, where it is exactly \<open>32767\<close> or \<open>-32767\<close>. It never exceeds the sum in
  magnitude, has its sign or is zero, and the sample for the negated sum is the negated sample. The curve is the one of the code:
  \<open>tests/adversarial_voice_engine_test.c\<close> expects \<open>x - x^3/3\<close>, clamped from one on (\<open>limiter_half_scale\<close>).\<close>

theorem limiter_gentle:
  assumes "\<bar>acc\<bar> \<le> 2 ^ 128"
  shows "\<exists>y. limit_sample (Fin acc) = Some y \<and>
    \<bar>of_int (sint y) - 32767 * limiter_curve (acc / 32768)\<bar> \<le> 9 / 8 \<and>
    (49152 \<le> acc \<longrightarrow> sint y = 32767) \<and> (acc \<le> - 49152 \<longrightarrow> sint y = - 32767) \<and>
    \<bar>of_int (sint y)\<bar> \<le> \<bar>acc\<bar> \<and> (0 \<le> acc \<longrightarrow> 0 \<le> sint y) \<and> (acc \<le> 0 \<longrightarrow> sint y \<le> 0) \<and>
    limit_sample (Fin (- acc)) = Some (- y)"
proof -
  have s: "sint (word_of_int (limited_int acc) :: i16) = limited_int acc"
    using limited_int_bound [of acc] by (intro sint16_of_int) (auto simp: abs_le_iff)
  have y: "limit_sample (Fin acc) = Some (word_of_int (limited_int acc))"
      "limit_sample (Fin (- acc)) = Some (- word_of_int (limited_int acc))"
    using limit_sample_Fin [of acc] limit_sample_Fin [of "- acc"] assms by (simp_all add: limited_int_uminus)
  show ?thesis
    unfolding y option.inject ex_simps simp_thms(37-40) using limited_int_follows [of acc] s by simp
qed

lemma limiter_gentle_witness:
  "\<exists>y. limit_sample (Fin (- 50000)) = Some y \<and> sint y = - 32767 \<and> limit_sample (Fin 50000) = Some (- y)"
  using limiter_gentle [of "- 50000"] by auto

text \<open>Half of full scale gives 15776. The test above expects a value between 15000 and 15050.\<close>

lemma limiter_half_scale: "limit_sample (Fin 16384) = Some 15776"
proof -
  have exact: "rnd32 (16384 / 32768) = 1 / 2" "rnd32 (1 / 2 * (1 / 2)) = 1 / 4" "rnd32 (1 / 4 * (1 / 2)) = 1 / 8"
      "rnd32 (limiter_c * (1 / 8)) = limiter_c * (1 / 8)"
    using rnd_repr [OF _ reprI [of 1 24 1 149 "1 / 2"]] rnd_repr [OF _ reprI [of 1 24 2 149 "1 / 4"]]
      rnd_repr [OF _ reprI [of 1 24 3 149 "1 / 8"]] rnd_repr [OF _ reprI [of 9942054 24 29 149 "limiter_c * (1 / 8)"]]
    by (simp_all add: limiter_c_def)
  have y: "rnd32 (1 / 2 - limiter_c * (1 / 8)) = of_int 16155838 / 2 ^ 25" by (rule rnd_eqI) (simp_all add: limiter_c_def)
  have z: "rnd32 (of_int 16155838 / 2 ^ 25 * 32767) = of_int 16155345 / 2 ^ 10" by (rule rnd_eqI) simp_all
  have "soft_poly (1 / 2) = of_int 16155838 / 2 ^ 25" by (simp only: soft_poly_def exact y)
  then have "limited (rnd32 (16384 / 32768)) = of_int 16155838 / 2 ^ 25" unfolding exact(1) by (simp add: limited_def)
  then have "limited_int 16384 = trunc (of_int 16155345 / 2 ^ 10)" by (simp only: limited_int_def z)
  also have "\<dots> = 15776" using floor_unique [of 15776 "16155345 / 1024 :: rat"] by (simp add: trunc_def)
  finally show ?thesis using limit_sample_Fin [of 16384] by simp
qed

text \<open>C13: The playback callback writes the mono mix to every channel of every frame of the device's
  buffer and nothing outside it, for any number of channels whose buffer has fewer than 2^32
  samples; all written samples are within [-32767, 32767].\<close>

theorem playback_interleaves:
  assumes "peers_wf (g_peers s)" "g_playing s" "\<not> g_local_deafened s" "n \<noteq> 0"
    and "unat n * unat (callback_channels dev) < 2 ^ 32" "gains_ok (g_mic_test_loopback s) (g_peers s)"
  shows "\<exists>mono out' s'. ma_playback_callback dev (Some out) n s = Some (Some out', s') \<and>
    limit_samples (map (mix_value (g_mic_test_loopback s) (g_peers s)) [0..<unat n]) = Some mono \<and>
    length mono = unat n \<and> (\<forall>y \<in> set mono. \<bar>sint y\<bar> \<le> 32767) \<and>
    (\<forall>f < unat n. \<forall>c < unat (callback_channels dev). out' (f * unat (callback_channels dev) + c) = mono ! f) \<and>
    (\<forall>j \<ge> unat n * unat (callback_channels dev). out' j = out j)"
proof -
  let ?c = "unat (callback_channels dev)"
  obtain ys where ys: "limit_samples (map (mix_value (g_mic_test_loopback s) (g_peers s)) [0..<unat n]) = Some ys"
      "length ys = unat n" "\<forall>y \<in> set ys. \<bar>sint y\<bar> \<le> 32767"
    using limit_samples_mix_defined [OF assms(6)] by blast
  have lt: "f * ?c + c < unat n * ?c" if "f < unat n" "c < ?c" for f c
  proof -
    have "f * ?c + c < (f + 1) * ?c" using that by simp
    also have "\<dots> \<le> unat n * ?c" using that by (intro mult_le_mono) auto
    finally show ?thesis .
  qed
  show ?thesis using ys lt unfolding playback_callback_eq [OF assms(1-5)] by auto
qed

lemma playback_interleaves_witness:
  "\<exists>mono out' s'. ma_playback_callback (Some 2) (Some (\<lambda>_. 7)) 3 ((static_init :: nat engine)\<lparr>g_playing := True\<rparr>)
      = Some (Some out', s') \<and> length mono = 3 \<and> out' (2 * 2 + 1) = mono ! 2 \<and> out' 6 = 7"
proof -
  let ?s = "(static_init :: nat engine)\<lparr>g_playing := True\<rparr>"
  have c: "unat (callback_channels (Some 2)) = 2" by (simp add: callback_channels_def)
  have pre: "peers_wf (g_peers ?s)" "g_playing ?s" "\<not> g_local_deafened ?s" "(3 :: u32) \<noteq> 0"
    "unat (3 :: u32) * unat (callback_channels (Some 2)) < 2 ^ 32"
    "gains_ok (g_mic_test_loopback ?s) (g_peers ?s)"
    using peers_wf_zero by (simp_all add: c) (simp_all add: static_init_def gains_ok_def audible_def zero_peer_def)
  obtain mono out' s' where r: "ma_playback_callback (Some 2) (Some (\<lambda>_. 7)) 3 ?s = Some (Some out', s')"
      "length mono = unat (3 :: u32)"
      "\<forall>f < unat (3 :: u32). \<forall>k < unat (callback_channels (Some 2)). out' (f * unat (callback_channels (Some 2)) + k) = mono ! f"
      "\<forall>j \<ge> unat (3 :: u32) * unat (callback_channels (Some 2)). out' j = 7"
    using playback_interleaves [OF pre, of "\<lambda>_. 7"] by blast
  have "out' (2 * 2 + 1) = mono ! 2" using r(3) [unfolded c, rule_format, of 2 1] by simp
  moreover have "out' 6 = 7" using r(4) [unfolded c, rule_format, of 6] by simp
  ultimately show ?thesis using r(1,2) by auto
qed

text \<open>Not playing, or deafened, the callback writes silence to the whole buffer and takes nothing
  from any stream.\<close>

theorem playback_silence:
  assumes "\<not> g_playing s \<or> g_local_deafened s" "n \<noteq> 0" "unat n * unat (callback_channels dev) < 2 ^ 32"
  shows "ma_playback_callback dev (Some out) n s =
    Some (Some (\<lambda>j. if j < unat n * unat (callback_channels dev) then 0 else out j), s)"
  using playback_callback_silent [OF assms] .

lemma playback_silence_witness:
  "ma_playback_callback None (Some (\<lambda>_. 7)) 3 (static_init :: nat engine) =
    Some (Some (\<lambda>j. if j < 3 then 0 else 7), static_init)"
  using playback_silence [of "static_init :: nat engine" 3 None "\<lambda>_. 7"]
  by (simp add: static_init_def callback_channels_def)

text \<open>A volume that is not a number silently breaks the mixer's contract: \<open>set_user_volume\<close>
  stores any float, a stream with a NaN volume makes the sum a NaN, and the limiter's final cast of
  it to \<open>int16_t\<close> is undefined.\<close>

theorem nan_volume_undefined:
  "limit_sample (contribute NaN [p] 0 (Fin 0)) = None"
  by (simp add: contribute_def i16_to_f32_Fin [OF refl] limit_sample_NaN)

end
