(* ===== verification/Engine.thy ===== *)
theory Engine
  imports Protocol Inbound Capture Playback
begin

text \<open>
  The whole engine as a transition system: one rule per exported function and per audio callback,
  each a whole call, in any order. \<open>engine_reachable\<close> starts from static storage. The invariant
  joins the components' invariants; the engine's safety follows from it.
\<close>

section \<open>Who changes what\<close>

text \<open>\<open>same_hw\<close>: nothing of the device life cycle changed. \<open>same_audio\<close>: no queue or stream did.\<close>

definition same_hw :: "'i engine \<Rightarrow> 'i engine \<Rightarrow> bool" where
  "same_hw s t \<longleftrightarrow> ma_log t = ma_log s \<and> mutex_depth t = mutex_depth s
     \<and> g_ma_context_initialized t = g_ma_context_initialized s
     \<and> g_capture_device_initialized t = g_capture_device_initialized s
     \<and> g_playback_device_initialized t = g_playback_device_initialized s"

definition same_audio :: "'i engine \<Rightarrow> 'i engine \<Rightarrow> bool" where
  "same_audio s t \<longleftrightarrow> g_peers t = g_peers s \<and> g_capture_ring t = g_capture_ring s
     \<and> g_capture_read_idx t = g_capture_read_idx s \<and> g_capture_write_idx t = g_capture_write_idx s"

definition audio_wf :: "'i engine \<Rightarrow> bool" where
  "audio_wf s \<longleftrightarrow> capture_valid s \<and> peers_wf (g_peers s)"

lemma protocol_ok_same: "protocol_ok s \<Longrightarrow> same_hw s t \<Longrightarrow> protocol_ok t"
  by (rule protocol_ok_frame) (auto simp: same_hw_def protocol_ok_def)

lemma audio_wf_same: "audio_wf s \<Longrightarrow> same_audio s t \<Longrightarrow> audio_wf t"
  by (simp add: audio_wf_def same_audio_def)

lemma same_audio_trans: "same_audio s t \<Longrightarrow> same_audio t u \<Longrightarrow> same_audio s u"
  by (simp add: same_audio_def)

lemma same_audio_refl [simp]: "same_audio s s"
  by (simp add: same_audio_def)

section \<open>The streaming operations\<close>

lemma same_hw_cs [simp]:
  "same_hw s (leave_cs t) = same_hw s (t\<lparr>mutex_depth := mutex_depth (leave_cs t)\<rparr>)"
  by (simp add: same_hw_def leave_cs_def)

lemma same_hw_refl [simp]: "same_hw s s"
  by (simp add: same_hw_def)

lemma set_user_volume_same_hw: "same_hw s (voice_engine_set_user_volume uid vol s)"
  by (auto simp: voice_engine_set_user_volume_def Let_def same_hw_def enter_cs_def leave_cs_def
      split: option.splits)

lemma clear_peers_same_hw: "same_hw s (voice_engine_clear_peers s)"
  by (auto simp: voice_engine_clear_peers_def Let_def same_hw_def enter_cs_def leave_cs_def)

lemma feed_same_hw: "same_hw s (fst (voice_engine_feed_inbound_packet pkt len s))"
  by (auto simp: voice_engine_feed_inbound_packet_def Let_def same_hw_def enter_cs_def leave_cs_def
      split: option.splits prod.splits)

lemma capture_put_same_hw: "same_hw s (fold capture_put xs s)"
  by (induction xs arbitrary: s) (auto simp: same_hw_def capture_put_def)

lemma capture_callback_same_hw: "same_hw s (ma_capture_callback dev pInput n s)"
  by (cases pInput) (simp_all add: capture_callback_eq capture_put_same_hw)

lemma same_hw_audio [simp]:
  "same_hw s (loopback_frame pcm t) = same_hw s t" "same_hw s (count_sent t) = same_hw s t"
  "same_hw s (set_level_stats d k t) = same_hw s t" "same_hw s (t\<lparr>g_hangover_ms_left := h\<rparr>) = same_hw s t"
  "same_hw s (t\<lparr>g_capture_read_idx := r\<rparr>) = same_hw s t" "same_hw s (t\<lparr>g_peers := ps\<rparr>) = same_hw s t"
  by (simp_all add: same_hw_def loopback_frame_eq count_sent_def set_level_stats_def)

lemma capture_frame_same_hw:
  assumes "voice_engine_capture_frame lg ob max_len lvl spk en s = Some (out, s')" "capture_valid s"
  shows "same_hw s s'"
  using capture_frame_state [OF assms] by auto

text \<open>The playback callback changes peer streams only.\<close>

lemma playback_loop_state:
  "playback_loop c n off out s = Some (out', s') \<Longrightarrow> peers_wf (g_peers s) \<Longrightarrow> \<not> g_local_deafened s \<Longrightarrow>
     \<exists>k. s' = s\<lparr>g_peers := advance (g_mic_test_loopback s) k (g_peers s)\<rparr>"
proof (induction c n off out s rule: playback_loop.induct)
  case (1 c n off out s)
  show ?case
  proof (cases "n = 0")
    case True
    then have "s' = s" using "1.prems"(1) by (simp add: playback_loop.simps [of c 0])
    then show ?thesis by (auto intro: exI [of _ 0])
  next
    case False
    then obtain ms s1 where m: "mix_audio_streams True (chunk_size n) s = Some (ms, s1)"
      using "1.prems"(1) by (auto simp: playback_loop.simps [of c n] Let_def split: option.splits)
    note s1 = mix_next_state [OF m "1.prems"(2,3)]
    have "playback_loop c (n - chunk_size n) (off + chunk_size n) (dup_frames c off ms out) s1 = Some (out', s')"
      using False m "1.prems"(1) by (simp add: playback_loop.simps [of c n] Let_def)
    moreover have "\<not> g_local_deafened s1" using s1 "1.prems"(3) by simp
    ultimately obtain k where k: "s' = s1\<lparr>g_peers := advance (g_mic_test_loopback s1) k (g_peers s1)\<rparr>"
      using "1.IH" [OF False refl m refl] s1 by blast
    have e: "s1 = s\<lparr>g_peers := advance (g_mic_test_loopback s) (unat (chunk_size n)) (g_peers s)\<rparr>"
      using s1 by metis
    have "s' = s\<lparr>g_peers := advance (g_mic_test_loopback s) (unat (chunk_size n) + k) (g_peers s)\<rparr>"
      unfolding k e by (simp add: advance_add)
    then show ?thesis by blast
  qed
qed

lemma playback_callback_cases:
  assumes "ma_playback_callback dev pOutput n s = Some (out, s')"
  obtains (same) "s' = s"
  | (mono) ys s1 where "mix_audio_streams True n (enter_cs s) = Some (ys, s1)" "s' = leave_cs s1"
      "\<not> g_local_deafened s"
  | (multi) out1 o' s1 where "playback_loop (callback_channels dev) n 0 out1 (enter_cs s) = Some (o', s1)"
      "s' = leave_cs s1" "\<not> g_local_deafened s"
proof (cases "pOutput = None \<or> n = 0 \<or> \<not> g_playing s \<or> g_local_deafened s")
  case True
  then show ?thesis
    using assms same by (cases pOutput) (auto simp: ma_playback_callback_def Let_def split: if_splits)
next
  case False
  then obtain out1 where o: "pOutput = Some out1" by auto
  show ?thesis
  proof (cases "callback_channels dev \<le> 1")
    case True
    then show ?thesis using assms False o mono by (auto simp: ma_playback_callback_def Let_def)
  next
    case False
    then show ?thesis
      using assms \<open>\<not> (pOutput = None \<or> n = 0 \<or> \<not> g_playing s \<or> g_local_deafened s)\<close> o multi
      by (auto simp: ma_playback_callback_def Let_def)
  qed
qed

lemma playback_callback_state:
  assumes "ma_playback_callback dev pOutput n s = Some (out, s')" "peers_wf (g_peers s)"
  shows "\<exists>k. s' = s\<lparr>g_peers := advance (g_mic_test_loopback s) k (g_peers s)\<rparr>"
  using assms(1)
proof (cases rule: playback_callback_cases)
  case same
  then show ?thesis by (auto intro: exI [of _ 0])
next
  case (mono ys s1)
  have "s1 = (enter_cs s)\<lparr>g_peers := advance (g_mic_test_loopback s) (unat n) (g_peers s)\<rparr>"
    using mix_next_state [OF mono(1)] assms(2) mono(3) unfolding enter_cs_frame by metis
  then have "s' = s\<lparr>g_peers := advance (g_mic_test_loopback s) (unat n) (g_peers s)\<rparr>"
    using mono(2) leave_enter_peers by metis
  then show ?thesis by blast
next
  case (multi out1 o' s1)
  then show ?thesis
    using playback_loop_state [OF multi(1)] assms(2) by (auto simp: frame_simps)
qed

section \<open>The life-cycle operations leave the audio data alone\<close>

named_theorems same_audio_intros

lemma same_audio_log [simp]:
  "same_audio s (log_call c t) = same_audio s t" "same_audio s (set_dev_initialized k b t) = same_audio s t"
  "same_audio s (t\<lparr>g_ma_context_initialized := b\<rparr>) = same_audio s t"
  by (cases k; simp add: same_audio_def log_call_def set_dev_initialized_def)+

lemma ensure_context_same_audio [simp]: "same_audio s (ensure_context env t) = same_audio s t"
  by (cases rule: ensure_context_cases [of t env]) simp_all

lemma query_devices_same_audio [simp]: "same_audio s (snd (query_devices env t)) = same_audio s t"
  by (simp add: query_devices_def Let_def)

lemma open_device_same_audio [simp]: "same_audio s (open_device env k cfg t) = same_audio s t"
  by (simp add: open_device_def Let_def)

lemma close_device_same_audio [simp]: "same_audio s (close_device k t) = same_audio s t"
  by (simp add: close_device_def)

lemma hardware_same_audio [simp]:
  "same_audio s (start_hardware_capture env t) = same_audio s t"
  "same_audio s (start_hardware_playback env t) = same_audio s t"
  "same_audio s (stop_hardware_capture t) = same_audio s t"
  "same_audio s (stop_hardware_playback t) = same_audio s t"
  by (simp_all add: start_hardware_capture_def start_hardware_playback_def stop_hardware_capture_def
      stop_hardware_playback_def Let_def split_beta)

lemma same_audio_upd [simp]:
  "same_audio s (t\<lparr>g_capturing := b\<rparr>) = same_audio s t" "same_audio s (t\<lparr>g_playing := b\<rparr>) = same_audio s t"
  "same_audio s (t\<lparr>g_stats := st\<rparr>) = same_audio s t" "same_audio s (t\<lparr>g_input_device_id := d\<rparr>) = same_audio s t"
  "same_audio s (t\<lparr>g_output_device_id := d\<rparr>) = same_audio s t" "same_audio s (enter_cs t) = same_audio s t"
  "same_audio s (leave_cs t) = same_audio s t" "same_audio s (t\<lparr>g_mic_test_loopback := b\<rparr>) = same_audio s t"
  "same_audio s (t\<lparr>g_initialized := b\<rparr>) = same_audio s t" "same_audio s (destroy_cs t) = same_audio s t"
  by (simp_all add: same_audio_def frame_simps destroy_cs_def)

lemma set_device_same_audio:
  "same_audio s (snd (voice_engine_set_input_device env d s))"
  "same_audio s (snd (voice_engine_set_output_device env d s))"
  by (auto simp: voice_engine_set_input_device_def voice_engine_set_output_device_def Let_def split: option.splits)

lemma start_stop_same_audio [simp]:
  "same_audio s (voice_engine_start_capture env t) = same_audio s t"
  "same_audio s (voice_engine_stop_capture t) = same_audio s t"
  "same_audio s (voice_engine_start_playback env t) = same_audio s t"
  "same_audio s (voice_engine_stop_playback t) = same_audio s t"
  by (simp_all add: voice_engine_start_capture_def voice_engine_stop_capture_def
      voice_engine_start_playback_def voice_engine_stop_playback_def Let_def)

lemma query_devices_D: "query_devices env t = (r, t') \<Longrightarrow> t' = log_call (Get_devices (r \<noteq> None)) t"
  by (auto simp: query_devices_def Let_def)

lemma get_devices_same_audio:
  "same_audio s (snd (voice_engine_get_input_devices env p m s))"
  "same_audio s (snd (voice_engine_get_output_devices env p m s))"
  by (auto simp: voice_engine_get_input_devices_def voice_engine_get_output_devices_def Let_def
      dest!: query_devices_D split: prod.splits option.splits)

lemma destroy_same_audio: "same_audio s (voice_engine_destroy s)"
  by (simp add: voice_engine_destroy_def Let_def)

lemma leave_enter_reset:
  "leave_cs ((enter_cs s)\<lparr>g_peers := ps, g_capture_read_idx := r, g_capture_write_idx := w\<rparr>)
    = s\<lparr>g_peers := ps, g_capture_read_idx := r, g_capture_write_idx := w\<rparr>"
  by (simp add: enter_cs_def leave_cs_def)

lemma audio_wf_reset: "audio_wf (s\<lparr>g_peers := reset_peers ps, g_capture_read_idx := 0, g_capture_write_idx := 0\<rparr>)"
  by (simp add: audio_wf_def peers_wf_reset)

lemma audio_wf_context [simp]:
  "audio_wf (ensure_context env t) = audio_wf t" "audio_wf (t\<lparr>g_initialized := b\<rparr>) = audio_wf t"
  by (cases rule: ensure_context_cases [of t env]) (simp_all add: audio_wf_def log_call_def)

lemma init_audio_wf: "audio_wf s \<Longrightarrow> audio_wf (snd (voice_engine_init env c s))"
  by (auto simp: voice_engine_init_def Let_def leave_enter_reset audio_wf_reset split: option.splits)

lemma mic_test_off:
  "voice_engine_set_mic_test_loopback env False s
    = s\<lparr>g_mic_test_loopback := False, g_peers := (g_peers s)(0 := reset_peer (g_peers s 0))\<rparr>"
  by (simp add: voice_engine_set_mic_test_loopback_def Let_def frame_simps)

lemma mic_test_audio_wf: "audio_wf s \<Longrightarrow> audio_wf (voice_engine_set_mic_test_loopback env b s)"
proof (cases b)
  case True
  moreover assume "audio_wf s"
  ultimately show ?thesis
    by (auto simp: voice_engine_set_mic_test_loopback_def Let_def intro: audio_wf_same)
next
  case False
  moreover assume "audio_wf s"
  ultimately show ?thesis by (simp add: mic_test_off audio_wf_def reset_peer_def peers_wf_slot0)
qed

section \<open>Every operation follows the protocol\<close>

lemma leave_enter_id [simp]:
  "leave_cs ((enter_cs s)\<lparr>g_input_device_id := d\<rparr>) = s\<lparr>g_input_device_id := d\<rparr>"
  "leave_cs ((enter_cs s)\<lparr>g_output_device_id := d\<rparr>) = s\<lparr>g_output_device_id := d\<rparr>"
  by (simp_all add: enter_cs_def leave_cs_def)

lemma protocol_ok_upd [simp]:
  "protocol_ok (t\<lparr>g_capturing := b\<rparr>) = protocol_ok t" "protocol_ok (t\<lparr>g_playing := b\<rparr>) = protocol_ok t"
  "protocol_ok (t\<lparr>g_stats := st\<rparr>) = protocol_ok t" "protocol_ok (t\<lparr>g_input_device_id := d\<rparr>) = protocol_ok t"
  "protocol_ok (t\<lparr>g_output_device_id := d\<rparr>) = protocol_ok t" "protocol_ok (t\<lparr>g_initialized := b\<rparr>) = protocol_ok t"
  "protocol_ok (t\<lparr>g_mic_test_loopback := b\<rparr>) = protocol_ok t" "protocol_ok (t\<lparr>g_peers := ps\<rparr>) = protocol_ok t"
  "protocol_ok (t\<lparr>g_config := c\<rparr>) = protocol_ok t" "protocol_ok (destroy_cs t) = protocol_ok t"
  "protocol_ok (t\<lparr>g_capture_read_idx := r\<rparr>) = protocol_ok t"
  "protocol_ok (t\<lparr>g_capture_write_idx := r\<rparr>) = protocol_ok t"
  by (simp_all add: protocol_ok_def proto_at_def proto_claimed_def destroy_cs_def)

lemma start_stop_ok [simp]:
  "protocol_ok s \<Longrightarrow> protocol_ok (voice_engine_start_capture env s)"
  "protocol_ok s \<Longrightarrow> protocol_ok (voice_engine_stop_capture s)"
  "protocol_ok s \<Longrightarrow> protocol_ok (voice_engine_start_playback env s)"
  "protocol_ok s \<Longrightarrow> protocol_ok (voice_engine_stop_playback s)"
  by (simp_all add: voice_engine_start_capture_def voice_engine_stop_capture_def Let_def start_capture_ok
      voice_engine_start_playback_def voice_engine_stop_playback_def start_playback_ok
      stop_hardware_capture_def stop_hardware_playback_def close_device_ok)

lemma set_device_ok:
  "protocol_ok s \<Longrightarrow> protocol_ok (snd (voice_engine_set_input_device env d s))"
  "protocol_ok s \<Longrightarrow> protocol_ok (snd (voice_engine_set_output_device env d s))"
  by (auto simp: voice_engine_set_input_device_def voice_engine_set_output_device_def Let_def
      stop_hardware_capture_def stop_hardware_playback_def close_device_ok start_capture_ok start_playback_ok
      split: option.splits)

lemma log_get_devices_ok:
  "protocol_ok s \<Longrightarrow> g_ma_context_initialized s \<Longrightarrow> protocol_ok (log_call (Get_devices b) s)"
  by (auto simp: protocol_ok_def proto_at_def proto_claimed_def proto_run_append)

lemma get_devices_ok:
  assumes "protocol_ok s"
  shows "protocol_ok (snd (voice_engine_get_input_devices env p m s))"
    "protocol_ok (snd (voice_engine_get_output_devices env p m s))"
  using log_get_devices_ok [OF ensure_context_ok [OF assms], of env] ensure_context_ok [OF assms, of env] assms
  by (auto simp: voice_engine_get_input_devices_def voice_engine_get_output_devices_def Let_def
      dest!: query_devices_D split: prod.splits option.splits)

lemma init_cs_ok [simp]: "protocol_ok s \<Longrightarrow> protocol_ok (init_cs s)"
  by (simp add: init_cs_def protocol_ok_def proto_at_def proto_claimed_def)

lemma init_ok: "protocol_ok s \<Longrightarrow> protocol_ok (snd (voice_engine_init env c s))"
  by (auto simp: voice_engine_init_def Let_def leave_enter_reset ensure_context_ok split: option.splits)

lemma mic_test_ok: "protocol_ok s \<Longrightarrow> protocol_ok (voice_engine_set_mic_test_loopback env b s)"
  by (cases b) (auto simp: voice_engine_set_mic_test_loopback_def [of env True] Let_def mic_test_off)

lemma close_device_simps [simp]:
  "\<not> g_capture_device_initialized (close_device Capture s)"
  "\<not> g_playback_device_initialized (close_device Playback s)"
  "g_capture_device_initialized (close_device Playback s) = g_capture_device_initialized s"
  by (auto simp: close_device_def dev_initialized_def set_dev_initialized_def)

lemma stopped_devices:
  "\<not> g_capture_device_initialized (voice_engine_stop_playback (voice_engine_stop_capture s))"
  "\<not> g_playback_device_initialized (voice_engine_stop_playback (voice_engine_stop_capture s))"
  by (simp_all add: voice_engine_stop_playback_def voice_engine_stop_capture_def Let_def
      stop_hardware_capture_def stop_hardware_playback_def)

lemma context_uninit_ok:
  assumes "protocol_ok s" "g_ma_context_initialized s"
    "\<not> g_capture_device_initialized s" "\<not> g_playback_device_initialized s"
  shows "protocol_ok ((log_call Context_uninit s)\<lparr>g_ma_context_initialized := False\<rparr>)"
  using assms by (simp add: protocol_ok_def proto_at_def proto_claimed_def proto_run_append)

lemma destroy_ok: "protocol_ok s \<Longrightarrow> protocol_ok (voice_engine_destroy s)"
  using stopped_devices [of s] by (auto simp: voice_engine_destroy_def Let_def intro!: context_uninit_ok)

section \<open>The transition system\<close>

text \<open>\<open>vol\<close> restricts the volumes the client may set; \<open>\<lambda>_. True\<close> is no restriction.\<close>

inductive engine_step :: "'i ma_env \<Rightarrow> (f64 \<Rightarrow> f64) \<Rightarrow> (f32 \<Rightarrow> bool) \<Rightarrow> 'i engine \<Rightarrow> 'i engine \<Rightarrow> bool"
  for env lg vol where
  step_init: "engine_step env lg vol s (snd (voice_engine_init env c s))"
| step_destroy: "engine_step env lg vol s (voice_engine_destroy s)"
| step_input_devices: "engine_step env lg vol s (snd (voice_engine_get_input_devices env p m s))"
| step_output_devices: "engine_step env lg vol s (snd (voice_engine_get_output_devices env p m s))"
| step_set_input: "engine_step env lg vol s (snd (voice_engine_set_input_device env d s))"
| step_set_output: "engine_step env lg vol s (snd (voice_engine_set_output_device env d s))"
| step_start_capture: "engine_step env lg vol s (voice_engine_start_capture env s)"
| step_stop_capture: "engine_step env lg vol s (voice_engine_stop_capture s)"
| step_start_playback: "engine_step env lg vol s (voice_engine_start_playback env s)"
| step_stop_playback: "engine_step env lg vol s (voice_engine_stop_playback s)"
| step_ptt: "engine_step env lg vol s (voice_engine_set_ptt_state b s)"
| step_vad_mode: "engine_step env lg vol s (voice_engine_set_vad_mode b thr s)"
| step_mute: "engine_step env lg vol s (voice_engine_set_local_mute b s)"
| step_deafen: "engine_step env lg vol s (voice_engine_set_local_deafen b s)"
| step_volume: "vol v \<Longrightarrow> engine_step env lg vol s (voice_engine_set_user_volume uid v s)"
| step_clear_peers: "engine_step env lg vol s (voice_engine_clear_peers s)"
| step_mic_test: "engine_step env lg vol s (voice_engine_set_mic_test_loopback env b s)"
| step_capture_frame: "voice_engine_capture_frame lg ob max_len lvl spk en s = Some (out, s') \<Longrightarrow>
    engine_step env lg vol s s'"
| step_feed: "engine_step env lg vol s (fst (voice_engine_feed_inbound_packet pkt len s))"
| step_callbacks: "engine_step env lg vol s (voice_engine_register_callbacks sp pr s)"
| step_captured: "engine_step env lg vol s (ma_capture_callback dev pInput n s)"
| step_played: "ma_playback_callback dev pOutput n s = Some (out, s') \<Longrightarrow> engine_step env lg vol s s'"

inductive engine_reachable :: "'i ma_env \<Rightarrow> (f64 \<Rightarrow> f64) \<Rightarrow> (f32 \<Rightarrow> bool) \<Rightarrow> 'i engine \<Rightarrow> bool"
  for env lg vol where
  reach_start: "engine_reachable env lg vol static_init"
| reach_step: "engine_reachable env lg vol s \<Longrightarrow> engine_step env lg vol s t \<Longrightarrow> engine_reachable env lg vol t"

inductive_cases engine_stepE: "engine_step env lg vol s t"
inductive_simps engine_reachable_iff: "engine_reachable env lg vol t"

section \<open>The invariant\<close>

definition engine_inv :: "'i engine \<Rightarrow> bool" where
  "engine_inv s \<longleftrightarrow> audio_wf s \<and> protocol_ok s"

lemma engine_inv_same_hw: "engine_inv s \<Longrightarrow> audio_wf t \<Longrightarrow> same_hw s t \<Longrightarrow> engine_inv t"
  by (auto simp: engine_inv_def intro: protocol_ok_same)

lemma engine_inv_same_audio: "engine_inv s \<Longrightarrow> same_audio s t \<Longrightarrow> protocol_ok t \<Longrightarrow> engine_inv t"
  by (auto simp: engine_inv_def intro: audio_wf_same)

lemma modes_same:
  "same_hw s (voice_engine_set_ptt_state b s)" "same_audio s (voice_engine_set_ptt_state b s)"
  "same_hw s (voice_engine_set_vad_mode b thr s)" "same_audio s (voice_engine_set_vad_mode b thr s)"
  "same_hw s (voice_engine_set_local_mute b s)" "same_audio s (voice_engine_set_local_mute b s)"
  "same_hw s (voice_engine_set_local_deafen b s)" "same_audio s (voice_engine_set_local_deafen b s)"
  "same_hw s (voice_engine_register_callbacks sp pr s)" "same_audio s (voice_engine_register_callbacks sp pr s)"
  by (simp_all add: voice_engine_set_ptt_state_def voice_engine_set_vad_mode_def same_hw_def same_audio_def
      voice_engine_set_local_mute_def voice_engine_set_local_deafen_def voice_engine_register_callbacks_def Let_def)

lemma streaming_audio_wf:
  "audio_wf s \<Longrightarrow> audio_wf (voice_engine_set_user_volume uid v s)"
  "audio_wf s \<Longrightarrow> audio_wf (voice_engine_clear_peers s)"
  "audio_wf s \<Longrightarrow> audio_wf (fst (voice_engine_feed_inbound_packet pkt len s))"
  "audio_wf s \<Longrightarrow> audio_wf (ma_capture_callback dev pInput n s)"
  "audio_wf s \<Longrightarrow> voice_engine_capture_frame lg ob max_len lvl spk en s = Some (out, s') \<Longrightarrow> audio_wf s'"
  "audio_wf s \<Longrightarrow> ma_playback_callback dev pOutput n s = Some (out', s') \<Longrightarrow> audio_wf s'"
proof -
  have v: "capture_valid (voice_engine_set_user_volume uid v s) = capture_valid s"
    "capture_valid (voice_engine_clear_peers s) = capture_valid s"
    by (auto simp: voice_engine_set_user_volume_def voice_engine_clear_peers_def Let_def frame_simps
        split: option.splits)
  assume wf: "audio_wf s"
  then show "audio_wf (voice_engine_set_user_volume uid v s)" "audio_wf (voice_engine_clear_peers s)"
    "audio_wf (fst (voice_engine_feed_inbound_packet pkt len s))"
    "audio_wf (ma_capture_callback dev pInput n s)"
    using v set_user_volume_peers_wf clear_peers_peers_wf feed_peers_wf capture_callback_valid
    by (auto simp: audio_wf_def frame_simps)
  show "voice_engine_capture_frame lg ob max_len lvl spk en s = Some (out, s') \<Longrightarrow> audio_wf s'"
    using wf capture_frame_valid capture_frame_peers_wf unfolding audio_wf_def by blast
  show "ma_playback_callback dev pOutput n s = Some (out', s') \<Longrightarrow> audio_wf s'"
    using wf playback_callback_state [of dev pOutput n s out' s']
    by (auto simp: audio_wf_def advance_peers_wf)
qed

lemmas modes_audio_wf =
  modes_same(2,4,6,8,10) [THEN audio_wf_same [rotated]]

lemmas life_cycle_audio_wf =
  destroy_same_audio [THEN audio_wf_same [rotated]] get_devices_same_audio [THEN audio_wf_same [rotated]]
  set_device_same_audio [THEN audio_wf_same [rotated]]

lemma start_stop_audio_wf:
  assumes "audio_wf s"
  shows "audio_wf (voice_engine_start_capture env s)" "audio_wf (voice_engine_stop_capture s)"
    "audio_wf (voice_engine_start_playback env s)" "audio_wf (voice_engine_stop_playback s)"
  by (rule audio_wf_same [OF assms], simp)+

lemma step_audio_wf: "engine_step env lg vol s t \<Longrightarrow> audio_wf s \<Longrightarrow> audio_wf t"
  by (induction rule: engine_step.induct)
    (simp_all add: init_audio_wf mic_test_audio_wf modes_audio_wf life_cycle_audio_wf start_stop_audio_wf
      streaming_audio_wf(1-4), (rule streaming_audio_wf(5,6); assumption)+)

lemmas same_hw_protocol_ok =
  modes_same(1,3,5,7,9) [THEN protocol_ok_same [rotated]] set_user_volume_same_hw [THEN protocol_ok_same [rotated]]
  clear_peers_same_hw [THEN protocol_ok_same [rotated]] feed_same_hw [THEN protocol_ok_same [rotated]]
  capture_callback_same_hw [THEN protocol_ok_same [rotated]]

lemma step_protocol_ok: "engine_step env lg vol s t \<Longrightarrow> audio_wf s \<Longrightarrow> protocol_ok s \<Longrightarrow> protocol_ok t"
proof (induction rule: engine_step.induct)
  case (step_capture_frame ob max_len lvl spk en s out s')
  then show ?case using capture_frame_same_hw protocol_ok_same unfolding audio_wf_def by blast
next
  case (step_played dev pOutput n s out s')
  then show ?case using playback_callback_state [OF step_played(1)] by (auto simp: audio_wf_def)
qed (simp_all add: init_ok destroy_ok get_devices_ok set_device_ok mic_test_ok same_hw_protocol_ok)

lemma engine_step_inv: "engine_step env lg vol s t \<Longrightarrow> engine_inv s \<Longrightarrow> engine_inv t"
  by (simp add: engine_inv_def step_audio_wf step_protocol_ok)

lemma engine_inv_static: "engine_inv static_init"
proof -
  have "audio_wf static_init" using peers_wf_zero by (simp add: audio_wf_def static_init_def)
  then show ?thesis by (simp add: engine_inv_def protocol_ok_static)
qed

lemma reachable_inv: "engine_reachable env lg vol s \<Longrightarrow> engine_inv s"
  by (induction rule: engine_reachable.induct) (simp_all add: engine_inv_static engine_step_inv)

section \<open>Volumes\<close>

definition volumes_ok :: "'i engine \<Rightarrow> bool" where
  "volumes_ok s \<longleftrightarrow> (\<forall>i < 32. is_active (g_peers s i) \<longrightarrow> gain_ok (user_volume (g_peers s i)))"

lemma gain_ok_1 [simp]: "gain_ok (Fin 1)"
  by (simp add: gain_ok_def)

lemma volumes_gains_ok: "volumes_ok s \<Longrightarrow> gains_ok lb (g_peers s)"
  by (simp add: volumes_ok_def gains_ok_def audible_def)

lemma volumes_ok_same: "volumes_ok s \<Longrightarrow> g_peers t = g_peers s \<Longrightarrow> volumes_ok t"
  by (simp add: volumes_ok_def)

lemma volumes_ok_same_audio: "volumes_ok s \<Longrightarrow> same_audio s t \<Longrightarrow> volumes_ok t"
  by (simp add: volumes_ok_def same_audio_def)

lemma volumes_ok_upd:
  "volumes_ok s \<Longrightarrow> (is_active p \<Longrightarrow> gain_ok (user_volume p)) \<Longrightarrow> g_peers t = (g_peers s)(i := p) \<Longrightarrow> volumes_ok t"
  by (auto simp: volumes_ok_def)

lemma volumes_ok_reset: "g_peers t = reset_peers ps \<Longrightarrow> volumes_ok t"
  by (simp add: volumes_ok_def reset_peers_def reset_peer_def MAX_PEERS_def)

lemma set_user_volume_peers:
  "g_peers (voice_engine_set_user_volume uid v s) = g_peers s
   \<or> (\<exists>i p. user_volume p = v \<and> g_peers (voice_engine_set_user_volume uid v s) = (g_peers s)(i := p))"
  by (auto simp: voice_engine_set_user_volume_def Let_def frame_simps split: option.split)
    (metis PeerStream.select_convs(4) PeerStream.update_convs(4) PeerStream.surjective alloc_peer_simps(3))+

lemma set_user_volume_ok:
  assumes "volumes_ok s" "gain_ok v"
  shows "volumes_ok (voice_engine_set_user_volume uid v s)"
  using set_user_volume_peers [of uid v s] assms
  by (auto intro: volumes_ok_same volumes_ok_upd)

lemma feed_volumes_ok:
  assumes "volumes_ok s"
  shows "volumes_ok (fst (voice_engine_feed_inbound_packet pkt len s))"
proof (cases pkt)
  case None
  then show ?thesis using assms by (simp add: voice_engine_feed_inbound_packet_def)
next
  case (Some b)
  show ?thesis
  proof (cases "inbound_accepted b len")
    case False
    then show ?thesis using Some by (intro volumes_ok_same [OF assms]) (simp add: feed_rejected)
  next
    case True
    have peers: "g_peers (fst (voice_engine_feed_inbound_packet (Some b) len s)) =
        (case snd (peer_for_sender (hdr_sender b) (g_peers s)) of None \<Rightarrow> fst (peer_for_sender (hdr_sender b) (g_peers s))
         | Some i \<Rightarrow> (fst (peer_for_sender (hdr_sender b) (g_peers s)))
                     (i := buffer_payload b (fst (peer_for_sender (hdr_sender b) (g_peers s)) i)))"
      using feed_accepted [OF True, of s] by (simp add: prod_eq_iff)
    show ?thesis
    proof (cases rule: peer_for_sender_cases [of "g_peers s" "hdr_sender b"])
      case (known i)
      then show ?thesis
        using assms find_peer_SomeD [OF known(1)] peers Some
        by (intro volumes_ok_upd [OF assms, of "buffer_payload b (g_peers s i)" _ i]) (auto simp: frame_simps volumes_ok_def)
    next
      case (fresh i)
      then show ?thesis
        using peers Some
        by (intro volumes_ok_upd [OF assms, of "buffer_payload b (alloc_peer (hdr_sender b) (Fin 1) (g_peers s i))" _ i])
          (auto simp: frame_simps)
    next
      case full
      then show ?thesis using peers Some by (intro volumes_ok_same [OF assms]) simp
    qed
  qed
qed

lemma capture_frame_volumes_ok:
  assumes "voice_engine_capture_frame lg ob max_len lvl spk en s = Some (out, s')" "audio_wf s" "volumes_ok s"
  shows "volumes_ok s'"
proof -
  have "capture_valid s" using assms(2) by (simp add: audio_wf_def)
  then obtain pcm where "g_peers s' = g_peers s \<or>
      g_peers s' = (g_peers s)(0 := fold peer_put pcm ((g_peers s 0)\<lparr>user_id := 999999, is_active := True, user_volume := Fin 1\<rparr>))"
    using capture_frame_state [OF assms(1)] by (force simp: loopback_frame_eq count_sent_def set_level_stats_def)
  then show ?thesis
  proof
    assume "g_peers s' = g_peers s"
    then show ?thesis by (rule volumes_ok_same [OF assms(3)])
  next
    assume "g_peers s' = (g_peers s)(0 := fold peer_put pcm ((g_peers s 0)\<lparr>user_id := 999999, is_active := True, user_volume := Fin 1\<rparr>))"
    then show ?thesis by (rule volumes_ok_upd [OF assms(3), rotated]) (simp add: frame_simps)
  qed
qed

lemma advance_volumes_ok: "volumes_ok s \<Longrightarrow> volumes_ok (s\<lparr>g_peers := advance lb k (g_peers s)\<rparr>)"
  by (simp add: volumes_ok_def advance_def frame_simps)

lemma mic_test_volumes_ok: "volumes_ok s \<Longrightarrow> volumes_ok (voice_engine_set_mic_test_loopback env b s)"
proof (cases b)
  case True
  moreover assume "volumes_ok s"
  ultimately show ?thesis
    by (auto simp: voice_engine_set_mic_test_loopback_def Let_def intro: volumes_ok_same_audio)
next
  case False
  moreover assume "volumes_ok s"
  ultimately show ?thesis
    by (simp add: mic_test_off) (erule volumes_ok_upd [where i = 0 and p = "reset_peer (g_peers s 0)"]; simp add: reset_peer_def)
qed

lemmas modes_volumes_ok = modes_same(2,4,6,8,10) [THEN volumes_ok_same_audio [rotated]]

lemmas life_cycle_volumes_ok =
  destroy_same_audio [THEN volumes_ok_same_audio [rotated]] get_devices_same_audio [THEN volumes_ok_same_audio [rotated]]
  set_device_same_audio [THEN volumes_ok_same_audio [rotated]]

lemma start_stop_volumes_ok:
  assumes "volumes_ok s"
  shows "volumes_ok (voice_engine_start_capture env s)" "volumes_ok (voice_engine_stop_capture s)"
    "volumes_ok (voice_engine_start_playback env s)" "volumes_ok (voice_engine_stop_playback s)"
  by (rule volumes_ok_same_audio [OF assms], simp)+

lemma init_volumes_ok: "volumes_ok s \<Longrightarrow> volumes_ok (snd (voice_engine_init env c s))"
proof (cases c)
  case (Some cfg)
  have ctx: "g_peers (ensure_context env t) = g_peers t" for t
    by (cases rule: ensure_context_cases [of t env]) (simp_all add: log_call_def)
  show ?thesis
    using Some by (auto simp: voice_engine_init_def Let_def leave_enter_reset ctx intro: volumes_ok_reset)
qed (simp add: voice_engine_init_def)

lemma step_volumes_ok:
  "engine_step env lg gain_ok s t \<Longrightarrow> audio_wf s \<Longrightarrow> volumes_ok s \<Longrightarrow> volumes_ok t"
proof (induction rule: engine_step.induct)
  case (step_clear_peers s)
  show ?case by (rule volumes_ok_reset) (simp add: voice_engine_clear_peers_def Let_def frame_simps)
next
  case (step_capture_frame ob max_len lvl spk en s out s')
  then show ?case by (rule capture_frame_volumes_ok)
next
  case (step_played dev pOutput n s out s')
  then show ?case using playback_callback_state [OF step_played(1)] by (auto simp: audio_wf_def advance_volumes_ok)
next
  case (step_captured s dev pInput n)
  then show ?case by (auto intro: volumes_ok_same simp: frame_simps)
qed (simp_all add: init_volumes_ok modes_volumes_ok life_cycle_volumes_ok start_stop_volumes_ok mic_test_volumes_ok
    set_user_volume_ok feed_volumes_ok)

lemma reachable_volumes_ok: "engine_reachable env lg gain_ok s \<Longrightarrow> volumes_ok s"
proof (induction rule: engine_reachable.induct)
  case reach_start
  show ?case by (simp add: volumes_ok_def static_init_def zero_peer_def)
next
  case (reach_step s t)
  then show ?case using step_volumes_ok reachable_inv unfolding engine_inv_def by blast
qed

lemma destroy_flags:
  "\<not> g_ma_context_initialized (voice_engine_destroy s)" "\<not> g_initialized (voice_engine_destroy s)"
  "\<not> g_capturing (voice_engine_destroy s)" "\<not> g_playing (voice_engine_destroy s)"
  "\<not> g_capture_device_initialized (voice_engine_destroy s)"
  "\<not> g_playback_device_initialized (voice_engine_destroy s)"
proof -
  have c: "g_capturing (close_device k t) = g_capturing t" "g_playing (close_device k t) = g_playing t" for k and t :: "'a engine"
    by (cases k; simp add: close_device_def set_dev_initialized_def log_call_def)+
  show "\<not> g_ma_context_initialized (voice_engine_destroy s)" "\<not> g_initialized (voice_engine_destroy s)"
    "\<not> g_capturing (voice_engine_destroy s)" "\<not> g_playing (voice_engine_destroy s)"
    "\<not> g_capture_device_initialized (voice_engine_destroy s)"
    "\<not> g_playback_device_initialized (voice_engine_destroy s)"
    using stopped_devices [of s]
    by (simp_all add: voice_engine_destroy_def Let_def destroy_cs_def voice_engine_stop_playback_def
        voice_engine_stop_capture_def stop_hardware_capture_def stop_hardware_playback_def c log_call_def)
qed

section \<open>Properties\<close>

text \<open>A backend with one microphone and one speaker on which everything succeeds, and an engine
  brought up on it, for the witnesses.\<close>

definition demo_env :: "nat ma_env" where
  "demo_env = \<lparr>env_context_init = (\<lambda>_. True),
     env_get_devices = (\<lambda>_. Some ([\<lparr>info_id = 20, info_name = ''speaker'', info_isDefault = True\<rparr>],
                                  [\<lparr>info_id = 10, info_name = ''mic'', info_isDefault = True\<rparr>])),
     env_device_init = (\<lambda>_ _ _. True), env_device_start = (\<lambda>_ _. True), env_scan_overflow = (\<lambda>_. 0)\<rparr>"

definition demo_engine :: "nat engine" where
  "demo_engine = voice_engine_start_capture demo_env (snd (voice_engine_init demo_env (Some zero_config) static_init))"

lemma demo_reachable: "engine_reachable demo_env lg vol demo_engine"
  unfolding demo_engine_def
  by (rule reach_step [OF reach_step [OF reach_start step_init] step_start_capture])

text \<open>C6: Whatever the client calls and whatever the audio thread does, in any order from program
  start: every ring index stays inside its 32768-slot buffer, an active remote slot has a non-zero
  user and no user has two slots, and the audio mutex is released when the call returns.\<close>

theorem engine_memory_safe:
  assumes "engine_reachable env lg vol s"
  shows "unat (g_capture_read_idx s) < 32768 \<and> unat (g_capture_write_idx s) < 32768 \<and>
    (\<forall>i < 32. unat (read_idx (g_peers s i)) < 32768 \<and> unat (write_idx (g_peers s i)) < 32768) \<and>
    (\<forall>i < 32. \<forall>j < 32. 0 < i \<and> 0 < j \<and> is_active (g_peers s i) \<and> is_active (g_peers s j) \<and>
       user_id (g_peers s i) = user_id (g_peers s j) \<longrightarrow> i = j \<and> user_id (g_peers s i) \<noteq> 0) \<and>
    mutex_depth s = 0"
  using reachable_inv [OF assms]
  by (auto simp: engine_inv_def audio_wf_def protocol_ok_def peers_wf_def ring_valid_def)

lemma engine_memory_safe_witness: "unat (g_capture_write_idx demo_engine) < 32768 \<and> mutex_depth demo_engine = 0"
  using engine_memory_safe [OF demo_reachable] by blast

text \<open>C7: No undefined behaviour in the audio path. If the client only sets finite volumes of
  magnitude at most 2^100, then in every reachable state both \<open>capture_frame\<close>, with any arguments,
  and the playback callback, for any device whose buffer has fewer than 2^32 samples, return.\<close>

theorem engine_defined:
  assumes "libm_log10 lg" "engine_reachable env lg gain_ok s"
    and "unat n * unat (callback_channels dev) < 2 ^ 32"
  shows "voice_engine_capture_frame lg ob max_len lvl spk en s \<noteq> None \<and>
    ma_playback_callback dev pOutput n s \<noteq> None"
proof -
  have inv: "capture_valid s" "peers_wf (g_peers s)"
    using reachable_inv [OF assms(2)] by (auto simp: engine_inv_def audio_wf_def)
  obtain ys where ys: "limit_samples (map (mix_value (g_mic_test_loopback s) (g_peers s)) [0..<unat n]) = Some ys"
    using limit_samples_mix_defined [OF volumes_gains_ok [OF reachable_volumes_ok [OF assms(2)]]] by blast
  have play: "ma_playback_callback dev (Some out) n s \<noteq> None" for out
  proof (cases "n = 0 \<or> \<not> g_playing s \<or> g_local_deafened s")
    case True
    then show ?thesis
      using playback_callback_silent [of s n dev out] assms(3) by (cases "n = 0") (auto simp: ma_playback_callback_def)
  next
    case False
    then show ?thesis using playback_callback_eq [OF inv(2) _ _ _ assms(3), of out] ys by simp
  qed
  show ?thesis
    using capture_frame_defined [OF assms(1) inv(1), of ob max_len lvl spk en] play
    by (cases pOutput) (auto simp: ma_playback_callback_def)
qed

lemma engine_defined_witness:
  "voice_engine_capture_frame log10_rounded (Some []) 1920 None None None demo_engine \<noteq> None \<and>
    ma_playback_callback (Some 8) (Some (\<lambda>_. 0)) 480 demo_engine \<noteq> None"
  by (rule engine_defined [OF log10_cr.libm_log10_axioms demo_reachable]) (simp add: callback_channels_def)

text \<open>C8: The engine follows miniaudio's protocol, whatever the backend answers. In every reachable
  state the calls made so far are a run of the automaton: no context is initialised twice, no device
  is initialised without a context or over a live device, none is started, stopped or uninitialised
  that does not exist; the run ends with exactly the objects the three flags claim. No call was made
  while the audio mutex was held, so stopping a device cannot deadlock with its callback.\<close>

theorem miniaudio_protocol:
  assumes "engine_reachable env lg vol s"
  shows "proto_run (ma_log s) proto_start = Some \<lparr>p_ctx = g_ma_context_initialized s,
      p_cap = (if g_capture_device_initialized s then Running else Absent),
      p_play = (if g_playback_device_initialized s then Running else Absent)\<rparr> \<and>
    (\<forall>(depth, c) \<in> set (ma_log s). depth = 0)"
  using reachable_inv [OF assms] by (simp add: engine_inv_def protocol_ok_def proto_at_def proto_claimed_def)

lemma miniaudio_protocol_witness:
  "proto_run (ma_log demo_engine) proto_start = Some \<lparr>p_ctx = g_ma_context_initialized demo_engine,
      p_cap = (if g_capture_device_initialized demo_engine then Running else Absent),
      p_play = (if g_playback_device_initialized demo_engine then Running else Absent)\<rparr>"
  using miniaudio_protocol [OF demo_reachable] by blast

text \<open>C9: Nothing leaks. After \<open>voice_engine_destroy\<close> in any reachable state every device and the
  context have been uninitialised, and the engine's flags say so.\<close>

theorem destroy_releases:
  assumes "engine_reachable env lg vol s"
  shows "proto_run (ma_log (voice_engine_destroy s)) proto_start = Some proto_start \<and>
    \<not> g_ma_context_initialized (voice_engine_destroy s) \<and> \<not> g_initialized (voice_engine_destroy s) \<and>
    \<not> g_capturing (voice_engine_destroy s) \<and> \<not> g_playing (voice_engine_destroy s)"
proof -
  have "protocol_ok (voice_engine_destroy s)"
    using reachable_inv [OF assms] by (simp add: engine_inv_def destroy_ok)
  then show ?thesis
    using stopped_devices [of s] destroy_flags [of s]
    by (simp add: protocol_ok_def proto_at_def proto_claimed_def proto_start_def)
qed

lemma destroy_releases_witness:
  "proto_run (ma_log (voice_engine_destroy demo_engine)) proto_start = Some proto_start"
  using destroy_releases [OF demo_reachable] by blast

text \<open>C32: Muting does not discard what the microphone hears. While the user is muted the audio thread
  keeps queueing samples and \<open>capture_frame\<close> answers with silence without taking them; so the first
  frame after unmuting consists of audio recorded while the user was muted.\<close>

theorem muted_audio_is_sent_later:
  assumes "libm_log10 lg" "capture_valid s" "g_capturing s" "g_local_muted s" "capture_pending s = []"
    and "length xs = 960"
  shows "\<exists>out1 s1 out2 s2.
    voice_engine_capture_frame lg (Some buf) 1920 None None None
      (ma_capture_callback None (Some (\<lambda>i. xs ! i)) 960 s) = Some (out1, s1) \<and>
    co_buffer out1 = Some (bytes_of_samples (replicate 960 0) @ drop 1920 buf) \<and>
    voice_engine_capture_frame lg (Some buf) 1920 None None None (voice_engine_set_local_mute False s1) = Some (out2, s2) \<and>
    co_buffer out2 = Some (bytes_of_samples xs @ drop 1920 buf)"
proof -
  let ?s1 = "set_level_stats (Fin (- 90)) False (fold capture_put xs s)"
  let ?s2 = "voice_engine_set_local_mute False ?s1"
  have xs: "captured 1 (\<lambda>i. xs ! i) 960 = xs" using assms(6) by (simp add: captured_def map_nth [of xs, unfolded assms(6)])
  have muted: "g_local_muted (fold capture_put xs s)" "g_capturing (fold capture_put xs s)"
    using fold_capture_put_modes [of xs s] assms(3,4) by simp_all
  have one: "voice_engine_capture_frame lg (Some buf) 1920 None None None
      (ma_capture_callback None (Some (\<lambda>i. xs ! i)) 960 s) =
      Some (frame_out (replicate 960 0) (Fin (- 90)) False 0 buf None None None, ?s1)"
    using muted assms(3) by (simp add: capture_callback_eq xs capture_frame_silent)
  have pend: "capture_pending ?s2 = xs" "capture_valid ?s2"
    using capture_queue.contents_fold [OF assms(2), of xs] capture_queue.valid_fold [OF assms(2), of xs] assms(5,6)
    by (simp_all add: voice_engine_set_local_mute_def)
  have rdy: "capture_ready 1920 ?s2"
    using muted by (simp add: capture_ready_def voice_engine_set_local_mute_def set_level_stats_def)
  obtain speaking left where "vad_step (g_vad_mode ?s2) (g_vad_threshold ?s2) (vad_hangover_ms (g_config ?s2))
      (g_ptt_pressed ?s2) (frame_dbfs lg (take 960 (capture_pending ?s2))) (g_hangover_ms_left ?s2) = (speaking, left)"
    by fastforce
  from capture_frame_live_eq [OF assms(1) pend(2) rdy _ this, of buf None None None]
  obtain d energy s2 where "voice_engine_capture_frame lg (Some buf) 1920 None None None ?s2 =
      Some (frame_out xs d speaking energy buf None None None, s2)"
    using assms(6) unfolding pend(1) by auto
  then show ?thesis using one assms(6) by (auto simp: frame_out_def write_bytes_def)
qed

lemma muted_audio_is_sent_later_witness:
  "\<exists>out1 s1 out2 s2.
    voice_engine_capture_frame log10_rounded (Some []) 1920 None None None
      (ma_capture_callback None (Some (\<lambda>i. replicate 960 77 ! i)) 960 ((recorded [])\<lparr>g_local_muted := True\<rparr>)) = Some (out1, s1) \<and>
    voice_engine_capture_frame log10_rounded (Some []) 1920 None None None (voice_engine_set_local_mute False s1) = Some (out2, s2) \<and>
    co_buffer out2 = Some (bytes_of_samples (replicate 960 77))"
  using muted_audio_is_sent_later [OF log10_cr.libm_log10_axioms, of "(recorded [])\<lparr>g_local_muted := True\<rparr>" "replicate 960 77" "[]"]
    recorded_pending [of "[]"] by auto

text \<open>\<open>voice_engine_init\<close> starts from a clean slate: for every configuration the call returns 0,
  the capture queue and all streams are empty and inactive, the level is -90 dB, the counters are 0,
  and every zero field of the configuration has its default. But the voice-activity threshold of the
  configuration is not used: the threshold the detector compares with is whatever it was before.\<close>

theorem init_clean_slate:
  "fst (voice_engine_init env (Some c) s) = 0 \<and>
   capture_pending (snd (voice_engine_init env (Some c) s)) = [] \<and>
   (\<forall>i < 32. \<not> is_active (g_peers (snd (voice_engine_init env (Some c) s)) i) \<and>
      peer_pending (g_peers (snd (voice_engine_init env (Some c) s)) i) = []) \<and>
   g_stats (snd (voice_engine_init env (Some c) s)) = zero_stats\<lparr>input_level_db := Fin (- 90)\<rparr> \<and>
   g_config (snd (voice_engine_init env (Some c) s)) = config_defaults c \<and>
   0 < sample_rate (config_defaults c) \<and> 0 < channels (config_defaults c) \<and>
   g_vad_threshold (snd (voice_engine_init env (Some c) s)) = g_vad_threshold s"
proof -
  have ctx: "g_peers (ensure_context env t) = g_peers t" "g_stats (ensure_context env t) = g_stats t"
    "g_config (ensure_context env t) = g_config t" "g_vad_threshold (ensure_context env t) = g_vad_threshold t"
    "capture_pending (ensure_context env t) = capture_pending t" for t
    by (cases rule: ensure_context_cases [of t env]; simp add: log_call_def)+
  have e: "ring_contents b 0 0 = []" for b by (simp add: ring_contents_empty_iff)
  have th: "g_vad_threshold (init_cs s) = g_vad_threshold s" by (simp add: init_cs_def)
  show ?thesis
    by (simp add: voice_engine_init_def Let_def leave_enter_reset ctx e th config_defaults_def word_neq_0_conv
        reset_peers_def reset_peer_def MAX_PEERS_def)
qed

lemma init_clean_slate_witness:
  "\<not> is_active (g_peers (snd (voice_engine_init demo_env (Some zero_config) demo_engine)) 31) \<and>
   g_vad_threshold (snd (voice_engine_init demo_env (Some (zero_config\<lparr>vad_threshold_db := Fin (- 30)\<rparr>)) demo_engine))
     = g_vad_threshold demo_engine"
  using init_clean_slate [of demo_env zero_config demo_engine]
    init_clean_slate [of demo_env "zero_config\<lparr>vad_threshold_db := Fin (- 30)\<rparr>" demo_engine] by auto

text \<open>Switching the microphone while capturing closes the old device before it opens the new one,
  and opens the one that was asked for: the five calls made are stop, uninit, enumerate, init with
  the device resolved from the stored identifier and the configured format, and start.\<close>

theorem switch_microphone:
  assumes "g_capture_device_initialized s" "g_capturing s" "g_ma_context_initialized s" "mutex_depth s = 0"
    and "env_get_devices env (calls s + 2) = Some (playback, capture)"
    and "\<And>n cfg. env_device_init env n Capture cfg" "\<And>n. env_device_start env n Capture"
  shows "ma_log (snd (voice_engine_set_input_device env (Some d) s)) = ma_log s @
    [(0, Device_stop Capture), (0, Device_uninit Capture), (0, Get_devices True),
     (0, Device_init Capture
        (device_config (find_capture_device_id (env_scan_overflow env) (Some (take 127 d)) capture) s) True),
     (0, Device_start Capture True)] \<and>
    g_capture_device_initialized (snd (voice_engine_set_input_device env (Some d) s))"
proof -
  let ?s1 = "s\<lparr>g_input_device_id := take 127 d\<rparr>"
  let ?s2 = "close_device Capture ?s1"
  have s2: "\<not> g_capture_device_initialized ?s2" "g_ma_context_initialized ?s2" "mutex_depth ?s2 = 0"
    "ma_log ?s2 = ma_log s @ [(0, Device_stop Capture), (0, Device_uninit Capture)]"
    "g_input_device_id ?s2 = take 127 d" "g_config ?s2 = g_config s" "calls ?s2 = calls s + 2"
    using assms(1-4) by (simp_all add: close_device_def dev_initialized_def set_dev_initialized_def log_call_def)
  have "snd (voice_engine_set_input_device env (Some d) s) = start_hardware_capture env ?s2"
    using assms(2) by (simp add: voice_engine_set_input_device_def Let_def strncpy_term_def stop_hardware_capture_def)
  also have "\<dots> = open_device env Capture
      (device_config (find_capture_device_id (env_scan_overflow env) (Some (take 127 d)) capture) s)
      (log_call (Get_devices True) ?s2)"
    using s2 assms(5)
    by (simp add: start_hardware_capture_def ensure_context_def query_devices_def Let_def log_call_def device_config_def)
  finally show ?thesis
    using s2 assms(6,7) by (simp add: open_device_def Let_def set_dev_initialized_def log_call_def)
qed

lemma switch_microphone_witness:
  "map snd (drop (calls demo_engine) (ma_log (snd (voice_engine_set_input_device demo_env (Some ''dev_in_0'') demo_engine)))) =
    [Device_stop Capture, Device_uninit Capture, Get_devices True,
     Device_init Capture \<lparr>dc_channels = 1, dc_sample_rate = 48000, dc_device_id = Some 10\<rparr> True, Device_start Capture True]"
proof -
  have d: "g_capture_device_initialized demo_engine" "g_capturing demo_engine" "g_ma_context_initialized demo_engine"
    "mutex_depth demo_engine = 0" "channels (g_config demo_engine) = 1" "sample_rate (g_config demo_engine) = 48000"
    by (simp_all add: demo_engine_def demo_env_def voice_engine_init_def voice_engine_start_capture_def
        start_hardware_capture_def ensure_context_def query_devices_def open_device_def Let_def static_init_def
        log_call_def set_dev_initialized_def init_cs_def enter_cs_def leave_cs_def config_defaults_def zero_config_def)
  have f: "find_capture_device_id (env_scan_overflow demo_env) (Some (take 127 ''dev_in_0''))
      [\<lparr>info_id = 10 :: nat, info_name = ''mic'', info_isDefault = True\<rparr>] = Some 10"
    using find_capture_listed [of 0 "[\<lparr>info_id = 10 :: nat, info_name = ''mic'', info_isDefault = True\<rparr>]"]
    by (simp add: show_nat.simps char_of_def bit_0)
  show ?thesis
    using switch_microphone [OF d(1-4), of demo_env _ _ "''dev_in_0''"] d(5,6) f
    by (simp add: demo_env_def device_config_def)
qed

end
