(* ===== verification/Ma_Device.thy ===== *)
theory Ma_Device
  imports Prelude
begin

text \<open>
  The life cycle of a miniaudio device (\<open>ma_device_start\<close>, \<open>ma_device_stop\<close>, \<open>ma_device_uninit\<close>, the
  end of \<open>ma_device_init__internal\<close> and \<open>ma_worker_thread\<close> in src/client/native/miniaudio.h) as a
  transition system: any number of client threads and the device's worker thread, each with a program
  counter, moving one access to shared state at a time. The engine's Protocol theory takes the calls as
  atomic; here they are not. Backend callbacks are parameters: which of them exist is the record
  \<open>dev_cfg\<close>, what they return is chosen by the environment at each step. A data loop that leaves for
  another reason than the device's state (an error of a read or write) is a fault of the model, and the
  theorems say whether they allow it.
\<close>

section \<open>State\<close>

datatype ma_device_state = Uninitialized | Stopped | Started | Starting | Stopping

abbreviation (input) MA_SUCCESS :: i32 where "MA_SUCCESS \<equiv> 0"
abbreviation (input) MA_INVALID_OPERATION :: i32 where "MA_INVALID_OPERATION \<equiv> - 3"

text \<open>Where the worker thread is; \<open>W_none\<close> before it is created, and for asynchronous backends.\<close>

datatype worker_pc =
    W_none | W_init | W_init_signal | W_wait | W_reset | W_check_quit | W_assert | W_start | W_start_failed
  | W_set_started | W_signal_started | W_notify | W_loop | W_body | W_stop | W_check | W_set_stopped
  | W_signal_stopped | W_exit

text \<open>Where a client thread is; \<open>Returned\<close> outside of any call.\<close>

datatype dev_call = Call_none | Call_init | Call_start | Call_stop

datatype client_pc =
    Returned dev_call i32
  | Init_create | Init_wait | Init_assert | Init_set_stopped
  | Start_check_uninit | Start_check_started | Start_lock | Start_recheck | Start_assert | Start_set_starting
  | Start_backend | Start_set_started | Start_wakeup | Start_wait | Start_result | Start_finish i32 | Start_unlock i32
  | Stop_check_uninit | Stop_check_stopped | Stop_lock | Stop_recheck | Stop_assert | Stop_set_stopping
  | Stop_backend | Stop_set_stopped i32 | Stop_assert_not_started | Stop_wakeup | Stop_wait
  | Stop_clear i32 | Stop_unlock i32
  | Uninit_check | Uninit_set | Uninit_signal | Uninit_join | Uninit_backend | Destroyed

text \<open>Which backend callbacks exist.\<close>

record dev_cfg =
  onDeviceRead :: bool
  onDeviceWrite :: bool
  onDeviceDataLoop :: bool
  onDeviceStart :: bool
  onDeviceStop :: bool

definition ma_context_is_backend_asynchronous :: "dev_cfg \<Rightarrow> bool" where
  "ma_context_is_backend_asynchronous cfg =
    (if \<not> onDeviceRead cfg \<and> \<not> onDeviceWrite cfg then
       (if \<not> onDeviceDataLoop cfg then True else False)
     else False)"

abbreviation "async \<equiv> ma_context_is_backend_asynchronous"

text \<open>The miniaudio fields of the life cycle, the two kinds of threads, and one ghost: \<open>backend_on\<close> is
  set by a successful start of the backend and cleared when it is told to stop.\<close>

record ma_device =
  state :: ma_device_state
  wakeupEvent :: bool
  startEvent :: bool
  stopEvent :: bool
  startStopLock :: "nat option"
  workResult :: i32
  intermediaryBufferLen :: u32
  inputCacheConsumed :: u32
  inputCacheRemaining :: u32
  worker :: worker_pc
  clients :: "client_pc list"
  backend_on :: bool

definition ma_device__set_state :: "ma_device_state \<Rightarrow> ma_device \<Rightarrow> ma_device" where
  "ma_device__set_state s d = d\<lparr>state := s\<rparr>"

definition ma_device_get_state :: "ma_device option \<Rightarrow> ma_device_state" where
  "ma_device_get_state d = (case d of None \<Rightarrow> Uninitialized | Some d \<Rightarrow> state d)"

definition ma_device_is_started :: "ma_device option \<Rightarrow> bool" where
  "ma_device_is_started d \<longleftrightarrow> ma_device_get_state d = Started"

definition ma_device__is_initialized :: "ma_device option \<Rightarrow> bool" where
  "ma_device__is_initialized d \<longleftrightarrow>
    (case d of None \<Rightarrow> False | Some _ \<Rightarrow> ma_device_get_state d \<noteq> Uninitialized)"

text \<open>An event is the flag \<open>value\<close> under its own lock: a signal sets it, a wait blocks until it is set
  and resets it (\<open>None\<close> while it would block).\<close>

definition ma_event_signal :: "((bool \<Rightarrow> bool) \<Rightarrow> 'd \<Rightarrow> 'd) \<Rightarrow> 'd \<Rightarrow> 'd" where
  "ma_event_signal upd d = upd (\<lambda>_. True) d"

definition ma_event_wait :: "('d \<Rightarrow> bool) \<Rightarrow> ((bool \<Rightarrow> bool) \<Rightarrow> 'd \<Rightarrow> 'd) \<Rightarrow> 'd \<Rightarrow> 'd option" where
  "ma_event_wait val upd d = (if val d then Some (upd (\<lambda>_. False) d) else None)"

section \<open>The worker thread\<close>

text \<open>One step of \<open>ma_worker_thread\<close>. \<open>fault\<close>: the data loop leaves by itself; \<open>r\<close>: what the backend
  returns; \<open>(x, y, z)\<close>: what an iteration of the loop leaves in the playback caches. An iteration
  itself starts with \<open>worker_iterate\<close>.\<close>

definition worker_step :: "dev_cfg \<Rightarrow> bool \<Rightarrow> i32 \<Rightarrow> u32 \<times> u32 \<times> u32 \<Rightarrow> ma_device \<Rightarrow> ma_device option" where
  "worker_step cfg fault r = (\<lambda>(x, y, z) d. case worker d of
     W_none \<Rightarrow> None
   | W_init \<Rightarrow> Some ((ma_device__set_state Stopped d)\<lparr>worker := W_init_signal\<rparr>)
   | W_init_signal \<Rightarrow> Some ((ma_event_signal stopEvent_update d)\<lparr>worker := W_wait\<rparr>)
   | W_wait \<Rightarrow> map_option (worker_update (\<lambda>_. W_reset)) (ma_event_wait wakeupEvent wakeupEvent_update d)
   | W_reset \<Rightarrow> Some (d\<lparr>workResult := MA_SUCCESS, worker := W_check_quit\<rparr>)
   | W_check_quit \<Rightarrow>
       if ma_device_get_state (Some d) = Uninitialized then Some (d\<lparr>worker := W_exit\<rparr>)
       else Some (d\<lparr>worker := W_assert\<rparr>)
   | W_assert \<Rightarrow> Some (d\<lparr>worker := W_start\<rparr>)
   | W_start \<Rightarrow>
       let startResult = (if onDeviceStart cfg then r else MA_SUCCESS) in
       if startResult \<noteq> MA_SUCCESS then Some (d\<lparr>workResult := startResult, worker := W_start_failed\<rparr>)
       else Some (d\<lparr>backend_on := True, worker := W_set_started\<rparr>)
   | W_start_failed \<Rightarrow> Some ((ma_event_signal startEvent_update d)\<lparr>worker := W_wait\<rparr>)
   | W_set_started \<Rightarrow> Some ((ma_device__set_state Started d)\<lparr>worker := W_signal_started\<rparr>)
   | W_signal_started \<Rightarrow> Some ((ma_event_signal startEvent_update d)\<lparr>worker := W_notify\<rparr>)
   | W_notify \<Rightarrow> Some (d\<lparr>worker := W_loop\<rparr>)
   | W_loop \<Rightarrow> if ma_device_get_state (Some d) \<noteq> Started \<or> fault then Some (d\<lparr>worker := W_stop\<rparr>) else None
   | W_body \<Rightarrow> Some (d\<lparr>intermediaryBufferLen := x, inputCacheConsumed := y, inputCacheRemaining := z, worker := W_loop\<rparr>)
   | W_stop \<Rightarrow> Some (d\<lparr>backend_on := False, worker := W_check\<rparr>)
   | W_check \<Rightarrow>
       if ma_device_get_state (Some d) = Uninitialized then Some (d\<lparr>worker := W_exit\<rparr>)
       else Some (d\<lparr>worker := W_set_stopped\<rparr>)
   | W_set_stopped \<Rightarrow> Some ((ma_device__set_state Stopped d)\<lparr>worker := W_signal_stopped\<rparr>)
   | W_signal_stopped \<Rightarrow> Some ((ma_event_signal stopEvent_update d)\<lparr>worker := W_wait\<rparr>)
   | W_exit \<Rightarrow> None)"

definition worker_iterate :: "ma_device \<Rightarrow> ma_device option" where
  "worker_iterate d =
    (if worker d = W_loop \<and> ma_device_get_state (Some d) = Started then Some (d\<lparr>worker := W_body\<rparr>) else None)"

section \<open>The client threads\<close>

definition goto :: "nat \<Rightarrow> client_pc \<Rightarrow> ma_device \<Rightarrow> ma_device" where
  "goto i pc d = d\<lparr>clients := (clients d)[i := pc]\<rparr>"

definition ma_mutex_lock :: "nat \<Rightarrow> ma_device \<Rightarrow> ma_device option" where
  "ma_mutex_lock i d = (if startStopLock d = None then Some (d\<lparr>startStopLock := Some i\<rparr>) else None)"

definition ma_mutex_unlock :: "ma_device \<Rightarrow> ma_device" where
  "ma_mutex_unlock d = d\<lparr>startStopLock := None\<rparr>"

text \<open>The end of \<open>ma_device_init__internal\<close>: the worker is created and puts the device into its
  stopped state.\<close>

definition init_step :: "dev_cfg \<Rightarrow> nat \<Rightarrow> client_pc \<Rightarrow> ma_device \<Rightarrow> ma_device option" where
  "init_step cfg i pc d = (case pc of
     Init_create \<Rightarrow>
       if \<not> async cfg then Some (goto i Init_wait (d\<lparr>worker := W_init\<rparr>)) else Some (goto i Init_set_stopped d)
   | Init_wait \<Rightarrow> map_option (goto i Init_assert) (ma_event_wait stopEvent stopEvent_update d)
   | Init_assert \<Rightarrow> Some (goto i (Returned Call_init MA_SUCCESS) d)
   | Init_set_stopped \<Rightarrow> Some (goto i (Returned Call_init MA_SUCCESS) (ma_device__set_state Stopped d))
   | _ \<Rightarrow> None)"

definition ma_device_start :: "dev_cfg \<Rightarrow> nat \<Rightarrow> i32 \<Rightarrow> client_pc \<Rightarrow> ma_device \<Rightarrow> ma_device option" where
  "ma_device_start cfg i r pc d = (case pc of
     Start_check_uninit \<Rightarrow>
       if ma_device_get_state (Some d) = Uninitialized then Some (goto i (Returned Call_start MA_INVALID_OPERATION) d)
       else Some (goto i Start_check_started d)
   | Start_check_started \<Rightarrow>
       if ma_device_get_state (Some d) = Started then Some (goto i (Returned Call_start MA_SUCCESS) d)
       else Some (goto i Start_lock d)
   | Start_lock \<Rightarrow> map_option (goto i Start_recheck) (ma_mutex_lock i d)
   | Start_recheck \<Rightarrow>
       if ma_device_get_state (Some d) = Started then Some (goto i (Start_unlock MA_SUCCESS) d)
       else Some (goto i Start_assert d)
   | Start_assert \<Rightarrow> Some (goto i Start_set_starting d)
   | Start_set_starting \<Rightarrow>
       Some (goto i (if async cfg then Start_backend else Start_wakeup) (ma_device__set_state Starting d))
   | Start_backend \<Rightarrow>
       let result = (if onDeviceStart cfg then r else MA_INVALID_OPERATION) in
       if result = MA_SUCCESS then Some (goto i Start_set_started (d\<lparr>backend_on := True\<rparr>))
       else Some (goto i (Start_finish result) d)
   | Start_set_started \<Rightarrow> Some (goto i (Start_finish MA_SUCCESS) (ma_device__set_state Started d))
   | Start_wakeup \<Rightarrow> Some (goto i Start_wait (ma_event_signal wakeupEvent_update d))
   | Start_wait \<Rightarrow> map_option (goto i Start_result) (ma_event_wait startEvent startEvent_update d)
   | Start_result \<Rightarrow> Some (goto i (Start_finish (workResult d)) d)
   | Start_finish result \<Rightarrow>
       Some (goto i (Start_unlock result) (if result \<noteq> MA_SUCCESS then ma_device__set_state Stopped d else d))
   | Start_unlock result \<Rightarrow> Some (goto i (Returned Call_start result) (ma_mutex_unlock d))
   | _ \<Rightarrow> None)"

definition ma_device_stop :: "dev_cfg \<Rightarrow> nat \<Rightarrow> i32 \<Rightarrow> client_pc \<Rightarrow> ma_device \<Rightarrow> ma_device option" where
  "ma_device_stop cfg i r pc d = (case pc of
     Stop_check_uninit \<Rightarrow>
       if ma_device_get_state (Some d) = Uninitialized then Some (goto i (Returned Call_stop MA_INVALID_OPERATION) d)
       else Some (goto i Stop_check_stopped d)
   | Stop_check_stopped \<Rightarrow>
       if ma_device_get_state (Some d) = Stopped then Some (goto i (Returned Call_stop MA_SUCCESS) d)
       else Some (goto i Stop_lock d)
   | Stop_lock \<Rightarrow> map_option (goto i Stop_recheck) (ma_mutex_lock i d)
   | Stop_recheck \<Rightarrow>
       if ma_device_get_state (Some d) = Stopped then Some (goto i (Stop_unlock MA_SUCCESS) d)
       else Some (goto i Stop_assert d)
   | Stop_assert \<Rightarrow> Some (goto i Stop_set_stopping d)
   | Stop_set_stopping \<Rightarrow>
       Some (goto i (if async cfg then Stop_backend else Stop_assert_not_started) (ma_device__set_state Stopping d))
   | Stop_backend \<Rightarrow>
       if onDeviceStop cfg then Some (goto i (Stop_set_stopped r) (d\<lparr>backend_on := False\<rparr>))
       else Some (goto i (Stop_set_stopped MA_INVALID_OPERATION) d)
   | Stop_set_stopped result \<Rightarrow> Some (goto i (Stop_clear result) (ma_device__set_state Stopped d))
   | Stop_assert_not_started \<Rightarrow> Some (goto i Stop_wakeup d)
   | Stop_wakeup \<Rightarrow> Some (goto i Stop_wait d)
   | Stop_wait \<Rightarrow> map_option (goto i (Stop_clear MA_SUCCESS)) (ma_event_wait stopEvent stopEvent_update d)
   | Stop_clear result \<Rightarrow>
       Some (goto i (Stop_unlock result)
         (d\<lparr>intermediaryBufferLen := 0, inputCacheConsumed := 0, inputCacheRemaining := 0\<rparr>))
   | Stop_unlock result \<Rightarrow> Some (goto i (Returned Call_stop result) (ma_mutex_unlock d))
   | _ \<Rightarrow> None)"

text \<open>\<open>ma_device_uninit\<close> up to the call of \<open>onDeviceUninit\<close>, after which the memory is released.\<close>

definition ma_device_uninit :: "dev_cfg \<Rightarrow> nat \<Rightarrow> client_pc \<Rightarrow> ma_device \<Rightarrow> ma_device option" where
  "ma_device_uninit cfg i pc d = (case pc of
     Uninit_check \<Rightarrow>
       if \<not> ma_device__is_initialized (Some d) then Some (goto i (Returned Call_none MA_SUCCESS) d)
       else Some (goto i Uninit_set d)
   | Uninit_set \<Rightarrow>
       Some (goto i (if \<not> async cfg then Uninit_signal else Uninit_backend) (ma_device__set_state Uninitialized d))
   | Uninit_signal \<Rightarrow> Some (goto i Uninit_join (ma_event_signal wakeupEvent_update d))
   | Uninit_join \<Rightarrow> if worker d = W_exit then Some (goto i Uninit_backend d) else None
   | Uninit_backend \<Rightarrow> Some (goto i Destroyed (d\<lparr>backend_on := False\<rparr>))
   | _ \<Rightarrow> None)"

definition client_step :: "dev_cfg \<Rightarrow> nat \<Rightarrow> i32 \<Rightarrow> ma_device \<Rightarrow> ma_device option" where
  "client_step cfg i r d =
    (if i < length (clients d) then
       (let pc = clients d ! i in
        case init_step cfg i pc d of Some e \<Rightarrow> Some e
        | None \<Rightarrow> (case ma_device_start cfg i r pc d of Some e \<Rightarrow> Some e
        | None \<Rightarrow> (case ma_device_stop cfg i r pc d of Some e \<Rightarrow> Some e
        | None \<Rightarrow> ma_device_uninit cfg i pc d)))
     else None)"

section \<open>The system\<close>

fun at_rest :: "client_pc \<Rightarrow> bool" where
  "at_rest (Returned _ _) = True"
| "at_rest _ = False"

text \<open>Calls that miniaudio's documentation requires to be alone with the device.\<close>

definition exclusive :: "client_pc \<Rightarrow> bool" where
  "exclusive pc \<longleftrightarrow> pc \<in> {Init_create, Init_wait, Init_assert, Init_set_stopped,
     Uninit_check, Uninit_set, Uninit_signal, Uninit_join, Uninit_backend, Destroyed}"

definition begin_call :: "nat \<Rightarrow> client_pc \<Rightarrow> ma_device \<Rightarrow> ma_device option" where
  "begin_call i pc d =
    (if i < length (clients d) \<and> at_rest (clients d ! i) \<and>
        (pc \<in> {Start_check_uninit, Stop_check_uninit} \<and> (\<forall>c \<in> set (clients d). \<not> exclusive c) \<or>
         pc = Uninit_check \<and> (\<forall>c \<in> set (clients d). at_rest c))
     then Some (goto i pc d) else None)"

text \<open>An asynchronous backend calls back from its own thread while it is on.\<close>

definition async_audio :: "dev_cfg \<Rightarrow> u32 \<times> u32 \<times> u32 \<Rightarrow> ma_device \<Rightarrow> ma_device option" where
  "async_audio cfg = (\<lambda>(x, y, z) d. if async cfg \<and> backend_on d
     then Some (d\<lparr>intermediaryBufferLen := x, inputCacheConsumed := y, inputCacheRemaining := z\<rparr>) else None)"

inductive control :: "dev_cfg \<Rightarrow> bool \<Rightarrow> ma_device \<Rightarrow> ma_device \<Rightarrow> bool" for cfg faulty where
  worker: "worker_step cfg fault r v d = Some e \<Longrightarrow> (fault \<longrightarrow> faulty) \<Longrightarrow> control cfg faulty d e"
| client: "client_step cfg i r d = Some e \<Longrightarrow> control cfg faulty d e"

inductive dev_step :: "dev_cfg \<Rightarrow> bool \<Rightarrow> ma_device \<Rightarrow> ma_device \<Rightarrow> bool" for cfg faulty where
  control: "control cfg faulty d e \<Longrightarrow> dev_step cfg faulty d e"
| iterate: "worker_iterate d = Some e \<Longrightarrow> dev_step cfg faulty d e"
| callback: "async_audio cfg v d = Some e \<Longrightarrow> dev_step cfg faulty d e"
| call: "begin_call i pc d = Some e \<Longrightarrow> dev_step cfg faulty d e"

inductive_cases controlE: "control cfg faulty d e"

text \<open>\<open>n + 1\<close> threads, the first of which initialises the device.\<close>

definition dev_start :: "nat \<Rightarrow> ma_device" where
  "dev_start n = \<lparr>state = Uninitialized, wakeupEvent = False, startEvent = False, stopEvent = False,
     startStopLock = None, workResult = MA_SUCCESS, intermediaryBufferLen = 0, inputCacheConsumed = 0,
     inputCacheRemaining = 0, worker = W_none, clients = Init_create # replicate n (Returned Call_none MA_SUCCESS),
     backend_on = False\<rparr>"

inductive dev_reach :: "dev_cfg \<Rightarrow> bool \<Rightarrow> ma_device \<Rightarrow> bool" for cfg faulty where
  start: "dev_reach cfg faulty (dev_start n)"
| step: "dev_reach cfg faulty d \<Longrightarrow> dev_step cfg faulty d e \<Longrightarrow> dev_reach cfg faulty e"

section \<open>The invariant\<close>

text \<open>Clients that hold the device: inside the lock, or alone with it.\<close>

definition owning :: "client_pc \<Rightarrow> bool" where
  "owning pc \<longleftrightarrow> \<not> at_rest pc \<and>
     pc \<notin> {Start_check_uninit, Start_check_started, Start_lock, Stop_check_uninit, Stop_check_stopped, Stop_lock}"

definition in_critical :: "client_pc \<Rightarrow> bool" where
  "in_critical pc \<longleftrightarrow> owning pc \<and> \<not> exclusive pc"

definition no_events :: "ma_device \<Rightarrow> bool" where
  "no_events d \<longleftrightarrow> \<not> wakeupEvent d \<and> \<not> startEvent d \<and> \<not> stopEvent d"

definition backend_off :: "ma_device \<Rightarrow> bool" where
  "backend_off d \<longleftrightarrow> \<not> backend_on d \<and>
     intermediaryBufferLen d = 0 \<and> inputCacheConsumed d = 0 \<and> inputCacheRemaining d = 0"

definition resting :: "dev_cfg \<Rightarrow> ma_device \<Rightarrow> bool" where
  "resting cfg d \<longleftrightarrow> no_events d \<and> worker d = (if async cfg then W_none else W_wait)"

definition running :: "dev_cfg \<Rightarrow> ma_device \<Rightarrow> bool" where
  "running cfg d \<longleftrightarrow> no_events d \<and> backend_on d \<and>
     (if async cfg then worker d = W_none else worker d \<in> {W_notify, W_loop, W_body})"

definition quiet :: "dev_cfg \<Rightarrow> ma_device \<Rightarrow> bool" where
  "quiet cfg d \<longleftrightarrow> state d = Stopped \<and> resting cfg d \<and> backend_off d \<or> state d = Started \<and> running cfg d"

text \<open>What the rest of the device looks like while a client is at a given point.\<close>

definition start_waiting :: "ma_device \<Rightarrow> bool" where
  "start_waiting d \<longleftrightarrow> \<not> stopEvent d \<and>
    (state d = Starting \<and> backend_off d \<and> \<not> startEvent d \<and> wakeupEvent d \<and> worker d = W_wait \<or>
     state d = Starting \<and> backend_off d \<and> \<not> startEvent d \<and> \<not> wakeupEvent d \<and> worker d = W_reset \<or>
     state d = Starting \<and> backend_off d \<and> \<not> startEvent d \<and> \<not> wakeupEvent d \<and> workResult d = 0 \<and>
       worker d \<in> {W_check_quit, W_assert, W_start} \<or>
     state d = Starting \<and> backend_off d \<and> \<not> wakeupEvent d \<and> workResult d \<noteq> 0 \<and>
       (worker d = W_start_failed \<and> \<not> startEvent d \<or> worker d = W_wait \<and> startEvent d) \<or>
     state d = Starting \<and> backend_on d \<and> \<not> startEvent d \<and> \<not> wakeupEvent d \<and> workResult d = 0 \<and> worker d = W_set_started \<or>
     state d = Started \<and> backend_on d \<and> \<not> wakeupEvent d \<and> workResult d = 0 \<and>
       (worker d = W_signal_started \<and> \<not> startEvent d \<or> worker d \<in> {W_notify, W_loop, W_body} \<and> startEvent d))"

definition stop_waiting :: "ma_device \<Rightarrow> bool" where
  "stop_waiting d \<longleftrightarrow> \<not> wakeupEvent d \<and> \<not> startEvent d \<and>
    (state d = Stopping \<and> \<not> stopEvent d \<and> worker d \<in> {W_notify, W_loop, W_body, W_stop} \<or>
     state d = Stopping \<and> \<not> stopEvent d \<and> \<not> backend_on d \<and> worker d \<in> {W_check, W_set_stopped} \<or>
     state d = Stopped \<and> \<not> stopEvent d \<and> \<not> backend_on d \<and> worker d = W_signal_stopped \<or>
     state d = Stopped \<and> stopEvent d \<and> \<not> backend_on d \<and> worker d = W_wait)"

definition uninit_waiting :: "ma_device \<Rightarrow> bool" where
  "uninit_waiting d \<longleftrightarrow> state d = Uninitialized \<and> \<not> startEvent d \<and> \<not> stopEvent d \<and>
    (worker d \<in> {W_notify, W_loop, W_body, W_stop} \<or>
     \<not> backend_on d \<and> worker d \<in> {W_check, W_exit})"

definition uninit_woken :: "ma_device \<Rightarrow> bool" where
  "uninit_woken d \<longleftrightarrow> state d = Uninitialized \<and> \<not> startEvent d \<and> \<not> stopEvent d \<and> \<not> backend_on d \<and>
    (if wakeupEvent d then worker d = W_wait else worker d \<in> {W_reset, W_check_quit, W_exit})"

fun phase :: "dev_cfg \<Rightarrow> ma_device \<Rightarrow> client_pc \<Rightarrow> bool" where
  "phase cfg d Init_create = (state d = Uninitialized \<and> no_events d \<and> backend_off d \<and> worker d = W_none)"
| "phase cfg d Init_wait = (\<not> async cfg \<and> backend_off d \<and> \<not> wakeupEvent d \<and> \<not> startEvent d \<and>
     (worker d = W_init \<and> state d = Uninitialized \<and> \<not> stopEvent d \<or>
      worker d = W_init_signal \<and> state d = Stopped \<and> \<not> stopEvent d \<or>
      worker d = W_wait \<and> state d = Stopped \<and> stopEvent d))"
| "phase cfg d Init_assert = (state d = Stopped \<and> quiet cfg d)"
| "phase cfg d Init_set_stopped =
     (async cfg \<and> state d = Uninitialized \<and> no_events d \<and> backend_off d \<and> worker d = W_none)"
| "phase cfg d Start_recheck = quiet cfg d"
| "phase cfg d Start_assert = (state d = Stopped \<and> quiet cfg d)"
| "phase cfg d Start_set_starting = (state d = Stopped \<and> quiet cfg d)"
| "phase cfg d Start_backend = (async cfg \<and> state d = Starting \<and> resting cfg d \<and> backend_off d)"
| "phase cfg d Start_set_started = (async cfg \<and> state d = Starting \<and> running cfg d)"
| "phase cfg d Start_wakeup = (\<not> async cfg \<and> state d = Starting \<and> resting cfg d \<and> backend_off d)"
| "phase cfg d Start_wait = (\<not> async cfg \<and> start_waiting d)"
| "phase cfg d Start_result = (\<not> async cfg \<and> (if workResult d = 0 then state d = Started \<and> running cfg d
     else state d = Starting \<and> resting cfg d \<and> backend_off d))"
| "phase cfg d (Start_finish r) = (if r = 0 then state d = Started \<and> running cfg d
     else state d = Starting \<and> resting cfg d \<and> backend_off d)"
| "phase cfg d (Start_unlock r) = (quiet cfg d \<and> state d = (if r = 0 then Started else Stopped))"
| "phase cfg d Stop_recheck = quiet cfg d"
| "phase cfg d Stop_assert = (state d = Started \<and> quiet cfg d)"
| "phase cfg d Stop_set_stopping = (state d = Started \<and> quiet cfg d)"
| "phase cfg d Stop_backend = (async cfg \<and> state d = Stopping \<and> running cfg d)"
| "phase cfg d (Stop_set_stopped r) = (async cfg \<and> state d = Stopping \<and> resting cfg d \<and> \<not> backend_on d)"
| "phase cfg d Stop_assert_not_started = (\<not> async cfg \<and> stop_waiting d)"
| "phase cfg d Stop_wakeup = (\<not> async cfg \<and> stop_waiting d)"
| "phase cfg d Stop_wait = (\<not> async cfg \<and> stop_waiting d)"
| "phase cfg d (Stop_clear r) = (state d = Stopped \<and> resting cfg d \<and> \<not> backend_on d)"
| "phase cfg d (Stop_unlock r) = (state d = Stopped \<and> quiet cfg d)"
| "phase cfg d Uninit_check = quiet cfg d"
| "phase cfg d Uninit_set = quiet cfg d"
| "phase cfg d Uninit_signal = (\<not> async cfg \<and> \<not> wakeupEvent d \<and>
     (uninit_waiting d \<or>
      state d = Uninitialized \<and> \<not> startEvent d \<and> \<not> stopEvent d \<and> \<not> backend_on d \<and> worker d = W_wait))"
| "phase cfg d Uninit_join = (\<not> async cfg \<and>
     (uninit_waiting d \<or> uninit_woken d))"
| "phase cfg d Uninit_backend = (state d = Uninitialized \<and>
     (if async cfg then worker d = W_none else worker d = W_exit \<and> \<not> backend_on d))"
| "phase cfg d Destroyed = (state d = Uninitialized \<and> \<not> backend_on d \<and>
     worker d = (if async cfg then W_none else W_exit))"
| "phase cfg d _ = True"

definition unowned :: "dev_cfg \<Rightarrow> ma_device \<Rightarrow> bool" where
  "unowned cfg d \<longleftrightarrow> startStopLock d = None \<and> quiet cfg d \<and> (\<forall>c \<in> set (clients d). \<not> owning c)"

definition owned_by :: "dev_cfg \<Rightarrow> ma_device \<Rightarrow> nat \<Rightarrow> bool" where
  "owned_by cfg d i \<longleftrightarrow> i < length (clients d) \<and> owning (clients d ! i) \<and> phase cfg d (clients d ! i) \<and>
    startStopLock d = (if exclusive (clients d ! i) then None else Some i) \<and>
    (\<forall>j < length (clients d). j \<noteq> i \<longrightarrow>
       \<not> owning (clients d ! j) \<and> (exclusive (clients d ! i) \<longrightarrow> at_rest (clients d ! j)))"

definition dev_inv :: "dev_cfg \<Rightarrow> ma_device \<Rightarrow> bool" where
  "dev_inv cfg d \<longleftrightarrow> unowned cfg d \<or> (\<exists>i. owned_by cfg d i)"

section \<open>The steps keep it\<close>

lemmas phase_defs = quiet_def resting_def running_def backend_off_def no_events_def
  start_waiting_def stop_waiting_def uninit_waiting_def uninit_woken_def

lemmas step_defs = ma_device__set_state_def ma_device_get_state_def ma_event_signal_def ma_event_wait_def

lemma at_rest_not_owning: "at_rest pc \<Longrightarrow> \<not> owning pc" by (simp add: owning_def)

lemma phase_not_owning: "\<not> owning pc \<Longrightarrow> phase cfg d pc"
  by (cases pc) (simp_all add: owning_def)

text \<open>The device seen through \<open>phase\<close> and \<open>quiet\<close> has no clients and no lock.\<close>

lemma phase_frame [simp]:
  "phase cfg (d\<lparr>clients := c\<rparr>) pc = phase cfg d pc" "phase cfg (d\<lparr>startStopLock := l\<rparr>) pc = phase cfg d pc"
  "quiet cfg (d\<lparr>clients := c\<rparr>) = quiet cfg d" "quiet cfg (d\<lparr>startStopLock := l\<rparr>) = quiet cfg d"
  by (cases pc; simp add: phase_defs)+

lemma owning_owned_by:
  assumes "dev_inv cfg d" "i < length (clients d)" "owning (clients d ! i)"
  shows "owned_by cfg d i"
  using assms by (auto simp: dev_inv_def unowned_def owned_by_def)

lemma goto_fields [simp]: "clients (goto i pc e) = (clients e)[i := pc]" "startStopLock (goto i pc e) = startStopLock e"
  "phase cfg (goto i pc e) pc' = phase cfg e pc'" "quiet cfg (goto i pc e) = quiet cfg e"
  by (simp_all add: goto_def)

lemma inv_owner_move:
  assumes "dev_inv cfg d" "i < length (clients d)" "owning (clients d ! i)"
    and "clients e = clients d" "startStopLock e = startStopLock d"
    and "owning pc" "exclusive pc = exclusive (clients d ! i)" "phase cfg e pc"
  shows "dev_inv cfg (goto i pc e)"
proof -
  have "owned_by cfg d i" using assms(1-3) by (rule owning_owned_by)
  then have "owned_by cfg (goto i pc e) i" using assms(4-) by (simp add: owned_by_def)
  then show ?thesis by (auto simp: dev_inv_def)
qed

lemma inv_owner_release:
  assumes "dev_inv cfg d" "i < length (clients d)" "owning (clients d ! i)"
    and "clients e = clients d" "startStopLock e = None" "at_rest pc" "quiet cfg e"
  shows "dev_inv cfg (goto i pc e)"
proof -
  have "owned_by cfg d i" using assms(1-3) by (rule owning_owned_by)
  then have "unowned cfg (goto i pc e)" using assms(4-)
    by (auto simp: owned_by_def unowned_def in_set_conv_nth nth_list_update at_rest_not_owning split: if_splits)
  then show ?thesis by (auto simp: dev_inv_def)
qed

lemma inv_outer_move:
  assumes "dev_inv cfg d" "i < length (clients d)" "\<not> owning (clients d ! i)" "\<not> owning pc"
    and "at_rest pc \<or> \<not> at_rest (clients d ! i)"
  shows "dev_inv cfg (goto i pc d)"
proof (cases "unowned cfg d")
  case True
  then have "unowned cfg (goto i pc d)" using assms(4)
    by (auto simp: unowned_def dest: set_update_subset_insert [THEN subsetD])
  then show ?thesis by (auto simp: dev_inv_def)
next
  case False
  then obtain k where k: "owned_by cfg d k" using assms(1) by (auto simp: dev_inv_def)
  then have "owned_by cfg (goto i pc d) k" using assms(2-)
    by (auto simp: owned_by_def nth_list_update)
  then show ?thesis by (auto simp: dev_inv_def)
qed

lemma inv_acquire:
  assumes "dev_inv cfg d" "i < length (clients d)" "\<not> at_rest (clients d ! i)" "\<not> owning (clients d ! i)"
    and "startStopLock d = None" "pc \<in> {Start_recheck, Stop_recheck}"
  shows "dev_inv cfg (goto i pc (d\<lparr>startStopLock := Some i\<rparr>))"
proof -
  have "unowned cfg d" using assms by (auto simp: dev_inv_def owned_by_def split: if_splits)
  then have "owned_by cfg (goto i pc (d\<lparr>startStopLock := Some i\<rparr>)) i" using assms(2,6)
    by (auto simp: unowned_def owned_by_def owning_def exclusive_def)
  then show ?thesis by (auto simp: dev_inv_def)
qed

lemma inv_begin:
  assumes "dev_inv cfg d" "begin_call i pc d = Some e"
  shows "dev_inv cfg e"
proof -
  have i: "i < length (clients d)" "at_rest (clients d ! i)" and e: "e = goto i pc d"
    using assms(2) by (auto simp: begin_call_def split: if_splits)
  consider "pc \<in> {Start_check_uninit, Stop_check_uninit}" "\<forall>c \<in> set (clients d). \<not> exclusive c"
    | "pc = Uninit_check" "\<forall>c \<in> set (clients d). at_rest c"
    using assms(2) by (auto simp: begin_call_def split: if_splits)
  then show ?thesis
  proof cases
    case 1
    have no: "\<not> owning pc" using 1(1) by (auto simp: owning_def)
    show ?thesis
    proof (cases "unowned cfg d")
      case True
      then have "unowned cfg e" using no e
        by (auto simp: unowned_def dest: set_update_subset_insert [THEN subsetD])
      then show ?thesis by (auto simp: dev_inv_def)
    next
      case False
      then obtain k where k: "owned_by cfg d k" using assms(1) by (auto simp: dev_inv_def)
      then have "owned_by cfg e k" using 1(2) i no e
        by (auto simp: owned_by_def nth_list_update at_rest_not_owning)
      then show ?thesis by (auto simp: dev_inv_def)
    qed
  next
    case 2
    then have "unowned cfg d" using assms(1) at_rest_not_owning by (auto simp: dev_inv_def owned_by_def)
    then have "owned_by cfg e i" using 2 i e
      by (auto simp: unowned_def owned_by_def owning_def exclusive_def)
    then show ?thesis by (auto simp: dev_inv_def)
  qed
qed

lemma inv_worker:
  assumes "dev_inv cfg d" "clients e = clients d" "startStopLock e = startStopLock d"
    and "\<And>pc. owning pc \<Longrightarrow> phase cfg d pc \<Longrightarrow> phase cfg e pc" "quiet cfg d \<Longrightarrow> quiet cfg e"
  shows "dev_inv cfg e"
  using assms by (auto simp: dev_inv_def unowned_def owned_by_def)

text \<open>A resting worker has no step; a running one stays in its loop; a waited-for one comes closer.\<close>

lemmas worker_simps = worker_step_def step_defs

lemma worker_resting: "worker_step cfg False r v d = Some e \<Longrightarrow> resting cfg d \<Longrightarrow> False"
  by (cases v) (auto simp: worker_simps resting_def no_events_def split: if_splits)

lemma worker_running:
  assumes "worker_step cfg False r v d = Some e" "running cfg d" "state d = Started"
  shows "running cfg e" "state e = Started" "workResult e = workResult d"
  using assms by (cases v; cases "worker d"; auto simp: worker_simps running_def no_events_def split: if_splits)+

lemma worker_none: "worker_step cfg False r v d = Some e \<Longrightarrow> worker d = W_none \<or> worker d = W_exit \<Longrightarrow> False"
  by (cases v) (auto simp: worker_simps)

lemma worker_at:
  "worker d = W_init \<Longrightarrow> worker_step cfg fault r v d = Some (d\<lparr>state := Stopped, worker := W_init_signal\<rparr>)"
  "worker d = W_init_signal \<Longrightarrow> worker_step cfg fault r v d = Some (d\<lparr>stopEvent := True, worker := W_wait\<rparr>)"
  "worker d = W_wait \<Longrightarrow> worker_step cfg fault r v d =
     (if wakeupEvent d then Some (d\<lparr>wakeupEvent := False, worker := W_reset\<rparr>) else None)"
  "worker d = W_reset \<Longrightarrow> worker_step cfg fault r v d = Some (d\<lparr>workResult := 0, worker := W_check_quit\<rparr>)"
  "worker d = W_check_quit \<Longrightarrow> worker_step cfg fault r v d =
     Some (d\<lparr>worker := if state d = Uninitialized then W_exit else W_assert\<rparr>)"
  "worker d = W_assert \<Longrightarrow> worker_step cfg fault r v d = Some (d\<lparr>worker := W_start\<rparr>)"
  "worker d = W_start \<Longrightarrow> worker_step cfg fault r v d =
     Some (if onDeviceStart cfg \<and> r \<noteq> 0 then d\<lparr>workResult := r, worker := W_start_failed\<rparr>
       else d\<lparr>backend_on := True, worker := W_set_started\<rparr>)"
  "worker d = W_start_failed \<Longrightarrow> worker_step cfg fault r v d = Some (d\<lparr>startEvent := True, worker := W_wait\<rparr>)"
  "worker d = W_set_started \<Longrightarrow> worker_step cfg fault r v d = Some (d\<lparr>state := Started, worker := W_signal_started\<rparr>)"
  "worker d = W_signal_started \<Longrightarrow> worker_step cfg fault r v d = Some (d\<lparr>startEvent := True, worker := W_notify\<rparr>)"
  "worker d = W_notify \<Longrightarrow> worker_step cfg fault r v d = Some (d\<lparr>worker := W_loop\<rparr>)"
  "worker d = W_loop \<Longrightarrow> worker_step cfg fault r v d =
     (if state d \<noteq> Started \<or> fault then Some (d\<lparr>worker := W_stop\<rparr>) else None)"
  "worker d = W_body \<Longrightarrow> worker_step cfg fault r v d = Some (d\<lparr>intermediaryBufferLen := fst v,
     inputCacheConsumed := fst (snd v), inputCacheRemaining := snd (snd v), worker := W_loop\<rparr>)"
  "worker d = W_stop \<Longrightarrow> worker_step cfg fault r v d = Some (d\<lparr>backend_on := False, worker := W_check\<rparr>)"
  "worker d = W_check \<Longrightarrow> worker_step cfg fault r v d =
     Some (d\<lparr>worker := if state d = Uninitialized then W_exit else W_set_stopped\<rparr>)"
  "worker d = W_set_stopped \<Longrightarrow> worker_step cfg fault r v d = Some (d\<lparr>state := Stopped, worker := W_signal_stopped\<rparr>)"
  "worker d = W_signal_stopped \<Longrightarrow> worker_step cfg fault r v d = Some (d\<lparr>stopEvent := True, worker := W_wait\<rparr>)"
  "worker d = W_none \<Longrightarrow> worker_step cfg fault r v d = None"
  "worker d = W_exit \<Longrightarrow> worker_step cfg fault r v d = None"
  by (cases v; (simp add: worker_simps; fail))+

lemma worker_start_waiting:
  "worker_step cfg False r v d = Some e \<Longrightarrow> start_waiting d \<Longrightarrow> start_waiting e"
  unfolding start_waiting_def [of d]
  by (elim conjE disjE insertE emptyE; simp only: worker_at option.inject option.distinct split: if_splits;
      clarify?; simp add: start_waiting_def backend_off_def)

lemma worker_stop_waiting:
  "worker_step cfg False r v d = Some e \<Longrightarrow> stop_waiting d \<Longrightarrow> stop_waiting e"
  unfolding stop_waiting_def [of d]
  by (elim conjE disjE insertE emptyE; simp only: worker_at option.inject option.distinct split: if_splits;
      clarify?; simp add: stop_waiting_def)

lemma worker_uninit_waiting:
  "worker_step cfg False r v d = Some e \<Longrightarrow> uninit_waiting d \<Longrightarrow> uninit_waiting e \<and> wakeupEvent e = wakeupEvent d"
  unfolding uninit_waiting_def [of d]
  by (elim conjE disjE insertE emptyE; simp only: worker_at option.inject option.distinct split: if_splits;
      clarify?; simp add: uninit_waiting_def)

lemma worker_woken:
  "worker_step cfg False r v d = Some e \<Longrightarrow> worker d = W_wait \<Longrightarrow>
   wakeupEvent d \<and> e = d\<lparr>wakeupEvent := False, worker := W_reset\<rparr>"
  by (subst (asm) worker_at(3)) (simp_all split: if_splits)

lemma worker_init:
  "worker_step cfg False r v d = Some e \<Longrightarrow> phase cfg d Init_wait \<Longrightarrow> phase cfg e Init_wait"
  unfolding phase.simps(2) [of cfg d]
  by (elim conjE disjE; simp only: worker_at option.inject option.distinct split: if_splits;
      clarify?; simp add: backend_off_def)

lemma worker_quiet:
  assumes "worker_step cfg False r v d = Some e" "quiet cfg d"
  shows "quiet cfg e" "state e = state d"
proof -
  have "state d = Started" "running cfg d"
    using assms worker_resting unfolding quiet_def by blast+
  then show "quiet cfg e" "state e = state d"
    using worker_running(1,2) [OF assms(1)] by (simp_all add: quiet_def)
qed

lemma worker_uninit_woken:
  "worker_step cfg False r v d = Some e \<Longrightarrow> uninit_woken d \<Longrightarrow> uninit_woken e"
  unfolding uninit_woken_def [of d]
  by (cases "wakeupEvent d"; simp only: if_True if_False; elim conjE insertE emptyE;
      simp only: worker_at option.inject option.distinct split: if_splits; clarify?; simp add: uninit_woken_def)

lemma worker_uninit_join:
  "worker_step cfg False r v d = Some e \<Longrightarrow> phase cfg d Uninit_join \<Longrightarrow> phase cfg e Uninit_join"
  using worker_uninit_waiting worker_uninit_woken unfolding phase.simps by blast

lemma worker_uninit_signal:
  assumes "worker_step cfg False r v d = Some e" "phase cfg d Uninit_signal"
  shows "phase cfg e Uninit_signal"
proof (cases "uninit_waiting d")
  case True
  then show ?thesis using worker_uninit_waiting [OF assms(1)] assms(2) by simp
next
  case False
  then have "worker d = W_wait" "\<not> wakeupEvent d" using assms(2) by simp_all
  then show ?thesis using worker_woken [OF assms(1)] by simp
qed

lemma worker_phase:
  assumes "worker_step cfg False r v d = Some e" "phase cfg d pc"
  shows "phase cfg e pc"
proof -
  note rest = worker_resting [OF assms(1)] and run = worker_running [OF assms(1)] and none = worker_none [OF assms(1)]
    and quiet = worker_quiet [OF assms(1)]
    and wait = worker_start_waiting [OF assms(1)] worker_stop_waiting [OF assms(1)]
  have r: "resting cfg d = False" using rest by blast
  have n: "worker d \<noteq> W_none" "worker d \<noteq> W_exit" using none by blast+
  show ?thesis
  proof (cases pc)
    case Init_wait
    then show ?thesis using worker_init assms by blast
  next
    case Uninit_signal
    then show ?thesis using assms(2) worker_uninit_signal [OF assms(1)] by blast
  next
    case Uninit_join
    then show ?thesis using assms(2) worker_uninit_join [OF assms(1)] by blast
  next
    case Start_set_started
    then show ?thesis using assms(2) none by (simp add: running_def)
  next
    case Stop_backend
    then show ?thesis using assms(2) none by (simp add: running_def)
  qed (use assms(2) in \<open>simp_all add: r n quiet run wait split: if_splits\<close>)
qed

text \<open>The client threads, one function at a time.\<close>

lemma owned_byD:
  assumes "owned_by cfg d i" "clients d ! i = pc"
  shows "phase cfg d pc" "\<not> exclusive pc \<Longrightarrow> startStopLock d = Some i" "exclusive pc \<Longrightarrow> startStopLock d = None"
  using assms by (auto simp: owned_by_def)

lemma init_inv:
  assumes "dev_inv cfg d" "i < length (clients d)" "init_step cfg i (clients d ! i) d = Some e"
  shows "dev_inv cfg e"
proof -
  note move = inv_owner_move [OF assms(1,2)] and release = inv_owner_release [OF assms(1,2)]
  have own: "owned_by cfg d i" if "owning (clients d ! i)" using owning_owned_by assms(1,2) that by blast
  show ?thesis
  proof (cases "clients d ! i")
    case Init_create
    with own have "phase cfg d Init_create" by (auto simp: owning_def owned_by_def)
    with Init_create assms(3) show ?thesis
      by (auto simp: init_step_def owning_def exclusive_def phase_defs intro!: move split: if_splits)
  next
    case Init_wait
    with own have "phase cfg d Init_wait" by (auto simp: owning_def owned_by_def)
    with Init_wait assms(3) show ?thesis
      by (auto simp: init_step_def step_defs owning_def exclusive_def phase_defs intro!: move split: if_splits)
  next
    case Init_assert
    with own have "phase cfg d Init_assert" "startStopLock d = None" by (auto simp: owning_def owned_by_def exclusive_def)
    with Init_assert assms(3) show ?thesis
      by (auto simp: init_step_def owning_def intro!: release)
  next
    case Init_set_stopped
    with own have "phase cfg d Init_set_stopped" "startStopLock d = None"
      by (auto simp: owning_def owned_by_def exclusive_def)
    with Init_set_stopped assms(3) show ?thesis
      by (auto simp: init_step_def step_defs owning_def phase_defs intro!: release)
  qed (use assms(3) in \<open>simp_all add: init_step_def\<close>)
qed

lemma start_inv:
  assumes "dev_inv cfg d" "i < length (clients d)" "ma_device_start cfg i r (clients d ! i) d = Some e"
  shows "dev_inv cfg e"
proof -
  note move = inv_owner_move [OF assms(1,2)] and release = inv_owner_release [OF assms(1,2)]
    and outer = inv_outer_move [OF assms(1,2)] and acquire = inv_acquire [OF assms(1,2)]
  have own: "phase cfg d (clients d ! i)" if "owning (clients d ! i)"
    using owning_owned_by [OF assms(1,2) that] by (simp add: owned_by_def)
  note defs = ma_device_start_def step_defs owning_def exclusive_def
  show ?thesis
  proof (cases "clients d ! i")
    case Start_check_uninit
    then show ?thesis using assms(3) by (auto simp: defs intro!: outer split: if_splits)
  next
    case Start_check_started
    then show ?thesis using assms(3) by (auto simp: defs intro!: outer split: if_splits)
  next
    case Start_lock
    then show ?thesis using assms(3)
      by (auto simp: ma_mutex_lock_def defs intro!: acquire split: if_splits)
  next
    case Start_recheck
    then show ?thesis using assms(3) own by (auto simp: defs quiet_def intro!: move split: if_splits)
  next
    case Start_assert
    then show ?thesis using assms(3) own by (auto simp: defs intro!: move)
  next
    case Start_set_starting
    then show ?thesis using assms(3) own by (auto simp: defs phase_defs intro!: move split: if_splits)
  next
    case Start_backend
    then show ?thesis using assms(3) own by (auto simp: defs phase_defs Let_def intro!: move split: if_splits)
  next
    case Start_set_started
    then show ?thesis using assms(3) own by (auto simp: defs phase_defs intro!: move split: if_splits)
  next
    case Start_wakeup
    then show ?thesis using assms(3) own by (auto simp: defs phase_defs intro!: move split: if_splits)
  next
    case Start_wait
    then show ?thesis using assms(3) own by (auto simp: defs phase_defs intro!: move split: if_splits)
  next
    case Start_result
    then show ?thesis using assms(3) own by (auto simp: defs intro!: move split: if_splits)
  next
    case (Start_finish r)
    then show ?thesis using assms(3) own by (auto simp: defs phase_defs intro!: move split: if_splits)
  next
    case (Start_unlock r)
    then show ?thesis using assms(3) own by (auto simp: defs ma_mutex_unlock_def intro!: release)
  qed (use assms(3) in \<open>simp_all add: ma_device_start_def\<close>)
qed

text \<open>``Asynchronous backends must have a stop operation'', says the source.\<close>

definition dev_cfg_ok :: "dev_cfg \<Rightarrow> bool" where
  "dev_cfg_ok cfg \<longleftrightarrow> (async cfg \<longrightarrow> onDeviceStop cfg)"

lemma stop_inv:
  assumes "dev_cfg_ok cfg" "dev_inv cfg d" "i < length (clients d)"
    and "ma_device_stop cfg i r (clients d ! i) d = Some e"
  shows "dev_inv cfg e"
proof -
  note move = inv_owner_move [OF assms(2,3)] and release = inv_owner_release [OF assms(2,3)]
    and outer = inv_outer_move [OF assms(2,3)] and acquire = inv_acquire [OF assms(2,3)]
  have own: "phase cfg d (clients d ! i)" if "owning (clients d ! i)"
    using owning_owned_by [OF assms(2,3) that] by (simp add: owned_by_def)
  note defs = ma_device_stop_def step_defs owning_def exclusive_def
  show ?thesis
  proof (cases "clients d ! i")
    case Stop_check_uninit
    then show ?thesis using assms(4) by (auto simp: defs intro!: outer split: if_splits)
  next
    case Stop_check_stopped
    then show ?thesis using assms(4) by (auto simp: defs intro!: outer split: if_splits)
  next
    case Stop_lock
    then show ?thesis using assms(4) by (auto simp: ma_mutex_lock_def defs intro!: acquire split: if_splits)
  next
    case Stop_recheck
    then show ?thesis using assms(4) own by (auto simp: defs quiet_def intro!: move split: if_splits)
  next
    case Stop_assert
    then show ?thesis using assms(4) own by (auto simp: defs intro!: move)
  next
    case Stop_set_stopping
    then show ?thesis using assms(4) own by (auto simp: defs phase_defs intro!: move split: if_splits)
  next
    case Stop_backend
    then show ?thesis using assms(1,4) own by (auto simp: defs phase_defs dev_cfg_ok_def intro!: move split: if_splits)
  next
    case (Stop_set_stopped r)
    then show ?thesis using assms(4) own by (auto simp: defs phase_defs intro!: move split: if_splits)
  next
    case Stop_assert_not_started
    then show ?thesis using assms(4) own by (auto simp: defs intro!: move)
  next
    case Stop_wakeup
    then show ?thesis using assms(4) own by (auto simp: defs intro!: move)
  next
    case Stop_wait
    then show ?thesis using assms(4) own by (auto simp: defs phase_defs intro!: move split: if_splits)
  next
    case (Stop_clear r)
    then show ?thesis using assms(4) own by (auto simp: defs phase_defs intro!: move)
  next
    case (Stop_unlock r)
    then show ?thesis using assms(4) own by (auto simp: defs ma_mutex_unlock_def intro!: release)
  qed (use assms(4) in \<open>simp_all add: ma_device_stop_def\<close>)
qed

lemma uninit_inv:
  assumes "dev_inv cfg d" "i < length (clients d)" "ma_device_uninit cfg i (clients d ! i) d = Some e"
  shows "dev_inv cfg e"
proof -
  note move = inv_owner_move [OF assms(1,2)]
  have own: "phase cfg d (clients d ! i)" if "owning (clients d ! i)"
    using owning_owned_by [OF assms(1,2) that] by (simp add: owned_by_def)
  note defs = ma_device_uninit_def step_defs owning_def exclusive_def
  show ?thesis
  proof (cases "clients d ! i")
    case Uninit_check
    then show ?thesis using assms(3) own
      by (auto simp: defs quiet_def ma_device__is_initialized_def intro!: move split: if_splits)
  next
    case Uninit_set
    then show ?thesis using assms(3) own by (auto simp: defs phase_defs intro!: move split: if_splits)
  next
    case Uninit_signal
    then show ?thesis using assms(3) own by (auto simp: defs uninit_waiting_def uninit_woken_def intro!: move split: if_splits)
  next
    case Uninit_join
    then show ?thesis using assms(3) own by (auto simp: defs uninit_waiting_def uninit_woken_def intro!: move split: if_splits)
  next
    case Uninit_backend
    then show ?thesis using assms(3) own by (auto simp: defs intro!: move)
  qed (use assms(3) in \<open>simp_all add: ma_device_uninit_def\<close>)
qed

lemma client_inv:
  assumes "dev_cfg_ok cfg" "dev_inv cfg d" "client_step cfg i r d = Some e"
  shows "dev_inv cfg e"
proof -
  let ?pc = "clients d ! i"
  have i: "i < length (clients d)" using assms(3) by (simp add: client_step_def split: if_splits)
  consider "init_step cfg i ?pc d = Some e" | "ma_device_start cfg i r ?pc d = Some e"
    | "ma_device_stop cfg i r ?pc d = Some e" | "ma_device_uninit cfg i ?pc d = Some e"
    using assms(3) i unfolding client_step_def Let_def by (simp split: option.splits)
  then show ?thesis
    by cases (rule init_inv [OF assms(2) i], assumption, rule start_inv [OF assms(2) i], assumption,
      rule stop_inv [OF assms(1,2) i], assumption, rule uninit_inv [OF assms(2) i], assumption)
qed

lemma worker_keeps:
  "worker_step cfg fault r v d = Some e \<Longrightarrow> clients e = clients d \<and> startStopLock e = startStopLock d"
  by (cases "worker d"; simp only: worker_at option.inject option.distinct split: if_splits; clarify?; simp)

lemma iterate_inv:
  assumes "dev_inv cfg d" "worker_iterate d = Some e"
  shows "dev_inv cfg e"
proof -
  have e: "worker d = W_loop" "state d = Started" "e = d\<lparr>worker := W_body\<rparr>"
    using assms(2) by (auto simp: worker_iterate_def ma_device_get_state_def split: if_splits)
  have "phase cfg e pc" if "phase cfg d pc" for pc
    using that e by (cases pc) (auto simp: phase_defs split: if_splits)
  moreover have "quiet cfg e" if "quiet cfg d" using that e by (auto simp: phase_defs split: if_splits)
  ultimately show ?thesis using e by (intro inv_worker [OF assms(1)]) simp_all
qed

lemma callback_inv:
  assumes "dev_inv cfg d" "async_audio cfg v d = Some e"
  shows "dev_inv cfg e"
proof -
  obtain x y z where v: "v = (x, y, z)" by (cases v)
  have e: "async cfg" "backend_on d"
    "e = d\<lparr>intermediaryBufferLen := x, inputCacheConsumed := y, inputCacheRemaining := z\<rparr>"
    using assms(2) by (auto simp: async_audio_def v split: if_splits)
  have "phase cfg e pc" if "phase cfg d pc" for pc
    using that e(1,2) unfolding e(3) by (cases pc) (auto simp: phase_defs split: if_splits)
  moreover have "quiet cfg e" if "quiet cfg d" using that e by (auto simp: phase_defs split: if_splits)
  ultimately show ?thesis using e by (intro inv_worker [OF assms(1)]) simp_all
qed

lemma dev_step_inv: "dev_cfg_ok cfg \<Longrightarrow> dev_inv cfg d \<Longrightarrow> dev_step cfg False d e \<Longrightarrow> dev_inv cfg e"
proof (erule dev_step.cases)
  fix d1 e1
  assume ok: "dev_cfg_ok cfg" and inv: "dev_inv cfg d" and eq: "d = d1" "e = e1" and st: "control cfg False d1 e1"
  from st show "dev_inv cfg e"
  proof cases
    case (worker fault r v)
    then show ?thesis using inv worker_keeps worker_phase worker_quiet(1) unfolding eq
      by (intro inv_worker [OF inv [unfolded eq]]) auto
  next
    case (client i r)
    then show ?thesis using client_inv ok inv eq by blast
  qed
qed (use iterate_inv callback_inv inv_begin in blast)+

lemma dev_start_inv: "dev_inv cfg (dev_start n)"
proof -
  have "owned_by cfg (dev_start n) 0"
    by (auto simp: owned_by_def dev_start_def owning_def exclusive_def phase_defs nth_Cons')
  then show ?thesis by (auto simp: dev_inv_def)
qed

lemma dev_reach_inv: "dev_reach cfg False d \<Longrightarrow> dev_cfg_ok cfg \<Longrightarrow> dev_inv cfg d"
  by (induction rule: dev_reach.induct) (auto intro: dev_start_inv dev_step_inv)

section \<open>Assertions and results\<close>

text \<open>Each \<open>MA_ASSERT\<close> of these functions, at the point where it is evaluated.\<close>

definition assertions_hold :: "ma_device \<Rightarrow> bool" where
  "assertions_hold d \<longleftrightarrow>
    (worker d = W_assert \<longrightarrow> state d = Starting) \<and>
    (\<forall>c \<in> set (clients d).
      (c = Init_assert \<longrightarrow> state d = Stopped) \<and> (c = Start_assert \<longrightarrow> state d = Stopped) \<and>
      (c = Stop_assert \<longrightarrow> state d = Started) \<and> (c = Stop_assert_not_started \<longrightarrow> state d \<noteq> Started))"

lemma dev_inv_phase: "dev_inv cfg d \<Longrightarrow> c \<in> set (clients d) \<Longrightarrow> phase cfg d c"
  by (metis in_set_conv_nth owned_by_def owning_owned_by phase_not_owning)

lemma quiet_worker: "quiet cfg d \<Longrightarrow> worker d \<noteq> W_assert"
  by (auto simp: phase_defs split: if_splits)

lemma phase_assert:
  assumes "phase cfg d pc" "owning pc" "worker d = W_assert" shows "state d = Starting"
  using assms quiet_worker [of cfg d] by (cases pc) (auto simp: owning_def phase_defs split: if_splits)

lemma dev_inv_assertions:
  assumes "dev_inv cfg d" shows "assertions_hold d"
proof -
  have "state d = Starting" if "worker d = W_assert"
    using assms that quiet_worker phase_assert by (auto simp: dev_inv_def unowned_def owned_by_def)
  moreover have "stop_waiting d \<Longrightarrow> state d \<noteq> Started" by (auto simp: stop_waiting_def)
  ultimately show ?thesis
    using dev_inv_phase [OF assms] unfolding assertions_hold_def by force
qed

section \<open>Progress\<close>

text \<open>A bound on the control steps left: each one lowers it, with faults or without.\<close>

fun worker_rank :: "worker_pc \<Rightarrow> nat" where
  "worker_rank W_init = 2" | "worker_rank W_init_signal = 1"
| "worker_rank W_reset = 13" | "worker_rank W_check_quit = 12" | "worker_rank W_assert = 11"
| "worker_rank W_start = 10" | "worker_rank W_start_failed = 1" | "worker_rank W_set_started = 9"
| "worker_rank W_signal_started = 8" | "worker_rank W_notify = 7" | "worker_rank W_loop = 5"
| "worker_rank W_body = 6" | "worker_rank W_stop = 4" | "worker_rank W_check = 3"
| "worker_rank W_set_stopped = 2" | "worker_rank W_signal_stopped = 1" | "worker_rank _ = 0"

fun client_rank :: "client_pc \<Rightarrow> nat" where
  "client_rank Init_create = 6" | "client_rank Init_wait = 2" | "client_rank Init_assert = 1"
| "client_rank Init_set_stopped = 1"
| "client_rank Start_check_uninit = 27" | "client_rank Start_check_started = 26" | "client_rank Start_lock = 25"
| "client_rank Start_recheck = 24" | "client_rank Start_assert = 23" | "client_rank Start_set_starting = 22"
| "client_rank Start_backend = 4" | "client_rank Start_set_started = 3" | "client_rank Start_wakeup = 21"
| "client_rank Start_wait = 4" | "client_rank Start_result = 3" | "client_rank (Start_finish _) = 2"
| "client_rank (Start_unlock _) = 1"
| "client_rank Stop_check_uninit = 12" | "client_rank Stop_check_stopped = 11" | "client_rank Stop_lock = 10"
| "client_rank Stop_recheck = 9" | "client_rank Stop_assert = 8" | "client_rank Stop_set_stopping = 7"
| "client_rank Stop_backend = 4" | "client_rank (Stop_set_stopped _) = 3"
| "client_rank Stop_assert_not_started = 5" | "client_rank Stop_wakeup = 4" | "client_rank Stop_wait = 3"
| "client_rank (Stop_clear _) = 2" | "client_rank (Stop_unlock _) = 1"
| "client_rank Uninit_check = 20" | "client_rank Uninit_set = 19" | "client_rank Uninit_signal = 18"
| "client_rank Uninit_join = 2" | "client_rank Uninit_backend = 1" | "client_rank _ = 0"

definition base_rank :: "ma_device \<Rightarrow> nat" where
  "base_rank d = worker_rank (worker d) + (if wakeupEvent d then 14 else 0)"

definition dev_rank :: "ma_device \<Rightarrow> nat" where
  "dev_rank d = base_rank d + sum_list (map client_rank (clients d))"

lemma sum_list_update_nat:
  "i < length xs \<Longrightarrow> sum_list ((map f xs)[i := y]) + f (xs ! i) = sum_list (map f xs) + (y :: nat)"
  by (induction xs arbitrary: i) (auto split: nat.split)

lemma rank_goto:
  assumes "i < length (clients d)" "clients e = clients d"
    and "base_rank e + client_rank pc < base_rank d + client_rank (clients d ! i)"
  shows "dev_rank (goto i pc e) < dev_rank d"
  using sum_list_update_nat [of i "clients d" client_rank "client_rank pc"] assms
  by (simp add: dev_rank_def base_rank_def goto_def map_update)

lemma worker_rank_less: "worker_step cfg fault r v d = Some e \<Longrightarrow> dev_rank e < dev_rank d"
  by (cases "worker d"; simp only: worker_at option.inject option.distinct split: if_splits; clarify?;
      simp add: dev_rank_def base_rank_def)

lemma client_stepE:
  assumes "client_step cfg i r d = Some e"
  obtains "init_step cfg i (clients d ! i) d = Some e" | "ma_device_start cfg i r (clients d ! i) d = Some e"
    | "ma_device_stop cfg i r (clients d ! i) d = Some e" | "ma_device_uninit cfg i (clients d ! i) d = Some e"
  using assms unfolding client_step_def Let_def by (auto split: option.splits if_splits)

lemma client_rank_less:
  assumes "client_step cfg i r d = Some e" shows "dev_rank e < dev_rank d"
proof -
  have i: "i < length (clients d)" using assms by (simp add: client_step_def split: if_splits)
  note less = rank_goto [OF i]
  show ?thesis using assms
  proof (cases rule: client_stepE)
    case 1
    then show ?thesis
      by (cases "clients d ! i") (auto simp: init_step_def step_defs base_rank_def intro!: less split: if_splits)
  next
    case 2
    then show ?thesis
      by (cases "clients d ! i")
        (auto simp: ma_device_start_def ma_mutex_lock_def ma_mutex_unlock_def step_defs base_rank_def Let_def
          intro!: less split: if_splits)
  next
    case 3
    then show ?thesis
      by (cases "clients d ! i")
        (auto simp: ma_device_stop_def ma_mutex_lock_def ma_mutex_unlock_def step_defs base_rank_def
          intro!: less split: if_splits)
  next
    case 4
    then show ?thesis
      by (cases "clients d ! i")
        (auto simp: ma_device_uninit_def step_defs base_rank_def intro!: less split: if_splits)
  qed
qed

lemma control_rank_less: "control cfg faulty d e \<Longrightarrow> dev_rank e < dev_rank d"
  by (auto elim!: controlE dest: worker_rank_less client_rank_less)

lemma control_rank_run: "(control cfg faulty ^^ n) d e \<Longrightarrow> n + dev_rank e \<le> dev_rank d"
proof (induction n arbitrary: e)
  case (Suc n)
  then obtain c where "(control cfg faulty ^^ n) d c" "control cfg faulty c e" by auto
  then show ?case using Suc.IH control_rank_less by fastforce
qed simp

lemma control_reach_run:
  "(control cfg faulty ^^ n) d e \<Longrightarrow> dev_reach cfg faulty d \<Longrightarrow> dev_reach cfg faulty e"
  by (induction n arbitrary: e) (auto intro: dev_reach.step dev_step.control)

text \<open>A client that is not waiting can move, and whoever it waits for can, too.\<close>

definition blocked :: "client_pc \<Rightarrow> bool" where
  "blocked pc \<longleftrightarrow> at_rest pc \<or> pc \<in> {Start_lock, Stop_lock, Init_wait, Start_wait, Stop_wait, Uninit_join, Destroyed}"

lemma client_enabled:
  assumes "i < length (clients d)" "\<not> blocked (clients d ! i)"
  shows "client_step cfg i r d \<noteq> None"
  using assms
  by (cases "clients d ! i")
    (simp_all add: client_step_def blocked_def init_step_def ma_device_start_def ma_device_stop_def
      ma_device_uninit_def Let_def split: option.splits)

lemma lock_enabled:
  assumes "i < length (clients d)" "clients d ! i \<in> {Start_lock, Stop_lock}" "startStopLock d = None"
  shows "client_step cfg i r d \<noteq> None"
  using assms by (auto simp: client_step_def init_step_def ma_device_start_def ma_device_stop_def ma_mutex_lock_def)

lemma enabled_control: "client_step cfg i r d \<noteq> None \<Longrightarrow> \<exists>e. control cfg False d e"
  by (auto intro: control.client)

lemma worker_enabled: "worker d \<notin> {W_none, W_exit, W_wait, W_loop} \<Longrightarrow> \<exists>e. control cfg False d e"
  using control.worker [of cfg False 0 "(0, 0, 0)" d]
  by (cases "worker d") (auto simp: worker_at simp del: not_None_eq)

lemma worker_enabled_wait: "worker d = W_wait \<Longrightarrow> wakeupEvent d \<Longrightarrow> \<exists>e. control cfg False d e"
  using control.worker [of cfg False 0 "(0, 0, 0)" d] by (auto simp: worker_at)

lemma worker_enabled_loop: "worker d = W_loop \<Longrightarrow> state d \<noteq> Started \<Longrightarrow> \<exists>e. control cfg False d e"
  using control.worker [of cfg False 0 "(0, 0, 0)" d] by (auto simp: worker_at)

lemma waiting_enabled:
  assumes "i < length (clients d)" "phase cfg d (clients d ! i)"
    and "clients d ! i \<in> {Init_wait, Start_wait, Stop_wait, Uninit_join}"
  shows "\<exists>e. control cfg False d e"
proof -
  have "stopEvent d \<Longrightarrow> clients d ! i = Init_wait \<Longrightarrow> client_step cfg i r d \<noteq> None"
    "startEvent d \<Longrightarrow> clients d ! i = Start_wait \<Longrightarrow> client_step cfg i r d \<noteq> None"
    "stopEvent d \<Longrightarrow> clients d ! i = Stop_wait \<Longrightarrow> client_step cfg i r d \<noteq> None"
    "worker d = W_exit \<Longrightarrow> clients d ! i = Uninit_join \<Longrightarrow> client_step cfg i r d \<noteq> None" for r
    using assms(1) by (auto simp: client_step_def init_step_def ma_device_start_def ma_device_stop_def
      ma_device_uninit_def step_defs)
  then have wake: "stopEvent d \<Longrightarrow> clients d ! i = Init_wait \<Longrightarrow> ?thesis"
    "startEvent d \<Longrightarrow> clients d ! i = Start_wait \<Longrightarrow> ?thesis"
    "stopEvent d \<Longrightarrow> clients d ! i = Stop_wait \<Longrightarrow> ?thesis"
    "worker d = W_exit \<Longrightarrow> clients d ! i = Uninit_join \<Longrightarrow> ?thesis"
    using enabled_control by blast+
  note work = worker_enabled [of d cfg] worker_enabled_wait [of d cfg] worker_enabled_loop [of d cfg]
  consider "clients d ! i = Init_wait" | "clients d ! i = Start_wait" | "clients d ! i = Stop_wait"
    | "clients d ! i = Uninit_join" using assms(3) by blast
  then show ?thesis
  proof cases
    case 1
    then show ?thesis using assms(2) wake(1) work(1) by auto
  next
    case 2
    then have "start_waiting d" using assms(2) by simp
    then show ?thesis unfolding start_waiting_def using 2 wake(2) work(1,2) by auto
  next
    case 3
    then have "stop_waiting d" using assms(2) by simp
    then show ?thesis unfolding stop_waiting_def using 3 wake(3) work(1,3) by auto
  next
    case 4
    then have "uninit_waiting d \<or> uninit_woken d" using assms(2) by simp
    then show ?thesis unfolding uninit_waiting_def uninit_woken_def using 4 wake(4) work
      by (auto split: if_splits)
  qed
qed

definition finished :: "client_pc \<Rightarrow> bool" where
  "finished c \<longleftrightarrow> at_rest c \<or> c = Destroyed"

lemma owner_enabled:
  assumes "owned_by cfg d i" "clients d ! i \<noteq> Destroyed"
  shows "\<exists>e. control cfg False d e"
proof (cases "blocked (clients d ! i)")
  case True
  then have "clients d ! i \<in> {Init_wait, Start_wait, Stop_wait, Uninit_join}"
    using assms by (auto simp: blocked_def owned_by_def owning_def)
  then show ?thesis using waiting_enabled assms(1) by (auto simp: owned_by_def)
next
  case False
  then show ?thesis using client_enabled [of i d cfg 0] enabled_control [of cfg i 0 d] assms(1) by (simp add: owned_by_def)
qed

lemma dev_progress:
  assumes "dev_inv cfg d" "\<And>e. \<not> control cfg False d e"
  shows "(\<forall>c \<in> set (clients d). finished c) \<and> startStopLock d = None"
proof (cases "unowned cfg d")
  case True
  have "at_rest (clients d ! i)" if i: "i < length (clients d)" for i
  proof (rule ccontr)
    assume "\<not> at_rest (clients d ! i)"
    moreover have "\<not> owning (clients d ! i)" using True i by (simp add: unowned_def)
    ultimately have "client_step cfg i 0 d \<noteq> None"
      using client_enabled [OF i] lock_enabled [OF i] True by (auto simp: owning_def blocked_def unowned_def)
    then show False using assms(2) enabled_control by blast
  qed
  then show ?thesis using True by (auto simp: in_set_conv_nth finished_def unowned_def)
next
  case False
  then obtain i where i: "owned_by cfg d i" using assms(1) by (auto simp: dev_inv_def)
  then have "clients d ! i = Destroyed" using owner_enabled assms(2) by blast
  then show ?thesis using i unfolding owned_by_def finished_def
    by (auto simp: in_set_conv_nth exclusive_def)
qed

section \<open>Runs\<close>

datatype dev_act = Work | Fault | Client nat | Iterate | Call nat client_pc

fun do_act :: "dev_cfg \<Rightarrow> dev_act \<Rightarrow> ma_device \<Rightarrow> ma_device option" where
  "do_act cfg Work d = worker_step cfg False 0 (0, 0, 0) d"
| "do_act cfg Fault d = worker_step cfg True 0 (0, 0, 0) d"
| "do_act cfg (Client i) d = client_step cfg i 0 d"
| "do_act cfg Iterate d = worker_iterate d"
| "do_act cfg (Call i pc) d = begin_call i pc d"

fun do_acts :: "dev_cfg \<Rightarrow> dev_act list \<Rightarrow> ma_device \<Rightarrow> ma_device option" where
  "do_acts cfg [] d = Some d"
| "do_acts cfg (a # as) d = (case do_act cfg a d of None \<Rightarrow> None | Some e \<Rightarrow> do_acts cfg as e)"

lemma do_act_step: "do_act cfg a d = Some e \<Longrightarrow> (a = Fault \<longrightarrow> faulty) \<Longrightarrow> dev_step cfg faulty d e"
  by (cases a) (auto intro: dev_step.intros control.intros)

lemma do_acts_reach:
  "do_acts cfg as d = Some e \<Longrightarrow> (Fault \<in> set as \<longrightarrow> faulty) \<Longrightarrow> dev_reach cfg faulty d \<Longrightarrow> dev_reach cfg faulty e"
proof (induction "as" arbitrary: d)
  case (Cons a "as")
  then obtain c where c: "do_act cfg a d = Some c" "do_acts cfg as c = Some e" by (auto split: option.splits)
  have "dev_step cfg faulty d c" using do_act_step [OF c(1)] Cons.prems(2) by auto
  then show ?case using Cons.IH [OF c(2)] Cons.prems dev_reach.step by auto
qed simp

lemma do_acts_from_start:
  "do_acts cfg as (dev_start n) = Some e \<Longrightarrow> (Fault \<in> set as \<longrightarrow> faulty) \<Longrightarrow> dev_reach cfg faulty e"
  using do_acts_reach dev_reach.start by blast

text \<open>A backend with blocking reads and writes, such as ALSA.\<close>

definition blocking_backend :: dev_cfg where
  "blocking_backend = \<lparr>onDeviceRead = True, onDeviceWrite = True, onDeviceDataLoop = False,
     onDeviceStart = True, onDeviceStop = True\<rparr>"

definition run_init :: "dev_act list" where
  "run_init = [Client 0, Work, Work, Client 0, Client 0]"

definition run_start :: "nat \<Rightarrow> dev_act list" where
  "run_start i = Call i Start_check_uninit # replicate 7 (Client i) @ replicate 7 Work @ replicate 4 (Client i) @ [Work]"

text \<open>The data loop fails once and the worker stops the device; a client starts it again and then stops it.\<close>

definition run_stale :: "dev_act list" where
  "run_stale = run_init @ run_start 0 @ [Fault] @ replicate 4 Work @
     run_start 0 @ [Iterate, Work, Iterate] @ Call 0 Stop_check_uninit # replicate 11 (Client 0)"

text \<open>The data loop fails while the device is being uninitialised.\<close>

definition run_lost_join :: "dev_act list" where
  "run_lost_join = run_init @ run_start 0 @ [Fault, Work, Work] @
     [Call 0 Uninit_check, Client 0, Client 0, Work, Work, Client 0] @ replicate 8 Work"

lemmas run_defs = run_init_def run_start_def numeral_nat dev_start_def client_step_def init_step_def
  ma_device_start_def ma_device_stop_def ma_device_uninit_def worker_simps worker_iterate_def ma_mutex_lock_def
  ma_mutex_unlock_def begin_call_def exclusive_def goto_def blocking_backend_def ma_context_is_backend_asynchronous_def

lemma run_stale_end:
  "\<exists>d. do_acts blocking_backend run_stale (dev_start 0) = Some d \<and> clients d = [Returned Call_stop MA_SUCCESS] \<and>
     state d = Stopping \<and> backend_on d \<and> worker d = W_body"
  by (simp add: run_stale_def run_defs)

lemma run_lost_join_end:
  "\<exists>d. do_acts blocking_backend run_lost_join (dev_start 0) = Some d \<and> clients d = [Uninit_join] \<and>
     state d = Started \<and> backend_on d \<and> worker d = W_loop"
  by (simp add: run_lost_join_def run_defs ma_device__is_initialized_def)

text \<open>From there nothing but iterations of the data loop is left.\<close>

definition lost_join :: "ma_device \<Rightarrow> bool" where
  "lost_join d \<longleftrightarrow> clients d = [Uninit_join] \<and> state d = Started \<and> worker d \<in> {W_loop, W_body}"

lemma lost_join_worker: "worker_step cfg False r v d = Some e \<Longrightarrow> lost_join d \<Longrightarrow> lost_join e"
  unfolding lost_join_def
  by (elim conjE insertE emptyE; simp only: worker_at option.inject option.distinct split: if_splits; clarify?; simp)

lemma lost_join_client: "lost_join d \<Longrightarrow> client_step cfg i r d = None"
  by (auto simp: lost_join_def client_step_def init_step_def ma_device_start_def ma_device_stop_def ma_device_uninit_def)

lemma lost_join_step: "dev_step cfg False d e \<Longrightarrow> lost_join d \<Longrightarrow> lost_join e"
proof (induction rule: dev_step.induct)
  case (control d e)
  then show ?case using lost_join_worker lost_join_client by (auto elim!: controlE)
next
  case (iterate d e)
  then show ?case by (auto simp: worker_iterate_def lost_join_def split: if_splits)
next
  case (callback v d e)
  then show ?case by (cases v) (auto simp: async_audio_def lost_join_def split: if_splits)
next
  case (call i pc d e)
  then show ?case by (auto simp: begin_call_def lost_join_def split: if_splits)
qed

lemma lost_join_steps: "(dev_step cfg False)\<^sup>*\<^sup>* d e \<Longrightarrow> lost_join d \<Longrightarrow> lost_join e"
  by (induction rule: rtranclp_induct) (auto intro: lost_join_step)

lemma worker_rank_le: "worker_rank w \<le> 13" by (cases w) simp_all

lemma client_rank_le: "client_rank c \<le> 27" by (cases c) simp_all

lemma dev_rank_le: "dev_rank d \<le> 27 * (1 + length (clients d))"
proof -
  have "sum_list (map client_rank cs) \<le> 27 * length cs" for cs
    by (induction cs) (use client_rank_le in \<open>auto intro: order_trans add_mono\<close>)
  from this [of "clients d"] show ?thesis
    using worker_rank_le [of "worker d"] by (simp add: dev_rank_def base_rank_def)
qed

lemma do_acts_control:
  "do_acts cfg as d = Some e \<Longrightarrow> set as \<subseteq> insert Work (range Client) \<Longrightarrow> (control cfg False ^^ length as) d e"
proof (induction "as" arbitrary: d)
  case (Cons a "as")
  then obtain c where c: "do_act cfg a d = Some c" "do_acts cfg as c = Some e" by (auto split: option.splits)
  have "control cfg False d c" using c(1) Cons.prems(2) by (auto intro: control.intros)
  moreover have "(control cfg False ^^ length as) c e" using Cons.IH [OF c(2)] Cons.prems(2) by auto
  ultimately show ?case using relpowp_Suc_I2 by fastforce
qed simp

section \<open>Properties\<close>

text \<open>C15: Starting and stopping a device is safe for any number of client threads, in any interleaving
  with the worker thread, as long as the data loop runs until it is told to stop. Every \<open>MA_ASSERT\<close> of
  these functions holds; at most one client is between lock and unlock; a start that is about to return
  success leaves the device started with its backend on, one that is about to return an error leaves it
  stopped with its backend off; a stop that is about to return leaves it stopped, the backend off, the
  playback caches empty and the worker waiting for work; and when \<open>ma_device_uninit\<close> goes on to release
  the backend, the worker has ended.\<close>

theorem device_calls_safe:
  assumes "dev_cfg_ok cfg" "dev_reach cfg False d"
  shows "assertions_hold d \<and>
    (\<forall>i < length (clients d). \<forall>j < length (clients d).
       in_critical (clients d ! i) \<and> in_critical (clients d ! j) \<longrightarrow> i = j) \<and>
    (\<forall>c \<in> set (clients d). \<forall>r.
      (c = Start_unlock r \<longrightarrow> (if r = MA_SUCCESS then state d = Started \<and> backend_on d
         else state d = Stopped \<and> \<not> backend_on d)) \<and>
      (c = Stop_unlock r \<longrightarrow> state d = Stopped \<and> \<not> backend_on d \<and> intermediaryBufferLen d = 0 \<and>
         inputCacheConsumed d = 0 \<and> inputCacheRemaining d = 0 \<and> (\<not> async cfg \<longrightarrow> worker d = W_wait)) \<and>
      (c = Uninit_backend \<and> \<not> async cfg \<longrightarrow> worker d = W_exit \<and> \<not> backend_on d))"
proof -
  have inv: "dev_inv cfg d" using dev_reach_inv assms by blast
  have "i = j" if "i < length (clients d)" "j < length (clients d)"
    "in_critical (clients d ! i)" "in_critical (clients d ! j)" for i j
    using owning_owned_by [OF inv that(1)] that by (auto simp: in_critical_def owned_by_def)
  moreover have "phase cfg d c" if "c \<in> set (clients d)" for c using dev_inv_phase inv that by blast
  note phase = this
  have "if r = 0 then state d = Started \<and> backend_on d else state d = Stopped \<and> \<not> backend_on d"
    if "Start_unlock r \<in> set (clients d)" for r
    using phase [OF that] by (auto simp: quiet_def running_def backend_off_def)
  moreover have "state d = Stopped \<and> \<not> backend_on d \<and> intermediaryBufferLen d = 0 \<and>
      inputCacheConsumed d = 0 \<and> inputCacheRemaining d = 0 \<and> (\<not> async cfg \<longrightarrow> worker d = W_wait)"
    if "Stop_unlock r \<in> set (clients d)" for r
    using phase [OF that] by (auto simp: quiet_def resting_def backend_off_def)
  moreover have "worker d = W_exit \<and> \<not> backend_on d" if "Uninit_backend \<in> set (clients d)" "\<not> async cfg"
    using phase [OF that(1)] that(2) by simp
  ultimately show ?thesis using dev_inv_assertions [OF inv] by blast
qed

lemma device_calls_safe_witness:
  "\<exists>d :: ma_device. clients d = [Start_unlock MA_SUCCESS, Returned Call_none MA_SUCCESS] \<and> state d = Started \<and> backend_on d"
proof -
  obtain d where d: "do_acts blocking_backend (run_init @ butlast (butlast (run_start 0))) (dev_start 1) = Some d"
    "clients d = [Start_unlock MA_SUCCESS, Returned Call_none MA_SUCCESS]"
    by (simp add: run_defs)
  have "dev_reach blocking_backend False d"
    using do_acts_from_start [OF d(1)] by (simp add: run_init_def run_start_def numeral_nat)
  moreover have "dev_cfg_ok blocking_backend"
    by (simp add: dev_cfg_ok_def blocking_backend_def)
  ultimately have "state d = Started \<and> backend_on d" using device_calls_safe [of blocking_backend d] d(2) by auto
  then show ?thesis using d(2) by blast
qed

text \<open>C16: Calls return. In every fault-free reachable state of a device with \<open>n\<close> client threads the
  worker and the clients together can take at most \<open>27 * (1 + n)\<close> more steps before all of them wait for
  each other or for a new call, not counting iterations of the data loop; and when none of them can
  move, no call is waiting: every client is outside of a call (or has destroyed the device) and the lock
  is free. So there is no deadlock, no lost wake-up and no call that never returns.\<close>

theorem device_calls_return:
  assumes "dev_cfg_ok cfg" "dev_reach cfg False d" "(control cfg False ^^ n) d e"
  shows "n \<le> 27 * (1 + length (clients d)) \<and>
    ((\<forall>f. \<not> control cfg False e f) \<longrightarrow> (\<forall>c \<in> set (clients e). finished c) \<and> startStopLock e = None)"
proof -
  have "dev_inv cfg e" using control_reach_run assms(2,3) dev_reach_inv assms(1) by blast
  then show ?thesis using dev_progress control_rank_run [OF assms(3)] dev_rank_le [of d] by force
qed

lemma device_calls_return_witness:
  "\<exists>e. (control blocking_backend False ^^ 5) (dev_start 0) e \<and> 5 \<le> 27 * (1 + length (clients (dev_start 0))) \<and>
     clients e = [Returned Call_init MA_SUCCESS] \<and> startStopLock e = None"
proof -
  obtain e where e: "do_acts blocking_backend run_init (dev_start 0) = Some e"
    "clients e = [Returned Call_init MA_SUCCESS]" "worker e = W_wait" "\<not> wakeupEvent e"
    by (simp add: run_defs)
  have run: "(control blocking_backend False ^^ 5) (dev_start 0) e"
    using do_acts_control [OF e(1)] by (simp add: run_init_def image_iff numeral_nat del: relpowp.simps)
  have "\<not> control blocking_backend False e f" for f
    using e(2-4) by (auto elim!: controlE simp: worker_at client_step_def init_step_def ma_device_start_def
      ma_device_stop_def ma_device_uninit_def split: if_splits)
  then show ?thesis
    using device_calls_return [OF _ dev_reach.start run] run e(2)
    by (auto simp: dev_cfg_ok_def blocking_backend_def)
qed

text \<open>C20: When the data loop leaves by itself, as it does after an error of a read or a write, two of
  these guarantees are lost. The worker then signals \<open>stopEvent\<close> although nobody waits for it; the event
  stays set, and a later \<open>ma_device_stop\<close> takes it for its own: it returns success while the device is
  still stopping and the worker is inside of an iteration with the backend on. And if the worker stores
  the stopped state after \<open>ma_device_uninit\<close> has stored the uninitialised one, the wake-up meant to end
  the worker starts the device again: \<open>ma_device_uninit\<close> waits for a thread that keeps playing.\<close>

theorem device_fault_races:
  "(\<exists>d. dev_reach blocking_backend True d \<and> clients d = [Returned Call_stop MA_SUCCESS] \<and>
      state d = Stopping \<and> backend_on d \<and> worker d = W_body) \<and>
   (\<exists>d. dev_reach blocking_backend True d \<and> backend_on d \<and> clients d = [Uninit_join] \<and>
      {e. (dev_step blocking_backend False)\<^sup>*\<^sup>* d e} \<subseteq> {e. clients e = [Uninit_join] \<and> state e = Started})"
proof -
  obtain d where d: "do_acts blocking_backend run_stale (dev_start 0) = Some d" "clients d = [Returned Call_stop MA_SUCCESS]"
     "state d = Stopping" "backend_on d" "worker d = W_body"
    using run_stale_end by blast
  obtain j where j: "do_acts blocking_backend run_lost_join (dev_start 0) = Some j" "clients j = [Uninit_join]"
     "state j = Started" "backend_on j" "worker j = W_loop"
    using run_lost_join_end by blast
  have "lost_join e" if "(dev_step blocking_backend False)\<^sup>*\<^sup>* j e" for e
    using lost_join_steps [OF that] j by (simp add: lost_join_def)
  then have "{e. (dev_step blocking_backend False)\<^sup>*\<^sup>* j e} \<subseteq> {e. clients e = [Uninit_join] \<and> state e = Started}"
    by (auto simp: lost_join_def)
  moreover have "dev_reach blocking_backend True d" "dev_reach blocking_backend True j"
    using do_acts_from_start d(1) j(1) by blast+
  ultimately show ?thesis using d j by blast
qed

end
