(* ===== verification/Ma_Pcm.thy ===== *)
theory Ma_Pcm
  imports CFloat
begin

text \<open>
  Sample format conversion in miniaudio (\<open>client/native/miniaudio.h\<close>, the \<open>ma_pcm_*\<close> functions, the
  dither generator behind them and \<open>ma_pcm_convert\<close>). A buffer is the list of its elements: bytes for
  \<open>u8\<close> and for the packed \<open>s24\<close>, words for \<open>s16\<close> and \<open>s32\<close>, floats for \<open>f32\<close>; a conversion reads
  \<open>count\<close> samples and returns the \<open>count\<close> samples it stores. The \<open>__optimized\<close>, \<open>__sse2\<close> and \<open>__neon\<close>
  variants call the \<open>__reference\<close> one, which is what is modelled, except those of \<open>ma_pcm_f32_to_s16\<close>, which have bodies of
  their own: they are modelled with the choice between them.
  Left shifts of negative numbers and the generator's signed multiplication wrap; signed overflow in
  a dithered \<open>s32\<close> sum and a cast of a NaN are undefined: \<open>None\<close>.
\<close>

section \<open>Formats\<close>

datatype ma_format = ma_format_unknown | ma_format_u8 | ma_format_s16 | ma_format_s24 | ma_format_s32 | ma_format_f32

fun ma_get_bytes_per_sample :: "ma_format \<Rightarrow> u32" where
  "ma_get_bytes_per_sample ma_format_unknown = 0"
| "ma_get_bytes_per_sample ma_format_u8 = 1"
| "ma_get_bytes_per_sample ma_format_s16 = 2"
| "ma_get_bytes_per_sample ma_format_s24 = 3"
| "ma_get_bytes_per_sample ma_format_s32 = 4"
| "ma_get_bytes_per_sample ma_format_f32 = 4"

definition ma_get_bytes_per_frame :: "ma_format \<Rightarrow> u32 \<Rightarrow> u32" where
  "ma_get_bytes_per_frame fmt channels = ma_get_bytes_per_sample fmt * channels"

text \<open>The size of the temporary buffers through which frames are converted.\<close>

definition MA_DATA_CONVERTER_STACK_BUFFER_SIZE :: u32 where
  "MA_DATA_CONVERTER_STACK_BUFFER_SIZE = 4096"

datatype ma_dither_mode = ma_dither_mode_none | ma_dither_mode_rectangle | ma_dither_mode_triangle

section \<open>The dither generator\<close>

text \<open>The state of the linear congruential generator is a signed 32-bit word; \<open>%\<close> truncates.\<close>

type_synonym lcg = i32

definition MA_DEFAULT_LCG_SEED :: lcg where
  "MA_DEFAULT_LCG_SEED = 4321"

definition ma_lcg_rand_s32 :: "lcg \<Rightarrow> i32 \<times> lcg" where
  "ma_lcg_rand_s32 st =
     (let a = sint (48271 * st);
          s = word_of_int (a - 2147483647 * cdiv a 2147483647)
      in (s, s))"

definition ma_lcg_rand_u32 :: "lcg \<Rightarrow> u32 \<times> lcg" where
  "ma_lcg_rand_u32 st = ma_lcg_rand_s32 st"

definition ma_lcg_rand_f64 :: "lcg \<Rightarrow> f64 \<times> lcg" where
  "ma_lcg_rand_f64 st = (let (r, st) = ma_lcg_rand_s32 st in (fp_divc f64 (f64 (of_int (sint r))) 2147483647, st))"

definition ma_lcg_rand_f32 :: "lcg \<Rightarrow> f32 \<times> lcg" where
  "ma_lcg_rand_f32 st = (let (r, st) = ma_lcg_rand_f64 st in (fp_cast f32 r, st))"

definition ma_scale_to_range_f32 :: "f32 \<Rightarrow> f32 \<Rightarrow> f32 \<Rightarrow> f32" where
  "ma_scale_to_range_f32 x lo hi = fp_add f32 lo (fp_mul f32 x (fp_sub f32 hi lo))"

definition ma_lcg_rand_range_f32 :: "lcg \<Rightarrow> f32 \<Rightarrow> f32 \<Rightarrow> f32 \<times> lcg" where
  "ma_lcg_rand_range_f32 st lo hi = (let (r, st) = ma_lcg_rand_f32 st in (ma_scale_to_range_f32 r lo hi, st))"

definition ma_lcg_rand_range_s32 :: "lcg \<Rightarrow> i32 \<Rightarrow> i32 \<Rightarrow> i32 \<times> lcg" where
  "ma_lcg_rand_range_s32 st lo hi =
     (if lo = hi then (lo, st)
      else let (r, st) = ma_lcg_rand_u32 st in (lo + r div (0xFFFFFFFF div (hi - lo + 1) + 1), st))"

definition ma_dither_f32 :: "ma_dither_mode \<Rightarrow> f32 \<Rightarrow> f32 \<Rightarrow> lcg \<Rightarrow> f32 \<times> lcg" where
  "ma_dither_f32 ditherMode ditherMin ditherMax st =
     (case ditherMode of
        ma_dither_mode_none \<Rightarrow> (Fin 0, st)
      | ma_dither_mode_rectangle \<Rightarrow> ma_lcg_rand_range_f32 st ditherMin ditherMax
      | ma_dither_mode_triangle \<Rightarrow>
          let (a, st) = ma_lcg_rand_range_f32 st ditherMin (Fin 0);
              (b, st) = ma_lcg_rand_range_f32 st (Fin 0) ditherMax
          in (fp_add f32 a b, st))"

definition ma_dither_s32 :: "ma_dither_mode \<Rightarrow> i32 \<Rightarrow> i32 \<Rightarrow> lcg \<Rightarrow> i32 \<times> lcg" where
  "ma_dither_s32 ditherMode ditherMin ditherMax st =
     (case ditherMode of
        ma_dither_mode_none \<Rightarrow> (0, st)
      | ma_dither_mode_rectangle \<Rightarrow> ma_lcg_rand_range_s32 st ditherMin ditherMax
      | ma_dither_mode_triangle \<Rightarrow>
          let (a, st) = ma_lcg_rand_range_s32 st ditherMin 0;
              (b, st) = ma_lcg_rand_range_s32 st 0 ditherMax
          in (a + b, st))"

section \<open>Loops over samples\<close>

text \<open>A loop that draws random numbers threads the generator's state through the samples in order.\<close>

fun with_lcg :: "('a \<Rightarrow> lcg \<Rightarrow> 'b \<times> lcg) \<Rightarrow> 'a list \<Rightarrow> lcg \<Rightarrow> 'b list \<times> lcg" where
  "with_lcg f [] st = ([], st)"
| "with_lcg f (x # xs) st = (let (y, st) = f x st; (ys, st) = with_lcg f xs st in (y # ys, st))"

fun try_lcg :: "('a \<Rightarrow> lcg \<Rightarrow> ('b \<times> lcg) option) \<Rightarrow> 'a list \<Rightarrow> lcg \<Rightarrow> ('b list \<times> lcg) option" where
  "try_lcg f [] st = Some ([], st)"
| "try_lcg f (x # xs) st =
     (case f x st of
        None \<Rightarrow> None
      | Some (y, st) \<Rightarrow> (case try_lcg f xs st of None \<Rightarrow> None | Some (ys, st) \<Rightarrow> Some (y # ys, st)))"

section \<open>From \<open>u8\<close>\<close>

definition ma_pcm_u8_to_u8 :: "u8 list \<Rightarrow> nat \<Rightarrow> u8 list" where
  "ma_pcm_u8_to_u8 src count = take count src"

definition ma_pcm_u8_to_s16 :: "u8 list \<Rightarrow> nat \<Rightarrow> i16 list" where
  "ma_pcm_u8_to_s16 src count =
     map (\<lambda>i. let x = ucast (src ! i) :: i16; x = x - 128 in push_bit 8 x) [0..<count]"

definition ma_pcm_u8_to_s24 :: "u8 list \<Rightarrow> nat \<Rightarrow> u8 list" where
  "ma_pcm_u8_to_s24 src count =
     concat (map (\<lambda>i. let x = ucast (src ! i) :: i16; x = x - 128 in [0, 0, ucast x]) [0..<count])"

definition ma_pcm_u8_to_s32 :: "u8 list \<Rightarrow> nat \<Rightarrow> i32 list" where
  "ma_pcm_u8_to_s32 src count =
     map (\<lambda>i. let x = ucast (src ! i) :: i32; x = x - 128 in push_bit 24 x) [0..<count]"

definition ma_pcm_u8_to_f32 :: "u8 list \<Rightarrow> nat \<Rightarrow> f32 list" where
  "ma_pcm_u8_to_f32 src count =
     map (\<lambda>i. let x = f32 (of_nat (unat (src ! i)));
                  x = fp_mul f32 x (f32 (784313725490196078 / 10 ^ 20))
              in fp_sub f32 x (Fin 1)) [0..<count]"

section \<open>From \<open>s16\<close>\<close>

definition ma_pcm_s16_to_u8 :: "i16 list \<Rightarrow> nat \<Rightarrow> ma_dither_mode \<Rightarrow> lcg \<Rightarrow> u8 list \<times> lcg" where
  "ma_pcm_s16_to_u8 src count ditherMode =
     (if ditherMode = ma_dither_mode_none
      then Pair (map (\<lambda>i. ucast (signed_drop_bit 8 (src ! i) + 128)) [0..<count])
      else with_lcg (\<lambda>i st.
             let x = src ! i;
                 (dither, st) = ma_dither_s32 ditherMode (- 0x80) 0x7F st;
                 x = (if sint (scast x + dither) \<le> 0x7FFF then ucast (scast x + dither) else 0x7FFF) :: i16
             in (ucast (signed_drop_bit 8 x + 128), st)) [0..<count])"

definition ma_pcm_s16_to_s16 :: "i16 list \<Rightarrow> nat \<Rightarrow> i16 list" where
  "ma_pcm_s16_to_s16 src count = take count src"

definition ma_pcm_s16_to_s24 :: "i16 list \<Rightarrow> nat \<Rightarrow> u8 list" where
  "ma_pcm_s16_to_s24 src count =
     concat (map (\<lambda>i. [0, ucast (src ! i AND 0xFF), ucast (signed_drop_bit 8 (src ! i))]) [0..<count])"

definition ma_pcm_s16_to_s32 :: "i16 list \<Rightarrow> nat \<Rightarrow> i32 list" where
  "ma_pcm_s16_to_s32 src count = map (\<lambda>i. push_bit 16 (scast (src ! i))) [0..<count]"

definition ma_pcm_s16_to_f32 :: "i16 list \<Rightarrow> nat \<Rightarrow> f32 list" where
  "ma_pcm_s16_to_f32 src count =
     map (\<lambda>i. fp_mul f32 (f32 (of_int (sint (src ! i)))) (f32 (30517578125 / 10 ^ 15))) [0..<count]"

section \<open>From \<open>s24\<close>\<close>

text \<open>The three bytes of sample \<open>i\<close> in the upper part of a signed 32-bit word.\<close>

definition s24_at :: "u8 list \<Rightarrow> nat \<Rightarrow> i32" where
  "s24_at src i = (push_bit 8 (ucast (src ! (i * 3 + 0))) OR push_bit 16 (ucast (src ! (i * 3 + 1))))
                  OR push_bit 24 (ucast (src ! (i * 3 + 2)))"

text \<open>\<open>x + dither\<close>, capped from above only; a sum below the 32-bit range is signed overflow.\<close>

definition dither_s32 :: "i32 \<Rightarrow> i32 \<Rightarrow> i32 option" where
  "dither_s32 x dither =
     (if sint x + sint dither \<le> 0x7FFFFFFF
      then if sint x + sint dither < - 0x80000000 then None else Some (x + dither)
      else Some 0x7FFFFFFF)"

definition ma_pcm_s24_to_u8 :: "u8 list \<Rightarrow> nat \<Rightarrow> ma_dither_mode \<Rightarrow> lcg \<Rightarrow> (u8 list \<times> lcg) option" where
  "ma_pcm_s24_to_u8 src count ditherMode =
     (if ditherMode = ma_dither_mode_none
      then \<lambda>st. Some (map (\<lambda>i. src ! (i * 3 + 2) + 128) [0..<count], st)
      else try_lcg (\<lambda>i st.
             let (dither, st) = ma_dither_s32 ditherMode (- 0x800000) 0x7FFFFF st
             in case dither_s32 (s24_at src i) dither of
                  None \<Rightarrow> None
                | Some x \<Rightarrow> Some (ucast (signed_drop_bit 24 x + 128), st)) [0..<count])"

definition ma_pcm_s24_to_s16 :: "u8 list \<Rightarrow> nat \<Rightarrow> ma_dither_mode \<Rightarrow> lcg \<Rightarrow> (i16 list \<times> lcg) option" where
  "ma_pcm_s24_to_s16 src count ditherMode =
     (if ditherMode = ma_dither_mode_none
      then \<lambda>st. Some (map (\<lambda>i. let dst_lo = ucast (src ! (i * 3 + 1));
                                   dst_hi = push_bit 8 (ucast (src ! (i * 3 + 2)))
                               in dst_lo OR dst_hi) [0..<count], st)
      else try_lcg (\<lambda>i st.
             let (dither, st) = ma_dither_s32 ditherMode (- 0x8000) 0x7FFF st
             in case dither_s32 (s24_at src i) dither of
                  None \<Rightarrow> None
                | Some x \<Rightarrow> Some (ucast (signed_drop_bit 16 x), st)) [0..<count])"

definition ma_pcm_s24_to_s24 :: "u8 list \<Rightarrow> nat \<Rightarrow> u8 list" where
  "ma_pcm_s24_to_s24 src count = take (count * 3) src"

definition ma_pcm_s24_to_s32 :: "u8 list \<Rightarrow> nat \<Rightarrow> i32 list" where
  "ma_pcm_s24_to_s32 src count = map (s24_at src) [0..<count]"

definition ma_pcm_s24_to_f32 :: "u8 list \<Rightarrow> nat \<Rightarrow> f32 list" where
  "ma_pcm_s24_to_f32 src count =
     map (\<lambda>i. let x = f32 (of_int (sint (signed_drop_bit 8 (s24_at src i))))
              in fp_mul f32 x (f32 (11920928955078125 / 10 ^ 23))) [0..<count]"

section \<open>From \<open>s32\<close>\<close>

definition ma_pcm_s32_to_u8 :: "i32 list \<Rightarrow> nat \<Rightarrow> ma_dither_mode \<Rightarrow> lcg \<Rightarrow> (u8 list \<times> lcg) option" where
  "ma_pcm_s32_to_u8 src count ditherMode =
     (if ditherMode = ma_dither_mode_none
      then \<lambda>st. Some (map (\<lambda>i. ucast (signed_drop_bit 24 (src ! i) + 128)) [0..<count], st)
      else try_lcg (\<lambda>i st.
             let (dither, st) = ma_dither_s32 ditherMode (- 0x800000) 0x7FFFFF st
             in case dither_s32 (src ! i) dither of
                  None \<Rightarrow> None
                | Some x \<Rightarrow> Some (ucast (signed_drop_bit 24 x + 128), st)) [0..<count])"

definition ma_pcm_s32_to_s16 :: "i32 list \<Rightarrow> nat \<Rightarrow> ma_dither_mode \<Rightarrow> lcg \<Rightarrow> (i16 list \<times> lcg) option" where
  "ma_pcm_s32_to_s16 src count ditherMode =
     (if ditherMode = ma_dither_mode_none
      then \<lambda>st. Some (map (\<lambda>i. ucast (signed_drop_bit 16 (src ! i))) [0..<count], st)
      else try_lcg (\<lambda>i st.
             let (dither, st) = ma_dither_s32 ditherMode (- 0x8000) 0x7FFF st
             in case dither_s32 (src ! i) dither of
                  None \<Rightarrow> None
                | Some x \<Rightarrow> Some (ucast (signed_drop_bit 16 x), st)) [0..<count])"

definition ma_pcm_s32_to_s24 :: "i32 list \<Rightarrow> nat \<Rightarrow> u8 list" where
  "ma_pcm_s32_to_s24 src count =
     concat (map (\<lambda>i. let x = src ! i
                      in [ucast (drop_bit 8 (x AND 0x0000FF00)), ucast (drop_bit 16 (x AND 0x00FF0000)),
                          ucast (drop_bit 24 (x AND 0xFF000000))]) [0..<count])"

definition ma_pcm_s32_to_s32 :: "i32 list \<Rightarrow> nat \<Rightarrow> i32 list" where
  "ma_pcm_s32_to_s32 src count = take count src"

definition ma_pcm_s32_to_f32 :: "i32 list \<Rightarrow> nat \<Rightarrow> f32 list" where
  "ma_pcm_s32_to_f32 src count =
     map (\<lambda>i. let x = f64 (of_int (sint (src ! i)))
              in fp_cast f32 (fp_divc f64 x 2147483648)) [0..<count]"

section \<open>From \<open>f32\<close>\<close>

definition clip :: "fp \<Rightarrow> fp" where
  "clip x = (if fp_lt x (Fin (- 1)) then Fin (- 1) else if fp_lt (Fin 1) x then Fin 1 else x)"

definition ma_pcm_f32_to_u8 :: "f32 list \<Rightarrow> nat \<Rightarrow> ma_dither_mode \<Rightarrow> lcg \<Rightarrow> (u8 list \<times> lcg) option" where
  "ma_pcm_f32_to_u8 src count ditherMode =
     (let (ditherMin, ditherMax) = (if ditherMode \<noteq> ma_dither_mode_none
            then (f32 (1 / - 128), f32 (1 / 127)) else (Fin 0, Fin 0))
      in try_lcg (\<lambda>i st.
           let (d, st) = ma_dither_f32 ditherMode ditherMin ditherMax st;
               x = fp_add f32 (src ! i) d;
               x = clip x;
               x = fp_add f32 x (Fin 1);
               x = fp_mul f32 x (Fin (255 / 2))
           in map_option (\<lambda>v. (word_of_int v, st)) (fp_to_int 0 255 x)) [0..<count])"

definition ma_pcm_f32_to_s16__reference :: "f32 list \<Rightarrow> nat \<Rightarrow> ma_dither_mode \<Rightarrow> lcg \<Rightarrow> (i16 list \<times> lcg) option" where
  "ma_pcm_f32_to_s16__reference src count ditherMode =
     (let (ditherMin, ditherMax) = (if ditherMode \<noteq> ma_dither_mode_none
            then (f32 (1 / - 32768), f32 (1 / 32767)) else (Fin 0, Fin 0))
      in try_lcg (\<lambda>i st.
           let (d, st) = ma_dither_f32 ditherMode ditherMin ditherMax st;
               x = fp_add f32 (src ! i) d;
               x = clip x;
               x = fp_mul f32 x (Fin 32767)
           in map_option (\<lambda>v. (word_of_int v, st)) (fp_to_int (- 32768) 32767 x)) [0..<count])"

text \<open>The version without vectors unrolls this loop by four.\<close>

definition f32_to_s16_one :: "f32 \<Rightarrow> f32 \<Rightarrow> i16 option" where
  "f32_to_s16_one y d =
     (let x = fp_add f32 y d; x = clip x; x = fp_mul f32 x (Fin 32767)
      in map_option word_of_int (fp_to_int (- 32768) 32767 x))"

definition f32_to_s16_four ::
    "ma_dither_mode \<Rightarrow> f32 \<Rightarrow> f32 \<Rightarrow> f32 list \<Rightarrow> nat \<Rightarrow> lcg \<Rightarrow> (i16 list \<times> lcg) option" where
  "f32_to_s16_four ditherMode ditherMin ditherMax src i st =
     (let (d0, st) = ma_dither_f32 ditherMode ditherMin ditherMax st;
          (d1, st) = ma_dither_f32 ditherMode ditherMin ditherMax st;
          (d2, st) = ma_dither_f32 ditherMode ditherMin ditherMax st;
          (d3, st) = ma_dither_f32 ditherMode ditherMin ditherMax st
      in case (f32_to_s16_one (src ! (i + 0)) d0, f32_to_s16_one (src ! (i + 1)) d1,
               f32_to_s16_one (src ! (i + 2)) d2, f32_to_s16_one (src ! (i + 3)) d3) of
           (Some x0, Some x1, Some x2, Some x3) \<Rightarrow> Some ([x0, x1, x2, x3], st)
         | _ \<Rightarrow> None)"

definition ma_pcm_f32_to_s16__optimized :: "f32 list \<Rightarrow> nat \<Rightarrow> ma_dither_mode \<Rightarrow> lcg \<Rightarrow> (i16 list \<times> lcg) option" where
  "ma_pcm_f32_to_s16__optimized src count ditherMode st =
     (let (ditherMin, ditherMax) = (if ditherMode \<noteq> ma_dither_mode_none
            then (f32 (1 / - 32768), f32 (1 / 32767)) else (Fin 0, Fin 0));
          count4 = count div 4
      in case try_lcg (\<lambda>i4. f32_to_s16_four ditherMode ditherMin ditherMax src (4 * i4)) [0..<count4] st of
           None \<Rightarrow> None
         | Some (blocks, st) \<Rightarrow>
             (case try_lcg (\<lambda>i st.
                      let (d, st) = ma_dither_f32 ditherMode ditherMin ditherMax st
                      in map_option (\<lambda>v. (v, st)) (f32_to_s16_one (src ! i) d)) [4 * count4..<count] st of
                None \<Rightarrow> None
              | Some (rest, st) \<Rightarrow> Some (concat blocks @ rest, st)))"

text \<open>The builds with SSE2 or NEON convert eight samples at a time when both buffers are aligned to 16 bytes. The vector units do not clip
  before the conversion: they convert to 32 bits (\<open>_mm_cvttps_epi32\<close>, \<open>vcvtq_s32_f32\<close>) and saturate to 16 (\<open>_mm_packs_epi32\<close>,
  \<open>vqmovn_s32\<close>). C leaves open in which order the arguments of \<open>_mm_set_ps\<close> draw their dither: lane \<open>k\<close> gets draw \<open>lane k\<close> of four.\<close>

datatype vector_unit = scalar_unit | sse2_unit | neon_unit

fun mm_cvttps_epi32 :: "f32 \<Rightarrow> int" where
  "mm_cvttps_epi32 (Fin r) = (if - (2 ^ 31) \<le> trunc r \<and> trunc r < 2 ^ 31 then trunc r else - (2 ^ 31))"
| "mm_cvttps_epi32 _ = - (2 ^ 31)"

fun vcvtq_s32_f32 :: "f32 \<Rightarrow> int" where
  "vcvtq_s32_f32 (Fin r) = max (- (2 ^ 31)) (min (2 ^ 31 - 1) (trunc r))"
| "vcvtq_s32_f32 PInf = 2 ^ 31 - 1"
| "vcvtq_s32_f32 NInf = - (2 ^ 31)"
| "vcvtq_s32_f32 NaN = 0"

definition saturate_s16 :: "int \<Rightarrow> i16" where
  "saturate_s16 t = word_of_int (max (- 32768) (min 32767 t))"

definition f32_to_s16_lane :: "(f32 \<Rightarrow> int) \<Rightarrow> f32 \<Rightarrow> f32 \<Rightarrow> i16" where
  "f32_to_s16_lane cvt y d = saturate_s16 (cvt (fp_mul f32 (fp_add f32 y d) (Fin 32767)))"

definition four_dithers :: "ma_dither_mode \<Rightarrow> f32 \<Rightarrow> f32 \<Rightarrow> lcg \<Rightarrow> f32 list \<times> lcg" where
  "four_dithers ditherMode ditherMin ditherMax st =
     (let (d0, st) = ma_dither_f32 ditherMode ditherMin ditherMax st;
          (d1, st) = ma_dither_f32 ditherMode ditherMin ditherMax st;
          (d2, st) = ma_dither_f32 ditherMode ditherMin ditherMax st;
          (d3, st) = ma_dither_f32 ditherMode ditherMin ditherMax st
      in ([d0, d1, d2, d3], st))"

definition f32_to_s16_eight ::
    "(f32 \<Rightarrow> int) \<Rightarrow> (nat \<Rightarrow> nat) \<Rightarrow> ma_dither_mode \<Rightarrow> f32 \<Rightarrow> f32 \<Rightarrow> f32 list \<Rightarrow> nat \<Rightarrow> lcg \<Rightarrow> (i16 list \<times> lcg) option" where
  "f32_to_s16_eight cvt lane ditherMode ditherMin ditherMax src i st =
     (let (d0, st) = four_dithers ditherMode ditherMin ditherMax st;
          (d1, st) = four_dithers ditherMode ditherMin ditherMax st
      in Some (map (\<lambda>k. f32_to_s16_lane cvt (src ! (i + k)) (d0 ! lane k)) [0..<4] @
               map (\<lambda>k. f32_to_s16_lane cvt (src ! (i + 4 + k)) (d1 ! lane k)) [0..<4], st))"

definition f32_to_s16_vector ::
    "(f32 \<Rightarrow> int) \<Rightarrow> (nat \<Rightarrow> nat) \<Rightarrow> f32 list \<Rightarrow> nat \<Rightarrow> ma_dither_mode \<Rightarrow> lcg \<Rightarrow> (i16 list \<times> lcg) option" where
  "f32_to_s16_vector cvt lane src count ditherMode st =
     (let (ditherMin, ditherMax) = (if ditherMode \<noteq> ma_dither_mode_none
            then (f32 (1 / - 32768), f32 (1 / 32767)) else (Fin 0, Fin 0));
          count8 = count div 8
      in case try_lcg (\<lambda>i8. f32_to_s16_eight cvt lane ditherMode ditherMin ditherMax src (8 * i8)) [0..<count8] st of
           None \<Rightarrow> None
         | Some (blocks, st) \<Rightarrow>
             (case try_lcg (\<lambda>i st.
                      let (d, st) = ma_dither_f32 ditherMode ditherMin ditherMax st
                      in map_option (\<lambda>v. (v, st)) (f32_to_s16_one (src ! i) d)) [8 * count8..<count] st of
                None \<Rightarrow> None
              | Some (rest, st) \<Rightarrow> Some (concat blocks @ rest, st)))"

definition ma_pcm_f32_to_s16__sse2 ::
    "(nat \<Rightarrow> nat) \<Rightarrow> bool \<Rightarrow> f32 list \<Rightarrow> nat \<Rightarrow> ma_dither_mode \<Rightarrow> lcg \<Rightarrow> (i16 list \<times> lcg) option" where
  "ma_pcm_f32_to_s16__sse2 lane aligned src count ditherMode st =
     (if \<not> aligned then ma_pcm_f32_to_s16__optimized src count ditherMode st
      else f32_to_s16_vector mm_cvttps_epi32 lane src count ditherMode st)"

definition ma_pcm_f32_to_s16__neon :: "bool \<Rightarrow> f32 list \<Rightarrow> nat \<Rightarrow> ma_dither_mode \<Rightarrow> lcg \<Rightarrow> (i16 list \<times> lcg) option" where
  "ma_pcm_f32_to_s16__neon aligned src count ditherMode st =
     (if \<not> aligned then ma_pcm_f32_to_s16__optimized src count ditherMode st
      else f32_to_s16_vector vcvtq_s32_f32 (\<lambda>k. k) src count ditherMode st)"

text \<open>\<open>unit\<close> is the vector unit the build supports and the processor has.\<close>

definition ma_pcm_f32_to_s16 ::
    "vector_unit \<Rightarrow> (nat \<Rightarrow> nat) \<Rightarrow> bool \<Rightarrow> f32 list \<Rightarrow> nat \<Rightarrow> ma_dither_mode \<Rightarrow> lcg \<Rightarrow> (i16 list \<times> lcg) option" where
  "ma_pcm_f32_to_s16 unit lane aligned src count ditherMode st =
     (case unit of
        sse2_unit \<Rightarrow> ma_pcm_f32_to_s16__sse2 lane aligned src count ditherMode st
      | neon_unit \<Rightarrow> ma_pcm_f32_to_s16__neon aligned src count ditherMode st
      | scalar_unit \<Rightarrow> ma_pcm_f32_to_s16__optimized src count ditherMode st)"

text \<open>Where all units and alignments agree: samples within \<open>[-1, 1]\<close> and no dither, or too few samples for a vector
  with it (\<open>f32_to_s16_every_unit\<close>). Elsewhere the result depends on the build and on the addresses of the buffers.\<close>

fun in_unit :: "f32 \<Rightarrow> bool" where
  "in_unit (Fin r) \<longleftrightarrow> - 1 \<le> r \<and> r \<le> 1"
| "in_unit _ \<longleftrightarrow> False"

definition portable_s16 :: "ma_dither_mode \<Rightarrow> f32 list \<Rightarrow> nat \<Rightarrow> bool" where
  "portable_s16 ditherMode src count =
     (if ditherMode = ma_dither_mode_none then list_all (\<lambda>i. in_unit (src ! i)) [0..<count] else count < 8)"

definition ma_pcm_f32_to_s24 :: "f32 list \<Rightarrow> nat \<Rightarrow> u8 list option" where
  "ma_pcm_f32_to_s24 src count =
     map_option concat (those (map (\<lambda>i.
       let x = clip (src ! i);
           x = fp_mul f32 x (Fin 8388607)
       in map_option (\<lambda>v. let r = word_of_int v :: i32
                          in [ucast (drop_bit 0 (r AND 0x0000FF)), ucast (drop_bit 8 (r AND 0x00FF00)),
                              ucast (drop_bit 16 (r AND 0xFF0000))])
            (fp_to_int (- 0x80000000) 0x7FFFFFFF x)) [0..<count]))"

definition f32_to_s32_sample :: "f32 \<Rightarrow> i32 option" where
  "f32_to_s32_sample y =
     (let x = clip y;
          x = fp_mul f64 x (Fin 2147483647)
      in map_option word_of_int (fp_to_int (- 0x80000000) 0x7FFFFFFF x))"

text \<open>The index of this loop is a 32-bit word while \<open>count\<close> has 64 bits; the destination is the list of
  samples stored so far by index. \<open>None\<close>: the loop does not end, or a cast is undefined.\<close>

partial_function (option) f32_to_s32_loop :: "f32 list \<Rightarrow> u64 \<Rightarrow> u32 \<Rightarrow> (nat \<Rightarrow> i32) \<Rightarrow> (nat \<Rightarrow> i32) option" where
  "f32_to_s32_loop src count i dst =
     (if ucast i < count
      then (case f32_to_s32_sample (src ! unat i) of
              None \<Rightarrow> None
            | Some v \<Rightarrow> f32_to_s32_loop src count (i + 1) (dst(unat i := v)))
      else Some dst)"

definition ma_pcm_f32_to_s32 :: "f32 list \<Rightarrow> u64 \<Rightarrow> i32 list option" where
  "ma_pcm_f32_to_s32 src count =
     map_option (\<lambda>dst. map dst [0..<unat count]) (f32_to_s32_loop src count 0 (\<lambda>_. 0))"

definition ma_pcm_f32_to_f32 :: "f32 list \<Rightarrow> nat \<Rightarrow> f32 list" where
  "ma_pcm_f32_to_f32 src count = take count src"

lemma unat_ucast_32_64: "unat (ucast (i :: u32) :: u64) = unat i"
  using unsigned_less [of i, where ?'a = nat] by (simp add: unsigned_ucast_eq take_bit_nat_eq_self)

section \<open>Conversion by format\<close>

text \<open>A buffer together with its format. \<open>None\<close> in the result: nothing is stored, because the pair of formats
  has no conversion; an undefined conversion is \<open>None\<close> as a whole, and so is a conversion to 16 bits whose result depends on the
  vector unit of the build and on the addresses of the buffers.\<close>

datatype pcm_buffer =
    PU8 "u8 list" | PS16 "i16 list" | PS24 "u8 list" | PS32 "i32 list" | PF32 "f32 list"

fun buffer_format :: "pcm_buffer \<Rightarrow> ma_format" where
  "buffer_format (PU8 _) = ma_format_u8"
| "buffer_format (PS16 _) = ma_format_s16"
| "buffer_format (PS24 _) = ma_format_s24"
| "buffer_format (PS32 _) = ma_format_s32"
| "buffer_format (PF32 _) = ma_format_f32"

fun copy_samples :: "pcm_buffer \<Rightarrow> nat \<Rightarrow> pcm_buffer" where
  "copy_samples (PU8 xs) n = PU8 (ma_pcm_u8_to_u8 xs n)"
| "copy_samples (PS16 xs) n = PS16 (ma_pcm_s16_to_s16 xs n)"
| "copy_samples (PS24 xs) n = PS24 (ma_pcm_s24_to_s24 xs n)"
| "copy_samples (PS32 xs) n = PS32 (ma_pcm_s32_to_s32 xs n)"
| "copy_samples (PF32 xs) n = PF32 (ma_pcm_f32_to_f32 xs n)"

abbreviation stored :: "('a \<Rightarrow> pcm_buffer) \<Rightarrow> ('a \<times> lcg) option \<Rightarrow> (pcm_buffer option \<times> lcg) option" where
  "stored C \<equiv> map_option (\<lambda>(ys, st). (Some (C ys), st))"

definition ma_pcm_convert ::
    "ma_format \<Rightarrow> pcm_buffer \<Rightarrow> nat \<Rightarrow> ma_dither_mode \<Rightarrow> lcg \<Rightarrow> (pcm_buffer option \<times> lcg) option" where
  "ma_pcm_convert formatOut src n mode st =
     (if formatOut = buffer_format src then Some (Some (copy_samples src n), st)
      else case src of
        PU8 xs \<Rightarrow>
          (case formatOut of
             ma_format_s16 \<Rightarrow> stored PS16 (Some (ma_pcm_u8_to_s16 xs n, st))
           | ma_format_s24 \<Rightarrow> stored PS24 (Some (ma_pcm_u8_to_s24 xs n, st))
           | ma_format_s32 \<Rightarrow> stored PS32 (Some (ma_pcm_u8_to_s32 xs n, st))
           | ma_format_f32 \<Rightarrow> stored PF32 (Some (ma_pcm_u8_to_f32 xs n, st))
           | _ \<Rightarrow> Some (None, st))
      | PS16 xs \<Rightarrow>
          (case formatOut of
             ma_format_u8 \<Rightarrow> stored PU8 (Some (ma_pcm_s16_to_u8 xs n mode st))
           | ma_format_s24 \<Rightarrow> stored PS24 (Some (ma_pcm_s16_to_s24 xs n, st))
           | ma_format_s32 \<Rightarrow> stored PS32 (Some (ma_pcm_s16_to_s32 xs n, st))
           | ma_format_f32 \<Rightarrow> stored PF32 (Some (ma_pcm_s16_to_f32 xs n, st))
           | _ \<Rightarrow> Some (None, st))
      | PS24 xs \<Rightarrow>
          (case formatOut of
             ma_format_u8 \<Rightarrow> stored PU8 (ma_pcm_s24_to_u8 xs n mode st)
           | ma_format_s16 \<Rightarrow> stored PS16 (ma_pcm_s24_to_s16 xs n mode st)
           | ma_format_s32 \<Rightarrow> stored PS32 (Some (ma_pcm_s24_to_s32 xs n, st))
           | ma_format_f32 \<Rightarrow> stored PF32 (Some (ma_pcm_s24_to_f32 xs n, st))
           | _ \<Rightarrow> Some (None, st))
      | PS32 xs \<Rightarrow>
          (case formatOut of
             ma_format_u8 \<Rightarrow> stored PU8 (ma_pcm_s32_to_u8 xs n mode st)
           | ma_format_s16 \<Rightarrow> stored PS16 (ma_pcm_s32_to_s16 xs n mode st)
           | ma_format_s24 \<Rightarrow> stored PS24 (Some (ma_pcm_s32_to_s24 xs n, st))
           | ma_format_f32 \<Rightarrow> stored PF32 (Some (ma_pcm_s32_to_f32 xs n, st))
           | _ \<Rightarrow> Some (None, st))
      | PF32 xs \<Rightarrow>
          (case formatOut of
             ma_format_u8 \<Rightarrow> stored PU8 (ma_pcm_f32_to_u8 xs n mode st)
           | ma_format_s16 \<Rightarrow> if portable_s16 mode xs n then stored PS16 (ma_pcm_f32_to_s16 scalar_unit id False xs n mode st) else None
           | ma_format_s24 \<Rightarrow> stored PS24 (map_option (\<lambda>ys. (ys, st)) (ma_pcm_f32_to_s24 xs n))
           | ma_format_s32 \<Rightarrow> stored PS32 (map_option (\<lambda>ys. (ys, st)) (ma_pcm_f32_to_s32 xs (of_nat n)))
           | _ \<Rightarrow> Some (None, st)))"

definition ma_convert_pcm_frames_format ::
    "ma_format \<Rightarrow> pcm_buffer \<Rightarrow> u64 \<Rightarrow> u32 \<Rightarrow> ma_dither_mode \<Rightarrow> lcg \<Rightarrow> (pcm_buffer option \<times> lcg) option" where
  "ma_convert_pcm_frames_format formatOut src frameCount channels mode st =
     ma_pcm_convert formatOut src (unat (frameCount * ucast channels)) mode st"

section \<open>Widening and narrowing of integers\<close>

lemma take_bit_sum_trunc: "m \<le> n \<Longrightarrow> take_bit m (take_bit n a + take_bit n b) = take_bit m (a + (b::int))"
  by (metis (no_types, opaque_lifting) take_bit_add take_bit_take_bit min.absorb1)
lemma ucast_add_16_8: "(ucast (a + b :: 16 word) :: 8 word) = ucast a + ucast b"
  by transfer (simp add: take_bit_sum_trunc)
lemma ucast_add_32_8: "(ucast (a + b :: 32 word) :: 8 word) = ucast a + ucast b"
  by transfer (simp add: take_bit_sum_trunc)

lemma sdrop_push_16: "(ucast (signed_drop_bit 8 (push_bit 8 (y :: 16 word))) :: 8 word) = ucast y"
  by (rule bit_word_eqI) (auto simp: bit_simps min_def)

lemma sdrop_push_32_24: "(ucast (signed_drop_bit 24 (push_bit 24 (y :: 32 word))) :: 8 word) = ucast y"
  by (rule bit_word_eqI) (auto simp: bit_simps min_def)

lemma ucast_up_down [simp]: "(ucast (ucast (x :: 8 word) :: 16 word) :: 8 word) = x"
  "(ucast (ucast x :: 32 word) :: 8 word) = x"
  by (rule bit_word_eqI; auto simp: bit_simps)+

lemma less_Suc_top: "n < 16 \<Longrightarrow> 15 \<le> n \<longleftrightarrow> n = (15::nat)" by auto

lemma sdrop_push_32_16: "(ucast (signed_drop_bit 16 (push_bit 16 (scast (y::16 word) ::32 word))) :: 16 word) = y"
  by (rule bit_word_eqI) (auto simp: bit_simps min_def less_Suc_top)

lemma and_255_16: "(x AND 0xFF :: 16 word) = take_bit 8 x"
  by (simp add: take_bit_eq_mask mask_eq_exp_minus_1)

lemma s16_s24: "ucast (ucast (x AND 0xFF :: 16 word) :: 8 word) OR push_bit 8 (ucast (ucast (signed_drop_bit 8 x) :: 8 word)) = x"
  unfolding and_255_16
proof (rule bit_word_eqI)
  fix n assume "n < LENGTH(16)"
  then show "bit (ucast (ucast (take_bit 8 x) :: 8 word) OR push_bit 8 (ucast (ucast (signed_drop_bit 8 x) :: 8 word)) :: 16 word) n = bit x n"
    by (cases "n < 8") (auto simp: bit_simps)
qed

lemma and_byte: "(x AND push_bit k (mask 8) :: 32 word) = push_bit k (take_bit 8 (drop_bit k x))"
  by (rule bit_word_eqI) (auto simp: bit_simps le_add_diff_inverse)

lemma and_bytes:
  "(x AND 0xFF00 :: 32 word) = push_bit 8 (take_bit 8 (drop_bit 8 x))"
  "(x AND 0xFF0000 :: 32 word) = push_bit 16 (take_bit 8 (drop_bit 16 x))"
  "(x AND 0xFF000000 :: 32 word) = push_bit 24 (take_bit 8 (drop_bit 24 x))"
  using and_byte [of x 8] and_byte [of x 16] and_byte [of x 24] by (simp_all add: mask_eq_exp_minus_1)

lemma byte_of: "k \<le> 24 \<Longrightarrow> (ucast (drop_bit k (push_bit k (take_bit 8 (drop_bit k (x::32 word))))) :: 8 word) = ucast (drop_bit k x)"
  by (rule bit_word_eqI) (auto simp: bit_simps)


lemma s24_of_bytes_nth:
  "n < 32 \<Longrightarrow> bit ((push_bit 8 (ucast (a::8 word)) OR push_bit 16 (ucast (b::8 word))) OR push_bit 24 (ucast (c::8 word)) :: 32 word) n \<longleftrightarrow>
    (if n < 8 then False else if n < 16 then bit a (n - 8) else if n < 24 then bit b (n - 16) else bit c (n - 24))"
  by (auto simp: bit_simps dest: bit_imp_le_length)

lemma triples_length [simp]: "length (concat (map (\<lambda>i. [a i, b i, c i]) [0..<n])) = 3 * n"
  by (induction n) simp_all

lemma triples_nth:
  assumes "i < n"
  shows "concat (map (\<lambda>i. [a i, b i, c i]) [0..<n]) ! (i * 3 + 0) = a i"
    "concat (map (\<lambda>i. [a i, b i, c i]) [0..<n]) ! (i * 3 + 1) = b i"
    "concat (map (\<lambda>i. [a i, b i, c i]) [0..<n]) ! (i * 3 + 2) = c i"
proof -
  have "k < 3 \<Longrightarrow> concat (map (\<lambda>i. [a i, b i, c i]) [0..<n]) ! (i * 3 + k) = [a i, b i, c i] ! k" for k
    using assms
  proof (induction n)
    case (Suc n)
    show ?case
    proof (cases "i < n")
      case True
      then have "i * 3 + k < 3 * n" using Suc.prems(1) by simp
      then show ?thesis using Suc True by (simp add: nth_append del: upt_Suc add: upt_Suc_append)
    next
      case False
      then have "i = n" using Suc.prems(2) by simp
      then show ?thesis by (simp add: nth_append mult.commute [of n 3])
    qed
  qed simp
  from this [of 0] this [of 1] this [of 2] show
    "concat (map (\<lambda>i. [a i, b i, c i]) [0..<n]) ! (i * 3 + 0) = a i"
    "concat (map (\<lambda>i. [a i, b i, c i]) [0..<n]) ! (i * 3 + 1) = b i"
    "concat (map (\<lambda>i. [a i, b i, c i]) [0..<n]) ! (i * 3 + 2) = c i"
    by simp_all
qed

lemma triples_id: "length zs = 3 * n \<Longrightarrow> concat (map (\<lambda>i. [zs ! (i * 3 + 0), zs ! (i * 3 + 1), zs ! (i * 3 + 2)]) [0..<n]) = zs"
proof (rule nth_equalityI)
  fix j
  assume "length zs = 3 * n" "j < length (concat (map (\<lambda>i. [zs ! (i * 3 + 0), zs ! (i * 3 + 1), zs ! (i * 3 + 2)]) [0..<n]))"
  then have j: "j div 3 < n" by simp
  have "j = j div 3 * 3 + j mod 3" "j mod 3 = 0 \<or> j mod 3 = 1 \<or> j mod 3 = 2" by auto
  then show "concat (map (\<lambda>i. [zs ! (i * 3 + 0), zs ! (i * 3 + 1), zs ! (i * 3 + 2)]) [0..<n]) ! j = zs ! j"
    using triples_nth [OF j, of "\<lambda>i. zs ! (i * 3 + 0)" "\<lambda>i. zs ! (i * 3 + 1)" "\<lambda>i. zs ! (i * 3 + 2)"]
    by (elim disjE) simp_all
qed simp

lemma s24_bytes_of:
  "ucast (drop_bit 8 (s24_at zs i AND 0xFF00)) = zs ! (i * 3 + 0)"
  "ucast (drop_bit 16 (s24_at zs i AND 0xFF0000)) = zs ! (i * 3 + 1)"
  "ucast (drop_bit 24 (s24_at zs i AND 0xFF000000)) = zs ! (i * 3 + 2)"
proof -
  have b: "(8::nat) \<le> 24" "(16::nat) \<le> 24" "(24::nat) \<le> 24" by simp_all
  have bit: "bit (s24_at zs i) n \<longleftrightarrow> (if n < 8 then False else if n < 16 then bit (zs ! (i * 3 + 0)) (n - 8)
      else if n < 24 then bit (zs ! (i * 3 + 1)) (n - 16) else bit (zs ! (i * 3 + 2)) (n - 24))" if "n < 32" for n
    unfolding s24_at_def by (rule s24_of_bytes_nth [OF that])
  show "ucast (drop_bit 8 (s24_at zs i AND 0xFF00)) = zs ! (i * 3 + 0)"
    unfolding and_bytes byte_of [OF b(1)] by (rule bit_word_eqI) (simp add: bit_simps bit)
  show "ucast (drop_bit 16 (s24_at zs i AND 0xFF0000)) = zs ! (i * 3 + 1)"
    unfolding and_bytes byte_of [OF b(2)] by (rule bit_word_eqI) (simp add: bit_simps bit)
  show "ucast (drop_bit 24 (s24_at zs i AND 0xFF000000)) = zs ! (i * 3 + 2)"
    unfolding and_bytes byte_of [OF b(3)] by (rule bit_word_eqI) (simp add: bit_simps bit)
qed

lemma map_sample: "(\<And>i. i < length xs \<Longrightarrow> f i = xs ! i) \<Longrightarrow> map f [0..<length xs] = xs"
  by (rule nth_equalityI) simp_all

lemma u8_s16_u8: "ucast (signed_drop_bit 8 (push_bit 8 (ucast (x :: u8) - 128 :: i16)) + 128) = x"
  unfolding ucast_add_16_8 sdrop_push_16
  using ucast_add_16_8 [of "ucast x - 128" 128] by simp

lemma u8_s32_u8: "ucast (signed_drop_bit 24 (push_bit 24 (ucast (x :: u8) - 128 :: i32)) + 128) = x"
  unfolding ucast_add_32_8 sdrop_push_32_24
  using ucast_add_32_8 [of "ucast x - 128" 128] by simp

lemma u8_s24_u8: "ucast (ucast (x :: u8) - 128 :: i16) + 128 = x"
  using ucast_add_16_8 [of "ucast x - 128" 128] by simp

text \<open>C40: Without dither, converting integer samples to a wider format and back loses nothing: all six
  pairs of a wider and a narrower integer format return the very samples they were given.\<close>

theorem pcm_widen_narrow:
  assumes "length zs = 3 * n"
  shows "ma_pcm_s16_to_u8 (ma_pcm_u8_to_s16 xs (length xs)) (length xs) ma_dither_mode_none st = (xs, st) \<and>
    ma_pcm_s24_to_u8 (ma_pcm_u8_to_s24 xs (length xs)) (length xs) ma_dither_mode_none st = Some (xs, st) \<and>
    ma_pcm_s32_to_u8 (ma_pcm_u8_to_s32 xs (length xs)) (length xs) ma_dither_mode_none st = Some (xs, st) \<and>
    ma_pcm_s24_to_s16 (ma_pcm_s16_to_s24 ys (length ys)) (length ys) ma_dither_mode_none st = Some (ys, st) \<and>
    ma_pcm_s32_to_s16 (ma_pcm_s16_to_s32 ys (length ys)) (length ys) ma_dither_mode_none st = Some (ys, st) \<and>
    ma_pcm_s32_to_s24 (ma_pcm_s24_to_s32 zs n) n = zs"
proof (intro conjI)
  show "ma_pcm_s16_to_u8 (ma_pcm_u8_to_s16 xs (length xs)) (length xs) ma_dither_mode_none st = (xs, st)"
    by (simp add: ma_pcm_s16_to_u8_def) (rule map_sample, simp add: ma_pcm_u8_to_s16_def u8_s16_u8)
  show "ma_pcm_s24_to_u8 (ma_pcm_u8_to_s24 xs (length xs)) (length xs) ma_dither_mode_none st = Some (xs, st)"
    by (simp add: ma_pcm_s24_to_u8_def) (rule map_sample, simp add: ma_pcm_u8_to_s24_def Let_def triples_nth [simplified] u8_s24_u8)
  show "ma_pcm_s32_to_u8 (ma_pcm_u8_to_s32 xs (length xs)) (length xs) ma_dither_mode_none st = Some (xs, st)"
    by (simp add: ma_pcm_s32_to_u8_def) (rule map_sample, simp add: ma_pcm_u8_to_s32_def u8_s32_u8)
  show "ma_pcm_s24_to_s16 (ma_pcm_s16_to_s24 ys (length ys)) (length ys) ma_dither_mode_none st = Some (ys, st)"
    by (simp add: ma_pcm_s24_to_s16_def Let_def)
       (rule map_sample, simp add: ma_pcm_s16_to_s24_def triples_nth [simplified] s16_s24)
  show "ma_pcm_s32_to_s16 (ma_pcm_s16_to_s32 ys (length ys)) (length ys) ma_dither_mode_none st = Some (ys, st)"
    by (simp add: ma_pcm_s32_to_s16_def) (rule map_sample, simp add: ma_pcm_s16_to_s32_def sdrop_push_32_16)
  have "map (\<lambda>i. [ucast (drop_bit 8 (s24_at zs i AND 0xFF00)), ucast (drop_bit 16 (s24_at zs i AND 0xFF0000)),
      ucast (drop_bit 24 (s24_at zs i AND 0xFF000000))]) [0..<n] =
    map (\<lambda>i. [zs ! (i * 3 + 0), zs ! (i * 3 + 1), zs ! (i * 3 + 2)]) [0..<n]"
    by (simp only: s24_bytes_of)
  moreover have "ma_pcm_s32_to_s24 (ma_pcm_s24_to_s32 zs n) n = concat (map (\<lambda>i.
      [ucast (drop_bit 8 (s24_at zs i AND 0xFF00)), ucast (drop_bit 16 (s24_at zs i AND 0xFF0000)),
       ucast (drop_bit 24 (s24_at zs i AND 0xFF000000))]) [0..<n])"
    unfolding ma_pcm_s32_to_s24_def Let_def by (rule arg_cong [of _ _ concat], rule map_cong) (simp_all add: ma_pcm_s24_to_s32_def)
  ultimately show "ma_pcm_s32_to_s24 (ma_pcm_s24_to_s32 zs n) n = zs"
    by (simp only: triples_id [OF assms])
qed

theorem pcm_widen_narrow_witness:
  "ma_pcm_s16_to_u8 (ma_pcm_u8_to_s16 [0, 128, 255] 3) 3 ma_dither_mode_none 7 = ([0, 128, 255], 7) \<and>
   ma_pcm_s24_to_s16 (ma_pcm_s16_to_s24 [0x8000, 1] 2) 2 ma_dither_mode_none 7 = Some ([0x8000, 1], 7) \<and>
   ma_pcm_s32_to_s24 (ma_pcm_s24_to_s32 [1, 2, 0x80] 1) 1 = [1, 2, 0x80]"
proof -
  have "length [1, 2, 0x80 :: u8] = 3 * 1" by simp
  from pcm_widen_narrow [OF this, of "[0, 128, 255]" 7 "[0x8000, 1]"] show ?thesis
    by (simp add: numeral_eq_Suc)
qed

section \<open>Dither\<close>

lemma sint_of_int32: "- 2147483648 \<le> k \<Longrightarrow> k < 2147483648 \<Longrightarrow> sint (word_of_int k :: i32) = k"
  by (simp add: signed_of_int signed_take_bit_int_eq_self)

lemma rand_range_bounds:
  assumes "sint lo \<le> sint hi" "sint hi - sint lo < 2 ^ 31 - 1"
  shows "sint lo \<le> sint (fst (ma_lcg_rand_range_s32 st lo hi)) \<and> sint (fst (ma_lcg_rand_range_s32 st lo hi)) \<le> sint hi"
proof (cases "lo = hi")
  case False
  define r where "r = fst (ma_lcg_rand_u32 st)"
  define n where "n = hi - lo + 1"
  define d where "d = 0xFFFFFFFF div n + 1"
  have b: "- 2147483648 \<le> sint lo" "sint hi < 2147483648" using sint_ge [of lo] sint_lt [of hi] by simp_all
  have n': "uint n = sint hi - sint lo + 1"
  proof -
    have "n = word_of_int (sint hi - sint lo + 1)" by (simp add: n_def)
    moreover have "uint (word_of_int (sint hi - sint lo + 1) :: i32) = sint hi - sint lo + 1"
      unfolding uint_word_of_int using assms by (intro mod_pos_pos_trivial) simp_all
    ultimately show ?thesis by simp
  qed
  have npos: "0 < uint n" using n' assms(1) by simp
  have n2: "1 < uint n" using n' False assms(1) by (metis add_less_cancel_right add_0 less_le order_less_imp_not_eq2 diff_gt_0_iff_gt signed_word_eqI)
  have q: "uint (0xFFFFFFFF div n) = 0xFFFFFFFF div uint n" by (simp add: uint_div)
  have "0xFFFFFFFF div uint n < 0xFFFFFFFF" by (rule int_div_less_self [OF _ n2]) simp
  moreover have q0: "0 \<le> 0xFFFFFFFF div uint n" using npos by (intro pos_imp_zdiv_nonneg_iff [THEN iffD2]) simp_all
  ultimately have d': "uint d = 0xFFFFFFFF div uint n + 1"
    unfolding d_def uint_word_ariths q by (simp add: mod_pos_pos_trivial)
  have "uint r < 0x100000000" using unsigned_less [of r] by simp
  moreover have "(0x100000000 :: int) \<le> uint n * uint d"
  proof -
    have "(0xFFFFFFFF :: int) = uint n * (0xFFFFFFFF div uint n) + 0xFFFFFFFF mod uint n"
      by (rule mult_div_mod_eq [symmetric])
    moreover have "0xFFFFFFFF mod uint n < uint n" using npos by (rule pos_mod_bound)
    ultimately show ?thesis unfolding d' distrib_left by linarith
  qed
  ultimately have lt: "uint r < uint n * uint d" by simp
  have k: "uint (r div d) < uint n"
  proof (rule ccontr)
    assume "\<not> uint (r div d) < uint n"
    then have "uint n * uint d \<le> (uint r div uint d) * uint d"
      by (intro mult_right_mono) (simp_all add: uint_div)
    also have "\<dots> \<le> uint r"
      using div_mult_mod_eq [of "uint r" "uint d"] d' q0 pos_mod_sign [of "uint d" "uint r"] by linarith
    finally show False using lt by simp
  qed
  have u0: "0 \<le> uint (r div d)" by simp
  have "sint (lo + r div d) = sint lo + uint (r div d)"
  proof -
    have "lo + r div d = word_of_int (sint lo + uint (r div d))" by simp
    moreover have "sint (word_of_int (sint lo + uint (r div d)) :: i32) = sint lo + uint (r div d)"
      using k n' b u0 by (intro sint_of_int32; linarith)
    ultimately show ?thesis by simp
  qed
  moreover have "fst (ma_lcg_rand_range_s32 st lo hi) = lo + r div d"
    using False by (simp add: ma_lcg_rand_range_s32_def r_def d_def n_def split: prod.split)
  ultimately show ?thesis using k n' u0 by (simp only:) linarith
qed (use assms in \<open>simp add: ma_lcg_rand_range_s32_def\<close>)

lemma dither_s32_bounds:
  assumes "sint mn \<le> 0" "0 \<le> sint mx" "sint mx - sint mn < 2 ^ 31 - 1"
  shows "sint mn \<le> sint (fst (ma_dither_s32 mode mn mx st)) \<and> sint (fst (ma_dither_s32 mode mn mx st)) \<le> sint mx"
proof (cases mode)
  case ma_dither_mode_none
  then show ?thesis using assms by (simp add: ma_dither_s32_def)
next
  case ma_dither_mode_rectangle
  then show ?thesis using rand_range_bounds [of mn mx st] assms by (simp add: ma_dither_s32_def)
next
  case ma_dither_mode_triangle
  define a where "a = fst (ma_lcg_rand_range_s32 st mn 0)"
  define b where "b = fst (ma_lcg_rand_range_s32 (snd (ma_lcg_rand_range_s32 st mn 0)) 0 mx)"
  have a: "sint mn \<le> sint a" "sint a \<le> 0"
    using rand_range_bounds [of mn 0 st] assms by (simp_all add: a_def)
  have b: "0 \<le> sint b" "sint b \<le> sint mx"
    using rand_range_bounds [of 0 mx "snd (ma_lcg_rand_range_s32 st mn 0)"] assms by (simp_all add: b_def)
  have r: "- 2147483648 \<le> sint mn" "sint mx < 2147483648" using sint_ge [of mn] sint_lt [of mx] by simp_all
  have "a + b = word_of_int (sint a + sint b)" by simp
  then have "sint (a + b) = sint a + sint b"
    using a b r by (simp only:) (rule sint_of_int32; linarith)
  moreover have "fst (ma_dither_s32 mode mn mx st) = a + b"
    by (simp add: ma_dither_s32_def ma_dither_mode_triangle a_def b_def split: prod.split)
  ultimately show ?thesis using a b by simp
qed

lemma with_lcg_nth: "i < length xs \<Longrightarrow> \<exists>st'. fst (with_lcg f xs st) ! i = fst (f (xs ! i) st')"
proof (induction xs arbitrary: st i)
  case (Cons x xs)
  show ?case
  proof (cases i)
    case 0
    then show ?thesis by (auto split: prod.split intro: exI [of _ st])
  next
    case (Suc j)
    then show ?thesis
      using Cons.IH [of j "snd (f x st)"] Cons.prems by (auto split: prod.split)
  qed
qed simp

lemma with_lcg_length [simp]: "length (fst (with_lcg f xs st)) = length xs"
  by (induction xs arbitrary: st) (simp_all add: case_prod_beta)

text \<open>The byte of a 16-bit sample.\<close>

lemma s16_byte: "unat (ucast (signed_drop_bit 8 (x :: i16) + 128) :: u8) = nat (sint x div 256 + 128)"
proof -
  have b: "- 32768 \<le> sint x" "sint x < 32768" using sint_ge [of x] sint_lt [of x] by simp_all
  have "sint (signed_drop_bit 8 x) = sint x div 256"
    by (simp add: sint_signed_drop_bit_eq drop_bit_eq_div)
  then have "signed_drop_bit 8 x = word_of_int (sint x div 256)"
    by (metis scast_eq scast_id)
  then have e: "signed_drop_bit 8 x + 128 = word_of_int (sint x div 256 + 128)" by simp
  have "0 \<le> sint x div 256 + 128" "sint x div 256 + 128 < 256" using b by linarith+
  then have "uint (signed_drop_bit 8 x + 128) = sint x div 256 + 128"
    unfolding e uint_word_of_int by simp
  then have "unat (signed_drop_bit 8 x + 128) = nat (sint x div 256 + 128)"
    by (simp add: unat_eq_nat_uint)
  moreover have "nat (sint x div 256 + 128) < 2 ^ 8" using b by simp
  ultimately show ?thesis by (simp add: unsigned_ucast_eq take_bit_nat_eq_self)
qed

lemma ucast_of_int_32_16: "(ucast (word_of_int k :: 32 word) :: 16 word) = word_of_int k"
  by transfer simp

lemma dithered_byte:
  assumes x: "- 32640 \<le> sint (x :: i16)" and d: "- 128 \<le> sint (dither :: i32)" "sint dither \<le> 127"
  shows "\<bar>int (unat (ucast (signed_drop_bit 8
      (if sint (scast x + dither) \<le> 0x7FFF then ucast (scast x + dither) else 0x7FFF :: i16) + 128) :: u8)) -
    int (unat (ucast (signed_drop_bit 8 x + 128) :: u8))\<bar> \<le> 1"
proof -
  have b: "sint x < 32768" using sint_lt [of x] by simp
  have eq: "scast x + dither = word_of_int (sint x + sint dither)" by (simp only: of_int_add scast_eq [symmetric] scast_id)
  then have sum: "sint (scast x + dither) = sint x + sint dither"
    using x d b by (simp only:) (rule sint_of_int32; linarith)
  define y :: i16 where "y = (if sint (scast x + dither) \<le> 0x7FFF then ucast (scast x + dither) else 0x7FFF)"
  have y: "sint y = (if sint x + sint dither \<le> 32767 then sint x + sint dither else 32767)"
  proof (cases "sint x + sint dither \<le> 32767")
    case True
    have "(ucast (word_of_int (sint x + sint dither) :: i32) :: i16) = word_of_int (sint x + sint dither)"
      by (rule ucast_of_int_32_16)
    then have "y = word_of_int (sint x + sint dither)" unfolding y_def sum using True by (simp only: if_True eq)
    then show ?thesis using True x d by (simp only: if_True) (rule sint16_of_int; linarith)
  qed (simp add: y_def sum)
  have lo: "sint x + - 1 * 256 \<le> sint y" and hi: "sint y \<le> sint x + 1 * 256" and neg: "- 32768 \<le> sint y"
    using x d b unfolding y by (cases "sint x + sint dither \<le> 32767"; simp only: if_True if_False; linarith)+
  have "sint x div 256 + - 1 \<le> sint y div 256"
    using zdiv_mono1 [OF lo, of 256] by (simp only: div_mult_self1) simp
  moreover have "sint y div 256 \<le> sint x div 256 + 1"
    using zdiv_mono1 [OF hi, of 256] by (simp only: div_mult_self1) simp
  moreover have "- 128 \<le> sint y div 256" "- 128 \<le> sint x div 256"
    using zdiv_mono1 [OF neg, of 256] zdiv_mono1 [of "- 32768" "sint x" 256] x by simp_all
  ultimately show ?thesis unfolding y_def [symmetric] s16_byte by linarith
qed

text \<open>Dithering 16-bit samples down to bytes moves no sample by more than one step, in either mode and
  for every state of the generator, as long as no sample is below -32640.\<close>

theorem s16_to_u8_dither_small:
  assumes "\<forall>i < count. - 32640 \<le> sint (src ! i)" "i < count"
  shows "\<bar>int (unat (fst (ma_pcm_s16_to_u8 src count mode st) ! i)) -
          int (unat (fst (ma_pcm_s16_to_u8 src count ma_dither_mode_none st) ! i))\<bar> \<le> 1"
proof (cases "mode = ma_dither_mode_none")
  case False
  define f where "f = (\<lambda>i st.
    let x = src ! i;
        (dither, st) = ma_dither_s32 mode (- 0x80) 0x7F st;
        x = (if sint (scast x + dither) \<le> 0x7FFF then ucast (scast x + dither) else 0x7FFF) :: i16
    in (ucast (signed_drop_bit 8 x + 128) :: u8, st))"
  have narrow: "ma_pcm_s16_to_u8 src count mode = with_lcg f [0..<count]"
    unfolding ma_pcm_s16_to_u8_def f_def using False by (simp only: if_False)
  obtain st' where st': "fst (with_lcg f [0..<count] st) ! i = fst (f ([0..<count] ! i) st')"
    using with_lcg_nth [of i "[0..<count]" f st] assms(2) by auto
  define d where "d = fst (ma_dither_s32 mode (- 0x80) 0x7F st')"
  have "- 128 \<le> sint d" "sint d \<le> 127"
    using dither_s32_bounds [of "- 0x80" "0x7F" mode st'] by (simp_all add: d_def)
  note near = dithered_byte [OF _ this, of "src ! i"]
  have f: "fst (f i st') = ucast (signed_drop_bit 8
      (if sint (scast (src ! i) + d) \<le> 0x7FFF then ucast (scast (src ! i) + d) else 0x7FFF :: i16) + 128)"
    by (simp only: f_def d_def case_prod_beta Let_def fst_conv)
  have "\<bar>int (unat (fst (f i st'))) - int (unat (ucast (signed_drop_bit 8 (src ! i) + 128) :: u8))\<bar> \<le> 1"
    unfolding f by (rule near) (use assms in blast)
  then show ?thesis
    unfolding narrow using st' assms(2) by (simp add: ma_pcm_s16_to_u8_def)
qed simp

theorem s16_to_u8_dither_small_witness:
  "\<bar>int (unat (fst (ma_pcm_s16_to_u8 [1000, - 32640] 2 ma_dither_mode_triangle MA_DEFAULT_LCG_SEED) ! 1)) -
    int (unat (fst (ma_pcm_s16_to_u8 [1000, - 32640] 2 ma_dither_mode_none MA_DEFAULT_LCG_SEED) ! 1))\<bar> \<le> 1"
proof (rule s16_to_u8_dither_small)
  show "\<forall>i < 2. - 32640 \<le> sint ([1000, - 32640 :: i16] ! i)"
    by (simp add: less_Suc_eq numeral_2_eq_2)
qed simp

text \<open>Below that the sum is only capped from above: with the library's default seed and the rectangle
  mode, the first sample, at negative full scale, comes out as the byte 255, positive full scale,
  where the undithered conversion gives 0.\<close>

theorem s16_to_u8_dither_wraps:
  "fst (ma_pcm_s16_to_u8 [- 32768] 1 ma_dither_mode_rectangle MA_DEFAULT_LCG_SEED) = [255] \<and>
   fst (ma_pcm_s16_to_u8 [- 32768] 1 ma_dither_mode_none MA_DEFAULT_LCG_SEED) = [0]"
  by (simp add: ma_pcm_s16_to_u8_def ma_dither_s32_def ma_lcg_rand_range_s32_def ma_lcg_rand_u32_def
      ma_lcg_rand_s32_def MA_DEFAULT_LCG_SEED_def cdiv_def Let_def)

end
