(* ===== verification/Ma_Volume.thy ===== *)
theory Ma_Volume
  imports Ma_Pcm
begin

text \<open>
  Clipping and volume in miniaudio (\<open>client/native/miniaudio.h\<close>): \<open>ma_clip_*\<close>, \<open>ma_apply_volume_*\<close>,
  \<open>ma_copy_and_apply_volume_*\<close>, the master volume of a device and \<open>ma_mix_pcm_frames_f32\<close>. Buffers are
  those of \<open>Ma_Pcm\<close>; a function that works in place is the one that copies, on the same buffer. A cast
  of a float that does not fit the sample type, and a product that overflows a signed integer, are
  undefined: \<open>None\<close>.
\<close>

section \<open>Clipping\<close>

definition ma_clamp :: "int \<Rightarrow> int \<Rightarrow> int \<Rightarrow> int" where
  "ma_clamp x lo hi = (let m = (if x < hi then x else hi) in if m < lo then lo else m)"

lemma ma_clamp_eq: "ma_clamp x lo hi = max lo (min hi x)"
  by (auto simp: ma_clamp_def Let_def min_def max_def)

definition ma_clip_u8 :: "i32 \<Rightarrow> u8" where
  "ma_clip_u8 x = word_of_int (ma_clamp (sint x) (- 128) 127 + 128)"

definition ma_clip_s16 :: "i32 \<Rightarrow> i16" where
  "ma_clip_s16 x = word_of_int (ma_clamp (sint x) (- 32768) 32767)"

definition ma_clip_s24 :: "i64 \<Rightarrow> i64" where
  "ma_clip_s24 x = word_of_int (ma_clamp (sint x) (- 8388608) 8388607)"

definition ma_clip_s32 :: "i64 \<Rightarrow> i32" where
  "ma_clip_s32 x = word_of_int (ma_clamp (sint x) (- (2147483647 + 1)) 2147483647)"

definition ma_clip_f32 :: "f32 \<Rightarrow> f32" where
  "ma_clip_f32 x = (if fp_lt x (Fin (- 1)) then Fin (- 1) else if fp_lt (Fin 1) x then Fin 1 else x)"

text \<open>The three bytes of a clipped 24-bit sample.\<close>

definition s24_bytes :: "i64 \<Rightarrow> u8 list" where
  "s24_bytes s = [ucast (s AND 0x000000FF), ucast (drop_bit 8 (s AND 0x0000FF00)), ucast (drop_bit 16 (s AND 0x00FF0000))]"

definition ma_clip_samples_u8 :: "i16 list \<Rightarrow> nat \<Rightarrow> u8 list" where
  "ma_clip_samples_u8 src count = map (\<lambda>i. ma_clip_u8 (scast (src ! i))) [0..<count]"

definition ma_clip_samples_s16 :: "i32 list \<Rightarrow> nat \<Rightarrow> i16 list" where
  "ma_clip_samples_s16 src count = map (\<lambda>i. ma_clip_s16 (src ! i)) [0..<count]"

definition ma_clip_samples_s24 :: "i64 list \<Rightarrow> nat \<Rightarrow> u8 list" where
  "ma_clip_samples_s24 src count = concat (map (\<lambda>i. s24_bytes (ma_clip_s24 (src ! i))) [0..<count])"

definition ma_clip_samples_s32 :: "i64 list \<Rightarrow> nat \<Rightarrow> i32 list" where
  "ma_clip_samples_s32 src count = map (\<lambda>i. ma_clip_s32 (src ! i)) [0..<count]"

definition ma_clip_samples_f32 :: "f32 list \<Rightarrow> nat \<Rightarrow> f32 list" where
  "ma_clip_samples_f32 src count = map (\<lambda>i. ma_clip_f32 (src ! i)) [0..<count]"

text \<open>Before clipping, samples are kept in the next wider type.\<close>

datatype wide_buffer =
    WU8 "i16 list" | WS16 "i32 list" | WS24 "i64 list" | WS32 "i64 list" | WF32 "f32 list"

fun wide_format :: "wide_buffer \<Rightarrow> ma_format" where
  "wide_format (WU8 _) = ma_format_u8"
| "wide_format (WS16 _) = ma_format_s16"
| "wide_format (WS24 _) = ma_format_s24"
| "wide_format (WS32 _) = ma_format_s32"
| "wide_format (WF32 _) = ma_format_f32"

text \<open>\<open>frameCount * channels\<close> in 64 bits.\<close>

definition sample_count :: "u64 \<Rightarrow> u32 \<Rightarrow> nat" where
  "sample_count frameCount channels = unat (frameCount * ucast channels)"

definition ma_clip_pcm_frames :: "wide_buffer \<Rightarrow> u64 \<Rightarrow> u32 \<Rightarrow> pcm_buffer" where
  "ma_clip_pcm_frames src frameCount channels =
     (let count = sample_count frameCount channels in
      case src of
        WU8 xs \<Rightarrow> PU8 (ma_clip_samples_u8 xs count)
      | WS16 xs \<Rightarrow> PS16 (ma_clip_samples_s16 xs count)
      | WS24 xs \<Rightarrow> PS24 (ma_clip_samples_s24 xs count)
      | WS32 xs \<Rightarrow> PS32 (ma_clip_samples_s32 xs count)
      | WF32 xs \<Rightarrow> PF32 (ma_clip_samples_f32 xs count))"

section \<open>A volume factor\<close>

definition ma_copy_and_apply_volume_factor_u8 :: "u8 list \<Rightarrow> nat \<Rightarrow> f32 \<Rightarrow> u8 list option" where
  "ma_copy_and_apply_volume_factor_u8 src count factor =
     those (map (\<lambda>i. map_option word_of_int
       (fp_to_int 0 255 (fp_mul f32 (f32 (of_int (uint (src ! i)))) factor))) [0..<count])"

definition ma_copy_and_apply_volume_factor_s16 :: "i16 list \<Rightarrow> nat \<Rightarrow> f32 \<Rightarrow> i16 list option" where
  "ma_copy_and_apply_volume_factor_s16 src count factor =
     those (map (\<lambda>i. map_option word_of_int
       (fp_to_int (- 32768) 32767 (fp_mul f32 (f32 (of_int (sint (src ! i)))) factor))) [0..<count])"

definition ma_copy_and_apply_volume_factor_s24 :: "u8 list \<Rightarrow> nat \<Rightarrow> f32 \<Rightarrow> u8 list option" where
  "ma_copy_and_apply_volume_factor_s24 src count factor =
     map_option concat (those (map (\<lambda>i.
       let sampleS32 = push_bit 8 (ucast (src ! (i * 3 + 0))) OR push_bit 16 (ucast (src ! (i * 3 + 1)))
             OR push_bit 24 (ucast (src ! (i * 3 + 2))) :: i32
       in map_option (\<lambda>z. let s = word_of_int z :: u32 in
            [ucast (drop_bit 8 (s AND 0x0000FF00)), ucast (drop_bit 16 (s AND 0x00FF0000)),
             ucast (drop_bit 24 (s AND 0xFF000000))])
          (fp_to_int (- (2 ^ 31)) (2 ^ 31 - 1) (fp_mul f32 (f32 (of_int (sint sampleS32))) factor))) [0..<count]))"

definition ma_copy_and_apply_volume_factor_s32 :: "i32 list \<Rightarrow> nat \<Rightarrow> f32 \<Rightarrow> i32 list option" where
  "ma_copy_and_apply_volume_factor_s32 src count factor =
     those (map (\<lambda>i. map_option word_of_int
       (fp_to_int (- (2 ^ 31)) (2 ^ 31 - 1) (fp_mul f32 (f32 (of_int (sint (src ! i)))) factor))) [0..<count])"

definition ma_copy_and_apply_volume_factor_f32 :: "f32 list \<Rightarrow> nat \<Rightarrow> f32 \<Rightarrow> f32 list" where
  "ma_copy_and_apply_volume_factor_f32 src count factor =
     (if factor = Fin 1 then map (\<lambda>i. src ! i) [0..<count]
      else map (\<lambda>i. fp_mul f32 (src ! i) factor) [0..<count])"

definition ma_apply_volume_factor_u8 :: "u8 list \<Rightarrow> nat \<Rightarrow> f32 \<Rightarrow> u8 list option" where
  "ma_apply_volume_factor_u8 samples count factor = ma_copy_and_apply_volume_factor_u8 samples count factor"

definition ma_apply_volume_factor_s16 :: "i16 list \<Rightarrow> nat \<Rightarrow> f32 \<Rightarrow> i16 list option" where
  "ma_apply_volume_factor_s16 samples count factor = ma_copy_and_apply_volume_factor_s16 samples count factor"

definition ma_apply_volume_factor_s24 :: "u8 list \<Rightarrow> nat \<Rightarrow> f32 \<Rightarrow> u8 list option" where
  "ma_apply_volume_factor_s24 samples count factor = ma_copy_and_apply_volume_factor_s24 samples count factor"

definition ma_apply_volume_factor_s32 :: "i32 list \<Rightarrow> nat \<Rightarrow> f32 \<Rightarrow> i32 list option" where
  "ma_apply_volume_factor_s32 samples count factor = ma_copy_and_apply_volume_factor_s32 samples count factor"

definition ma_apply_volume_factor_f32 :: "f32 list \<Rightarrow> nat \<Rightarrow> f32 \<Rightarrow> f32 list" where
  "ma_apply_volume_factor_f32 samples count factor = ma_copy_and_apply_volume_factor_f32 samples count factor"

text \<open>The variants that count in frames, as the dispatch on the format calls them.\<close>

definition ma_copy_and_apply_volume_factor_pcm_frames :: "pcm_buffer \<Rightarrow> u64 \<Rightarrow> u32 \<Rightarrow> f32 \<Rightarrow> pcm_buffer option" where
  "ma_copy_and_apply_volume_factor_pcm_frames src frameCount channels factor =
     (let count = sample_count frameCount channels in
      case src of
        PU8 xs \<Rightarrow> map_option PU8 (ma_copy_and_apply_volume_factor_u8 xs count factor)
      | PS16 xs \<Rightarrow> map_option PS16 (ma_copy_and_apply_volume_factor_s16 xs count factor)
      | PS24 xs \<Rightarrow> map_option PS24 (ma_copy_and_apply_volume_factor_s24 xs count factor)
      | PS32 xs \<Rightarrow> map_option PS32 (ma_copy_and_apply_volume_factor_s32 xs count factor)
      | PF32 xs \<Rightarrow> Some (PF32 (ma_copy_and_apply_volume_factor_f32 xs count factor)))"

definition ma_apply_volume_factor_pcm_frames :: "pcm_buffer \<Rightarrow> u64 \<Rightarrow> u32 \<Rightarrow> f32 \<Rightarrow> pcm_buffer option" where
  "ma_apply_volume_factor_pcm_frames frames frameCount channels factor =
     ma_copy_and_apply_volume_factor_pcm_frames frames frameCount channels factor"

definition ma_copy_and_apply_volume_factor_per_channel_f32 :: "f32 list \<Rightarrow> nat \<Rightarrow> nat \<Rightarrow> f32 list \<Rightarrow> f32 list" where
  "ma_copy_and_apply_volume_factor_per_channel_f32 src frameCount channels gains =
     concat (map (\<lambda>f. map (\<lambda>c. fp_mul f32 (src ! (f * channels + c)) (gains ! c)) [0..<channels]) [0..<frameCount])"

section \<open>Fixed-point volume with clipping\<close>

definition ma_float_to_fixed_16 :: "f32 \<Rightarrow> i16 option" where
  "ma_float_to_fixed_16 x = map_option word_of_int (fp_to_int (- 32768) 32767 (fp_mul f32 x (Fin 256)))"

definition smul_fits :: "'a::len word \<Rightarrow> 'a word \<Rightarrow> bool" where
  "smul_fits x y \<longleftrightarrow> sint (x * y) = sint x * sint y"

definition ma_apply_volume_unclipped_u8 :: "i16 \<Rightarrow> i16 \<Rightarrow> i16" where
  "ma_apply_volume_unclipped_u8 x volume = ucast (signed_drop_bit 8 (scast x * scast volume :: i32))"

definition ma_apply_volume_unclipped_s16 :: "i32 \<Rightarrow> i16 \<Rightarrow> i32 option" where
  "ma_apply_volume_unclipped_s16 x volume =
     (if smul_fits x (scast volume) then Some (signed_drop_bit 8 (x * scast volume)) else None)"

definition ma_apply_volume_unclipped_s24 :: "i64 \<Rightarrow> i16 \<Rightarrow> i64 option" where
  "ma_apply_volume_unclipped_s24 x volume =
     (if smul_fits x (scast volume) then Some (signed_drop_bit 8 (x * scast volume)) else None)"

definition ma_apply_volume_unclipped_s32 :: "i64 \<Rightarrow> i16 \<Rightarrow> i64 option" where
  "ma_apply_volume_unclipped_s32 x volume =
     (if smul_fits x (scast volume) then Some (signed_drop_bit 8 (x * scast volume)) else None)"

definition ma_apply_volume_unclipped_f32 :: "f32 \<Rightarrow> f32 \<Rightarrow> f32" where
  "ma_apply_volume_unclipped_f32 x volume = fp_mul f32 x volume"

definition ma_copy_and_apply_volume_and_clip_samples_u8 :: "i16 list \<Rightarrow> nat \<Rightarrow> f32 \<Rightarrow> u8 list option" where
  "ma_copy_and_apply_volume_and_clip_samples_u8 src count volume =
     (case ma_float_to_fixed_16 volume of
        None \<Rightarrow> None
      | Some volumeFixed \<Rightarrow>
          Some (map (\<lambda>i. ma_clip_u8 (scast (ma_apply_volume_unclipped_u8 (src ! i) volumeFixed))) [0..<count]))"

definition ma_copy_and_apply_volume_and_clip_samples_s16 :: "i32 list \<Rightarrow> nat \<Rightarrow> f32 \<Rightarrow> i16 list option" where
  "ma_copy_and_apply_volume_and_clip_samples_s16 src count volume =
     (case ma_float_to_fixed_16 volume of
        None \<Rightarrow> None
      | Some volumeFixed \<Rightarrow>
          those (map (\<lambda>i. map_option ma_clip_s16 (ma_apply_volume_unclipped_s16 (src ! i) volumeFixed)) [0..<count]))"

definition ma_copy_and_apply_volume_and_clip_samples_s24 :: "i64 list \<Rightarrow> nat \<Rightarrow> f32 \<Rightarrow> u8 list option" where
  "ma_copy_and_apply_volume_and_clip_samples_s24 src count volume =
     (case ma_float_to_fixed_16 volume of
        None \<Rightarrow> None
      | Some volumeFixed \<Rightarrow> map_option concat
          (those (map (\<lambda>i. map_option (\<lambda>x. s24_bytes (ma_clip_s24 x))
             (ma_apply_volume_unclipped_s24 (src ! i) volumeFixed)) [0..<count])))"

definition ma_copy_and_apply_volume_and_clip_samples_s32 :: "i64 list \<Rightarrow> nat \<Rightarrow> f32 \<Rightarrow> i32 list option" where
  "ma_copy_and_apply_volume_and_clip_samples_s32 src count volume =
     (case ma_float_to_fixed_16 volume of
        None \<Rightarrow> None
      | Some volumeFixed \<Rightarrow>
          those (map (\<lambda>i. map_option ma_clip_s32 (ma_apply_volume_unclipped_s32 (src ! i) volumeFixed)) [0..<count]))"

definition ma_copy_and_apply_volume_and_clip_samples_f32 :: "f32 list \<Rightarrow> nat \<Rightarrow> f32 \<Rightarrow> f32 list" where
  "ma_copy_and_apply_volume_and_clip_samples_f32 src count volume =
     map (\<lambda>i. ma_clip_f32 (ma_apply_volume_unclipped_f32 (src ! i) volume)) [0..<count]"

text \<open>Silence of a format, as \<open>ma_silence_pcm_frames\<close> stores it.\<close>

fun silent_buffer :: "ma_format \<Rightarrow> nat \<Rightarrow> pcm_buffer option" where
  "silent_buffer ma_format_u8 n = Some (PU8 (replicate n 128))"
| "silent_buffer ma_format_s16 n = Some (PS16 (replicate n 0))"
| "silent_buffer ma_format_s24 n = Some (PS24 (replicate (n * 3) 0))"
| "silent_buffer ma_format_s32 n = Some (PS32 (replicate n 0))"
| "silent_buffer ma_format_f32 n = Some (PF32 (replicate n (Fin 0)))"
| "silent_buffer ma_format_unknown n = None"

definition ma_copy_and_apply_volume_and_clip_pcm_frames ::
    "wide_buffer \<Rightarrow> u64 \<Rightarrow> u32 \<Rightarrow> f32 \<Rightarrow> pcm_buffer option" where
  "ma_copy_and_apply_volume_and_clip_pcm_frames src frameCount channels volume =
     (if volume = Fin 1 then Some (ma_clip_pcm_frames src frameCount channels)
      else if volume = Fin 0 then silent_buffer (wide_format src) (sample_count frameCount channels)
      else
        let count = sample_count frameCount channels in
        case src of
          WU8 xs \<Rightarrow> map_option PU8 (ma_copy_and_apply_volume_and_clip_samples_u8 xs count volume)
        | WS16 xs \<Rightarrow> map_option PS16 (ma_copy_and_apply_volume_and_clip_samples_s16 xs count volume)
        | WS24 xs \<Rightarrow> map_option PS24 (ma_copy_and_apply_volume_and_clip_samples_s24 xs count volume)
        | WS32 xs \<Rightarrow> map_option PS32 (ma_copy_and_apply_volume_and_clip_samples_s32 xs count volume)
        | WF32 xs \<Rightarrow> Some (PF32 (ma_copy_and_apply_volume_and_clip_samples_f32 xs count volume)))"

definition ma_mix_pcm_frames_f32 :: "f32 list option \<Rightarrow> f32 list option \<Rightarrow> u64 \<Rightarrow> u32 \<Rightarrow> f32 \<Rightarrow> bool \<times> f32 list option" where
  "ma_mix_pcm_frames_f32 pDst pSrc frameCount channels volume =
     (case (pDst, pSrc) of
        (Some dst, Some src) \<Rightarrow>
          if channels = 0 then (False, pDst)
          else if volume = Fin 0 then (True, pDst)
          else
            let n = sample_count frameCount channels;
                add = (\<lambda>i. fp_add f32 (dst ! i)
                  (if volume = Fin 1 then src ! i else ma_apply_volume_unclipped_f32 (src ! i) volume))
            in (True, Some (map add [0..<n] @ drop n dst))
      | _ \<Rightarrow> (False, pDst))"

section \<open>What a factor does to a sample\<close>

lemma those_map_Some: "(\<And>x. x \<in> set xs \<Longrightarrow> f x = Some (g x)) \<Longrightarrow> those (map f xs) = Some (map g xs)"
  by (induction xs) auto

lemma of_int_sint_word: "word_of_int (sint w) = w"
  by (metis scast_eq scast_id)

lemma scaled_int_nonneg:
  assumes "0 \<le> z" "z \<le> 2 ^ 24" "0 \<le> v" "v \<le> 1"
  shows "0 \<le> rnd32 (of_int z * v) \<and> rnd32 (of_int z * v) \<le> of_int z"
proof -
  have "of_int z * v \<le> of_int z" using assms mult_left_mono [of v 1 "of_int z"] by simp
  moreover have "repr 24 149 (of_int z)" using assms(1,2) reprI [of z 24 0 149 "of_int z"] by simp
  ultimately have "rnd32 (of_int z * v) \<le> of_int z" by (intro rnd_le_repr) simp_all
  moreover have "0 \<le> rnd32 (of_int z * v)" using assms by (intro rnd_nonneg) simp_all
  ultimately show ?thesis by simp
qed

text \<open>\<open>(type)(x * factor)\<close> for an integer sample of at most 24 bits.\<close>

lemma scaled_sample:
  assumes z: "\<bar>z\<bar> \<le> 2 ^ 24" and v: "0 \<le> v" "v \<le> 1"
  obtains y where "trunc (rnd32 (of_int z * v)) = y" "\<bar>y\<bar> \<le> \<bar>z\<bar>" "0 \<le> z \<longrightarrow> 0 \<le> y" "z \<le> 0 \<longrightarrow> y \<le> 0"
    and "fp_mul f32 (f32 (of_int z)) (Fin v) = Fin (rnd32 (of_int z * v))"
proof -
  have lim: "\<bar>of_int z * v\<bar> \<le> 2 ^ 127"
  proof -
    have "\<bar>of_int z * v\<bar> \<le> \<bar>of_int z\<bar> * 1" unfolding abs_mult using v by (intro mult_left_mono) simp_all
    also have "\<dots> = of_int \<bar>z\<bar>" by simp
    also have "\<dots> \<le> of_int (2 ^ 24)" using z by (simp only: of_int_le_iff)
    also have "(of_int (2 ^ 24) :: rat) \<le> 2 ^ 127" by simp
    finally show ?thesis .
  qed
  have fp: "fp_mul f32 (f32 (of_int z)) (Fin v) = Fin (rnd32 (of_int z * v))"
    using f32_of_int [OF z] f32_Fin [OF lim] by simp
  show thesis
  proof (cases "0 \<le> z")
    case True
    then have b: "0 \<le> rnd32 (of_int z * v)" "rnd32 (of_int z * v) \<le> of_int z"
      using scaled_int_nonneg [of z v] z v by auto
    then have "0 \<le> trunc (rnd32 (of_int z * v))" "trunc (rnd32 (of_int z * v)) \<le> z"
      using trunc_mono [OF b(1)] trunc_mono [OF b(2)] trunc_of_int [of 0] by (simp_all del: trunc_of_int add: trunc_of_int)
    then show thesis using that fp True by auto
  next
    case False
    have eq: "rnd32 (of_int z * v) = - rnd32 (of_int (- z) * v)" using rnd_uminus [of 24 149 "of_int (- z) * v"] by simp
    have b: "0 \<le> rnd32 (of_int (- z) * v)" "rnd32 (of_int (- z) * v) \<le> of_int (- z)"
      using scaled_int_nonneg [of "- z" v] z v False by auto
    then have "0 \<le> trunc (rnd32 (of_int (- z) * v))" "trunc (rnd32 (of_int (- z) * v)) \<le> - z"
      using trunc_mono [OF b(1)] trunc_mono [OF b(2)] trunc_of_int [of 0] trunc_of_int [of "- z"] by (simp_all del: trunc_of_int)
    moreover have "trunc (rnd32 (of_int z * v)) = - trunc (rnd32 (of_int (- z) * v))" unfolding eq by (rule trunc_uminus)
    ultimately show thesis using that fp False by auto
  qed
qed

lemma volume_s16_sample:
  fixes x :: i16
  assumes "0 \<le> v" "v \<le> 1"
  obtains y where "map_option word_of_int (fp_to_int (- 32768) 32767 (fp_mul f32 (f32 (of_int (sint x))) (Fin v))) = Some (y :: i16)"
    "\<bar>sint y\<bar> \<le> \<bar>sint x\<bar>" "0 \<le> sint x \<longrightarrow> 0 \<le> sint y" "sint x \<le> 0 \<longrightarrow> sint y \<le> 0"
    "sint y = trunc (rnd32 (of_int (sint x) * v))"
proof -
  obtain z where z: "sint x = z" by simp
  have zb: "- 32768 \<le> z" "z \<le> 32767" using sint16_bounds [of x] z by simp_all
  then have "\<bar>z\<bar> \<le> 2 ^ 24" by simp
  from scaled_sample [OF this assms] obtain y where y: "trunc (rnd32 (of_int z * v)) = y"
    "\<bar>y\<bar> \<le> \<bar>z\<bar>" "0 \<le> z \<longrightarrow> 0 \<le> y" "z \<le> 0 \<longrightarrow> y \<le> 0"
    "fp_mul f32 (f32 (of_int z)) (Fin v) = Fin (rnd32 (of_int z * v))" by blast
  then have r: "- 32768 \<le> y" "y \<le> 32767" using zb by auto
  then have "sint (word_of_int y :: i16) = y" by (intro sint16_of_int) auto
  then show thesis using that [of "word_of_int y"] y r unfolding z by simp
qed

section \<open>Properties\<close>

text \<open>A volume factor from 0 to 1 makes no 16-bit sample louder: the conversion is defined for every
  buffer, stores one sample for each, of the same sign and at most the same magnitude, and the factors
  1 and 0 store the samples themselves and silence.\<close>

theorem volume_factor_s16:
  assumes "0 \<le> v" "v \<le> 1" "n \<le> length xs"
  shows "\<exists>ys. ma_copy_and_apply_volume_factor_s16 xs n (Fin v) = Some ys \<and> length ys = n \<and>
    (\<forall>i < n. \<bar>sint (ys ! i)\<bar> \<le> \<bar>sint (xs ! i)\<bar> \<and> 0 \<le> sint (ys ! i) * sint (xs ! i)) \<and>
    (v = 1 \<longrightarrow> ys = take n xs) \<and> (v = 0 \<longrightarrow> ys = replicate n 0)"
proof -
  define g where "g x = (word_of_int (trunc (rnd32 (of_int (sint x) * v))) :: i16)" for x :: i16
  have g: "map_option word_of_int (fp_to_int (- 32768) 32767 (fp_mul f32 (f32 (of_int (sint x))) (Fin v))) = Some (g x)"
    "\<bar>sint (g x)\<bar> \<le> \<bar>sint x\<bar>" "0 \<le> sint (g x) * sint x" "v = 1 \<longrightarrow> g x = x" "v = 0 \<longrightarrow> g x = 0" for x :: i16
  proof -
    obtain y where y: "map_option word_of_int (fp_to_int (- 32768) 32767 (fp_mul f32 (f32 (of_int (sint x))) (Fin v))) = Some (y :: i16)"
      "\<bar>sint y\<bar> \<le> \<bar>sint x\<bar>" "0 \<le> sint x \<longrightarrow> 0 \<le> sint y" "sint x \<le> 0 \<longrightarrow> sint y \<le> 0"
      "sint y = trunc (rnd32 (of_int (sint x) * v))" using volume_s16_sample [OF assms(1,2)] by blast
    have gy: "g x = y" unfolding g_def y(5) [symmetric] by (rule of_int_sint_word)
    show "map_option word_of_int (fp_to_int (- 32768) 32767 (fp_mul f32 (f32 (of_int (sint x))) (Fin v))) = Some (g x)"
      "\<bar>sint (g x)\<bar> \<le> \<bar>sint x\<bar>" using y gy by simp_all
    show "0 \<le> sint (g x) * sint x" using y(3,4) gy by (cases "0 \<le> sint x") (auto simp: zero_le_mult_iff)
    obtain z where z: "sint x = z" by simp
    have "rnd32 (of_int z :: rat) = of_int z" using sint16_bounds [of x] z by (intro rnd_of_int_exact) auto
    then have "v = 1 \<longrightarrow> g x = word_of_int z" unfolding g_def z by simp
    then show "v = 1 \<longrightarrow> g x = x" unfolding z [symmetric] of_int_sint_word .
    show "v = 0 \<longrightarrow> g x = 0" using trunc_of_int [of 0] by (simp add: g_def del: trunc_of_int)
  qed
  have "ma_copy_and_apply_volume_factor_s16 xs n (Fin v) = Some (map (\<lambda>i. g (xs ! i)) [0..<n])"
    unfolding ma_copy_and_apply_volume_factor_s16_def by (rule those_map_Some) (rule g)
  moreover have "v = 1 \<longrightarrow> map (\<lambda>i. g (xs ! i)) [0..<n] = take n xs"
    using g(4) assms(3) by (auto intro: nth_equalityI)
  moreover have "v = 0 \<longrightarrow> map (\<lambda>i. g (xs ! i)) [0..<n] = replicate n 0" using g(5) by (auto intro: nth_equalityI)
  ultimately show ?thesis using g(2,3) by auto
qed

lemma volume_factor_s16_witness:
  "\<exists>ys. ma_copy_and_apply_volume_factor_s16 [100, - 32768] 2 (Fin (1 / 2)) = Some ys \<and> length ys = 2 \<and>
     \<bar>sint (ys ! 1)\<bar> \<le> \<bar>sint (- 32768 :: i16)\<bar>"
proof -
  obtain ys where "ma_copy_and_apply_volume_factor_s16 [100, - 32768] 2 (Fin (1 / 2)) = Some ys" "length ys = 2"
    "\<forall>i < 2. \<bar>sint (ys ! i)\<bar> \<le> \<bar>sint ([100, - 32768 :: i16] ! i)\<bar>"
    using volume_factor_s16 [of "1 / 2" 2 "[100, - 32768]"] by auto
  moreover from this(3) have "\<bar>sint (ys ! 1)\<bar> \<le> \<bar>sint ([100, - 32768 :: i16] ! 1)\<bar>" by (rule allE [of _ 1]) simp
  ultimately show ?thesis by simp
qed

text \<open>On an unsigned 8-bit device the factor scales the bytes and not the distance from their centre:
  half the volume turns \<open>n\<close> samples of silence (128) into \<open>n\<close> bytes 64, which is half of the negative
  full scale (-16384 as a 16-bit sample), and volume 0 into negative full scale.\<close>

theorem volume_factor_u8_bias:
  "ma_copy_and_apply_volume_factor_u8 (replicate n 128) n (Fin (1 / 2)) = Some (replicate n 64) \<and>
   ma_pcm_u8_to_s16 (replicate n 64) n = replicate n (- 16384) \<and>
   ma_copy_and_apply_volume_factor_u8 (replicate n 128) n (Fin 0) = Some (replicate n 0) \<and>
   ma_pcm_u8_to_s16 (replicate n 0) n = replicate n (- 32768)"
proof -
  have f: "f32 128 = Fin 128" "f32 64 = Fin 64" "f32 0 = Fin 0"
    using f32_of_int [of 128] f32_of_int [of 64] f32_of_int [of 0] by simp_all
  have t: "trunc 64 = 64" "trunc 0 = 0" using trunc_of_int [of 64] trunc_of_int [of 0] by simp_all
  have m: "map (\<lambda>i. h (replicate n a ! i)) [0..<n] = replicate n (h a)" for h :: "u8 \<Rightarrow> i16" and a
    by (rule nth_equalityI) simp_all
  have r: "those (map (\<lambda>i. h (replicate n a ! i)) [0..<n]) = Some (replicate n b)" if "h a = Some b"
    for h :: "u8 \<Rightarrow> u8 option" and a b
  proof -
    have "those (map (\<lambda>i. h (replicate n a ! i)) [0..<n]) = Some (map (\<lambda>_. b) [0..<n])"
      by (rule those_map_Some) (use that in simp)
    then show ?thesis by (simp add: map_replicate_const)
  qed
  have s: "map_option word_of_int (fp_to_int 0 255 (fp_mul f32 (f32 (of_int (uint (128 :: u8)))) (Fin (1 / 2)))) = Some (64 :: u8)"
    "map_option word_of_int (fp_to_int 0 255 (fp_mul f32 (f32 (of_int (uint (128 :: u8)))) (Fin 0))) = Some (0 :: u8)"
    by (simp_all add: f t)
  note half = r [where h = "\<lambda>x. map_option word_of_int (fp_to_int 0 255 (fp_mul f32 (f32 (of_int (uint x))) (Fin (1 / 2))))", OF s(1)]
  note zero = r [where h = "\<lambda>x. map_option word_of_int (fp_to_int 0 255 (fp_mul f32 (f32 (of_int (uint x))) (Fin 0)))", OF s(2)]
  have wide: "ma_pcm_u8_to_s16 (replicate n a) n = replicate n (push_bit 8 (ucast a - 128))" for a
    unfolding ma_pcm_u8_to_s16_def Let_def by (rule m)
  show ?thesis using half zero by (simp add: ma_copy_and_apply_volume_factor_u8_def wide)
qed

text \<open>The fixed-point volume saturates and never wraps. For mixed sums of up to two full-scale samples
  and any volume that fits the 8.8 fixed-point format, no 32-bit product overflows, and each stored sample
  is the floor of the exact product, limited to the 16-bit range.\<close>

theorem volume_and_clip_s16:
  assumes "ma_float_to_fixed_16 volume = Some k" "volume \<noteq> Fin 0" "volume \<noteq> Fin 1" "\<forall>x \<in> set src. \<bar>sint x\<bar> \<le> 65535"
    and "sample_count frames channels = length src"
  shows "ma_copy_and_apply_volume_and_clip_pcm_frames (WS16 src) frames channels volume =
    Some (PS16 (map (\<lambda>x. word_of_int (max (- 32768) (min 32767 (sint x * sint k div 256)))) src))"
proof -
  have one: "map_option ma_clip_s16 (ma_apply_volume_unclipped_s16 x k) =
      Some (word_of_int (max (- 32768) (min 32767 (sint x * sint k div 256))))" if "x \<in> set src" for x
  proof -
    have k: "sint (scast k :: i32) = sint k"
      using sint16_bounds [of k] by (simp add: signed_scast_eq signed_take_bit_int_eq_self)
    have "\<bar>sint x * sint k\<bar> \<le> 65535 * 32768"
      unfolding abs_mult using assms(4) that sint16_bounds [of k] by (intro mult_mono) (auto simp: abs_le_iff)
    then have w: "sint (word_of_int (sint x * sint k) :: i32) = sint x * sint k"
      by (intro sint_of_int32) linarith+
    have "(word_of_int (sint x * sint k) :: i32) = word_of_int (sint x) * word_of_int (sint (scast k :: i32))"
      unfolding k by (rule wi_hom_mult [symmetric])
    then have "(x * scast k :: i32) = word_of_int (sint x * sint k)" by (simp only: of_int_sint_word)
    then have p: "sint (x * scast k :: i32) = sint x * sint k" using w by (simp only:)
    have "sint (signed_drop_bit 8 (x * scast k) :: i32) = sint x * sint k div 256"
      by (simp only: sint_signed_drop_bit_eq p drop_bit_eq_div) simp
    then show ?thesis
      using p k by (simp only: ma_apply_volume_unclipped_s16_def smul_fits_def ma_clip_s16_def ma_clamp_eq option.map if_True simp_thms)
  qed
  have "those (map (\<lambda>i. map_option ma_clip_s16 (ma_apply_volume_unclipped_s16 (src ! i) k)) [0..<length src]) =
      Some (map (\<lambda>i. word_of_int (max (- 32768) (min 32767 (sint (src ! i) * sint k div 256)))) [0..<length src])"
    by (rule those_map_Some) (use one in simp)
  moreover have "map (\<lambda>i. word_of_int (max (- 32768) (min 32767 (sint (src ! i) * sint k div 256))) :: i16) [0..<length src] =
      map (\<lambda>x. word_of_int (max (- 32768) (min 32767 (sint x * sint k div 256)))) src"
    by (rule nth_equalityI) simp_all
  ultimately show ?thesis
    using assms by (simp add: ma_copy_and_apply_volume_and_clip_pcm_frames_def Let_def
      ma_copy_and_apply_volume_and_clip_samples_s16_def)
qed

lemma volume_and_clip_s16_witness:
  "ma_copy_and_apply_volume_and_clip_pcm_frames (WS16 [65000, - 3]) 1 2 (Fin 2) = Some (PS16 [32767, - 6])"
proof -
  have "f32 512 = Fin 512" "trunc 512 = 512" using f32_of_int [of 512] trunc_of_int [of 512] by simp_all
  then have "ma_float_to_fixed_16 (Fin 2) = Some 512" by (simp add: ma_float_to_fixed_16_def)
  from volume_and_clip_s16 [OF this, of "[65000, - 3]" 1 2] show ?thesis by (simp add: sample_count_def)
qed

end
