(* ===== verification/Ma_Data.thy ===== *)
theory Ma_Data
  imports Ma_Device Ma_Volume
begin

text \<open>
  The data path of a miniaudio device (\<open>client/native/miniaudio.h\<close>), from the call of a backend to the
  application's data callback: \<open>ma_device__on_data_inner\<close>, \<open>ma_device__on_data\<close> with its intermediary
  buffers, \<open>ma_device__handle_data_callback\<close> with the master volume, and the part of \<open>ma_device_init\<close>
  that sets the buffers up. A buffer is the list of its samples, \<open>channels\<close> of them per frame; copies
  that would leave a buffer are undefined (\<open>None\<close>). The application is its state \<open>'c\<close> and a function from
  the output buffer (if any), the input buffer (if any) and the number of frames. What the format decides
  is the record \<open>sample_ops\<close>.
\<close>

section \<open>State\<close>

datatype ma_device_type =
    ma_device_type_playback | ma_device_type_capture | ma_device_type_duplex | ma_device_type_loopback

record 's side =
  side_channels :: u32
  pIntermediaryBuffer :: "'s list"
  bufferCap :: u32
  bufferLen :: u32

record ('a, 'b, 'c) data_device =
  dtype :: ma_device_type
  dev_state :: ma_device_state
  noPreSilencedOutputBuffer :: bool
  noFixedSizedCallback :: bool
  noClip :: bool
  masterVolumeFactor :: f32
  capture_side :: "'a side"
  playback_side :: "'b side"
  pUserData :: 'c

text \<open>The switches on the format: silence, bytes per sample, volume, and clipping (of \<open>f32\<close> only).\<close>

record 's sample_ops =
  op_silence :: 's
  op_bytes :: u32
  op_volume :: "'s list \<Rightarrow> nat \<Rightarrow> f32 \<Rightarrow> 's list option"
  op_clip :: "('s list \<Rightarrow> nat \<Rightarrow> 's list) option"

definition u8_ops :: "u8 sample_ops" where
  "u8_ops = \<lparr>op_silence = 128, op_bytes = 1, op_volume = ma_apply_volume_factor_u8, op_clip = None\<rparr>"

definition s16_ops :: "i16 sample_ops" where
  "s16_ops = \<lparr>op_silence = 0, op_bytes = 2, op_volume = ma_apply_volume_factor_s16, op_clip = None\<rparr>"

definition s32_ops :: "i32 sample_ops" where
  "s32_ops = \<lparr>op_silence = 0, op_bytes = 4, op_volume = ma_apply_volume_factor_s32, op_clip = None\<rparr>"

definition f32_ops :: "f32 sample_ops" where
  "f32_ops = \<lparr>op_silence = Fin 0, op_bytes = 4,
     op_volume = (\<lambda>xs n v. Some (ma_apply_volume_factor_f32 xs n v)), op_clip = Some ma_clip_samples_f32\<rparr>"

type_synonym ('a, 'b, 'c) data_callback =
  "'c \<Rightarrow> 'b list option \<Rightarrow> 'a list option \<Rightarrow> u32 \<Rightarrow> ('c \<times> 'b list option) option"

section \<open>The callback and the intermediary buffers\<close>

text \<open>\<open>ma_copy_pcm_frames\<close> between frame offsets of two buffers.\<close>

definition copy_frames :: "u32 \<Rightarrow> 's list \<Rightarrow> u32 \<Rightarrow> 's list \<Rightarrow> u32 \<Rightarrow> u32 \<Rightarrow> 's list option" where
  "copy_frames channels dst dstOff src srcOff frames =
     (let ch = unat channels; d = unat dstOff * ch; s = unat srcOff * ch; n = unat frames * ch in
      if d + n \<le> length dst \<and> s + n \<le> length src
      then Some (take d dst @ take n (drop s src) @ drop (d + n) dst) else None)"

definition ma_device__on_data_inner ::
    "'b sample_ops \<Rightarrow> ('a, 'b, 'c) data_callback \<Rightarrow> ('a, 'b, 'c) data_device \<Rightarrow> 'b list option \<Rightarrow> 'a list option \<Rightarrow> u32
      \<Rightarrow> ('b list option \<times> ('a, 'b, 'c) data_device) option" where
  "ma_device__on_data_inner ops cb d pFramesOut pFramesIn frameCount =
     (let n = unat frameCount * unat (side_channels (playback_side d));
          silenced = (case pFramesOut of
            None \<Rightarrow> Some None
          | Some out \<Rightarrow>
              if noPreSilencedOutputBuffer d then Some (Some out)
              else if n \<le> length out then Some (Some (replicate n (op_silence ops) @ drop n out)) else None)
      in case silenced of
           None \<Rightarrow> None
         | Some out \<Rightarrow> map_option (\<lambda>(c, out). (out, d\<lparr>pUserData := c\<rparr>)) (cb (pUserData d) out pFramesIn frameCount))"

text \<open>The three parts of an iteration of \<open>ma_device__on_data\<close>. The first number is
  \<open>framesToProcessThisIteration\<close>.\<close>

definition on_data_capture ::
    "'b sample_ops \<Rightarrow> ('a, 'b, 'c) data_callback \<Rightarrow> u32 \<Rightarrow> u32 \<Rightarrow> 'a list \<Rightarrow> ('a, 'b, 'c) data_device
      \<Rightarrow> (u32 \<times> ('a, 'b, 'c) data_device) option" where
  "on_data_capture ops cb frameCount processed pFramesIn d =
     (let s = capture_side d;
          remaining = frameCount - processed;
          filled = (if bufferLen s < bufferCap s then
              let frames = (if bufferCap s - bufferLen s < remaining then bufferCap s - bufferLen s else remaining) in
              map_option (\<lambda>buf. (frames, d\<lparr>capture_side := s\<lparr>pIntermediaryBuffer := buf, bufferLen := bufferLen s + frames\<rparr>\<rparr>))
                (copy_frames (side_channels s) (pIntermediaryBuffer s) (bufferLen s) pFramesIn processed frames)
            else Some (0, d))
      in case filled of
           None \<Rightarrow> None
         | Some (frames, d) \<Rightarrow>
             if bufferLen (capture_side d) = bufferCap (capture_side d) then
               if dtype d = ma_device_type_duplex then Some (frames, d)
               else map_option (\<lambda>(_, d). (frames, d\<lparr>capture_side := (capture_side d)\<lparr>bufferLen := 0\<rparr>\<rparr>))
                 (ma_device__on_data_inner ops cb d None (Some (pIntermediaryBuffer (capture_side d))) (bufferCap (capture_side d)))
             else Some (frames, d))"

text \<open>The playback buffer after the callback has written it.\<close>

definition refilled :: "'b list option \<Rightarrow> ('a, 'b, 'c) data_device \<Rightarrow> ('a, 'b, 'c) data_device" where
  "refilled buf d = d\<lparr>playback_side := (playback_side d)
     \<lparr>pIntermediaryBuffer := (case buf of None \<Rightarrow> pIntermediaryBuffer (playback_side d) | Some b \<Rightarrow> b),
      bufferLen := bufferCap (playback_side d)\<rparr>\<rparr>"

definition on_data_playback ::
    "'b sample_ops \<Rightarrow> ('a, 'b, 'c) data_callback \<Rightarrow> u32 \<Rightarrow> u32 \<Rightarrow> u32 \<Rightarrow> 'b list \<Rightarrow> ('a, 'b, 'c) data_device
      \<Rightarrow> (u32 \<times> 'b list \<times> ('a, 'b, 'c) data_device) option" where
  "on_data_playback ops cb frameCount processed frames pFramesOut d =
     (let s = playback_side d;
          remaining = frameCount - processed;
          taken = (if 0 < bufferLen s then
              let frames = (if dtype d = ma_device_type_duplex then frames
                            else if bufferLen s < remaining then bufferLen s else remaining) in
              map_option (\<lambda>out. (frames, out, d\<lparr>playback_side := s\<lparr>bufferLen := bufferLen s - frames\<rparr>\<rparr>))
                (copy_frames (side_channels s) pFramesOut processed (pIntermediaryBuffer s) (bufferCap s - bufferLen s) frames)
            else Some (frames, pFramesOut, d))
      in case taken of
           None \<Rightarrow> None
         | Some (frames, out, d) \<Rightarrow>
             if bufferLen (playback_side d) = 0 then
               if dtype d = ma_device_type_duplex then Some (frames, out, d)
               else map_option (\<lambda>(buf, d). (frames, out, refilled buf d))
                 (ma_device__on_data_inner ops cb d (Some (pIntermediaryBuffer (playback_side d))) None (bufferCap (playback_side d)))
             else Some (frames, out, d))"

definition on_data_duplex ::
    "'b sample_ops \<Rightarrow> ('a, 'b, 'c) data_callback \<Rightarrow> ('a, 'b, 'c) data_device \<Rightarrow> ('a, 'b, 'c) data_device option" where
  "on_data_duplex ops cb d =
     (if dtype d = ma_device_type_duplex \<and> bufferLen (capture_side d) = bufferCap (capture_side d) then
        map_option (\<lambda>(buf, d). (refilled buf d)\<lparr>capture_side := (capture_side d)\<lparr>bufferLen := 0\<rparr>\<rparr>)
          (ma_device__on_data_inner ops cb d (Some (pIntermediaryBuffer (playback_side d)))
             (Some (pIntermediaryBuffer (capture_side d))) (bufferCap (capture_side d)))
      else Some d)"

definition on_data_iteration ::
    "'b sample_ops \<Rightarrow> ('a, 'b, 'c) data_callback \<Rightarrow> u32 \<Rightarrow> 'a list option \<Rightarrow> u32 \<Rightarrow> 'b list option \<Rightarrow> ('a, 'b, 'c) data_device
      \<Rightarrow> (u32 \<times> 'b list option \<times> ('a, 'b, 'c) data_device) option" where
  "on_data_iteration ops cb frameCount pFramesIn processed pFramesOut d =
     (case (case pFramesIn of None \<Rightarrow> Some (0, d) | Some xs \<Rightarrow> on_data_capture ops cb frameCount processed xs d) of
        None \<Rightarrow> None
      | Some (frames, d) \<Rightarrow>
          (case (case pFramesOut of
                   None \<Rightarrow> Some (frames, None, d)
                 | Some ys \<Rightarrow> map_option (\<lambda>(frames, ys, d). (frames, Some ys, d))
                     (on_data_playback ops cb frameCount processed frames ys d)) of
             None \<Rightarrow> None
           | Some (frames, out, d) \<Rightarrow> map_option (\<lambda>d. (frames, out, d)) (on_data_duplex ops cb d)))"

partial_function (option) on_data_loop ::
    "'b sample_ops \<Rightarrow> ('a, 'b, 'c) data_callback \<Rightarrow> u32 \<Rightarrow> 'a list option \<Rightarrow> u32 \<Rightarrow> 'b list option \<Rightarrow> ('a, 'b, 'c) data_device
      \<Rightarrow> ('b list option \<times> ('a, 'b, 'c) data_device) option" where
  "on_data_loop ops cb frameCount pFramesIn processed pFramesOut d =
     (if processed < frameCount then
        (case on_data_iteration ops cb frameCount pFramesIn processed pFramesOut d of
           None \<Rightarrow> None
         | Some (frames, out, d) \<Rightarrow> on_data_loop ops cb frameCount pFramesIn (processed + frames) out d)
      else Some (pFramesOut, d))"

definition ma_device__on_data ::
    "'b sample_ops \<Rightarrow> ('a, 'b, 'c) data_callback \<Rightarrow> ('a, 'b, 'c) data_device \<Rightarrow> 'b list option \<Rightarrow> 'a list option \<Rightarrow> u32
      \<Rightarrow> ('b list option \<times> ('a, 'b, 'c) data_device) option" where
  "ma_device__on_data ops cb d pFramesOut pFramesIn frameCount =
     (if dev_state d = Stopping then Some (pFramesOut, d)
      else if noFixedSizedCallback d then ma_device__on_data_inner ops cb d pFramesOut pFramesIn frameCount
      else on_data_loop ops cb frameCount pFramesIn 0 pFramesOut d)"

section \<open>Master volume and clipping\<close>

text \<open>A byte offset computed in 32 bits, in samples.\<close>

definition byte_offset :: "'s sample_ops \<Rightarrow> u32 \<Rightarrow> u32 \<Rightarrow> nat" where
  "byte_offset ops channels frames = unat (frames * (op_bytes ops * channels)) div unat (op_bytes ops)"

text \<open>The loop over a read-only input with a volume. A null output pointer stays null only while the
  offset added to it is 0.\<close>

partial_function (option) volume_loop ::
    "'a sample_ops \<Rightarrow> 'b sample_ops \<Rightarrow> ('a, 'b, 'c) data_callback \<Rightarrow> f32 \<Rightarrow> u32 \<Rightarrow> 'a list \<Rightarrow> u32 \<Rightarrow> 'b list option
      \<Rightarrow> ('a, 'b, 'c) data_device \<Rightarrow> ('b list option \<times> ('a, 'b, 'c) data_device) option" where
  "volume_loop aops pops cb volume frameCount pFramesIn processed pFramesOut d =
     (if processed < frameCount then
        let chC = side_channels (capture_side d);
            chP = side_channels (playback_side d);
            bpfCapture = op_bytes aops * chC;
            room = MA_DATA_CONVERTER_STACK_BUFFER_SIZE div bpfCapture;
            frames = (if room < frameCount - processed then room else frameCount - processed);
            off = byte_offset pops chP processed
        in if bpfCapture = 0 then None
           else case op_volume aops (drop (byte_offset aops chC processed) pFramesIn) (sample_count (ucast frames) chC) volume of
             None \<Rightarrow> None
           | Some temp \<Rightarrow>
               (case pFramesOut of
                  None \<Rightarrow>
                    if op_bytes pops * chP * processed = 0 then
                      (case ma_device__on_data pops cb d None (Some temp) frames of
                         None \<Rightarrow> None
                       | Some (_, d) \<Rightarrow> volume_loop aops pops cb volume frameCount pFramesIn (processed + frames) None d)
                    else None
                | Some out \<Rightarrow>
                    (case ma_device__on_data pops cb d (Some (drop off out)) (Some temp) frames of
                       Some (Some rest, d) \<Rightarrow>
                         volume_loop aops pops cb volume frameCount pFramesIn (processed + frames) (Some (take off out @ rest)) d
                     | _ \<Rightarrow> None))
      else Some (pFramesOut, d))"

definition after_callback ::
    "'b sample_ops \<Rightarrow> f32 \<Rightarrow> bool \<Rightarrow> ('a, 'b, 'c) data_device \<Rightarrow> u32 \<Rightarrow> 'b list \<Rightarrow> 'b list option" where
  "after_callback ops volume has_input d frameCount out =
     (let ch = side_channels (playback_side d);
          n = sample_count (ucast frameCount) ch;
          m = unat (frameCount * ch);
          scaled = (if volume \<noteq> Fin 1 \<and> \<not> has_input
                    then map_option (\<lambda>xs. xs @ drop n out) (op_volume ops out n volume) else Some out)
      in map_option (\<lambda>out. case op_clip ops of
             Some limit \<Rightarrow> if \<not> noClip d then limit out m @ drop m out else out
           | None \<Rightarrow> out) scaled)"

definition ma_device__handle_data_callback ::
    "'a sample_ops \<Rightarrow> 'b sample_ops \<Rightarrow> ('a, 'b, 'c) data_callback option \<Rightarrow> ('a, 'b, 'c) data_device \<Rightarrow> 'b list option
      \<Rightarrow> 'a list option \<Rightarrow> u32 \<Rightarrow> ('b list option \<times> ('a, 'b, 'c) data_device) option" where
  "ma_device__handle_data_callback aops pops onData d pFramesOut pFramesIn frameCount =
     (let volume = masterVolumeFactor d in
      case onData of
        Some cb \<Rightarrow>
          (case (case pFramesIn of
                   Some xs \<Rightarrow>
                     if volume \<noteq> Fin 1 then volume_loop aops pops cb volume frameCount xs 0 pFramesOut d
                     else ma_device__on_data pops cb d pFramesOut pFramesIn frameCount
                 | None \<Rightarrow> ma_device__on_data pops cb d pFramesOut pFramesIn frameCount) of
             None \<Rightarrow> None
           | Some (None, d) \<Rightarrow> Some (None, d)
           | Some (Some out, d) \<Rightarrow>
               map_option (\<lambda>out. (Some out, d)) (after_callback pops volume (pFramesIn \<noteq> None) d frameCount out))
      | None \<Rightarrow>
          Some (map_option (\<lambda>out.
            let n = sample_count (ucast frameCount) (side_channels (playback_side d))
            in replicate n (op_silence pops) @ drop n out) pFramesOut, d))"

definition ma_device_set_master_volume :: "('a, 'b, 'c) data_device option \<Rightarrow> f32 \<Rightarrow> bool \<times> ('a, 'b, 'c) data_device option" where
  "ma_device_set_master_volume pDevice volume =
     (case pDevice of
        None \<Rightarrow> (False, None)
      | Some d \<Rightarrow> if fp_lt volume (Fin 0) then (False, Some d) else (True, Some (d\<lparr>masterVolumeFactor := volume\<rparr>)))"

definition ma_device_get_master_volume :: "('a, 'b, 'c) data_device option \<Rightarrow> f32 option \<Rightarrow> bool \<times> f32 option" where
  "ma_device_get_master_volume pDevice pVolume =
     (case pVolume of
        None \<Rightarrow> (False, None)
      | Some _ \<Rightarrow> (case pDevice of None \<Rightarrow> (False, Some (Fin 0)) | Some d \<Rightarrow> (True, Some (masterVolumeFactor d))))"

section \<open>Setting the buffers up\<close>

definition ma_calculate_buffer_size_in_frames_from_milliseconds :: "u32 \<Rightarrow> u32 \<Rightarrow> u32" where
  "ma_calculate_buffer_size_in_frames_from_milliseconds bufferSizeInMilliseconds sampleRate =
     (if sampleRate = 0 then 0 else bufferSizeInMilliseconds * sampleRate div 1000)"

definition ma_calculate_buffer_size_in_milliseconds_from_frames :: "u32 \<Rightarrow> u32 \<Rightarrow> u32" where
  "ma_calculate_buffer_size_in_milliseconds_from_frames bufferSizeInFrames sampleRate =
     (if sampleRate = 0 then 0 else (bufferSizeInFrames * 1000 + (sampleRate - 1)) div sampleRate)"

datatype ma_performance_profile = ma_performance_profile_low_latency | ma_performance_profile_conservative

record period_descriptor =
  desc_sampleRate :: u32
  periodSizeInFrames :: u32
  periodSizeInMilliseconds :: u32

definition ma_calculate_buffer_size_in_frames_from_descriptor :: "period_descriptor option \<Rightarrow> u32 \<Rightarrow> ma_performance_profile \<Rightarrow> u32" where
  "ma_calculate_buffer_size_in_frames_from_descriptor pDescriptor nativeSampleRate performanceProfile =
     (case pDescriptor of
        None \<Rightarrow> 0
      | Some p \<Rightarrow>
          let rate = (if nativeSampleRate = 0 then desc_sampleRate p else nativeSampleRate);
              rate = (if rate = 0 then 48000 else rate)
          in if periodSizeInFrames p \<noteq> 0 then periodSizeInFrames p
             else ma_calculate_buffer_size_in_frames_from_milliseconds
               (if periodSizeInMilliseconds p \<noteq> 0 then periodSizeInMilliseconds p
                else if performanceProfile = ma_performance_profile_low_latency then 10 else 100) rate)"

text \<open>The buffers of \<open>ma_device_init\<close> when both allocations succeed; \<open>periodC\<close> and \<open>periodP\<close> are the
  periods the backend has chosen.\<close>

definition init_intermediary ::
    "'a sample_ops \<Rightarrow> 'b sample_ops \<Rightarrow> u32 \<Rightarrow> u32 \<Rightarrow> u32 \<Rightarrow> u32 \<Rightarrow> u32 \<Rightarrow> ('a, 'b, 'c) data_device \<Rightarrow> ('a, 'b, 'c) data_device" where
  "init_intermediary aops pops sizeInFrames sizeInMilliseconds sampleRate periodC periodP d =
     (if noFixedSizedCallback d then d
      else
        let cap = (if sizeInFrames = 0
              then ma_calculate_buffer_size_in_frames_from_milliseconds sizeInMilliseconds sampleRate
              else sizeInFrames);
            c = capture_side d;
            capC = (if cap = 0 then periodC else cap);
            d = (if dtype d \<in> {ma_device_type_capture, ma_device_type_duplex, ma_device_type_loopback}
              then d\<lparr>capture_side := c\<lparr>pIntermediaryBuffer := replicate (unat capC * unat (side_channels c)) (op_silence aops),
                bufferCap := capC, bufferLen := capC\<rparr>\<rparr> else d);
            p = playback_side d;
            capP = (if dtype d = ma_device_type_duplex then bufferCap (capture_side d) else if cap = 0 then periodP else cap)
        in if dtype d \<in> {ma_device_type_playback, ma_device_type_duplex}
           then d\<lparr>playback_side := p\<lparr>pIntermediaryBuffer := replicate (unat capP * unat (side_channels p)) (op_silence pops),
             bufferCap := capP, bufferLen := 0\<rparr>\<rparr> else d)"

section \<open>What the buffers promise\<close>

text \<open>\<open>queued\<close>: frames the application has produced and the backend has not fetched. \<open>held\<close>: frames the
  backend has delivered and the application has not seen.\<close>

definition side_wf :: "'s side \<Rightarrow> bool" where
  "side_wf s \<longleftrightarrow> length (pIntermediaryBuffer s) = unat (bufferCap s) * unat (side_channels s) \<and> bufferLen s \<le> bufferCap s"

definition queued :: "'s side \<Rightarrow> 's list" where
  "queued s = drop ((unat (bufferCap s) - unat (bufferLen s)) * unat (side_channels s)) (pIntermediaryBuffer s)"

definition held :: "'s side \<Rightarrow> 's list" where
  "held s = take (unat (bufferLen s) * unat (side_channels s)) (pIntermediaryBuffer s)"

text \<open>\<open>k\<close> periods pulled from an application one after the other, and the number of refills that serving
  \<open>r\<close> frames takes when \<open>l\<close> of \<open>cap\<close> frames are queued.\<close>

fun periods :: "('a, 'b, 'c) data_callback \<Rightarrow> 'b \<Rightarrow> u32 \<Rightarrow> u32 \<Rightarrow> nat \<Rightarrow> 'c \<Rightarrow> 'b list \<times> 'c" where
  "periods cb sil channels cap 0 c = ([], c)"
| "periods cb sil channels cap (Suc k) c =
     (case cb c (Some (replicate (unat cap * unat channels) sil)) None cap of
        Some (c, Some q) \<Rightarrow> (let (qs, c) = periods cb sil channels cap k c in (q @ qs, c))
      | _ \<Rightarrow> ([], c))"

definition refills :: "nat \<Rightarrow> nat \<Rightarrow> nat \<Rightarrow> nat" where
  "refills l cap r = (if r = 0 \<or> r < l then 0 else (r - l) div cap + 1)"

text \<open>A started playback device with fixed-size callbacks, at volume \<open>vol\<close>.\<close>

definition pull_device :: "u32 \<Rightarrow> u32 \<Rightarrow> f32 \<Rightarrow> ('a, 'b, 'c) data_device \<Rightarrow> bool" where
  "pull_device channels cap vol d \<longleftrightarrow> dtype d = ma_device_type_playback \<and> dev_state d \<noteq> Stopping \<and>
     \<not> noFixedSizedCallback d \<and> \<not> noPreSilencedOutputBuffer d \<and> side_channels (playback_side d) = channels \<and>
     bufferCap (playback_side d) = cap \<and> side_wf (playback_side d) \<and> masterVolumeFactor d = vol"

text \<open>The backend has been served \<open>r\<close> frames \<open>xs\<close>: they are the queued ones, then those of as many
  periods as it takes, and what is left over stays queued.\<close>

definition served ::
    "('a, 'b, 'c) data_callback \<Rightarrow> 'b \<Rightarrow> u32 \<Rightarrow> u32 \<Rightarrow> nat \<Rightarrow> ('a, 'b, 'c) data_device \<Rightarrow> 'b list \<Rightarrow> ('a, 'b, 'c) data_device \<Rightarrow> bool" where
  "served cb sil channels cap r d xs e \<longleftrightarrow>
     (let l = unat (bufferLen (playback_side d));
          k = refills l (unat cap) r;
          (P, c) = periods cb sil channels cap k (pUserData d);
          stream = queued (playback_side d) @ P
      in pUserData e = c \<and> xs = take (r * unat channels) stream \<and>
         queued (playback_side e) = drop (r * unat channels) stream \<and>
         unat (bufferLen (playback_side e)) = l + k * unat cap - r)"

text \<open>A sequence of requests of the backend, each with its number of frames and its buffer.\<close>

fun serve_all ::
    "'b sample_ops \<Rightarrow> ('a, 'b, 'c) data_callback \<Rightarrow> (u32 \<times> 'b list) list \<Rightarrow> ('a, 'b, 'c) data_device
      \<Rightarrow> ('b list \<times> ('a, 'b, 'c) data_device) option" where
  "serve_all ops cb [] d = Some ([], d)"
| "serve_all ops cb ((n, out) # requests) d =
     (case ma_device__on_data ops cb d (Some out) None n of
        Some (Some xs, d) \<Rightarrow> map_option (\<lambda>(ys, d). (xs @ ys, d)) (serve_all ops cb requests d)
      | _ \<Rightarrow> None)"

lemma refills_simps:
  "refills l cap 0 = 0"
  "0 < r \<Longrightarrow> 0 < cap \<Longrightarrow> refills 0 cap r = Suc (refills cap cap r)"
  "r < l \<Longrightarrow> refills l cap r = 0"
  "0 < l \<Longrightarrow> l \<le> r \<Longrightarrow> 0 < cap \<Longrightarrow> refills l cap r = Suc (refills cap cap (r - l))"
  by (auto simp: refills_def le_div_geq)

lemma refills_enough: "0 < cap \<Longrightarrow> r \<le> l + refills l cap r * cap"
proof (cases "r = 0 \<or> r < l")
  case False
  assume "0 < cap"
  then have "r - l < Suc ((r - l) div cap) * cap" using dividend_less_div_times [of cap "r - l"] by (simp add: add.commute)
  then show ?thesis using False by (simp add: refills_def)
qed (auto simp: refills_def)

lemma refills_add:
  assumes cap: "0 < cap"
  shows "refills l cap (r + s) = refills l cap r + refills (l + refills l cap r * cap - r) cap s"
proof (cases "r = 0 \<or> r < l")
  case True
  then show ?thesis by (auto simp: refills_def add.commute)
next
  case False
  define m where "m = (r - l) mod cap"
  define k where "k = (r - l) div cap"
  have rl: "r - l = k * cap + m" by (simp add: k_def m_def)
  have m: "m < cap" using cap by (simp add: m_def)
  have left: "l + refills l cap r * cap - r = cap - m"
  proof -
    have "refills l cap r = k + 1" using False by (simp add: refills_def k_def)
    moreover have "r = l + k * cap + m" using False rl by linarith
    ultimately show ?thesis by simp
  qed
  have "(r + s - l) div cap = k + (m + s) div cap"
  proof -
    have "r + s - l = k * cap + (m + s)" using False rl by linarith
    then show ?thesis using cap by simp
  qed
  then have sum: "refills l cap (r + s) = k + (m + s) div cap + 1" using False by (simp add: refills_def)
  show ?thesis
  proof (cases "s < cap - m")
    case True
    then show ?thesis using False m sum unfolding left by (simp add: refills_def flip: k_def)
  next
    case less: False
    then have "m + s = (s - (cap - m)) + cap" using m by simp
    then have "(m + s) div cap = Suc ((s - (cap - m)) div cap)" using cap by (simp only: div_add_self2)
    then show ?thesis using False less m sum unfolding left by (auto simp: refills_def simp flip: k_def)
  qed
qed

lemma unat_add_u32: "unat x + unat y \<le> unat z \<Longrightarrow> unat (x + y) = unat x + unat y" for x y z :: u32
  using unsigned_less [of z, where ?'a = nat] by (simp add: unat_word_ariths)

lemma length_queued: "side_wf s \<Longrightarrow> length (queued s) = unat (bufferLen s) * unat (side_channels s)"
  by (simp add: side_wf_def queued_def diff_mult_distrib word_le_nat_alt)

lemma queued_full: "bufferLen s = bufferCap s \<Longrightarrow> queued s = pIntermediaryBuffer s"
  by (simp add: queued_def)

text \<open>At full volume the data callback of a device is the data path alone, unless the format is clipped.\<close>

lemma handle_unity:
  assumes "masterVolumeFactor d = Fin 1" "op_clip pops = None"
  shows "ma_device__handle_data_callback aops pops (Some cb) d pFramesOut pFramesIn frameCount =
    ma_device__on_data pops cb d pFramesOut pFramesIn frameCount"
  using assms by (auto simp: ma_device__handle_data_callback_def after_callback_def Let_def split: option.splits)

text \<open>The contract a data callback has to keep: called for a silent buffer of \<open>cap\<close> frames it fills the
  buffer and keeps its invariant.\<close>

locale playback_client =
  fixes cb :: "('a, 'b, 'c) data_callback" and sil :: 'b and channels cap :: u32 and I :: "'c \<Rightarrow> bool"
  assumes period: "I c \<Longrightarrow> \<exists>c' q. cb c (Some (replicate (unat cap * unat channels) sil)) None cap = Some (c', Some q) \<and>
      length q = unat cap * unat channels \<and> I c'"
    and cap_pos: "I c \<Longrightarrow> 0 < cap"
begin

lemma cap_nat: "I c \<Longrightarrow> 0 < unat cap"
  using cap_pos by (simp add: word_less_nat_alt)

lemma periods_length: "I c \<Longrightarrow> length (fst (periods cb sil channels cap k c)) = k * (unat cap * unat channels)"
proof (induction k arbitrary: c)
  case (Suc k)
  obtain c' q where q: "cb c (Some (replicate (unat cap * unat channels) sil)) None cap = Some (c', Some q)"
    "length q = unat cap * unat channels" "I c'" using period [OF Suc.prems] by blast
  then show ?case using Suc.IH [OF q(3)] by (simp add: case_prod_beta)
qed simp

lemma periods_inv: "I c \<Longrightarrow> I (snd (periods cb sil channels cap k c))"
proof (induction k arbitrary: c)
  case (Suc k)
  obtain c' q where q: "cb c (Some (replicate (unat cap * unat channels) sil)) None cap = Some (c', Some q)" "I c'"
    using period [OF Suc.prems] by blast
  then show ?case using Suc.IH [OF q(2)] by (simp add: case_prod_beta)
qed simp

text \<open>The callback on an empty buffer.\<close>

lemma refill:
  assumes "pull_device channels cap vol d" "bufferLen (playback_side d) = 0" "I (pUserData d)" "op_silence ops = sil"
    and "cb (pUserData d) (Some (replicate (unat cap * unat channels) sil)) None cap = Some (c', Some q)"
    and "length q = unat cap * unat channels"
  shows "\<exists>d'. map_option (\<lambda>(buf, d). (frames, out, refilled buf d))
        (ma_device__on_data_inner ops cb d (Some (pIntermediaryBuffer (playback_side d))) None (bufferCap (playback_side d))) =
      Some (frames, out, d') \<and> pull_device channels cap vol d' \<and> pUserData d' = c' \<and> bufferLen (playback_side d') = cap \<and>
      queued (playback_side d') = q"
  using assms by (auto simp: ma_device__on_data_inner_def pull_device_def side_wf_def refilled_def queued_full Let_def)

text \<open>One iteration: the first one on an empty buffer only fills it; every other one copies frames, and
  fills the buffer again when that has emptied it.\<close>

lemma iteration_empty:
  assumes "pull_device channels cap vol d" "bufferLen (playback_side d) = 0" "I (pUserData d)" "op_silence ops = sil"
    and "cb (pUserData d) (Some (replicate (unat cap * unat channels) sil)) None cap = Some (c', Some q)"
    and "length q = unat cap * unat channels"
  shows "\<exists>d'. on_data_iteration ops cb n None processed (Some out) d = Some (0, Some out, d') \<and>
    pull_device channels cap vol d' \<and> pUserData d' = c' \<and> bufferLen (playback_side d') = cap \<and> queued (playback_side d') = q"
  using refill [OF assms, where frames = 0 and out = out] assms(1,2)
  by (auto simp: on_data_iteration_def on_data_playback_def on_data_duplex_def pull_device_def Let_def)

lemma take_copied:
  assumes "pull_device channels cap vol d" "0 < bufferLen (playback_side d)" "unat processed + unat f \<le> unat n"
    and "unat n * unat channels \<le> length out" "f \<le> bufferLen (playback_side d)"
  shows "copy_frames (side_channels (playback_side d)) out processed (pIntermediaryBuffer (playback_side d))
      (bufferCap (playback_side d) - bufferLen (playback_side d)) f =
    Some (take (unat processed * unat channels) out @ take (unat f * unat channels) (queued (playback_side d)) @
      drop ((unat processed + unat f) * unat channels) out)"
proof -
  let ?s = "playback_side d"
  have s: "side_channels ?s = channels" "bufferCap ?s = cap" "bufferLen ?s \<le> cap"
    "length (pIntermediaryBuffer ?s) = unat cap * unat channels"
    using assms(1) by (auto simp: pull_device_def side_wf_def)
  have off: "unat (cap - bufferLen ?s) = unat cap - unat (bufferLen ?s)"
    using s by (simp add: unat_sub)
  have "unat cap - unat (bufferLen ?s) + unat f \<le> unat cap" using assms(5) s(3) by (simp add: word_le_nat_alt)
  then have "(unat cap - unat (bufferLen ?s)) * unat channels + unat f * unat channels \<le> unat cap * unat channels"
    by (metis add_mult_distrib mult_le_mono1)
  moreover have "unat processed * unat channels + unat f * unat channels \<le> length out"
    using mult_le_mono1 [OF assms(3), of "unat channels"] assms(4) by (simp add: add_mult_distrib)
  ultimately show ?thesis
    by (simp add: copy_frames_def queued_def s off Let_def add_mult_distrib)
qed

text \<open>The frames left in the buffer after a copy.\<close>

lemma queued_taken:
  assumes "pull_device channels cap vol d" "f \<le> bufferLen (playback_side d)"
  shows "queued ((playback_side d)\<lparr>bufferLen := bufferLen (playback_side d) - f\<rparr>) =
    drop (unat f * unat channels) (queued (playback_side d))"
proof -
  let ?s = "playback_side d"
  have "unat cap - unat (bufferLen ?s - f) = unat cap - unat (bufferLen ?s) + unat f"
    using assms by (auto simp: pull_device_def side_wf_def unat_sub word_le_nat_alt)
  then show ?thesis using assms(1) by (simp add: queued_def pull_device_def add_mult_distrib add.commute)
qed

lemma iteration_taken:
  assumes "pull_device channels cap vol d" "0 < bufferLen (playback_side d)" "processed < n"
    and "unat n * unat channels \<le> length out" "op_silence ops = sil" "I (pUserData d)"
    and f: "f = (if bufferLen (playback_side d) < n - processed then bufferLen (playback_side d) else n - processed)"
    and cb: "cb (pUserData d) (Some (replicate (unat cap * unat channels) sil)) None cap = Some (c', Some q)"
      "length q = unat cap * unat channels"
  shows "\<exists>d'. on_data_iteration ops cb n None processed (Some out) d = Some (f,
      Some (take (unat processed * unat channels) out @ take (unat f * unat channels) (queued (playback_side d)) @
        drop ((unat processed + unat f) * unat channels) out), d') \<and>
    pull_device channels cap vol d' \<and>
    (if f = bufferLen (playback_side d)
     then pUserData d' = c' \<and> bufferLen (playback_side d') = cap \<and> queued (playback_side d') = q
     else pUserData d' = pUserData d \<and> bufferLen (playback_side d') = bufferLen (playback_side d) - f \<and>
       queued (playback_side d') = drop (unat f * unat channels) (queued (playback_side d)))"
proof -
  let ?s = "playback_side d"
  let ?d = "d\<lparr>playback_side := ?s\<lparr>bufferLen := bufferLen ?s - f\<rparr>\<rparr>"
  have le: "f \<le> bufferLen ?s" "unat f \<le> unat n - unat processed"
    using f assms(3) by (auto simp: unat_sub word_less_nat_alt word_le_nat_alt split: if_splits)
  then have sum: "unat processed + unat f \<le> unat n" using assms(3) by (simp add: word_less_nat_alt)
  have "bufferLen ?s - f \<le> bufferLen ?s" using le(1) by (simp add: word_sub_le)
  then have pd: "pull_device channels cap vol ?d" using assms(1) by (auto simp: pull_device_def side_wf_def)
  note copy = take_copied [OF assms(1,2) sum assms(4) le(1)]
  have kind: "dtype d = ma_device_type_playback" using assms(1) by (simp add: pull_device_def)
  let ?out = "take (unat processed * unat channels) out @ take (unat f * unat channels) (queued ?s) @
        drop ((unat processed + unat f) * unat channels) out"
  have it: "on_data_playback ops cb n processed 0 out d =
      (if bufferLen ?s - f = 0 then map_option (\<lambda>(buf, d). (f, ?out, refilled buf d))
         (ma_device__on_data_inner ops cb ?d (Some (pIntermediaryBuffer (playback_side ?d))) None (bufferCap (playback_side ?d)))
       else Some (f, ?out, ?d))"
    using copy assms(2) kind by (simp add: on_data_playback_def Let_def flip: f)
  show ?thesis
  proof (cases "f = bufferLen ?s")
    case True
    then have "bufferLen (playback_side ?d) = 0" by simp
    from refill [OF pd this _ assms(5), where c' = c' and q = q and frames = f and out = ?out] cb assms(6)
    obtain d' where "map_option (\<lambda>(buf, d). (f, ?out, refilled buf d))
         (ma_device__on_data_inner ops cb ?d (Some (pIntermediaryBuffer (playback_side ?d))) None (bufferCap (playback_side ?d))) =
        Some (f, ?out, d')" and d': "pull_device channels cap vol d'" "pUserData d' = c'" "bufferLen (playback_side d') = cap"
        "queued (playback_side d') = q"
      by auto
    then have "on_data_playback ops cb n processed 0 out d = Some (f, ?out, d')" using it True by simp
    then show ?thesis using d' True by (auto simp: on_data_iteration_def on_data_duplex_def pull_device_def)
  next
    case False
    then have "on_data_playback ops cb n processed 0 out d = Some (f, ?out, ?d)" using it by simp
    then show ?thesis using pd False queued_taken [OF assms(1) le(1)]
      by (auto simp: on_data_iteration_def on_data_duplex_def kind)
  qed
qed

text \<open>What a request is served when the queue lasts, and when it has been emptied and refilled once.\<close>

lemma served_within:
  assumes "side_wf (playback_side d)" "side_channels (playback_side d) = channels" "r < unat (bufferLen (playback_side d))"
    and "pUserData e = pUserData d" "queued (playback_side e) = drop (r * unat channels) (queued (playback_side d))"
    and "unat (bufferLen (playback_side e)) = unat (bufferLen (playback_side d)) - r"
  shows "served cb sil channels cap r d (take (r * unat channels) (queued (playback_side d))) e"
  using assms(4-6) by (simp add: served_def refills_simps(3) [OF assms(3)])

lemma served_after_refill:
  assumes "side_wf (playback_side d)" "side_channels (playback_side d) = channels"
    and "0 < unat (bufferLen (playback_side d))" "unat (bufferLen (playback_side d)) \<le> r"
    and "cb (pUserData d) (Some (replicate (unat cap * unat channels) sil)) None cap = Some (pUserData d1, Some q)"
    and "bufferLen (playback_side d1) = cap" "queued (playback_side d1) = q"
    and "served cb sil channels cap (r - unat (bufferLen (playback_side d))) d1 xs e" "I (pUserData d)"
  shows "served cb sil channels cap r d (queued (playback_side d) @ xs) e"
proof -
  let ?l = "unat (bufferLen (playback_side d))"
  have cap: "0 < unat cap" by (rule cap_nat [OF assms(9)])
  obtain s where s: "r = ?l + s" using assms(4) le_iff_add by blast
  have k: "refills ?l (unat cap) r = Suc (refills (unat cap) (unat cap) s)"
    using refills_simps(4) [OF assms(3,4) cap] s by simp
  have len: "length (queued (playback_side d)) = ?l * unat channels" using length_queued [OF assms(1)] assms(2) by simp
  have rc: "r * unat channels = length (queued (playback_side d)) + s * unat channels" by (simp add: s len add_mult_distrib)
  have e: "served cb sil channels cap s d1 xs e" using assms(8) s by simp
  show ?thesis
    using e unfolding served_def Let_def k assms(6,7) rc by (simp add: assms(5) case_prod_beta s)
qed

lemma pull_loop:
  assumes "pull_device channels cap vol d" "I (pUserData d)" "processed \<le> n" "unat n * unat channels \<le> length out"
    and "op_silence ops = sil"
  shows "\<exists>xs e. on_data_loop ops cb n None processed (Some out) d =
      Some (Some (take (unat processed * unat channels) out @ xs @ drop (unat n * unat channels) out), e) \<and>
    length xs = (unat n - unat processed) * unat channels \<and>
    pull_device channels cap vol e \<and> I (pUserData e) \<and> served cb sil channels cap (unat n - unat processed) d xs e"
  using assms(1-4)
proof (induction "2 * (unat n - unat processed) + (if bufferLen (playback_side d) = 0 then 1 else 0)"
    arbitrary: processed d out rule: less_induct)
  case less
  let ?s = "playback_side d"
  let ?ch = "unat channels"
  let ?r = "unat n - unat processed"
  note pd = less.prems(1) and inv = less.prems(2)
  have s: "side_wf ?s" "side_channels ?s = channels" using pd by (auto simp: pull_device_def)
  obtain c' q where q: "cb (pUserData d) (Some (replicate (unat cap * ?ch) sil)) None cap = Some (c', Some q)"
    "length q = unat cap * ?ch" "I c'" using period [OF inv] by blast
  have cap: "0 < unat cap" by (rule cap_nat [OF inv])
  have step: "on_data_loop ops cb n None processed (Some out) d = on_data_loop ops cb n None (processed + f) (Some out') d1"
    if "processed < n" "on_data_iteration ops cb n None processed (Some out) d = Some (f, Some out', d1)" for f out' d1
    using that by (subst on_data_loop.simps) simp
  show ?case
  proof (cases "processed = n")
    case True
    then show ?thesis
      using pd inv by (subst on_data_loop.simps)
        (auto simp: served_def refills_simps(1) append_take_drop_id)
  next
    case False
    then have lt: "processed < n" using less.prems(3) by simp
    then have r0: "0 < ?r" by (simp add: word_less_nat_alt)
    show ?thesis
    proof (cases "bufferLen ?s = 0")
      case True
      obtain d1 where d1: "on_data_iteration ops cb n None processed (Some out) d = Some (0, Some out, d1)"
        "pull_device channels cap vol d1" "pUserData d1 = c'" "bufferLen (playback_side d1) = cap" "queued (playback_side d1) = q"
        using iteration_empty [OF pd True inv assms(5) q(1,2)] by blast
      from less.hyps [of processed d1 out] obtain xs e where e:
        "on_data_loop ops cb n None processed (Some out) d1 = Some (Some (take (unat processed * ?ch) out @ xs @ drop (unat n * ?ch) out), e)"
        "length xs = ?r * ?ch" "pull_device channels cap vol e" "I (pUserData e)" "served cb sil channels cap ?r d1 xs e"
        using True d1 less.prems(3,4) q(3) cap_pos [OF inv] by (auto simp: word_gt_0)
      have "queued ?s = []" using length_queued [OF s(1)] True by simp
      then have "served cb sil channels cap ?r d xs e"
        using e(5) True d1(3-5) q(1) refills_simps(2) [OF r0 cap]
        by (simp add: served_def case_prod_beta Let_def)
      then show ?thesis using e(1-4) step [OF lt d1(1)] by auto
    next
      case False
      define f where "f = (if bufferLen ?s < n - processed then bufferLen ?s else n - processed)"
      have l0: "0 < bufferLen ?s" using False by (simp add: word_gt_0)
      have fle: "unat f \<le> ?r" "unat f \<le> unat (bufferLen ?s)" "unat f = min (unat (bufferLen ?s)) ?r"
        using lt by (auto simp: f_def unat_sub word_less_nat_alt word_le_nat_alt)
      have f0: "0 < unat f" using fle(3) r0 l0 by (simp add: word_less_nat_alt)
      let ?out = "take (unat processed * ?ch) out @ take (unat f * ?ch) (queued ?s) @ drop ((unat processed + unat f) * ?ch) out"
      obtain d1 where d1: "on_data_iteration ops cb n None processed (Some out) d = Some (f, Some ?out, d1)"
        "pull_device channels cap vol d1"
        "if f = bufferLen ?s then pUserData d1 = c' \<and> bufferLen (playback_side d1) = cap \<and> queued (playback_side d1) = q
         else pUserData d1 = pUserData d \<and> bufferLen (playback_side d1) = bufferLen ?s - f \<and>
           queued (playback_side d1) = drop (unat f * ?ch) (queued ?s)"
        using iteration_taken [OF pd l0 lt less.prems(4) assms(5) inv f_def q(1,2)] by blast
      have add: "unat (processed + f) = unat processed + unat f"
        using fle(1) less.prems(3) by (intro unat_add_u32 [of _ _ n]) (auto simp: word_le_nat_alt)
      have lq: "length (queued ?s) = unat (bufferLen ?s) * ?ch" using length_queued [OF s(1)] s(2) by simp
      then have lt': "length (take (unat f * ?ch) (queued ?s)) = unat f * ?ch" using fle(2) by simp
      have bound: "(unat processed + unat f) * ?ch \<le> unat n * ?ch" using fle(1) less.prems(3)
        by (intro mult_le_mono1) (auto simp: word_le_nat_alt)
      then have lp: "unat processed * ?ch + unat f * ?ch \<le> length out" using less.prems(4) by (simp add: add_mult_distrib)
      have inv1: "I (pUserData d1)" using d1(3) q(3) inv by (auto split: if_splits)
      have lo: "length ?out = length out" unfolding length_append lt' using lp by (simp add: add_mult_distrib)
      have prem: "processed + f \<le> n" "unat n * ?ch \<le> length ?out"
        using add fle(1) less.prems(3,4) lo by (simp_all add: word_le_nat_alt)
      have small: "2 * (unat n - unat (processed + f)) + (if bufferLen (playback_side d1) = 0 then 1 else 0) <
          2 * ?r + (if bufferLen ?s = 0 then 1 else 0)"
        using add f0 r0 by auto
      from less.hyps [OF small d1(2) inv1 prem] obtain xs e where e:
        "on_data_loop ops cb n None (processed + f) (Some ?out) d1 =
           Some (Some (take (unat (processed + f) * ?ch) ?out @ xs @ drop (unat n * ?ch) ?out), e)"
        "length xs = (unat n - unat (processed + f)) * ?ch" "pull_device channels cap vol e" "I (pUserData e)"
        "served cb sil channels cap (unat n - unat (processed + f)) d1 xs e" by blast
      have out: "take (unat (processed + f) * ?ch) ?out = take (unat processed * ?ch) out @ take (unat f * ?ch) (queued ?s)"
        "drop (unat n * ?ch) ?out = drop (unat n * ?ch) out"
        using lt' lp bound add less.prems(3) by (simp_all add: add_mult_distrib word_le_nat_alt)
      have diff: "unat n - unat (processed + f) = ?r - unat f" using add by simp
      have len: "length (take (unat f * ?ch) (queued ?s) @ xs) = ?r * ?ch"
        unfolding length_append lt' e(2) diff add_mult_distrib [symmetric] le_add_diff_inverse [OF fle(1)] by (rule refl)
      have "served cb sil channels cap ?r d (take (unat f * ?ch) (queued ?s) @ xs) e"
      proof (cases "f = bufferLen ?s")
        case True
        then have all: "take (unat f * ?ch) (queued ?s) = queued ?s" using lq by simp
        have r: "0 < unat (bufferLen ?s)" "unat (bufferLen ?s) \<le> ?r" using True f0 fle(1) by simp_all
        have d1': "pUserData d1 = c'" "bufferLen (playback_side d1) = cap" "queued (playback_side d1) = q"
          using d1(3) True by simp_all
        show ?thesis
          unfolding all using e(5) [unfolded diff] d1' q(1) inv
          by (intro served_after_refill [OF s r, where q = q and ?d1.0 = d1]) (simp_all flip: True)
      next
        case False
        then have "unat f \<noteq> unat (bufferLen ?s)" by (metis word_unat_eq_iff)
        then have r: "?r = unat f" "?r < unat (bufferLen ?s)" using fle by auto
        have d1': "pUserData d1 = pUserData d" "bufferLen (playback_side d1) = bufferLen ?s - f"
            "queued (playback_side d1) = drop (unat f * ?ch) (queued ?s)"
          using d1(3) False by simp_all
        have left: "unat (bufferLen ?s - f) = unat (bufferLen ?s) - unat f" using fle(2) by (simp add: unat_sub word_le_nat_alt)
        have stop: "xs = []" "pUserData e = pUserData d1" "queued (playback_side e) = queued (playback_side d1)"
            "unat (bufferLen (playback_side e)) = unat (bufferLen (playback_side d1))"
          using e(5) unfolding diff r(1) by (simp_all add: served_def refills_simps(1))
        show ?thesis
          using served_within [OF s r(2), of e] stop d1' left unfolding r(1) by simp
      qed
      moreover have "on_data_loop ops cb n None processed (Some out) d = Some (Some (take (unat processed * ?ch) out @
          (take (unat f * ?ch) (queued ?s) @ xs) @ drop (unat n * ?ch) out), e)"
        using step [OF lt d1(1)] e(1) unfolding out append_assoc by (rule trans)
      ultimately show ?thesis using e(3,4) len by blast
    qed
  qed
qed

lemma pull_on_data:
  assumes "pull_device channels cap vol d" "I (pUserData d)" "length out = unat n * unat channels" "op_silence ops = sil"
  shows "\<exists>xs e. ma_device__on_data ops cb d (Some out) None n = Some (Some xs, e) \<and> length xs = length out \<and>
    pull_device channels cap vol e \<and> I (pUserData e) \<and> served cb sil channels cap (unat n) d xs e"
  using pull_loop [OF assms(1,2) _ _ assms(4), of 0 n out] assms(1,3)
  by (auto simp: ma_device__on_data_def pull_device_def)

lemma periods_append:
  "I c \<Longrightarrow> periods cb sil channels cap (j + k) c =
     (fst (periods cb sil channels cap j c) @ fst (periods cb sil channels cap k (snd (periods cb sil channels cap j c))),
      snd (periods cb sil channels cap k (snd (periods cb sil channels cap j c))))"
proof (induction j arbitrary: c)
  case (Suc j)
  obtain c' q where "cb c (Some (replicate (unat cap * unat channels) sil)) None cap = Some (c', Some q)" "I c'"
    using period [OF Suc.prems] by blast
  then show ?case using Suc.IH by (simp add: case_prod_beta)
qed simp

text \<open>Serving \<open>r\<close> frames and then \<open>s\<close> frames is serving \<open>r + s\<close> frames.\<close>

lemma served_append:
  assumes "served cb sil channels cap r d xs e" "served cb sil channels cap s e ys f"
    and "pull_device channels cap vol d" "I (pUserData d)"
  shows "served cb sil channels cap (r + s) d (xs @ ys) f"
proof -
  let ?l = "unat (bufferLen (playback_side d))" and ?l' = "unat (bufferLen (playback_side e))"
  let ?c = "unat cap" and ?ch = "unat channels" and ?Q = "queued (playback_side d)"
  define j where "j = refills ?l ?c r"
  define k where "k = refills ?l' ?c s"
  define P where "P = fst (periods cb sil channels cap j (pUserData d))"
  define R where "R = fst (periods cb sil channels cap k (pUserData e))"
  have cap: "0 < ?c" by (rule cap_nat [OF assms(4)])
  have e: "pUserData e = snd (periods cb sil channels cap j (pUserData d))" "xs = take (r * ?ch) (?Q @ P)"
      "queued (playback_side e) = drop (r * ?ch) (?Q @ P)" "?l' = ?l + j * ?c - r"
    using assms(1) by (simp_all add: served_def case_prod_beta Let_def j_def P_def)
  have f: "pUserData f = snd (periods cb sil channels cap k (pUserData e))"
      "ys = take (s * ?ch) (drop (r * ?ch) (?Q @ P) @ R)"
      "queued (playback_side f) = drop (s * ?ch) (drop (r * ?ch) (?Q @ P) @ R)"
      "unat (bufferLen (playback_side f)) = ?l' + k * ?c - s"
    using assms(2) e(3) by (simp_all add: served_def case_prod_beta Let_def k_def R_def)
  have enough: "r \<le> ?l + j * ?c" unfolding j_def by (rule refills_enough [OF cap])
  have len: "length (?Q @ P) = (?l + j * ?c) * ?ch"
    using length_queued [of "playback_side d"] periods_length [OF assms(4), of j] assms(3)
    by (simp add: P_def pull_device_def add_mult_distrib)
  then have rl: "r * ?ch \<le> length (?Q @ P)" using mult_le_mono1 [OF enough] by simp
  have jk: "refills ?l ?c (r + s) = j + k" unfolding j_def k_def e(4) by (rule refills_add [OF cap])
  have stream: "?Q @ fst (periods cb sil channels cap (j + k) (pUserData d)) = (?Q @ P) @ R"
    by (simp add: periods_append [OF assms(4)] P_def R_def e(1))
  have "xs @ ys = take ((r + s) * ?ch) ((?Q @ P) @ R)"
    unfolding e(2) f(2) add_mult_distrib take_add using rl by simp
  moreover have "queued (playback_side f) = drop ((r + s) * ?ch) ((?Q @ P) @ R)"
  proof -
    have "drop (r * ?ch) (?Q @ P) @ R = drop (r * ?ch) ((?Q @ P) @ R)" using rl by simp
    then show ?thesis unfolding f(3) add_mult_distrib by (simp only: drop_drop add.commute)
  qed
  moreover have "pUserData f = snd (periods cb sil channels cap (j + k) (pUserData d))"
    unfolding f(1) e(1) by (simp add: periods_append [OF assms(4)])
  moreover have "unat (bufferLen (playback_side f)) = ?l + (j + k) * ?c - (r + s)"
    unfolding f(4) e(4) using enough by (simp add: add_mult_distrib)
  ultimately show ?thesis
    unfolding served_def Let_def jk by (simp only: case_prod_beta stream simp_thms)
qed

lemma served_all:
  assumes "pull_device channels cap vol d" "I (pUserData d)" "op_silence ops = sil"
    and "\<forall>(n, out) \<in> set requests. length out = unat n * unat channels"
  shows "\<exists>xs e. serve_all ops cb requests d = Some (xs, e) \<and>
    served cb sil channels cap (sum_list (map (\<lambda>(n, _). unat n) requests)) d xs e"
  using assms(1,2,4)
proof (induction requests arbitrary: d)
  case Nil
  then show ?case by (simp add: served_def refills_simps)
next
  case (Cons req requests)
  obtain n out where req: "req = (n, out)" by (cases req)
  obtain xs e where e: "ma_device__on_data ops cb d (Some out) None n = Some (Some xs, e)"
    "pull_device channels cap vol e" "I (pUserData e)" "served cb sil channels cap (unat n) d xs e"
    using pull_on_data [OF Cons.prems(1,2) _ assms(3), of out n] Cons.prems(3) req by auto
  obtain ys f where f: "serve_all ops cb requests e = Some (ys, f)"
    "served cb sil channels cap (sum_list (map (\<lambda>(n, _). unat n) requests)) e ys f"
    using Cons.IH [OF e(2,3)] Cons.prems(3) by auto
  show ?case using e(1) f(1) served_append [OF e(4) f(2) Cons.prems(1,2)] req by auto
qed

end

section \<open>Properties\<close>

text \<open>C17: A playback device plays one stream, however its backend asks for it. With fixed-size callbacks and
  an application that fills the buffers it is given, any sequence of requests is answered, and the
  samples handed out are those queued at first followed by the application's periods, one callback of
  exactly \<open>cap\<close> frames each, in order, with nothing lost, repeated or left silent. Two sequences that ask
  for as many frames in total get the same samples and leave the application and the queue in the same
  state.\<close>

theorem playback_stream:
  assumes "playback_client cb sil channels cap I" "op_silence ops = sil" "pull_device channels cap vol d" "I (pUserData d)"
    and "\<forall>(n, out) \<in> set requests \<union> set others. length out = unat n * unat channels"
    and "sum_list (map (\<lambda>(n, _). unat n) requests) = sum_list (map (\<lambda>(n, _). unat n) others)"
  shows "\<exists>xs e f. serve_all ops cb requests d = Some (xs, e) \<and> serve_all ops cb others d = Some (xs, f) \<and>
    served cb sil channels cap (sum_list (map (\<lambda>(n, _). unat n) requests)) d xs e \<and>
    pUserData e = pUserData f \<and> queued (playback_side e) = queued (playback_side f)"
proof -
  note served_all = playback_client.served_all [OF assms(1,3,4,2)]
  obtain xs e where e: "serve_all ops cb requests d = Some (xs, e)"
    "served cb sil channels cap (sum_list (map (\<lambda>(n, _). unat n) requests)) d xs e"
    using served_all [of requests] assms(5) by auto
  obtain ys f where f: "serve_all ops cb others d = Some (ys, f)"
    "served cb sil channels cap (sum_list (map (\<lambda>(n, _). unat n) others)) d ys f"
    using served_all [of others] assms(5) by auto
  have "xs = ys" "pUserData e = pUserData f" "queued (playback_side e) = queued (playback_side f)"
    using e(2) f(2) unfolding assms(6) by (simp_all add: served_def case_prod_beta Let_def)
  then show ?thesis using e f by blast
qed

end
