(* ===== verification/Ma_Data_Capture.thy ===== *)
theory Ma_Data_Capture
  imports Ma_Data
begin

text \<open>
  The capture side of the data path of a device (\<open>ma_device__on_data\<close> in \<open>client/native/miniaudio.h\<close>):
  however the backend cuts what it records, the application is called with blocks of one period, in
  order, of the stream made of the frames held and the frames delivered.
\<close>

section \<open>What the application is given\<close>

definition push_device :: "u32 \<Rightarrow> u32 \<Rightarrow> f32 \<Rightarrow> ('a, 'b, 'c) data_device \<Rightarrow> bool" where
  "push_device channels cap vol d \<longleftrightarrow> dtype d \<in> {ma_device_type_capture, ma_device_type_loopback} \<and> dev_state d \<noteq> Stopping \<and>
     \<not> noFixedSizedCallback d \<and> side_channels (capture_side d) = channels \<and>
     bufferCap (capture_side d) = cap \<and> side_wf (capture_side d) \<and> masterVolumeFactor d = vol"

text \<open>\<open>k\<close> calls of the application with the first \<open>k\<close> blocks of \<open>m\<close> samples, and the number of blocks
  that \<open>r\<close> more frames complete when \<open>l\<close> of \<open>cap\<close> frames are held (a full buffer is only handed over
  when the next frames arrive).\<close>

fun blocks :: "('a, 'b, 'c) data_callback \<Rightarrow> u32 \<Rightarrow> nat \<Rightarrow> nat \<Rightarrow> 'a list \<Rightarrow> 'c \<Rightarrow> 'c" where
  "blocks cb cap m 0 xs c = c"
| "blocks cb cap m (Suc k) xs c =
     (case cb c None (Some (take m xs)) cap of Some (c, _) \<Rightarrow> blocks cb cap m k (drop m xs) c | None \<Rightarrow> c)"

definition completed :: "nat \<Rightarrow> nat \<Rightarrow> nat \<Rightarrow> nat" where
  "completed l cap r = (if r = 0 then 0 else (l + r) div cap)"

definition fed ::
    "('a, 'b, 'c) data_callback \<Rightarrow> u32 \<Rightarrow> u32 \<Rightarrow> nat \<Rightarrow> ('a, 'b, 'c) data_device \<Rightarrow> 'a list \<Rightarrow> ('a, 'b, 'c) data_device \<Rightarrow> bool" where
  "fed cb channels cap r d xs e \<longleftrightarrow>
     (let l = unat (bufferLen (capture_side d));
          k = completed l (unat cap) r;
          m = unat cap * unat channels;
          stream = held (capture_side d) @ xs
      in pUserData e = blocks cb cap m k stream (pUserData d) \<and> held (capture_side e) = drop (k * m) stream \<and>
         unat (bufferLen (capture_side e)) = l + r - k * unat cap)"

text \<open>A sequence of deliveries of the backend.\<close>

fun deliver_all ::
    "'b sample_ops \<Rightarrow> ('a, 'b, 'c) data_callback \<Rightarrow> (u32 \<times> 'a list) list \<Rightarrow> ('a, 'b, 'c) data_device
      \<Rightarrow> ('a, 'b, 'c) data_device option" where
  "deliver_all ops cb [] d = Some d"
| "deliver_all ops cb ((n, xs) # deliveries) d =
     (case ma_device__on_data ops cb d None (Some xs) n of
        Some (None, d) \<Rightarrow> deliver_all ops cb deliveries d
      | _ \<Rightarrow> None)"

lemma completed_le: "completed l cap r * cap \<le> l + r"
  by (simp add: completed_def div_times_less_eq_dividend)

lemma completed_add:
  assumes "0 < cap"
  shows "completed l cap (r + s) = completed l cap r + completed (l + r - completed l cap r * cap) cap s"
proof (cases "r = 0 \<or> s = 0")
  case False
  let ?k = "(l + r) div cap"
  have "l + r = ?k * cap + (l + r) mod cap" by simp
  then have "l + (r + s) = ?k * cap + (l + r - ?k * cap + s)" by linarith
  then have "(l + (r + s)) div cap = ?k + (l + r - ?k * cap + s) div cap"
    using assms by (metis add.commute div_mult_self1 less_not_refl mult.commute)
  then show ?thesis using False by (simp add: completed_def)
qed (auto simp: completed_def)

lemma completed_simps:
  "completed l cap 0 = 0"
  "0 < r \<Longrightarrow> 0 < cap \<Longrightarrow> completed cap cap r = Suc (completed 0 cap r)"
  "l + r < cap \<Longrightarrow> completed l cap r = 0"
  "0 < r \<Longrightarrow> 0 < cap \<Longrightarrow> l + r = cap \<Longrightarrow> completed l cap r = 1"
  by (simp_all add: completed_def)

lemma length_held: "side_wf s \<Longrightarrow> length (held s) = unat (bufferLen s) * unat (side_channels s)"
  by (simp add: side_wf_def held_def word_le_nat_alt)

lemma held_full: "side_wf s \<Longrightarrow> bufferLen s = bufferCap s \<Longrightarrow> held s = pIntermediaryBuffer s"
  by (simp add: side_wf_def held_def)

text \<open>The contract of an application that is given blocks of \<open>cap\<close> frames.\<close>

locale capture_client =
  fixes cb :: "('a, 'b, 'c) data_callback" and channels cap :: u32 and I :: "'c \<Rightarrow> bool"
  assumes block: "I c \<Longrightarrow> length xs = unat cap * unat channels \<Longrightarrow> \<exists>c'. cb c None (Some xs) cap = Some (c', None) \<and> I c'"
    and cap_pos: "I c \<Longrightarrow> 0 < cap"
begin

lemma cap_nat: "I c \<Longrightarrow> 0 < unat cap"
  using cap_pos by (simp add: word_less_nat_alt)

lemma blocks_inv: "I c \<Longrightarrow> k * (unat cap * unat channels) \<le> length xs \<Longrightarrow> I (blocks cb cap (unat cap * unat channels) k xs c)"
proof (induction k arbitrary: xs c)
  case (Suc k)
  obtain c' where "cb c None (Some (take (unat cap * unat channels) xs)) cap = Some (c', None)" "I c'"
    using block [OF Suc.prems(1), of "take (unat cap * unat channels) xs"] Suc.prems(2) by auto
  then show ?case using Suc.IH Suc.prems(2) by simp
qed simp

lemma blocks_append_stream:
  "k * m \<le> length xs \<Longrightarrow> blocks cb cap m k (xs @ ys) c = blocks cb cap m k xs c"
  by (induction k arbitrary: xs c) (auto split: option.splits)

lemma blocks_add:
  "I c \<Longrightarrow> j * (unat cap * unat channels) \<le> length xs \<Longrightarrow>
   blocks cb cap (unat cap * unat channels) (j + k) xs c =
     blocks cb cap (unat cap * unat channels) k (drop (j * (unat cap * unat channels)) xs)
       (blocks cb cap (unat cap * unat channels) j xs c)"
proof (induction j arbitrary: xs c)
  case (Suc j)
  obtain c' where "cb c None (Some (take (unat cap * unat channels) xs)) cap = Some (c', None)" "I c'"
    using block [OF Suc.prems(1), of "take (unat cap * unat channels) xs"] Suc.prems(2) by auto
  then show ?case using Suc.IH [of c' "drop (unat cap * unat channels) xs"] Suc.prems(2) by (simp add: add.commute)
qed simp

lemma completed_fits:
  assumes "push_device channels cap vol d" "length xs = r * unat channels"
  shows "completed (unat (bufferLen (capture_side d))) (unat cap) r * (unat cap * unat channels) \<le>
    length (held (capture_side d) @ xs)"
  using mult_le_mono1 [OF completed_le [of "unat (bufferLen (capture_side d))" "unat cap" r], of "unat channels"]
    length_held [of "capture_side d"] assms by (simp add: push_device_def algebra_simps)

lemma fed_inv:
  assumes "push_device channels cap vol d" "I (pUserData d)" "fed cb channels cap r d xs e" "length xs = r * unat channels"
  shows "I (pUserData e)"
  using blocks_inv [OF assms(2) completed_fits [OF assms(1,4)]] assms(3) by (simp add: fed_def Let_def)

text \<open>Delivering \<open>r\<close> frames and then \<open>s\<close> frames is delivering \<open>r + s\<close> frames.\<close>

lemma fed_append:
  assumes "fed cb channels cap r d xs e" "fed cb channels cap s e ys f"
    and "push_device channels cap vol d" "I (pUserData d)" "length xs = r * unat channels"
  shows "fed cb channels cap (r + s) d (xs @ ys) f"
proof -
  let ?l = "unat (bufferLen (capture_side d))" and ?l' = "unat (bufferLen (capture_side e))"
  let ?m = "unat cap * unat channels" and ?H = "held (capture_side d)"
  define j where "j = completed ?l (unat cap) r"
  define k where "k = completed ?l' (unat cap) s"
  have e: "pUserData e = blocks cb cap ?m j (?H @ xs) (pUserData d)" "held (capture_side e) = drop (j * ?m) (?H @ xs)"
      "?l' = ?l + r - j * unat cap"
    using assms(1) by (simp_all add: fed_def Let_def j_def)
  have f: "pUserData f = blocks cb cap ?m k (drop (j * ?m) (?H @ xs) @ ys) (pUserData e)"
      "held (capture_side f) = drop (k * ?m) (drop (j * ?m) (?H @ xs) @ ys)"
      "unat (bufferLen (capture_side f)) = ?l' + s - k * unat cap"
    using assms(2) e(2) by (simp_all add: fed_def Let_def k_def)
  have fits: "j * ?m \<le> length (?H @ xs)" unfolding j_def by (rule completed_fits [OF assms(3,5)])
  have jk: "completed ?l (unat cap) (r + s) = j + k"
    unfolding j_def k_def e(3) by (rule completed_add [OF cap_nat [OF assms(4)]])
  have stream: "drop (j * ?m) (?H @ xs) @ ys = drop (j * ?m) (?H @ xs @ ys)"
    using fits by (metis append_assoc diff_is_0_eq drop0 drop_append)
  have "blocks cb cap ?m j (?H @ xs) (pUserData d) = blocks cb cap ?m j (?H @ xs @ ys) (pUserData d)"
    using blocks_append_stream [OF fits, of ys] by simp
  then have "pUserData f = blocks cb cap ?m (j + k) (?H @ xs @ ys) (pUserData d)"
    using blocks_add [OF assms(4), of j "?H @ xs @ ys" k] fits unfolding f(1) e(1) stream by simp
  moreover have "held (capture_side f) = drop ((j + k) * ?m) (?H @ xs @ ys)"
    unfolding f(2) stream by (simp only: drop_drop add_mult_distrib add.commute)
  moreover have "unat (bufferLen (capture_side f)) = ?l + (r + s) - (j + k) * unat cap"
    using f(3) e(3) completed_le [of ?l "unat cap" r, folded j_def] by (simp add: add_mult_distrib)
  ultimately show ?thesis unfolding fed_def Let_def jk by blast
qed

text \<open>One iteration hands a full buffer over without taking anything, or takes frames and hands the
  buffer over when they fill it.\<close>

lemma iteration_full:
  assumes "push_device channels cap vol d" "I (pUserData d)" "bufferLen (capture_side d) = cap"
  shows "\<exists>d'. on_data_iteration ops cb n (Some xs) processed None d = Some (0, None, d') \<and> push_device channels cap vol d' \<and>
    cb (pUserData d) None (Some (held (capture_side d))) cap = Some (pUserData d', None) \<and> bufferLen (capture_side d') = 0"
proof -
  have s: "side_wf (capture_side d)" "bufferCap (capture_side d) = cap" "side_channels (capture_side d) = channels"
    using assms(1) by (auto simp: push_device_def)
  have h: "held (capture_side d) = pIntermediaryBuffer (capture_side d)"
    "length (held (capture_side d)) = unat cap * unat channels"
    using held_full [OF s(1)] length_held [OF s(1)] assms(3) s by simp_all
  obtain c' where "cb (pUserData d) None (Some (held (capture_side d))) cap = Some (c', None)"
    using block [OF assms(2) h(2)] by blast
  then show ?thesis
    using assms h by (auto simp: on_data_iteration_def on_data_capture_def on_data_duplex_def
      ma_device__on_data_inner_def push_device_def side_wf_def Let_def)
qed

lemma put_copied:
  assumes "push_device channels cap vol d" "unat (bufferLen (capture_side d)) + unat f \<le> unat cap" "unat processed + unat f \<le> unat n"
    and "length xs = unat n * unat channels"
  shows "\<exists>buf. copy_frames (side_channels (capture_side d)) (pIntermediaryBuffer (capture_side d)) (bufferLen (capture_side d)) xs processed f =
      Some buf \<and> length buf = unat cap * unat channels \<and>
    take ((unat (bufferLen (capture_side d)) + unat f) * unat channels) buf =
      held (capture_side d) @ take (unat f * unat channels) (drop (unat processed * unat channels) xs)"
proof -
  let ?s = "capture_side d" and ?ch = "unat channels"
  have s: "side_channels ?s = channels" "length (pIntermediaryBuffer ?s) = unat cap * ?ch"
    using assms(1) by (auto simp: push_device_def side_wf_def)
  have fits: "unat (bufferLen ?s) * ?ch + unat f * ?ch \<le> unat cap * ?ch"
      "unat processed * ?ch + unat f * ?ch \<le> unat n * ?ch"
    using mult_le_mono1 [OF assms(2), of ?ch] mult_le_mono1 [OF assms(3), of ?ch] by (simp_all add: add_mult_distrib)
  then have "min (unat cap * ?ch) (unat (bufferLen ?s) * ?ch) = unat (bufferLen ?s) * ?ch" by simp
  then show ?thesis using fits s assms(4) by (simp add: copy_frames_def Let_def held_def add_mult_distrib)
qed

lemma iteration_part:
  assumes "push_device channels cap vol d" "I (pUserData d)" "bufferLen (capture_side d) < cap" "processed < n"
    and "length xs = unat n * unat channels"
    and f: "f = (if cap - bufferLen (capture_side d) < n - processed then cap - bufferLen (capture_side d) else n - processed)"
  shows "\<exists>d'. on_data_iteration ops cb n (Some xs) processed None d = Some (f, None, d') \<and> push_device channels cap vol d' \<and>
    bufferLen (capture_side d') < cap \<and>
    fed cb channels cap (unat f) d (take (unat f * unat channels) (drop (unat processed * unat channels) xs)) d'"
proof -
  let ?s = "capture_side d" and ?ch = "unat channels"
  let ?part = "take (unat f * ?ch) (drop (unat processed * ?ch) xs)"
  have pd: "bufferCap ?s = cap" "side_channels ?s = channels" "dtype d \<noteq> ma_device_type_duplex" "dev_state d \<noteq> Stopping"
    using assms(1) by (auto simp: push_device_def)
  have le: "unat f \<le> unat n - unat processed" "unat (bufferLen ?s) + unat f \<le> unat cap" "0 < unat f"
    using f assms(3,4) by (auto simp: unat_sub word_less_nat_alt word_le_nat_alt split: if_splits)
  then have sum: "unat processed + unat f \<le> unat n" using assms(4) by (simp add: word_less_nat_alt)
  obtain buf where buf: "copy_frames channels (pIntermediaryBuffer ?s) (bufferLen ?s) xs processed f = Some buf"
      "length buf = unat cap * ?ch" "take ((unat (bufferLen ?s) + unat f) * ?ch) buf = held ?s @ ?part"
    using put_copied [OF assms(1) le(2) sum assms(5)] unfolding pd(2) by blast
  have add: "unat (bufferLen ?s + f) = unat (bufferLen ?s) + unat f" by (rule unat_add_u32 [OF le(2)])
  let ?d = "d\<lparr>capture_side := ?s\<lparr>pIntermediaryBuffer := buf, bufferLen := bufferLen ?s + f\<rparr>\<rparr>"
  have it: "on_data_capture ops cb n processed xs d =
      (if bufferLen ?s + f = cap then map_option (\<lambda>(_, e). (f, e\<lparr>capture_side := (capture_side e)\<lparr>bufferLen := 0\<rparr>\<rparr>))
         (ma_device__on_data_inner ops cb ?d None (Some buf) cap)
       else Some (f, ?d))"
    unfolding on_data_capture_def Let_def pd(1,2) f [symmetric] using buf(1) assms(3) pd by simp
  show ?thesis
  proof (cases "bufferLen ?s + f = cap")
    case True
    then have full: "unat (bufferLen ?s) + unat f = unat cap" using add by simp
    then have b: "held ?s @ ?part = buf" using buf(2,3) by simp
    obtain c' where c': "cb (pUserData d) None (Some buf) cap = Some (c', None)"
      using block [OF assms(2) buf(2)] by blast
    have one: "completed (unat (bufferLen ?s)) (unat cap) (unat f) = 1"
      using completed_simps(4) [OF le(3) cap_nat [OF assms(2)] full] .
    show ?thesis
      using it True c' buf(2) b full one assms(1) cap_pos [OF assms(2)]
      by (auto simp: on_data_iteration_def on_data_duplex_def ma_device__on_data_inner_def push_device_def side_wf_def
          fed_def held_def Let_def)
  next
    case False
    then have "unat (bufferLen ?s) + unat f \<noteq> unat cap" using add by (metis word_unat_eq_iff)
    then have lt: "unat (bufferLen ?s) + unat f < unat cap" using le(2) by simp
    have none: "completed (unat (bufferLen ?s)) (unat cap) (unat f) = 0" by (rule completed_simps(3) [OF lt])
    have "bufferLen ?s + f < cap" "bufferLen ?s + f \<le> cap" using lt add by (simp_all add: word_less_nat_alt word_le_nat_alt)
    then show ?thesis
      using it False buf(2,3) none assms(1) add pd
      by (auto simp: on_data_iteration_def on_data_duplex_def push_device_def side_wf_def fed_def held_def Let_def)
  qed
qed

lemma fed_full:
  assumes "push_device channels cap vol d" "I (pUserData d)" "bufferLen (capture_side d) = cap" "0 < r"
    and "cb (pUserData d) None (Some (held (capture_side d))) cap = Some (pUserData d1, None)"
    and "bufferLen (capture_side d1) = 0" "fed cb channels cap r d1 xs e"
  shows "fed cb channels cap r d xs e"
proof -
  have k: "completed (unat cap) (unat cap) r = Suc (completed 0 (unat cap) r)"
    by (rule completed_simps(2) [OF assms(4) cap_nat [OF assms(2)]])
  have h: "length (held (capture_side d)) = unat cap * unat channels"
    using length_held [of "capture_side d"] assms(1,3) by (simp add: push_device_def)
  have h1: "held (capture_side d1) = []" using assms(6) by (simp add: held_def)
  show ?thesis
    using assms(3,5,6,7) h by (simp add: fed_def Let_def k h1)
qed

lemma push_loop:
  assumes "push_device channels cap vol d" "I (pUserData d)" "processed \<le> n" "length xs = unat n * unat channels"
  shows "\<exists>e. on_data_loop ops cb n (Some xs) processed None d = Some (None, e) \<and> push_device channels cap vol e \<and>
    fed cb channels cap (unat n - unat processed) d (drop (unat processed * unat channels) xs) e"
  using assms(1-3)
proof (induction "2 * (unat n - unat processed) + (if bufferLen (capture_side d) = cap then 1 else 0)"
    arbitrary: processed d rule: less_induct)
  case less
  let ?ch = "unat channels"
  let ?r = "unat n - unat processed"
  let ?ys = "drop (unat processed * ?ch) xs"
  note pd = less.prems(1) and inv = less.prems(2)
  have step: "on_data_loop ops cb n (Some xs) processed None d = on_data_loop ops cb n (Some xs) (processed + f) None d1"
    if "processed < n" "on_data_iteration ops cb n (Some xs) processed None d = Some (f, None, d1)" for f d1
    using that by (subst on_data_loop.simps) simp
  show ?case
  proof (cases "processed = n")
    case True
    then have "fed cb channels cap ?r d ?ys d" using assms(4) by (simp add: fed_def completed_simps(1))
    then show ?thesis using True pd by (subst on_data_loop.simps) simp
  next
    case False
    then have lt: "processed < n" using less.prems(3) by simp
    then have r0: "0 < ?r" by (simp add: word_less_nat_alt)
    show ?thesis
    proof (cases "bufferLen (capture_side d) = cap")
      case True
      obtain d1 where d1: "on_data_iteration ops cb n (Some xs) processed None d = Some (0, None, d1)" "push_device channels cap vol d1"
        "cb (pUserData d) None (Some (held (capture_side d))) cap = Some (pUserData d1, None)" "bufferLen (capture_side d1) = 0"
        using iteration_full [OF pd inv True] by blast
      have "length (held (capture_side d)) = unat cap * ?ch"
        using length_held [of "capture_side d"] pd True by (simp add: push_device_def)
      then have inv1: "I (pUserData d1)" using block [OF inv] d1(3) by fastforce
      from less.hyps [OF _ d1(2) inv1 less.prems(3)] obtain e where e:
        "on_data_loop ops cb n (Some xs) processed None d1 = Some (None, e)" "push_device channels cap vol e"
        "fed cb channels cap ?r d1 ?ys e"
        using True d1(4) cap_pos [OF inv] by (auto simp: word_gt_0)
      show ?thesis using e(1,2) step [OF lt d1(1)] fed_full [OF pd inv True r0 d1(3,4) e(3)] by auto
    next
      case False
      then have room: "bufferLen (capture_side d) < cap" using pd by (auto simp: push_device_def side_wf_def)
      define f where "f = (if cap - bufferLen (capture_side d) < n - processed then cap - bufferLen (capture_side d) else n - processed)"
      obtain d1 where d1: "on_data_iteration ops cb n (Some xs) processed None d = Some (f, None, d1)" "push_device channels cap vol d1"
        "bufferLen (capture_side d1) < cap" "fed cb channels cap (unat f) d (take (unat f * ?ch) ?ys) d1"
        using iteration_part [OF pd inv room lt assms(4) f_def] by blast
      have f: "0 < unat f" "unat f \<le> ?r"
        using room lt by (auto simp: f_def unat_sub word_less_nat_alt word_le_nat_alt)
      have add: "unat (processed + f) = unat processed + unat f"
        using f(2) less.prems(3) by (intro unat_add_u32 [of _ _ n]) (auto simp: word_le_nat_alt)
      have prem: "processed + f \<le> n" using add f(2) lt by (simp add: word_le_nat_alt word_less_nat_alt)
      have "unat f * ?ch \<le> ?r * ?ch" using f(2) by (rule mult_le_mono1)
      then have part: "length (take (unat f * ?ch) ?ys) = unat f * ?ch" using assms(4) by (simp add: diff_mult_distrib)
      have inv1: "I (pUserData d1)" by (rule fed_inv [OF pd inv d1(4) part])
      have "2 * (unat n - unat (processed + f)) + (if bufferLen (capture_side d1) = cap then 1 else 0) <
          2 * ?r + (if bufferLen (capture_side d) = cap then 1 else 0)"
        using add f d1(3) r0 by auto
      from less.hyps [OF this d1(2) inv1 prem] obtain e where e:
        "on_data_loop ops cb n (Some xs) (processed + f) None d1 = Some (None, e)" "push_device channels cap vol e"
        "fed cb channels cap (unat n - unat (processed + f)) d1 (drop (unat (processed + f) * ?ch) xs) e"
        by blast
      have rest: "drop (unat (processed + f) * ?ch) xs = drop (unat f * ?ch) ?ys"
        unfolding add add_mult_distrib drop_drop by (simp only: add.commute)
      have "unat f + (unat n - unat (processed + f)) = ?r" using add f(2) by simp
      then have "fed cb channels cap ?r d ?ys e"
        using fed_append [OF d1(4) e(3) pd inv part] unfolding rest append_take_drop_id by simp
      then show ?thesis using step [OF lt d1(1)] e(1,2) by auto
    qed
  qed
qed

lemma push_on_data:
  assumes "push_device channels cap vol d" "I (pUserData d)" "length xs = unat n * unat channels"
  shows "\<exists>e. ma_device__on_data ops cb d None (Some xs) n = Some (None, e) \<and> push_device channels cap vol e \<and>
    I (pUserData e) \<and> fed cb channels cap (unat n) d xs e"
  using push_loop [OF assms(1,2) _ assms(3), of 0 ops] fed_inv [OF assms(1,2) _ assms(3)] assms(1)
  by (auto simp: ma_device__on_data_def push_device_def)

lemma fed_all:
  assumes "push_device channels cap vol d" "I (pUserData d)" "\<forall>(n, xs) \<in> set deliveries. length xs = unat n * unat channels"
  shows "\<exists>e. deliver_all ops cb deliveries d = Some e \<and> push_device channels cap vol e \<and> I (pUserData e) \<and>
    fed cb channels cap (sum_list (map (\<lambda>(n, _). unat n) deliveries)) d (concat (map snd deliveries)) e"
  using assms
proof (induction deliveries arbitrary: d)
  case Nil
  then show ?case by (simp add: fed_def completed_simps)
next
  case (Cons del deliveries)
  obtain n xs where del: "del = (n, xs)" by (cases del)
  have len: "length xs = unat n * unat channels" using Cons.prems(3) del by simp
  obtain e where e: "ma_device__on_data ops cb d None (Some xs) n = Some (None, e)" "push_device channels cap vol e"
    "I (pUserData e)" "fed cb channels cap (unat n) d xs e"
    using push_on_data [OF Cons.prems(1,2) len] by blast
  obtain f where f: "deliver_all ops cb deliveries e = Some f" "push_device channels cap vol f" "I (pUserData f)"
    "fed cb channels cap (sum_list (map (\<lambda>(n, _). unat n) deliveries)) e (concat (map snd deliveries)) f"
    using Cons.IH [OF e(2,3)] Cons.prems(3) by auto
  show ?case using e(1) f(1-3) fed_append [OF e(4) f(4) Cons.prems(1,2) len] del by auto
qed

end

end
