(* ===== verification/Engine_Device.thy ===== *)
theory Engine_Device
  imports Engine Ma_Data_Capture
begin

text \<open>
  The engine's data callbacks on the data path of the devices it opens: \<open>libvoice_engine.c\<close> composed
  with \<open>miniaudio.h\<close>. The callbacks keep the contracts of \<open>playback_client\<close> and \<open>capture_client\<close>, so the
  results on streams carry over to the sound the engine plays and records. The devices are those of
  \<open>start_hardware_playback\<close> and \<open>start_hardware_capture\<close>: 16-bit samples and callbacks of a fixed size.
\<close>

section \<open>The callbacks on lists of samples\<close>

text \<open>The callbacks read and write arrays; here the buffer they are given is a list, and is required to
  hold the frames announced.\<close>

definition on_playback :: "u32 \<Rightarrow> (i16, i16, 'i engine) data_callback" where
  "on_playback chans s pOutput pInput frameCount =
     (case pOutput of
        None \<Rightarrow> map_option (\<lambda>(_, s). (s, None)) (ma_playback_callback (Some chans) None frameCount s)
      | Some xs \<Rightarrow>
          if unat frameCount * unat (callback_channels (Some chans)) \<le> length xs
          then map_option (\<lambda>(out, s). (s, map_option (\<lambda>b. map b [0..<length xs]) out))
            (ma_playback_callback (Some chans) (Some (\<lambda>j. xs ! j)) frameCount s)
          else None)"

definition on_capture :: "u32 \<Rightarrow> (i16, i16, 'i engine) data_callback" where
  "on_capture chans s pOutput pInput frameCount =
     (case pInput of
        None \<Rightarrow> Some (ma_capture_callback (Some chans) None frameCount s, pOutput)
      | Some xs \<Rightarrow>
          if unat frameCount * unat (callback_channels (Some chans)) \<le> length xs
          then Some (ma_capture_callback (Some chans) (Some (\<lambda>j. xs ! j)) frameCount s, pOutput) else None)"

lemma callback_channels_pos: "0 < chans \<Longrightarrow> callback_channels (Some chans) = chans"
  by (simp add: callback_channels_def)

section \<open>Playback\<close>

definition engine_plays :: "u32 \<Rightarrow> u32 \<Rightarrow> 'i engine \<Rightarrow> bool" where
  "engine_plays chans cap s \<longleftrightarrow> 0 < chans \<and> 0 < cap \<and> unat cap * unat chans < 2 ^ 32 \<and> peers_wf (g_peers s) \<and>
     g_playing s \<and> \<not> g_local_deafened s \<and> gains_ok (g_mic_test_loopback s) (g_peers s)"

text \<open>The engine after \<open>n\<close> samples of its mix, and \<open>n\<close> frames of the mix on every channel.\<close>

definition played :: "nat \<Rightarrow> 'i engine \<Rightarrow> 'i engine" where
  "played n s = s\<lparr>g_peers := advance (g_mic_test_loopback s) n (g_peers s)\<rparr>"

definition mix_stream :: "nat \<Rightarrow> nat \<Rightarrow> 'i engine \<Rightarrow> i16 list" where
  "mix_stream ch n s =
     (case limit_samples (map (mix_value (g_mic_test_loopback s) (g_peers s)) [0..<n]) of
        None \<Rightarrow> [] | Some ys \<Rightarrow> concat (map (replicate ch) ys))"

lemma concat_replicate: "concat (map (replicate ch) ys) = map (\<lambda>j. ys ! (j div ch)) [0..<length ys * ch]" if "0 < ch"
proof (induction ys rule: rev_induct)
  case (snoc y ys)
  have "map (\<lambda>j. (ys @ [y]) ! (j div ch)) [0..<length ys * ch] = map (\<lambda>j. ys ! (j div ch)) [0..<length ys * ch]"
    by (intro map_cong) (auto simp: nth_append div_less_iff_less_mult that)
  moreover have "map (\<lambda>j. (ys @ [y]) ! (j div ch)) [length ys * ch..<length ys * ch + ch] = replicate ch y"
    using that by (intro nth_equalityI) (auto simp: nth_append)
  moreover have "[0..<Suc (length ys) * ch] = [0..<length ys * ch] @ [length ys * ch..<length ys * ch + ch]"
    using upt_add_eq_append [of 0 "length ys * ch" ch] by (simp add: add.commute)
  ultimately show ?case using snoc by simp
qed simp

lemma played_add: "played (m + n) s = played n (played m s)"
  by (simp add: played_def advance_add)

lemma engine_plays_played: "engine_plays chans cap s \<Longrightarrow> engine_plays chans cap (played n s)"
  by (auto simp: engine_plays_def played_def advance_peers_wf gains_ok_def) (simp add: advance_def frame_simps)

lemma mix_stream_split:
  assumes "engine_plays chans cap s"
  shows "mix_stream ch (m + n) s = mix_stream ch m s @ mix_stream ch n (played m s)"
proof -
  have s: "peers_wf (g_peers s)" "gains_ok (g_mic_test_loopback s) (g_peers s)"
    "gains_ok (g_mic_test_loopback (played m s)) (g_peers (played m s))"
    using assms engine_plays_played [OF assms, of m] by (auto simp: engine_plays_def)
  obtain xs ys where "limit_samples (map (mix_value (g_mic_test_loopback s) (g_peers s)) [0..<m]) = Some xs"
      "limit_samples (map (mix_value (g_mic_test_loopback (played m s)) (g_peers (played m s))) [0..<n]) = Some ys"
    using limit_samples_mix_defined [OF s(2)] limit_samples_mix_defined [OF s(3)] by metis
  then show ?thesis
    using limit_mix_split [OF s(1), of "g_mic_test_loopback s" m n] by (simp add: mix_stream_def played_def)
qed

lemma length_mix_stream: "engine_plays chans cap s \<Longrightarrow> length (mix_stream ch n s) = n * ch"
  using limit_samples_mix_defined [of "g_mic_test_loopback s" "g_peers s" n]
  by (auto simp: engine_plays_def mix_stream_def length_concat sum_list_triv comp_def)

lemma engine_period:
  assumes "engine_plays chans cap s" "length out = unat cap * unat chans"
  shows "on_playback chans s (Some out) None cap = Some (played (unat cap) s, Some (mix_stream (unat chans) (unat cap) s))"
proof -
  have s: "peers_wf (g_peers s)" "g_playing s" "\<not> g_local_deafened s" "cap \<noteq> 0" "0 < chans"
      "unat cap * unat (callback_channels (Some chans)) < 2 ^ 32" "gains_ok (g_mic_test_loopback s) (g_peers s)"
    using assms(1) by (auto simp: engine_plays_def callback_channels_pos)
  obtain ys where ys: "limit_samples (map (mix_value (g_mic_test_loopback s) (g_peers s)) [0..<unat cap]) = Some ys"
      "length ys = unat cap"
    using limit_samples_mix_defined [OF s(7)] by blast
  have "0 < unat chans" using s(5) by (simp add: word_less_nat_alt)
  then show ?thesis
    using playback_callback_eq [OF s(1-4,6), of "\<lambda>j. out ! j"] ys assms(2) s(5)
    by (simp add: on_playback_def callback_channels_pos played_def mix_stream_def concat_replicate)
qed

interpretation engine_playback: playback_client "on_playback chans" 0 chans cap "engine_plays chans cap"
  for chans cap :: u32
  by unfold_locales
    (auto simp: engine_period engine_plays_played length_mix_stream, simp add: engine_plays_def)

lemma engine_periods:
  "engine_plays chans cap s \<Longrightarrow> periods (on_playback chans) 0 chans cap k s =
     (mix_stream (unat chans) (k * unat cap) s, played (k * unat cap) s)"
proof (induction k arbitrary: s)
  case 0
  then show ?case by (simp add: mix_stream_def played_def)
next
  case (Suc k)
  then show ?case
    using engine_period [OF Suc.prems, of "replicate (unat cap * unat chans) 0"] engine_plays_played [OF Suc.prems]
    by (simp add: mix_stream_split [OF Suc.prems] played_add)
qed

section \<open>Capture\<close>

text \<open>Down-mixing without 32-bit arithmetic, of all the whole frames of a list of samples.\<close>

definition mono_frames :: "nat \<Rightarrow> i16 list \<Rightarrow> i16 list" where
  "mono_frames ch xs = map (\<lambda>f. if ch \<le> 1 then xs ! f
     else word_of_int (cdiv (channel_sum ch (\<lambda>j. xs ! j) f) (int ch))) [0..<length xs div ch]"

definition engine_records :: "u32 \<Rightarrow> u32 \<Rightarrow> 'i engine \<Rightarrow> bool" where
  "engine_records chans cap s \<longleftrightarrow> 0 < chans \<and> unat chans \<le> 65535 \<and> 0 < cap \<and> unat cap * unat chans < 2 ^ 32 \<and> g_capturing s"

lemma engine_records_put: "engine_records chans cap (fold capture_put xs s) = engine_records chans cap s"
  using fold_capture_put_modes [of xs s] by (simp add: engine_records_def)

lemma mono_frames_append:
  assumes "0 < ch" "length xs = n * ch"
  shows "mono_frames ch (xs @ ys) = mono_frames ch xs @ mono_frames ch ys"
proof -
  have idx: "f * ch + c < length xs" if "f < n" "c < ch" for f c
  proof -
    have "f * ch + c < (f + 1) * ch" using that by simp
    also have "\<dots> \<le> n * ch" using that by (intro mult_le_mono1) simp
    finally show ?thesis by (simp add: assms(2))
  qed
  have l: "length xs div ch = n" "length (xs @ ys) div ch = n + length ys div ch" using assms by simp_all
  have front: "channel_sum ch (\<lambda>j. (xs @ ys) ! j) f = channel_sum ch (\<lambda>j. xs ! j) f" if "f < n" for f
    unfolding channel_sum_def using idx [OF that] by (intro arg_cong [of _ _ sum_list] map_cong) (auto simp: nth_append)
  have later: "channel_sum ch (\<lambda>j. (xs @ ys) ! j) (n + f) = channel_sum ch (\<lambda>j. ys ! j) f" for f
    unfolding channel_sum_def
    by (intro arg_cong [of _ _ sum_list] map_cong) (auto simp: nth_append assms(2) add_mult_distrib)
  have "ch = 1" if "ch \<le> 1" using that assms(1) by simp
  then show ?thesis
    unfolding mono_frames_def l upt_add_eq by (auto simp: front later nth_append assms(2))
qed

lemma captured_mono:
  assumes "engine_records chans cap s" "length xs = unat cap * unat chans"
  shows "captured chans (\<lambda>j. xs ! j) cap = mono_frames (unat chans) xs"
proof -
  have le: "chans \<le> 1 \<longleftrightarrow> unat chans \<le> 1" by (simp add: word_le_nat_alt)
  have "0 < unat chans" "unat cap * unat chans < 2 ^ 32" "unat chans \<le> 65535" "unat cap < 2 ^ 32"
    using assms(1) unsigned_less [of cap, where ?'a = nat] by (simp_all add: engine_records_def word_less_nat_alt)
  then show ?thesis
    unfolding captured_def mono_frames_def le assms(2) using downmix_eq [of chans "unat chans" _ "unat cap" "\<lambda>j. xs ! j"]
    by (auto intro!: map_cong)
qed

lemma engine_block:
  assumes "engine_records chans cap s" "length xs = unat cap * unat chans"
  shows "on_capture chans s None (Some xs) cap = Some (fold capture_put (mono_frames (unat chans) xs) s, None)"
  using assms captured_mono [OF assms]
  by (simp add: on_capture_def callback_channels_pos capture_callback_eq engine_records_def)

interpretation engine_capture: capture_client "on_capture chans" chans cap "engine_records chans cap"
  for chans cap :: u32
  by unfold_locales (auto simp: engine_block engine_records_put, simp add: engine_records_def)

lemma engine_blocks:
  "engine_records chans cap s \<Longrightarrow> k * (unat cap * unat chans) \<le> length xs \<Longrightarrow>
   blocks (on_capture chans) cap (unat cap * unat chans) k xs s =
     fold capture_put (mono_frames (unat chans) (take (k * (unat cap * unat chans)) xs)) s"
proof (induction k arbitrary: xs s)
  case 0
  then show ?case by (simp add: mono_frames_def)
next
  case (Suc k)
  let ?m = "unat cap * unat chans"
  have m: "length (take ?m xs) = ?m" "0 < unat chans"
    using Suc.prems by (simp_all add: engine_records_def word_less_nat_alt)
  have "take (Suc k * ?m) xs = take ?m xs @ take (k * ?m) (drop ?m xs)" by (simp add: take_add)
  then show ?case
    using Suc.IH [of "fold capture_put (mono_frames (unat chans) (take ?m xs)) s" "drop ?m xs"] Suc.prems
      engine_block [OF Suc.prems(1) m(1)] mono_frames_append [OF m(2,1)]
    by (simp add: engine_records_put)
qed

section \<open>Properties\<close>

text \<open>The data callback of the device for a sequence of requests, and of deliveries.\<close>

fun play_requests ::
    "u32 \<Rightarrow> (u32 \<times> i16 list) list \<Rightarrow> (i16, i16, 'i engine) data_device \<Rightarrow> (i16 list \<times> (i16, i16, 'i engine) data_device) option" where
  "play_requests chans [] d = Some ([], d)"
| "play_requests chans ((n, out) # requests) d =
     (case ma_device__handle_data_callback s16_ops s16_ops (Some (on_playback chans)) d (Some out) None n of
        Some (Some xs, d) \<Rightarrow> map_option (\<lambda>(ys, d). (xs @ ys, d)) (play_requests chans requests d)
      | _ \<Rightarrow> None)"

fun record_deliveries ::
    "u32 \<Rightarrow> (u32 \<times> i16 list) list \<Rightarrow> (i16, i16, 'i engine) data_device \<Rightarrow> (i16, i16, 'i engine) data_device option" where
  "record_deliveries chans [] d = Some d"
| "record_deliveries chans ((n, xs) # deliveries) d =
     (case ma_device__handle_data_callback s16_ops s16_ops (Some (on_capture chans)) d None (Some xs) n of
        Some (None, d) \<Rightarrow> record_deliveries chans deliveries d
      | _ \<Rightarrow> None)"

lemma s16_ops_simps: "op_silence s16_ops = 0" "op_clip s16_ops = None"
  by (simp_all add: s16_ops_def)

lemma play_requests_serve:
  assumes "pull_device chans cap (Fin 1) d" "engine_plays chans cap (pUserData d)"
    and "\<forall>(n, out) \<in> set requests. length out = unat n * unat chans"
  shows "play_requests chans requests d = serve_all s16_ops (on_playback chans) requests d"
  using assms
proof (induction requests arbitrary: d)
  case (Cons r requests)
  obtain n out where r: "r = (n, out)" by (cases r)
  have vol: "masterVolumeFactor d = Fin 1" using Cons.prems(1) by (simp add: pull_device_def)
  obtain xs e where "ma_device__on_data s16_ops (on_playback chans) d (Some out) None n = Some (Some xs, e)"
      "pull_device chans cap (Fin 1) e" "engine_plays chans cap (pUserData e)"
    using engine_playback.pull_on_data [OF Cons.prems(1,2) _ s16_ops_simps(1), of out n] Cons.prems(3) r by auto
  then show ?case using Cons.IH Cons.prems(3) handle_unity [OF vol s16_ops_simps(2)] r by simp
qed simp

lemma record_deliveries_deliver:
  assumes "push_device chans cap (Fin 1) d" "engine_records chans cap (pUserData d)"
    and "\<forall>(n, xs) \<in> set deliveries. length xs = unat n * unat chans"
  shows "record_deliveries chans deliveries d = deliver_all s16_ops (on_capture chans) deliveries d"
  using assms
proof (induction deliveries arbitrary: d)
  case (Cons r deliveries)
  obtain n xs where r: "r = (n, xs)" by (cases r)
  have vol: "masterVolumeFactor d = Fin 1" using Cons.prems(1) by (simp add: push_device_def)
  obtain e where "ma_device__on_data s16_ops (on_capture chans) d None (Some xs) n = Some (None, e)"
      "push_device chans cap (Fin 1) e" "engine_records chans cap (pUserData e)"
    using engine_capture.push_on_data [OF Cons.prems(1,2), of xs n s16_ops] Cons.prems(3) r by auto
  then show ?case using Cons.IH Cons.prems(3) handle_unity [OF vol s16_ops_simps(2)] r by simp
qed simp

text \<open>What a served engine has played.\<close>

lemma engine_served:
  assumes "pull_device chans cap (Fin 1) d" "engine_plays chans cap (pUserData d)" "served (on_playback chans) 0 chans cap r d xs e"
  shows "\<exists>k. pUserData e = played (k * unat cap) (pUserData d) \<and>
    xs = take (r * unat chans) (queued (playback_side d) @ mix_stream (unat chans) (k * unat cap) (pUserData d)) \<and>
    queued (playback_side e) =
      drop (r * unat chans) (queued (playback_side d) @ mix_stream (unat chans) (k * unat cap) (pUserData d)) \<and>
    length xs = r * unat chans \<and> k * unat cap \<le> r + unat cap"
proof -
  let ?l = "unat (bufferLen (playback_side d))"
  define k where "k = refills ?l (unat cap) r"
  have cap: "0 < unat cap" by (rule engine_playback.cap_nat [OF assms(2)])
  have "r \<le> ?l + k * unat cap" unfolding k_def by (rule refills_enough [OF cap])
  then have "r * unat chans \<le> (?l + k * unat cap) * unat chans" by (rule mult_le_mono1)
  moreover have "length (queued (playback_side d)) = ?l * unat chans"
    using length_queued [of "playback_side d"] assms(1) by (simp add: pull_device_def)
  ultimately have "r * unat chans \<le> length (queued (playback_side d) @ mix_stream (unat chans) (k * unat cap) (pUserData d))"
    by (simp add: length_mix_stream [OF assms(2)] add_mult_distrib)
  moreover have "k * unat cap \<le> r + unat cap"
    using le_trans [OF div_times_less_eq_dividend [of "r - ?l" "unat cap"] diff_le_self] by (simp add: k_def refills_def)
  ultimately show ?thesis
    using assms(3) engine_periods [OF assms(2), of k]
    by (intro exI [of _ k]) (simp add: served_def Let_def flip: k_def)
qed

text \<open>C2: What is heard. Composed with miniaudio's device, the engine plays its reference mix as one
  stream. However the backend asks for its frames, each request is answered, and all the samples handed
  to the hardware together are the queued ones followed by the mix of the pending voice samples, the same
  on every channel, one sample per frame, nothing lost, repeated or replaced by silence. The engine's
  streams lose exactly the samples of the periods fetched, at most one period more than was played.\<close>

theorem engine_is_heard:
  assumes "pull_device chans cap (Fin 1) d" "engine_plays chans cap (pUserData d)"
    and "\<forall>(n, out) \<in> set requests. length out = unat n * unat chans"
    and "r = sum_list (map (\<lambda>(n, _). unat n) requests)"
  shows "\<exists>xs e k. play_requests chans requests d = Some (xs, e) \<and> pUserData e = played (k * unat cap) (pUserData d) \<and>
    xs = take (r * unat chans) (queued (playback_side d) @ mix_stream (unat chans) (k * unat cap) (pUserData d)) \<and>
    queued (playback_side e) =
      drop (r * unat chans) (queued (playback_side d) @ mix_stream (unat chans) (k * unat cap) (pUserData d)) \<and>
    length xs = r * unat chans \<and> k * unat cap \<le> r + unat cap"
proof -
  obtain xs e where e: "serve_all s16_ops (on_playback chans) requests d = Some (xs, e)"
      "served (on_playback chans) 0 chans cap r d xs e"
    using engine_playback.served_all [OF assms(1,2) s16_ops_simps(1) assms(3)] unfolding assms(4) by blast
  then show ?thesis using engine_served [OF assms(1,2) e(2)] play_requests_serve [OF assms(1-3)] by auto
qed

text \<open>Devices as \<open>ma_device_init\<close> leaves them, started, with periods of three frames.\<close>

definition example_device :: "ma_device_type \<Rightarrow> 'i engine \<Rightarrow> (i16, i16, 'i engine) data_device" where
  "example_device t s = init_intermediary s16_ops s16_ops 3 0 48000 480 480
     \<lparr>dtype = t, dev_state = Started, noPreSilencedOutputBuffer = False, noFixedSizedCallback = False, noClip = False,
      masterVolumeFactor = Fin 1, capture_side = \<lparr>side_channels = 2, pIntermediaryBuffer = [], bufferCap = 0, bufferLen = 0\<rparr>,
      playback_side = \<lparr>side_channels = 2, pIntermediaryBuffer = [], bufferCap = 0, bufferLen = 0\<rparr>, pUserData = s\<rparr>"

lemma engine_is_heard_witness:
  "\<exists>xs e. play_requests 2 [(4, replicate 8 7), (1, replicate 2 7)]
      (example_device ma_device_type_playback ((static_init :: nat engine)\<lparr>g_playing := True\<rparr>)) = Some (xs, e) \<and> length xs = 10"
proof -
  let ?s = "(static_init :: nat engine)\<lparr>g_playing := True\<rparr>"
  let ?d = "example_device ma_device_type_playback ?s"
  have d: "pull_device 2 3 (Fin 1) ?d"
    by (simp add: pull_device_def example_device_def init_intermediary_def side_wf_def Let_def)
  have "engine_plays 2 3 (pUserData ?d)"
    using peers_wf_zero
    by (simp add: engine_plays_def example_device_def init_intermediary_def static_init_def gains_ok_def audible_def zero_peer_def)
  from engine_is_heard [OF d this, of "[(4, replicate 8 7), (1, replicate 2 7)]" 5] show ?thesis by auto
qed

text \<open>What an engine that was fed has recorded.\<close>

lemma engine_fed:
  assumes "push_device chans cap (Fin 1) d" "engine_records chans cap (pUserData d)" "fed (on_capture chans) chans cap r d xs e"
    and "length xs = r * unat chans" "0 < r" "stream = held (capture_side d) @ xs" "k = (unat (bufferLen (capture_side d)) + r) div unat cap"
  shows "pUserData e = fold capture_put (mono_frames (unat chans) (take (k * (unat cap * unat chans)) stream)) (pUserData d) \<and>
    held (capture_side e) = drop (k * (unat cap * unat chans)) stream \<and> unat (bufferLen (capture_side e)) < unat cap"
proof -
  let ?l = "unat (bufferLen (capture_side d))"
  have k: "completed ?l (unat cap) r = k" using assms(5,7) by (simp add: completed_def)
  from engine_capture.completed_fits [OF assms(1,4)]
  have fits: "k * (unat cap * unat chans) \<le> length stream" unfolding k assms(6) .
  have cap: "0 < unat cap" by (rule engine_capture.cap_nat [OF assms(2)])
  have "?l + r - k * unat cap < unat cap"
    unfolding assms(7) using cap by (simp add: minus_div_mult_eq_mod)
  then show ?thesis
    using assms(3) k engine_blocks [OF assms(2) fits] by (simp add: fed_def Let_def flip: assms(6))
qed

text \<open>C3: What is recorded. However the backend cuts what the microphone delivers, the engine's capture
  ring is given the down-mix of the frames in order, each once: those held by the device, then those
  delivered, up to the last full period; the rest, less than a period, is held back. (A device just
  initialised holds one period of silence.)\<close>

theorem engine_records_microphone:
  assumes "push_device chans cap (Fin 1) d" "engine_records chans cap (pUserData d)"
    and "\<forall>(n, xs) \<in> set deliveries. length xs = unat n * unat chans"
    and "r = sum_list (map (\<lambda>(n, _). unat n) deliveries)" "0 < r"
    and "stream = held (capture_side d) @ concat (map snd deliveries)"
    and "k = (unat (bufferLen (capture_side d)) + r) div unat cap"
  shows "\<exists>e. record_deliveries chans deliveries d = Some e \<and>
    pUserData e = fold capture_put (mono_frames (unat chans) (take (k * (unat cap * unat chans)) stream)) (pUserData d) \<and>
    held (capture_side e) = drop (k * (unat cap * unat chans)) stream \<and>
    unat (bufferLen (capture_side e)) < unat cap"
proof -
  obtain e where e: "deliver_all s16_ops (on_capture chans) deliveries d = Some e"
      "fed (on_capture chans) chans cap r d (concat (map snd deliveries)) e"
    using engine_capture.fed_all [OF assms(1-3), of s16_ops] unfolding assms(4) by blast
  have "sum_list (map (\<lambda>(n, _). unat n) ds) * unat chans = length (concat (map snd ds))"
    if "\<forall>(n, xs) \<in> set ds. length xs = unat n * unat chans" for ds :: "(u32 \<times> i16 list) list"
    using that by (induction ds) (auto simp: add_mult_distrib)
  then have "length (concat (map snd deliveries)) = r * unat chans" using assms(3,4) by simp
  from engine_fed [OF assms(1,2) e(2) this assms(5-7)] show ?thesis
    using e(1) record_deliveries_deliver [OF assms(1-3)] by simp
qed

lemma engine_records_microphone_witness:
  "\<exists>e. record_deliveries 2 [(2, [1, 3, 5, 7]), (3, [20, 20, 30, 40, 1, 1])]
      (example_device ma_device_type_capture ((static_init :: nat engine)\<lparr>g_capturing := True\<rparr>)) = Some e \<and>
    pUserData e = fold capture_put [0, 0, 0, 2, 6, 20] ((static_init :: nat engine)\<lparr>g_capturing := True\<rparr>) \<and>
    held (capture_side e) = [30, 40, 1, 1]"
proof -
  let ?s = "(static_init :: nat engine)\<lparr>g_capturing := True\<rparr>"
  let ?d = "example_device ma_device_type_capture ?s"
  let ?xs = "[(2, [1, 3, 5, 7]), (3, [20, 20, 30, 40, 1, 1])] :: (u32 \<times> i16 list) list"
  have d: "push_device 2 3 (Fin 1) ?d" "engine_records 2 3 (pUserData ?d)" "pUserData ?d = ?s"
      "unat (bufferLen (capture_side ?d)) = 3" "held (capture_side ?d) = replicate 6 0"
    by (simp_all add: push_device_def engine_records_def example_device_def init_intermediary_def side_wf_def held_def
        s16_ops_def Let_def)
  let ?stream = "[0, 0, 0, 0, 0, 0, 1, 3, 5, 7, 20, 20, 30, 40, 1, 1] :: i16 list"
  have stream: "?stream = held (capture_side ?d) @ concat (map snd ?xs)"
    unfolding d(5) by (simp add: numeral_eq_Suc)
  have k: "(2 :: nat) = (unat (bufferLen (capture_side ?d)) + 5) div unat (3 :: u32)" unfolding d(4) by simp
  have mono: "mono_frames 2 [0, 0, 0, 0, 0, 0, 1, 3, 5, 7, 20, 20] = [0, 0, 0, 2, 6, 20]"
    by (simp add: mono_frames_def channel_sum_def upt_rec cdiv_def)
  have parts: "take 12 ?stream = [0, 0, 0, 0, 0, 0, 1, 3, 5, 7, 20, 20]" "drop 12 ?stream = [30, 40, 1, 1]" by simp_all
  have req: "\<forall>(n, xs) \<in> set ?xs. length xs = unat n * unat (2 :: u32)" "5 = sum_list (map (\<lambda>(n, _). unat n) ?xs)" "0 < (5 :: nat)"
    by simp_all
  have m: "unat (2 :: u32) = 2" "2 * (unat (3 :: u32) * 2) = 12" by simp_all
  from engine_records_microphone [OF d(1,2) req stream k] obtain e where
    "record_deliveries 2 ?xs ?d = Some e" "pUserData e = fold capture_put [0, 0, 0, 2, 6, 20] ?s" "held (capture_side e) = [30, 40, 1, 1]"
    unfolding m parts mono d(3) by (elim exE conjE) (rule that)
  then show ?thesis by (intro exI conjI) assumption+
qed

lemma playback_stream_witness:
  "\<exists>xs e f. serve_all s16_ops (on_playback 2) [(4, replicate 8 7), (1, replicate 2 7)]
        (example_device ma_device_type_playback ((static_init :: nat engine)\<lparr>g_playing := True\<rparr>)) = Some (xs, e) \<and>
      serve_all s16_ops (on_playback 2) [(5, replicate 10 7)]
        (example_device ma_device_type_playback ((static_init :: nat engine)\<lparr>g_playing := True\<rparr>)) = Some (xs, f) \<and>
      pUserData e = pUserData f"
proof -
  let ?s = "(static_init :: nat engine)\<lparr>g_playing := True\<rparr>"
  let ?d = "example_device ma_device_type_playback ?s"
  have d: "pull_device 2 3 (Fin 1) ?d"
    by (simp add: pull_device_def example_device_def init_intermediary_def side_wf_def Let_def)
  have "engine_plays 2 3 (pUserData ?d)"
    using peers_wf_zero
    by (simp add: engine_plays_def example_device_def init_intermediary_def static_init_def gains_ok_def audible_def zero_peer_def)
  from playback_stream [OF engine_playback.playback_client_axioms s16_ops_simps(1) d this,
      of "[(4, replicate 8 7), (1, replicate 2 7)]" "[(5, replicate 10 7)]"]
  show ?thesis by auto
qed

end
