(* ===== verification/Ma_Lpf.thy ===== *)
theory Ma_Lpf
  imports Ma_Volume "HOL-Library.Monad_Syntax"
begin

text \<open>
  The low-pass filter of miniaudio (\<open>client/native/miniaudio.h\<close>): \<open>ma_biquad\<close>, the first-order filter
  \<open>ma_lpf1\<close>, the second-order filter \<open>ma_lpf2\<close>, which is a biquad, and \<open>ma_lpf\<close>, a chain of them. The
  format of a filter selects a member of the union \<open>ma_biquad_coefficient\<close>; here the filters have the
  type of that member as a parameter: \<open>f32\<close>, or \<open>i32\<close> (fixed point) for 16-bit samples. A frame is the
  list of its samples; the caches are lists with an entry per channel. Signed overflow and casts that do
  not fit are undefined (\<open>None\<close>). The functions \<open>ma_expd\<close> and \<open>ma_sind\<close> of the C library are arguments.
\<close>

section \<open>Results, arithmetic\<close>

datatype ma_result =
  MA_SUCCESS | MA_INVALID_ARGS | MA_INVALID_OPERATION | MA_OUT_OF_MEMORY | MA_NOT_IMPLEMENTED | MA_FORMAT_NOT_SUPPORTED

record libm =
  ma_expd :: "f64 \<Rightarrow> f64"
  ma_sind :: "f64 \<Rightarrow> f64"

text \<open>Division of doubles. A zero that the code divides by is the value of an unsigned integer.\<close>

fun fp_div :: "(rat \<Rightarrow> fp) \<Rightarrow> fp \<Rightarrow> fp \<Rightarrow> fp" where
  "fp_div R (Fin x) (Fin y) = (if y = 0 then (if x = 0 then NaN else if x < 0 then NInf else PInf) else R (x / y))"
| "fp_div R NaN b = NaN"
| "fp_div R a NaN = NaN"
| "fp_div R (Fin x) b = Fin 0"
| "fp_div R PInf (Fin y) = (if y < 0 then NInf else PInf)"
| "fp_div R NInf (Fin y) = (if y < 0 then PInf else NInf)"
| "fp_div R a b = NaN"

definition of_u32 :: "u32 \<Rightarrow> f64" where
  "of_u32 n = f64 (of_int (uint n))"

definition MA_PI_D :: f64 where
  "MA_PI_D = f64 (314159265358979323846264 / 10 ^ 23)"

definition ma_cosd :: "libm \<Rightarrow> f64 \<Rightarrow> f64" where
  "ma_cosd m x = ma_sind m (fp_sub f64 (fp_mul f64 MA_PI_D (Fin (1 / 2))) x)"

definition add32 :: "i32 \<Rightarrow> i32 \<Rightarrow> i32 option" where
  "add32 x y = (if sint (x + y) = sint x + sint y then Some (x + y) else None)"

definition sub32 :: "i32 \<Rightarrow> i32 \<Rightarrow> i32 option" where
  "sub32 x y = (if sint (x - y) = sint x - sint y then Some (x - y) else None)"

definition mul32 :: "i32 \<Rightarrow> i32 \<Rightarrow> i32 option" where
  "mul32 x y = (if smul_fits x y then Some (x * y) else None)"

section \<open>Biquad filter\<close>

record biquad_config =
  cfg_format :: ma_format
  cfg_channels :: u32
  cfg_b0 :: f64
  cfg_b1 :: f64
  cfg_b2 :: f64
  cfg_a0 :: f64
  cfg_a1 :: f64
  cfg_a2 :: f64

record 'k ma_biquad =
  bq_format :: ma_format
  bq_channels :: u32
  bq_b0 :: 'k
  bq_b1 :: 'k
  bq_b2 :: 'k
  bq_a1 :: 'k
  bq_a2 :: 'k
  pR1 :: "'k list"
  pR2 :: "'k list"

text \<open>The coefficient of each format.\<close>

definition ma_biquad_float_to_fp :: "f64 \<Rightarrow> i32 option" where
  "ma_biquad_float_to_fp x = map_option word_of_int (fp_to_int (- (2 ^ 31)) (2 ^ 31 - 1) (fp_mul f64 x (Fin 16384)))"

definition coefficient_f32 :: "f64 \<Rightarrow> f32 option" where
  "coefficient_f32 x = Some (fp_cast f32 x)"

definition ma_biquad_config_init :: "ma_format \<Rightarrow> u32 \<Rightarrow> f64 \<Rightarrow> f64 \<Rightarrow> f64 \<Rightarrow> f64 \<Rightarrow> f64 \<Rightarrow> f64 \<Rightarrow> biquad_config" where
  "ma_biquad_config_init fmt channels b0 b1 b2 a0 a1 a2 = \<lparr>cfg_format = fmt, cfg_channels = channels,
     cfg_b0 = b0, cfg_b1 = b1, cfg_b2 = b2, cfg_a0 = a0, cfg_a1 = a1, cfg_a2 = a2\<rparr>"

text \<open>Sizes in bytes, a \<open>size_t\<close> of 64 bits.\<close>

definition ma_align_64 :: "u64 \<Rightarrow> u64" where
  "ma_align_64 n = and (n + 7) (not 7)"

definition ma_biquad_get_heap_size :: "biquad_config option \<Rightarrow> ma_result \<times> u64" where
  "ma_biquad_get_heap_size pConfig =
     (case pConfig of
        None \<Rightarrow> (MA_INVALID_ARGS, 0)
      | Some cfg \<Rightarrow>
          if cfg_channels cfg = 0 then (MA_INVALID_ARGS, 0)
          else (MA_SUCCESS, ma_align_64 (4 * ucast (cfg_channels cfg) + 4 * ucast (cfg_channels cfg))))"

definition fresh_biquad :: "'k \<Rightarrow> 'k list \<Rightarrow> 'k ma_biquad" where
  "fresh_biquad z cache = \<lparr>bq_format = ma_format_unknown, bq_channels = 0, bq_b0 = z, bq_b1 = z, bq_b2 = z, bq_a1 = z, bq_a2 = z,
     pR1 = cache, pR2 = cache\<rparr>"

definition ma_biquad_reinit ::
    "(f64 \<Rightarrow> 'k option) \<Rightarrow> biquad_config option \<Rightarrow> 'k ma_biquad option \<Rightarrow> (ma_result \<times> 'k ma_biquad option) option" where
  "ma_biquad_reinit coef pConfig pBQ =
     (case (pBQ, pConfig) of
        (Some bq, Some cfg) \<Rightarrow>
          if cfg_a0 cfg = Fin 0 then Some (MA_INVALID_ARGS, pBQ)
          else if cfg_format cfg \<noteq> ma_format_f32 \<and> cfg_format cfg \<noteq> ma_format_s16 then Some (MA_INVALID_ARGS, pBQ)
          else if bq_format bq \<noteq> ma_format_unknown \<and> bq_format bq \<noteq> cfg_format cfg then Some (MA_INVALID_OPERATION, pBQ)
          else if bq_channels bq \<noteq> 0 \<and> bq_channels bq \<noteq> cfg_channels cfg then Some (MA_INVALID_OPERATION, pBQ)
          else do {
            b0 \<leftarrow> coef (fp_div f64 (cfg_b0 cfg) (cfg_a0 cfg));
            b1 \<leftarrow> coef (fp_div f64 (cfg_b1 cfg) (cfg_a0 cfg));
            b2 \<leftarrow> coef (fp_div f64 (cfg_b2 cfg) (cfg_a0 cfg));
            a1 \<leftarrow> coef (fp_div f64 (cfg_a1 cfg) (cfg_a0 cfg));
            a2 \<leftarrow> coef (fp_div f64 (cfg_a2 cfg) (cfg_a0 cfg));
            Some (MA_SUCCESS, Some (bq\<lparr>bq_format := cfg_format cfg, bq_channels := cfg_channels cfg,
              bq_b0 := b0, bq_b1 := b1, bq_b2 := b2, bq_a1 := a1, bq_a2 := a2\<rparr>))
          }
      | _ \<Rightarrow> Some (MA_INVALID_ARGS, pBQ))"

definition ma_biquad_init_preallocated ::
    "'k \<Rightarrow> (f64 \<Rightarrow> 'k option) \<Rightarrow> biquad_config option \<Rightarrow> 'k ma_biquad option \<Rightarrow> (ma_result \<times> 'k ma_biquad option) option" where
  "ma_biquad_init_preallocated z coef pConfig pBQ =
     (case pBQ of
        None \<Rightarrow> Some (MA_INVALID_ARGS, None)
      | Some _ \<Rightarrow>
          (case pConfig of
             None \<Rightarrow> Some (MA_INVALID_ARGS, Some (fresh_biquad z []))
           | Some cfg \<Rightarrow>
               if cfg_channels cfg = 0 then Some (MA_INVALID_ARGS, Some (fresh_biquad z []))
               else ma_biquad_reinit coef pConfig (Some (fresh_biquad z (replicate (unat (cfg_channels cfg)) z)))))"

definition ma_biquad_init ::
    "bool \<Rightarrow> 'k \<Rightarrow> (f64 \<Rightarrow> 'k option) \<Rightarrow> biquad_config option \<Rightarrow> 'k ma_biquad option \<Rightarrow> (ma_result \<times> 'k ma_biquad option) option" where
  "ma_biquad_init malloc_ok z coef pConfig pBQ =
     (case ma_biquad_get_heap_size pConfig of
        (MA_SUCCESS, heapSizeInBytes) \<Rightarrow>
          if 0 < heapSizeInBytes \<and> \<not> malloc_ok then Some (MA_OUT_OF_MEMORY, pBQ)
          else ma_biquad_init_preallocated z coef pConfig pBQ
      | (result, _) \<Rightarrow> Some (result, pBQ))"

definition ma_biquad_clear_cache :: "'k \<Rightarrow> 'k ma_biquad option \<Rightarrow> ma_result \<times> 'k ma_biquad option" where
  "ma_biquad_clear_cache z pBQ =
     (case pBQ of
        None \<Rightarrow> (MA_INVALID_ARGS, None)
      | Some bq \<Rightarrow> (MA_SUCCESS, Some (bq\<lparr>pR1 := (pR1 bq)[0 := z], pR2 := (pR2 bq)[0 := z]\<rparr>)))"

text \<open>A sample with the two caches of its channel.\<close>

definition biquad_sample_f32 :: "f32 ma_biquad \<Rightarrow> f32 \<Rightarrow> f32 \<Rightarrow> f32 \<Rightarrow> f32 \<times> f32 \<times> f32" where
  "biquad_sample_f32 bq r1 r2 x =
     (let y = fp_add f32 (fp_mul f32 (bq_b0 bq) x) r1;
          r1 = fp_add f32 (fp_sub f32 (fp_mul f32 (bq_b1 bq) x) (fp_mul f32 (bq_a1 bq) y)) r2;
          r2 = fp_sub f32 (fp_mul f32 (bq_b2 bq) x) (fp_mul f32 (bq_a2 bq) y)
      in (y, r1, r2))"

definition biquad_sample_s16 :: "i32 ma_biquad \<Rightarrow> i32 \<Rightarrow> i32 \<Rightarrow> i16 \<Rightarrow> (i16 \<times> i32 \<times> i32) option" where
  "biquad_sample_s16 bq r1 r2 sample =
     do {
       let x = scast sample;
       b0x \<leftarrow> mul32 (bq_b0 bq) x;
       s \<leftarrow> add32 b0x r1;
       let y = signed_drop_bit 14 s;
       b1x \<leftarrow> mul32 (bq_b1 bq) x;
       a1y \<leftarrow> mul32 (bq_a1 bq) y;
       d \<leftarrow> sub32 b1x a1y;
       r1 \<leftarrow> add32 d r2;
       b2x \<leftarrow> mul32 (bq_b2 bq) x;
       a2y \<leftarrow> mul32 (bq_a2 bq) y;
       r2 \<leftarrow> sub32 b2x a2y;
       Some (word_of_int (ma_clamp (sint y) (- 32768) 32767), r1, r2)
     }"

definition ma_biquad_process_pcm_frame_f32 :: "f32 ma_biquad \<Rightarrow> f32 list \<Rightarrow> (f32 list \<times> f32 ma_biquad) option" where
  "ma_biquad_process_pcm_frame_f32 bq pX =
     (let rs = map (\<lambda>c. biquad_sample_f32 bq (pR1 bq ! c) (pR2 bq ! c) (pX ! c)) [0..<unat (bq_channels bq)]
      in Some (map fst rs, bq\<lparr>pR1 := map (\<lambda>r. fst (snd r)) rs, pR2 := map (\<lambda>r. snd (snd r)) rs\<rparr>))"

definition ma_biquad_process_pcm_frame_s16 :: "i32 ma_biquad \<Rightarrow> i16 list \<Rightarrow> (i16 list \<times> i32 ma_biquad) option" where
  "ma_biquad_process_pcm_frame_s16 bq pX =
     map_option (\<lambda>rs. (map fst rs, bq\<lparr>pR1 := map (\<lambda>r. fst (snd r)) rs, pR2 := map (\<lambda>r. snd (snd r)) rs\<rparr>))
       (those (map (\<lambda>c. biquad_sample_s16 bq (pR1 bq ! c) (pR2 bq ! c) (pX ! c)) [0..<unat (bq_channels bq)]))"

text \<open>The loop over frames, whose counter has 32 bits and whose limit has 64.\<close>

partial_function (option) frames_loop ::
    "('f \<Rightarrow> 's list \<Rightarrow> ('s list \<times> 'f) option) \<Rightarrow> nat \<Rightarrow> u64 \<Rightarrow> u32 \<Rightarrow> 's list \<Rightarrow> 'f \<Rightarrow> ('s list \<times> 'f) option" where
  "frames_loop step ch frameCount n pX f =
     (if ucast n < frameCount then
        do {
          (y, f) \<leftarrow> step f (take ch pX);
          (ys, f) \<leftarrow> frames_loop step ch frameCount (n + 1) (drop ch pX) f;
          Some (y @ ys, f)
        }
      else Some ([], f))"

text \<open>Filtering \<open>frameCount\<close> frames of \<open>pIn\<close> into \<open>pOut\<close>; a null pointer is refused.\<close>

definition process_checked ::
    "('f \<Rightarrow> 's list \<Rightarrow> ('s list \<times> 'f) option) \<Rightarrow> 'f option \<Rightarrow> 's list option \<Rightarrow> 's list option
      \<Rightarrow> (ma_result \<times> 's list option \<times> 'f option) option" where
  "process_checked run pF pOut pIn =
     (case (pF, pOut, pIn) of
        (Some f, Some out, Some xs) \<Rightarrow>
          map_option (\<lambda>(ys, f). (MA_SUCCESS, Some (ys @ drop (length ys) out), Some f)) (run f xs)
      | _ \<Rightarrow> Some (MA_INVALID_ARGS, pOut, pF))"

definition ma_biquad_process_pcm_frames_f32 where
  "ma_biquad_process_pcm_frames_f32 pBQ pFramesOut pFramesIn frameCount =
     process_checked (\<lambda>bq pX. frames_loop ma_biquad_process_pcm_frame_f32 (unat (bq_channels bq)) frameCount 0 pX bq)
       pBQ pFramesOut pFramesIn"

definition ma_biquad_process_pcm_frames_s16 where
  "ma_biquad_process_pcm_frames_s16 pBQ pFramesOut pFramesIn frameCount =
     process_checked (\<lambda>bq pX. frames_loop ma_biquad_process_pcm_frame_s16 (unat (bq_channels bq)) frameCount 0 pX bq)
       pBQ pFramesOut pFramesIn"

definition ma_biquad_get_latency :: "'k ma_biquad option \<Rightarrow> u32" where
  "ma_biquad_get_latency pBQ = (case pBQ of None \<Rightarrow> 0 | Some _ \<Rightarrow> 2)"

section \<open>First-order filter\<close>

record lpf_config12 =
  l_format :: ma_format
  l_channels :: u32
  l_sampleRate :: u32
  l_cutoffFrequency :: f64
  l_q :: f64

record 'k ma_lpf1 =
  l1_format :: ma_format
  l1_channels :: u32
  l1_a :: 'k
  l1_R1 :: "'k list"

definition ma_lpf1_config_init :: "ma_format \<Rightarrow> u32 \<Rightarrow> u32 \<Rightarrow> f64 \<Rightarrow> lpf_config12" where
  "ma_lpf1_config_init fmt channels sampleRate cutoffFrequency = \<lparr>l_format = fmt, l_channels = channels,
     l_sampleRate = sampleRate, l_cutoffFrequency = cutoffFrequency, l_q = Fin (1 / 2)\<rparr>"

definition ma_lpf2_config_init :: "ma_format \<Rightarrow> u32 \<Rightarrow> u32 \<Rightarrow> f64 \<Rightarrow> f64 \<Rightarrow> lpf_config12" where
  "ma_lpf2_config_init fmt channels sampleRate cutoffFrequency q = \<lparr>l_format = fmt, l_channels = channels,
     l_sampleRate = sampleRate, l_cutoffFrequency = cutoffFrequency, l_q = (if q = Fin 0 then f64 (707107 / 10 ^ 6) else q)\<rparr>"

definition ma_lpf1_get_heap_size :: "lpf_config12 option \<Rightarrow> ma_result \<times> u64" where
  "ma_lpf1_get_heap_size pConfig =
     (case pConfig of
        None \<Rightarrow> (MA_INVALID_ARGS, 0)
      | Some cfg \<Rightarrow>
          if l_channels cfg = 0 then (MA_INVALID_ARGS, 0) else (MA_SUCCESS, ma_align_64 (4 * ucast (l_channels cfg))))"

definition fresh_lpf1 :: "'k \<Rightarrow> 'k list \<Rightarrow> 'k ma_lpf1" where
  "fresh_lpf1 z cache = \<lparr>l1_format = ma_format_unknown, l1_channels = 0, l1_a = z, l1_R1 = cache\<rparr>"

definition ma_lpf1_reinit ::
    "libm \<Rightarrow> (f64 \<Rightarrow> 'k option) \<Rightarrow> lpf_config12 option \<Rightarrow> 'k ma_lpf1 option \<Rightarrow> (ma_result \<times> 'k ma_lpf1 option) option" where
  "ma_lpf1_reinit m coef pConfig pLPF =
     (case (pLPF, pConfig) of
        (Some lpf, Some cfg) \<Rightarrow>
          if l_format cfg \<noteq> ma_format_f32 \<and> l_format cfg \<noteq> ma_format_s16 then Some (MA_INVALID_ARGS, pLPF)
          else if l1_format lpf \<noteq> ma_format_unknown \<and> l1_format lpf \<noteq> l_format cfg then Some (MA_INVALID_OPERATION, pLPF)
          else if l1_channels lpf \<noteq> 0 \<and> l1_channels lpf \<noteq> l_channels cfg then Some (MA_INVALID_OPERATION, pLPF)
          else
            let a = ma_expd m (fp_div f64 (fp_mul f64 (fp_mul f64 (Fin (- 2)) MA_PI_D) (l_cutoffFrequency cfg)) (of_u32 (l_sampleRate cfg)))
            in map_option (\<lambda>a. (MA_SUCCESS, Some (lpf\<lparr>l1_format := l_format cfg, l1_channels := l_channels cfg, l1_a := a\<rparr>))) (coef a)
      | _ \<Rightarrow> Some (MA_INVALID_ARGS, pLPF))"

definition ma_lpf1_init_preallocated ::
    "libm \<Rightarrow> 'k \<Rightarrow> (f64 \<Rightarrow> 'k option) \<Rightarrow> lpf_config12 option \<Rightarrow> 'k ma_lpf1 option \<Rightarrow> (ma_result \<times> 'k ma_lpf1 option) option" where
  "ma_lpf1_init_preallocated m z coef pConfig pLPF =
     (case pLPF of
        None \<Rightarrow> Some (MA_INVALID_ARGS, None)
      | Some _ \<Rightarrow>
          (case pConfig of
             None \<Rightarrow> Some (MA_INVALID_ARGS, Some (fresh_lpf1 z []))
           | Some cfg \<Rightarrow>
               if l_channels cfg = 0 then Some (MA_INVALID_ARGS, Some (fresh_lpf1 z []))
               else ma_lpf1_reinit m coef pConfig (Some (fresh_lpf1 z (replicate (unat (l_channels cfg)) z)))))"

definition ma_lpf1_init ::
    "bool \<Rightarrow> libm \<Rightarrow> 'k \<Rightarrow> (f64 \<Rightarrow> 'k option) \<Rightarrow> lpf_config12 option \<Rightarrow> 'k ma_lpf1 option \<Rightarrow> (ma_result \<times> 'k ma_lpf1 option) option" where
  "ma_lpf1_init malloc_ok m z coef pConfig pLPF =
     (case ma_lpf1_get_heap_size pConfig of
        (MA_SUCCESS, heapSizeInBytes) \<Rightarrow>
          if 0 < heapSizeInBytes \<and> \<not> malloc_ok then Some (MA_OUT_OF_MEMORY, pLPF)
          else ma_lpf1_init_preallocated m z coef pConfig pLPF
      | (result, _) \<Rightarrow> Some (result, pLPF))"

text \<open>The code clears the coefficient.\<close>

definition ma_lpf1_clear_cache :: "'k \<Rightarrow> 'k ma_lpf1 option \<Rightarrow> ma_result \<times> 'k ma_lpf1 option" where
  "ma_lpf1_clear_cache z pLPF =
     (case pLPF of None \<Rightarrow> (MA_INVALID_ARGS, None) | Some lpf \<Rightarrow> (MA_SUCCESS, Some (lpf\<lparr>l1_a := z\<rparr>)))"

definition lpf1_sample_f32 :: "f32 \<Rightarrow> f32 \<Rightarrow> f32 \<Rightarrow> f32" where
  "lpf1_sample_f32 a r1 x = fp_add f32 (fp_mul f32 (fp_sub f32 (Fin 1) a) x) (fp_mul f32 a r1)"

definition lpf1_sample_s16 :: "i32 \<Rightarrow> i32 \<Rightarrow> i16 \<Rightarrow> i32 option" where
  "lpf1_sample_s16 a r1 sample =
     do {
       b \<leftarrow> sub32 16384 a;
       bx \<leftarrow> mul32 b (scast sample);
       ar \<leftarrow> mul32 a r1;
       s \<leftarrow> add32 bx ar;
       Some (signed_drop_bit 14 s)
     }"

definition ma_lpf1_process_pcm_frame_f32 :: "f32 ma_lpf1 \<Rightarrow> f32 list \<Rightarrow> (f32 list \<times> f32 ma_lpf1) option" where
  "ma_lpf1_process_pcm_frame_f32 lpf pX =
     (let ys = map (\<lambda>c. lpf1_sample_f32 (l1_a lpf) (l1_R1 lpf ! c) (pX ! c)) [0..<unat (l1_channels lpf)]
      in Some (ys, lpf\<lparr>l1_R1 := ys\<rparr>))"

definition ma_lpf1_process_pcm_frame_s16 :: "i32 ma_lpf1 \<Rightarrow> i16 list \<Rightarrow> (i16 list \<times> i32 ma_lpf1) option" where
  "ma_lpf1_process_pcm_frame_s16 lpf pX =
     map_option (\<lambda>ys. (map ucast ys, lpf\<lparr>l1_R1 := ys\<rparr>))
       (those (map (\<lambda>c. lpf1_sample_s16 (l1_a lpf) (l1_R1 lpf ! c) (pX ! c)) [0..<unat (l1_channels lpf)]))"

definition ma_lpf1_process_pcm_frames_f32 where
  "ma_lpf1_process_pcm_frames_f32 pLPF pFramesOut pFramesIn frameCount =
     process_checked (\<lambda>lpf pX. frames_loop ma_lpf1_process_pcm_frame_f32 (unat (l1_channels lpf)) frameCount 0 pX lpf)
       pLPF pFramesOut pFramesIn"

definition ma_lpf1_process_pcm_frames_s16 where
  "ma_lpf1_process_pcm_frames_s16 pLPF pFramesOut pFramesIn frameCount =
     process_checked (\<lambda>lpf pX. frames_loop ma_lpf1_process_pcm_frame_s16 (unat (l1_channels lpf)) frameCount 0 pX lpf)
       pLPF pFramesOut pFramesIn"

definition ma_lpf1_get_latency :: "'k ma_lpf1 option \<Rightarrow> u32" where
  "ma_lpf1_get_latency pLPF = (case pLPF of None \<Rightarrow> 0 | Some _ \<Rightarrow> 1)"

section \<open>Second-order filter\<close>

type_synonym 'k ma_lpf2 = "'k ma_biquad"

definition ma_lpf2__get_biquad_config :: "libm \<Rightarrow> lpf_config12 \<Rightarrow> biquad_config" where
  "ma_lpf2__get_biquad_config m cfg =
     (let w = fp_div f64 (fp_mul f64 (fp_mul f64 (Fin 2) MA_PI_D) (l_cutoffFrequency cfg)) (of_u32 (l_sampleRate cfg));
          s = ma_sind m w;
          c = ma_cosd m w;
          a = fp_div f64 s (fp_mul f64 (Fin 2) (l_q cfg));
          d = fp_sub f64 (Fin 1) c
      in \<lparr>cfg_format = l_format cfg, cfg_channels = l_channels cfg,
          cfg_b0 = fp_div f64 d (Fin 2), cfg_b1 = d, cfg_b2 = fp_div f64 d (Fin 2),
          cfg_a0 = fp_add f64 (Fin 1) a, cfg_a1 = fp_mul f64 (Fin (- 2)) c, cfg_a2 = fp_sub f64 (Fin 1) a\<rparr>)"

text \<open>The size does not depend on the coefficients.\<close>

definition ma_lpf2_get_heap_size :: "libm \<Rightarrow> lpf_config12 \<Rightarrow> ma_result \<times> u64" where
  "ma_lpf2_get_heap_size m cfg = ma_biquad_get_heap_size (Some (ma_lpf2__get_biquad_config m cfg))"

definition ma_lpf2_init_preallocated ::
    "libm \<Rightarrow> 'k \<Rightarrow> (f64 \<Rightarrow> 'k option) \<Rightarrow> lpf_config12 option \<Rightarrow> 'k ma_lpf2 option \<Rightarrow> (ma_result \<times> 'k ma_lpf2 option) option" where
  "ma_lpf2_init_preallocated m z coef pConfig pLPF =
     (case pLPF of
        None \<Rightarrow> Some (MA_INVALID_ARGS, None)
      | Some _ \<Rightarrow>
          (case pConfig of
             None \<Rightarrow> Some (MA_INVALID_ARGS, Some (fresh_biquad z []))
           | Some cfg \<Rightarrow> ma_biquad_init_preallocated z coef (Some (ma_lpf2__get_biquad_config m cfg)) pLPF))"

definition ma_lpf2_init ::
    "bool \<Rightarrow> libm \<Rightarrow> 'k \<Rightarrow> (f64 \<Rightarrow> 'k option) \<Rightarrow> lpf_config12 \<Rightarrow> 'k ma_lpf2 option \<Rightarrow> (ma_result \<times> 'k ma_lpf2 option) option" where
  "ma_lpf2_init malloc_ok m z coef cfg pLPF =
     (case ma_lpf2_get_heap_size m cfg of
        (MA_SUCCESS, heapSizeInBytes) \<Rightarrow>
          if 0 < heapSizeInBytes \<and> \<not> malloc_ok then Some (MA_OUT_OF_MEMORY, pLPF)
          else ma_lpf2_init_preallocated m z coef (Some cfg) pLPF
      | (result, _) \<Rightarrow> Some (result, pLPF))"

definition ma_lpf2_reinit ::
    "libm \<Rightarrow> (f64 \<Rightarrow> 'k option) \<Rightarrow> lpf_config12 option \<Rightarrow> 'k ma_lpf2 option \<Rightarrow> (ma_result \<times> 'k ma_lpf2 option) option" where
  "ma_lpf2_reinit m coef pConfig pLPF =
     (case (pLPF, pConfig) of
        (Some _, Some cfg) \<Rightarrow> ma_biquad_reinit coef (Some (ma_lpf2__get_biquad_config m cfg)) pLPF
      | _ \<Rightarrow> Some (MA_INVALID_ARGS, pLPF))"

definition ma_lpf2_clear_cache :: "'k \<Rightarrow> 'k ma_lpf2 option \<Rightarrow> ma_result \<times> 'k ma_lpf2 option" where
  "ma_lpf2_clear_cache z pLPF =
     (case pLPF of None \<Rightarrow> (MA_INVALID_ARGS, None) | Some _ \<Rightarrow> (MA_SUCCESS, snd (ma_biquad_clear_cache z pLPF)))"

definition ma_lpf2_process_pcm_frame_s16 :: "i32 ma_lpf2 \<Rightarrow> i16 list \<Rightarrow> (i16 list \<times> i32 ma_lpf2) option" where
  "ma_lpf2_process_pcm_frame_s16 = ma_biquad_process_pcm_frame_s16"

definition ma_lpf2_process_pcm_frame_f32 :: "f32 ma_lpf2 \<Rightarrow> f32 list \<Rightarrow> (f32 list \<times> f32 ma_lpf2) option" where
  "ma_lpf2_process_pcm_frame_f32 = ma_biquad_process_pcm_frame_f32"

definition ma_lpf2_process_pcm_frames_s16 where
  "ma_lpf2_process_pcm_frames_s16 pLPF pFramesOut pFramesIn frameCount =
     ma_biquad_process_pcm_frames_s16 pLPF pFramesOut pFramesIn frameCount"

definition ma_lpf2_process_pcm_frames_f32 where
  "ma_lpf2_process_pcm_frames_f32 pLPF pFramesOut pFramesIn frameCount =
     ma_biquad_process_pcm_frames_f32 pLPF pFramesOut pFramesIn frameCount"

definition ma_lpf2_get_latency :: "'k ma_lpf2 option \<Rightarrow> u32" where
  "ma_lpf2_get_latency pLPF = ma_biquad_get_latency pLPF"

section \<open>The chain of filters\<close>

definition MA_MAX_FILTER_ORDER :: u32 where "MA_MAX_FILTER_ORDER = 8"

record ma_lpf_config =
  c_format :: ma_format
  c_channels :: u32
  c_sampleRate :: u32
  c_cutoffFrequency :: f64
  c_order :: u32

record 'k ma_lpf =
  lpf_format :: ma_format
  lpf_channels :: u32
  lpf_sampleRate :: u32
  pLPF1 :: "'k ma_lpf1 list"
  pLPF2 :: "'k ma_lpf2 list"

definition ma_lpf_config_init :: "ma_format \<Rightarrow> u32 \<Rightarrow> u32 \<Rightarrow> f64 \<Rightarrow> u32 \<Rightarrow> ma_lpf_config" where
  "ma_lpf_config_init fmt channels sampleRate cutoffFrequency order = \<lparr>c_format = fmt, c_channels = channels,
     c_sampleRate = sampleRate, c_cutoffFrequency = cutoffFrequency, c_order = min order MA_MAX_FILTER_ORDER\<rparr>"

definition ma_lpf_calculate_sub_lpf_counts :: "u32 \<Rightarrow> u32 \<times> u32" where
  "ma_lpf_calculate_sub_lpf_counts order = (order mod 2, order div 2)"

record lpf_heap =
  heap_size :: u64
  lpf1Offset :: u64
  lpf2Offset :: u64

text \<open>The layout of the filters' memory; \<open>size1\<close> and \<open>size2\<close> are \<open>sizeof(ma_lpf1)\<close> and \<open>sizeof(ma_lpf2)\<close>.\<close>

definition ma_lpf_get_heap_layout :: "libm \<Rightarrow> u64 \<Rightarrow> u64 \<Rightarrow> ma_lpf_config option \<Rightarrow> ma_result \<times> lpf_heap" where
  "ma_lpf_get_heap_layout m size1 size2 pConfig =
     (let none = \<lparr>heap_size = 0, lpf1Offset = 0, lpf2Offset = 0\<rparr> in
      case pConfig of
        None \<Rightarrow> (MA_INVALID_ARGS, none)
      | Some cfg \<Rightarrow>
          if c_channels cfg = 0 then (MA_INVALID_ARGS, none)
          else if MA_MAX_FILTER_ORDER < c_order cfg then (MA_INVALID_ARGS, none)
          else
            let (n1, n2) = ma_lpf_calculate_sub_lpf_counts (c_order cfg);
                (result1, h1) = ma_lpf1_get_heap_size (Some (ma_lpf1_config_init (c_format cfg) (c_channels cfg) (c_sampleRate cfg)
                  (c_cutoffFrequency cfg)));
                (result2, h2) = ma_lpf2_get_heap_size m (ma_lpf2_config_init (c_format cfg) (c_channels cfg) (c_sampleRate cfg)
                  (c_cutoffFrequency cfg) (f64 (707107 / 10 ^ 6)));
                all1 = foldl (\<lambda>s _. s + (size1 + h1)) 0 [0..<unat n1];
                all2 = foldl (\<lambda>s _. s + (size2 + h2)) all1 [0..<unat n2]
            in (MA_SUCCESS, \<lparr>heap_size = ma_align_64 all2, lpf1Offset = 0, lpf2Offset = all1\<rparr>))"

text \<open>The quality of the \<open>i\<close>-th second-order filter of a Butterworth filter.\<close>

definition butterworth_q :: "libm \<Rightarrow> u32 \<Rightarrow> u32 \<Rightarrow> nat \<Rightarrow> f64" where
  "butterworth_q m order n1 i =
     (let a = (if n1 = 1 then fp_mul f64 (of_u32 (1 + of_nat i * 1)) (fp_div f64 MA_PI_D (of_u32 (order * 1)))
               else fp_mul f64 (of_u32 (1 + of_nat i * 2)) (fp_div f64 MA_PI_D (of_u32 (order * 2))))
      in fp_div f64 (Fin 1) (fp_mul f64 (Fin 2) (ma_cosd m a)))"

text \<open>A loop that sets filters up one after the other and stops at the first that fails; the filters not
  reached stay as they were. (A new chain whose set-up fails has no filters.)\<close>

fun set_up :: "(nat \<Rightarrow> 'f \<Rightarrow> (ma_result \<times> 'f option) option) \<Rightarrow> nat \<Rightarrow> 'f list \<Rightarrow> (ma_result \<times> 'f list) option" where
  "set_up init i [] = Some (MA_SUCCESS, [])"
| "set_up init i (f # fs) =
     (case init i f of
        None \<Rightarrow> None
      | Some (result, f') \<Rightarrow>
          let f = (case f' of None \<Rightarrow> f | Some g \<Rightarrow> g) in
          if result = MA_SUCCESS then map_option (\<lambda>(r, fs). (r, f # fs)) (set_up init (Suc i) fs)
          else Some (result, f # fs))"

definition set_up_lpf1 ::
    "libm \<Rightarrow> 'k \<Rightarrow> (f64 \<Rightarrow> 'k option) \<Rightarrow> ma_lpf_config \<Rightarrow> bool \<Rightarrow> nat \<Rightarrow> 'k ma_lpf1 \<Rightarrow> (ma_result \<times> 'k ma_lpf1 option) option" where
  "set_up_lpf1 m z coef cfg isNew i f =
     (let cfg1 = ma_lpf1_config_init (c_format cfg) (c_channels cfg) (c_sampleRate cfg) (c_cutoffFrequency cfg)
      in if isNew then ma_lpf1_init_preallocated m z coef (Some cfg1) (Some f) else ma_lpf1_reinit m coef (Some cfg1) (Some f))"

definition set_up_lpf2 ::
    "libm \<Rightarrow> 'k \<Rightarrow> (f64 \<Rightarrow> 'k option) \<Rightarrow> ma_lpf_config \<Rightarrow> bool \<Rightarrow> nat \<Rightarrow> 'k ma_lpf2 \<Rightarrow> (ma_result \<times> 'k ma_lpf2 option) option" where
  "set_up_lpf2 m z coef cfg isNew i f =
     (let cfg2 = ma_lpf2_config_init (c_format cfg) (c_channels cfg) (c_sampleRate cfg) (c_cutoffFrequency cfg)
        (butterworth_q m (c_order cfg) (fst (ma_lpf_calculate_sub_lpf_counts (c_order cfg))) i)
      in if isNew then ma_lpf2_init_preallocated m z coef (Some cfg2) (Some f) else ma_lpf2_reinit m coef (Some cfg2) (Some f))"

definition set_up_chain ::
    "libm \<Rightarrow> 'k \<Rightarrow> (f64 \<Rightarrow> 'k option) \<Rightarrow> ma_lpf_config \<Rightarrow> bool \<Rightarrow> 'k ma_lpf \<Rightarrow> (ma_result \<times> 'k ma_lpf) option" where
  "set_up_chain m z coef cfg isNew lpf =
     do {
       (result1, fs1) \<leftarrow> set_up (set_up_lpf1 m z coef cfg isNew) 0 (pLPF1 lpf);
       if result1 \<noteq> MA_SUCCESS then Some (result1, if isNew then lpf\<lparr>pLPF1 := [], pLPF2 := []\<rparr> else lpf\<lparr>pLPF1 := fs1\<rparr>)
       else do {
         (result2, fs2) \<leftarrow> set_up (set_up_lpf2 m z coef cfg isNew) 0 (pLPF2 lpf);
         if result2 \<noteq> MA_SUCCESS then Some (result2, if isNew then lpf\<lparr>pLPF1 := [], pLPF2 := []\<rparr> else lpf\<lparr>pLPF1 := fs1, pLPF2 := fs2\<rparr>)
         else Some (MA_SUCCESS, lpf\<lparr>pLPF1 := fs1, pLPF2 := fs2, lpf_format := c_format cfg, lpf_channels := c_channels cfg,
           lpf_sampleRate := c_sampleRate cfg\<rparr>)
       }
     }"

definition ma_lpf_reinit__internal ::
    "libm \<Rightarrow> 'k \<Rightarrow> (f64 \<Rightarrow> 'k option) \<Rightarrow> ma_lpf_config option \<Rightarrow> 'k ma_lpf option \<Rightarrow> bool \<Rightarrow> (ma_result \<times> 'k ma_lpf option) option" where
  "ma_lpf_reinit__internal m z coef pConfig pLPF isNew =
     (case (pLPF, pConfig) of
        (Some lpf, Some cfg) \<Rightarrow>
          if c_format cfg \<noteq> ma_format_f32 \<and> c_format cfg \<noteq> ma_format_s16 then Some (MA_INVALID_ARGS, pLPF)
          else if lpf_format lpf \<noteq> ma_format_unknown \<and> lpf_format lpf \<noteq> c_format cfg then Some (MA_INVALID_OPERATION, pLPF)
          else if lpf_channels lpf \<noteq> 0 \<and> lpf_channels lpf \<noteq> c_channels cfg then Some (MA_INVALID_OPERATION, pLPF)
          else if MA_MAX_FILTER_ORDER < c_order cfg then Some (MA_INVALID_ARGS, pLPF)
          else
            let (n1, n2) = ma_lpf_calculate_sub_lpf_counts (c_order cfg) in
            if \<not> isNew \<and> (length (pLPF1 lpf) \<noteq> unat n1 \<or> length (pLPF2 lpf) \<noteq> unat n2) then Some (MA_INVALID_OPERATION, pLPF)
            else if isNew \<and> c_channels cfg = 0 then Some (MA_INVALID_ARGS, pLPF)
            else map_option (\<lambda>(result, lpf). (result, Some lpf))
              (set_up_chain m z coef cfg isNew (if isNew then lpf\<lparr>pLPF1 := replicate (unat n1) (fresh_lpf1 z []),
                 pLPF2 := replicate (unat n2) (fresh_biquad z [])\<rparr> else lpf))
      | _ \<Rightarrow> Some (MA_INVALID_ARGS, pLPF))"

definition ma_lpf_init_preallocated ::
    "libm \<Rightarrow> 'k \<Rightarrow> (f64 \<Rightarrow> 'k option) \<Rightarrow> ma_lpf_config option \<Rightarrow> 'k ma_lpf option \<Rightarrow> (ma_result \<times> 'k ma_lpf option) option" where
  "ma_lpf_init_preallocated m z coef pConfig pLPF =
     (case pLPF of
        None \<Rightarrow> Some (MA_INVALID_ARGS, None)
      | Some _ \<Rightarrow> ma_lpf_reinit__internal m z coef pConfig (Some \<lparr>lpf_format = ma_format_unknown, lpf_channels = 0,
          lpf_sampleRate = 0, pLPF1 = [], pLPF2 = []\<rparr>) True)"

definition ma_lpf_init ::
    "bool \<Rightarrow> libm \<Rightarrow> u64 \<Rightarrow> u64 \<Rightarrow> 'k \<Rightarrow> (f64 \<Rightarrow> 'k option) \<Rightarrow> ma_lpf_config option \<Rightarrow> 'k ma_lpf option
      \<Rightarrow> (ma_result \<times> 'k ma_lpf option) option" where
  "ma_lpf_init malloc_ok m size1 size2 z coef pConfig pLPF =
     (case ma_lpf_get_heap_layout m size1 size2 pConfig of
        (MA_SUCCESS, heap) \<Rightarrow>
          if 0 < heap_size heap \<and> \<not> malloc_ok then Some (MA_OUT_OF_MEMORY, pLPF)
          else ma_lpf_init_preallocated m z coef pConfig pLPF
      | (result, _) \<Rightarrow> Some (result, pLPF))"

definition ma_lpf_reinit ::
    "libm \<Rightarrow> 'k \<Rightarrow> (f64 \<Rightarrow> 'k option) \<Rightarrow> ma_lpf_config option \<Rightarrow> 'k ma_lpf option \<Rightarrow> (ma_result \<times> 'k ma_lpf option) option" where
  "ma_lpf_reinit m z coef pConfig pLPF = ma_lpf_reinit__internal m z coef pConfig pLPF False"

definition ma_lpf_clear_cache :: "'k \<Rightarrow> 'k ma_lpf option \<Rightarrow> ma_result \<times> 'k ma_lpf option" where
  "ma_lpf_clear_cache z pLPF =
     (case pLPF of
        None \<Rightarrow> (MA_INVALID_ARGS, None)
      | Some lpf \<Rightarrow> (MA_SUCCESS, Some (lpf
          \<lparr>pLPF1 := map (\<lambda>f. the (snd (ma_lpf1_clear_cache z (Some f)))) (pLPF1 lpf),
           pLPF2 := map (\<lambda>f. the (snd (ma_lpf2_clear_cache z (Some f)))) (pLPF2 lpf)\<rparr>)))"

text \<open>A frame through filters one after the other.\<close>

fun chain :: "('f \<Rightarrow> 's list \<Rightarrow> ('s list \<times> 'f) option) \<Rightarrow> 'f list \<Rightarrow> 's list \<Rightarrow> ('s list \<times> 'f list) option" where
  "chain step [] x = Some (x, [])"
| "chain step (f # fs) x = do { (y, f) \<leftarrow> step f x; (z, fs) \<leftarrow> chain step fs y; Some (z, f # fs) }"

definition ma_lpf_process_pcm_frame_f32 :: "f32 ma_lpf \<Rightarrow> f32 list \<Rightarrow> (f32 list \<times> f32 ma_lpf) option" where
  "ma_lpf_process_pcm_frame_f32 lpf pX =
     do {
       (y, fs1) \<leftarrow> chain ma_lpf1_process_pcm_frame_f32 (pLPF1 lpf) pX;
       (z, fs2) \<leftarrow> chain ma_lpf2_process_pcm_frame_f32 (pLPF2 lpf) y;
       Some (z, lpf\<lparr>pLPF1 := fs1, pLPF2 := fs2\<rparr>)
     }"

definition ma_lpf_process_pcm_frame_s16 :: "i32 ma_lpf \<Rightarrow> i16 list \<Rightarrow> (i16 list \<times> i32 ma_lpf) option" where
  "ma_lpf_process_pcm_frame_s16 lpf pX =
     do {
       (y, fs1) \<leftarrow> chain ma_lpf1_process_pcm_frame_s16 (pLPF1 lpf) pX;
       (z, fs2) \<leftarrow> chain ma_lpf2_process_pcm_frame_s16 (pLPF2 lpf) y;
       Some (z, lpf\<lparr>pLPF1 := fs1, pLPF2 := fs2\<rparr>)
     }"

text \<open>A block of frames: filter by filter when the buffer is filtered in place, otherwise frame by frame.\<close>

fun cascade ::
    "('f option \<Rightarrow> 's list option \<Rightarrow> 's list option \<Rightarrow> u64 \<Rightarrow> (ma_result \<times> 's list option \<times> 'f option) option)
      \<Rightarrow> u64 \<Rightarrow> 'f list \<Rightarrow> 's list option \<Rightarrow> (ma_result \<times> 's list option \<times> 'f list) option" where
  "cascade run n [] buf = Some (MA_SUCCESS, buf, [])"
| "cascade run n (f # fs) buf =
     do {
       (result, buf, f') \<leftarrow> run (Some f) buf buf n;
       if result \<noteq> MA_SUCCESS then Some (result, buf, f # fs)
       else do { (result, buf, fs) \<leftarrow> cascade run n fs buf; Some (result, buf, the f' # fs) }
     }"

definition lpf_in_place where
  "lpf_in_place run1 run2 pLPF pFrames frameCount =
     (case pLPF of
        None \<Rightarrow> Some (MA_INVALID_ARGS, pFrames, None)
      | Some lpf \<Rightarrow>
          do {
            (result, buf, fs1) \<leftarrow> cascade run1 frameCount (pLPF1 lpf) pFrames;
            let lpf = lpf\<lparr>pLPF1 := fs1\<rparr>;
            if result \<noteq> MA_SUCCESS then Some (result, buf, Some lpf)
            else do {
              (result, buf, fs2) \<leftarrow> cascade run2 frameCount (pLPF2 lpf) buf;
              Some (result, buf, Some (lpf\<lparr>pLPF2 := fs2\<rparr>))
            }
          })"

definition lpf_copy where
  "lpf_copy step pLPF pFramesOut pFramesIn frameCount =
     (case pLPF of
        None \<Rightarrow> Some (MA_INVALID_ARGS, pFramesOut, None)
      | Some lpf \<Rightarrow>
          do {
            (ys, lpf) \<leftarrow> frames_loop step (unat (lpf_channels lpf)) frameCount 0 pFramesIn lpf;
            Some (MA_SUCCESS, ys @ drop (length ys) pFramesOut, Some lpf)
          })"

definition ma_lpf_process_pcm_frames_s16_in_place where
  "ma_lpf_process_pcm_frames_s16_in_place =
     lpf_in_place ma_lpf1_process_pcm_frames_s16 ma_lpf2_process_pcm_frames_s16"

definition ma_lpf_process_pcm_frames_f32_in_place where
  "ma_lpf_process_pcm_frames_f32_in_place =
     lpf_in_place ma_lpf1_process_pcm_frames_f32 ma_lpf2_process_pcm_frames_f32"

definition ma_lpf_process_pcm_frames_s16 where
  "ma_lpf_process_pcm_frames_s16 = lpf_copy ma_lpf_process_pcm_frame_s16"

definition ma_lpf_process_pcm_frames_f32 where
  "ma_lpf_process_pcm_frames_f32 = lpf_copy ma_lpf_process_pcm_frame_f32"

definition ma_lpf_get_latency :: "'k ma_lpf option \<Rightarrow> u32" where
  "ma_lpf_get_latency pLPF =
     (case pLPF of None \<Rightarrow> 0 | Some lpf \<Rightarrow> of_nat (length (pLPF2 lpf)) * 2 + of_nat (length (pLPF1 lpf)))"

section \<open>Fixed-point arithmetic\<close>

text \<open>Signed 32-bit operations whose exact results fit.\<close>

lemma sint_eq_int: "sint x = i \<Longrightarrow> x = word_of_int i"
  using of_int_sint_word [of x] by simp

lemma scast_i16: "(scast (x :: i16) :: i32) = word_of_int (sint x)"
  by simp

lemma narrow_i32: "(ucast (w :: i32) :: i16) = word_of_int (sint w)"
  by (rule bit_word_eqI) (auto simp: bit_simps)

lemma narrow_wide: "(ucast (scast (x :: i16) :: i32) :: i16) = x"
  by (rule bit_word_eqI) (auto simp: bit_simps)

lemma sint_word_of_int32: "- 2147483648 \<le> i \<Longrightarrow> i < 2147483648 \<Longrightarrow> sint (word_of_int i :: i32) = i"
  by (rule sint_of_int32)

lemma ops32:
  assumes "sint x = i" "sint y = j"
  shows "- 2147483648 \<le> i + j \<Longrightarrow> i + j < 2147483648 \<Longrightarrow> add32 x y = Some (word_of_int (i + j))"
    "- 2147483648 \<le> i - j \<Longrightarrow> i - j < 2147483648 \<Longrightarrow> sub32 x y = Some (word_of_int (i - j))"
    "- 2147483648 \<le> i * j \<Longrightarrow> i * j < 2147483648 \<Longrightarrow> mul32 x y = Some (word_of_int (i * j))"
proof -
  have e: "x + y = word_of_int (i + j)" "x - y = word_of_int (i - j)" "x * y = word_of_int (i * j)"
    unfolding sint_eq_int [OF assms(1)] sint_eq_int [OF assms(2)] by simp_all
  show "add32 x y = Some (word_of_int (i + j))" if "- 2147483648 \<le> i + j" "i + j < 2147483648"
    using sint_word_of_int32 [OF that] unfolding add32_def e(1) assms by simp
  show "sub32 x y = Some (word_of_int (i - j))" if "- 2147483648 \<le> i - j" "i - j < 2147483648"
    using sint_word_of_int32 [OF that] unfolding sub32_def e(2) assms by simp
  show "mul32 x y = Some (word_of_int (i * j))" if "- 2147483648 \<le> i * j" "i * j < 2147483648"
    using sint_word_of_int32 [OF that] unfolding mul32_def smul_fits_def e(3) assms by simp
qed

lemma sint_shift14: "sint (signed_drop_bit 14 x :: i32) = sint x div 16384"
  by (simp add: sint_signed_drop_bit_eq drop_bit_eq_div)

text \<open>A weighted mean in fixed point lies between its operands.\<close>

lemma weighted_mean:
  fixes a p q lo hi d :: int
  assumes "0 < d" "0 \<le> a" "a \<le> d" "lo \<le> p" "p \<le> hi" "lo \<le> q" "q \<le> hi"
  shows "lo \<le> ((d - a) * p + a * q) div d" "((d - a) * p + a * q) div d \<le> hi"
proof -
  have l: "(d - a) * lo \<le> (d - a) * p" "a * lo \<le> a * q" using assms by (auto intro: mult_left_mono)
  have h: "(d - a) * p \<le> (d - a) * hi" "a * q \<le> a * hi" using assms by (auto intro: mult_left_mono)
  have "(d - a) * lo + a * lo = d * lo" "(d - a) * hi + a * hi = d * hi" by (simp_all add: algebra_simps)
  then have lo: "d * lo \<le> (d - a) * p + a * q" and hi: "(d - a) * p + a * q \<le> d * hi"
    using l h by linarith+
  show "lo \<le> ((d - a) * p + a * q) div d" using zdiv_mono1 [OF lo assms(1)] assms(1) by simp
  show "((d - a) * p + a * q) div d \<le> hi" using zdiv_mono1 [OF hi assms(1)] assms(1) by simp
qed

lemma mult_in_range:
  fixes a p :: int
  assumes "0 \<le> a" "a \<le> 16384" "- 32768 \<le> p" "p \<le> 32767"
  shows "- 536870912 \<le> a * p" "a * p \<le> 536854528"
proof -
  have "a * - 32768 \<le> a * p" "a * p \<le> a * 32767" by (rule mult_left_mono; use assms in simp)+
  then show "- 536870912 \<le> a * p" "a * p \<le> 536854528" using assms by linarith+
qed

lemma lpf1_sample_between:
  assumes "0 \<le> sint a" "sint a \<le> 16384" "lo \<le> sint r1" "sint r1 \<le> hi" "lo \<le> sint x" "sint x \<le> hi"
    and "- 32768 \<le> lo" "hi \<le> 32767"
  shows "\<exists>y. lpf1_sample_s16 a r1 x = Some y \<and> lo \<le> sint y \<and> sint y \<le> hi"
proof -
  obtain i j k where v: "sint a = i" "sint r1 = j" "sint x = k" by simp
  note r = assms(1-6) [unfolded v] assms(7,8)
  have "(scast x :: i32) = word_of_int k" unfolding v(3) [symmetric] by (rule scast_i16)
  then have x: "sint (scast x :: i32) = k" using r by (simp only:) (intro sint_word_of_int32; simp)
  have one: "sint (16384 :: i32) = 16384" by simp
  have b: "sub32 16384 a = Some (word_of_int (16384 - i))" using r by (intro ops32(2) [OF one v(1)]) auto
  have sb: "sint (word_of_int (16384 - i) :: i32) = 16384 - i" using r by (intro sint_word_of_int32) auto
  have p: "- 536870912 \<le> (16384 - i) * k" "(16384 - i) * k \<le> 536854528" "- 536870912 \<le> i * j" "i * j \<le> 536854528"
    using mult_in_range [of "16384 - i" k] mult_in_range [of i j] r by auto
  have bx: "mul32 (word_of_int (16384 - i)) (scast x) = Some (word_of_int ((16384 - i) * k))"
    using p by (intro ops32(3) [OF sb x]) auto
  have ar: "mul32 a r1 = Some (word_of_int (i * j))" using p by (intro ops32(3) [OF v(1,2)]) auto
  have s: "sint (word_of_int ((16384 - i) * k) :: i32) = (16384 - i) * k" "sint (word_of_int (i * j) :: i32) = i * j"
    by (rule sint_word_of_int32; use p in linarith)+
  have sum: "add32 (word_of_int ((16384 - i) * k)) (word_of_int (i * j)) = Some (word_of_int ((16384 - i) * k + i * j))"
    using p by (intro ops32(1) [OF s]) auto
  have t: "sint (word_of_int ((16384 - i) * k + i * j) :: i32) = (16384 - i) * k + i * j"
    using p by (intro sint_word_of_int32) auto
  show ?thesis
    using weighted_mean [of 16384 i lo k hi j] r unfolding lpf1_sample_s16_def b bx ar bind.bind_lunit sum
    by (intro exI [of _ "signed_drop_bit 14 (word_of_int ((16384 - i) * k + i * j))"]) (simp only: sint_shift14 t simp_thms)
qed

section \<open>Blocks of frames\<close>

fun frames_of :: "nat \<Rightarrow> nat \<Rightarrow> 's list \<Rightarrow> 's list list" where
  "frames_of ch 0 xs = []"
| "frames_of ch (Suc k) xs = take ch xs # frames_of ch k (drop ch xs)"

fun run_frames :: "('f \<Rightarrow> 's list \<Rightarrow> ('s list \<times> 'f) option) \<Rightarrow> 's list list \<Rightarrow> 'f \<Rightarrow> ('s list list \<times> 'f) option" where
  "run_frames step [] f = Some ([], f)"
| "run_frames step (x # xs) f = do { (y, f) \<leftarrow> step f x; (ys, f) \<leftarrow> run_frames step xs f; Some (y # ys, f) }"

lemma length_frames_of [simp]: "length (frames_of ch k xs) = k"
  by (induction ch k xs rule: frames_of.induct) auto

lemma frames_of_concat: "\<forall>y \<in> set yss. length y = ch \<Longrightarrow> frames_of ch (length yss) (concat yss @ zs) = yss"
  by (induction yss) auto

lemma length_concat_frames: "\<forall>y \<in> set yss. length y = ch \<Longrightarrow> length (concat yss) = length yss * ch"
  by (induction yss) auto

lemma frames_of_length: "k * ch \<le> length xs \<Longrightarrow> y \<in> set (frames_of ch k xs) \<Longrightarrow> length y = ch"
  by (induction ch k xs rule: frames_of.induct) auto

lemma length_run_frames: "run_frames step xs f = Some (ys, f') \<Longrightarrow> length ys = length xs"
  by (induction xs arbitrary: f ys) (auto simp: bind_eq_Some_conv)

lemma frames_loop_run:
  assumes "frameCount < 2 ^ 32" "ucast n \<le> frameCount"
  shows "frames_loop step ch frameCount n pX f =
    map_option (\<lambda>(yss, f). (concat yss, f)) (run_frames step (frames_of ch (unat frameCount - unat n) pX) f)"
  using assms(2)
proof (induction "unat frameCount - unat n" arbitrary: n pX f)
  case 0
  then have "\<not> ucast n < frameCount" by (simp add: word_less_nat_alt word_le_nat_alt unat_ucast_32_64)
  then show ?case using 0 by (subst frames_loop.simps) (simp flip: \<open>0 = _\<close>)
next
  case (Suc k)
  have lt: "ucast n < frameCount" using Suc.hyps(2) by (simp add: word_less_nat_alt unat_ucast_32_64)
  have "unat frameCount < 2 ^ 32" using assms(1) by (simp add: word_less_nat_alt)
  then have n1: "unat (n + 1) = unat n + 1" using Suc.hyps(2) by (simp add: unat_word_ariths)
  then have "ucast (n + 1) \<le> frameCount" "k = unat frameCount - unat (n + 1)"
    using Suc.hyps(2) by (simp_all add: word_le_nat_alt unat_ucast_32_64)
  note IH = Suc.hyps(1) [OF this(2,1)]
  show ?case
    unfolding Suc.hyps(2) [symmetric]
    by (subst frames_loop.simps)
      (auto simp: lt IH simp flip: \<open>k = _\<close> split: Option.bind_split prod.split)
qed

text \<open>Frame by frame through two machines is block by block.\<close>

lemma run_frames_seq:
  "run_frames (\<lambda>(f, g) x. do { (y, f) \<leftarrow> step f x; (z, g) \<leftarrow> step' g y; Some (z, (f, g)) }) xs (f, g) =
   do { (ys, f) \<leftarrow> run_frames step xs f; (zs, g) \<leftarrow> run_frames step' ys g; Some (zs, (f, g)) }"
proof (induction xs arbitrary: f g)
  case (Cons x xs)
  show ?case
  proof (cases "step f x")
    case (Some p)
    obtain y f1 where "p = (y, f1)" by (cases p)
    then show ?thesis
      using Some by (cases "step' g y"; cases "run_frames step xs f1") (auto simp: Cons.IH split: Option.bind_splits)
  qed simp
qed simp

lemma run_frames_map:
  assumes "\<And>s x. step' (h s) x = map_option (map_prod id h) (step s x)"
  shows "run_frames step' xs (h s) = map_option (map_prod id h) (run_frames step xs s)"
proof (induction xs arbitrary: s)
  case (Cons x xs)
  show ?case
    by (cases "step s x") (auto simp: assms Cons.IH split: Option.bind_splits)
qed simp

fun cascade_run :: "('f \<Rightarrow> 's list \<Rightarrow> ('s list \<times> 'f) option) \<Rightarrow> 'f list \<Rightarrow> 's list list \<Rightarrow> ('s list list \<times> 'f list) option" where
  "cascade_run step [] xs = Some (xs, [])"
| "cascade_run step (f # fs) xs = do { (ys, f) \<leftarrow> run_frames step xs f; (zs, fs) \<leftarrow> cascade_run step fs ys; Some (zs, f # fs) }"

lemma run_chain: "run_frames (chain step) xs fs = cascade_run step fs xs"
proof (induction fs arbitrary: xs)
  case Nil
  show ?case by (induction xs) simp_all
next
  case (Cons f fs)
  have "run_frames (chain step) xs (f # fs) = map_option (map_prod id (\<lambda>(f, fs). f # fs))
      (run_frames (\<lambda>(f, g) x. do { (y, f) \<leftarrow> step f x; (z, g) \<leftarrow> chain step g y; Some (z, (f, g)) }) xs (f, fs))"
    using run_frames_map [of "chain step" "\<lambda>(f, fs). f # fs"
      "\<lambda>(f, g) x. do { (y, f) \<leftarrow> step f x; (z, g) \<leftarrow> chain step g y; Some (z, (f, g)) }" xs "(f, fs)"]
    by (auto split: Option.bind_splits)
  then show ?case unfolding run_frames_seq by (auto simp: Cons.IH split: Option.bind_splits)
qed

lemma concat_frames_of: "concat (frames_of ch k xs) = take (k * ch) xs"
  by (induction ch k xs rule: frames_of.induct) (simp_all add: take_add)

text \<open>A filter of frames: it returns as many samples as it has channels, which do not change.\<close>

locale frame_filter =
  fixes step :: "'f \<Rightarrow> 's list \<Rightarrow> ('s list \<times> 'f) option" and chn :: "'f \<Rightarrow> u32"
  assumes step_frame: "step f x = Some (y, f') \<Longrightarrow> length y = unat (chn f) \<and> chn f' = chn f"
begin

lemma run_frame: "run_frames step xs f = Some (ys, f') \<Longrightarrow> chn f' = chn f \<and> (\<forall>y \<in> set ys. length y = unat (chn f))"
proof (induction xs arbitrary: f ys)
  case (Cons x xs)
  then obtain y f1 zs where "step f x = Some (y, f1)" "run_frames step xs f1 = Some (zs, f')" "ys = y # zs"
    by (auto simp: bind_eq_Some_conv)
  then show ?case using step_frame [of f x y f1] Cons.IH [of f1 zs] by auto
qed simp

lemma cascade_eq:
  assumes "frameCount < 2 ^ 32" "\<forall>f \<in> set fs. chn f = c" "unat frameCount * unat c \<le> length xs"
  shows "cascade (\<lambda>pF pOut pIn n. process_checked (\<lambda>f pX. frames_loop step (unat (chn f)) n 0 pX f) pF pOut pIn)
      frameCount fs (Some xs) =
    map_option (\<lambda>(yss, fs). (MA_SUCCESS, Some (concat yss @ drop (unat frameCount * unat c) xs), fs))
      (cascade_run step fs (frames_of (unat c) (unat frameCount) xs))"
  using assms(2,3)
proof (induction fs arbitrary: xs)
  case Nil
  then show ?case by (simp add: concat_frames_of)
next
  case (Cons f fs)
  let ?n = "unat frameCount" and ?ch = "unat c"
  have f: "chn f = c" using Cons.prems by simp
  have loop: "frames_loop step ?ch frameCount 0 xs f =
      map_option (\<lambda>(yss, f). (concat yss, f)) (run_frames step (frames_of ?ch ?n xs) f)"
    using frames_loop_run [OF assms(1), of 0 step ?ch xs f] by simp
  show ?case
  proof (cases "run_frames step (frames_of ?ch ?n xs) f")
    case None
    then show ?thesis by (simp add: process_checked_def loop f)
  next
    case (Some p)
    obtain yss f' where p: "p = (yss, f')" by (cases p)
    have l: "\<forall>y \<in> set yss. length y = ?ch" "length yss = ?n"
      using run_frame [of "frames_of ?ch ?n xs" f yss f'] length_run_frames [of step "frames_of ?ch ?n xs" f yss f'] Some p f
      by auto
    have lc: "length (concat yss) = ?n * ?ch" using length_concat_frames [OF l(1)] l(2) by simp
    let ?ys = "concat yss @ drop (?n * ?ch) xs"
    have "frames_of ?ch ?n ?ys = yss" using frames_of_concat [OF l(1)] l(2) by simp
    moreover have "?n * ?ch \<le> length ?ys" using lc by simp
    ultimately show ?thesis
      using Cons.IH [of ?ys] Cons.prems Some p f lc by (auto simp: process_checked_def loop split: Option.bind_splits)
  qed
qed

lemma cascade_run_frame:
  "cascade_run step fs xs = Some (ys, fs') \<Longrightarrow> \<forall>f \<in> set fs. chn f = c \<Longrightarrow> \<forall>x \<in> set xs. length x = unat c \<Longrightarrow>
   (\<forall>y \<in> set ys. length y = unat c) \<and> length ys = length xs"
proof (induction fs arbitrary: xs fs')
  case (Cons f fs)
  obtain zs f1 fs1 where z: "run_frames step xs f = Some (zs, f1)" "cascade_run step fs zs = Some (ys, fs1)"
    using Cons.prems(1) by (auto simp: bind_eq_Some_conv)
  show ?case
    using Cons.IH [OF z(2)] run_frame [OF z(1)] length_run_frames [OF z(1)] Cons.prems(2) by simp
qed simp

end

lemma those_same_length: "those xs = Some ys \<Longrightarrow> length ys = length xs"
  by (induction xs arbitrary: ys) (auto split: option.splits)

interpretation lpf1_s16: frame_filter ma_lpf1_process_pcm_frame_s16 l1_channels
  by unfold_locales (auto simp: ma_lpf1_process_pcm_frame_s16_def those_same_length)

interpretation lpf1_f32: frame_filter ma_lpf1_process_pcm_frame_f32 l1_channels
  by unfold_locales (auto simp: ma_lpf1_process_pcm_frame_f32_def Let_def)

interpretation lpf2_s16: frame_filter ma_lpf2_process_pcm_frame_s16 bq_channels
  by unfold_locales (auto simp: ma_lpf2_process_pcm_frame_s16_def ma_biquad_process_pcm_frame_s16_def those_same_length)

interpretation lpf2_f32: frame_filter ma_lpf2_process_pcm_frame_f32 bq_channels
  by unfold_locales (auto simp: ma_lpf2_process_pcm_frame_f32_def ma_biquad_process_pcm_frame_f32_def Let_def)

definition lpf_wf :: "'k ma_lpf \<Rightarrow> bool" where
  "lpf_wf lpf \<longleftrightarrow> (\<forall>f \<in> set (pLPF1 lpf). l1_channels f = lpf_channels lpf) \<and> (\<forall>f \<in> set (pLPF2 lpf). bq_channels f = lpf_channels lpf)"

lemma lpf_in_place_eq:
  fixes step1 :: "'k ma_lpf1 \<Rightarrow> 's list \<Rightarrow> ('s list \<times> 'k ma_lpf1) option"
  assumes "frame_filter step1 l1_channels" "frame_filter step2 bq_channels" "lpf_wf lpf" "frameCount < 2 ^ 32"
    and "length xs = unat frameCount * unat (lpf_channels lpf)" "length out = length xs"
  shows "lpf_in_place (\<lambda>pF pOut pIn n. process_checked (\<lambda>f pX. frames_loop step1 (unat (l1_channels f)) n 0 pX f) pF pOut pIn)
      (\<lambda>pF pOut pIn n. process_checked (\<lambda>f pX. frames_loop step2 (unat (bq_channels f)) n 0 pX f) pF pOut pIn)
      (Some lpf) (Some xs) frameCount =
    map_option (\<lambda>(r, ys, f). (r, Some ys, f)) (lpf_copy (\<lambda>lpf pX. do {
       (y, fs1) \<leftarrow> chain step1 (pLPF1 lpf) pX;
       (z, fs2) \<leftarrow> chain step2 (pLPF2 lpf) y;
       Some (z, lpf\<lparr>pLPF1 := fs1, pLPF2 := fs2\<rparr>)
     }) (Some lpf) out xs frameCount)"
proof -
  let ?n = "unat frameCount" and ?ch = "unat (lpf_channels lpf)"
  let ?xs = "frames_of ?ch ?n xs"
  let ?step = "\<lambda>lpf pX. do { (y, fs1) \<leftarrow> chain step1 (pLPF1 lpf) pX; (z, fs2) \<leftarrow> chain step2 (pLPF2 lpf) y;
       Some (z, lpf\<lparr>pLPF1 := fs1, pLPF2 := fs2\<rparr>) }"
  let ?seq = "\<lambda>(f, g) x. do { (y, f) \<leftarrow> chain step1 f x; (z, g) \<leftarrow> chain step2 g y; Some (z, (f, g)) }"
  let ?h = "\<lambda>(fs1, fs2). lpf\<lparr>pLPF1 := fs1, pLPF2 := fs2\<rparr>"
  have wf: "\<forall>f \<in> set (pLPF1 lpf). l1_channels f = lpf_channels lpf" "\<forall>f \<in> set (pLPF2 lpf). bq_channels f = lpf_channels lpf"
    using assms(3) by (simp_all add: lpf_wf_def)
  have "run_frames ?step ?xs (?h (pLPF1 lpf, pLPF2 lpf)) = map_option (map_prod id ?h) (run_frames ?seq ?xs (pLPF1 lpf, pLPF2 lpf))"
    by (rule run_frames_map) (auto split: Option.bind_splits)
  moreover have "?h (pLPF1 lpf, pLPF2 lpf) = lpf" by simp
  ultimately have run: "run_frames ?step ?xs lpf = map_option (map_prod id ?h)
      (do { (ys, f) \<leftarrow> cascade_run step1 (pLPF1 lpf) ?xs; (zs, g) \<leftarrow> cascade_run step2 (pLPF2 lpf) ys; Some (zs, (f, g)) })"
    by (simp only: run_frames_seq run_chain)
  have loop: "frames_loop ?step ?ch frameCount 0 xs lpf = map_option (\<lambda>(yss, f). (concat yss, f)) (run_frames ?step ?xs lpf)"
    using frames_loop_run [OF assms(4), of 0 ?step ?ch xs lpf] by simp
  note first = frame_filter.cascade_eq [OF assms(1,4) wf(1), of xs]
  show ?thesis
  proof (cases "cascade_run step1 (pLPF1 lpf) ?xs")
    case None
    then show ?thesis using first assms(5) run loop by (simp add: lpf_in_place_def lpf_copy_def)
  next
    case (Some p)
    obtain yss fs1 where p: "p = (yss, fs1)" by (cases p)
    have in_len: "\<forall>x \<in> set ?xs. length x = ?ch" using frames_of_length [of ?n ?ch xs] assms(5) by auto
    have y: "\<forall>y \<in> set yss. length y = ?ch" "length yss = ?n"
      using frame_filter.cascade_run_frame [OF assms(1) Some [unfolded p] wf(1) in_len] by simp_all
    then have ly: "length (concat yss) = ?n * ?ch" using length_concat_frames [OF y(1)] by simp
    have "frames_of ?ch ?n (concat yss) = yss" using frames_of_concat [OF y(1), of "[]"] y(2) by simp
    then have second: "cascade (\<lambda>pF pOut pIn n. process_checked (\<lambda>f pX. frames_loop step2 (unat (bq_channels f)) n 0 pX f) pF pOut pIn)
        frameCount (pLPF2 lpf) (Some (concat yss)) =
      map_option (\<lambda>(zss, fs). (MA_SUCCESS, Some (concat zss), fs)) (cascade_run step2 (pLPF2 lpf) yss)"
      using frame_filter.cascade_eq [OF assms(2,4) wf(2), of "concat yss"] ly by simp
    show ?thesis
    proof (cases "cascade_run step2 (pLPF2 lpf) yss")
      case None
      then show ?thesis using first second Some p assms(5) run loop by (simp add: lpf_in_place_def lpf_copy_def)
    next
      case two: (Some q)
      obtain zss fs2 where q: "q = (zss, fs2)" by (cases q)
      have z: "\<forall>y \<in> set zss. length y = ?ch" "length zss = ?n"
        using frame_filter.cascade_run_frame [OF assms(2) two [unfolded q] wf(2) y(1)] y(2) by simp_all
      then have "length (concat zss) = length out" using length_concat_frames [OF z(1)] assms(5,6) by simp
      then show ?thesis
        using first second Some p two q assms(5) run loop by (simp add: lpf_in_place_def lpf_copy_def)
    qed
  qed
qed

section \<open>Setting up\<close>

lemma set_up_all2:
  assumes "\<And>k f r. init k f = Some (MA_SUCCESS, r) \<Longrightarrow> \<exists>g. r = Some g \<and> R f g"
  shows "set_up init i fs = Some (MA_SUCCESS, gs) \<Longrightarrow> list_all2 R fs gs"
proof (induction fs arbitrary: i gs)
  case (Cons f fs)
  obtain r f' where rf: "init i f = Some (r, f')" using Cons.prems by (cases "init i f") auto
  then have r: "r = MA_SUCCESS" using Cons.prems by (auto simp: Let_def split: if_splits)
  obtain g where g: "f' = Some g" "R f g" using assms rf r by blast
  show ?case using Cons.prems rf r g Cons.IH by auto
qed simp

text \<open>A filter that has been set up: its channels, and its caches either cleared or kept.\<close>

lemma lpf1_reinit_success:
  "ma_lpf1_reinit m coef (Some cfg) (Some f) = Some (MA_SUCCESS, r) \<Longrightarrow>
   \<exists>g. r = Some g \<and> l1_channels g = l_channels cfg \<and> l1_R1 g = l1_R1 f"
  by (auto simp: ma_lpf1_reinit_def Let_def split: if_splits)

lemma biquad_reinit_success:
  "ma_biquad_reinit coef (Some cfg) (Some f) = Some (MA_SUCCESS, r) \<Longrightarrow>
   \<exists>g. r = Some g \<and> bq_channels g = cfg_channels cfg \<and> pR1 g = pR1 f \<and> pR2 g = pR2 f"
  by (auto simp: ma_biquad_reinit_def bind_eq_Some_conv split: if_splits)

lemma lpf1_init_success:
  "ma_lpf1_init_preallocated m z coef (Some cfg) (Some f) = Some (MA_SUCCESS, r) \<Longrightarrow>
   \<exists>g. r = Some g \<and> l1_channels g = l_channels cfg \<and> l1_R1 g = replicate (unat (l_channels cfg)) z"
  by (auto simp: ma_lpf1_init_preallocated_def fresh_lpf1_def split: if_splits dest!: lpf1_reinit_success)

lemma lpf2_channels [simp]: "cfg_channels (ma_lpf2__get_biquad_config m cfg) = l_channels cfg"
  by (simp add: ma_lpf2__get_biquad_config_def Let_def)

lemma lpf2_init_success:
  "ma_lpf2_init_preallocated m z coef (Some cfg) (Some f) = Some (MA_SUCCESS, r) \<Longrightarrow>
   \<exists>g. r = Some g \<and> bq_channels g = l_channels cfg \<and> pR1 g = replicate (unat (l_channels cfg)) z \<and>
     pR2 g = replicate (unat (l_channels cfg)) z"
  by (auto simp: ma_lpf2_init_preallocated_def ma_biquad_init_preallocated_def fresh_biquad_def
      split: if_splits dest!: biquad_reinit_success)

lemma lpf2_reinit_success:
  "ma_lpf2_reinit m coef (Some cfg) (Some f) = Some (MA_SUCCESS, r) \<Longrightarrow>
   \<exists>g. r = Some g \<and> bq_channels g = l_channels cfg \<and> pR1 g = pR1 f \<and> pR2 g = pR2 f"
  by (auto simp: ma_lpf2_reinit_def dest!: biquad_reinit_success)

lemma config_channels [simp]:
  "l_channels (ma_lpf1_config_init fmt ch rate cutoff) = ch" "l_channels (ma_lpf2_config_init fmt ch rate cutoff q) = ch"
  by (simp_all add: ma_lpf1_config_init_def ma_lpf2_config_init_def)

lemma set_up_chain_success:
  "set_up_chain m z coef cfg isNew lpf = Some (MA_SUCCESS, lpf') \<Longrightarrow>
   lpf_channels lpf' = c_channels cfg \<and>
   set_up (set_up_lpf1 m z coef cfg isNew) 0 (pLPF1 lpf) = Some (MA_SUCCESS, pLPF1 lpf') \<and>
   set_up (set_up_lpf2 m z coef cfg isNew) 0 (pLPF2 lpf) = Some (MA_SUCCESS, pLPF2 lpf')"
  by (auto simp: set_up_chain_def split: Option.bind_split_asm if_split_asm)

lemma lpf_internal_success:
  assumes "ma_lpf_reinit__internal m z coef (Some cfg) (Some old) isNew = Some (MA_SUCCESS, Some lpf)"
  shows "c_order cfg \<le> 8 \<and>
    set_up_chain m z coef cfg isNew (if isNew then old\<lparr>pLPF1 := replicate (unat (c_order cfg mod 2)) (fresh_lpf1 z []),
      pLPF2 := replicate (unat (c_order cfg div 2)) (fresh_biquad z [])\<rparr> else old) = Some (MA_SUCCESS, lpf)"
  using assms
  by (simp add: ma_lpf_reinit__internal_def ma_lpf_calculate_sub_lpf_counts_def MA_MAX_FILTER_ORDER_def not_less
      del: map_option_eq_Some split: if_split_asm) (auto)

lemma order_parts: "of_nat (unat (n div 2)) * 2 + of_nat (unat (n mod 2)) = (n :: u32)"
  using div_mult_mod_eq [of n 2] by simp

section \<open>Properties\<close>

text \<open>C28: Filtering a block of 16-bit samples in place gives what filtering it into another buffer gives. In place, each filter
  of the chain runs over the whole block before the next one; into another buffer, each frame runs
  through all filters before the next frame. For fewer than \<open>2 ^ 32\<close> frames both return the same samples
  and leave the caches of all filters the same (and one is undefined exactly when the other is).\<close>

theorem lpf_in_place_is_copy:
  assumes "lpf_wf lpf" "frameCount < 2 ^ 32" "length xs = unat frameCount * unat (lpf_channels lpf)" "length out = length xs"
  shows "ma_lpf_process_pcm_frames_s16_in_place (Some lpf) (Some xs) frameCount =
    map_option (\<lambda>(r, ys, f). (r, Some ys, f)) (ma_lpf_process_pcm_frames_s16 (Some lpf) out xs frameCount)"
  using lpf_in_place_eq [OF lpf1_s16.frame_filter_axioms lpf2_s16.frame_filter_axioms assms]
  unfolding ma_lpf_process_pcm_frames_s16_in_place_def ma_lpf_process_pcm_frames_s16_def
    ma_lpf1_process_pcm_frames_s16_def [abs_def] ma_lpf2_process_pcm_frames_s16_def [abs_def]
    ma_biquad_process_pcm_frames_s16_def ma_lpf_process_pcm_frame_s16_def [abs_def]
    ma_lpf2_process_pcm_frame_s16_def .

text \<open>The first-order filter on 16-bit samples never overflows and never overshoots: with a coefficient from
  0 to 1, if its cached samples and all the samples of any number of frames lie between two bounds, the
  filter is defined on all of them and every sample it returns lies between the same bounds.\<close>

theorem lpf1_never_overshoots:
  assumes "0 \<le> sint (l1_a f)" "sint (l1_a f) \<le> 16384" "- 32768 \<le> lo" "hi \<le> 32767"
    and "length (l1_R1 f) = unat (l1_channels f)" "\<forall>r \<in> set (l1_R1 f). lo \<le> sint r \<and> sint r \<le> hi"
    and "\<forall>x \<in> set xs. length x = unat (l1_channels f) \<and> (\<forall>s \<in> set x. lo \<le> sint s \<and> sint s \<le> hi)"
  shows "\<exists>ys f'. run_frames ma_lpf1_process_pcm_frame_s16 xs f = Some (ys, f') \<and> length ys = length xs \<and>
    (\<forall>y \<in> set ys. length y = unat (l1_channels f) \<and> (\<forall>s \<in> set y. lo \<le> sint s \<and> sint s \<le> hi))"
  using assms
proof (induction xs arbitrary: f)
  case (Cons x xs)
  let ?n = "unat (l1_channels f)"
  have "\<exists>y. lpf1_sample_s16 (l1_a f) (l1_R1 f ! c) (x ! c) = Some y \<and> lo \<le> sint y \<and> sint y \<le> hi" if "c < ?n" for c
    using that Cons.prems(1-7) by (intro lpf1_sample_between) auto
  then obtain g where g: "\<And>c. c < ?n \<Longrightarrow> lpf1_sample_s16 (l1_a f) (l1_R1 f ! c) (x ! c) = Some (g c) \<and> lo \<le> sint (g c) \<and> sint (g c) \<le> hi"
    by metis
  have t: "those (map (\<lambda>c. lpf1_sample_s16 (l1_a f) (l1_R1 f ! c) (x ! c)) [0..<?n]) = Some (map g [0..<?n])"
    by (rule those_map_Some) (use g in auto)
  let ?f = "f\<lparr>l1_R1 := map g [0..<?n]\<rparr>"
  have u: "sint (ucast (g c) :: i16) = sint (g c)" if "c < ?n" for c
  proof -
    obtain k where k: "sint (g c) = k" by simp
    show ?thesis unfolding narrow_i32 k using g [OF that] Cons.prems(3,4) k by (intro sint16_of_int) auto
  qed
  obtain ys f' where "run_frames ma_lpf1_process_pcm_frame_s16 xs ?f = Some (ys, f')" "length ys = length xs"
      "\<forall>y \<in> set ys. length y = ?n \<and> (\<forall>s \<in> set y. lo \<le> sint s \<and> sint s \<le> hi)"
    using Cons.IH [of ?f] Cons.prems g by auto
  moreover have "ma_lpf1_process_pcm_frame_s16 f x = Some (map (\<lambda>c. ucast (g c)) [0..<?n], ?f)"
    unfolding ma_lpf1_process_pcm_frame_s16_def t by (simp add: comp_def)
  ultimately show ?case using g u by auto
qed simp

text \<open>Clearing the caches of a chain of filters does not clear them. A first-order filter keeps its cached
  samples and loses its coefficient instead, so that from then on it passes every frame on unfiltered; a
  second-order filter clears the caches of its first channel only.\<close>

theorem lpf_clear_cache_wrong:
  assumes "ma_lpf_clear_cache 0 (Some lpf) = (r, Some lpf')" "i < length (pLPF1 lpf)" "j < length (pLPF2 lpf)"
    and "length x = unat (l1_channels (pLPF1 lpf ! i))"
  shows "l1_R1 (pLPF1 lpf' ! i) = l1_R1 (pLPF1 lpf ! i) \<and>
    map_option fst (ma_lpf1_process_pcm_frame_s16 (pLPF1 lpf' ! i) x) = Some x \<and>
    (\<forall>c > 0. pR1 (pLPF2 lpf' ! j) ! c = pR1 (pLPF2 lpf ! j) ! c \<and> pR2 (pLPF2 lpf' ! j) ! c = pR2 (pLPF2 lpf ! j) ! c)"
proof -
  have lpf': "pLPF1 lpf' ! i = (pLPF1 lpf ! i)\<lparr>l1_a := 0\<rparr>"
      "pLPF2 lpf' ! j = (pLPF2 lpf ! j)\<lparr>pR1 := (pR1 (pLPF2 lpf ! j))[0 := 0], pR2 := (pR2 (pLPF2 lpf ! j))[0 := 0]\<rparr>"
    using assms(1-3) by (auto simp: ma_lpf_clear_cache_def ma_lpf1_clear_cache_def ma_lpf2_clear_cache_def ma_biquad_clear_cache_def)
  have pass: "lpf1_sample_s16 0 r1 s = Some (scast s)" for r1 s
  proof -
    have "sint (0 :: i32) = 0" "- 32768 \<le> sint s" "sint s \<le> 32767" using sint16_bounds [of s] by simp_all
    obtain k j where k: "sint s = k" "sint r1 = j" by simp
    have kb: "- 32768 \<le> k" "k \<le> 32767" using sint16_bounds [of s] k by simp_all
    have sk: "(scast s :: i32) = word_of_int k" unfolding k(1) [symmetric] by (rule scast_i16)
    have x: "sint (scast s :: i32) = k" unfolding sk using kb by (intro sint_word_of_int32) auto
    have one: "sint (16384 :: i32) = 16384" "sint (0 :: i32) = 0" by simp_all
    have b: "sub32 16384 0 = Some 16384" using ops32(2) [OF one] by simp
    have bx: "mul32 16384 (scast s) = Some (word_of_int (16384 * k))" using kb by (intro ops32(3) [OF one(1) x]) auto
    have ar: "mul32 0 r1 = Some 0" using ops32(3) [OF one(2) k(2)] by simp
    have m: "sint (word_of_int (16384 * k) :: i32) = 16384 * k" using kb by (intro sint_word_of_int32) auto
    have sum: "add32 (word_of_int (16384 * k)) 0 = Some (word_of_int (16384 * k))" using kb ops32(1) [OF m one(2)] by simp
    have "sint (signed_drop_bit 14 (word_of_int (16384 * k)) :: i32) = k" unfolding sint_shift14 m by simp
    then have "signed_drop_bit 14 (word_of_int (16384 * k)) = (scast s :: i32)" unfolding sk by (rule sint_eq_int)
    then show ?thesis unfolding lpf1_sample_s16_def b bind.bind_lunit bx ar sum by simp
  qed
  have "map (\<lambda>c. scast (x ! c) :: i32) [0..<length x] = map scast x" by (rule nth_equalityI) simp_all
  then have "those (map (\<lambda>c. lpf1_sample_s16 0 (l1_R1 (pLPF1 lpf ! i) ! c) (x ! c)) [0..<length x]) = Some (map scast x)"
    using those_map_Some [of "[0..<length x]" "\<lambda>c. lpf1_sample_s16 0 (l1_R1 (pLPF1 lpf ! i) ! c) (x ! c)" "\<lambda>c. scast (x ! c)"] pass
    by simp
  then show ?thesis
    unfolding lpf' using assms(4) by (simp add: ma_lpf1_process_pcm_frame_s16_def comp_def narrow_wide)
qed

text \<open>Setting up a low-pass filter. A new filter of order \<open>n\<close> is a chain of \<open>n mod 2\<close> first-order and \<open>n div 2\<close>
  second-order filters, all with the configured channels and with every cached sample 0, and its latency
  is \<open>n\<close> frames; setting a filter up again for another rate keeps its chain and every cached sample.\<close>

theorem lpf_set_up:
  "(ma_lpf_init_preallocated m z coef (Some cfg) (Some old) = Some (MA_SUCCESS, Some lpf) \<longrightarrow>
      lpf_wf lpf \<and> lpf_channels lpf = c_channels cfg \<and> c_order cfg \<le> 8 \<and>
      length (pLPF1 lpf) = unat (c_order cfg mod 2) \<and> length (pLPF2 lpf) = unat (c_order cfg div 2) \<and>
      ma_lpf_get_latency (Some lpf) = c_order cfg \<and>
      (\<forall>f \<in> set (pLPF1 lpf). l1_R1 f = replicate (unat (c_channels cfg)) z) \<and>
      (\<forall>f \<in> set (pLPF2 lpf). pR1 f = replicate (unat (c_channels cfg)) z \<and> pR2 f = replicate (unat (c_channels cfg)) z)) \<and>
   (ma_lpf_reinit m z coef (Some cfg) (Some old) = Some (MA_SUCCESS, Some lpf) \<longrightarrow>
      lpf_wf lpf \<and> lpf_channels lpf = c_channels cfg \<and>
      list_all2 (\<lambda>f g. l1_R1 g = l1_R1 f) (pLPF1 old) (pLPF1 lpf) \<and>
      list_all2 (\<lambda>f g. pR1 g = pR1 f \<and> pR2 g = pR2 f) (pLPF2 old) (pLPF2 lpf))"
proof (rule conjI; rule impI)
  assume "ma_lpf_init_preallocated m z coef (Some cfg) (Some old) = Some (MA_SUCCESS, Some lpf)"
  then have n: "c_order cfg \<le> 8" "lpf_channels lpf = c_channels cfg"
    and s1: "set_up (set_up_lpf1 m z coef cfg True) 0 (replicate (unat (c_order cfg mod 2)) (fresh_lpf1 z [])) = Some (MA_SUCCESS, pLPF1 lpf)"
    and s2: "set_up (set_up_lpf2 m z coef cfg True) 0 (replicate (unat (c_order cfg div 2)) (fresh_biquad z [])) = Some (MA_SUCCESS, pLPF2 lpf)"
    unfolding ma_lpf_init_preallocated_def by (auto dest!: lpf_internal_success set_up_chain_success)
  let ?ch = "unat (c_channels cfg)"
  have a1: "list_all2 (\<lambda>_ g. l1_channels g = c_channels cfg \<and> l1_R1 g = replicate ?ch z)
      (replicate (unat (c_order cfg mod 2)) (fresh_lpf1 z [])) (pLPF1 lpf)"
    by (rule set_up_all2 [OF _ s1]) (auto simp: set_up_lpf1_def dest!: lpf1_init_success)
  have a2: "list_all2 (\<lambda>_ g. bq_channels g = c_channels cfg \<and> pR1 g = replicate ?ch z \<and> pR2 g = replicate ?ch z)
      (replicate (unat (c_order cfg div 2)) (fresh_biquad z [])) (pLPF2 lpf)"
    by (rule set_up_all2 [OF _ s2]) (auto simp: set_up_lpf2_def dest!: lpf2_init_success)
  have l: "length (pLPF1 lpf) = unat (c_order cfg mod 2)" "length (pLPF2 lpf) = unat (c_order cfg div 2)"
    using list_all2_lengthD [OF a1] list_all2_lengthD [OF a2] by simp_all
  show "lpf_wf lpf \<and> lpf_channels lpf = c_channels cfg \<and> c_order cfg \<le> 8 \<and>
      length (pLPF1 lpf) = unat (c_order cfg mod 2) \<and> length (pLPF2 lpf) = unat (c_order cfg div 2) \<and>
      ma_lpf_get_latency (Some lpf) = c_order cfg \<and>
      (\<forall>f \<in> set (pLPF1 lpf). l1_R1 f = replicate ?ch z) \<and>
      (\<forall>f \<in> set (pLPF2 lpf). pR1 f = replicate ?ch z \<and> pR2 f = replicate ?ch z)"
    using a1 a2 l n order_parts [of "c_order cfg"]
    by (auto simp: lpf_wf_def list_all2_conv_all_nth in_set_conv_nth ma_lpf_get_latency_def)
next
  assume "ma_lpf_reinit m z coef (Some cfg) (Some old) = Some (MA_SUCCESS, Some lpf)"
  then have n: "lpf_channels lpf = c_channels cfg"
    and s1: "set_up (set_up_lpf1 m z coef cfg False) 0 (pLPF1 old) = Some (MA_SUCCESS, pLPF1 lpf)"
    and s2: "set_up (set_up_lpf2 m z coef cfg False) 0 (pLPF2 old) = Some (MA_SUCCESS, pLPF2 lpf)"
    unfolding ma_lpf_reinit_def by (auto dest!: lpf_internal_success set_up_chain_success)
  have a1: "list_all2 (\<lambda>f g. l1_channels g = c_channels cfg \<and> l1_R1 g = l1_R1 f) (pLPF1 old) (pLPF1 lpf)"
    by (rule set_up_all2 [OF _ s1]) (auto simp: set_up_lpf1_def dest!: lpf1_reinit_success)
  have a2: "list_all2 (\<lambda>f g. bq_channels g = c_channels cfg \<and> pR1 g = pR1 f \<and> pR2 g = pR2 f) (pLPF2 old) (pLPF2 lpf)"
    by (rule set_up_all2 [OF _ s2]) (auto simp: set_up_lpf2_def dest!: lpf2_reinit_success)
  show "lpf_wf lpf \<and> lpf_channels lpf = c_channels cfg \<and> list_all2 (\<lambda>f g. l1_R1 g = l1_R1 f) (pLPF1 old) (pLPF1 lpf) \<and>
      list_all2 (\<lambda>f g. pR1 g = pR1 f \<and> pR2 g = pR2 f) (pLPF2 old) (pLPF2 lpf)"
    using a1 a2 n by (auto simp: lpf_wf_def list_all2_conv_all_nth in_set_conv_nth)
qed

section \<open>Examples\<close>

text \<open>A third-order chain on two channels that has filtered some frames.\<close>

definition used_lpf :: "i32 ma_lpf" where
  "used_lpf = \<lparr>lpf_format = ma_format_s16, lpf_channels = 2, lpf_sampleRate = 48000,
     pLPF1 = [\<lparr>l1_format = ma_format_s16, l1_channels = 2, l1_a = 8192, l1_R1 = [100, 200]\<rparr>],
     pLPF2 = [\<lparr>bq_format = ma_format_s16, bq_channels = 2, bq_b0 = 4096, bq_b1 = 8192, bq_b2 = 4096, bq_a1 = 0, bq_a2 = 0, pR1 = [10, 20], pR2 = [30, 40]\<rparr>]\<rparr>"

lemma lpf_in_place_is_copy_witness:
  "ma_lpf_process_pcm_frames_s16_in_place (Some used_lpf) (Some [1, 2, 3, 4]) 2 =
    map_option (\<lambda>(r, ys, f). (r, Some ys, f)) (ma_lpf_process_pcm_frames_s16 (Some used_lpf) [0, 0, 0, 0] [1, 2, 3, 4] 2)"
  by (rule lpf_in_place_is_copy) (simp_all add: used_lpf_def lpf_wf_def)

lemma lpf1_never_overshoots_witness:
  "\<exists>ys f'. run_frames ma_lpf1_process_pcm_frame_s16 [[150, 170], [120, 110]] (hd (pLPF1 used_lpf)) = Some (ys, f') \<and> length ys = 2 \<and>
    (\<forall>y \<in> set ys. \<forall>s \<in> set y. 100 \<le> sint s \<and> sint s \<le> 200)"
  using lpf1_never_overshoots [of "hd (pLPF1 used_lpf)" 100 200 "[[150, 170], [120, 110]]"] by (auto simp: used_lpf_def)

lemma lpf_clear_cache_wrong_witness:
  "\<exists>lpf'. ma_lpf_clear_cache 0 (Some used_lpf) = (MA_SUCCESS, Some lpf') \<and> l1_R1 (pLPF1 lpf' ! 0) = [100, 200] \<and>
    map_option fst (ma_lpf1_process_pcm_frame_s16 (pLPF1 lpf' ! 0) [7, 9]) = Some [7, 9] \<and> pR1 (pLPF2 lpf' ! 0) ! 1 = 20"
proof -
  obtain lpf' where c: "ma_lpf_clear_cache 0 (Some used_lpf) = (MA_SUCCESS, Some lpf')" by (simp add: ma_lpf_clear_cache_def)
  have "0 < length (pLPF1 used_lpf)" "0 < length (pLPF2 used_lpf)" "length [7, 9 :: i16] = unat (l1_channels (pLPF1 used_lpf ! 0))"
    by (simp_all add: used_lpf_def)
  then show ?thesis using lpf_clear_cache_wrong [OF c, of 0 0 "[7, 9]"] c by (auto simp: used_lpf_def)
qed

end
