(* ===== verification/Ma_Resample.thy ===== *)
theory Ma_Resample
  imports Ma_Lpf
begin

text \<open>
  The linear resampler of miniaudio (\<open>ma_linear_resampler\<close> in \<open>client/native/miniaudio.h\<close>). The time of the
  next output frame is kept as a whole number of input frames still to be loaded and a fraction in units
  of the output rate. The 16-bit and the floating-point versions of the code differ in the interpolation,
  the zero and the filter of a frame, which are the record \<open>resample_ops\<close>. Frames that are not there
  (a null input) are zero; with a null output nothing is written. \<open>None\<close> is undefined behaviour or a
  failed assertion.
\<close>

section \<open>State\<close>

record resampler_config =
  rc_format :: ma_format
  rc_channels :: u32
  sampleRateIn :: u32
  sampleRateOut :: u32
  rc_lpfOrder :: u32
  lpfNyquistFactor :: f64

record ('s, 'k) ma_linear_resampler =
  rs_config :: resampler_config
  inAdvanceInt :: u32
  inAdvanceFrac :: u32
  inTimeInt :: u32
  inTimeFrac :: u32
  rs_x0 :: "'s list"
  rs_x1 :: "'s list"
  rs_lpf :: "'k ma_lpf"

record ('s, 'k) resample_ops =
  ro_zero :: 's
  ro_coef_zero :: 'k
  ro_coef :: "f64 \<Rightarrow> 'k option"
  ro_interpolate :: "u32 \<Rightarrow> u32 \<Rightarrow> 's \<Rightarrow> 's \<Rightarrow> 's option"
  ro_filter :: "'k ma_lpf \<Rightarrow> 's list \<Rightarrow> ('s list \<times> 'k ma_lpf) option"

definition ma_linear_resampler_config_init :: "ma_format \<Rightarrow> u32 \<Rightarrow> u32 \<Rightarrow> u32 \<Rightarrow> resampler_config" where
  "ma_linear_resampler_config_init fmt channels rateIn rateOut =
     \<lparr>rc_format = fmt, rc_channels = channels, sampleRateIn = rateIn, sampleRateOut = rateOut,
      rc_lpfOrder = min 4 MA_MAX_FILTER_ORDER, lpfNyquistFactor = Fin 1\<rparr>"

abbreviation rateIn :: "('s, 'k) ma_linear_resampler \<Rightarrow> u32" where "rateIn r \<equiv> sampleRateIn (rs_config r)"
abbreviation rateOut :: "('s, 'k) ma_linear_resampler \<Rightarrow> u32" where "rateOut r \<equiv> sampleRateOut (rs_config r)"
abbreviation rs_channels :: "('s, 'k) ma_linear_resampler \<Rightarrow> nat" where "rs_channels r \<equiv> unat (rc_channels (rs_config r))"

section \<open>Rates\<close>

function ma_gcf_u32 :: "u32 \<Rightarrow> u32 \<Rightarrow> u32" where
  "ma_gcf_u32 a b = (if b = 0 then a else ma_gcf_u32 b (a mod b))"
  by pat_completeness auto
termination
  by (relation "measure (\<lambda>(a, b). unat b)") (auto simp: word_neq_0_conv word_less_nat_alt unat_mod)

declare ma_gcf_u32.simps [simp del]

definition ma_linear_resampler_adjust_timer_for_new_rate ::
    "u32 \<Rightarrow> u32 \<Rightarrow> ('s, 'k) ma_linear_resampler \<Rightarrow> ('s, 'k) ma_linear_resampler" where
  "ma_linear_resampler_adjust_timer_for_new_rate oldSampleRateOut newSampleRateOut r =
     (let oldRateTimeWhole = inTimeFrac r div oldSampleRateOut;
          oldRateTimeFract = inTimeFrac r mod oldSampleRateOut;
          frac = oldRateTimeWhole * newSampleRateOut + oldRateTimeFract * newSampleRateOut div oldSampleRateOut
      in r\<lparr>inTimeInt := inTimeInt r + frac div rateOut r, inTimeFrac := frac mod rateOut r\<rparr>)"

definition ma_linear_resampler_set_rate_internal ::
    "libm \<Rightarrow> ('s, 'k) resample_ops \<Rightarrow> u32 \<Rightarrow> u32 \<Rightarrow> bool \<Rightarrow> ('s, 'k) ma_linear_resampler option
      \<Rightarrow> (ma_result \<times> ('s, 'k) ma_linear_resampler option) option" where
  "ma_linear_resampler_set_rate_internal m ops newIn newOut isResamplerAlreadyInitialized pResampler =
     (case pResampler of
        None \<Rightarrow> Some (MA_INVALID_ARGS, None)
      | Some r \<Rightarrow>
          if newIn = 0 \<or> newOut = 0 then Some (MA_INVALID_ARGS, pResampler)
          else
            let oldSampleRateOut = rateOut r;
                gcf = ma_gcf_u32 newIn newOut;
                cfg = (rs_config r)\<lparr>sampleRateIn := newIn div gcf, sampleRateOut := newOut div gcf\<rparr>;
                r = r\<lparr>rs_config := cfg\<rparr>
            in if MA_MAX_FILTER_ORDER < rc_lpfOrder cfg then Some (MA_INVALID_ARGS, Some r)
               else
                 let lpfSampleRate = max (sampleRateIn cfg) (sampleRateOut cfg);
                     cutoff = fp_mul f64 (fp_mul f64 (of_u32 (min (sampleRateIn cfg) (sampleRateOut cfg))) (Fin (1 / 2))) (lpfNyquistFactor cfg);
                     lpfConfig = ma_lpf_config_init (rc_format cfg) (rc_channels cfg) lpfSampleRate cutoff (rc_lpfOrder cfg)
                 in case (if isResamplerAlreadyInitialized
                       then ma_lpf_reinit m (ro_coef_zero ops) (ro_coef ops) (Some lpfConfig) (Some (rs_lpf r))
                       else ma_lpf_init_preallocated m (ro_coef_zero ops) (ro_coef ops) (Some lpfConfig) (Some (rs_lpf r))) of
                     None \<Rightarrow> None
                   | Some (result, lpf) \<Rightarrow>
                       let r = r\<lparr>rs_lpf := (case lpf of None \<Rightarrow> rs_lpf r | Some l \<Rightarrow> l)\<rparr> in
                       if result \<noteq> MA_SUCCESS then Some (result, Some r)
                       else Some (MA_SUCCESS, Some (ma_linear_resampler_adjust_timer_for_new_rate oldSampleRateOut (rateOut r)
                         (r\<lparr>inAdvanceInt := rateIn r div rateOut r, inAdvanceFrac := rateIn r mod rateOut r\<rparr>))))"

text \<open>\<open>old\<close> is the memory of the filter before it is set up, all zero.\<close>

definition ma_linear_resampler_init_preallocated ::
    "libm \<Rightarrow> ('s, 'k) resample_ops \<Rightarrow> resampler_config option \<Rightarrow> ('s, 'k) ma_linear_resampler option
      \<Rightarrow> (ma_result \<times> ('s, 'k) ma_linear_resampler option) option" where
  "ma_linear_resampler_init_preallocated m ops pConfig pResampler =
     (case pResampler of
        None \<Rightarrow> Some (MA_INVALID_ARGS, None)
      | Some _ \<Rightarrow>
          (case pConfig of
             None \<Rightarrow> Some (MA_INVALID_ARGS, None)
           | Some cfg \<Rightarrow>
               if rc_format cfg \<noteq> ma_format_f32 \<and> rc_format cfg \<noteq> ma_format_s16 then Some (MA_INVALID_ARGS, None)
               else if rc_channels cfg = 0 then Some (MA_INVALID_ARGS, None)
               else
                 let zeros = replicate (unat (rc_channels cfg)) (ro_zero ops);
                     r = \<lparr>rs_config = cfg, inAdvanceInt = 0, inAdvanceFrac = 0, inTimeInt = 0, inTimeFrac = 0, rs_x0 = zeros, rs_x1 = zeros,
                       rs_lpf = \<lparr>lpf_format = ma_format_unknown, lpf_channels = 0, lpf_sampleRate = 0, pLPF1 = [], pLPF2 = []\<rparr>\<rparr>
                 in (case ma_linear_resampler_set_rate_internal m ops (sampleRateIn cfg) (sampleRateOut cfg) False (Some r) of
                       None \<Rightarrow> None
                     | Some (result, r) \<Rightarrow>
                         Some (result, if result = MA_SUCCESS then map_option (\<lambda>r. r\<lparr>inTimeInt := 1, inTimeFrac := 0\<rparr>) r else r))))"

definition ma_linear_resampler_set_rate ::
    "libm \<Rightarrow> ('s, 'k) resample_ops \<Rightarrow> ('s, 'k) ma_linear_resampler option \<Rightarrow> u32 \<Rightarrow> u32
      \<Rightarrow> (ma_result \<times> ('s, 'k) ma_linear_resampler option) option" where
  "ma_linear_resampler_set_rate m ops pResampler newIn newOut =
     ma_linear_resampler_set_rate_internal m ops newIn newOut True pResampler"

text \<open>\<open>ratioInOut * d\<close> is a product of floats; its cast must fit.\<close>

definition ma_linear_resampler_set_rate_ratio ::
    "libm \<Rightarrow> ('s, 'k) resample_ops \<Rightarrow> ('s, 'k) ma_linear_resampler option \<Rightarrow> f32
      \<Rightarrow> (ma_result \<times> ('s, 'k) ma_linear_resampler option) option" where
  "ma_linear_resampler_set_rate_ratio m ops pResampler ratioInOut =
     (case pResampler of
        None \<Rightarrow> Some (MA_INVALID_ARGS, None)
      | Some _ \<Rightarrow>
          if fp_le ratioInOut (Fin 0) then Some (MA_INVALID_ARGS, pResampler)
          else (case fp_to_int 0 4294967295 (fp_mul f32 ratioInOut (Fin 1000000)) of
                  None \<Rightarrow> None
                | Some n \<Rightarrow>
                    if n = 0 then Some (MA_INVALID_ARGS, pResampler)
                    else ma_linear_resampler_set_rate m ops pResampler (word_of_int n) 1000000))"

section \<open>Interpolation\<close>

definition ma_linear_resampler_mix_s16 :: "i16 \<Rightarrow> i16 \<Rightarrow> i32 \<Rightarrow> i16 option" where
  "ma_linear_resampler_mix_s16 x y a =
     (if 4096 < sint a then None
      else do {
        d \<leftarrow> sub32 4096 a;
        b \<leftarrow> mul32 (scast x) d;
        c \<leftarrow> mul32 (scast y) a;
        r \<leftarrow> add32 b c;
        Some (ucast (signed_drop_bit 12 r))
      })"

definition interpolate_s16 :: "u32 \<Rightarrow> u32 \<Rightarrow> i16 \<Rightarrow> i16 \<Rightarrow> i16 option" where
  "interpolate_s16 timeFrac rate x y =
     (if rate = 0 then None else ma_linear_resampler_mix_s16 x y (push_bit 12 timeFrac div rate))"

definition ma_mix_f32_fast :: "f32 \<Rightarrow> f32 \<Rightarrow> f32 \<Rightarrow> f32" where
  "ma_mix_f32_fast x y a = fp_add f32 x (fp_mul f32 (fp_sub f32 y x) a)"

definition interpolate_f32 :: "u32 \<Rightarrow> u32 \<Rightarrow> f32 \<Rightarrow> f32 \<Rightarrow> f32 option" where
  "interpolate_f32 timeFrac rate x y =
     Some (ma_mix_f32_fast x y (fp_div f32 (f32 (of_int (uint timeFrac))) (f32 (of_int (uint rate)))))"

definition s16_resampling :: "(i16, i32) resample_ops" where
  "s16_resampling = \<lparr>ro_zero = 0, ro_coef_zero = 0, ro_coef = ma_biquad_float_to_fp, ro_interpolate = interpolate_s16,
     ro_filter = ma_lpf_process_pcm_frame_s16\<rparr>"

definition f32_resampling :: "(f32, f32) resample_ops" where
  "f32_resampling = \<lparr>ro_zero = Fin 0, ro_coef_zero = Fin 0, ro_coef = coefficient_f32, ro_interpolate = interpolate_f32,
     ro_filter = ma_lpf_process_pcm_frame_f32\<rparr>"

definition interpolate_frame :: "('s, 'k) resample_ops \<Rightarrow> ('s, 'k) ma_linear_resampler \<Rightarrow> 's list option" where
  "interpolate_frame ops r =
     those (map (\<lambda>c. ro_interpolate ops (inTimeFrac r) (rateOut r) (rs_x0 r ! c) (rs_x1 r ! c)) [0..<rs_channels r])"

section \<open>Processing\<close>

lemma unat_Suc_less: "p < n \<Longrightarrow> unat (p + 1) = Suc (unat p)" for p n :: "'a::len word"
proof -
  assume "p < n"
  then have "Suc (unat p) \<le> unat n" by (simp add: word_less_nat_alt)
  also have "\<dots> < 2 ^ LENGTH('a)" by (rule unsigned_less)
  finally show ?thesis by (simp add: unat_word_ariths)
qed

lemma unat_pred: "0 < x \<Longrightarrow> unat (x - 1) = unat x - 1" for x :: "'a::len word"
  by (simp add: unat_minus_one word_gt_0)

text \<open>The next frame of the input, if it is there.\<close>

definition input_frame :: "('s, 'k) resample_ops \<Rightarrow> nat \<Rightarrow> 's list option \<Rightarrow> 's list option" where
  "input_frame ops ch pIn =
     (case pIn of
        None \<Rightarrow> Some (replicate ch (ro_zero ops))
      | Some xs \<Rightarrow> if length xs < ch then None else Some (take ch xs))"

text \<open>Loading an input frame; when down-sampling it is filtered on the way.\<close>

definition load_frame ::
    "('s, 'k) resample_ops \<Rightarrow> bool \<Rightarrow> 's list option \<Rightarrow> ('s, 'k) ma_linear_resampler \<Rightarrow> ('s, 'k) ma_linear_resampler option" where
  "load_frame ops down pIn r =
     do {
       x \<leftarrow> input_frame ops (rs_channels r) pIn;
       (y, l) \<leftarrow> (if down \<and> rateIn r \<noteq> rateOut r then ro_filter ops (rs_lpf r) x else Some (x, rs_lpf r));
       Some (r\<lparr>rs_x0 := rs_x1 r, rs_x1 := y, rs_lpf := l\<rparr>)
     }"

function load_loop ::
    "('s, 'k) resample_ops \<Rightarrow> bool \<Rightarrow> u64 \<Rightarrow> u64 \<Rightarrow> 's list option \<Rightarrow> ('s, 'k) ma_linear_resampler
      \<Rightarrow> (u64 \<times> 's list option \<times> ('s, 'k) ma_linear_resampler) option" where
  "load_loop ops down frameCountIn processedIn pIn r =
     (if 0 < inTimeInt r \<and> processedIn < frameCountIn then
        (case load_frame ops down pIn r of
           None \<Rightarrow> None
         | Some r' \<Rightarrow> load_loop ops down frameCountIn (processedIn + 1) (map_option (drop (rs_channels r)) pIn)
             (r'\<lparr>inTimeInt := inTimeInt r - 1\<rparr>))
      else Some (processedIn, pIn, r))"
  by pat_completeness auto
termination
  by (relation "measure (\<lambda>(ops, down, n, p, xs, r). unat (inTimeInt r))") (auto simp: unat_pred word_less_nat_alt)

text \<open>The next output frame; when up-sampling it is filtered on the way. The result lists its samples.\<close>

definition emit_frame ::
    "('s, 'k) resample_ops \<Rightarrow> bool \<Rightarrow> bool \<Rightarrow> ('s, 'k) ma_linear_resampler \<Rightarrow> ('s list \<times> ('s, 'k) ma_linear_resampler) option" where
  "emit_frame ops down hasOut r =
     (if \<not> hasOut then Some ([], r)
      else case interpolate_frame ops r of
          None \<Rightarrow> None
        | Some y \<Rightarrow>
            if \<not> down \<and> rateIn r \<noteq> rateOut r then map_option (\<lambda>(z, l). (z, r\<lparr>rs_lpf := l\<rparr>)) (ro_filter ops (rs_lpf r) y)
            else Some (y, r))"

definition advance_time :: "('s, 'k) ma_linear_resampler \<Rightarrow> ('s, 'k) ma_linear_resampler" where
  "advance_time r =
     (let i = inTimeInt r + inAdvanceInt r; f = inTimeFrac r + inAdvanceFrac r
      in if rateOut r \<le> f then r\<lparr>inTimeInt := i + 1, inTimeFrac := f - rateOut r\<rparr> else r\<lparr>inTimeInt := i, inTimeFrac := f\<rparr>)"

function resample_loop ::
    "('s, 'k) resample_ops \<Rightarrow> bool \<Rightarrow> bool \<Rightarrow> u64 \<Rightarrow> u64 \<Rightarrow> u64 \<Rightarrow> u64 \<Rightarrow> 's list option \<Rightarrow> ('s, 'k) ma_linear_resampler
      \<Rightarrow> ('s list \<times> u64 \<times> u64 \<times> ('s, 'k) ma_linear_resampler) option" where
  "resample_loop ops down hasOut frameCountIn frameCountOut processedIn processedOut pIn r =
     (if processedOut < frameCountOut then
        (case load_loop ops down frameCountIn processedIn pIn r of
           None \<Rightarrow> None
         | Some (processedIn, pIn, r) \<Rightarrow>
             if 0 < inTimeInt r then Some ([], processedIn, processedOut, r)
             else (case emit_frame ops down hasOut r of
                     None \<Rightarrow> None
                   | Some (y, r) \<Rightarrow>
                       map_option (\<lambda>(ys, rest). (y @ ys, rest))
                         (resample_loop ops down hasOut frameCountIn frameCountOut processedIn (processedOut + 1) pIn (advance_time r))))
      else Some ([], processedIn, processedOut, r))"
  by pat_completeness auto
termination
  by (relation "measure (\<lambda>(ops, down, h, n, m, p, q, xs, r). unat m - unat q)")
    (auto simp: unat_Suc_less word_less_nat_alt)

declare load_loop.simps [simp del] resample_loop.simps [simp del]

definition ma_linear_resampler_process where
  "ma_linear_resampler_process ops down r pFramesIn frameCountIn hasOut frameCountOut =
     map_option (\<lambda>(ys, i, q, r). (MA_SUCCESS, ys, i, q, Some r))
       (resample_loop ops down hasOut frameCountIn frameCountOut 0 0 pFramesIn r)"

definition ma_linear_resampler_process_pcm_frames_s16_downsample where
  "ma_linear_resampler_process_pcm_frames_s16_downsample = ma_linear_resampler_process s16_resampling True"

definition ma_linear_resampler_process_pcm_frames_s16_upsample where
  "ma_linear_resampler_process_pcm_frames_s16_upsample = ma_linear_resampler_process s16_resampling False"

definition ma_linear_resampler_process_pcm_frames_f32_downsample where
  "ma_linear_resampler_process_pcm_frames_f32_downsample = ma_linear_resampler_process f32_resampling True"

definition ma_linear_resampler_process_pcm_frames_f32_upsample where
  "ma_linear_resampler_process_pcm_frames_f32_upsample = ma_linear_resampler_process f32_resampling False"

definition ma_linear_resampler_process_pcm_frames_s16 where
  "ma_linear_resampler_process_pcm_frames_s16 r =
     (if rateOut r < rateIn r then ma_linear_resampler_process_pcm_frames_s16_downsample r
      else ma_linear_resampler_process_pcm_frames_s16_upsample r)"

definition ma_linear_resampler_process_pcm_frames_f32 where
  "ma_linear_resampler_process_pcm_frames_f32 r =
     (if rateOut r < rateIn r then ma_linear_resampler_process_pcm_frames_f32_downsample r
      else ma_linear_resampler_process_pcm_frames_f32_upsample r)"

text \<open>The entry point for a resampler of the given format (its type is that of the samples).\<close>

definition ma_linear_resampler_process_pcm_frames where
  "ma_linear_resampler_process_pcm_frames fmt process pResampler pFramesIn frameCountIn hasOut frameCountOut =
     (case pResampler of
        None \<Rightarrow> Some (MA_INVALID_ARGS, [], frameCountIn, frameCountOut, None)
      | Some r \<Rightarrow> if rc_format (rs_config r) = fmt then process r pFramesIn frameCountIn hasOut frameCountOut else None)"

section \<open>Counting frames\<close>

definition ma_linear_resampler_get_input_latency :: "('s, 'k) ma_linear_resampler option \<Rightarrow> u64" where
  "ma_linear_resampler_get_input_latency pResampler =
     (case pResampler of None \<Rightarrow> 0 | Some r \<Rightarrow> ucast (1 + ma_lpf_get_latency (Some (rs_lpf r))))"

definition ma_linear_resampler_get_output_latency :: "('s, 'k) ma_linear_resampler option \<Rightarrow> u64" where
  "ma_linear_resampler_get_output_latency pResampler =
     (case pResampler of
        None \<Rightarrow> 0
      | Some r \<Rightarrow> ma_linear_resampler_get_input_latency pResampler * ucast (rateOut r) div ucast (rateIn r))"

definition ma_linear_resampler_get_required_input_frame_count ::
    "('s, 'k) ma_linear_resampler option \<Rightarrow> u64 \<Rightarrow> u64 option \<Rightarrow> ma_result \<times> u64 option" where
  "ma_linear_resampler_get_required_input_frame_count pResampler outputFrameCount pInputFrameCount =
     (case pInputFrameCount of
        None \<Rightarrow> (MA_INVALID_ARGS, None)
      | Some _ \<Rightarrow>
          (case pResampler of
             None \<Rightarrow> (MA_INVALID_ARGS, Some 0)
           | Some r \<Rightarrow>
               if outputFrameCount = 0 then (MA_SUCCESS, Some 0)
               else
                 let n = outputFrameCount - 1
                 in (MA_SUCCESS, Some (ucast (inTimeInt r) + n * ucast (inAdvanceInt r) +
                      (ucast (inTimeFrac r) + n * ucast (inAdvanceFrac r)) div ucast (rateOut r)))))"

definition ma_linear_resampler_get_expected_output_frame_count ::
    "('s, 'k) ma_linear_resampler option \<Rightarrow> u64 \<Rightarrow> u64 option \<Rightarrow> ma_result \<times> u64 option" where
  "ma_linear_resampler_get_expected_output_frame_count pResampler inputFrameCount pOutputFrameCount =
     (case pOutputFrameCount of
        None \<Rightarrow> (MA_INVALID_ARGS, None)
      | Some _ \<Rightarrow>
          (case pResampler of
             None \<Rightarrow> (MA_INVALID_ARGS, Some 0)
           | Some r \<Rightarrow>
               let outputFrameCount = inputFrameCount * ucast (rateOut r) div ucast (rateIn r);
                   fromFrac = (ucast (inTimeFrac r) + outputFrameCount * ucast (inAdvanceFrac r)) div ucast (rateOut r);
                   preliminary = ucast (inTimeInt r) + outputFrameCount * ucast (inAdvanceInt r) + fromFrac
               in (MA_SUCCESS, Some (if preliminary \<le> inputFrameCount then outputFrameCount + 1 else outputFrameCount))))"

definition ma_linear_resampler_reset ::
    "('s, 'k) resample_ops \<Rightarrow> ('s, 'k) ma_linear_resampler option \<Rightarrow> ma_result \<times> ('s, 'k) ma_linear_resampler option" where
  "ma_linear_resampler_reset ops pResampler =
     (case pResampler of
        None \<Rightarrow> (MA_INVALID_ARGS, None)
      | Some r \<Rightarrow>
          let zeros = replicate (rs_channels r) (ro_zero ops)
          in (MA_SUCCESS, Some (r\<lparr>inTimeInt := 1, inTimeFrac := 0, rs_x0 := zeros, rs_x1 := zeros,
                rs_lpf := the (snd (ma_lpf_clear_cache (ro_coef_zero ops) (Some (rs_lpf r))))\<rparr>)))"

end
