(* ===== verification/Ma_Resample_Time.thy ===== *)
theory Ma_Resample_Time
  imports Ma_Resample
begin

text \<open>
  The clock of the linear resampler (\<open>client/native/miniaudio.h\<close>): how many frames a call consumes and
  produces, in exact arithmetic, and what the two functions that predict these numbers return.
\<close>

section \<open>Positions\<close>

text \<open>The position of the next output frame, in units in which an input frame lasts \<open>rateOut\<close> and an
  output frame \<open>rateIn\<close>, counted from the last frame loaded.\<close>

definition pos :: "('s, 'k) ma_linear_resampler \<Rightarrow> nat" where
  "pos r = unat (inTimeInt r) * unat (rateOut r) + unat (inTimeFrac r)"

definition rs_wf :: "('s, 'k) ma_linear_resampler \<Rightarrow> bool" where
  "rs_wf r \<longleftrightarrow> 0 < rateIn r \<and> 0 < rateOut r \<and> unat (rateOut r) \<le> 2 ^ 31 \<and>
     inAdvanceInt r = rateIn r div rateOut r \<and> inAdvanceFrac r = rateIn r mod rateOut r \<and>
     inTimeFrac r < rateOut r"

text \<open>Everything but the time, the frames and the filter stays as it is.\<close>

definition same_clock :: "('s, 'k) ma_linear_resampler \<Rightarrow> ('s, 'k) ma_linear_resampler \<Rightarrow> bool" where
  "same_clock r s \<longleftrightarrow> rs_config s = rs_config r \<and> inAdvanceInt s = inAdvanceInt r \<and> inAdvanceFrac s = inAdvanceFrac r \<and>
     inTimeInt s = inTimeInt r \<and> inTimeFrac s = inTimeFrac r"

lemma same_clock_wf: "same_clock r s \<Longrightarrow> rs_wf s = rs_wf r \<and> pos s = pos r"
  by (simp add: same_clock_def rs_wf_def pos_def)

lemma load_frame_clock: "load_frame ops down xs r = Some s \<Longrightarrow> same_clock r s"
  by (auto simp: load_frame_def same_clock_def bind_eq_Some_conv)

lemma emit_frame_clock: "emit_frame ops down h r = Some (y, s) \<Longrightarrow> same_clock r s"
  by (auto simp: emit_frame_def same_clock_def split: if_splits option.splits)

lemma load_loop_clock:
  assumes "load_loop ops down n p xs r = Some (i, xs', s)" "p \<le> n"
  shows "unat i = unat p + min (unat (inTimeInt r)) (unat n - unat p) \<and>
    unat (inTimeInt s) = unat (inTimeInt r) - min (unat (inTimeInt r)) (unat n - unat p) \<and>
    same_clock (r\<lparr>inTimeInt := inTimeInt s\<rparr>) s \<and> i \<le> n"
  using assms
proof (induction ops down n p xs r rule: load_loop.induct)
  case (1 ops down n p xs r)
  show ?case
  proof (cases "0 < inTimeInt r \<and> p < n")
    case True
    obtain s1 where s1: "load_frame ops down xs r = Some s1"
      "load_loop ops down n (p + 1) (map_option (drop (rs_channels r)) xs) (s1\<lparr>inTimeInt := inTimeInt r - 1\<rparr>) = Some (i, xs', s)"
      using "1.prems"(1) True by (subst (asm) load_loop.simps) (auto split: option.splits)
    have p1: "unat (p + 1) = Suc (unat p)" "unat (inTimeInt r - 1) = unat (inTimeInt r) - 1"
      using True by (auto simp: unat_Suc_less unat_pred)
    then have "p + 1 \<le> n" using True by (simp add: word_le_nat_alt word_less_nat_alt)
    note IH = "1.IH" [OF True s1(1) s1(2) this]
    have "min (unat (inTimeInt r)) (unat n - unat p) = Suc (min (unat (inTimeInt r) - 1) (unat n - Suc (unat p)))"
      using True by (auto simp: word_less_nat_alt min_def)
    then show ?thesis using IH p1 load_frame_clock [OF s1(1)] by (simp add: same_clock_def)
  next
    case False
    then have "load_loop ops down n p xs r = Some (p, xs, r)" by (subst load_loop.simps) auto
    moreover have "min (unat (inTimeInt r)) (unat n - unat p) = 0" using False "1.prems"(2)
      by (auto simp: word_less_nat_alt word_le_nat_alt)
    ultimately show ?thesis using "1.prems" by (simp add: same_clock_def)
  qed
qed

lemma advance_time_pos:
  assumes "rs_wf r" "inTimeInt r = 0"
  shows "pos (advance_time r) = pos r + unat (rateIn r) \<and> rs_wf (advance_time r) \<and>
    pos (advance_time r) < unat (rateIn r) + unat (rateOut r) \<and> rs_config (advance_time r) = rs_config r"
proof -
  let ?in = "unat (rateIn r)" and ?out = "unat (rateOut r)"
  have wf: "0 < ?out" "?out \<le> 2 ^ 31" "unat (inTimeFrac r) < ?out" "0 < ?in"
    "unat (inAdvanceInt r) = ?in div ?out" "unat (inAdvanceFrac r) = ?in mod ?out"
    using assms(1) by (simp_all add: rs_wf_def word_less_nat_alt unat_div unat_mod)
  have split: "?in = ?in div ?out * ?out + ?in mod ?out" by simp
  have lt: "?in mod ?out < ?out" using wf(1) by simp
  have "unat (inTimeFrac r) + unat (inAdvanceFrac r) < 2 ^ LENGTH(32)"
    using add_less_mono [OF wf(3) lt] wf(2) unfolding wf(6) by simp
  then have f: "unat (inTimeFrac r + inAdvanceFrac r) = unat (inTimeFrac r) + ?in mod ?out"
    unfolding wf(6) [symmetric] by (simp add: unat_word_ariths)
  have p: "pos r = unat (inTimeFrac r)" using assms(2) by (simp add: pos_def)
  show ?thesis
  proof (cases "rateOut r \<le> inTimeFrac r + inAdvanceFrac r")
    case True
    then have le: "?out \<le> unat (inTimeFrac r) + ?in mod ?out" using f by (simp add: word_le_nat_alt)
    then have "?out \<noteq> 1" using wf(3) by (metis add_0 less_one mod_by_1 not_le)
    then have "2 \<le> ?out" using wf(1) by simp
    then have "?in div ?out \<le> ?in div 2" by (intro div_le_mono2) simp_all
    then have "unat (inAdvanceInt r) + 1 < 2 ^ LENGTH(32)" using unsigned_less [of "rateIn r", where ?'a = nat] wf(5) by simp
    then have i: "unat (inAdvanceInt r + 1) = ?in div ?out + 1" unfolding wf(5) [symmetric] by (simp add: unat_word_ariths)
    have g: "unat (inTimeFrac r + inAdvanceFrac r - rateOut r) = unat (inTimeFrac r) + ?in mod ?out - ?out"
      using True f by (simp add: unat_sub)
    have adv: "advance_time r = r\<lparr>inTimeInt := inAdvanceInt r + 1, inTimeFrac := inTimeFrac r + inAdvanceFrac r - rateOut r\<rparr>"
      using True assms(2) by (simp add: advance_time_def Let_def)
    have "pos (advance_time r) = (?in div ?out + 1) * ?out + (unat (inTimeFrac r) + ?in mod ?out - ?out)"
      by (simp only: adv pos_def i g) (simp add: g i)
    also have "\<dots> = ?in div ?out * ?out + ?in mod ?out + unat (inTimeFrac r)" using le by simp
    finally have pos: "pos (advance_time r) = pos r + ?in" unfolding p split [symmetric] by simp
    have "unat (inTimeFrac r + inAdvanceFrac r - rateOut r) < ?out" unfolding g using wf(3) lt le by linarith
    then have "inTimeFrac r + inAdvanceFrac r - rateOut r < rateOut r" by (simp add: word_less_nat_alt)
    then show ?thesis using pos p wf(3) assms(1) adv by (simp add: rs_wf_def)
  next
    case False
    then have adv: "advance_time r = r\<lparr>inTimeInt := inAdvanceInt r, inTimeFrac := inTimeFrac r + inAdvanceFrac r\<rparr>"
      using assms(2) by (simp add: advance_time_def Let_def)
    have "pos (advance_time r) = ?in div ?out * ?out + (unat (inTimeFrac r) + ?in mod ?out)"
      unfolding adv by (simp add: pos_def f wf(5))
    also have "\<dots> = ?in div ?out * ?out + ?in mod ?out + unat (inTimeFrac r)" by simp
    finally have pos: "pos (advance_time r) = pos r + ?in" unfolding p split [symmetric] by simp
    then show ?thesis using False p wf(3) assms(1) adv by (simp add: rs_wf_def)
  qed
qed

text \<open>What a call leaves behind: time is conserved, and it ended because it produced all the frames it was
  asked for, or because it has consumed all the frames it was given and needs another.\<close>

definition clock_after ::
    "nat \<Rightarrow> nat \<Rightarrow> ('s, 'k) ma_linear_resampler \<Rightarrow> nat \<Rightarrow> nat \<Rightarrow> ('s, 'k) ma_linear_resampler \<Rightarrow> bool" where
  "clock_after n m r i q s \<longleftrightarrow> rs_wf s \<and> rs_config s = rs_config r \<and> i \<le> n \<and> q \<le> m \<and>
     pos s + i * unat (rateOut r) = pos r + q * unat (rateIn r) \<and> (0 < q \<longrightarrow> pos s < unat (rateIn r) + unat (rateOut r)) \<and>
     (q < m \<longrightarrow> i = n \<and> 0 < inTimeInt s) \<and> (q = m \<longrightarrow> 0 < m \<longrightarrow> unat (rateIn r) \<le> pos s) \<and> (m = 0 \<longrightarrow> i = 0)"

lemma pos_less: "rs_wf r \<Longrightarrow> inTimeInt r = 0 \<Longrightarrow> pos r < unat (rateOut r)"
  by (simp add: rs_wf_def pos_def word_less_nat_alt)

lemma resample_loop_clock:
  assumes "resample_loop ops down h n m p q xs r = Some (ys, i, q', s)" "rs_wf r" "p \<le> n" "q \<le> m"
  shows "p \<le> i \<and> q \<le> q' \<and> clock_after (unat n - unat p) (unat m - unat q) r (unat i - unat p) (unat q' - unat q) s"
  using assms
proof (induction ops down h n m p q xs r arbitrary: ys rule: resample_loop.induct)
  case (1 ops down h n m p q xs r)
  let ?in = "unat (rateIn r)" and ?out = "unat (rateOut r)"
  show ?case
  proof (cases "q < m")
    case False
    then have "q = m" using "1.prems"(4) by simp
    then show ?thesis using "1.prems" by (subst (asm) resample_loop.simps) (auto simp: clock_after_def)
  next
    case True
    obtain p1 xs1 r1 where l: "load_loop ops down n p xs r = Some (p1, xs1, r1)"
      using "1.prems"(1) True by (subst (asm) resample_loop.simps) (auto split: option.splits)
    note c = load_loop_clock [OF l "1.prems"(3)]
    let ?k = "min (unat (inTimeInt r)) (unat n - unat p)"
    have t: "unat (inTimeInt r1) = unat (inTimeInt r) - ?k" "unat p1 = unat p + ?k" "p1 \<le> n"
      "rs_config r1 = rs_config r" "inAdvanceInt r1 = inAdvanceInt r" "inAdvanceFrac r1 = inAdvanceFrac r" "inTimeFrac r1 = inTimeFrac r"
      using c by (simp_all add: same_clock_def)
    have "?k * ?out \<le> unat (inTimeInt r) * ?out" by (intro mult_le_mono1) simp
    then have pos1: "pos r1 + ?k * ?out = pos r" unfolding pos_def t(1,4,7) diff_mult_distrib by linarith
    then have wf1: "rs_wf r1" using "1.prems"(2) t unfolding rs_wf_def by simp
    show ?thesis
    proof (cases "0 < inTimeInt r1")
      case True
      then have "i = p1" "q' = q" "s = r1" "ys = []"
        using "1.prems"(1) l \<open>q < m\<close> by (subst (asm) resample_loop.simps, simp)+
      moreover have "?k = unat n - unat p" using True t(1) by (auto simp: word_less_nat_alt)
      moreover have "unat q < unat m" using \<open>q < m\<close> by (simp add: word_less_nat_alt)
      ultimately show ?thesis using pos1 wf1 t True "1.prems"(3)
        by (auto simp: clock_after_def word_le_nat_alt)
    next
      case zero: False
      then have z: "inTimeInt r1 = 0" by (simp add: word_gt_0)
      obtain y r2 zs where e: "emit_frame ops down h r1 = Some (y, r2)"
        "resample_loop ops down h n m p1 (q + 1) xs1 (advance_time r2) = Some (zs, i, q', s)"
        using "1.prems"(1) l \<open>q < m\<close> zero by (subst (asm) resample_loop.simps) (auto split: option.splits)
      note same = emit_frame_clock [OF e(1)]
      have wf2: "rs_wf r2" "pos r2 = pos r1" "inTimeInt r2 = 0" "rs_config r2 = rs_config r"
        using same_clock_wf [OF same] wf1 same z t(4) by (simp_all add: same_clock_def)
      note adv = advance_time_pos [OF wf2(1,3)]
      have q1: "unat (q + 1) = Suc (unat q)" "q + 1 \<le> m"
        using True unat_Suc_less [OF True] by (simp_all add: word_less_nat_alt word_le_nat_alt)
      have IH: "p1 \<le> i \<and> q + 1 \<le> q' \<and> clock_after (unat n - unat p1) (unat m - unat (q + 1)) (advance_time r2)
          (unat i - unat p1) (unat q' - unat (q + 1)) s"
        using "1.IH" [OF True l refl refl zero e(1) refl e(2)] adv t(3) q1(2) by simp
      define j where "j = unat i - unat p1"
      define l where "l = unat q' - unat (q + 1)"
      have ge: "unat p1 \<le> unat i" "Suc (unat q) \<le> unat q'" using IH q1(1) by (simp_all add: word_le_nat_alt)
      have ij: "unat i - unat p = ?k + j" "unat q' - unat q = Suc l" using ge t(2) q1(1) by (simp_all add: j_def l_def)
      have rest: "rs_wf s" "rs_config s = rs_config r" "j \<le> unat n - unat p1" "l \<le> unat m - Suc (unat q)"
        "pos s + j * ?out = pos r1 + ?in + l * ?in"
        "0 < l \<longrightarrow> pos s < ?in + ?out" "pos r1 + ?in < ?in + ?out"
        "l < unat m - Suc (unat q) \<longrightarrow> j = unat n - unat p1 \<and> 0 < inTimeInt s"
        "l = unat m - Suc (unat q) \<longrightarrow> 0 < unat m - Suc (unat q) \<longrightarrow> ?in \<le> pos s" "unat m - Suc (unat q) = 0 \<longrightarrow> j = 0"
        using IH adv wf2 q1(1) by (simp_all add: clock_after_def j_def l_def)
      have m: "unat m - unat q = Suc (unat m - Suc (unat q))" using True by (simp add: word_less_nat_alt)
      have p1n: "unat p1 \<le> unat n" using t(3) by (simp add: word_le_nat_alt)
      have "?in \<le> pos s" if "l = unat m - Suc (unat q)"
        using rest(5,9,10) that by (cases "unat m - Suc (unat q) = 0") auto
      moreover have "pos s + (?k + j) * ?out = pos r + Suc l * ?in" using rest(5) pos1 by (simp add: add_mult_distrib)
      moreover have "pos s < ?in + ?out" using rest(5,6,7) by (cases "l = 0") auto
      moreover have "p \<le> i" "q \<le> q'" using ge t(2) by (simp_all add: word_le_nat_alt)
      moreover have "?k + j \<le> unat n - unat p" "j = unat n - unat p1 \<Longrightarrow> ?k + j = unat n - unat p"
        using rest(3) t(2) p1n by linarith+
      ultimately show ?thesis
        unfolding clock_after_def ij m using rest(1,2,4,8) by auto
    qed
  qed
qed

section \<open>How many frames\<close>

text \<open>The input frames that must have been loaded before \<open>k\<close> output frames have been produced.\<close>

definition needed :: "('s, 'k) ma_linear_resampler \<Rightarrow> nat \<Rightarrow> nat" where
  "needed r k = (if k = 0 then 0 else (pos r + (k - 1) * unat (rateIn r)) div unat (rateOut r))"

lemma needed_Suc: "needed r (Suc k) = (pos r + k * unat (rateIn r)) div unat (rateOut r)"
  by (simp add: needed_def)

lemma div_between: "d * q \<le> n \<Longrightarrow> n < d * Suc q \<Longrightarrow> n div d = q" for n d q :: nat
  by (rule div_nat_eqI) (simp_all add: mult.commute)

text \<open>A call given \<open>n\<close> frames and room for \<open>m\<close> produces as many frames as the input lets it.\<close>

definition counts_ok :: "('s, 'k) ma_linear_resampler \<Rightarrow> nat \<Rightarrow> nat \<Rightarrow> nat \<Rightarrow> nat \<Rightarrow> bool" where
  "counts_ok r n m i q \<longleftrightarrow> q \<le> m \<and> i \<le> n \<and> needed r q \<le> n \<and>
     (if q < m then i = n \<and> n < needed r (Suc q) else i = needed r m)"

lemma clock_counts:
  assumes "clock_after n m r i q s" "rs_wf r"
  shows "counts_ok r n m i q"
proof -
  let ?in = "unat (rateIn r)" and ?out = "unat (rateOut r)"
  have c: "rs_wf s" "rs_config s = rs_config r" "i \<le> n" "q \<le> m" "pos s + i * ?out = pos r + q * ?in"
    "0 < q \<longrightarrow> pos s < ?in + ?out" "q < m \<longrightarrow> i = n \<and> 0 < inTimeInt s" "q = m \<longrightarrow> 0 < m \<longrightarrow> ?in \<le> pos s" "m = 0 \<longrightarrow> i = 0"
    using assms(1) by (simp_all add: clock_after_def)
  have out: "0 < ?out" using assms(2) by (simp add: rs_wf_def word_less_nat_alt)
  have le: "needed r q \<le> i"
  proof (cases q)
    case (Suc k)
    then have "pos r + k * ?in < ?out * Suc i" using c(5,6) by (simp add: algebra_simps)
    then show ?thesis unfolding Suc needed_Suc using out by (simp add: div_less_iff_less_mult mult.commute less_Suc_eq_le [symmetric])
  qed (simp add: needed_def)
  show ?thesis
  proof (cases "q < m")
    case True
    then have "1 \<le> unat (inTimeInt s)" "i = n" using c(7) by (auto simp: word_less_nat_alt)
    then have "1 * ?out \<le> unat (inTimeInt s) * ?out" by (intro mult_le_mono1)
    then have "?out \<le> pos s" unfolding pos_def c(2) by linarith
    then have "Suc n * ?out \<le> pos r + q * ?in" using c(5) \<open>i = n\<close> by simp
    then have "Suc n \<le> needed r (Suc q)" unfolding needed_Suc using out by (simp add: less_eq_div_iff_mult_less_eq)
    then show ?thesis using True c(3,4) le \<open>i = n\<close> by (simp add: counts_ok_def)
  next
    case False
    then have qm: "q = m" using c(4) by simp
    have "i = needed r m"
    proof (cases m)
      case 0
      then show ?thesis using c(9) by (simp add: needed_def)
    next
      case (Suc k)
      have "?out * i \<le> pos r + k * ?in" "pos r + k * ?in < ?out * Suc i"
        using c(5,6,8) qm Suc by (simp_all add: algebra_simps)
      then show ?thesis unfolding Suc needed_Suc by (rule div_between [symmetric])
    qed
    then show ?thesis using c(3) qm by (simp add: counts_ok_def)
  qed
qed

text \<open>The numbers of frames are determined by this.\<close>

lemma needed_mono: "k \<le> l \<Longrightarrow> needed r k \<le> needed r l"
  by (auto simp: needed_def intro!: div_le_mono mult_le_mono1 add_le_mono)

lemma counts_unique:
  assumes "counts_ok r n m i q" "counts_ok r n m i' q'"
  shows "i = i' \<and> q = q'"
proof -
  have "\<not> (counts_ok r n m a b \<and> counts_ok r n m a' b' \<and> b < b')" for a b a' b'
    using needed_mono [of "Suc b" b' r] by (auto simp: counts_ok_def)
  then have "q = q'" using assms by (metis nat_neq_iff)
  then show ?thesis using assms by (auto simp: counts_ok_def split: if_splits)
qed

lemma process_counts:
  assumes "ma_linear_resampler_process ops down r xs n h m = Some (e, ys, i, q, pS)" "rs_wf r"
  shows "e = MA_SUCCESS \<and> counts_ok r (unat n) (unat m) (unat i) (unat q) \<and>
    (\<exists>s. pS = Some s \<and> clock_after (unat n) (unat m) r (unat i) (unat q) s)"
proof -
  obtain s where "resample_loop ops down h n m 0 0 xs r = Some (ys, i, q, s)" "e = MA_SUCCESS" "pS = Some s"
    using assms(1) by (auto simp: ma_linear_resampler_process_def)
  then show ?thesis using resample_loop_clock [of ops down h n m 0 0 xs r] assms(2) clock_counts by fastforce
qed

section \<open>Predicting the numbers\<close>

lemma unat_u64: "unat (ucast (x :: u32) :: u64) = unat x"
  by (simp add: unat_ucast_32_64)

lemma whole_frac_div: "(0 :: nat) < d \<Longrightarrow> (t * d + f + n * a) div d = t + n * (a div d) + (f + n * (a mod d)) div d"
proof -
  assume "0 < d"
  have "n * a = n * (a div d * d + a mod d)" by (simp only: div_mult_mod_eq)
  then have "n * a = n * (a div d) * d + n * (a mod d)" by (simp only: distrib_left mult.assoc)
  then have e: "t * d + f + n * a = f + n * (a mod d) + (t + n * (a div d)) * d" unfolding distrib_right by linarith
  show ?thesis unfolding e using \<open>0 < d\<close> by simp
qed

text \<open>Fewer than \<open>2 ^ 32\<close> frames keep the 64-bit arithmetic exact.\<close>

lemma unat_frames:
  fixes t a :: u32 and k :: u64
  assumes "unat k < 2 ^ 31"
  shows "unat (ucast t + k * ucast a) = unat t + unat k * unat a" "unat (k * ucast a) = unat k * unat a"
    "unat k * unat a \<le> 2 ^ 63"
proof -
  have "unat a \<le> 2 ^ 32" "unat t < 2 ^ 32" using unsigned_less [of a, where ?'a = nat] unsigned_less [of t, where ?'a = nat] by simp_all
  then have le: "unat k * unat a \<le> 2 ^ 31 * 2 ^ 32" using assms by (intro mult_le_mono) simp_all
  then show "unat k * unat a \<le> 2 ^ 63" by simp
  show m: "unat (k * ucast a) = unat k * unat a" using le by (simp add: unat_word_ariths unat_u64)
  have "unat t + unat k * unat a < 2 ^ LENGTH(64)" using le \<open>unat t < 2 ^ 32\<close> by simp
  then show "unat (ucast t + k * ucast a) = unat t + unat k * unat a"
    by (subst unat_word_ariths) (simp add: m unat_u64)
qed

text \<open>The time after \<open>k\<close> more output frames, as both predictions compute it.\<close>

definition whole_frames :: "('s, 'k) ma_linear_resampler \<Rightarrow> u64 \<Rightarrow> u64" where
  "whole_frames r k = ucast (inTimeInt r) + k * ucast (inAdvanceInt r) +
     (ucast (inTimeFrac r) + k * ucast (inAdvanceFrac r)) div ucast (rateOut r)"

lemma unat_whole_frames:
  assumes "rs_wf r" "unat k < 2 ^ 31"
  shows "unat (whole_frames r k) = needed r (Suc (unat k))"
proof -
  let ?in = "unat (rateIn r)" and ?out = "unat (rateOut r)"
  have wf: "0 < ?out" "unat (inTimeFrac r) < ?out" "unat (inAdvanceInt r) = ?in div ?out" "unat (inAdvanceFrac r) = ?in mod ?out"
    using assms(1) by (simp_all add: rs_wf_def word_less_nat_alt unat_div unat_mod)
  have frac: "unat (ucast (inTimeFrac r) + k * ucast (inAdvanceFrac r) :: u64) = unat (inTimeFrac r) + unat k * (?in mod ?out)"
    and whole: "unat (ucast (inTimeInt r) + k * ucast (inAdvanceInt r) :: u64) = unat (inTimeInt r) + unat k * (?in div ?out)"
    using unat_frames(1) [OF assms(2)] wf by simp_all
  have "unat k * (?in mod ?out) \<le> unat k * ?out" using wf(1) by (intro mult_le_mono2) (simp add: less_imp_le)
  then have "unat (inTimeFrac r) + unat k * (?in mod ?out) < Suc (unat k) * ?out" unfolding mult_Suc using wf(2) by linarith
  then have d: "(unat (inTimeFrac r) + unat k * (?in mod ?out)) div ?out < Suc (unat k)"
    using wf(1) by (simp add: div_less_iff_less_mult)
  have "unat (inTimeInt r) < 2 ^ 32" using unsigned_less [of "inTimeInt r", where ?'a = nat] by simp
  then have "unat (inTimeInt r) + unat k * (?in div ?out) + (unat (inTimeFrac r) + unat k * (?in mod ?out)) div ?out < 2 ^ 64"
    using unat_frames(3) [OF assms(2), of "inAdvanceInt r"] d assms(2) wf(3) by simp
  then have "unat (whole_frames r k) =
      unat (inTimeInt r) + unat k * (?in div ?out) + (unat (inTimeFrac r) + unat k * (?in mod ?out)) div ?out"
    unfolding whole_frames_def by (subst unat_word_ariths) (simp add: whole frac unat_div unat_u64)
  then show ?thesis unfolding needed_Suc pos_def whole_frac_div [OF wf(1)] .
qed

lemma required_eq:
  "0 < m \<Longrightarrow> ma_linear_resampler_get_required_input_frame_count (Some r) m (Some x) = (MA_SUCCESS, Some (whole_frames r (m - 1)))"
  by (simp add: ma_linear_resampler_get_required_input_frame_count_def whole_frames_def Let_def word_gt_0)

lemma required_exact:
  assumes "rs_wf r" "m \<le> 2 ^ 31"
  shows "\<exists>w. ma_linear_resampler_get_required_input_frame_count (Some r) m (Some x) = (MA_SUCCESS, Some w) \<and>
    unat w = needed r (unat m)"
proof (cases "m = 0")
  case True
  then show ?thesis by (simp add: ma_linear_resampler_get_required_input_frame_count_def needed_def)
next
  case False
  then have m: "0 < m" by (simp add: word_gt_0)
  have "unat m \<le> 2 ^ 31" using assms(2) by (simp add: word_le_nat_alt)
  then have "unat (m - 1) < 2 ^ 31" and n: "Suc (unat (m - 1)) = unat m" using m by (simp_all add: unat_pred word_less_nat_alt)
  then have "unat (whole_frames r (m - 1)) = needed r (unat m)" using unat_whole_frames [OF assms(1)] by metis
  then show ?thesis using required_eq [OF m] by blast
qed

text \<open>The frames to expect from \<open>n\<close> input frames. \<open>available\<close>: as many as the input can give.\<close>

definition available :: "('s, 'k) ma_linear_resampler \<Rightarrow> nat \<Rightarrow> nat \<Rightarrow> bool" where
  "available r n k \<longleftrightarrow> needed r k \<le> n \<and> n < needed r (Suc k)"

lemma expected_eq:
  assumes "rs_wf r" "0 < rateIn r" "n < 2 ^ 31" "unat n * unat (rateOut r) < 2 ^ 31 * unat (rateIn r)"
  defines "k \<equiv> unat n * unat (rateOut r) div unat (rateIn r)"
  shows "\<exists>w. ma_linear_resampler_get_expected_output_frame_count (Some r) n (Some x) = (MA_SUCCESS, Some w) \<and>
    unat w = (if needed r (Suc k) \<le> unat n then Suc k else k)"
proof -
  let ?o = "n * ucast (rateOut r) div ucast (rateIn r) :: u64"
  have "unat n < 2 ^ 31" using assms(3) by (simp add: word_less_nat_alt)
  then have "unat (n * ucast (rateOut r)) = unat n * unat (rateOut r)" by (rule unat_frames(2))
  then have o: "unat ?o = k" by (simp add: k_def unat_div unat_u64)
  have k: "k < 2 ^ 31" unfolding k_def using assms(2,4) by (subst div_less_iff_less_mult) (simp_all add: word_less_nat_alt)
  then have w: "unat (whole_frames r ?o) = needed r (Suc k)" using unat_whole_frames [OF assms(1), of ?o] o by simp
  have "unat (?o + 1) = Suc k" using o k by (simp add: unat_word_ariths)
  then show ?thesis using o w
    by (auto simp: ma_linear_resampler_get_expected_output_frame_count_def Let_def whole_frames_def [symmetric] word_le_nat_alt)
qed

lemma expected_bounds:
  fixes r :: "('s, 'k) ma_linear_resampler" and n :: nat
  assumes "0 < rateOut r" "0 < rateIn r"
  defines "k \<equiv> n * unat (rateOut r) div unat (rateIn r)"
  defines "w \<equiv> (if needed r (Suc k) \<le> n then Suc k else k)"
  shows "pos r < unat (rateIn r) + unat (rateOut r) \<Longrightarrow> needed r w \<le> n"
    and "0 < inTimeInt r \<Longrightarrow> n < needed r (Suc w)"
proof -
  let ?in = "unat (rateIn r)" and ?out = "unat (rateOut r)"
  have pos: "0 < ?in" "0 < ?out" using assms(1,2) by (simp_all add: word_less_nat_alt)
  have lo: "k * ?in \<le> n * ?out" unfolding k_def by (rule div_times_less_eq_dividend)
  have hi: "n * ?out < k * ?in + ?in" unfolding k_def using dividend_less_div_times [OF pos(1), of "n * ?out"] by simp
  show "needed r w \<le> n" if "pos r < ?in + ?out"
  proof (cases "needed r (Suc k) \<le> n")
    case False
    show ?thesis
    proof (cases k)
      case (Suc j)
      then have "pos r + j * ?in < Suc n * ?out" using lo that by simp
      then have "needed r k < Suc n" unfolding Suc needed_Suc using pos(2) by (simp add: div_less_iff_less_mult)
      then show ?thesis using False by (simp add: w_def)
    qed (use False in \<open>simp add: w_def needed_def\<close>)
  qed (simp add: w_def)
  show "n < needed r (Suc w)" if "0 < inTimeInt r"
  proof (cases "needed r (Suc k) \<le> n")
    case True
    have "1 * ?out \<le> unat (inTimeInt r) * ?out" using that by (intro mult_le_mono1) (simp add: word_less_nat_alt)
    then have "Suc n * ?out \<le> pos r + Suc k * ?in" using hi unfolding pos_def mult_Suc by linarith
    then have "Suc n \<le> needed r (Suc (Suc k))" unfolding needed_Suc using pos(2) by (simp add: less_eq_div_iff_mult_less_eq)
    then show ?thesis using True by (simp add: w_def)
  qed (simp add: w_def)
qed

end
