(* ===== verification/Ma_Resample_Stream.thy ===== *)
theory Ma_Resample_Stream
  imports Ma_Resample_Time
begin

text \<open>
  The linear resampler of miniaudio (\<open>client/native/miniaudio.h\<close>) as a stream processor: its loops as
  recursion on the frames still to be read and written, when a call is defined, how a new or a changed
  resampler is set up, and that the frames do not depend on how a client cuts them into calls.
\<close>

section \<open>The loops without their counters\<close>

primrec load_frames ::
    "('s, 'k) resample_ops \<Rightarrow> bool \<Rightarrow> nat \<Rightarrow> 's list option \<Rightarrow> ('s, 'k) ma_linear_resampler
      \<Rightarrow> ('s list option \<times> ('s, 'k) ma_linear_resampler) option" where
  "load_frames ops down 0 xs r = Some (xs, r)"
| "load_frames ops down (Suc k) xs r =
     (case load_frame ops down xs r of
        None \<Rightarrow> None
      | Some s \<Rightarrow> load_frames ops down k (map_option (drop (rs_channels r)) xs) (s\<lparr>inTimeInt := inTimeInt r - 1\<rparr>))"

text \<open>With \<open>a\<close> input frames available and room for \<open>m\<close> output frames.\<close>

primrec resample ::
    "('s, 'k) resample_ops \<Rightarrow> bool \<Rightarrow> bool \<Rightarrow> nat \<Rightarrow> nat \<Rightarrow> 's list option \<Rightarrow> ('s, 'k) ma_linear_resampler
      \<Rightarrow> ('s list \<times> nat \<times> nat \<times> ('s, 'k) ma_linear_resampler) option" where
  "resample ops down h 0 a xs r = Some ([], 0, 0, r)"
| "resample ops down h (Suc m) a xs r =
     (let k = min (unat (inTimeInt r)) a in
      case load_frames ops down k xs r of
        None \<Rightarrow> None
      | Some (xs, r) \<Rightarrow>
          if 0 < inTimeInt r then Some ([], k, 0, r)
          else (case emit_frame ops down h r of
                  None \<Rightarrow> None
                | Some (y, r) \<Rightarrow>
                    map_option (\<lambda>(ys, i, q, s). (y @ ys, k + i, Suc q, s)) (resample ops down h m (a - k) xs (advance_time r))))"

lemma load_loop_frames:
  assumes "p \<le> n"
  shows "load_loop ops down n p xs r =
    (let k = min (unat (inTimeInt r)) (unat n - unat p)
     in map_option (\<lambda>(xs', s). (p + of_nat k, xs', s)) (load_frames ops down k xs r))"
  using assms
proof (induction ops down n p xs r rule: load_loop.induct)
  case (1 ops down n p xs r)
  show ?case
  proof (cases "0 < inTimeInt r \<and> p < n")
    case True
    have p1: "unat (p + 1) = Suc (unat p)" "unat (inTimeInt r - 1) = unat (inTimeInt r) - 1"
      using True by (auto simp: unat_Suc_less unat_pred)
    then have "p + 1 \<le> n" using True by (simp add: word_le_nat_alt word_less_nat_alt)
    moreover have "min (unat (inTimeInt r)) (unat n - unat p) = Suc (min (unat (inTimeInt r) - 1) (unat n - Suc (unat p)))"
      using True by (auto simp: word_less_nat_alt min_def)
    ultimately show ?thesis using "1.IH" [OF True] True p1
      by (subst load_loop.simps) (auto simp: Let_def option.map_comp comp_def add.assoc split: option.splits)
  next
    case False
    then have "min (unat (inTimeInt r)) (unat n - unat p) = 0" using "1.prems"
      by (auto simp: word_less_nat_alt word_le_nat_alt)
    then show ?thesis using False by (subst load_loop.simps) auto
  qed
qed

lemma resample_loop_resample:
  assumes "p \<le> n" "q \<le> m"
  shows "resample_loop ops down h n m p q xs r =
    map_option (\<lambda>(ys, i, j, s). (ys, p + of_nat i, q + of_nat j, s)) (resample ops down h (unat m - unat q) (unat n - unat p) xs r)"
  using assms
proof (induction "unat m - unat q" arbitrary: p q xs r)
  case 0
  then have "q = m" by (simp add: word_le_nat_alt word_unat_eq_iff)
  then show ?case using "0.hyps" by (subst resample_loop.simps) simp
next
  case (Suc m')
  have q: "q < m" using Suc.hyps(2) by (simp add: word_less_nat_alt)
  have q1: "unat (q + 1) = Suc (unat q)" "q + 1 \<le> m" and m': "m' = unat m - unat (q + 1)"
    using q unat_Suc_less [OF q] Suc.hyps(2) by (simp_all add: word_less_nat_alt word_le_nat_alt)
  let ?k = "min (unat (inTimeInt r)) (unat n - unat p)"
  show ?case
  proof (cases "load_frames ops down ?k xs r")
    case None
    then show ?thesis using q Suc.hyps(2) [symmetric]
      by (subst resample_loop.simps) (simp add: load_loop_frames [OF Suc.prems(1)] Let_def)
  next
    case (Some l)
    obtain xs1 r1 where l: "l = (xs1, r1)" by (cases l)
    have load: "load_loop ops down n p xs r = Some (p + of_nat ?k, xs1, r1)"
      by (simp add: load_loop_frames [OF Suc.prems(1)] Some l Let_def)
    have "unat p + ?k \<le> unat n" using Suc.prems(1) by (simp add: word_le_nat_alt)
    moreover have "unat n < 2 ^ LENGTH(64)" by (rule unsigned_less)
    ultimately have p1: "unat (p + of_nat ?k) = unat p + ?k" by (simp add: unat_word_ariths take_bit_nat_eq_self unat_of_nat)
    then have p1n: "p + of_nat ?k \<le> n" using \<open>unat p + ?k \<le> unat n\<close> by (simp add: word_le_nat_alt)
    show ?thesis
    proof (cases "0 < inTimeInt r1")
      case True
      then show ?thesis using q Suc.hyps(2) [symmetric] load Some l
        by (subst resample_loop.simps) (simp add: Let_def)
    next
      case False
      have IH: "resample_loop ops down h n m (p + of_nat ?k) (q + 1) xs1 s =
          map_option (\<lambda>(ys, i, j, s). (ys, p + of_nat ?k + of_nat i, q + 1 + of_nat j, s))
            (resample ops down h m' (unat n - unat p - ?k) xs1 s)" for s
        using Suc.hyps(1) [OF m' p1n q1(2), of xs1 s] unfolding p1 m' [symmetric] by (simp add: diff_diff_left)
      show ?thesis using q Suc.hyps(2) [symmetric] load Some l False IH
        by (subst resample_loop.simps)
          (simp add: Let_def option.map_comp comp_def case_prod_beta' ac_simps split: option.splits)
    qed
  qed
qed

section \<open>Cutting the frames into calls\<close>

text \<open>Loading frames: how many were loaded, and where the input stands.\<close>

lemma load_frame_config: "load_frame ops down xs r = Some s \<Longrightarrow> rs_config s = rs_config r"
  using load_frame_clock [of ops down xs r s] by (simp add: same_clock_def)

lemma map_option_drop: "map_option (drop k) (map_option (drop l) xs) = map_option (drop (k + l)) xs"
  by (simp add: option.map_comp comp_def)

lemma load_frames_clock:
  "load_frames ops down k xs r = Some (xs', s) \<Longrightarrow> k \<le> unat (inTimeInt r) \<Longrightarrow>
   rs_config s = rs_config r \<and> xs' = map_option (drop (k * rs_channels r)) xs \<and> unat (inTimeInt s) = unat (inTimeInt r) - k"
proof (induction k arbitrary: xs r)
  case (Suc k)
  obtain s1 where s1: "load_frame ops down xs r = Some s1"
    "load_frames ops down k (map_option (drop (rs_channels r)) xs) (s1\<lparr>inTimeInt := inTimeInt r - 1\<rparr>) = Some (xs', s)"
    using Suc.prems(1) by (auto split: option.splits)
  have "unat (inTimeInt r - 1) = unat (inTimeInt r) - 1"
    using Suc.prems(2) by (intro unat_pred) (simp add: word_less_nat_alt)
  then show ?case using Suc.IH [OF s1(2)] Suc.prems(2) load_frame_config [OF s1(1)]
    by (simp add: map_option_drop add.commute)
qed (simp add: option.map_id0 [unfolded id_def])

lemma load_frames_add:
  "load_frames ops down (k + l) xs r =
    (case load_frames ops down k xs r of None \<Rightarrow> None | Some (xs', s) \<Rightarrow> load_frames ops down l xs' s)"
  by (induction k arbitrary: xs r) (simp_all split: option.splits)

lemma resample_config:
  "resample ops down h m a xs r = Some (ys, i, q, s) \<Longrightarrow> rs_config s = rs_config r \<and> i \<le> a \<and> q \<le> m"
proof (induction m arbitrary: a xs r ys i q)
  case (Suc m)
  let ?k = "min (unat (inTimeInt r)) a"
  obtain xs1 r1 where l: "load_frames ops down ?k xs r = Some (xs1, r1)"
    using Suc.prems by (auto simp: Let_def split: option.splits)
  note lc = load_frames_clock [OF l]
  show ?case
  proof (cases "0 < inTimeInt r1")
    case False
    then obtain y r2 zs j t where e: "emit_frame ops down h r1 = Some (y, r2)"
      "resample ops down h m (a - ?k) xs1 (advance_time r2) = Some (zs, j, t, s)" "i = ?k + j" "q = Suc t"
      using Suc.prems l by (auto simp: Let_def split: option.splits)
    have "rs_config (advance_time r2) = rs_config r2" by (simp add: advance_time_def Let_def)
    then show ?thesis using Suc.IH [OF e(2)] e(3,4) emit_frame_clock [OF e(1)] lc by (auto simp: same_clock_def)
  qed (use Suc.prems l lc in \<open>auto simp: Let_def\<close>)
qed simp

text \<open>A call given fewer frames or less room, followed by one that goes on where it stopped.\<close>

lemma resample_split:
  assumes "resample ops down h m1 a1 xs r = Some (ys, i, q, s)" "a1 \<le> a" "m1 \<le> m"
  shows "resample ops down h m a xs r = map_option (\<lambda>(zs, j, t, u). (ys @ zs, i + j, q + t, u))
    (resample ops down h (m - q) (a - i) (map_option (drop (i * rs_channels r)) xs) s)"
  using assms
proof (induction m1 arbitrary: m a1 a xs r ys i q)
  case 0
  then show ?case by (simp add: option.map_id0 [unfolded id_def] split: prod.splits)
next
  case (Suc m1)
  obtain m' where m: "m = Suc m'" "m1 \<le> m'" using Suc.prems(3) by (cases m) auto
  let ?k = "min (unat (inTimeInt r)) a1"
  obtain xs1 r1 where l: "load_frames ops down ?k xs r = Some (xs1, r1)"
    using Suc.prems(1) by (auto simp: Let_def split: option.splits)
  note lc = load_frames_clock [OF l]
  show ?case
  proof (cases "0 < inTimeInt r1")
    case True
    then have res: "i = ?k" "q = 0" "s = r1" "ys = []" using Suc.prems(1) l by (auto simp: Let_def)
    have "?k = a1" using True lc by (auto simp: word_less_nat_alt min_def)
    then have k: "min (unat (inTimeInt r)) a = ?k + min (unat (inTimeInt r1)) (a - ?k)"
      using lc Suc.prems(2) by auto
    show ?thesis
      using lc l by (simp add: m res k load_frames_add Let_def option.map_comp comp_def case_prod_beta' add.assoc split: option.splits)
  next
    case False
    then have "unat (inTimeInt r1) = 0" by (simp add: word_gt_0)
    then have k: "min (unat (inTimeInt r)) a = ?k" using lc Suc.prems(2) by auto
    obtain y r2 zs j t where e: "emit_frame ops down h r1 = Some (y, r2)"
      "resample ops down h m1 (a1 - ?k) xs1 (advance_time r2) = Some (zs, j, t, s)" "i = ?k + j" "q = Suc t" "ys = y @ zs"
      using Suc.prems l False by (auto simp: Let_def split: option.splits)
    have cfg: "rs_channels (advance_time r2) = rs_channels r"
      using emit_frame_clock [OF e(1)] lc by (simp add: same_clock_def advance_time_def Let_def)
    have IH: "resample ops down h m' (a - ?k) xs1 (advance_time r2) = map_option (\<lambda>(zs', j', t', u). (zs @ zs', j + j', t + t', u))
        (resample ops down h (m' - t) (a - ?k - j) (map_option (drop (j * rs_channels r)) xs1) s)"
      using Suc.IH [OF e(2) _ m(2), of "a - ?k"] Suc.prems(2) unfolding cfg by simp
    have x: "map_option (drop (j * rs_channels r)) xs1 = map_option (drop (i * rs_channels r)) xs"
      using lc by (simp add: map_option_drop e(3) add_mult_distrib add.commute)
    have a: "a - ?k - j = a - i" "m - q = m' - t" using e(3,4) m(1) by simp_all
    show ?thesis unfolding a [symmetric] x [symmetric] unfolding m(1)
      using False l e IH by (simp add: Let_def k option.map_comp comp_def case_prod_beta' add.assoc)
  qed
qed

text \<open>The calls of the code in these terms.\<close>

lemma process_resample:
  "ma_linear_resampler_process ops down r xs n h m =
    map_option (\<lambda>(ys, i, q, s). (MA_SUCCESS, ys, of_nat i, of_nat q, Some s)) (resample ops down h (unat m) (unat n) xs r)"
  unfolding ma_linear_resampler_process_def using resample_loop_resample [of 0 n 0 m ops down h xs r]
  by (simp add: option.map_comp comp_def case_prod_beta')

lemma process_chunks:
  assumes "ma_linear_resampler_process ops down r xs n1 h m1 = Some (e, ys, i, q, Some s)" "n1 \<le> n" "m1 \<le> m"
  shows "ma_linear_resampler_process ops down r xs n h m =
    map_option (\<lambda>(e, zs, j, t, u). (e, ys @ zs, i + j, q + t, u))
      (ma_linear_resampler_process ops down s (map_option (drop (unat i * rs_channels r)) xs) (n - i) h (m - q))"
proof -
  obtain i' q' where r: "resample ops down h (unat m1) (unat n1) xs r = Some (ys, i', q', s)" "i = of_nat i'" "q = of_nat q'"
    using assms(1) by (auto simp: process_resample)
  have le: "unat n1 \<le> unat n" "unat m1 \<le> unat m" using assms(2,3) by (simp_all add: word_le_nat_alt)
  have iq: "i' \<le> unat n1" "q' \<le> unat m1" using resample_config [OF r(1)] by simp_all
  have "unat n < 2 ^ LENGTH(64)" "unat m < 2 ^ LENGTH(64)" by (rule unsigned_less)+
  then have u: "unat i = i'" "unat q = q'" using iq le unfolding r(2,3) by (simp_all add: unat_of_nat)
  then have "i \<le> n" "q \<le> m" using iq le by (simp_all add: word_le_nat_alt)
  then have d: "unat (n - i) = unat n - i'" "unat (m - q) = unat m - q'" using u by (simp_all add: unat_sub)
  show ?thesis
    unfolding process_resample resample_split [OF r(1) le] d u
    by (simp add: r(2,3) option.map_comp comp_def case_prod_beta')
qed

section \<open>When a call is defined\<close>

text \<open>A resampler whose frames and filter fit its channels.\<close>

definition has_frames :: "nat \<Rightarrow> nat \<Rightarrow> 's list option \<Rightarrow> bool" where
  "has_frames ch k xs \<longleftrightarrow> (case xs of None \<Rightarrow> True | Some xs \<Rightarrow> k * ch \<le> length xs)"

lemma has_frames_drop: "has_frames ch (k + l) xs \<Longrightarrow> has_frames ch l (map_option (drop (k * ch)) xs)"
  by (auto simp: has_frames_def add_mult_distrib split: option.splits)

lemma has_frames_mono: "has_frames ch l xs \<Longrightarrow> k \<le> l \<Longrightarrow> has_frames ch k xs"
  by (auto simp: has_frames_def split: option.splits intro: order_trans [OF mult_le_mono1])

definition fits :: "(u32 \<Rightarrow> 'k ma_lpf \<Rightarrow> bool) \<Rightarrow> (u32 \<Rightarrow> bool) \<Rightarrow> ('s, 'k) ma_linear_resampler \<Rightarrow> bool" where
  "fits ready rates r \<longleftrightarrow> rs_wf r \<and> rates (rateOut r) \<and> length (rs_x0 r) = rs_channels r \<and> length (rs_x1 r) = rs_channels r \<and>
     ready (rc_channels (rs_config r)) (rs_lpf r)"

text \<open>What a sample format promises of its interpolation and its filter.\<close>

locale total_resampling =
  fixes ops :: "('s, 'k) resample_ops" and ready :: "u32 \<Rightarrow> 'k ma_lpf \<Rightarrow> bool" and rates :: "u32 \<Rightarrow> bool"
  assumes filter_ready: "ready ch l \<Longrightarrow> length x = unat ch \<Longrightarrow>
      \<exists>y l'. ro_filter ops l x = Some (y, l') \<and> length y = unat ch \<and> ready ch l'"
    and interpolate_ready: "t < rate \<Longrightarrow> rates rate \<Longrightarrow> \<exists>y. ro_interpolate ops t rate a b = Some y"
begin

lemma load_frame_total:
  assumes "fits ready rates r" "has_frames (rs_channels r) (Suc k) xs"
  shows "\<exists>s. load_frame ops down xs r = Some s \<and> same_clock r s \<and> fits ready rates s"
proof -
  let ?ch = "rs_channels r"
  obtain x where x: "input_frame ops ?ch xs = Some x" "length x = ?ch"
    using assms(2) by (cases xs) (auto simp: input_frame_def has_frames_def)
  have "\<exists>y l. (if down \<and> rateIn r \<noteq> rateOut r then ro_filter ops (rs_lpf r) x else Some (x, rs_lpf r)) = Some (y, l) \<and>
      length y = ?ch \<and> ready (rc_channels (rs_config r)) l"
    using assms(1) x(2) filter_ready by (auto simp: fits_def)
  then obtain y l where y: "(if down \<and> rateIn r \<noteq> rateOut r then ro_filter ops (rs_lpf r) x else Some (x, rs_lpf r)) = Some (y, l)"
    "length y = ?ch" "ready (rc_channels (rs_config r)) l" by blast
  let ?s = "r\<lparr>rs_x0 := rs_x1 r, rs_x1 := y, rs_lpf := l\<rparr>"
  have "load_frame ops down xs r = Some ?s" unfolding load_frame_def x(1) bind.bind_lunit y(1) by simp
  moreover have "fits ready rates ?s" using assms(1) y by (simp add: fits_def rs_wf_def)
  ultimately show ?thesis by (auto simp: same_clock_def)
qed

lemma load_frames_total:
  "fits ready rates r \<Longrightarrow> has_frames (rs_channels r) k xs \<Longrightarrow> \<exists>xs' s. load_frames ops down k xs r = Some (xs', s) \<and> fits ready rates s \<and> rs_config s = rs_config r \<and> inTimeFrac s = inTimeFrac r"
proof (induction k arbitrary: xs r)
  case (Suc k)
  obtain s where s: "load_frame ops down xs r = Some s" "same_clock r s" "fits ready rates s"
    using load_frame_total [OF Suc.prems] by blast
  let ?s = "s\<lparr>inTimeInt := inTimeInt r - 1\<rparr>"
  have "fits ready rates ?s" using s(3) by (simp add: fits_def rs_wf_def)
  moreover have "has_frames (rs_channels ?s) k (map_option (drop (rs_channels r)) xs)"
    using has_frames_drop [of "rs_channels r" 1 k xs] Suc.prems(2) s(2) by (simp add: same_clock_def)
  ultimately show ?case using Suc.IH [of ?s] s by (simp add: same_clock_def)
qed simp

lemma emit_frame_total:
  assumes "fits ready rates r"
  shows "\<exists>y s. emit_frame ops down h r = Some (y, s) \<and> same_clock r s \<and> fits ready rates s \<and> length y = (if h then rs_channels r else 0)"
proof -
  have "\<exists>y. ro_interpolate ops (inTimeFrac r) (rateOut r) a b = Some y" for a b
    using assms by (intro interpolate_ready) (simp_all add: fits_def rs_wf_def)
  then obtain g where g: "\<And>a b. ro_interpolate ops (inTimeFrac r) (rateOut r) a b = Some (g a b)" by metis
  have i: "interpolate_frame ops r = Some (map (\<lambda>c. g (rs_x0 r ! c) (rs_x1 r ! c)) [0..<rs_channels r])" (is "_ = Some ?y")
    unfolding interpolate_frame_def by (rule those_map_Some) (rule g)
  obtain z l where z: "ro_filter ops (rs_lpf r) ?y = Some (z, l)" "length z = rs_channels r" "ready (rc_channels (rs_config r)) l"
    using filter_ready [of "rc_channels (rs_config r)" "rs_lpf r" ?y] assms by (auto simp: fits_def)
  have "fits ready rates (r\<lparr>rs_lpf := l\<rparr>)" using assms z(3) by (simp add: fits_def rs_wf_def)
  then show ?thesis using assms z by (auto simp: emit_frame_def i same_clock_def)
qed

lemma resample_total:
  "fits ready rates r \<Longrightarrow> has_frames (rs_channels r) a xs \<Longrightarrow>
   \<exists>ys i q s. resample ops down h m a xs r = Some (ys, i, q, s) \<and> fits ready rates s \<and> length ys = (if h then q * rs_channels r else 0)"
proof (induction m arbitrary: a xs r)
  case (Suc m)
  let ?k = "min (unat (inTimeInt r)) a"
  have hk: "has_frames (rs_channels r) ?k xs" "has_frames (rs_channels r) (a - ?k) (map_option (drop (?k * rs_channels r)) xs)"
    using Suc.prems(2) has_frames_drop [of "rs_channels r" ?k "a - ?k" xs]
    using has_frames_mono [OF Suc.prems(2), of ?k] by simp_all
  obtain xs1 r1 where l: "load_frames ops down ?k xs r = Some (xs1, r1)" "fits ready rates r1" "rs_config r1 = rs_config r"
    using load_frames_total [OF Suc.prems(1) hk(1)] by blast
  have x1: "xs1 = map_option (drop (?k * rs_channels r)) xs" using load_frames_clock [OF l(1)] by simp
  show ?case
  proof (cases "0 < inTimeInt r1")
    case False
    then have z: "inTimeInt r1 = 0" by (simp add: word_gt_0)
    obtain y r2 where e: "emit_frame ops down h r1 = Some (y, r2)" "same_clock r1 r2" "fits ready rates r2" "length y = (if h then rs_channels r1 else 0)"
      using emit_frame_total [OF l(2)] by blast
    have adv: "rs_config (advance_time r2) = rs_config r" using e(2) l(3) by (simp add: advance_time_def same_clock_def Let_def)
    have "rs_wf (advance_time r2)"
      using advance_time_pos [of r2] e(2,3) z by (simp add: fits_def same_clock_def)
    then have "fits ready rates (advance_time r2)" using e(3) by (auto simp: fits_def advance_time_def Let_def split: if_splits)
    then obtain zs j t s where "resample ops down h m (a - ?k) xs1 (advance_time r2) = Some (zs, j, t, s)" "fits ready rates s"
      "length zs = (if h then t * rs_channels r else 0)"
      using Suc.IH [of "advance_time r2" "a - ?k" xs1] hk(2) x1 adv by auto
    then show ?thesis using l e False by (auto simp: Let_def)
  qed (use l in \<open>auto simp: Let_def\<close>)
qed simp

text \<open>A call returns, and with exactly the frames that the rates allow.\<close>

lemma process_total:
  assumes "fits ready rates r" "has_frames (rs_channels r) (unat n) xs"
  shows "\<exists>ys i q s. ma_linear_resampler_process ops down r xs n h m = Some (MA_SUCCESS, ys, i, q, Some s) \<and>
    counts_ok r (unat n) (unat m) (unat i) (unat q) \<and> length ys = (if h then unat q * rs_channels r else 0) \<and>
    fits ready rates s \<and> rs_config s = rs_config r \<and> (0 < q \<longrightarrow> pos s < unat (rateIn r) + unat (rateOut r))"
proof -
  obtain ys i q s where r: "resample ops down h (unat m) (unat n) xs r = Some (ys, i, q, s)" "fits ready rates s"
    "length ys = (if h then q * rs_channels r else 0)" using resample_total [OF assms] by blast
  have p: "ma_linear_resampler_process ops down r xs n h m = Some (MA_SUCCESS, ys, of_nat i, of_nat q, Some s)"
    by (simp add: process_resample r(1))
  have "q \<le> unat m" "unat m < 2 ^ LENGTH(64)" using resample_config [OF r(1)] unsigned_less [of m] by auto
  then have "unat (of_nat q :: u64) = q" by (simp add: unat_of_nat)
  moreover note process_counts [OF p]
  ultimately show ?thesis using p r assms(1)
    by (auto simp: fits_def clock_after_def word_less_nat_alt)
qed

end

definition channels_ready :: "u32 \<Rightarrow> 'k ma_lpf \<Rightarrow> bool" where
  "channels_ready ch lpf \<longleftrightarrow> lpf_channels lpf = ch \<and> lpf_wf lpf \<and> (\<forall>f \<in> set (pLPF1 lpf). length (l1_R1 f) = unat ch) \<and>
     (\<forall>f \<in> set (pLPF2 lpf). length (pR1 f) = unat ch \<and> length (pR2 f) = unat ch)"

lemma chain_total:
  assumes "\<And>f x. f \<in> set fs \<Longrightarrow> length x = n \<Longrightarrow> \<exists>y g. step f x = Some (y, g) \<and> length y = n \<and> P g"
  shows "length x = n \<Longrightarrow> \<exists>y gs. chain step fs x = Some (y, gs) \<and> length y = n \<and> (\<forall>g \<in> set gs. P g)"
  using assms
proof (induction fs arbitrary: x)
  case (Cons f fs)
  obtain y g where y: "step f x = Some (y, g)" "length y = n" "P g" using Cons.prems by fastforce
  then show ?case using Cons.IH [of y] Cons.prems(2) by fastforce
qed simp

lemma lpf_f32_total:
  assumes "channels_ready ch l" "length x = unat ch"
  shows "\<exists>y l'. ma_lpf_process_pcm_frame_f32 l x = Some (y, l') \<and> length y = unat ch \<and> channels_ready ch l'"
proof -
  obtain y fs1 where 1: "chain ma_lpf1_process_pcm_frame_f32 (pLPF1 l) x = Some (y, fs1)" "length y = unat ch"
    "\<forall>f \<in> set fs1. l1_channels f = ch \<and> length (l1_R1 f) = unat ch"
    using assms chain_total [of "pLPF1 l" "unat ch" ma_lpf1_process_pcm_frame_f32 "\<lambda>f. l1_channels f = ch \<and> length (l1_R1 f) = unat ch" x]
    by (auto simp: channels_ready_def lpf_wf_def ma_lpf1_process_pcm_frame_f32_def Let_def)
  obtain z fs2 where 2: "chain ma_lpf2_process_pcm_frame_f32 (pLPF2 l) y = Some (z, fs2)" "length z = unat ch"
    "\<forall>f \<in> set fs2. bq_channels f = ch \<and> length (pR1 f) = unat ch \<and> length (pR2 f) = unat ch"
    using assms 1 chain_total [of "pLPF2 l" "unat ch" ma_lpf2_process_pcm_frame_f32
        "\<lambda>f. bq_channels f = ch \<and> length (pR1 f) = unat ch \<and> length (pR2 f) = unat ch" y]
    by (auto simp: channels_ready_def lpf_wf_def ma_lpf2_process_pcm_frame_f32_def ma_biquad_process_pcm_frame_f32_def Let_def)
  show ?thesis using 1 2 assms by (simp add: ma_lpf_process_pcm_frame_f32_def channels_ready_def lpf_wf_def)
qed

interpretation rs_f32: total_resampling f32_resampling channels_ready "\<lambda>rate. True"
  by unfold_locales (use lpf_f32_total in \<open>auto simp: f32_resampling_def interpolate_f32_def\<close>)

text \<open>On 16-bit samples a filter may overflow; without filters, and with rates that leave 12 bits for the
  fraction, everything is defined.\<close>

lemma sint_shift12: "sint (signed_drop_bit 12 x :: i32) = sint x div 4096"
  by (simp add: sint_signed_drop_bit_eq drop_bit_eq_div)

lemma mix_between:
  assumes "0 \<le> sint a" "sint a \<le> 4096" "lo \<le> sint x" "sint x \<le> hi" "lo \<le> sint y" "sint y \<le> hi" "- 32768 \<le> lo" "hi \<le> 32767"
  shows "\<exists>z. ma_linear_resampler_mix_s16 x y a = Some z \<and> lo \<le> sint z \<and> sint z \<le> hi"
proof -
  obtain i j k where v: "sint a = i" "sint x = j" "sint y = k" by simp
  note r = assms(1-6) [unfolded v] assms(7,8)
  have w: "(scast x :: i32) = word_of_int j" "(scast y :: i32) = word_of_int k" unfolding v(2,3) [symmetric] by (rule scast_i16)+
  have x: "sint (scast x :: i32) = j" and y: "sint (scast y :: i32) = k"
    unfolding w using r by (auto intro!: sint_word_of_int32)
  have one: "sint (4096 :: i32) = 4096" by simp
  have d: "sub32 4096 a = Some (word_of_int (4096 - i))" using r by (intro ops32(2) [OF one v(1)]) auto
  have sd: "sint (word_of_int (4096 - i) :: i32) = 4096 - i" using r by (intro sint_word_of_int32) auto
  have p: "- 536870912 \<le> (4096 - i) * j" "(4096 - i) * j \<le> 536854528" "- 536870912 \<le> i * k" "i * k \<le> 536854528"
    using mult_in_range [of "4096 - i" j] mult_in_range [of i k] r by auto
  have b: "mul32 (scast x) (word_of_int (4096 - i)) = Some (word_of_int (j * (4096 - i)))"
    using p by (intro ops32(3) [OF x sd]) (simp_all only: mult.commute [of j])
  have c: "mul32 (scast y) a = Some (word_of_int (k * i))"
    using p by (intro ops32(3) [OF y v(1)]) (simp_all only: mult.commute [of k])
  have s: "sint (word_of_int ((4096 - i) * j) :: i32) = (4096 - i) * j" "sint (word_of_int (i * k) :: i32) = i * k"
    by (rule sint_word_of_int32; use p in linarith)+
  have sum: "add32 (word_of_int ((4096 - i) * j)) (word_of_int (i * k)) = Some (word_of_int ((4096 - i) * j + i * k))"
    using p by (intro ops32(1) [OF s]) auto
  have t: "sint (word_of_int ((4096 - i) * j + i * k) :: i32) = (4096 - i) * j + i * k"
    using p by (intro sint_word_of_int32) auto
  let ?m = "((4096 - i) * j + i * k) div 4096"
  have m: "lo \<le> ?m" "?m \<le> hi" using weighted_mean [of 4096 i lo j hi k] r by auto
  have "sint (ucast (signed_drop_bit 12 (word_of_int ((4096 - i) * j + i * k) :: i32)) :: i16) = ?m"
    unfolding narrow_i32 sint_shift12 t using m r by (intro sint16_of_int) auto
  moreover have "\<not> 4096 < i" using r by simp
  ultimately show ?thesis using m
    unfolding ma_linear_resampler_mix_s16_def v(1) d bind.bind_lunit b c mult.commute [of j] mult.commute [of k] sum by simp
qed

lemma fraction12:
  assumes "t < rate" "rate \<le> 2 ^ 20"
  shows "0 \<le> sint (push_bit 12 t div rate :: u32) \<and> sint (push_bit 12 t div rate) \<le> 4096"
proof -
  have t: "unat t < unat rate" "unat rate \<le> 2 ^ 20" using assms by (simp_all add: word_less_nat_alt word_le_nat_alt)
  then have "unat t * 4096 < 2 ^ 32" by simp
  then have u: "unat (push_bit 12 t) = unat t * 4096"
    by (simp add: push_bit_eq_mult unat_word_ariths)
  have le: "unat (push_bit 12 t div rate) \<le> 4096"
    unfolding unat_div u using t by (intro less_imp_le_nat) (simp add: div_less_iff_less_mult)
  have s: "sint x = int (unat x)" if "unat x \<le> 4096" for x :: u32
  proof -
    have "uint x \<le> 4096" using of_nat_mono [OF that, where ?'a = int] by simp
    moreover have "- 2147483648 \<le> uint x" using uint_ge_0 [of x] by linarith
    ultimately show ?thesis using sint_word_of_int32 [of "uint x"] by simp
  qed
  show ?thesis unfolding s [OF le] using le by (intro conjI) linarith+
qed

lemma interpolate_s16_between:
  assumes "t < rate" "rate \<le> 2 ^ 20"
  shows "\<exists>z. interpolate_s16 t rate x y = Some z \<and> min (sint x) (sint y) \<le> sint z \<and> sint z \<le> max (sint x) (sint y)"
  using mix_between [of "push_bit 12 t div rate" "min (sint x) (sint y)" x "max (sint x) (sint y)" y] fraction12 [OF assms]
    sint16_bounds [of x] sint16_bounds [of y] assms(1)
  by (auto simp: interpolate_s16_def min_def max_def)

definition no_filters :: "u32 \<Rightarrow> 'k ma_lpf \<Rightarrow> bool" where
  "no_filters ch lpf \<longleftrightarrow> pLPF1 lpf = [] \<and> pLPF2 lpf = []"

interpretation rs_s16: total_resampling s16_resampling no_filters "\<lambda>rate. rate \<le> 2 ^ 20"
proof unfold_locales
  show "\<exists>y. ro_interpolate s16_resampling t rate a b = Some y" if "t < rate" "rate \<le> 2 ^ 20" for t rate a b
    using interpolate_s16_between [OF that] by (auto simp: s16_resampling_def)
qed (auto simp: s16_resampling_def no_filters_def ma_lpf_process_pcm_frame_s16_def)

end
