(* ===== verification/Ma_Resampling.thy ===== *)
theory Ma_Resampling
  imports Ma_Resample_Stream
begin

text \<open>
  What a client of the linear resampler of miniaudio (\<open>client/native/miniaudio.h\<close>) may rely on: how it is set
  up and its rates changed, how many frames a call takes and gives, and what the predictions are worth.
\<close>

section \<open>Rates\<close>

lemma gcf_gcd: "unat (ma_gcf_u32 a b) = gcd (unat a) (unat b)"
proof (induction a b rule: ma_gcf_u32.induct)
  case (1 a b)
  show ?case
  proof (cases "b = 0")
    case False
    then have "gcd (unat a) (unat b) = gcd (unat b) (unat a mod unat b)" by (intro gcd_red_nat)
    then show ?thesis using 1 False by (subst ma_gcf_u32.simps) (simp add: unat_mod)
  qed (simp add: ma_gcf_u32.simps)
qed

text \<open>Two rates in lowest terms.\<close>

definition reduced :: "u32 \<Rightarrow> u32 \<Rightarrow> u32 \<Rightarrow> u32 \<Rightarrow> bool" where
  "reduced newIn newOut a b \<longleftrightarrow> coprime (unat a) (unat b) \<and>
     (\<exists>g > 0. unat newIn = g * unat a \<and> unat newOut = g * unat b)"

lemma reduced_gcf:
  assumes "newIn \<noteq> 0" "newOut \<noteq> 0"
  defines "g \<equiv> ma_gcf_u32 newIn newOut"
  shows "reduced newIn newOut (newIn div g) (newOut div g)" "newIn div g \<noteq> 0" "newOut div g \<noteq> 0" "newOut div g \<le> newOut"
proof -
  let ?g = "gcd (unat newIn) (unat newOut)"
  have n: "unat newIn \<noteq> 0" "unat newOut \<noteq> 0" using assms(1,2) by (simp_all add: unat_eq_0)
  then have g: "?g \<noteq> 0" by simp
  have d: "unat (newIn div g) = unat newIn div ?g" "unat (newOut div g) = unat newOut div ?g"
    by (simp_all add: g_def unat_div gcf_gcd)
  have e: "unat newIn = ?g * (unat newIn div ?g)" "unat newOut = ?g * (unat newOut div ?g)" by simp_all
  show "reduced newIn newOut (newIn div g) (newOut div g)"
    unfolding reduced_def d using e g div_gcd_coprime [of "unat newIn" "unat newOut"] n by blast
  show "newIn div g \<noteq> 0" "newOut div g \<noteq> 0" using e n d by (metis mult_0_right unat_0)+
  show "newOut div g \<le> newOut" unfolding word_le_nat_alt d by (rule div_le_dividend)
qed

lemma adjust_timer:
  fixes r :: "('s, 'k) ma_linear_resampler"
  shows "rs_config (ma_linear_resampler_adjust_timer_for_new_rate a b r) = rs_config r"
    "inAdvanceInt (ma_linear_resampler_adjust_timer_for_new_rate a b r) = inAdvanceInt r"
    "inAdvanceFrac (ma_linear_resampler_adjust_timer_for_new_rate a b r) = inAdvanceFrac r"
    "rs_x0 (ma_linear_resampler_adjust_timer_for_new_rate a b r) = rs_x0 r"
    "rs_x1 (ma_linear_resampler_adjust_timer_for_new_rate a b r) = rs_x1 r"
    "rs_lpf (ma_linear_resampler_adjust_timer_for_new_rate a b r) = rs_lpf r"
    "rateOut r = c \<Longrightarrow> 0 < c \<Longrightarrow> inTimeFrac (ma_linear_resampler_adjust_timer_for_new_rate a b r) < c"
  by (auto simp add: ma_linear_resampler_adjust_timer_for_new_rate_def Let_def word_less_nat_alt unat_mod)

text \<open>Setting the rates: the filter is set up, the rates are reduced, the frames stay.\<close>

definition lpf_set :: "libm \<Rightarrow> ('s, 'k) resample_ops \<Rightarrow> bool \<Rightarrow> ma_lpf_config \<Rightarrow> 'k ma_lpf \<Rightarrow> (ma_result \<times> 'k ma_lpf option) option" where
  "lpf_set m ops isInit cfg lpf =
     (if isInit then ma_lpf_reinit m (ro_coef_zero ops) (ro_coef ops) (Some cfg) (Some lpf)
      else ma_lpf_init_preallocated m (ro_coef_zero ops) (ro_coef ops) (Some cfg) (Some lpf))"

definition kept :: "'a \<Rightarrow> 'a option \<Rightarrow> 'a" where
  "kept old new = (case new of None \<Rightarrow> old | Some x \<Rightarrow> x)"

lemma kept_simps [simp]: "kept old None = old" "kept old (Some x) = x"
  by (simp_all add: kept_def)

lemma set_rate_success:
  assumes "ma_linear_resampler_set_rate_internal m ops newIn newOut isInit (Some r) = Some (MA_SUCCESS, Some s)"
  shows "newIn \<noteq> 0 \<and> newOut \<noteq> 0 \<and> rateIn s = newIn div ma_gcf_u32 newIn newOut \<and> rateOut s = newOut div ma_gcf_u32 newIn newOut \<and>
    inAdvanceInt s = rateIn s div rateOut s \<and> inAdvanceFrac s = rateIn s mod rateOut s \<and> inTimeFrac s < rateOut s \<and>
    rs_x0 s = rs_x0 r \<and> rs_x1 s = rs_x1 r \<and> rc_channels (rs_config s) = rc_channels (rs_config r) \<and> rc_format (rs_config s) = rc_format (rs_config r) \<and>
    (\<exists>cfg l. lpf_set m ops isInit cfg (rs_lpf r) = Some (MA_SUCCESS, l) \<and> c_channels cfg = rc_channels (rs_config r) \<and>
      rs_lpf s = kept (rs_lpf r) l)"
proof -
  have n: "newIn \<noteq> 0" "newOut \<noteq> 0"
    using assms by (auto simp: ma_linear_resampler_set_rate_internal_def)
  then have out: "0 < newOut div ma_gcf_u32 newIn newOut" using reduced_gcf(3) by (simp add: word_gt_0)
  show ?thesis
    using assms n out unfolding ma_linear_resampler_set_rate_internal_def lpf_set_def [symmetric] option.case Let_def
    by (auto simp: adjust_timer split: option.splits if_splits prod.splits)
      (rule exI, rule exI, rule conjI, assumption, simp add: ma_lpf_config_init_def adjust_timer)+
qed

lemma set_rate_time:
  assumes "ma_linear_resampler_set_rate_internal m ops newIn newOut isInit (Some r) = Some (MA_SUCCESS, Some s)"
  shows "inTimeInt s = inTimeInt (ma_linear_resampler_adjust_timer_for_new_rate (rateOut r) (rateOut s) (r\<lparr>rs_config := rs_config s\<rparr>)) \<and>
    inTimeFrac s = inTimeFrac (ma_linear_resampler_adjust_timer_for_new_rate (rateOut r) (rateOut s) (r\<lparr>rs_config := rs_config s\<rparr>))"
  using assms unfolding ma_linear_resampler_set_rate_internal_def option.case Let_def
  by (auto simp: ma_linear_resampler_adjust_timer_for_new_rate_def Let_def split: option.splits if_splits prod.splits)

lemma lpf_internal_some:
  "ma_lpf_reinit__internal m z coef (Some cfg) (Some old) isNew = Some (MA_SUCCESS, l) \<Longrightarrow> \<exists>lpf. l = Some lpf"
  by (auto simp: ma_lpf_reinit__internal_def Let_def split: if_splits prod.splits)

lemma lpf_set_ready:
  assumes "lpf_set m ops isInit cfg old = Some (MA_SUCCESS, l)" "isInit \<Longrightarrow> channels_ready (c_channels cfg) old"
  shows "\<exists>lpf. l = Some lpf \<and> channels_ready (c_channels cfg) lpf"
proof -
  obtain lpf where l: "l = Some lpf"
    using assms(1) lpf_internal_some
    by (fastforce simp: lpf_set_def ma_lpf_reinit_def ma_lpf_init_preallocated_def split: if_splits)
  show ?thesis
  proof (cases isInit)
    case True
    then have "ma_lpf_reinit m (ro_coef_zero ops) (ro_coef ops) (Some cfg) (Some old) = Some (MA_SUCCESS, Some lpf)"
      using assms(1) by (simp add: lpf_set_def l)
    with lpf_set_up [of m "ro_coef_zero ops" "ro_coef ops" cfg old lpf] have
      "lpf_wf lpf" "lpf_channels lpf = c_channels cfg" "list_all2 (\<lambda>f g. l1_R1 g = l1_R1 f) (pLPF1 old) (pLPF1 lpf)"
      "list_all2 (\<lambda>f g. pR1 g = pR1 f \<and> pR2 g = pR2 f) (pLPF2 old) (pLPF2 lpf)" by blast+
    then show ?thesis using assms(2) [OF True]
      by (simp add: l channels_ready_def list_all2_conv_all_nth all_set_conv_all_nth)
  next
    case False
    then have "ma_lpf_init_preallocated m (ro_coef_zero ops) (ro_coef ops) (Some cfg) (Some old) = Some (MA_SUCCESS, Some lpf)"
      using assms(1) by (simp add: lpf_set_def l)
    with lpf_set_up [of m "ro_coef_zero ops" "ro_coef ops" cfg old lpf] show ?thesis
      by (auto simp: l channels_ready_def)
  qed
qed

lemma set_rate_fits:
  assumes "ma_linear_resampler_set_rate_internal m ops newIn newOut isInit (Some r) = Some (MA_SUCCESS, Some s)"
    and "newOut \<le> 2 ^ 31" "length (rs_x0 r) = rs_channels r" "length (rs_x1 r) = rs_channels r"
    and "isInit \<Longrightarrow> channels_ready (rc_channels (rs_config r)) (rs_lpf r)"
  shows "fits channels_ready (\<lambda>_. True) s \<and> reduced newIn newOut (rateIn s) (rateOut s)"
proof -
  obtain cfg l where sr: "newIn \<noteq> 0" "newOut \<noteq> 0" "rateIn s = newIn div ma_gcf_u32 newIn newOut"
      "rateOut s = newOut div ma_gcf_u32 newIn newOut" "inAdvanceInt s = rateIn s div rateOut s" "inAdvanceFrac s = rateIn s mod rateOut s"
      "inTimeFrac s < rateOut s" "rs_x0 s = rs_x0 r" "rs_x1 s = rs_x1 r" "rc_channels (rs_config s) = rc_channels (rs_config r)"
      "lpf_set m ops isInit cfg (rs_lpf r) = Some (MA_SUCCESS, l)" "c_channels cfg = rc_channels (rs_config r)" "rs_lpf s = kept (rs_lpf r) l"
    using set_rate_success [OF assms(1)] by blast
  obtain lpf where "l = Some lpf" "channels_ready (c_channels cfg) lpf"
    using lpf_set_ready [OF sr(11)] assms(5) sr(12) by auto
  moreover have "unat (rateOut s) \<le> 2 ^ 31"
    using order_trans [OF reduced_gcf(4) [OF sr(1,2)] assms(2)] unfolding sr(4) by (simp add: word_le_nat_alt)
  moreover have "0 < rateIn s" "0 < rateOut s" using reduced_gcf(2,3) [OF sr(1,2)] sr(3,4) by (simp_all add: word_gt_0)
  ultimately show ?thesis using sr assms(3,4) reduced_gcf(1) [OF sr(1,2)] by (simp add: fits_def rs_wf_def)
qed

text \<open>Both formats choose the direction by the rates.\<close>

lemma process_pcm_frames_eq:
  "ma_linear_resampler_process_pcm_frames_f32 r = ma_linear_resampler_process f32_resampling (rateOut r < rateIn r) r"
  "ma_linear_resampler_process_pcm_frames_s16 r' = ma_linear_resampler_process s16_resampling (rateOut r' < rateIn r') r'"
  by (cases "rateOut r < rateIn r"; cases "rateOut r' < rateIn r'"; simp add: ma_linear_resampler_process_pcm_frames_f32_def
      ma_linear_resampler_process_pcm_frames_f32_downsample_def ma_linear_resampler_process_pcm_frames_f32_upsample_def
      ma_linear_resampler_process_pcm_frames_s16_def
      ma_linear_resampler_process_pcm_frames_s16_downsample_def ma_linear_resampler_process_pcm_frames_s16_upsample_def)+

section \<open>Bounds on 16-bit samples\<close>

definition between :: "int \<Rightarrow> int \<Rightarrow> i16 list \<Rightarrow> bool" where
  "between lo hi xs \<longleftrightarrow> (\<forall>x \<in> set xs. lo \<le> sint x \<and> sint x \<le> hi)"

text \<open>The frames held and the frames to come; a missing input is silence.\<close>

definition held_between :: "int \<Rightarrow> int \<Rightarrow> (i16, i32) ma_linear_resampler \<Rightarrow> bool" where
  "held_between lo hi r \<longleftrightarrow> between lo hi (rs_x0 r) \<and> between lo hi (rs_x1 r) \<and> no_filters (rc_channels (rs_config r)) (rs_lpf r)"

definition input_between :: "int \<Rightarrow> int \<Rightarrow> i16 list option \<Rightarrow> bool" where
  "input_between lo hi xs \<longleftrightarrow> (case xs of None \<Rightarrow> lo \<le> 0 \<and> 0 \<le> hi | Some xs \<Rightarrow> between lo hi xs)"

lemma input_between_drop: "input_between lo hi xs \<Longrightarrow> input_between lo hi (map_option (drop k) xs)"
  by (auto simp: input_between_def between_def split: option.splits dest: in_set_dropD)

lemma load_frame_between:
  "load_frame s16_resampling down xs r = Some s \<Longrightarrow> held_between lo hi r \<Longrightarrow> input_between lo hi xs \<Longrightarrow> held_between lo hi s"
proof -
  assume l: "load_frame s16_resampling down xs r = Some s" and h: "held_between lo hi r" and i: "input_between lo hi xs"
  obtain x where x: "input_frame s16_resampling (rs_channels r) xs = Some x" using l by (auto simp: load_frame_def bind_eq_Some_conv)
  then have "between lo hi x" using i
    by (auto simp: input_frame_def input_between_def s16_resampling_def between_def split: option.splits if_splits dest!: in_set_takeD)
  then show ?thesis using l x h
    by (auto simp: load_frame_def held_between_def s16_resampling_def no_filters_def ma_lpf_process_pcm_frame_s16_def split: if_splits)
qed

lemma load_frames_between:
  "load_frames s16_resampling down k xs r = Some (xs', s) \<Longrightarrow> held_between lo hi r \<Longrightarrow> input_between lo hi xs \<Longrightarrow>
   held_between lo hi s \<and> input_between lo hi xs'"
proof (induction k arbitrary: xs r)
  case (Suc k)
  obtain s1 where s1: "load_frame s16_resampling down xs r = Some s1"
    "load_frames s16_resampling down k (map_option (drop (rs_channels r)) xs) (s1\<lparr>inTimeInt := inTimeInt r - 1\<rparr>) = Some (xs', s)"
    using Suc.prems(1) by (auto split: option.splits)
  have "held_between lo hi (s1\<lparr>inTimeInt := inTimeInt r - 1\<rparr>)"
    using load_frame_between [OF s1(1) Suc.prems(2,3)] by (simp add: held_between_def)
  then show ?case using Suc.IH [OF s1(2)] input_between_drop [OF Suc.prems(3)] by blast
qed simp

lemma emit_frame_between:
  assumes "emit_frame s16_resampling down h r = Some (y, s)" "held_between lo hi r"
    and "fits no_filters (\<lambda>rate. rate \<le> 2 ^ 20) r"
  shows "between lo hi y \<and> held_between lo hi s"
proof -
  have "\<exists>z. interpolate_s16 (inTimeFrac r) (rateOut r) (rs_x0 r ! c) (rs_x1 r ! c) = Some z \<and> lo \<le> sint z \<and> sint z \<le> hi"
    if "c < rs_channels r" for c
  proof -
    have "rs_x0 r ! c \<in> set (rs_x0 r)" "rs_x1 r ! c \<in> set (rs_x1 r)" using that assms(3) by (simp_all add: fits_def)
    then show ?thesis using interpolate_s16_between [of "inTimeFrac r" "rateOut r" "rs_x0 r ! c" "rs_x1 r ! c"] assms(2,3)
      by (fastforce simp: fits_def rs_wf_def held_between_def between_def)
  qed
  then obtain g where g: "\<And>c. c < rs_channels r \<Longrightarrow>
      interpolate_s16 (inTimeFrac r) (rateOut r) (rs_x0 r ! c) (rs_x1 r ! c) = Some (g c) \<and> lo \<le> sint (g c) \<and> sint (g c) \<le> hi"
    by metis
  have "interpolate_frame s16_resampling r = Some (map g [0..<rs_channels r])"
    unfolding interpolate_frame_def by (rule those_map_Some) (use g in \<open>simp add: s16_resampling_def\<close>)
  then show ?thesis using assms(1,2) g
    by (auto simp: emit_frame_def s16_resampling_def held_between_def no_filters_def ma_lpf_process_pcm_frame_s16_def between_def
        split: if_splits)
qed

lemma resample_between:
  "resample s16_resampling down h m a xs r = Some (ys, i, q, s) \<Longrightarrow> held_between lo hi r \<Longrightarrow> input_between lo hi xs \<Longrightarrow>
   fits no_filters (\<lambda>rate. rate \<le> 2 ^ 20) r \<Longrightarrow> has_frames (rs_channels r) a xs \<Longrightarrow> between lo hi ys"
proof (induction m arbitrary: a xs r ys i q)
  case (Suc m)
  let ?k = "min (unat (inTimeInt r)) a"
  have hk: "has_frames (rs_channels r) ?k xs" using Suc.prems(5) by (rule has_frames_mono) simp
  obtain xs1 r1 where l: "load_frames s16_resampling down ?k xs r = Some (xs1, r1)"
    "fits no_filters (\<lambda>rate. rate \<le> 2 ^ 20) r1" "rs_config r1 = rs_config r"
    using rs_s16.load_frames_total [OF Suc.prems(4) hk] by blast
  note b = load_frames_between [OF l(1) Suc.prems(2,3)]
  show ?case
  proof (cases "0 < inTimeInt r1")
    case False
    then have z: "inTimeInt r1 = 0" by (simp add: word_gt_0)
    obtain y r2 zs j t where e: "emit_frame s16_resampling down h r1 = Some (y, r2)"
      "resample s16_resampling down h m (a - ?k) xs1 (advance_time r2) = Some (zs, j, t, s)" "ys = y @ zs"
      using Suc.prems(1) l(1) False by (auto simp: Let_def split: option.splits)
    have same: "same_clock r1 r2" "fits no_filters (\<lambda>rate. rate \<le> 2 ^ 20) r2"
      using rs_s16.emit_frame_total [OF l(2), of down h] e(1) by auto
    note eb = emit_frame_between [OF e(1) _ l(2), of lo hi]
    have "rs_wf (advance_time r2)" using advance_time_pos [of r2] same z by (simp add: fits_def same_clock_def)
    then have f: "fits no_filters (\<lambda>rate. rate \<le> 2 ^ 20) (advance_time r2)"
      using same(2) by (auto simp: fits_def advance_time_def Let_def no_filters_def split: if_splits)
    have "held_between lo hi (advance_time r2)" using eb b by (auto simp: held_between_def advance_time_def Let_def no_filters_def)
    moreover have "has_frames (rs_channels (advance_time r2)) (a - ?k) xs1"
      using has_frames_drop [of "rs_channels r" ?k "a - ?k" xs] Suc.prems(5) load_frames_clock [OF l(1)] same(1)
      by (simp add: same_clock_def advance_time_def Let_def)
    ultimately have "between lo hi zs" using Suc.IH [OF e(2)] b f by blast
    then show ?thesis using eb b e(3) by (auto simp: between_def)
  qed (use Suc.prems(1) l(1) in \<open>auto simp: Let_def between_def\<close>)
qed (simp add: between_def)

section \<open>Properties\<close>

text \<open>Setting up a resampler. A new resampler has its rates in lowest terms, cleared frames, its clock one
  input frame before the first output frame, and everything in its place; changing the rates later keeps
  the rates in lowest terms, the frames it holds, and everything in its place.\<close>

theorem resampler_set_up:
  assumes "0 < rc_channels cfg" "sampleRateOut cfg \<le> 2 ^ 31" "newOut \<le> 2 ^ 31"
  shows "(ma_linear_resampler_init_preallocated m ops (Some cfg) (Some old) = Some (MA_SUCCESS, Some r) \<longrightarrow>
      fits channels_ready (\<lambda>_. True) r \<and> reduced (sampleRateIn cfg) (sampleRateOut cfg) (rateIn r) (rateOut r) \<and>
      pos r = unat (rateOut r) \<and> rs_channels r = unat (rc_channels cfg) \<and> rc_format (rs_config r) = rc_format cfg \<and>
      rs_x0 r = replicate (unat (rc_channels cfg)) (ro_zero ops) \<and> rs_x1 r = rs_x0 r) \<and>
    (fits channels_ready (\<lambda>_. True) r \<longrightarrow> ma_linear_resampler_set_rate m ops (Some r) newIn newOut = Some (MA_SUCCESS, Some s) \<longrightarrow>
      fits channels_ready (\<lambda>_. True) s \<and> reduced newIn newOut (rateIn s) (rateOut s) \<and>
      rs_x0 s = rs_x0 r \<and> rs_x1 s = rs_x1 r \<and> rs_channels s = rs_channels r \<and> rc_format (rs_config s) = rc_format (rs_config r))"
proof (rule conjI; intro impI)
  let ?zeros = "replicate (unat (rc_channels cfg)) (ro_zero ops)"
  let ?r0 = "\<lparr>rs_config = cfg, inAdvanceInt = 0, inAdvanceFrac = 0, inTimeInt = 0, inTimeFrac = 0, rs_x0 = ?zeros, rs_x1 = ?zeros,
    rs_lpf = \<lparr>lpf_format = ma_format_unknown, lpf_channels = 0, lpf_sampleRate = 0, pLPF1 = [], pLPF2 = []\<rparr>\<rparr>"
  assume "ma_linear_resampler_init_preallocated m ops (Some cfg) (Some old) = Some (MA_SUCCESS, Some r)"
  then obtain s where s: "ma_linear_resampler_set_rate_internal m ops (sampleRateIn cfg) (sampleRateOut cfg) False (Some ?r0)
      = Some (MA_SUCCESS, Some s)" "r = s\<lparr>inTimeInt := 1, inTimeFrac := 0\<rparr>"
    unfolding ma_linear_resampler_init_preallocated_def Let_def
    by (auto split: if_splits option.splits)
  have "fits channels_ready (\<lambda>_. True) s \<and> reduced (sampleRateIn cfg) (sampleRateOut cfg) (rateIn s) (rateOut s)"
    by (rule set_rate_fits [OF s(1) assms(2)]) simp_all
  then show "fits channels_ready (\<lambda>_. True) r \<and> reduced (sampleRateIn cfg) (sampleRateOut cfg) (rateIn r) (rateOut r) \<and>
      pos r = unat (rateOut r) \<and> rs_channels r = unat (rc_channels cfg) \<and> rc_format (rs_config r) = rc_format cfg \<and>
      rs_x0 r = ?zeros \<and> rs_x1 r = rs_x0 r"
    using set_rate_success [OF s(1)] s(2) by (simp add: fits_def rs_wf_def pos_def)
next
  assume r: "fits channels_ready (\<lambda>_. True) r" and s: "ma_linear_resampler_set_rate m ops (Some r) newIn newOut = Some (MA_SUCCESS, Some s)"
  note s = s [unfolded ma_linear_resampler_set_rate_def]
  have "fits channels_ready (\<lambda>_. True) s \<and> reduced newIn newOut (rateIn s) (rateOut s)"
    by (rule set_rate_fits [OF s assms(3)]) (use r in \<open>simp_all add: fits_def\<close>)
  then show "fits channels_ready (\<lambda>_. True) s \<and> reduced newIn newOut (rateIn s) (rateOut s) \<and>
      rs_x0 s = rs_x0 r \<and> rs_x1 s = rs_x1 r \<and> rs_channels s = rs_channels r \<and> rc_format (rs_config s) = rc_format (rs_config r)"
    using set_rate_success [OF s] by simp
qed

text \<open>C25: A call on floating-point samples with enough input returns, and takes and gives exactly the frames that
  the code's own prediction announces: with at least as many input frames as are required for \<open>m\<close> output
  frames it produces all \<open>m\<close> and consumes exactly the frames required; with fewer it consumes them all and
  produces as many as they allow, one more of which would need more input.\<close>

theorem resampler_exact_counts:
  assumes "fits channels_ready (\<lambda>_. True) r" "rc_format (rs_config r) = ma_format_f32"
    and "has_frames (rs_channels r) (unat n) xs" "m \<le> 2 ^ 31"
  shows "\<exists>ys i q s w. ma_linear_resampler_process_pcm_frames ma_format_f32 ma_linear_resampler_process_pcm_frames_f32 (Some r) xs n h m =
      Some (MA_SUCCESS, ys, i, q, Some s) \<and>
    ma_linear_resampler_get_required_input_frame_count (Some r) m (Some x) = (MA_SUCCESS, Some w) \<and>
    (if w \<le> n then q = m \<and> i = w else q < m \<and> i = n \<and> needed r (unat q) \<le> unat n \<and> unat n < needed r (Suc (unat q))) \<and>
    length ys = (if h then unat q * rs_channels r else 0) \<and> fits channels_ready (\<lambda>_. True) s \<and> rs_config s = rs_config r"
proof -
  define down where "down = (rateOut r < rateIn r)"
  obtain ys i q s where p: "ma_linear_resampler_process f32_resampling down r xs n h m = Some (MA_SUCCESS, ys, i, q, Some s)"
    and c: "counts_ok r (unat n) (unat m) (unat i) (unat q)" and l: "length ys = (if h then unat q * rs_channels r else 0)"
    and f: "fits channels_ready (\<lambda>_. True) s" "rs_config s = rs_config r"
    using rs_f32.process_total [OF assms(1,3)] by blast
  have "rs_wf r" using assms(1) by (simp add: fits_def)
  then obtain w where w: "ma_linear_resampler_get_required_input_frame_count (Some r) m (Some x) = (MA_SUCCESS, Some w)"
    "unat w = needed r (unat m)" using required_exact [OF _ assms(4)] by blast
  have call: "ma_linear_resampler_process_pcm_frames ma_format_f32 ma_linear_resampler_process_pcm_frames_f32 (Some r) xs n h m =
      Some (MA_SUCCESS, ys, i, q, Some s)"
    using p assms(2) by (simp add: ma_linear_resampler_process_pcm_frames_def process_pcm_frames_eq down_def)
  have "if w \<le> n then q = m \<and> i = w else q < m \<and> i = n \<and> needed r (unat q) \<le> unat n \<and> unat n < needed r (Suc (unat q))"
    using c needed_mono [of "Suc (unat q)" "unat m" r] w(2)
    by (auto simp: counts_ok_def word_le_nat_alt word_less_nat_alt word_unat_eq_iff split: if_splits)
  then show ?thesis using call w(1) l f by blast
qed

text \<open>C26: Resampling 16-bit samples in chunks. A client may cut the input and the output into calls as it likes: a call that is
  given fewer frames or less room, followed by a call with the rest of the input and of the room, returns
  the same samples, consumes the same frames and leaves the same resampler as one call would.\<close>

theorem resample_in_chunks:
  assumes "ma_linear_resampler_process_pcm_frames_s16 r xs n1 h m1 = Some (e, ys, i, q, Some s)" "n1 \<le> n" "m1 \<le> m"
  shows "ma_linear_resampler_process_pcm_frames_s16 r xs n h m =
    map_option (\<lambda>(e, zs, j, t, u). (e, ys @ zs, i + j, q + t, u))
      (ma_linear_resampler_process_pcm_frames_s16 s (map_option (drop (unat i * rs_channels r)) xs) (n - i) h (m - q))"
proof -
  note p = assms(1) [unfolded process_pcm_frames_eq]
  have "rs_config s = rs_config r" using p resample_config by (fastforce simp: process_resample)
  then show ?thesis using process_chunks [OF p assms(2,3)] by (simp add: process_pcm_frames_eq)
qed

text \<open>The number of frames to expect. From \<open>n\<close> input frames, with its clock less than an input and an output
  frame ahead, a resampler never produces fewer frames than the code expects when it has room for them;
  and as long as it waits for an input frame it never produces more.\<close>

theorem expected_frames_bounds:
  assumes "ma_linear_resampler_get_expected_output_frame_count (Some r) n (Some x) = (e, Some w)"
    and "ma_linear_resampler_process_pcm_frames_f32 r xs n h m = Some (e', ys, i, q, s)"
    and "rs_wf r" "n < 2 ^ 31" "unat n * unat (rateOut r) < 2 ^ 31 * unat (rateIn r)"
  shows "e = MA_SUCCESS \<and> (pos r < unat (rateIn r) + unat (rateOut r) \<longrightarrow> w \<le> m \<longrightarrow> w \<le> q) \<and> (0 < inTimeInt r \<longrightarrow> q \<le> w)"
proof -
  let ?k = "unat n * unat (rateOut r) div unat (rateIn r)"
  have rates: "0 < rateOut r" "0 < rateIn r" using assms(3) by (simp_all add: rs_wf_def)
  have w: "e = MA_SUCCESS" "unat w = (if needed r (Suc ?k) \<le> unat n then Suc ?k else ?k)"
    using expected_eq [OF assms(3) rates(2) assms(4,5), of x] assms(1) by auto
  have c: "unat q \<le> unat m" "needed r (unat q) \<le> unat n" "unat q < unat m \<Longrightarrow> unat n < needed r (Suc (unat q))"
    using process_counts [OF assms(2) [unfolded process_pcm_frames_eq] assms(3)] by (auto simp: counts_ok_def)
  note b = expected_bounds [OF rates, of "unat n", folded w(2)]
  have "w \<le> q" if "pos r < unat (rateIn r) + unat (rateOut r)" "w \<le> m"
  proof (rule ccontr)
    assume "\<not> w \<le> q"
    then have "unat q < unat w" "unat q < unat m" using that(2) by (simp_all add: word_le_nat_alt)
    then show False using c(3) needed_mono [of "Suc (unat q)" "unat w" r] b(1) [OF that(1)] by simp
  qed
  moreover have "q \<le> w" if "0 < inTimeInt r"
  proof (rule ccontr)
    assume "\<not> q \<le> w"
    then have "Suc (unat w) \<le> unat q" by (simp add: word_le_nat_alt)
    then show False using needed_mono [of "Suc (unat w)" "unat q" r] b(2) [OF that] c(2) by simp
  qed
  ultimately show ?thesis using w(1) by simp
qed

text \<open>A resampler that does not wait for an input frame may produce many more frames than expected. Asked what
  no input at all will give, the code answers one frame; what it gives is every output frame before the
  next input frame.\<close>

theorem expected_frames_too_low:
  assumes "fits channels_ready (\<lambda>_. True) r" "rateIn r < rateOut r" "inTimeInt r = 0"
  shows "ma_linear_resampler_get_expected_output_frame_count (Some r) 0 (Some x) = (MA_SUCCESS, Some 1) \<and>
    (\<exists>ys q s. ma_linear_resampler_process_pcm_frames_f32 r xs 0 h m = Some (MA_SUCCESS, ys, 0, q, Some s) \<and>
      unat q = min (unat m) ((unat (rateOut r) - unat (inTimeFrac r) + unat (rateIn r) - 1) div unat (rateIn r)))"
proof -
  let ?in = "unat (rateIn r)" and ?out = "unat (rateOut r)" and ?f = "unat (inTimeFrac r)"
  have wf: "rs_wf r" "0 < ?in" "?f < ?out" using assms(1) by (simp_all add: fits_def rs_wf_def word_less_nat_alt)
  have "unat (ucast (inTimeFrac r) div ucast (rateOut r) :: u64) = 0" using wf by (simp add: unat_div unat_u64)
  then have "ucast (inTimeFrac r) div ucast (rateOut r) = (0 :: u64)" by (simp add: unat_eq_0)
  then have e: "ma_linear_resampler_get_expected_output_frame_count (Some r) 0 (Some x) = (MA_SUCCESS, Some 1)"
    using assms(3) by (simp add: ma_linear_resampler_get_expected_output_frame_count_def Let_def)
  have none: "has_frames (rs_channels r) (unat (0 :: u64)) xs" by (simp add: has_frames_def split: option.splits)
  obtain ys i q s where p: "ma_linear_resampler_process f32_resampling False r xs 0 h m = Some (MA_SUCCESS, ys, i, q, Some s)"
    "counts_ok r 0 (unat m) (unat i) (unat q)"
    using rs_f32.process_total [OF assms(1) none] by fastforce
  have "needed r (Suc k) = 0 \<longleftrightarrow> ?f + k * ?in < ?out" for k
    using wf assms(3) by (simp add: needed_Suc pos_def div_eq_0_iff)
  moreover have "?f + k * ?in < ?out \<longleftrightarrow> k < (?out - ?f + ?in - 1) div ?in" for k
  proof -
    have "k < (?out - ?f + ?in - 1) div ?in \<longleftrightarrow> Suc k * ?in \<le> ?out - ?f + ?in - 1"
      using wf(2) by (simp add: less_eq_div_iff_mult_less_eq Suc_le_eq [symmetric])
    then show ?thesis using wf by simp linarith
  qed
  ultimately have n: "needed r (Suc k) = 0 \<longleftrightarrow> k < (?out - ?f + ?in - 1) div ?in" for k by simp
  have "unat q = min (unat m) ((?out - ?f + ?in - 1) div ?in)"
    using p(2) n [of "unat q"] n [of "unat q - 1"] by (cases "unat q") (auto simp: counts_ok_def needed_def split: if_splits)
  moreover have "i = 0" using p(2) by (simp add: counts_ok_def unat_eq_0)
  moreover have down: "(rateOut r < rateIn r) = False" using assms(2) by (simp add: not_less less_imp_le)
  moreover have "ma_linear_resampler_process_pcm_frames_f32 r xs 0 h m = Some (MA_SUCCESS, ys, i, q, Some s)"
    using p(1) down by (simp only: process_pcm_frames_eq)
  ultimately show ?thesis using e by blast
qed

text \<open>Changing the rates. The position between two input frames is rescaled in 32 bits. Setting rates that give
  the output rate it already has leaves the clock alone exactly if the fraction times the output rate is
  below \<open>2 ^ 32\<close>; otherwise it moves the clock back.\<close>

theorem same_rate_moves_clock:
  assumes "ma_linear_resampler_set_rate m ops (Some r) newIn newOut = Some (MA_SUCCESS, Some s)"
    and "rateOut s = rateOut r" "inTimeFrac r < rateOut r"
  shows "inTimeInt s = inTimeInt r \<and> inTimeFrac s \<le> inTimeFrac r \<and>
    (inTimeFrac s = inTimeFrac r \<longleftrightarrow> unat (inTimeFrac r) * unat (rateOut r) < 2 ^ 32)"
proof -
  let ?f = "unat (inTimeFrac r)" and ?o = "unat (rateOut r)"
  define x where "x = ?f * ?o"
  have o: "?f < ?o" using assms(3) by (simp add: word_less_nat_alt)
  have d: "inTimeFrac r div rateOut r = 0" "inTimeFrac r mod rateOut r = inTimeFrac r"
    using o by (simp_all add: word_unat_eq_iff unat_div unat_mod)
  have u: "unat (inTimeFrac r * rateOut r div rateOut r) = (x mod 2 ^ 32) div ?o"
    by (simp add: unat_div unat_word_ariths x_def)
  have "x mod 2 ^ 32 \<le> x" by (rule mod_less_eq_dividend)
  then have le: "(x mod 2 ^ 32) div ?o \<le> ?f" using div_le_mono [of "x mod 2 ^ 32" x ?o] o by (simp add: x_def)
  then have lt: "unat (inTimeFrac r * rateOut r div rateOut r) < ?o" unfolding u using o by simp
  have d2: "inTimeFrac r * rateOut r div rateOut r div rateOut r = 0" "inTimeFrac r * rateOut r div rateOut r mod rateOut r = inTimeFrac r * rateOut r div rateOut r"
    using lt by (simp_all add: word_unat_eq_iff unat_div [of _ "rateOut r"] unat_mod)
  have t: "inTimeInt s = inTimeInt r" "inTimeFrac s = inTimeFrac r * rateOut r div rateOut r"
    using set_rate_time [OF assms(1) [unfolded ma_linear_resampler_set_rate_def]] d d2 assms(2)
    by (simp_all add: ma_linear_resampler_adjust_timer_for_new_rate_def Let_def)
  have "(x mod 2 ^ 32) div ?o = ?f \<longleftrightarrow> x < 2 ^ 32"
  proof (cases "x < 2 ^ 32")
    case True
    then show ?thesis using o by (simp add: x_def)
  next
    case False
    then have "x mod 2 ^ 32 < x" by (metis mod_less_divisor not_less order_less_le_trans pos2 zero_less_power)
    then have "(x mod 2 ^ 32) div ?o < ?f" using o by (simp add: div_less_iff_less_mult x_def)
    then show ?thesis using False by simp
  qed
  then show ?thesis using t le u by (simp add: word_le_nat_alt word_unat_eq_iff x_def)
qed

text \<open>C27: The 16-bit resampler without filters never overshoots and never overflows: for output rates (in lowest
  terms) up to \<open>2 ^ 20\<close>, if the frames it holds and all input samples lie between two bounds, a call
  returns, and all the samples it writes lie between them.\<close>

theorem resample_s16_never_overshoots:
  assumes "fits no_filters (\<lambda>rate. rate \<le> 2 ^ 20) r" "held_between lo hi r" "input_between lo hi xs"
    and "has_frames (rs_channels r) (unat n) xs"
  shows "\<exists>ys i q s. ma_linear_resampler_process_pcm_frames_s16 r xs n h m = Some (MA_SUCCESS, ys, i, q, Some s) \<and>
    length ys = (if h then unat q * rs_channels r else 0) \<and> (\<forall>y \<in> set ys. lo \<le> sint y \<and> sint y \<le> hi)"
proof -
  obtain ys i q s where p: "ma_linear_resampler_process s16_resampling (rateOut r < rateIn r) r xs n h m =
      Some (MA_SUCCESS, ys, i, q, Some s)" "length ys = (if h then unat q * rs_channels r else 0)"
    using rs_s16.process_total [OF assms(1,4)] by blast
  then have "between lo hi ys" using resample_between [OF _ assms(2,3,1,4)] by (auto simp: process_resample)
  then show ?thesis using p by (simp add: process_pcm_frames_eq between_def)
qed

section \<open>Examples\<close>

text \<open>A mono resampler without filters from one rate to its double, and one of 16-bit samples to a rate that
  is a million.\<close>

definition doubling :: "u32 \<Rightarrow> (f32, f32) ma_linear_resampler" where
  "doubling t = \<lparr>rs_config = \<lparr>rc_format = ma_format_f32, rc_channels = 1, sampleRateIn = 1, sampleRateOut = 2, rc_lpfOrder = 0, lpfNyquistFactor = Fin 1\<rparr>,
     inAdvanceInt = 0, inAdvanceFrac = 1, inTimeInt = t, inTimeFrac = 0, rs_x0 = [Fin 0], rs_x1 = [Fin 0],
     rs_lpf = \<lparr>lpf_format = ma_format_f32, lpf_channels = 1, lpf_sampleRate = 2, pLPF1 = [], pLPF2 = []\<rparr>\<rparr>"

definition million :: "u32 \<Rightarrow> (i16, i32) ma_linear_resampler" where
  "million f = \<lparr>rs_config = \<lparr>rc_format = ma_format_s16, rc_channels = 1, sampleRateIn = 999999, sampleRateOut = 1000000, rc_lpfOrder = 0, lpfNyquistFactor = Fin 1\<rparr>,
     inAdvanceInt = 0, inAdvanceFrac = 999999, inTimeInt = 1, inTimeFrac = f, rs_x0 = [3], rs_x1 = [5],
     rs_lpf = \<lparr>lpf_format = ma_format_s16, lpf_channels = 1, lpf_sampleRate = 1000000, pLPF1 = [], pLPF2 = []\<rparr>\<rparr>"

definition no_libm :: libm where
  "no_libm = \<lparr>ma_expd = (\<lambda>x. Fin 0), ma_sind = (\<lambda>x. Fin 0)\<rparr>"

lemma doubling_fits: "fits channels_ready (\<lambda>_. True) (doubling t)"
  by (simp add: fits_def doubling_def rs_wf_def channels_ready_def lpf_wf_def)

lemma million_fits: "fits no_filters (\<lambda>rate. rate \<le> 2 ^ 20) (million 0)"
  by (simp add: fits_def million_def rs_wf_def no_filters_def)

lemma resampler_exact_counts_witness:
  "\<exists>ys s. ma_linear_resampler_process_pcm_frames ma_format_f32 ma_linear_resampler_process_pcm_frames_f32 (Some (doubling 1)) (Some [Fin 1, Fin 2]) 2 True 3 =
      Some (MA_SUCCESS, ys, 2, 3, Some s) \<and> length ys = 3"
proof -
  have w: "ma_linear_resampler_get_required_input_frame_count (Some (doubling 1)) 3 (Some 0) = (MA_SUCCESS, Some 2)"
    by (simp add: ma_linear_resampler_get_required_input_frame_count_def doubling_def)
  have "has_frames (rs_channels (doubling 1)) (unat (2 :: u64)) (Some [Fin 1, Fin 2])" "rc_format (rs_config (doubling 1)) = ma_format_f32"
    "rs_channels (doubling 1) = 1" by (simp_all add: has_frames_def doubling_def)
  then show ?thesis
    using resampler_exact_counts [OF doubling_fits, of 1 2 "Some [Fin 1, Fin 2]" 3 True 0] w by auto
qed

lemma resample_s16_never_overshoots_witness:
  "\<exists>ys i q s. ma_linear_resampler_process_pcm_frames_s16 (million 0) (Some [4, 3]) 2 True 9 = Some (MA_SUCCESS, ys, i, q, Some s) \<and>
    (\<forall>y \<in> set ys. 3 \<le> sint y \<and> sint y \<le> 5)"
proof -
  have "held_between 3 5 (million 0)" "input_between 3 5 (Some [4, 3])" "has_frames (rs_channels (million 0)) (unat (2 :: u64)) (Some [4, 3 :: i16])"
    by (simp_all add: held_between_def input_between_def between_def has_frames_def million_def no_filters_def)
  then show ?thesis using resample_s16_never_overshoots [OF million_fits, of 3 5 "Some [4, 3]" 2 True 9] by blast
qed

lemma expected_frames_too_low_witness:
  "ma_linear_resampler_get_expected_output_frame_count (Some (doubling 0)) 0 (Some 0) = (MA_SUCCESS, Some 1) \<and>
    (\<exists>ys s. ma_linear_resampler_process_pcm_frames_f32 (doubling 0) None 0 True 9 = Some (MA_SUCCESS, ys, 0, 2, Some s))"
proof -
  have "rateIn (doubling 0) < rateOut (doubling 0)" "inTimeInt (doubling 0) = 0" by (simp_all add: doubling_def)
  note e = expected_frames_too_low [OF doubling_fits this, of 0 None True 9]
  have "unat q = 2 \<Longrightarrow> q = 2" for q :: u64 by (simp add: word_unat_eq_iff)
  then show ?thesis using e by (auto simp: doubling_def)
qed

lemma resample_in_chunks_witness:
  "\<exists>s. ma_linear_resampler_process_pcm_frames_s16 (million 0) (Some [4, 3]) 1 True 3 = Some (MA_SUCCESS, [5, 4], 1, 2, Some s) \<and>
    ma_linear_resampler_process_pcm_frames_s16 (million 0) (Some [4, 3]) 2 True 9 =
      map_option (\<lambda>(e, zs, j, t, u). (e, [5, 4] @ zs, 1 + j, 2 + t, u)) (ma_linear_resampler_process_pcm_frames_s16 s (Some [3]) 1 True 7)"
proof -
  have "ma_linear_resampler_process_pcm_frames_s16 (million 0) (Some [4, 3]) 1 True 3 =
      Some (MA_SUCCESS, [5, 4], 1, 2, Some ((million 999998)\<lparr>rs_x0 := [5], rs_x1 := [4]\<rparr>))"
    by code_simp
  then show ?thesis using resample_in_chunks [of "million 0" "Some [4, 3]" 1 True 3 MA_SUCCESS "[5, 4]" 1 2 _ 2 9]
    by (auto simp: million_def)
qed

lemma gcf_million: "ma_gcf_u32 999999 1000000 = 1"
  by code_simp

lemma same_rate_moves_clock_witness:
  "\<exists>s. ma_linear_resampler_set_rate no_libm s16_resampling (Some (million 5000)) 999999 1000000 = Some (MA_SUCCESS, Some s) \<and>
    inTimeFrac s < 5000"
proof -
  obtain s where s: "ma_linear_resampler_set_rate no_libm s16_resampling (Some (million 5000)) 999999 1000000 = Some (MA_SUCCESS, Some s)"
    by (simp add: ma_linear_resampler_set_rate_def ma_linear_resampler_set_rate_internal_def gcf_million million_def Let_def
        ma_lpf_reinit_def ma_lpf_reinit__internal_def ma_lpf_config_init_def set_up_chain_def ma_lpf_calculate_sub_lpf_counts_def
        MA_MAX_FILTER_ORDER_def)
  then have "rateOut s = 1000000" using set_rate_success [OF s [unfolded ma_linear_resampler_set_rate_def]] gcf_million by simp
  then have "inTimeFrac s \<le> 5000 \<and> (inTimeFrac s = 5000 \<longleftrightarrow> False)"
    using same_rate_moves_clock [OF s] by (simp add: million_def)
  then show ?thesis using s by auto
qed

lemma expected_frames_bounds_witness:
  "\<exists>ys i q s. ma_linear_resampler_process_pcm_frames_f32 (doubling 1) (Some [Fin 1]) 1 True 9 = Some (MA_SUCCESS, ys, i, q, s) \<and> q = 2"
proof -
  have e: "ma_linear_resampler_get_expected_output_frame_count (Some (doubling 1)) 1 (Some 0) = (MA_SUCCESS, Some 2)"
    by (simp add: ma_linear_resampler_get_expected_output_frame_count_def doubling_def word_le_nat_alt)
  have "has_frames (rs_channels (doubling 1)) (unat (1 :: u64)) (Some [Fin 1])" by (simp add: has_frames_def doubling_def)
  from rs_f32.process_total [OF doubling_fits this, of False True 9] obtain ys i q s
    where p: "ma_linear_resampler_process_pcm_frames_f32 (doubling 1) (Some [Fin 1]) 1 True 9 = Some (MA_SUCCESS, ys, i, q, Some s)"
    unfolding process_pcm_frames_eq by (auto simp: doubling_def)
  have wf: "rs_wf (doubling 1)" "pos (doubling 1) < unat (rateIn (doubling 1)) + unat (rateOut (doubling 1))" "0 < inTimeInt (doubling 1)"
    "unat (1 :: u64) * unat (rateOut (doubling 1)) < 2 ^ 31 * unat (rateIn (doubling 1))"
    by (simp_all add: doubling_def pos_def rs_wf_def)
  have "2 \<le> q \<and> q \<le> 2" using expected_frames_bounds [OF e p wf(1) _ wf(4)] wf(2,3) by simp
  then have "q = 2" by (simp add: order.antisym)
  then show ?thesis using p by blast
qed

lemma resampler_set_up_witness:
  "\<exists>r. ma_linear_resampler_init_preallocated no_libm f32_resampling
      (Some (ma_linear_resampler_config_init ma_format_f32 1 2 4 \<lparr>rc_lpfOrder := 0\<rparr>)) (Some (doubling 0)) = Some (MA_SUCCESS, Some r) \<and>
    fits channels_ready (\<lambda>_. True) r \<and> reduced 2 4 (rateIn r) (rateOut r)"
proof -
  let ?cfg = "ma_linear_resampler_config_init ma_format_f32 1 2 4 \<lparr>rc_lpfOrder := 0\<rparr>"
  have "ma_gcf_u32 2 4 = 2" by code_simp
  then obtain r where r: "ma_linear_resampler_init_preallocated no_libm f32_resampling (Some ?cfg) (Some (doubling 0)) = Some (MA_SUCCESS, Some r)"
    by (simp add: ma_linear_resampler_init_preallocated_def ma_linear_resampler_set_rate_internal_def Let_def
        ma_linear_resampler_config_init_def ma_lpf_init_preallocated_def ma_lpf_reinit__internal_def ma_lpf_config_init_def
        set_up_chain_def ma_lpf_calculate_sub_lpf_counts_def MA_MAX_FILTER_ORDER_def)
  then show ?thesis using resampler_set_up [of ?cfg 1 no_libm f32_resampling "doubling 0" r 1 "doubling 0"]
    by (auto simp: ma_linear_resampler_config_init_def)
qed

end
