(* ===== verification/Ma_Resampler.thy ===== *)
theory Ma_Resampler
  imports Ma_Resampling
begin

text \<open>
  The front end of the resamplers of miniaudio (\<open>ma_resampler\<close> in \<open>client/native/miniaudio.h\<close>), which sends every
  call to a backend. The linear resampler is the backend of miniaudio itself; a custom backend is code of
  the application, of which only the absence (a null table) is modelled. The functions of the table of the
  linear backend only change types, so the calls go to the linear resampler directly. Buffers are those of \<open>Ma_Pcm\<close>.
\<close>

section \<open>Configuration and state\<close>

datatype ma_resample_algorithm = ma_resample_algorithm_linear | ma_resample_algorithm_custom

record ma_resampler_config =
  rsc_format :: ma_format
  rsc_channels :: u32
  rsc_sampleRateIn :: u32
  rsc_sampleRateOut :: u32
  rsc_algorithm :: ma_resample_algorithm
  rsc_lpfOrder :: u32

text \<open>The state of the linear backend is that of one of the two formats it knows.\<close>

datatype ma_resampling_backend =
    Linear_s16 "(i16, i32) ma_linear_resampler" | Linear_f32 "(f32, f32) ma_linear_resampler"

record ma_resampler =
  pBackend :: "ma_resampling_backend option"
  rsm_format :: ma_format
  rsm_channels :: u32
  rsm_sampleRateIn :: u32
  rsm_sampleRateOut :: u32

definition ma_resampler_config_init :: "ma_format \<Rightarrow> u32 \<Rightarrow> u32 \<Rightarrow> u32 \<Rightarrow> ma_resample_algorithm \<Rightarrow> ma_resampler_config" where
  "ma_resampler_config_init fmt chans newIn newOut algorithm =
     \<lparr>rsc_format = fmt, rsc_channels = chans, rsc_sampleRateIn = newIn, rsc_sampleRateOut = newOut, rsc_algorithm = algorithm,
      rsc_lpfOrder = min 4 MA_MAX_FILTER_ORDER\<rparr>"

definition ma_resampling_backend_get_config__linear :: "ma_resampler_config \<Rightarrow> resampler_config" where
  "ma_resampling_backend_get_config__linear cfg =
     (ma_linear_resampler_config_init (rsc_format cfg) (rsc_channels cfg) (rsc_sampleRateIn cfg) (rsc_sampleRateOut cfg))
       \<lparr>rc_lpfOrder := rsc_lpfOrder cfg\<rparr>"

text \<open>The arguments of the initialiser besides the configuration: the memory before, which is overwritten.\<close>

definition blank_linear :: "('s, 'k) ma_linear_resampler" where
  "blank_linear = \<lparr>rs_config = ma_linear_resampler_config_init ma_format_unknown 0 0 0, inAdvanceInt = 0, inAdvanceFrac = 0, inTimeInt = 0,
     inTimeFrac = 0, rs_x0 = [], rs_x1 = [],
     rs_lpf = \<lparr>lpf_format = ma_format_unknown, lpf_channels = 0, lpf_sampleRate = 0, pLPF1 = [], pLPF2 = []\<rparr>\<rparr>"

definition ma_resampling_backend_init__linear :: "libm \<Rightarrow> ma_resampler_config \<Rightarrow> (ma_result \<times> ma_resampling_backend option) option" where
  "ma_resampling_backend_init__linear m cfg =
     (let linearConfig = ma_resampling_backend_get_config__linear cfg in
      if rsc_format cfg = ma_format_f32
      then map_option (map_prod id (map_option Linear_f32)) (ma_linear_resampler_init_preallocated m f32_resampling (Some linearConfig) (Some blank_linear))
      else map_option (map_prod id (map_option Linear_s16)) (ma_linear_resampler_init_preallocated m s16_resampling (Some linearConfig) (Some blank_linear)))"

definition ma_resampler_init_preallocated ::
    "libm \<Rightarrow> ma_resampler_config option \<Rightarrow> ma_resampler option \<Rightarrow> (ma_result \<times> ma_resampler option) option" where
  "ma_resampler_init_preallocated m pConfig pResampler =
     (case (pResampler, pConfig) of
        (None, _) \<Rightarrow> Some (MA_INVALID_ARGS, None)
      | (Some _, None) \<Rightarrow> Some (MA_INVALID_ARGS, None)
      | (Some _, Some cfg) \<Rightarrow>
          let r = \<lparr>pBackend = None, rsm_format = rsc_format cfg, rsm_channels = rsc_channels cfg,
                   rsm_sampleRateIn = rsc_sampleRateIn cfg, rsm_sampleRateOut = rsc_sampleRateOut cfg\<rparr>
          in (case rsc_algorithm cfg of
                ma_resample_algorithm_custom \<Rightarrow> Some (MA_NOT_IMPLEMENTED, Some r)
              | ma_resample_algorithm_linear \<Rightarrow>
                  map_option (\<lambda>(result, backend). if result \<noteq> MA_SUCCESS then (result, Some r) else (MA_SUCCESS, Some (r\<lparr>pBackend := backend\<rparr>)))
                    (ma_resampling_backend_init__linear m cfg)))"

section \<open>Processing\<close>

text \<open>Both counts of the linear resampler are read through their pointers. \<open>hasOut\<close> is whether there is an output
  buffer; the buffer in the result holds the samples written.\<close>

definition ma_resampling_backend_process__linear ::
    "ma_resampling_backend \<Rightarrow> pcm_buffer option \<Rightarrow> u64 \<Rightarrow> bool \<Rightarrow> u64 \<Rightarrow> (ma_result \<times> pcm_buffer \<times> u64 \<times> u64 \<times> ma_resampling_backend) option" where
  "ma_resampling_backend_process__linear backend pIn frameCountIn hasOut frameCountOut =
     (case (backend, pIn) of
        (Linear_s16 r, None) \<Rightarrow> map_option (\<lambda>(e, ys, i, q, s). (e, PS16 ys, i, q, Linear_s16 (case s of None \<Rightarrow> r | Some s \<Rightarrow> s)))
          (ma_linear_resampler_process_pcm_frames_s16 r None frameCountIn hasOut frameCountOut)
      | (Linear_s16 r, Some (PS16 xs)) \<Rightarrow> map_option (\<lambda>(e, ys, i, q, s). (e, PS16 ys, i, q, Linear_s16 (case s of None \<Rightarrow> r | Some s \<Rightarrow> s)))
          (ma_linear_resampler_process_pcm_frames_s16 r (Some xs) frameCountIn hasOut frameCountOut)
      | (Linear_f32 r, None) \<Rightarrow> map_option (\<lambda>(e, ys, i, q, s). (e, PF32 ys, i, q, Linear_f32 (case s of None \<Rightarrow> r | Some s \<Rightarrow> s)))
          (ma_linear_resampler_process_pcm_frames_f32 r None frameCountIn hasOut frameCountOut)
      | (Linear_f32 r, Some (PF32 xs)) \<Rightarrow> map_option (\<lambda>(e, ys, i, q, s). (e, PF32 ys, i, q, Linear_f32 (case s of None \<Rightarrow> r | Some s \<Rightarrow> s)))
          (ma_linear_resampler_process_pcm_frames_f32 r (Some xs) frameCountIn hasOut frameCountOut)
      | _ \<Rightarrow> None)"

fun empty_buffer :: "ma_format \<Rightarrow> pcm_buffer" where
  "empty_buffer ma_format_s16 = PS16 []"
| "empty_buffer ma_format_s24 = PS24 []"
| "empty_buffer ma_format_s32 = PS32 []"
| "empty_buffer ma_format_f32 = PF32 []"
| "empty_buffer _ = PU8 []"

text \<open>A null resampler is not modelled here: the callers have one. Null counts are refused only together.\<close>

definition ma_resampler_process_pcm_frames ::
    "ma_resampler \<Rightarrow> pcm_buffer option \<Rightarrow> u64 option \<Rightarrow> bool \<Rightarrow> u64 option
      \<Rightarrow> (ma_result \<times> pcm_buffer \<times> u64 option \<times> u64 option \<times> ma_resampler) option" where
  "ma_resampler_process_pcm_frames r pIn pFrameCountIn hasOut pFrameCountOut =
     (if pFrameCountOut = None \<and> pFrameCountIn = None then Some (MA_INVALID_ARGS, empty_buffer (rsm_format r), None, None, r)
      else case pBackend r of
          None \<Rightarrow> Some (MA_NOT_IMPLEMENTED, empty_buffer (rsm_format r), pFrameCountIn, pFrameCountOut, r)
        | Some backend \<Rightarrow>
            (case (pFrameCountIn, pFrameCountOut) of
               (Some n, Some m) \<Rightarrow>
                 map_option (\<lambda>(e, out, i, q, b). (e, out, Some i, Some q, r\<lparr>pBackend := Some b\<rparr>))
                   (ma_resampling_backend_process__linear backend pIn n hasOut m)
             | _ \<Rightarrow> None))"

section \<open>The other operations\<close>

fun backend_with ::
    "(('s, 'k) ma_linear_resampler \<Rightarrow> ma_resampling_backend) \<Rightarrow> ma_resampling_backend
      \<Rightarrow> (ma_result \<times> ('s, 'k) ma_linear_resampler option) option \<Rightarrow> (ma_result \<times> ma_resampling_backend) option" where
  "backend_with C b x = map_option (\<lambda>(e, s). (e, case s of None \<Rightarrow> b | Some s \<Rightarrow> C s)) x"

definition ma_resampling_backend_set_rate__linear :: "libm \<Rightarrow> ma_resampling_backend \<Rightarrow> u32 \<Rightarrow> u32 \<Rightarrow> (ma_result \<times> ma_resampling_backend) option" where
  "ma_resampling_backend_set_rate__linear m backend newIn newOut =
     (case backend of
        Linear_s16 r \<Rightarrow> backend_with Linear_s16 backend (ma_linear_resampler_set_rate m s16_resampling (Some r) newIn newOut)
      | Linear_f32 r \<Rightarrow> backend_with Linear_f32 backend (ma_linear_resampler_set_rate m f32_resampling (Some r) newIn newOut))"

definition ma_resampler_set_rate :: "libm \<Rightarrow> ma_resampler option \<Rightarrow> u32 \<Rightarrow> u32 \<Rightarrow> (ma_result \<times> ma_resampler option) option" where
  "ma_resampler_set_rate m pResampler newIn newOut =
     (case pResampler of
        None \<Rightarrow> Some (MA_INVALID_ARGS, None)
      | Some r \<Rightarrow>
          if newIn = 0 \<or> newOut = 0 then Some (MA_INVALID_ARGS, pResampler)
          else (case pBackend r of
              None \<Rightarrow> Some (MA_NOT_IMPLEMENTED, pResampler)
            | Some backend \<Rightarrow>
                map_option (\<lambda>(result, b).
                    let r = r\<lparr>pBackend := Some b\<rparr>
                    in if result \<noteq> MA_SUCCESS then (result, Some r)
                       else (MA_SUCCESS, Some (r\<lparr>rsm_sampleRateIn := newIn, rsm_sampleRateOut := newOut\<rparr>)))
                  (ma_resampling_backend_set_rate__linear m backend newIn newOut)))"

definition ma_resampler_set_rate_ratio :: "libm \<Rightarrow> ma_resampler option \<Rightarrow> f32 \<Rightarrow> (ma_result \<times> ma_resampler option) option" where
  "ma_resampler_set_rate_ratio m pResampler ratio =
     (case pResampler of
        None \<Rightarrow> Some (MA_INVALID_ARGS, None)
      | Some _ \<Rightarrow>
          if fp_le ratio (Fin 0) then Some (MA_INVALID_ARGS, pResampler)
          else (case fp_to_int 0 4294967295 (fp_mul f32 ratio (Fin 1000)) of
              None \<Rightarrow> None
            | Some n \<Rightarrow> if n = 0 then Some (MA_INVALID_ARGS, pResampler) else ma_resampler_set_rate m pResampler (word_of_int n) 1000))"

fun backend_input_latency :: "ma_resampling_backend \<Rightarrow> u64" where
  "backend_input_latency (Linear_s16 r) = ma_linear_resampler_get_input_latency (Some r)"
| "backend_input_latency (Linear_f32 r) = ma_linear_resampler_get_input_latency (Some r)"

fun backend_output_latency :: "ma_resampling_backend \<Rightarrow> u64" where
  "backend_output_latency (Linear_s16 r) = ma_linear_resampler_get_output_latency (Some r)"
| "backend_output_latency (Linear_f32 r) = ma_linear_resampler_get_output_latency (Some r)"

definition ma_resampler_get_input_latency :: "ma_resampler option \<Rightarrow> u64" where
  "ma_resampler_get_input_latency pResampler =
     (case pResampler of None \<Rightarrow> 0 | Some r \<Rightarrow> (case pBackend r of None \<Rightarrow> 0 | Some b \<Rightarrow> backend_input_latency b))"

definition ma_resampler_get_output_latency :: "ma_resampler option \<Rightarrow> u64" where
  "ma_resampler_get_output_latency pResampler =
     (case pResampler of None \<Rightarrow> 0 | Some r \<Rightarrow> (case pBackend r of None \<Rightarrow> 0 | Some b \<Rightarrow> backend_output_latency b))"

fun backend_required :: "ma_resampling_backend \<Rightarrow> u64 \<Rightarrow> u64 option \<Rightarrow> ma_result \<times> u64 option" where
  "backend_required (Linear_s16 r) n p = ma_linear_resampler_get_required_input_frame_count (Some r) n p"
| "backend_required (Linear_f32 r) n p = ma_linear_resampler_get_required_input_frame_count (Some r) n p"

fun backend_expected :: "ma_resampling_backend \<Rightarrow> u64 \<Rightarrow> u64 option \<Rightarrow> ma_result \<times> u64 option" where
  "backend_expected (Linear_s16 r) n p = ma_linear_resampler_get_expected_output_frame_count (Some r) n p"
| "backend_expected (Linear_f32 r) n p = ma_linear_resampler_get_expected_output_frame_count (Some r) n p"

text \<open>What a query does with its result pointer and its resampler.\<close>

definition count_query :: "(ma_resampling_backend \<Rightarrow> u64 \<Rightarrow> u64 option \<Rightarrow> ma_result \<times> u64 option) \<Rightarrow> ma_resampler option \<Rightarrow> u64 \<Rightarrow> u64 option
    \<Rightarrow> ma_result \<times> u64 option" where
  "count_query q pResampler n pCount =
     (case pCount of
        None \<Rightarrow> (MA_INVALID_ARGS, None)
      | Some _ \<Rightarrow>
          (case pResampler of
             None \<Rightarrow> (MA_INVALID_ARGS, Some 0)
           | Some r \<Rightarrow> (case pBackend r of None \<Rightarrow> (MA_NOT_IMPLEMENTED, Some 0) | Some b \<Rightarrow> q b n (Some 0))))"

definition ma_resampler_get_required_input_frame_count :: "ma_resampler option \<Rightarrow> u64 \<Rightarrow> u64 option \<Rightarrow> ma_result \<times> u64 option" where
  "ma_resampler_get_required_input_frame_count = count_query backend_required"

definition ma_resampler_get_expected_output_frame_count :: "ma_resampler option \<Rightarrow> u64 \<Rightarrow> u64 option \<Rightarrow> ma_result \<times> u64 option" where
  "ma_resampler_get_expected_output_frame_count = count_query backend_expected"

definition ma_resampler_reset :: "ma_resampler option \<Rightarrow> ma_result \<times> ma_resampler option" where
  "ma_resampler_reset pResampler =
     (case pResampler of
        None \<Rightarrow> (MA_INVALID_ARGS, None)
      | Some r \<Rightarrow>
          (case pBackend r of
             None \<Rightarrow> (MA_NOT_IMPLEMENTED, pResampler)
           | Some (Linear_s16 l) \<Rightarrow> (MA_SUCCESS, Some (r\<lparr>pBackend := map_option Linear_s16 (snd (ma_linear_resampler_reset s16_resampling (Some l)))\<rparr>))
           | Some (Linear_f32 l) \<Rightarrow> (MA_SUCCESS, Some (r\<lparr>pBackend := map_option Linear_f32 (snd (ma_linear_resampler_reset f32_resampling (Some l)))\<rparr>))))"

end
