(* ===== verification/Ma_Channels.thy ===== *)
theory Ma_Channels
  imports Prelude
begin

text \<open>
  Channel maps of \<open>client/native/miniaudio.h\<close>, the library the engine opens its devices with: the
  seven standard maps, the operations on maps (initialisation, validity, comparison, search) and
  their printing. A map is an array of positions, modelled as a function on indices; a null pointer
  is \<open>None\<close> and stands for the default map. The build does not define
  \<open>MA_USE_QUAD_MICROSOFT_CHANNEL_MAP\<close>.
\<close>

section \<open>Positions\<close>

type_synonym ma_channel = u8

abbreviation MA_CHANNEL_NONE :: ma_channel where "MA_CHANNEL_NONE \<equiv> 0"
abbreviation MA_CHANNEL_MONO :: ma_channel where "MA_CHANNEL_MONO \<equiv> 1"
abbreviation MA_CHANNEL_FRONT_LEFT :: ma_channel where "MA_CHANNEL_FRONT_LEFT \<equiv> 2"
abbreviation MA_CHANNEL_FRONT_RIGHT :: ma_channel where "MA_CHANNEL_FRONT_RIGHT \<equiv> 3"
abbreviation MA_CHANNEL_FRONT_CENTER :: ma_channel where "MA_CHANNEL_FRONT_CENTER \<equiv> 4"
abbreviation MA_CHANNEL_LFE :: ma_channel where "MA_CHANNEL_LFE \<equiv> 5"
abbreviation MA_CHANNEL_BACK_LEFT :: ma_channel where "MA_CHANNEL_BACK_LEFT \<equiv> 6"
abbreviation MA_CHANNEL_BACK_RIGHT :: ma_channel where "MA_CHANNEL_BACK_RIGHT \<equiv> 7"
abbreviation MA_CHANNEL_FRONT_LEFT_CENTER :: ma_channel where "MA_CHANNEL_FRONT_LEFT_CENTER \<equiv> 8"
abbreviation MA_CHANNEL_FRONT_RIGHT_CENTER :: ma_channel where "MA_CHANNEL_FRONT_RIGHT_CENTER \<equiv> 9"
abbreviation MA_CHANNEL_BACK_CENTER :: ma_channel where "MA_CHANNEL_BACK_CENTER \<equiv> 10"
abbreviation MA_CHANNEL_SIDE_LEFT :: ma_channel where "MA_CHANNEL_SIDE_LEFT \<equiv> 11"
abbreviation MA_CHANNEL_SIDE_RIGHT :: ma_channel where "MA_CHANNEL_SIDE_RIGHT \<equiv> 12"
abbreviation MA_CHANNEL_TOP_CENTER :: ma_channel where "MA_CHANNEL_TOP_CENTER \<equiv> 13"
abbreviation MA_CHANNEL_TOP_FRONT_LEFT :: ma_channel where "MA_CHANNEL_TOP_FRONT_LEFT \<equiv> 14"
abbreviation MA_CHANNEL_TOP_FRONT_CENTER :: ma_channel where "MA_CHANNEL_TOP_FRONT_CENTER \<equiv> 15"
abbreviation MA_CHANNEL_TOP_FRONT_RIGHT :: ma_channel where "MA_CHANNEL_TOP_FRONT_RIGHT \<equiv> 16"
abbreviation MA_CHANNEL_TOP_BACK_LEFT :: ma_channel where "MA_CHANNEL_TOP_BACK_LEFT \<equiv> 17"
abbreviation MA_CHANNEL_TOP_BACK_CENTER :: ma_channel where "MA_CHANNEL_TOP_BACK_CENTER \<equiv> 18"
abbreviation MA_CHANNEL_TOP_BACK_RIGHT :: ma_channel where "MA_CHANNEL_TOP_BACK_RIGHT \<equiv> 19"
abbreviation MA_CHANNEL_AUX_0 :: ma_channel where "MA_CHANNEL_AUX_0 \<equiv> 20"
abbreviation MA_CHANNEL_AUX_1 :: ma_channel where "MA_CHANNEL_AUX_1 \<equiv> 21"
abbreviation MA_CHANNEL_AUX_2 :: ma_channel where "MA_CHANNEL_AUX_2 \<equiv> 22"
abbreviation MA_CHANNEL_AUX_3 :: ma_channel where "MA_CHANNEL_AUX_3 \<equiv> 23"
abbreviation MA_CHANNEL_AUX_4 :: ma_channel where "MA_CHANNEL_AUX_4 \<equiv> 24"
abbreviation MA_CHANNEL_AUX_5 :: ma_channel where "MA_CHANNEL_AUX_5 \<equiv> 25"
abbreviation MA_CHANNEL_AUX_6 :: ma_channel where "MA_CHANNEL_AUX_6 \<equiv> 26"
abbreviation MA_CHANNEL_AUX_7 :: ma_channel where "MA_CHANNEL_AUX_7 \<equiv> 27"
abbreviation MA_CHANNEL_AUX_8 :: ma_channel where "MA_CHANNEL_AUX_8 \<equiv> 28"
abbreviation MA_CHANNEL_AUX_9 :: ma_channel where "MA_CHANNEL_AUX_9 \<equiv> 29"
abbreviation MA_CHANNEL_AUX_10 :: ma_channel where "MA_CHANNEL_AUX_10 \<equiv> 30"
abbreviation MA_CHANNEL_AUX_11 :: ma_channel where "MA_CHANNEL_AUX_11 \<equiv> 31"
abbreviation MA_CHANNEL_AUX_12 :: ma_channel where "MA_CHANNEL_AUX_12 \<equiv> 32"
abbreviation MA_CHANNEL_AUX_13 :: ma_channel where "MA_CHANNEL_AUX_13 \<equiv> 33"
abbreviation MA_CHANNEL_AUX_14 :: ma_channel where "MA_CHANNEL_AUX_14 \<equiv> 34"
abbreviation MA_CHANNEL_AUX_15 :: ma_channel where "MA_CHANNEL_AUX_15 \<equiv> 35"
abbreviation MA_CHANNEL_AUX_16 :: ma_channel where "MA_CHANNEL_AUX_16 \<equiv> 36"
abbreviation MA_CHANNEL_AUX_17 :: ma_channel where "MA_CHANNEL_AUX_17 \<equiv> 37"
abbreviation MA_CHANNEL_AUX_18 :: ma_channel where "MA_CHANNEL_AUX_18 \<equiv> 38"
abbreviation MA_CHANNEL_AUX_19 :: ma_channel where "MA_CHANNEL_AUX_19 \<equiv> 39"
abbreviation MA_CHANNEL_AUX_20 :: ma_channel where "MA_CHANNEL_AUX_20 \<equiv> 40"
abbreviation MA_CHANNEL_AUX_21 :: ma_channel where "MA_CHANNEL_AUX_21 \<equiv> 41"
abbreviation MA_CHANNEL_AUX_22 :: ma_channel where "MA_CHANNEL_AUX_22 \<equiv> 42"
abbreviation MA_CHANNEL_AUX_23 :: ma_channel where "MA_CHANNEL_AUX_23 \<equiv> 43"
abbreviation MA_CHANNEL_AUX_24 :: ma_channel where "MA_CHANNEL_AUX_24 \<equiv> 44"
abbreviation MA_CHANNEL_AUX_25 :: ma_channel where "MA_CHANNEL_AUX_25 \<equiv> 45"
abbreviation MA_CHANNEL_AUX_26 :: ma_channel where "MA_CHANNEL_AUX_26 \<equiv> 46"
abbreviation MA_CHANNEL_AUX_27 :: ma_channel where "MA_CHANNEL_AUX_27 \<equiv> 47"
abbreviation MA_CHANNEL_AUX_28 :: ma_channel where "MA_CHANNEL_AUX_28 \<equiv> 48"
abbreviation MA_CHANNEL_AUX_29 :: ma_channel where "MA_CHANNEL_AUX_29 \<equiv> 49"
abbreviation MA_CHANNEL_AUX_30 :: ma_channel where "MA_CHANNEL_AUX_30 \<equiv> 50"
abbreviation MA_CHANNEL_AUX_31 :: ma_channel where "MA_CHANNEL_AUX_31 \<equiv> 51"

section \<open>The standard maps\<close>

text \<open>Every table is a switch on the channel count, then on the index; what the switch leaves over
  is an auxiliary position when there are more channels than the last row has, and none otherwise.
  A count of 1 is mono whatever the index.\<close>

definition table_channel :: "(u32 \<Rightarrow> ma_channel list) \<Rightarrow> u32 \<Rightarrow> u32 \<Rightarrow> u32 \<Rightarrow> ma_channel" where
  "table_channel row big channelCount channelIndex =
     (if channelCount = 0 then MA_CHANNEL_NONE
      else if channelCount = 1 then MA_CHANNEL_MONO
      else if unat channelIndex < length (row channelCount) then row channelCount ! unat channelIndex
      else if big < channelCount \<and> channelIndex < 32 then MA_CHANNEL_AUX_0 + ucast (channelIndex - big)
      else MA_CHANNEL_NONE)"

definition row_microsoft :: "u32 \<Rightarrow> ma_channel list" where
  "row_microsoft channelCount =
     (if channelCount = 2 then [MA_CHANNEL_FRONT_LEFT, MA_CHANNEL_FRONT_RIGHT] else
     (if channelCount = 3 then [MA_CHANNEL_FRONT_LEFT, MA_CHANNEL_FRONT_RIGHT,
         MA_CHANNEL_FRONT_CENTER] else
     (if channelCount = 4 then [MA_CHANNEL_FRONT_LEFT, MA_CHANNEL_FRONT_RIGHT,
         MA_CHANNEL_FRONT_CENTER, MA_CHANNEL_BACK_CENTER] else
     (if channelCount = 5 then [MA_CHANNEL_FRONT_LEFT, MA_CHANNEL_FRONT_RIGHT,
         MA_CHANNEL_FRONT_CENTER, MA_CHANNEL_BACK_LEFT, MA_CHANNEL_BACK_RIGHT] else
     (if channelCount = 6 then [MA_CHANNEL_FRONT_LEFT, MA_CHANNEL_FRONT_RIGHT,
         MA_CHANNEL_FRONT_CENTER, MA_CHANNEL_LFE, MA_CHANNEL_SIDE_LEFT,
         MA_CHANNEL_SIDE_RIGHT] else
     (if channelCount = 7 then [MA_CHANNEL_FRONT_LEFT, MA_CHANNEL_FRONT_RIGHT,
         MA_CHANNEL_FRONT_CENTER, MA_CHANNEL_LFE, MA_CHANNEL_BACK_CENTER,
         MA_CHANNEL_SIDE_LEFT, MA_CHANNEL_SIDE_RIGHT] else
      [MA_CHANNEL_FRONT_LEFT, MA_CHANNEL_FRONT_RIGHT, MA_CHANNEL_FRONT_CENTER,
         MA_CHANNEL_LFE, MA_CHANNEL_BACK_LEFT, MA_CHANNEL_BACK_RIGHT, MA_CHANNEL_SIDE_LEFT,
         MA_CHANNEL_SIDE_RIGHT]))))))"

definition ma_channel_map_init_standard_channel_microsoft :: "u32 \<Rightarrow> u32 \<Rightarrow> ma_channel" where
  "ma_channel_map_init_standard_channel_microsoft channelCount channelIndex =
     (if channelCount = 0 \<or> channelCount \<le> channelIndex then MA_CHANNEL_NONE
      else table_channel row_microsoft 8 channelCount channelIndex)"

definition row_alsa :: "u32 \<Rightarrow> ma_channel list" where
  "row_alsa channelCount =
     (if channelCount = 2 then [MA_CHANNEL_FRONT_LEFT, MA_CHANNEL_FRONT_RIGHT] else
     (if channelCount = 3 then [MA_CHANNEL_FRONT_LEFT, MA_CHANNEL_FRONT_RIGHT,
         MA_CHANNEL_FRONT_CENTER] else
     (if channelCount = 4 then [MA_CHANNEL_FRONT_LEFT, MA_CHANNEL_FRONT_RIGHT,
         MA_CHANNEL_BACK_LEFT, MA_CHANNEL_BACK_RIGHT] else
     (if channelCount = 5 then [MA_CHANNEL_FRONT_LEFT, MA_CHANNEL_FRONT_RIGHT,
         MA_CHANNEL_BACK_LEFT, MA_CHANNEL_BACK_RIGHT, MA_CHANNEL_FRONT_CENTER] else
     (if channelCount = 6 then [MA_CHANNEL_FRONT_LEFT, MA_CHANNEL_FRONT_RIGHT,
         MA_CHANNEL_BACK_LEFT, MA_CHANNEL_BACK_RIGHT, MA_CHANNEL_FRONT_CENTER,
         MA_CHANNEL_LFE] else
     (if channelCount = 7 then [MA_CHANNEL_FRONT_LEFT, MA_CHANNEL_FRONT_RIGHT,
         MA_CHANNEL_BACK_LEFT, MA_CHANNEL_BACK_RIGHT, MA_CHANNEL_FRONT_CENTER,
         MA_CHANNEL_LFE, MA_CHANNEL_BACK_CENTER] else
      [MA_CHANNEL_FRONT_LEFT, MA_CHANNEL_FRONT_RIGHT, MA_CHANNEL_BACK_LEFT,
         MA_CHANNEL_BACK_RIGHT, MA_CHANNEL_FRONT_CENTER, MA_CHANNEL_LFE,
         MA_CHANNEL_SIDE_LEFT, MA_CHANNEL_SIDE_RIGHT]))))))"

definition ma_channel_map_init_standard_channel_alsa :: "u32 \<Rightarrow> u32 \<Rightarrow> ma_channel" where
  "ma_channel_map_init_standard_channel_alsa channelCount channelIndex =
     table_channel row_alsa 8 channelCount channelIndex"

definition row_rfc3551 :: "u32 \<Rightarrow> ma_channel list" where
  "row_rfc3551 channelCount =
     (if channelCount = 2 then [MA_CHANNEL_FRONT_LEFT, MA_CHANNEL_FRONT_RIGHT] else
     (if channelCount = 3 then [MA_CHANNEL_FRONT_LEFT, MA_CHANNEL_FRONT_RIGHT,
         MA_CHANNEL_FRONT_CENTER] else
     (if channelCount = 4 then [MA_CHANNEL_FRONT_LEFT, MA_CHANNEL_FRONT_RIGHT,
         MA_CHANNEL_FRONT_CENTER, MA_CHANNEL_BACK_CENTER] else
     (if channelCount = 5 then [MA_CHANNEL_FRONT_LEFT, MA_CHANNEL_FRONT_RIGHT,
         MA_CHANNEL_FRONT_CENTER, MA_CHANNEL_BACK_LEFT, MA_CHANNEL_BACK_RIGHT] else
      [MA_CHANNEL_FRONT_LEFT, MA_CHANNEL_SIDE_LEFT, MA_CHANNEL_FRONT_CENTER,
         MA_CHANNEL_FRONT_RIGHT, MA_CHANNEL_SIDE_RIGHT, MA_CHANNEL_BACK_CENTER]))))"

definition ma_channel_map_init_standard_channel_rfc3551 :: "u32 \<Rightarrow> u32 \<Rightarrow> ma_channel" where
  "ma_channel_map_init_standard_channel_rfc3551 channelCount channelIndex =
     table_channel row_rfc3551 6 channelCount channelIndex"

definition row_flac :: "u32 \<Rightarrow> ma_channel list" where
  "row_flac channelCount =
     (if channelCount = 2 then [MA_CHANNEL_FRONT_LEFT, MA_CHANNEL_FRONT_RIGHT] else
     (if channelCount = 3 then [MA_CHANNEL_FRONT_LEFT, MA_CHANNEL_FRONT_RIGHT,
         MA_CHANNEL_FRONT_CENTER] else
     (if channelCount = 4 then [MA_CHANNEL_FRONT_LEFT, MA_CHANNEL_FRONT_RIGHT,
         MA_CHANNEL_BACK_LEFT, MA_CHANNEL_BACK_RIGHT] else
     (if channelCount = 5 then [MA_CHANNEL_FRONT_LEFT, MA_CHANNEL_FRONT_RIGHT,
         MA_CHANNEL_FRONT_CENTER, MA_CHANNEL_BACK_LEFT, MA_CHANNEL_BACK_RIGHT] else
     (if channelCount = 6 then [MA_CHANNEL_FRONT_LEFT, MA_CHANNEL_FRONT_RIGHT,
         MA_CHANNEL_FRONT_CENTER, MA_CHANNEL_LFE, MA_CHANNEL_BACK_LEFT,
         MA_CHANNEL_BACK_RIGHT] else
     (if channelCount = 7 then [MA_CHANNEL_FRONT_LEFT, MA_CHANNEL_FRONT_RIGHT,
         MA_CHANNEL_FRONT_CENTER, MA_CHANNEL_LFE, MA_CHANNEL_BACK_CENTER,
         MA_CHANNEL_SIDE_LEFT, MA_CHANNEL_SIDE_RIGHT] else
      [MA_CHANNEL_FRONT_LEFT, MA_CHANNEL_FRONT_RIGHT, MA_CHANNEL_FRONT_CENTER,
         MA_CHANNEL_LFE, MA_CHANNEL_BACK_LEFT, MA_CHANNEL_BACK_RIGHT, MA_CHANNEL_SIDE_LEFT,
         MA_CHANNEL_SIDE_RIGHT]))))))"

definition ma_channel_map_init_standard_channel_flac :: "u32 \<Rightarrow> u32 \<Rightarrow> ma_channel" where
  "ma_channel_map_init_standard_channel_flac channelCount channelIndex =
     table_channel row_flac 8 channelCount channelIndex"

definition row_vorbis :: "u32 \<Rightarrow> ma_channel list" where
  "row_vorbis channelCount =
     (if channelCount = 2 then [MA_CHANNEL_FRONT_LEFT, MA_CHANNEL_FRONT_RIGHT] else
     (if channelCount = 3 then [MA_CHANNEL_FRONT_LEFT, MA_CHANNEL_FRONT_CENTER,
         MA_CHANNEL_FRONT_RIGHT] else
     (if channelCount = 4 then [MA_CHANNEL_FRONT_LEFT, MA_CHANNEL_FRONT_RIGHT,
         MA_CHANNEL_BACK_LEFT, MA_CHANNEL_BACK_RIGHT] else
     (if channelCount = 5 then [MA_CHANNEL_FRONT_LEFT, MA_CHANNEL_FRONT_CENTER,
         MA_CHANNEL_FRONT_RIGHT, MA_CHANNEL_BACK_LEFT, MA_CHANNEL_BACK_RIGHT] else
     (if channelCount = 6 then [MA_CHANNEL_FRONT_LEFT, MA_CHANNEL_FRONT_CENTER,
         MA_CHANNEL_FRONT_RIGHT, MA_CHANNEL_BACK_LEFT, MA_CHANNEL_BACK_RIGHT,
         MA_CHANNEL_LFE] else
     (if channelCount = 7 then [MA_CHANNEL_FRONT_LEFT, MA_CHANNEL_FRONT_CENTER,
         MA_CHANNEL_FRONT_RIGHT, MA_CHANNEL_SIDE_LEFT, MA_CHANNEL_SIDE_RIGHT,
         MA_CHANNEL_BACK_CENTER, MA_CHANNEL_LFE] else
      [MA_CHANNEL_FRONT_LEFT, MA_CHANNEL_FRONT_CENTER, MA_CHANNEL_FRONT_RIGHT,
         MA_CHANNEL_SIDE_LEFT, MA_CHANNEL_SIDE_RIGHT, MA_CHANNEL_BACK_LEFT,
         MA_CHANNEL_BACK_RIGHT, MA_CHANNEL_LFE]))))))"

definition ma_channel_map_init_standard_channel_vorbis :: "u32 \<Rightarrow> u32 \<Rightarrow> ma_channel" where
  "ma_channel_map_init_standard_channel_vorbis channelCount channelIndex =
     table_channel row_vorbis 8 channelCount channelIndex"

definition row_sound4 :: "u32 \<Rightarrow> ma_channel list" where
  "row_sound4 channelCount =
     (if channelCount = 2 then [MA_CHANNEL_FRONT_LEFT, MA_CHANNEL_FRONT_RIGHT] else
     (if channelCount = 3 then [MA_CHANNEL_FRONT_LEFT, MA_CHANNEL_FRONT_RIGHT,
         MA_CHANNEL_FRONT_CENTER] else
     (if channelCount = 4 then [MA_CHANNEL_FRONT_LEFT, MA_CHANNEL_FRONT_RIGHT,
         MA_CHANNEL_BACK_LEFT, MA_CHANNEL_BACK_RIGHT] else
     (if channelCount = 5 then [MA_CHANNEL_FRONT_LEFT, MA_CHANNEL_FRONT_RIGHT,
         MA_CHANNEL_FRONT_CENTER, MA_CHANNEL_BACK_LEFT, MA_CHANNEL_BACK_RIGHT] else
     (if channelCount = 6 then [MA_CHANNEL_FRONT_LEFT, MA_CHANNEL_FRONT_CENTER,
         MA_CHANNEL_FRONT_RIGHT, MA_CHANNEL_BACK_LEFT, MA_CHANNEL_BACK_RIGHT,
         MA_CHANNEL_LFE] else
     (if channelCount = 7 then [MA_CHANNEL_FRONT_LEFT, MA_CHANNEL_FRONT_CENTER,
         MA_CHANNEL_FRONT_RIGHT, MA_CHANNEL_SIDE_LEFT, MA_CHANNEL_SIDE_RIGHT,
         MA_CHANNEL_BACK_CENTER, MA_CHANNEL_LFE] else
      [MA_CHANNEL_FRONT_LEFT, MA_CHANNEL_FRONT_CENTER, MA_CHANNEL_FRONT_RIGHT,
         MA_CHANNEL_SIDE_LEFT, MA_CHANNEL_SIDE_RIGHT, MA_CHANNEL_BACK_LEFT,
         MA_CHANNEL_BACK_RIGHT, MA_CHANNEL_LFE]))))))"

definition ma_channel_map_init_standard_channel_sound4 :: "u32 \<Rightarrow> u32 \<Rightarrow> ma_channel" where
  "ma_channel_map_init_standard_channel_sound4 channelCount channelIndex =
     table_channel row_sound4 8 channelCount channelIndex"

definition row_sndio :: "u32 \<Rightarrow> ma_channel list" where
  "row_sndio channelCount =
     (if channelCount = 2 then [MA_CHANNEL_FRONT_LEFT, MA_CHANNEL_FRONT_RIGHT] else
     (if channelCount = 3 then [MA_CHANNEL_FRONT_LEFT, MA_CHANNEL_FRONT_RIGHT,
         MA_CHANNEL_FRONT_CENTER] else
     (if channelCount = 4 then [MA_CHANNEL_FRONT_LEFT, MA_CHANNEL_FRONT_RIGHT,
         MA_CHANNEL_BACK_LEFT, MA_CHANNEL_BACK_RIGHT] else
     (if channelCount = 5 then [MA_CHANNEL_FRONT_LEFT, MA_CHANNEL_FRONT_RIGHT,
         MA_CHANNEL_BACK_LEFT, MA_CHANNEL_BACK_RIGHT, MA_CHANNEL_FRONT_CENTER] else
      [MA_CHANNEL_FRONT_LEFT, MA_CHANNEL_FRONT_RIGHT, MA_CHANNEL_BACK_LEFT,
         MA_CHANNEL_BACK_RIGHT, MA_CHANNEL_FRONT_CENTER, MA_CHANNEL_LFE]))))"

definition ma_channel_map_init_standard_channel_sndio :: "u32 \<Rightarrow> u32 \<Rightarrow> ma_channel" where
  "ma_channel_map_init_standard_channel_sndio channelCount channelIndex =
     table_channel row_sndio 6 channelCount channelIndex"

datatype ma_standard_channel_map =
    ma_standard_channel_map_microsoft | ma_standard_channel_map_alsa | ma_standard_channel_map_rfc3551
  | ma_standard_channel_map_flac | ma_standard_channel_map_vorbis | ma_standard_channel_map_sound4
  | ma_standard_channel_map_sndio

abbreviation ma_standard_channel_map_default :: ma_standard_channel_map where
  "ma_standard_channel_map_default \<equiv> ma_standard_channel_map_microsoft"

definition ma_channel_map_init_standard_channel :: "ma_standard_channel_map \<Rightarrow> u32 \<Rightarrow> u32 \<Rightarrow> ma_channel" where
  "ma_channel_map_init_standard_channel standardChannelMap channelCount channelIndex =
     (if channelCount = 0 \<or> channelCount \<le> channelIndex then MA_CHANNEL_NONE
      else case standardChannelMap of
        ma_standard_channel_map_alsa \<Rightarrow> ma_channel_map_init_standard_channel_alsa channelCount channelIndex
      | ma_standard_channel_map_rfc3551 \<Rightarrow> ma_channel_map_init_standard_channel_rfc3551 channelCount channelIndex
      | ma_standard_channel_map_flac \<Rightarrow> ma_channel_map_init_standard_channel_flac channelCount channelIndex
      | ma_standard_channel_map_vorbis \<Rightarrow> ma_channel_map_init_standard_channel_vorbis channelCount channelIndex
      | ma_standard_channel_map_sound4 \<Rightarrow> ma_channel_map_init_standard_channel_sound4 channelCount channelIndex
      | ma_standard_channel_map_sndio \<Rightarrow> ma_channel_map_init_standard_channel_sndio channelCount channelIndex
      | ma_standard_channel_map_microsoft \<Rightarrow> ma_channel_map_init_standard_channel_microsoft channelCount channelIndex)"

section \<open>Operations on maps\<close>

type_synonym channel_map = "nat \<Rightarrow> ma_channel"

definition ma_channel_map_get_channel :: "channel_map option \<Rightarrow> u32 \<Rightarrow> u32 \<Rightarrow> ma_channel" where
  "ma_channel_map_get_channel pChannelMap channelCount channelIndex =
     (case pChannelMap of
        None \<Rightarrow> ma_channel_map_init_standard_channel ma_standard_channel_map_default channelCount channelIndex
      | Some m \<Rightarrow> if channelCount \<le> channelIndex then MA_CHANNEL_NONE else m (unat channelIndex))"

definition ma_channel_map_init_blank :: "channel_map option \<Rightarrow> u32 \<Rightarrow> channel_map option" where
  "ma_channel_map_init_blank pChannelMap chans =
     map_option (\<lambda>m i. if i < unat chans then 0 else m i) pChannelMap"

text \<open>The loop writes \<open>pChannelMap[0]\<close> and advances the pointer while room is left; \<open>at\<close> is how far it
  has advanced.\<close>

fun init_standard_loop ::
    "ma_standard_channel_map \<Rightarrow> u32 \<Rightarrow> nat list \<Rightarrow> nat \<Rightarrow> nat \<Rightarrow> channel_map \<Rightarrow> channel_map" where
  "init_standard_loop std chans [] at cap m = m"
| "init_standard_loop std chans (i # is) at cap m =
     (if cap = 0 then m
      else init_standard_loop std chans is (at + 1) (cap - 1)
             (m(at := ma_channel_map_init_standard_channel std chans (of_nat i))))"

definition ma_channel_map_init_standard ::
    "ma_standard_channel_map \<Rightarrow> channel_map option \<Rightarrow> nat \<Rightarrow> u32 \<Rightarrow> channel_map option" where
  "ma_channel_map_init_standard std pChannelMap channelMapCap chans =
     (case pChannelMap of
        None \<Rightarrow> None
      | Some m \<Rightarrow>
          if channelMapCap = 0 \<or> chans = 0 then Some m
          else Some (init_standard_loop std chans [0..<unat chans] 0 channelMapCap m))"

definition ma_channel_map_copy :: "channel_map option \<Rightarrow> channel_map option \<Rightarrow> u32 \<Rightarrow> channel_map option" where
  "ma_channel_map_copy pOut pIn chans =
     (case (pOut, pIn) of
        (Some out, Some inp) \<Rightarrow> Some (if 0 < chans then \<lambda>i. if i < unat chans then inp i else out i else out)
      | _ \<Rightarrow> pOut)"

definition ma_channel_map_copy_or_default ::
    "channel_map option \<Rightarrow> nat \<Rightarrow> channel_map option \<Rightarrow> u32 \<Rightarrow> channel_map option" where
  "ma_channel_map_copy_or_default pOut channelMapCapOut pIn chans =
     (if pOut = None \<or> chans = 0 then pOut
      else if pIn \<noteq> None then ma_channel_map_copy pOut pIn chans
      else ma_channel_map_init_standard ma_standard_channel_map_default pOut channelMapCapOut chans)"

definition ma_channel_map_is_valid :: "channel_map option \<Rightarrow> u32 \<Rightarrow> bool" where
  "ma_channel_map_is_valid pChannelMap chans =
     (if chans = 0 then False
      else if 1 < chans
      then list_all (\<lambda>i. ma_channel_map_get_channel pChannelMap chans (of_nat i) \<noteq> MA_CHANNEL_MONO) [0..<unat chans]
      else True)"

text \<open>\<open>same\<close> is whether the two pointers are equal.\<close>

definition ma_channel_map_is_equal :: "bool \<Rightarrow> channel_map option \<Rightarrow> channel_map option \<Rightarrow> u32 \<Rightarrow> bool" where
  "ma_channel_map_is_equal same pA pB chans =
     (same \<or> list_all (\<lambda>i. ma_channel_map_get_channel pA chans (of_nat i)
                         = ma_channel_map_get_channel pB chans (of_nat i)) [0..<unat chans])"

definition ma_channel_map_is_blank :: "channel_map option \<Rightarrow> u32 \<Rightarrow> bool" where
  "ma_channel_map_is_blank pChannelMap chans =
     (case pChannelMap of
        None \<Rightarrow> False
      | Some m \<Rightarrow> list_all (\<lambda>i. m i = MA_CHANNEL_NONE) [0..<unat chans])"

text \<open>The result, and the index stored through \<open>pChannelIndex\<close> (minus one when it is not found).\<close>

definition ma_channel_map_find_channel_position :: "u32 \<Rightarrow> channel_map option \<Rightarrow> ma_channel \<Rightarrow> bool \<times> u32" where
  "ma_channel_map_find_channel_position chans pChannelMap channelPosition =
     (case find (\<lambda>i. ma_channel_map_get_channel pChannelMap chans (of_nat i) = channelPosition) [0..<unat chans] of
        Some i \<Rightarrow> (True, of_nat i)
      | None \<Rightarrow> (False, - 1))"

definition ma_channel_map_contains_channel_position :: "u32 \<Rightarrow> channel_map option \<Rightarrow> ma_channel \<Rightarrow> bool" where
  "ma_channel_map_contains_channel_position chans pChannelMap channelPosition =
     fst (ma_channel_map_find_channel_position chans pChannelMap channelPosition)"

section \<open>Printing\<close>

definition ma_channel_position_to_string :: "ma_channel \<Rightarrow> string" where
  "ma_channel_position_to_string channel =
     (if channel = MA_CHANNEL_NONE then ''CHANNEL_NONE'' else
     (if channel = MA_CHANNEL_MONO then ''CHANNEL_MONO'' else
     (if channel = MA_CHANNEL_FRONT_LEFT then ''CHANNEL_FRONT_LEFT'' else
     (if channel = MA_CHANNEL_FRONT_RIGHT then ''CHANNEL_FRONT_RIGHT'' else
     (if channel = MA_CHANNEL_FRONT_CENTER then ''CHANNEL_FRONT_CENTER'' else
     (if channel = MA_CHANNEL_LFE then ''CHANNEL_LFE'' else
     (if channel = MA_CHANNEL_BACK_LEFT then ''CHANNEL_BACK_LEFT'' else
     (if channel = MA_CHANNEL_BACK_RIGHT then ''CHANNEL_BACK_RIGHT'' else
     (if channel = MA_CHANNEL_FRONT_LEFT_CENTER then ''CHANNEL_FRONT_LEFT_CENTER'' else
     (if channel = MA_CHANNEL_FRONT_RIGHT_CENTER then ''CHANNEL_FRONT_RIGHT_CENTER'' else
     (if channel = MA_CHANNEL_BACK_CENTER then ''CHANNEL_BACK_CENTER'' else
     (if channel = MA_CHANNEL_SIDE_LEFT then ''CHANNEL_SIDE_LEFT'' else
     (if channel = MA_CHANNEL_SIDE_RIGHT then ''CHANNEL_SIDE_RIGHT'' else
     (if channel = MA_CHANNEL_TOP_CENTER then ''CHANNEL_TOP_CENTER'' else
     (if channel = MA_CHANNEL_TOP_FRONT_LEFT then ''CHANNEL_TOP_FRONT_LEFT'' else
     (if channel = MA_CHANNEL_TOP_FRONT_CENTER then ''CHANNEL_TOP_FRONT_CENTER'' else
     (if channel = MA_CHANNEL_TOP_FRONT_RIGHT then ''CHANNEL_TOP_FRONT_RIGHT'' else
     (if channel = MA_CHANNEL_TOP_BACK_LEFT then ''CHANNEL_TOP_BACK_LEFT'' else
     (if channel = MA_CHANNEL_TOP_BACK_CENTER then ''CHANNEL_TOP_BACK_CENTER'' else
     (if channel = MA_CHANNEL_TOP_BACK_RIGHT then ''CHANNEL_TOP_BACK_RIGHT'' else
     (if channel = MA_CHANNEL_AUX_0 then ''CHANNEL_AUX_0'' else
     (if channel = MA_CHANNEL_AUX_1 then ''CHANNEL_AUX_1'' else
     (if channel = MA_CHANNEL_AUX_2 then ''CHANNEL_AUX_2'' else
     (if channel = MA_CHANNEL_AUX_3 then ''CHANNEL_AUX_3'' else
     (if channel = MA_CHANNEL_AUX_4 then ''CHANNEL_AUX_4'' else
     (if channel = MA_CHANNEL_AUX_5 then ''CHANNEL_AUX_5'' else
     (if channel = MA_CHANNEL_AUX_6 then ''CHANNEL_AUX_6'' else
     (if channel = MA_CHANNEL_AUX_7 then ''CHANNEL_AUX_7'' else
     (if channel = MA_CHANNEL_AUX_8 then ''CHANNEL_AUX_8'' else
     (if channel = MA_CHANNEL_AUX_9 then ''CHANNEL_AUX_9'' else
     (if channel = MA_CHANNEL_AUX_10 then ''CHANNEL_AUX_10'' else
     (if channel = MA_CHANNEL_AUX_11 then ''CHANNEL_AUX_11'' else
     (if channel = MA_CHANNEL_AUX_12 then ''CHANNEL_AUX_12'' else
     (if channel = MA_CHANNEL_AUX_13 then ''CHANNEL_AUX_13'' else
     (if channel = MA_CHANNEL_AUX_14 then ''CHANNEL_AUX_14'' else
     (if channel = MA_CHANNEL_AUX_15 then ''CHANNEL_AUX_15'' else
     (if channel = MA_CHANNEL_AUX_16 then ''CHANNEL_AUX_16'' else
     (if channel = MA_CHANNEL_AUX_17 then ''CHANNEL_AUX_17'' else
     (if channel = MA_CHANNEL_AUX_18 then ''CHANNEL_AUX_18'' else
     (if channel = MA_CHANNEL_AUX_19 then ''CHANNEL_AUX_19'' else
     (if channel = MA_CHANNEL_AUX_20 then ''CHANNEL_AUX_20'' else
     (if channel = MA_CHANNEL_AUX_21 then ''CHANNEL_AUX_21'' else
     (if channel = MA_CHANNEL_AUX_22 then ''CHANNEL_AUX_22'' else
     (if channel = MA_CHANNEL_AUX_23 then ''CHANNEL_AUX_23'' else
     (if channel = MA_CHANNEL_AUX_24 then ''CHANNEL_AUX_24'' else
     (if channel = MA_CHANNEL_AUX_25 then ''CHANNEL_AUX_25'' else
     (if channel = MA_CHANNEL_AUX_26 then ''CHANNEL_AUX_26'' else
     (if channel = MA_CHANNEL_AUX_27 then ''CHANNEL_AUX_27'' else
     (if channel = MA_CHANNEL_AUX_28 then ''CHANNEL_AUX_28'' else
     (if channel = MA_CHANNEL_AUX_29 then ''CHANNEL_AUX_29'' else
     (if channel = MA_CHANNEL_AUX_30 then ''CHANNEL_AUX_30'' else
     (if channel = MA_CHANNEL_AUX_31 then ''CHANNEL_AUX_31'' else
      ''UNKNOWN''))))))))))))))))))))))))))))))))))))))))))))))))))))"

type_synonym char_buffer = "nat \<Rightarrow> char"

definition write_string :: "nat \<Rightarrow> string \<Rightarrow> char_buffer \<Rightarrow> char_buffer" where
  "write_string at s buf = (\<lambda>j. if at \<le> j \<and> j < at + length s then s ! (j - at) else buf j)"

text \<open>One turn of the loop: append the name when it fits, then a space unless it was the last. The
  length counts both whether or not they were written.\<close>

definition append_channel :: "channel_map option \<Rightarrow> u32 \<Rightarrow> nat \<Rightarrow> nat \<Rightarrow> nat \<times> char_buffer option \<Rightarrow> nat \<times> char_buffer option" where
  "append_channel pChannelMap chans bufferCap i st =
     (let (len, buf) = st;
          str = ma_channel_position_to_string (ma_channel_map_get_channel pChannelMap chans (of_nat i));
          buf1 = (if len + length str < bufferCap then map_option (write_string len str) buf else buf);
          len1 = len + length str
      in if i + 1 < unat chans
         then (len1 + 1, if len1 + 1 < bufferCap then map_option (\<lambda>b. b(len1 := CHR '' '')) buf1 else buf1)
         else (len1, buf1))"

definition ma_channel_map_to_string ::
    "channel_map option \<Rightarrow> u32 \<Rightarrow> char_buffer option \<Rightarrow> nat \<Rightarrow> nat \<times> char_buffer option" where
  "ma_channel_map_to_string pChannelMap chans pBufferOut bufferCap =
     (let (len, buf) = fold (append_channel pChannelMap chans bufferCap) [0..<unat chans] (0, pBufferOut)
      in (len, map_option (\<lambda>b. if len < bufferCap then b(len := CHR 0x00)
                               else if 0 < bufferCap then b(bufferCap - 1 := CHR 0x00) else b) buf))"

section \<open>The tables are injective\<close>

definition row_ok :: "(u32 \<Rightarrow> ma_channel list) \<Rightarrow> nat \<Rightarrow> bool" where
  "row_ok row big \<longleftrightarrow> (\<forall>c. 1 < unat c \<longrightarrow> distinct (row c) \<and> (\<forall>p \<in> set (row c). 2 \<le> p \<and> p < 20)
     \<and> length (row c) = min (unat c) big)"

lemma u32_cases_8:
  fixes c :: u32
  assumes "1 < unat c"
  obtains "c = 2" | "c = 3" | "c = 4" | "c = 5" | "c = 6" | "c = 7" | "8 \<le> unat c"
proof (cases "8 \<le> unat c")
  case False
  then have "unat c = 2 \<or> unat c = 3 \<or> unat c = 4 \<or> unat c = 5 \<or> unat c = 6 \<or> unat c = 7" using assms by linarith
  moreover have "c = of_nat (unat c)" by simp
  ultimately have "c = 2 \<or> c = 3 \<or> c = 4 \<or> c = 5 \<or> c = 6 \<or> c = 7" by (elim disjE) simp_all
  then show ?thesis using that by blast
qed (use that in blast)

lemma big_not_small:
  fixes c :: u32
  assumes "8 \<le> unat c"
  shows "c \<noteq> 2" "c \<noteq> 3" "c \<noteq> 4" "c \<noteq> 5" "c \<noteq> 6" "c \<noteq> 7"
  using assms by auto

lemmas row_defs = row_microsoft_def row_alsa_def row_rfc3551_def row_flac_def row_vorbis_def
  row_sound4_def row_sndio_def

lemma row_okI:
  assumes "\<And>c. 1 < unat c \<Longrightarrow> c = 2 \<or> c = 3 \<or> c = 4 \<or> c = 5 \<or> c = 6 \<or> c = 7 \<or>
      (8 \<le> unat c \<and> c \<noteq> 2 \<and> c \<noteq> 3 \<and> c \<noteq> 4 \<and> c \<noteq> 5 \<and> c \<noteq> 6 \<and> c \<noteq> 7) \<Longrightarrow>
    distinct (row c) \<and> list_all (\<lambda>p. 2 \<le> p \<and> p < 20) (row c) \<and> length (row c) = min (unat c) big"
  shows "row_ok row big"
  unfolding row_ok_def
proof (intro allI impI)
  fix c :: u32
  assume c: "1 < unat c"
  then have "c = 2 \<or> c = 3 \<or> c = 4 \<or> c = 5 \<or> c = 6 \<or> c = 7 \<or>
      (8 \<le> unat c \<and> c \<noteq> 2 \<and> c \<noteq> 3 \<and> c \<noteq> 4 \<and> c \<noteq> 5 \<and> c \<noteq> 6 \<and> c \<noteq> 7)"
    by (cases rule: u32_cases_8) (use big_not_small [of c] in blast)+
  from assms [OF c this] show "distinct (row c) \<and> (\<forall>p \<in> set (row c). 2 \<le> p \<and> p < 20) \<and> length (row c) = min (unat c) big"
    by (simp add: list_all_iff)
qed

lemma rows_ok:
  "row_ok row_microsoft 8" "row_ok row_alsa 8" "row_ok row_flac 8" "row_ok row_vorbis 8"
  "row_ok row_sound4 8" "row_ok row_rfc3551 6" "row_ok row_sndio 6"
  by (rule row_okI, elim disjE; simp add: row_defs)+

text \<open>A channel of a table: from the row, or an auxiliary position numbered from the row's end.\<close>

lemma uint_AUX:
  assumes "n < 32" "b \<le> n"
  shows "(MA_CHANNEL_AUX_0 + ucast ((of_nat n :: u32) - of_nat b) :: u8) = of_nat (20 + (n - b))"
proof -
  have "(of_nat n :: u32) - of_nat b = of_nat (n - b)" using assms by simp
  moreover have "(ucast (of_nat (n - b) :: u32) :: u8) = of_nat (n - b)"
    using assms(1) by (simp add: unsigned_of_nat take_bit_nat_eq_self)
  ultimately show ?thesis by simp
qed

lemma table_channel_eq:
  assumes "row_ok row b" "1 < unat c" "unat c \<le> 32" "n < unat c" "b < 32"
  shows "table_channel row (of_nat b) c (of_nat n) = (if n < b then row c ! n else of_nat (20 + (n - b)))"
proof -
  have len: "length (row c) = min (unat c) b" using assms(1,2) by (simp add: row_ok_def)
  have u: "unat (of_nat n :: u32) = n" "unat (of_nat b :: u32) = b"
    using assms(3,4,5) by (simp_all add: unat_of_nat take_bit_nat_eq_self)
  have c: "c \<noteq> 0" "c \<noteq> 1" using assms(2) by auto
  show ?thesis
  proof (cases "n < b")
    case True
    then show ?thesis using c len u assms(4) by (simp add: table_channel_def)
  next
    case False
    then have "(of_nat b :: u32) < c" "(of_nat n :: u32) < 32"
      using u assms(3,4) by (simp_all add: word_less_nat_alt)
    then show ?thesis
      using False c len u uint_AUX [of n b] assms(3,4) by (simp add: table_channel_def)
  qed
qed

lemma table_channel_range:
  assumes "row_ok row b" "1 < unat c" "unat c \<le> 32" "n < unat c" "b < 32"
  shows "2 \<le> unat (table_channel row (of_nat b) c (of_nat n))"
    and "unat (table_channel row (of_nat b) c (of_nat n)) < 20 \<longleftrightarrow> n < b"
proof -
  have r: "p \<in> set (row c) \<Longrightarrow> 2 \<le> unat p \<and> unat p < 20" for p
    using assms(1,2) by (auto simp: row_ok_def word_le_nat_alt word_less_nat_alt)
  have "length (row c) = min (unat c) b" using assms(1,2) by (simp add: row_ok_def)
  then have "n < b \<Longrightarrow> row c ! n \<in> set (row c)" using assms(4) by simp
  moreover have "\<not> n < b \<Longrightarrow> unat (of_nat (20 + (n - b)) :: u8) = 20 + (n - b)"
    using assms(3,4) by (simp only: unat_of_nat) simp
  ultimately show "2 \<le> unat (table_channel row (of_nat b) c (of_nat n))"
    "unat (table_channel row (of_nat b) c (of_nat n)) < 20 \<longleftrightarrow> n < b"
    using r unfolding table_channel_eq [OF assms] by auto
qed

lemma table_channel_inj:
  assumes "row_ok row b" "1 < unat c" "unat c \<le> 32" "n < unat c" "k < unat c" "b < 32"
    and "table_channel row (of_nat b) c (of_nat n) = table_channel row (of_nat b) c (of_nat k)"
  shows "n = k"
proof (cases "n < b")
  case True
  then have "k < b" using table_channel_range(2) [of row b c] assms by metis
  moreover have "distinct (row c)" "length (row c) = min (unat c) b" using assms(1,2) by (simp_all add: row_ok_def)
  ultimately show ?thesis
    using True assms by (simp add: table_channel_eq nth_eq_iff_index_eq)
next
  case False
  then have k: "\<not> k < b" using table_channel_range(2) [of row b c] assms by metis
  have "(of_nat (20 + (n - b)) :: u8) = of_nat (20 + (k - b))"
    using assms(7) False k unfolding table_channel_eq [OF assms(1-4,6)] table_channel_eq [OF assms(1-3,5,6)] by simp
  then have "unat (of_nat (20 + (n - b)) :: u8) = unat (of_nat (20 + (k - b)) :: u8)" by simp
  then have "20 + (n - b) = 20 + (k - b)" using assms(3-5) by (simp only: unat_of_nat) simp
  then show ?thesis using False k by simp
qed

lemma standard_channel_table:
  assumes "1 < unat c"
  obtains row b where "row_ok row b" "b < 32"
    "\<And>k. k < unat c \<Longrightarrow> ma_channel_map_init_standard_channel std c (of_nat k) = table_channel row (of_nat b) c (of_nat k)"
proof -
  have g: "c \<noteq> 0" "k < unat c \<Longrightarrow> \<not> c \<le> of_nat k" for k
  proof -
    show "c \<noteq> 0" using assms by auto
    show "\<not> c \<le> of_nat k" if "k < unat c"
    proof -
      have "unat c < 2 ^ LENGTH(32)" by (rule unsigned_less)
      then have "unat (of_nat k :: u32) = k" using that by (simp add: unat_of_nat take_bit_nat_eq_self)
      then show ?thesis using that by (simp add: word_le_nat_alt)
    qed
  qed
  note defs = ma_channel_map_init_standard_channel_def ma_channel_map_init_standard_channel_microsoft_def
    ma_channel_map_init_standard_channel_alsa_def ma_channel_map_init_standard_channel_rfc3551_def
    ma_channel_map_init_standard_channel_flac_def ma_channel_map_init_standard_channel_vorbis_def
    ma_channel_map_init_standard_channel_sound4_def ma_channel_map_init_standard_channel_sndio_def
  show ?thesis
  proof (cases std)
    case ma_standard_channel_map_microsoft
    then show ?thesis using that [OF rows_ok(1)] g by (simp add: defs)
  next
    case ma_standard_channel_map_alsa
    then show ?thesis using that [OF rows_ok(2)] g by (simp add: defs)
  next
    case ma_standard_channel_map_rfc3551
    then show ?thesis using that [OF rows_ok(6)] g by (simp add: defs)
  next
    case ma_standard_channel_map_flac
    then show ?thesis using that [OF rows_ok(3)] g by (simp add: defs)
  next
    case ma_standard_channel_map_vorbis
    then show ?thesis using that [OF rows_ok(4)] g by (simp add: defs)
  next
    case ma_standard_channel_map_sound4
    then show ?thesis using that [OF rows_ok(5)] g by (simp add: defs)
  next
    case ma_standard_channel_map_sndio
    then show ?thesis using that [OF rows_ok(7)] g by (simp add: defs)
  qed
qed

lemma standard_channel_inj:
  assumes "1 < unat c" "unat c \<le> 32" "n < unat c" "k < unat c"
    and "ma_channel_map_init_standard_channel std c (of_nat n) = ma_channel_map_init_standard_channel std c (of_nat k)"
  shows "n = k"
  using standard_channel_table [OF assms(1), of std] table_channel_inj assms by (metis (no_types, lifting))

lemma standard_channel_proper:
  assumes "1 < unat c" "unat c \<le> 32" "n < unat c"
  shows "2 \<le> unat (ma_channel_map_init_standard_channel std c (of_nat n))"
proof -
  obtain row b where "row_ok row b" "b < 32"
      "ma_channel_map_init_standard_channel std c (of_nat n) = table_channel row (of_nat b) c (of_nat n)"
    using standard_channel_table [OF assms(1), of std] assms(3) by metis
  then show ?thesis using table_channel_range(1) assms by metis
qed

lemma init_standard_loop_eq:
  "init_standard_loop std c [at..<n] at cap m j =
     (if at \<le> j \<and> j < n \<and> j < at + cap then ma_channel_map_init_standard_channel std c (of_nat j) else m j)"
proof (induction "n - at" arbitrary: at cap m)
  case 0
  then show ?case by auto
next
  case (Suc k)
  then have "[at..<n] = at # [Suc at..<n]" by (simp add: upt_conv_Cons)
  moreover have "k = n - Suc at" using Suc(2) by simp
  ultimately show ?case using Suc(1) [of "Suc at" "cap - 1"] by (cases "cap = 0") auto
qed

lemma find_first_index:
  assumes "i < n" "P i" "\<And>j. j < i \<Longrightarrow> \<not> P j"
  shows "find P [0..<n] = Some i"
proof -
  have "[0..<n] = [0..<i] @ i # [Suc i..<n]"
    using assms(1) upt_add_eq_append [of 0 i "n - i"] upt_conv_Cons [of i n] by simp
  moreover have "find P (xs @ y # ys) = Some y" if "P y" "\<forall>x \<in> set xs. \<not> P x" for xs y ys
    using that by (induction xs) auto
  ultimately show ?thesis using assms(2,3) by simp
qed

section \<open>Properties\<close>

text \<open>C39: Initialising a standard map of 2 to 32 channels fills exactly the first
  \<open>min (cap, channels)\<close> entries of the array and nothing beyond, in each of the seven layouts; the
  positions are pairwise different, none is "none" or "mono", and a map with room for all its
  channels is valid.\<close>

theorem standard_map_proper:
  assumes "1 < unat c" "unat c \<le> 32" "0 < cap"
  shows "\<exists>m'. ma_channel_map_init_standard std (Some m) cap c = Some m' \<and>
    (\<forall>j \<ge> min cap (unat c). m' j = m j) \<and>
    (\<forall>i < min cap (unat c). \<forall>j < min cap (unat c). m' i = m' j \<longrightarrow> i = j) \<and>
    (\<forall>i < min cap (unat c). m' i \<noteq> MA_CHANNEL_NONE \<and> m' i \<noteq> MA_CHANNEL_MONO) \<and>
    (unat c \<le> cap \<longrightarrow> ma_channel_map_is_valid (Some m') c)"
proof -
  let ?m = "init_standard_loop std c [0..<unat c] 0 cap m"
  have m: "?m j = (if j < min cap (unat c) then ma_channel_map_init_standard_channel std c (of_nat j) else m j)" for j
    by (simp add: init_standard_loop_eq)
  have proper: "?m i \<noteq> MA_CHANNEL_NONE \<and> ?m i \<noteq> MA_CHANNEL_MONO" if "i < min cap (unat c)" for i
    using standard_channel_proper [OF assms(1,2), of i std] that unfolding m by auto
  have c: "c \<noteq> 0" "1 < c" using assms(1) by (auto simp: word_less_nat_alt)
  have small: "unat (of_nat i :: u32) = i" if "i < unat c" for i
    using that assms(2) by (simp add: unat_of_nat take_bit_nat_eq_self)
  have "ma_channel_map_is_valid (Some ?m) c" if "unat c \<le> cap"
    using proper that c small
    by (auto simp: ma_channel_map_is_valid_def ma_channel_map_get_channel_def list_all_iff word_le_nat_alt)
  moreover have "\<forall>i < min cap (unat c). \<forall>j < min cap (unat c). ?m i = ?m j \<longrightarrow> i = j"
    using standard_channel_inj [OF assms(1,2), of _ _ std] by (simp add: m)
  moreover have "\<forall>j \<ge> min cap (unat c). ?m j = m j" by (auto simp: m)
  moreover have "ma_channel_map_init_standard std (Some m) cap c = Some ?m"
    using c(1) assms(3) by (simp add: ma_channel_map_init_standard_def)
  ultimately show ?thesis using proper by blast
qed

lemma standard_map_proper_witness:
  "\<exists>m'. ma_channel_map_init_standard ma_standard_channel_map_vorbis (Some (\<lambda>_. 0)) 16 11 = Some m' \<and>
    m' 11 = 0 \<and> m' 3 \<noteq> m' 10 \<and> ma_channel_map_is_valid (Some m') 11"
proof -
  obtain m' where m: "ma_channel_map_init_standard ma_standard_channel_map_vorbis (Some (\<lambda>_. 0)) 16 11 = Some m'"
      "\<forall>j \<ge> min 16 (unat (11 :: u32)). m' j = 0"
      "\<forall>i < min 16 (unat (11 :: u32)). \<forall>j < min 16 (unat (11 :: u32)). m' i = m' j \<longrightarrow> i = j"
      "unat (11 :: u32) \<le> 16 \<longrightarrow> ma_channel_map_is_valid (Some m') 11"
    using standard_map_proper [of 11 16 ma_standard_channel_map_vorbis "\<lambda>_. 0"] by auto
  have "m' 11 = 0" using m(2) by simp
  moreover have "m' 3 \<noteq> m' 10" using m(3) [rule_format, of 3 10] by auto
  ultimately show ?thesis using m by auto
qed

text \<open>Searching the default map (the null pointer) of 2 to 32 channels for the position of its
  \<open>i\<close>-th channel finds index \<open>i\<close>.\<close>

theorem default_map_find_roundtrip:
  assumes "1 < unat c" "unat c \<le> 32" "i < unat c"
  shows "ma_channel_map_find_channel_position c None (ma_channel_map_get_channel None c (of_nat i)) = (True, of_nat i)"
proof -
  have "find (\<lambda>j. ma_channel_map_get_channel None c (of_nat j) = ma_channel_map_get_channel None c (of_nat i))
      [0..<unat c] = Some i"
  proof (rule find_first_index [OF assms(3)])
    fix j
    assume "j < i"
    then show "ma_channel_map_get_channel None c (of_nat j) \<noteq> ma_channel_map_get_channel None c (of_nat i)"
      using standard_channel_inj [OF assms(1,2), of j i] assms(3) by (auto simp: ma_channel_map_get_channel_def)
  qed simp
  then show ?thesis by (simp add: ma_channel_map_find_channel_position_def)
qed

lemma default_map_find_roundtrip_witness:
  "ma_channel_map_find_channel_position 8 None (ma_channel_map_get_channel None 8 (of_nat 5)) = (True, of_nat 5)"
  by (rule default_map_find_roundtrip) simp_all

section \<open>Printing stays in its buffer\<close>

definition channel_names :: "channel_map option \<Rightarrow> u32 \<Rightarrow> nat \<Rightarrow> string list" where
  "channel_names pm c n = map (\<lambda>i. ma_channel_position_to_string (ma_channel_map_get_channel pm c (of_nat i))) [0..<n]"

text \<open>What the first \<open>n\<close> turns of the loop print: the names with a space after each but the last.\<close>

fun spaced :: "nat \<Rightarrow> string list \<Rightarrow> string" where
  "spaced left [] = []"
| "spaced left (x # xs) = x @ (if 1 < left then '' '' else []) @ spaced (left - 1) xs"

lemma spaced_append: "spaced left (xs @ ys) = spaced left xs @ spaced (left - length xs) ys"
  by (induction xs arbitrary: left) auto

definition holds_prefix :: "string \<Rightarrow> nat \<Rightarrow> char_buffer \<Rightarrow> char_buffer \<Rightarrow> bool" where
  "holds_prefix s cap old buf \<longleftrightarrow>
     (\<forall>j \<ge> cap. buf j = old j) \<and> (length s < cap \<longrightarrow> (\<forall>j < length s. buf j = s ! j))"

lemma holds_prefix_write:
  assumes "holds_prefix s cap old buf"
  shows "holds_prefix (s @ t) cap old (if length s + length t < cap then write_string (length s) t buf else buf)"
  using assms by (auto simp: holds_prefix_def write_string_def nth_append)

lemma upd_is_write: "b(n := c) = write_string n [c] b"
  by (auto simp: write_string_def fun_eq_iff)

lemma append_channel_prefix:
  assumes "i < unat c" "holds_prefix s cap old buf"
    and "str = ma_channel_position_to_string (ma_channel_map_get_channel pm c (of_nat i))"
  shows "\<exists>buf'. append_channel pm c cap i (length s, Some buf) =
      (length (s @ spaced (unat c - i) [str]), Some buf') \<and> holds_prefix (s @ spaced (unat c - i) [str]) cap old buf'"
proof -
  define b1 where "b1 = (if length s + length str < cap then write_string (length s) str buf else buf)"
  define b2 where "b2 = (if length s + length str + 1 < cap then b1(length s + length str := CHR '' '') else b1)"
  have one: "holds_prefix (s @ str) cap old b1" unfolding b1_def by (rule holds_prefix_write [OF assms(2)])
  have two: "holds_prefix ((s @ str) @ '' '') cap old b2"
    using holds_prefix_write [OF one, of "'' ''"] by (auto simp: b2_def upd_is_write split: if_splits)
  show ?thesis
  proof (cases "i + 1 < unat c")
    case True
    then have "append_channel pm c cap i (length s, Some buf) = (length s + length str + 1, Some b2)"
      by (simp add: append_channel_def assms(3) Let_def b1_def b2_def)
    moreover have "1 < unat c - i" using True by simp
    ultimately show ?thesis using two by simp
  next
    case False
    then have "append_channel pm c cap i (length s, Some buf) = (length s + length str, Some b1)"
      by (simp add: append_channel_def assms(3) Let_def b1_def)
    then show ?thesis using False one by simp
  qed
qed

lemma append_channels_prefix:
  "n \<le> unat c \<Longrightarrow> \<exists>buf'. fold (append_channel pm c cap) [0..<n] (0, Some buf) =
      (length (spaced (unat c) (channel_names pm c n)), Some buf') \<and>
    holds_prefix (spaced (unat c) (channel_names pm c n)) cap buf buf'"
proof (induction n)
  case 0
  then show ?case by (simp add: channel_names_def holds_prefix_def)
next
  case (Suc n)
  let ?str = "ma_channel_position_to_string (ma_channel_map_get_channel pm c (of_nat n))"
  obtain b where b: "fold (append_channel pm c cap) [0..<n] (0, Some buf) = (length (spaced (unat c) (channel_names pm c n)), Some b)"
      "holds_prefix (spaced (unat c) (channel_names pm c n)) cap buf b"
    using Suc by auto
  have names: "spaced (unat c) (channel_names pm c (Suc n)) = spaced (unat c) (channel_names pm c n) @ spaced (unat c - n) [?str]"
    by (simp add: channel_names_def spaced_append)
  show ?case
    using append_channel_prefix [OF _ b(2) refl, of n c pm] Suc.prems b(1) unfolding names by simp
qed

text \<open>Printing a channel map never writes at or beyond \<open>bufferCap\<close>, whatever the map; the result
  is the length of the full text (the channels' names with single spaces between them), and when the
  buffer has room for the text and its terminator it holds exactly that.\<close>

theorem channel_map_to_string_safe:
  shows "\<exists>buf'. ma_channel_map_to_string pm c (Some buf) cap = (length (spaced (unat c) (channel_names pm c (unat c))), Some buf') \<and>
    (\<forall>j \<ge> cap. buf' j = buf j) \<and>
    (length (spaced (unat c) (channel_names pm c (unat c))) < cap \<longrightarrow>
       map buf' [0..<length (spaced (unat c) (channel_names pm c (unat c)))] = spaced (unat c) (channel_names pm c (unat c)) \<and>
       buf' (length (spaced (unat c) (channel_names pm c (unat c)))) = CHR 0x00)"
proof -
  let ?s = "spaced (unat c) (channel_names pm c (unat c))"
  obtain b where b: "fold (append_channel pm c cap) [0..<unat c] (0, Some buf) = (length ?s, Some b)"
      "holds_prefix ?s cap buf b"
    using append_channels_prefix [of "unat c" c pm cap buf] by auto
  show ?thesis
    using b(2) by (auto simp: ma_channel_map_to_string_def b(1) holds_prefix_def intro!: nth_equalityI)
qed

lemma channel_map_to_string_safe_witness:
  "\<exists>buf'. ma_channel_map_to_string None 2 (Some (\<lambda>_. CHR ''x'')) 64 = (38, Some buf') \<and> buf' 38 = CHR 0x00 \<and> buf' 64 = CHR ''x''"
proof -
  have s: "spaced (unat (2 :: u32)) (channel_names None 2 (unat (2 :: u32))) = ''CHANNEL_FRONT_LEFT CHANNEL_FRONT_RIGHT''"
    by (simp add: channel_names_def upt_rec ma_channel_map_get_channel_def ma_channel_map_init_standard_channel_def
        ma_channel_map_init_standard_channel_microsoft_def table_channel_def row_microsoft_def ma_channel_position_to_string_def
        word_le_nat_alt)
  define t where "t = spaced (unat (2 :: u32)) (channel_names None 2 (unat (2 :: u32)))"
  have "length t = 38" unfolding t_def s by simp
  then show ?thesis
    using channel_map_to_string_safe [of None 2 "\<lambda>_. CHR ''x''" 64, folded t_def] by auto
qed

end
