(* ===== verification/Ma_Channel_Conv.thy ===== *)
theory Ma_Channel_Conv
  imports Ma_Lpf Ma_Channels
begin

text \<open>
  Channel conversion in miniaudio (\<open>ma_channel_converter\<close> in \<open>client/native/miniaudio.h\<close>): how the path of a
  conversion is chosen, shuffle tables and weights, and the conversion of frames of every format on every
  path. Buffers are those of \<open>Ma_Pcm\<close>. \<open>None\<close> is undefined behaviour, a failed assertion, or a loop that
  never ends (a 32-bit counter against a 64-bit count).
\<close>

unbundle bit_operations_syntax

section \<open>Positions in space\<close>

text \<open>The planes are left, right, front, back, bottom and top; no position above the last row is spatial.\<close>

definition g_maChannelPlaneRatios :: "ma_channel \<Rightarrow> f32 list" where
  "g_maChannelPlaneRatios p = map f32
     (([[0, 0, 0, 0, 0, 0], [0, 0, 0, 0, 0, 0], [1 / 2, 0, 1 / 2, 0, 0, 0], [0, 1 / 2, 1 / 2, 0, 0, 0], [0, 0, 1, 0, 0, 0],
       [0, 0, 0, 0, 0, 0], [1 / 2, 0, 0, 1 / 2, 0, 0], [0, 1 / 2, 0, 1 / 2, 0, 0], [1 / 4, 0, 3 / 4, 0, 0, 0], [0, 1 / 4, 3 / 4, 0, 0, 0],
       [0, 0, 0, 1, 0, 0], [1, 0, 0, 0, 0, 0], [0, 1, 0, 0, 0, 0], [0, 0, 0, 0, 0, 1], [33 / 100, 0, 33 / 100, 0, 0, 34 / 100],
       [0, 0, 1 / 2, 0, 0, 1 / 2], [0, 33 / 100, 33 / 100, 0, 0, 34 / 100], [33 / 100, 0, 0, 33 / 100, 0, 34 / 100],
       [0, 0, 0, 1 / 2, 0, 1 / 2], [0, 33 / 100, 0, 33 / 100, 0, 34 / 100]] @ replicate 32 [0, 0, 0, 0, 0, 0]) ! unat p)"

definition ma_calculate_channel_position_rectangular_weight :: "ma_channel \<Rightarrow> ma_channel \<Rightarrow> f32" where
  "ma_calculate_channel_position_rectangular_weight a b =
     (let r = (\<lambda>i. fp_mul f32 (g_maChannelPlaneRatios a ! i) (g_maChannelPlaneRatios b ! i))
      in fp_add f32 (fp_add f32 (fp_add f32 (fp_add f32 (fp_add f32 (r 0) (r 1)) (r 2)) (r 3)) (r 4)) (r 5))"

definition ma_is_spatial_channel_position :: "ma_channel \<Rightarrow> bool" where
  "ma_is_spatial_channel_position p =
     (if p = MA_CHANNEL_NONE \<or> p = MA_CHANNEL_MONO \<or> p = MA_CHANNEL_LFE then False
      else if MA_CHANNEL_AUX_0 \<le> p then False
      else \<exists>i \<in> set [0..<6]. g_maChannelPlaneRatios p ! i \<noteq> Fin 0)"

text \<open>\<open>None\<close>: an assertion fails. The loop would take a null map for the default one.\<close>

definition ma_channel_map_get_spatial_channel_count :: "channel_map option \<Rightarrow> u32 \<Rightarrow> u32 option" where
  "ma_channel_map_get_spatial_channel_count m chans =
     (if m = None then None
      else if \<not> 0 < chans then None
      else Some (of_nat (length (filter
        (\<lambda>i. ma_is_spatial_channel_position (ma_channel_map_get_channel m chans (of_nat i))) [0..<unat chans]))))"

definition ma_channel_converter_float_to_fixed :: "f32 \<Rightarrow> i32 option" where
  "ma_channel_converter_float_to_fixed x = map_option word_of_int (fp_to_int (- (2 ^ 31)) (2 ^ 31 - 1) (fp_mul f32 x (Fin 4096)))"

section \<open>The path of a conversion\<close>

datatype ma_channel_conversion_path =
    ma_channel_conversion_path_passthrough | ma_channel_conversion_path_mono_out | ma_channel_conversion_path_mono_in
  | ma_channel_conversion_path_shuffle | ma_channel_conversion_path_weights

datatype ma_channel_mix_mode =
    ma_channel_mix_mode_rectangular | ma_channel_mix_mode_simple | ma_channel_mix_mode_custom_weights

text \<open>Two equal pointers are two equal maps.\<close>

definition ma_channel_map_is_passthrough :: "channel_map option \<Rightarrow> u32 \<Rightarrow> channel_map option \<Rightarrow> u32 \<Rightarrow> bool" where
  "ma_channel_map_is_passthrough pIn channelsIn pOut channelsOut =
     (if channelsOut = channelsIn then ma_channel_map_is_equal False pOut pIn channelsOut else False)"

definition ma_channel_map_get_conversion_path ::
    "channel_map option \<Rightarrow> u32 \<Rightarrow> channel_map option \<Rightarrow> u32 \<Rightarrow> ma_channel_mix_mode \<Rightarrow> ma_channel_conversion_path" where
  "ma_channel_map_get_conversion_path pIn channelsIn pOut channelsOut mode =
     (if ma_channel_map_is_passthrough pIn channelsIn pOut channelsOut then ma_channel_conversion_path_passthrough
      else if channelsOut = 1 \<and> (case pOut of None \<Rightarrow> True | Some m \<Rightarrow> m 0 = MA_CHANNEL_MONO) then ma_channel_conversion_path_mono_out
      else if channelsIn = 1 \<and> (case pIn of None \<Rightarrow> True | Some m \<Rightarrow> m 0 = MA_CHANNEL_MONO) then ma_channel_conversion_path_mono_in
      else if mode = ma_channel_mix_mode_custom_weights then ma_channel_conversion_path_weights
      else if channelsIn = channelsOut \<and>
        list_all (\<lambda>i. ma_channel_map_contains_channel_position channelsOut pOut (ma_channel_map_get_channel pIn channelsIn (of_nat i)))
          [0..<unat channelsIn] then ma_channel_conversion_path_shuffle
      else ma_channel_conversion_path_weights)"

section \<open>Shuffle tables\<close>

definition MA_CHANNEL_INDEX_NULL :: u8 where "MA_CHANNEL_INDEX_NULL = 255"

text \<open>Positions that a table also accepts for one another, if there is no exact match.\<close>

definition relaxed_match :: "ma_channel \<Rightarrow> ma_channel \<Rightarrow> bool" where
  "relaxed_match a b \<longleftrightarrow>
     (a = MA_CHANNEL_FRONT_LEFT \<or> a = MA_CHANNEL_SIDE_LEFT) \<and> (b = MA_CHANNEL_FRONT_LEFT \<or> b = MA_CHANNEL_SIDE_LEFT) \<or>
     (a = MA_CHANNEL_FRONT_RIGHT \<or> a = MA_CHANNEL_SIDE_RIGHT) \<and> (b = MA_CHANNEL_FRONT_RIGHT \<or> b = MA_CHANNEL_SIDE_RIGHT)"

fun shuffle_entry :: "ma_channel \<Rightarrow> (nat \<Rightarrow> ma_channel) \<Rightarrow> nat list \<Rightarrow> u8 \<Rightarrow> u8" where
  "shuffle_entry channelOut inp [] entry = entry"
| "shuffle_entry channelOut inp (i # is) entry =
     (if channelOut = inp i then of_nat i
      else shuffle_entry channelOut inp is (if relaxed_match channelOut (inp i) then of_nat i else entry))"

definition ma_channel_map_build_shuffle_table ::
    "channel_map option \<Rightarrow> u32 \<Rightarrow> channel_map option \<Rightarrow> u32 \<Rightarrow> u8 list option \<Rightarrow> ma_result \<times> u8 list option" where
  "ma_channel_map_build_shuffle_table pIn channelCountIn pOut channelCountOut pShuffleTable =
     (if pShuffleTable = None \<or> channelCountIn = 0 \<or> channelCountOut = 0 then (MA_INVALID_ARGS, pShuffleTable)
      else (MA_SUCCESS, Some (map (\<lambda>j. shuffle_entry (ma_channel_map_get_channel pOut channelCountOut (of_nat j))
        (\<lambda>i. ma_channel_map_get_channel pIn channelCountIn (of_nat i)) [0..<unat channelCountIn] MA_CHANNEL_INDEX_NULL)
        [0..<unat channelCountOut])))"

text \<open>The frames of a block, each turned into a frame of the output.\<close>

definition per_frame :: "nat \<Rightarrow> nat \<Rightarrow> ('a list \<Rightarrow> 'b list) \<Rightarrow> 'a list \<Rightarrow> 'b list" where
  "per_frame ch n g xs = concat (map g (frames_of ch n xs))"

definition shuffle_frame :: "'a \<Rightarrow> u8 list \<Rightarrow> u32 \<Rightarrow> u32 \<Rightarrow> 'a list \<Rightarrow> 'a list" where
  "shuffle_frame z table channelsOut channelsIn x =
     map (\<lambda>j. let i = table ! j in if ucast i < channelsIn then x ! unat i else z) [0..<unat channelsOut]"

text \<open>The code of the four formats whose samples are elements is the same.\<close>

definition ma_channel_map_apply_shuffle_table_u8 :: "u32 \<Rightarrow> u8 list \<Rightarrow> u32 \<Rightarrow> u64 \<Rightarrow> u8 list \<Rightarrow> u8 list" where
  "ma_channel_map_apply_shuffle_table_u8 channelsOut xs channelsIn frameCount table =
     per_frame (unat channelsIn) (unat frameCount) (shuffle_frame 0 table channelsOut channelsIn) xs"

definition ma_channel_map_apply_shuffle_table_s16 :: "u32 \<Rightarrow> i16 list \<Rightarrow> u32 \<Rightarrow> u64 \<Rightarrow> u8 list \<Rightarrow> i16 list" where
  "ma_channel_map_apply_shuffle_table_s16 channelsOut xs channelsIn frameCount table =
     per_frame (unat channelsIn) (unat frameCount) (shuffle_frame 0 table channelsOut channelsIn) xs"

definition ma_channel_map_apply_shuffle_table_s32 :: "u32 \<Rightarrow> i32 list \<Rightarrow> u32 \<Rightarrow> u64 \<Rightarrow> u8 list \<Rightarrow> i32 list" where
  "ma_channel_map_apply_shuffle_table_s32 channelsOut xs channelsIn frameCount table =
     per_frame (unat channelsIn) (unat frameCount) (shuffle_frame 0 table channelsOut channelsIn) xs"

definition ma_channel_map_apply_shuffle_table_f32 :: "u32 \<Rightarrow> f32 list \<Rightarrow> u32 \<Rightarrow> u64 \<Rightarrow> u8 list \<Rightarrow> f32 list" where
  "ma_channel_map_apply_shuffle_table_f32 channelsOut xs channelsIn frameCount table =
     per_frame (unat channelsIn) (unat frameCount) (shuffle_frame (Fin 0) table channelsOut channelsIn) xs"

text \<open>The 24-bit code has its braces misplaced: the second byte of every sample is cleared, and the third
  byte that is cleared is that of the sample after the frame. A store outside the buffer is undefined.\<close>

definition store :: "nat \<Rightarrow> 'a \<Rightarrow> 'a list \<Rightarrow> 'a list option" where
  "store i x xs = (if i < length xs then Some (xs[i := x]) else None)"

fun shuffle_s24_channels :: "u8 list \<Rightarrow> u32 \<Rightarrow> u8 list \<Rightarrow> nat \<Rightarrow> nat list \<Rightarrow> u8 list \<Rightarrow> u8 list option" where
  "shuffle_s24_channels table channelsIn x base [] out = Some out"
| "shuffle_s24_channels table channelsIn x base (j # js) out =
     do {
       let i = table ! j;
       out \<leftarrow> (if ucast i < channelsIn
         then do {
           out \<leftarrow> store (base + j * 3) (x ! (unat i * 3)) out;
           out \<leftarrow> store (base + j * 3 + 1) (x ! (unat i * 3 + 1)) out;
           store (base + j * 3 + 2) (x ! (unat i * 3 + 2)) out
         }
         else store (base + j * 3) 0 out);
       out \<leftarrow> store (base + j * 3 + 1) 0 out;
       shuffle_s24_channels table channelsIn x base js out
     }"

fun shuffle_s24_frames :: "u8 list \<Rightarrow> u32 \<Rightarrow> u32 \<Rightarrow> nat \<Rightarrow> u8 list list \<Rightarrow> u8 list \<Rightarrow> u8 list option" where
  "shuffle_s24_frames table channelsOut channelsIn base [] out = Some out"
| "shuffle_s24_frames table channelsOut channelsIn base (x # xs) out =
     do {
       out \<leftarrow> shuffle_s24_channels table channelsIn x base [0..<unat channelsOut] out;
       out \<leftarrow> store (base + unat channelsOut * 3 + 2) 0 out;
       shuffle_s24_frames table channelsOut channelsIn (base + unat channelsOut * 3) xs out
     }"

definition ma_channel_map_apply_shuffle_table_s24 :: "u8 list \<Rightarrow> u32 \<Rightarrow> u8 list \<Rightarrow> u32 \<Rightarrow> u64 \<Rightarrow> u8 list \<Rightarrow> u8 list option" where
  "ma_channel_map_apply_shuffle_table_s24 out channelsOut xs channelsIn frameCount table =
     shuffle_s24_frames table channelsOut channelsIn 0 (frames_of (unat channelsIn * 3) (unat frameCount) xs) out"

text \<open>\<open>pOut\<close> is what the output buffer holds before; the samples after those written stay.\<close>

definition over :: "'a list \<Rightarrow> 'a list \<Rightarrow> 'a list" where
  "over ys new = new @ drop (length new) ys"

definition ma_channel_map_apply_shuffle_table ::
    "pcm_buffer option \<Rightarrow> u32 \<Rightarrow> pcm_buffer option \<Rightarrow> u32 \<Rightarrow> u64 \<Rightarrow> u8 list option \<Rightarrow> (ma_result \<times> pcm_buffer option) option" where
  "ma_channel_map_apply_shuffle_table pOut channelsOut pIn channelsIn frameCount pShuffleTable =
     (case (pOut, pIn, pShuffleTable) of
        (Some out, Some inp, Some table) \<Rightarrow>
          if channelsOut = 0 then Some (MA_INVALID_ARGS, pOut)
          else (case (out, inp) of
              (PU8 ys, PU8 xs) \<Rightarrow> Some (MA_SUCCESS, Some (PU8 (over ys (ma_channel_map_apply_shuffle_table_u8 channelsOut xs channelsIn frameCount table))))
            | (PS16 ys, PS16 xs) \<Rightarrow> Some (MA_SUCCESS, Some (PS16 (over ys (ma_channel_map_apply_shuffle_table_s16 channelsOut xs channelsIn frameCount table))))
            | (PS24 ys, PS24 xs) \<Rightarrow> map_option (\<lambda>ys. (MA_SUCCESS, Some (PS24 ys)))
                (ma_channel_map_apply_shuffle_table_s24 ys channelsOut xs channelsIn frameCount table)
            | (PS32 ys, PS32 xs) \<Rightarrow> Some (MA_SUCCESS, Some (PS32 (over ys (ma_channel_map_apply_shuffle_table_s32 channelsOut xs channelsIn frameCount table))))
            | (PF32 ys, PF32 xs) \<Rightarrow> Some (MA_SUCCESS, Some (PF32 (over ys (ma_channel_map_apply_shuffle_table_f32 channelsOut xs channelsIn frameCount table))))
            | _ \<Rightarrow> None)
      | _ \<Rightarrow> Some (MA_INVALID_ARGS, pOut))"

section \<open>Set-up\<close>

record channel_converter_config =
  ccc_format :: ma_format
  ccc_channelsIn :: u32
  ccc_channelsOut :: u32
  ccc_pChannelMapIn :: "channel_map option"
  ccc_pChannelMapOut :: "channel_map option"
  ccc_mixingMode :: ma_channel_mix_mode
  calculateLFEFromSpatialChannels :: bool
  ppWeights :: "(nat \<Rightarrow> nat \<Rightarrow> f32) option"

text \<open>The weights are indexed by input and output channel; integer formats have them in fixed point.\<close>

record channel_converter =
  cc_format :: ma_format
  channelsIn :: u32
  channelsOut :: u32
  mixingMode :: ma_channel_mix_mode
  conversionPath :: ma_channel_conversion_path
  pChannelMapIn :: "channel_map option"
  pChannelMapOut :: "channel_map option"
  pShuffleTable :: "u8 list"
  weights_f32 :: "f32 list list"
  weights_s16 :: "i32 list list"

definition ma_channel_converter_config_init ::
    "ma_format \<Rightarrow> u32 \<Rightarrow> channel_map option \<Rightarrow> u32 \<Rightarrow> channel_map option \<Rightarrow> ma_channel_mix_mode \<Rightarrow> channel_converter_config" where
  "ma_channel_converter_config_init fmt chIn mapIn chOut mapOut mode = \<lparr>ccc_format = fmt, ccc_channelsIn = chIn, ccc_channelsOut = chOut,
     ccc_pChannelMapIn = mapIn, ccc_pChannelMapOut = mapOut, ccc_mixingMode = mode, calculateLFEFromSpatialChannels = False,
     ppWeights = None\<rparr>"

definition ma_channel_converter_config_get_conversion_path :: "channel_converter_config \<Rightarrow> ma_channel_conversion_path" where
  "ma_channel_converter_config_get_conversion_path cfg = ma_channel_map_get_conversion_path (ccc_pChannelMapIn cfg) (ccc_channelsIn cfg)
     (ccc_pChannelMapOut cfg) (ccc_channelsOut cfg) (ccc_mixingMode cfg)"

record channel_converter_heap =
  cch_size :: u64
  channelMapInOffset :: u64
  channelMapOutOffset :: u64
  shuffleTableOffset :: u64
  weightsOffset :: u64

definition ma_channel_converter_get_heap_layout :: "channel_converter_config option \<Rightarrow> ma_result \<times> channel_converter_heap option" where
  "ma_channel_converter_get_heap_layout pConfig =
     (case pConfig of
        None \<Rightarrow> (MA_INVALID_ARGS, None)
      | Some cfg \<Rightarrow>
          if ccc_channelsIn cfg = 0 \<or> ccc_channelsOut cfg = 0 then (MA_INVALID_ARGS, None)
          else if \<not> ma_channel_map_is_valid (ccc_pChannelMapIn cfg) (ccc_channelsIn cfg) then (MA_INVALID_ARGS, None)
          else if \<not> ma_channel_map_is_valid (ccc_pChannelMapOut cfg) (ccc_channelsOut cfg) then (MA_INVALID_ARGS, None)
          else
            let inSize = (if ccc_pChannelMapIn cfg \<noteq> None then ucast (ccc_channelsIn cfg) else 0);
                mapsSize = inSize + (if ccc_pChannelMapOut cfg \<noteq> None then ucast (ccc_channelsOut cfg) else 0);
                tableAt = ma_align_64 mapsSize;
                path = ma_channel_converter_config_get_conversion_path cfg;
                weightsAt = tableAt + (if path = ma_channel_conversion_path_shuffle then ucast (ccc_channelsOut cfg) else 0);
                all = weightsAt + (if path = ma_channel_conversion_path_weights
                  then 8 * ucast (ccc_channelsIn cfg) + 4 * ucast (ccc_channelsIn cfg) * ucast (ccc_channelsOut cfg) else 0)
            in (MA_SUCCESS, Some \<lparr>cch_size = ma_align_64 all, channelMapInOffset = 0, channelMapOutOffset = inSize,
                  shuffleTableOffset = tableAt, weightsOffset = weightsAt\<rparr>))"

text \<open>The weight of an input channel in an output channel, one stage of the set-up after the other. \<open>conv\<close> is the
  fixed-point conversion or, for floats, nothing.\<close>

definition weight_exact :: "(f32 \<Rightarrow> 'w option) \<Rightarrow> 'w \<Rightarrow> ma_channel \<Rightarrow> ma_channel \<Rightarrow> 'w option" where
  "weight_exact conv zero channelPosIn channelPosOut = (if channelPosIn = channelPosOut then conv (Fin 1) else Some zero)"

definition weight_unmapped :: "(f32 \<Rightarrow> 'w option) \<Rightarrow> 'w \<Rightarrow> bool \<Rightarrow> ma_channel \<Rightarrow> ma_channel \<Rightarrow> 'w \<Rightarrow> 'w option" where
  "weight_unmapped conv zero unmapped channelPosIn channelPosOut w =
     (if ma_is_spatial_channel_position channelPosIn \<and> ma_is_spatial_channel_position channelPosOut \<and> unmapped \<and> w = zero
      then conv (ma_calculate_channel_position_rectangular_weight channelPosIn channelPosOut) else Some w)"

definition weight_lfe :: "(f32 \<Rightarrow> 'w option) \<Rightarrow> 'w \<Rightarrow> channel_converter_config \<Rightarrow> ma_channel \<Rightarrow> nat \<Rightarrow> 'w \<Rightarrow> 'w option" where
  "weight_lfe conv zero cfg channelPosIn j w =
     (if calculateLFEFromSpatialChannels cfg
         \<and> \<not> ma_channel_map_contains_channel_position (ccc_channelsIn cfg) (ccc_pChannelMapIn cfg) MA_CHANNEL_LFE
      then do {
        spatialChannelCount \<leftarrow> ma_channel_map_get_spatial_channel_count (ccc_pChannelMapIn cfg) (ccc_channelsIn cfg);
        let (found, iChannelOutLFE) = ma_channel_map_find_channel_position (ccc_channelsOut cfg) (ccc_pChannelMapOut cfg) MA_CHANNEL_LFE;
        if 0 < spatialChannelCount \<and> found \<and> ma_is_spatial_channel_position channelPosIn \<and> j = unat iChannelOutLFE \<and> w = zero
        then conv (fp_div f32 (Fin 1) (f32 (of_int (uint spatialChannelCount)))) else Some w
      }
      else Some w)"

text \<open>With the default map of the input, a null pointer, and no LFE in it, asking for the LFE weight fails the assertion.\<close>

lemma weight_lfe_needs_map:
  assumes "calculateLFEFromSpatialChannels cfg" "ccc_pChannelMapIn cfg = None"
    and "\<not> ma_channel_map_contains_channel_position (ccc_channelsIn cfg) None MA_CHANNEL_LFE"
  shows "weight_lfe conv zero cfg channelPosIn j w = None"
  using assms by (simp add: weight_lfe_def ma_channel_map_get_spatial_channel_count_def)

definition converter_weight :: "(f32 \<Rightarrow> 'w option) \<Rightarrow> 'w \<Rightarrow> channel_converter_config \<Rightarrow> nat \<Rightarrow> nat \<Rightarrow> 'w option" where
  "converter_weight conv zero cfg i j =
     (let channelPosIn = ma_channel_map_get_channel (ccc_pChannelMapIn cfg) (ccc_channelsIn cfg) (of_nat i);
          channelPosOut = ma_channel_map_get_channel (ccc_pChannelMapOut cfg) (ccc_channelsOut cfg) (of_nat j)
      in do {
        w \<leftarrow> weight_exact conv zero channelPosIn channelPosOut;
        case ccc_mixingMode cfg of
          ma_channel_mix_mode_custom_weights \<Rightarrow> (case ppWeights cfg of None \<Rightarrow> Some w | Some weights \<Rightarrow> conv (weights i j))
        | ma_channel_mix_mode_simple \<Rightarrow> Some w
        | ma_channel_mix_mode_rectangular \<Rightarrow> do {
            w \<leftarrow> weight_unmapped conv zero
              (\<not> ma_channel_map_contains_channel_position (ccc_channelsOut cfg) (ccc_pChannelMapOut cfg) channelPosIn) channelPosIn channelPosOut w;
            w \<leftarrow> weight_unmapped conv zero
              (\<not> ma_channel_map_contains_channel_position (ccc_channelsIn cfg) (ccc_pChannelMapIn cfg) channelPosOut) channelPosIn channelPosOut w;
            weight_lfe conv zero cfg channelPosIn j w
          }
      })"

definition weight_matrix :: "(f32 \<Rightarrow> 'w option) \<Rightarrow> 'w \<Rightarrow> channel_converter_config \<Rightarrow> 'w list list option" where
  "weight_matrix conv zero cfg =
     those (map (\<lambda>i. those (map (converter_weight conv zero cfg i) [0..<unat (ccc_channelsOut cfg)])) [0..<unat (ccc_channelsIn cfg)])"

definition fresh_converter :: "channel_converter_config \<Rightarrow> channel_converter" where
  "fresh_converter cfg = \<lparr>cc_format = ccc_format cfg, channelsIn = ccc_channelsIn cfg, channelsOut = ccc_channelsOut cfg,
     mixingMode = ccc_mixingMode cfg, conversionPath = ma_channel_converter_config_get_conversion_path cfg,
     pChannelMapIn = (case ccc_pChannelMapIn cfg of None \<Rightarrow> None
       | Some m \<Rightarrow> ma_channel_map_copy_or_default (Some (\<lambda>i. 0)) (unat (ccc_channelsIn cfg)) (Some m) (ccc_channelsIn cfg)),
     pChannelMapOut = (case ccc_pChannelMapOut cfg of None \<Rightarrow> None
       | Some m \<Rightarrow> ma_channel_map_copy_or_default (Some (\<lambda>i. 0)) (unat (ccc_channelsOut cfg)) (Some m) (ccc_channelsOut cfg)),
     pShuffleTable = [], weights_f32 = [], weights_s16 = []\<rparr>"

definition ma_channel_converter_init_preallocated ::
    "channel_converter_config option \<Rightarrow> channel_converter option \<Rightarrow> (ma_result \<times> channel_converter option) option" where
  "ma_channel_converter_init_preallocated pConfig pConverter =
     (case (pConverter, pConfig) of
        (None, _) \<Rightarrow> Some (MA_INVALID_ARGS, None)
      | (Some _, None) \<Rightarrow> Some (MA_INVALID_ARGS, None)
      | (Some _, Some cfg) \<Rightarrow>
          if fst (ma_channel_converter_get_heap_layout pConfig) \<noteq> MA_SUCCESS then Some (fst (ma_channel_converter_get_heap_layout pConfig), None)
          else
            let c = fresh_converter cfg in
            (case conversionPath c of
               ma_channel_conversion_path_shuffle \<Rightarrow>
                 Some (MA_SUCCESS, Some (c\<lparr>pShuffleTable := the (snd (ma_channel_map_build_shuffle_table (pChannelMapIn c) (channelsIn c)
                   (pChannelMapOut c) (channelsOut c) (Some [])))\<rparr>))
             | ma_channel_conversion_path_weights \<Rightarrow>
                 (let result = (if mixingMode c = ma_channel_mix_mode_custom_weights \<and> ppWeights cfg = None then MA_INVALID_ARGS else MA_SUCCESS)
                  in if cc_format c = ma_format_f32
                     then map_option (\<lambda>w. (result, Some (c\<lparr>weights_f32 := w\<rparr>))) (weight_matrix Some (Fin 0) cfg)
                     else map_option (\<lambda>w. (result, Some (c\<lparr>weights_s16 := w\<rparr>))) (weight_matrix ma_channel_converter_float_to_fixed 0 cfg))
             | _ \<Rightarrow> Some (MA_SUCCESS, Some c)))"

definition ma_channel_converter_init ::
    "bool \<Rightarrow> channel_converter_config option \<Rightarrow> channel_converter option \<Rightarrow> (ma_result \<times> channel_converter option) option" where
  "ma_channel_converter_init malloc_ok pConfig pConverter =
     (case ma_channel_converter_get_heap_layout pConfig of
        (MA_SUCCESS, Some heap) \<Rightarrow>
          if 0 < cch_size heap \<and> \<not> malloc_ok then Some (MA_OUT_OF_MEMORY, pConverter)
          else ma_channel_converter_init_preallocated pConfig pConverter
      | (result, _) \<Rightarrow> Some (result, pConverter))"

section \<open>Processing\<close>

definition ma_channel_converter_process_pcm_frames__passthrough ::
    "channel_converter \<Rightarrow> pcm_buffer \<Rightarrow> pcm_buffer \<Rightarrow> u64 \<Rightarrow> (ma_result \<times> pcm_buffer) option" where
  "ma_channel_converter_process_pcm_frames__passthrough c out inp frameCount =
     (let n = unat (frameCount * ucast (channelsOut c)) in
      case (out, inp) of
        (PU8 ys, PU8 xs) \<Rightarrow> Some (MA_SUCCESS, PU8 (over ys (take n xs)))
      | (PS16 ys, PS16 xs) \<Rightarrow> Some (MA_SUCCESS, PS16 (over ys (take n xs)))
      | (PS24 ys, PS24 xs) \<Rightarrow> Some (MA_SUCCESS, PS24 (over ys (take (n * 3) xs)))
      | (PS32 ys, PS32 xs) \<Rightarrow> Some (MA_SUCCESS, PS32 (over ys (take n xs)))
      | (PF32 ys, PF32 xs) \<Rightarrow> Some (MA_SUCCESS, PF32 (over ys (take n xs)))
      | _ \<Rightarrow> None)"

definition ma_channel_converter_process_pcm_frames__shuffle ::
    "channel_converter \<Rightarrow> pcm_buffer \<Rightarrow> pcm_buffer \<Rightarrow> u64 \<Rightarrow> (ma_result \<times> pcm_buffer) option" where
  "ma_channel_converter_process_pcm_frames__shuffle c out inp frameCount =
     (if channelsIn c \<noteq> channelsOut c then None
      else map_option (\<lambda>(r, out). (r, the out)) (ma_channel_map_apply_shuffle_table (Some out) (channelsOut c) (Some inp) (channelsIn c)
        frameCount (Some (pShuffleTable c))))"

text \<open>Every output channel gets the one input channel; a 24-bit sample is three bytes.\<close>

definition spread :: "u32 \<Rightarrow> 'a list \<Rightarrow> 'a list" where
  "spread chans x = concat (replicate (unat chans) x)"

definition ma_channel_converter_process_pcm_frames__mono_in ::
    "channel_converter \<Rightarrow> pcm_buffer \<Rightarrow> pcm_buffer \<Rightarrow> u64 \<Rightarrow> (ma_result \<times> pcm_buffer) option" where
  "ma_channel_converter_process_pcm_frames__mono_in c out inp frameCount =
     (if channelsIn c \<noteq> 1 then None
      else
        let n = unat frameCount in
        case (out, inp) of
          (PU8 ys, PU8 xs) \<Rightarrow> Some (MA_SUCCESS, PU8 (over ys (per_frame 1 n (spread (channelsOut c)) xs)))
        | (PS16 ys, PS16 xs) \<Rightarrow> Some (MA_SUCCESS, PS16 (over ys (per_frame 1 n (spread (channelsOut c)) xs)))
        | (PS24 ys, PS24 xs) \<Rightarrow> Some (MA_SUCCESS, PS24 (over ys (per_frame 3 n (spread (channelsOut c)) xs)))
        | (PS32 ys, PS32 xs) \<Rightarrow> Some (MA_SUCCESS, PS32 (over ys (per_frame 1 n (spread (channelsOut c)) xs)))
        | (PF32 ys, PF32 xs) \<Rightarrow> Some (MA_SUCCESS, PF32 (over ys (per_frame 1 n (spread (channelsOut c)) xs)))
        | _ \<Rightarrow> None)"

text \<open>Samples without scaling.\<close>

definition ma_pcm_sample_u8_to_s16_no_scale :: "u8 \<Rightarrow> i16" where
  "ma_pcm_sample_u8_to_s16_no_scale x = ucast x - 128"

definition ma_pcm_sample_s24_to_s32_no_scale :: "u8 list \<Rightarrow> nat \<Rightarrow> i64" where
  "ma_pcm_sample_s24_to_s32_no_scale x i =
     signed_drop_bit 40 (push_bit 40 (ucast (x ! i)) OR push_bit 48 (ucast (x ! (i + 1))) OR push_bit 56 (ucast (x ! (i + 2))))"

text \<open>A sum of 32-bit integers; its overflow is undefined. A division by the channels is unsigned in the 8-bit
  and 16-bit code, where both operands have 32 bits, and truncates in the wider code.\<close>

fun sum32 :: "i32 list \<Rightarrow> i32 \<Rightarrow> i32 option" where
  "sum32 [] t = Some t"
| "sum32 (x # xs) t = do { t \<leftarrow> add32 t x; sum32 xs t }"

definition mono_out_u8 :: "u32 \<Rightarrow> u8 list \<Rightarrow> u8 option" where
  "mono_out_u8 chOut x = map_option (\<lambda>t. ma_clip_u8 (t div chOut)) (sum32 (map (\<lambda>s. scast (ma_pcm_sample_u8_to_s16_no_scale s)) x) 0)"

definition mono_out_s16 :: "u32 \<Rightarrow> i16 list \<Rightarrow> i16 option" where
  "mono_out_s16 chIn x = map_option (\<lambda>t. ucast (t div chIn)) (sum32 (map scast x) 0)"

definition div64 :: "i64 \<Rightarrow> u32 \<Rightarrow> i64" where
  "div64 t n = word_of_int (cdiv (sint t) (uint n))"

definition mono_out_s24 :: "u32 \<Rightarrow> u8 list \<Rightarrow> u8 list" where
  "mono_out_s24 chIn x = s24_bytes (div64 (sum_list (map (\<lambda>i. ma_pcm_sample_s24_to_s32_no_scale x (i * 3)) [0..<unat chIn])) chIn)"

definition mono_out_s32 :: "u32 \<Rightarrow> i32 list \<Rightarrow> i32" where
  "mono_out_s32 chIn x = ucast (div64 (sum_list (map scast x)) chIn)"

definition mono_out_f32 :: "u32 \<Rightarrow> f32 list \<Rightarrow> f32" where
  "mono_out_f32 chIn x = fp_div f32 (foldl (fp_add f32) (Fin 0) x) (f32 (of_int (uint chIn)))"

definition ma_channel_converter_process_pcm_frames__mono_out ::
    "channel_converter \<Rightarrow> pcm_buffer \<Rightarrow> pcm_buffer \<Rightarrow> u64 \<Rightarrow> (ma_result \<times> pcm_buffer) option" where
  "ma_channel_converter_process_pcm_frames__mono_out c out inp frameCount =
     (if channelsOut c \<noteq> 1 then None
      else
        let n = unat frameCount; ch = unat (channelsIn c) in
        case (out, inp) of
          (PU8 ys, PU8 xs) \<Rightarrow> map_option (\<lambda>zs. (MA_SUCCESS, PU8 (over ys zs))) (those (map (mono_out_u8 (channelsOut c)) (frames_of ch n xs)))
        | (PS16 ys, PS16 xs) \<Rightarrow> map_option (\<lambda>zs. (MA_SUCCESS, PS16 (over ys zs))) (those (map (mono_out_s16 (channelsIn c)) (frames_of ch n xs)))
        | (PS24 ys, PS24 xs) \<Rightarrow> Some (MA_SUCCESS, PS24 (over ys (per_frame (ch * 3) n (mono_out_s24 (channelsIn c)) xs)))
        | (PS32 ys, PS32 xs) \<Rightarrow> Some (MA_SUCCESS, PS32 (over ys (map (mono_out_s32 (channelsIn c)) (frames_of ch n xs))))
        | (PF32 ys, PF32 xs) \<Rightarrow> Some (MA_SUCCESS, PF32 (over ys (map (mono_out_f32 (channelsIn c)) (frames_of ch n xs))))
        | _ \<Rightarrow> None)"

text \<open>One input sample added to one output sample with a weight of 12 fractional bits.\<close>

definition add_weighted_u8 :: "i32 \<Rightarrow> u8 \<Rightarrow> u8 \<Rightarrow> u8 option" where
  "add_weighted_u8 w y x =
     do {
       p \<leftarrow> mul32 (scast (ma_pcm_sample_u8_to_s16_no_scale x)) w;
       s \<leftarrow> add32 (scast (ma_pcm_sample_u8_to_s16_no_scale y)) (signed_drop_bit 12 p);
       Some (ma_clip_u8 (word_of_int (ma_clamp (sint s) (- 128) 127)))
     }"

definition add_weighted_s16 :: "i32 \<Rightarrow> i16 \<Rightarrow> i16 \<Rightarrow> i16 option" where
  "add_weighted_s16 w y x =
     do {
       p \<leftarrow> mul32 (scast x) w;
       s \<leftarrow> add32 (scast y) (signed_drop_bit 12 p);
       Some (word_of_int (ma_clamp (sint s) (- 32768) 32767))
     }"

definition add_weighted_s24 :: "i32 \<Rightarrow> i64 \<Rightarrow> i64 \<Rightarrow> i64" where
  "add_weighted_s24 w y x = word_of_int (ma_clamp (sint (y + signed_drop_bit 12 (x * scast w))) (- 8388608) 8388607)"

definition add_weighted_s32 :: "i32 \<Rightarrow> i32 \<Rightarrow> i32 \<Rightarrow> i32" where
  "add_weighted_s32 w y x = ma_clip_s32 (scast y + signed_drop_bit 12 (scast x * scast w))"

definition add_weighted_f32 :: "f32 \<Rightarrow> f32 \<Rightarrow> f32 \<Rightarrow> f32" where
  "add_weighted_f32 w y x = fp_add f32 y (fp_mul f32 x w)"

text \<open>A frame: every output sample starts as zero bytes and takes up the input channels in turn.\<close>

fun accumulate :: "('w \<Rightarrow> 's \<Rightarrow> 's \<Rightarrow> 's option) \<Rightarrow> 'w list list \<Rightarrow> nat \<Rightarrow> 's list \<Rightarrow> 's \<Rightarrow> 's option" where
  "accumulate add (ws # weights) j (x # xs) y = do { y \<leftarrow> add (ws ! j) y x; accumulate add weights j xs y }"
| "accumulate add weights j xs y = Some y"

definition weighted_frame :: "('w \<Rightarrow> 's \<Rightarrow> 's \<Rightarrow> 's option) \<Rightarrow> 's \<Rightarrow> 'w list list \<Rightarrow> u32 \<Rightarrow> 's list \<Rightarrow> 's list option" where
  "weighted_frame add zero weights chOut x = those (map (\<lambda>j. accumulate add weights j x zero) [0..<unat chOut])"

definition samples_s24 :: "nat \<Rightarrow> u8 list \<Rightarrow> i64 list" where
  "samples_s24 ch x = map (\<lambda>i. ma_pcm_sample_s24_to_s32_no_scale x (i * 3)) [0..<ch]"

definition weighted_frame_s24 :: "i32 list list \<Rightarrow> u32 \<Rightarrow> nat \<Rightarrow> u8 list \<Rightarrow> u8 list option" where
  "weighted_frame_s24 weights chOut ch x =
     map_option (\<lambda>ys. concat (map s24_bytes ys))
       (weighted_frame (\<lambda>w y x. Some (add_weighted_s24 w y x)) 0 weights chOut (samples_s24 ch x))"

definition stateless :: "('s list \<Rightarrow> 's list option) \<Rightarrow> unit \<Rightarrow> 's list \<Rightarrow> ('s list \<times> unit) option" where
  "stateless g u x = map_option (\<lambda>y. (y, ())) (g x)"

definition weighted_frames :: "('s list \<Rightarrow> 's list option) \<Rightarrow> nat \<Rightarrow> u64 \<Rightarrow> 's list \<Rightarrow> 's list option" where
  "weighted_frames g ch frameCount xs = map_option fst (frames_loop (stateless g) ch frameCount 0 xs ())"

text \<open>The indices into the buffers are computed in 32 bits; blocks for which they would wrap are left out (\<open>None\<close>).\<close>

definition indices_fit :: "channel_converter \<Rightarrow> u64 \<Rightarrow> bool" where
  "indices_fit c frameCount =
     (unat frameCount * max (unat (channelsIn c)) (unat (channelsOut c)) * (if cc_format c = ma_format_s24 then 3 else 1) \<le> 2 ^ 32)"

definition ma_channel_converter_process_pcm_frames__weights ::
    "channel_converter \<Rightarrow> pcm_buffer \<Rightarrow> pcm_buffer \<Rightarrow> u64 \<Rightarrow> (ma_result \<times> pcm_buffer) option" where
  "ma_channel_converter_process_pcm_frames__weights c out inp frameCount =
     (let ch = unat (channelsIn c); w = weights_s16 c in
      if \<not> indices_fit c frameCount then None
      else case (out, inp) of
        (PU8 ys, PU8 xs) \<Rightarrow> map_option (\<lambda>zs. (MA_SUCCESS, PU8 (over ys zs)))
          (weighted_frames (weighted_frame add_weighted_u8 0 w (channelsOut c)) ch frameCount xs)
      | (PS16 ys, PS16 xs) \<Rightarrow> map_option (\<lambda>zs. (MA_SUCCESS, PS16 (over ys zs)))
          (weighted_frames (weighted_frame add_weighted_s16 0 w (channelsOut c)) ch frameCount xs)
      | (PS24 ys, PS24 xs) \<Rightarrow> map_option (\<lambda>zs. (MA_SUCCESS, PS24 (over ys zs)))
          (weighted_frames (weighted_frame_s24 w (channelsOut c) ch) (ch * 3) frameCount xs)
      | (PS32 ys, PS32 xs) \<Rightarrow> map_option (\<lambda>zs. (MA_SUCCESS, PS32 (over ys zs)))
          (weighted_frames (weighted_frame (\<lambda>w y x. Some (add_weighted_s32 w y x)) 0 w (channelsOut c)) ch frameCount xs)
      | (PF32 ys, PF32 xs) \<Rightarrow> map_option (\<lambda>zs. (MA_SUCCESS, PF32 (over ys zs)))
          (weighted_frames (weighted_frame (\<lambda>w y x. Some (add_weighted_f32 w y x)) (Fin 0) (weights_f32 c) (channelsOut c)) ch frameCount xs)
      | _ \<Rightarrow> None)"

text \<open>All bytes zero.\<close>

fun zeroed :: "nat \<Rightarrow> pcm_buffer \<Rightarrow> pcm_buffer" where
  "zeroed n (PU8 ys) = PU8 (over ys (replicate n 0))"
| "zeroed n (PS16 ys) = PS16 (over ys (replicate n 0))"
| "zeroed n (PS24 ys) = PS24 (over ys (replicate (n * 3) 0))"
| "zeroed n (PS32 ys) = PS32 (over ys (replicate n 0))"
| "zeroed n (PF32 ys) = PF32 (over ys (replicate n (Fin 0)))"

text \<open>The buffers have the format of the converter, or the call is undefined.\<close>

definition ma_channel_converter_process_pcm_frames ::
    "channel_converter option \<Rightarrow> pcm_buffer option \<Rightarrow> pcm_buffer option \<Rightarrow> u64 \<Rightarrow> (ma_result \<times> pcm_buffer option) option" where
  "ma_channel_converter_process_pcm_frames pConverter pOut pIn frameCount =
     (case (pConverter, pOut) of
        (Some c, Some out) \<Rightarrow>
          if buffer_format out \<noteq> cc_format c then None
          else (case pIn of
              None \<Rightarrow> Some (MA_SUCCESS, Some (zeroed (unat (frameCount * ucast (channelsOut c))) out))
            | Some inp \<Rightarrow>
                map_option (\<lambda>(r, out). (r, Some out))
                  (case conversionPath c of
                     ma_channel_conversion_path_passthrough \<Rightarrow> ma_channel_converter_process_pcm_frames__passthrough c out inp frameCount
                   | ma_channel_conversion_path_mono_out \<Rightarrow> ma_channel_converter_process_pcm_frames__mono_out c out inp frameCount
                   | ma_channel_conversion_path_mono_in \<Rightarrow> ma_channel_converter_process_pcm_frames__mono_in c out inp frameCount
                   | ma_channel_conversion_path_shuffle \<Rightarrow> ma_channel_converter_process_pcm_frames__shuffle c out inp frameCount
                   | ma_channel_conversion_path_weights \<Rightarrow> ma_channel_converter_process_pcm_frames__weights c out inp frameCount))
      | _ \<Rightarrow> Some (MA_INVALID_ARGS, pOut))"

definition ma_channel_converter_get_input_channel_map :: "channel_converter option \<Rightarrow> channel_map option \<Rightarrow> nat \<Rightarrow> ma_result \<times> channel_map option" where
  "ma_channel_converter_get_input_channel_map pConverter pChannelMap channelMapCap =
     (case (pConverter, pChannelMap) of
        (Some c, Some m) \<Rightarrow> (MA_SUCCESS, ma_channel_map_copy_or_default pChannelMap channelMapCap (pChannelMapIn c) (channelsIn c))
      | _ \<Rightarrow> (MA_INVALID_ARGS, pChannelMap))"

definition ma_channel_converter_get_output_channel_map :: "channel_converter option \<Rightarrow> channel_map option \<Rightarrow> nat \<Rightarrow> ma_result \<times> channel_map option" where
  "ma_channel_converter_get_output_channel_map pConverter pChannelMap channelMapCap =
     (case (pConverter, pChannelMap) of
        (Some c, Some m) \<Rightarrow> (MA_SUCCESS, ma_channel_map_copy_or_default pChannelMap channelMapCap (pChannelMapOut c) (channelsOut c))
      | _ \<Rightarrow> (MA_INVALID_ARGS, pChannelMap))"

end
