(* ===== verification/Ma_Data_Converter.thy ===== *)
theory Ma_Data_Converter
  imports Ma_Resampler Ma_Channel_Conv
begin

text \<open>
  The data converter of miniaudio (\<open>ma_data_converter\<close> in \<open>client/native/miniaudio.h\<close>): which of the stages
  format, channels and sample rate a conversion needs and in what order, and the loops that move blocks of
  frames through temporary buffers of 4096 bytes from stage to stage. A call lists what it writes; the pointer
  to the output is only tested for null (\<open>hasOut\<close>). \<open>lcg\<close> is the generator of the dither. \<open>None\<close> is undefined
  behaviour, a failed assertion or an endless loop.
\<close>

section \<open>Configuration and state\<close>

record ma_data_converter_config =
  dcc_formatIn :: ma_format
  dcc_formatOut :: ma_format
  dcc_channelsIn :: u32
  dcc_channelsOut :: u32
  dcc_sampleRateIn :: u32
  dcc_sampleRateOut :: u32
  dcc_pChannelMapIn :: "channel_map option"
  dcc_pChannelMapOut :: "channel_map option"
  dcc_ditherMode :: ma_dither_mode
  channelMixMode :: ma_channel_mix_mode
  dcc_calculateLFE :: bool
  ppChannelWeights :: "(nat \<Rightarrow> nat \<Rightarrow> f32) option"
  allowDynamicSampleRate :: bool
  resampling_algorithm :: ma_resample_algorithm
  resampling_lpfOrder :: u32

datatype ma_data_converter_execution_path =
    ma_data_converter_execution_path_passthrough | ma_data_converter_execution_path_format_only
  | ma_data_converter_execution_path_channels_only | ma_data_converter_execution_path_resample_only
  | ma_data_converter_execution_path_resample_first | ma_data_converter_execution_path_channels_first

text \<open>A converter without resampler has no meaning for that field; the model keeps \<open>None\<close> there.\<close>

record ma_data_converter =
  dc_formatIn :: ma_format
  dc_formatOut :: ma_format
  dc_channelsIn :: u32
  dc_channelsOut :: u32
  dc_ditherMode :: ma_dither_mode
  executionPath :: ma_data_converter_execution_path
  channelConverter :: channel_converter
  dc_resampler :: "ma_resampler option"
  hasPreFormatConversion :: bool
  hasPostFormatConversion :: bool
  hasChannelConverter :: bool

abbreviation hasResampler :: "ma_data_converter \<Rightarrow> bool" where
  "hasResampler c \<equiv> dc_resampler c \<noteq> None"

definition ma_data_converter_config_init_default :: ma_data_converter_config where
  "ma_data_converter_config_init_default = \<lparr>dcc_formatIn = ma_format_unknown, dcc_formatOut = ma_format_unknown, dcc_channelsIn = 0,
     dcc_channelsOut = 0, dcc_sampleRateIn = 0, dcc_sampleRateOut = 0, dcc_pChannelMapIn = None, dcc_pChannelMapOut = None,
     dcc_ditherMode = ma_dither_mode_none, channelMixMode = ma_channel_mix_mode_rectangular, dcc_calculateLFE = False,
     ppChannelWeights = None, allowDynamicSampleRate = False, resampling_algorithm = ma_resample_algorithm_linear, resampling_lpfOrder = 1\<rparr>"

definition ma_data_converter_config_init :: "ma_format \<Rightarrow> ma_format \<Rightarrow> u32 \<Rightarrow> u32 \<Rightarrow> u32 \<Rightarrow> u32 \<Rightarrow> ma_data_converter_config" where
  "ma_data_converter_config_init formatIn formatOut chIn chOut newIn newOut = ma_data_converter_config_init_default
     \<lparr>dcc_formatIn := formatIn, dcc_formatOut := formatOut, dcc_channelsIn := chIn, dcc_channelsOut := chOut,
      dcc_sampleRateIn := newIn, dcc_sampleRateOut := newOut\<rparr>"

definition ma_data_converter_config_is_resampler_required :: "ma_data_converter_config \<Rightarrow> bool" where
  "ma_data_converter_config_is_resampler_required cfg \<longleftrightarrow> allowDynamicSampleRate cfg \<or> dcc_sampleRateIn cfg \<noteq> dcc_sampleRateOut cfg"

definition ma_data_converter_config_get_mid_format :: "ma_data_converter_config \<Rightarrow> ma_format" where
  "ma_data_converter_config_get_mid_format cfg =
     (if ma_data_converter_config_is_resampler_required cfg \<and> resampling_algorithm cfg \<noteq> ma_resample_algorithm_linear then ma_format_f32
      else if dcc_formatOut cfg = ma_format_s16 \<or> dcc_formatOut cfg = ma_format_f32 then dcc_formatOut cfg
      else if dcc_formatIn cfg = ma_format_s16 \<or> dcc_formatIn cfg = ma_format_f32 then dcc_formatIn cfg
      else ma_format_f32)"

definition ma_channel_converter_config_init_from_data_converter_config :: "ma_data_converter_config \<Rightarrow> channel_converter_config" where
  "ma_channel_converter_config_init_from_data_converter_config cfg =
     (ma_channel_converter_config_init (ma_data_converter_config_get_mid_format cfg) (dcc_channelsIn cfg) (dcc_pChannelMapIn cfg)
        (dcc_channelsOut cfg) (dcc_pChannelMapOut cfg) (channelMixMode cfg))
     \<lparr>ppWeights := ppChannelWeights cfg, calculateLFEFromSpatialChannels := dcc_calculateLFE cfg\<rparr>"

definition ma_resampler_config_init_from_data_converter_config :: "ma_data_converter_config \<Rightarrow> ma_resampler_config" where
  "ma_resampler_config_init_from_data_converter_config cfg =
     (ma_resampler_config_init (ma_data_converter_config_get_mid_format cfg)
        (if dcc_channelsIn cfg < dcc_channelsOut cfg then dcc_channelsIn cfg else dcc_channelsOut cfg)
        (dcc_sampleRateIn cfg) (dcc_sampleRateOut cfg) (resampling_algorithm cfg))
     \<lparr>rsc_lpfOrder := resampling_lpfOrder cfg\<rparr>"

section \<open>Set-up\<close>

text \<open>The order of the stages.\<close>

definition execution_path :: "ma_data_converter \<Rightarrow> ma_data_converter_execution_path option" where
  "execution_path c =
     (if \<not> hasPreFormatConversion c \<and> \<not> hasPostFormatConversion c \<and> \<not> hasChannelConverter c \<and> \<not> hasResampler c
      then Some ma_data_converter_execution_path_passthrough
      else if dc_channelsIn c < dc_channelsOut c
      then if \<not> hasChannelConverter c then None
        else Some (if hasResampler c then ma_data_converter_execution_path_resample_first else ma_data_converter_execution_path_channels_only)
      else Some (if hasChannelConverter c
        then if hasResampler c then ma_data_converter_execution_path_channels_first else ma_data_converter_execution_path_channels_only
        else if hasResampler c then ma_data_converter_execution_path_resample_only else ma_data_converter_execution_path_format_only))"

text \<open>Which formats have to be converted, and the path.\<close>

definition set_up_stages :: "ma_data_converter_config \<Rightarrow> channel_converter \<Rightarrow> ma_resampler option \<Rightarrow> ma_data_converter option" where
  "set_up_stages cfg cc r =
     (let midFormat = ma_data_converter_config_get_mid_format cfg;
          needed = conversionPath cc \<noteq> ma_channel_conversion_path_passthrough;
          alone = (\<not> needed \<and> r = None);
          c = \<lparr>dc_formatIn = dcc_formatIn cfg, dc_formatOut = dcc_formatOut cfg, dc_channelsIn = dcc_channelsIn cfg,
               dc_channelsOut = dcc_channelsOut cfg, dc_ditherMode = dcc_ditherMode cfg,
               executionPath = ma_data_converter_execution_path_passthrough, channelConverter = cc, dc_resampler = r,
               hasPreFormatConversion = (\<not> alone \<and> dcc_formatIn cfg \<noteq> midFormat),
               hasPostFormatConversion = (if alone then dcc_formatIn cfg \<noteq> dcc_formatOut cfg else dcc_formatOut cfg \<noteq> midFormat),
               hasChannelConverter = needed\<rparr>
      in map_option (\<lambda>p. c\<lparr>executionPath := p\<rparr>) (execution_path c))"

text \<open>The layout of the heap asks the stages first; the result is whether there is anything to allocate. A
  converter that failed is not read: the result has none.\<close>

definition ma_data_converter_get_heap_layout :: "ma_data_converter_config option \<Rightarrow> ma_result \<times> bool" where
  "ma_data_converter_get_heap_layout pConfig =
     (case pConfig of
        None \<Rightarrow> (MA_INVALID_ARGS, False)
      | Some cfg \<Rightarrow>
          if dcc_channelsIn cfg = 0 \<or> dcc_channelsOut cfg = 0 then (MA_INVALID_ARGS, False)
          else (case ma_channel_converter_get_heap_layout (Some (ma_channel_converter_config_init_from_data_converter_config cfg)) of
              (MA_SUCCESS, Some heap) \<Rightarrow>
                if \<not> ma_data_converter_config_is_resampler_required cfg then (MA_SUCCESS, 0 < cch_size heap)
                else if resampling_algorithm cfg = ma_resample_algorithm_custom then (MA_NOT_IMPLEMENTED, False)
                else if MA_MAX_FILTER_ORDER < resampling_lpfOrder cfg then (MA_INVALID_ARGS, False)
                else (MA_SUCCESS, True)
            | (result, _) \<Rightarrow> (result, False)))"

definition ma_data_converter_init_preallocated ::
    "libm \<Rightarrow> ma_data_converter_config option \<Rightarrow> ma_data_converter option \<Rightarrow> (ma_result \<times> ma_data_converter option) option" where
  "ma_data_converter_init_preallocated m pConfig pConverter =
     (case (pConverter, pConfig) of
        (None, _) \<Rightarrow> Some (MA_INVALID_ARGS, None)
      | (Some _, None) \<Rightarrow> Some (MA_INVALID_ARGS, None)
      | (Some _, Some cfg) \<Rightarrow>
          let result = fst (ma_data_converter_get_heap_layout pConfig) in
          if result \<noteq> MA_SUCCESS then Some (result, None)
          else case ma_channel_converter_init_preallocated (Some (ma_channel_converter_config_init_from_data_converter_config cfg))
              (Some (fresh_converter (ma_channel_converter_config_init_from_data_converter_config cfg))) of
            Some (MA_SUCCESS, Some cc) \<Rightarrow>
              if \<not> ma_data_converter_config_is_resampler_required cfg
              then map_option (\<lambda>c. (MA_SUCCESS, Some c)) (set_up_stages cfg cc None)
              else (case ma_resampler_init_preallocated m (Some (ma_resampler_config_init_from_data_converter_config cfg))
                  (Some \<lparr>pBackend = None, rsm_format = ma_format_unknown, rsm_channels = 0, rsm_sampleRateIn = 0, rsm_sampleRateOut = 0\<rparr>) of
                Some (MA_SUCCESS, Some r) \<Rightarrow> map_option (\<lambda>c. (MA_SUCCESS, Some c)) (set_up_stages cfg cc (Some r))
              | Some (result, _) \<Rightarrow> Some (result, None)
              | None \<Rightarrow> None)
          | Some (result, _) \<Rightarrow> Some (result, None)
          | None \<Rightarrow> None)"

definition ma_data_converter_init ::
    "bool \<Rightarrow> libm \<Rightarrow> ma_data_converter_config option \<Rightarrow> ma_data_converter option \<Rightarrow> (ma_result \<times> ma_data_converter option) option" where
  "ma_data_converter_init malloc_ok m pConfig pConverter =
     (let (result, allocates) = ma_data_converter_get_heap_layout pConfig in
      if result \<noteq> MA_SUCCESS then Some (result, None)
      else if allocates \<and> \<not> malloc_ok then Some (MA_OUT_OF_MEMORY, None)
      else ma_data_converter_init_preallocated m pConfig pConverter)"

section \<open>Buffers\<close>

text \<open>The samples from an offset on, the samples of two buffers of one format, and silence of zero bytes.\<close>

fun drop_samples :: "nat \<Rightarrow> pcm_buffer \<Rightarrow> pcm_buffer" where
  "drop_samples n (PU8 xs) = PU8 (drop n xs)"
| "drop_samples n (PS16 xs) = PS16 (drop n xs)"
| "drop_samples n (PS24 xs) = PS24 (drop (n * 3) xs)"
| "drop_samples n (PS32 xs) = PS32 (drop n xs)"
| "drop_samples n (PF32 xs) = PF32 (drop n xs)"

fun buffer_append :: "pcm_buffer \<Rightarrow> pcm_buffer \<Rightarrow> pcm_buffer" where
  "buffer_append (PU8 xs) (PU8 ys) = PU8 (xs @ ys)"
| "buffer_append (PS16 xs) (PS16 ys) = PS16 (xs @ ys)"
| "buffer_append (PS24 xs) (PS24 ys) = PS24 (xs @ ys)"
| "buffer_append (PS32 xs) (PS32 ys) = PS32 (xs @ ys)"
| "buffer_append (PF32 xs) (PF32 ys) = PF32 (xs @ ys)"
| "buffer_append b _ = b"

definition zero_buffer :: "ma_format \<Rightarrow> nat \<Rightarrow> pcm_buffer" where
  "zero_buffer fmt n = zeroed n (empty_buffer fmt)"

text \<open>How many frames a temporary buffer holds; without a frame size the code divides by zero, and a capacity
  of zero makes its loops endless.\<close>

definition stack_frames :: "ma_format \<Rightarrow> u32 \<Rightarrow> nat" where
  "stack_frames fmt chans = unat MA_DATA_CONVERTER_STACK_BUFFER_SIZE div unat (ma_get_bytes_per_frame fmt chans)"

text \<open>A format conversion that must store something.\<close>

definition convert_stage :: "ma_format \<Rightarrow> pcm_buffer \<Rightarrow> nat \<Rightarrow> u32 \<Rightarrow> ma_dither_mode \<Rightarrow> lcg \<Rightarrow> (pcm_buffer \<times> lcg) option" where
  "convert_stage fmt src frames chans mode st =
     (case ma_convert_pcm_frames_format fmt src (of_nat frames) chans mode st of
        Some (Some out, st) \<Rightarrow> Some (out, st)
      | _ \<Rightarrow> None)"

text \<open>The input of the middle stages: converted, or zero if there is none.\<close>

definition pre_stage :: "ma_data_converter \<Rightarrow> ma_format \<Rightarrow> pcm_buffer option \<Rightarrow> nat \<Rightarrow> lcg \<Rightarrow> (pcm_buffer \<times> lcg) option" where
  "pre_stage c mid pIn n st =
     (case pIn of
        None \<Rightarrow> Some (zero_buffer mid (n * unat (dc_channelsIn c)), st)
      | Some xs \<Rightarrow> convert_stage mid xs n (dc_channelsIn c) (dc_ditherMode c) st)"

definition post_stage :: "ma_data_converter \<Rightarrow> bool \<Rightarrow> pcm_buffer \<Rightarrow> nat \<Rightarrow> u32 \<Rightarrow> lcg \<Rightarrow> (pcm_buffer \<times> lcg) option" where
  "post_stage c hasOut mid n chans st =
     (if hasOut then convert_stage (dc_formatOut c) mid n chans (dc_ditherMode c) st else Some (empty_buffer (dc_formatOut c), st))"

type_synonym converted = "ma_result \<times> pcm_buffer \<times> u64 option \<times> u64 option \<times> ma_data_converter \<times> lcg"

definition count_of :: "u64 option \<Rightarrow> u64" where
  "count_of p = (case p of None \<Rightarrow> 0 | Some n \<Rightarrow> n)"

definition both_counts :: "u64 option \<Rightarrow> u64 option \<Rightarrow> u64 \<Rightarrow> u64 \<Rightarrow> u64 option \<times> u64 option" where
  "both_counts p q i j = (map_option (\<lambda>_. i) p, map_option (\<lambda>_. j) q)"

section \<open>One stage\<close>

definition ma_data_converter_process_pcm_frames__passthrough ::
    "ma_data_converter \<Rightarrow> pcm_buffer option \<Rightarrow> u64 option \<Rightarrow> bool \<Rightarrow> u64 option \<Rightarrow> lcg \<Rightarrow> converted option" where
  "ma_data_converter_process_pcm_frames__passthrough c pIn pFrameCountIn hasOut pFrameCountOut st =
     (let frameCount = min (count_of pFrameCountIn) (count_of pFrameCountOut);
          n = unat (frameCount * ucast (dc_channelsOut c));
          out = (if \<not> hasOut then empty_buffer (dc_formatOut c)
            else case pIn of Some xs \<Rightarrow> copy_samples xs n | None \<Rightarrow> zero_buffer (dc_formatOut c) n);
          (i, q) = both_counts pFrameCountIn pFrameCountOut frameCount frameCount
      in Some (MA_SUCCESS, out, i, q, c, st))"

definition ma_data_converter_process_pcm_frames__format_only ::
    "ma_data_converter \<Rightarrow> pcm_buffer option \<Rightarrow> u64 option \<Rightarrow> bool \<Rightarrow> u64 option \<Rightarrow> lcg \<Rightarrow> converted option" where
  "ma_data_converter_process_pcm_frames__format_only c pIn pFrameCountIn hasOut pFrameCountOut st =
     (let frameCount = min (count_of pFrameCountIn) (count_of pFrameCountOut);
          (i, q) = both_counts pFrameCountIn pFrameCountOut frameCount frameCount
      in map_option (\<lambda>(out, st). (MA_SUCCESS, out, i, q, c, st))
           (if \<not> hasOut then Some (empty_buffer (dc_formatOut c), st)
            else case pIn of
                Some xs \<Rightarrow> convert_stage (dc_formatOut c) xs (unat frameCount) (dc_channelsIn c) (dc_ditherMode c) st
              | None \<Rightarrow> Some (zero_buffer (dc_formatOut c) (unat (frameCount * ucast (dc_channelsOut c))), st)))"

section \<open>Channels only\<close>

text \<open>The frames of an iteration.\<close>

definition channels_chunk :: "ma_data_converter \<Rightarrow> nat \<Rightarrow> nat" where
  "channels_chunk c left =
     (let cc = channelConverter c;
          outCap = stack_frames (cc_format cc) (channelsOut cc)
      in if hasPreFormatConversion c
         then let n = min left (stack_frames (cc_format cc) (channelsIn cc)) in if hasPostFormatConversion c then min n outCap else n
         else min left outCap)"

text \<open>An iteration; its output is missing if the channel converter refuses the call.\<close>

definition channels_iteration :: "ma_data_converter \<Rightarrow> pcm_buffer option \<Rightarrow> bool \<Rightarrow> nat \<Rightarrow> lcg \<Rightarrow> (pcm_buffer option \<times> lcg) option" where
  "channels_iteration c pIn hasOut n st =
     (let cc = channelConverter c; post = hasPostFormatConversion c in
      do {
        (inp, st) \<leftarrow> (if hasPreFormatConversion c then map_option (\<lambda>(b, st). (Some b, st)) (pre_stage c (cc_format cc) pIn n st)
          else if post then Some (pIn, st) else None);
        (result, mid) \<leftarrow> ma_channel_converter_process_pcm_frames (Some cc)
          (if post \<or> hasOut then Some (empty_buffer (cc_format cc)) else None) inp (of_nat n);
        if result \<noteq> MA_SUCCESS then Some (None, st)
        else if post then map_option (\<lambda>(out, st). (Some out, st)) (post_stage c hasOut (the mid) n (channelsOut cc) st)
        else Some (mid, st)
      })"

function channels_loop :: "ma_data_converter \<Rightarrow> pcm_buffer option \<Rightarrow> bool \<Rightarrow> nat \<Rightarrow> lcg \<Rightarrow> (pcm_buffer \<times> lcg) option" where
  "channels_loop c pIn hasOut left st =
     (let n = channels_chunk c left in
      if left = 0 then Some (empty_buffer (dc_formatOut c), st)
      else if n = 0 then None
      else case channels_iteration c pIn hasOut n st of
          None \<Rightarrow> None
        | Some (None, st) \<Rightarrow> Some (empty_buffer (dc_formatOut c), st)
        | Some (Some out, st) \<Rightarrow> map_option (\<lambda>(rest, st). (buffer_append out rest, st))
            (channels_loop c (map_option (drop_samples (n * unat (dc_channelsIn c))) pIn) hasOut (left - n) st))"
  by pat_completeness auto
termination
  by (relation "measure (\<lambda>(c, b, h, left, st). left)") auto

declare channels_loop.simps [simp del]

text \<open>A loop that is left because of an error still reports success and all frames.\<close>

definition ma_data_converter_process_pcm_frames__channels_only ::
    "ma_data_converter \<Rightarrow> pcm_buffer option \<Rightarrow> u64 option \<Rightarrow> bool \<Rightarrow> u64 option \<Rightarrow> lcg \<Rightarrow> converted option" where
  "ma_data_converter_process_pcm_frames__channels_only c pIn pFrameCountIn hasOut pFrameCountOut st =
     (let frameCount = min (count_of pFrameCountIn) (count_of pFrameCountOut);
          (i, q) = both_counts pFrameCountIn pFrameCountOut frameCount frameCount
      in if \<not> hasPreFormatConversion c \<and> \<not> hasPostFormatConversion c
         then map_option (\<lambda>(result, out). if result \<noteq> MA_SUCCESS then (result, empty_buffer (dc_formatOut c), pFrameCountIn, pFrameCountOut, c, st)
               else (MA_SUCCESS, the out, i, q, c, st))
             (ma_channel_converter_process_pcm_frames (Some (channelConverter c))
               (if hasOut then Some (empty_buffer (dc_formatOut c)) else None) pIn frameCount)
         else map_option (\<lambda>(out, st). (MA_SUCCESS, out, i, q, c, st)) (channels_loop c pIn hasOut (unat frameCount) st))"

section \<open>Resampling\<close>

text \<open>A call of the resampler of a converter.\<close>

definition resample_stage ::
    "ma_data_converter \<Rightarrow> pcm_buffer option \<Rightarrow> nat \<Rightarrow> bool \<Rightarrow> nat \<Rightarrow> (ma_result \<times> pcm_buffer \<times> nat \<times> nat \<times> ma_data_converter) option" where
  "resample_stage c pIn n hasOut m =
     (case dc_resampler c of
        None \<Rightarrow> None
      | Some r \<Rightarrow>
          map_option (\<lambda>(e, out, i, q, r). (e, out, unat (count_of i), unat (count_of q), c\<lparr>dc_resampler := Some r\<rparr>))
            (ma_resampler_process_pcm_frames r pIn (Some (of_nat n)) hasOut (Some (of_nat m))))"

text \<open>The loops over blocks have one shape: \<open>iteration\<close> is given the input, the frames left on both sides and
  the generator, and tells what it wrote and how many frames it took and gave. An error ends the loop, and so
  does an iteration that gives no frame.\<close>

type_synonym iteration =
  "ma_data_converter \<Rightarrow> pcm_buffer option \<Rightarrow> nat \<Rightarrow> nat \<Rightarrow> lcg \<Rightarrow> (ma_result \<times> pcm_buffer \<times> nat \<times> nat \<times> ma_data_converter \<times> lcg) option"

function convert_loop :: "iteration \<Rightarrow> iteration" where
  "convert_loop iteration c pIn leftIn leftOut st =
     (if leftOut = 0 then Some (MA_SUCCESS, empty_buffer (dc_formatOut c), 0, 0, c, st)
      else case iteration c pIn leftIn leftOut st of
          None \<Rightarrow> None
        | Some (result, out, i, q, c', st) \<Rightarrow>
            if result \<noteq> MA_SUCCESS then Some (result, empty_buffer (dc_formatOut c), 0, 0, c', st)
            else if leftIn < i \<or> leftOut < q then None
            else if q = 0 then Some (MA_SUCCESS, out, i, 0, c', st)
            else map_option (\<lambda>(result, rest, j, t, c, st). (result, buffer_append out rest, i + j, q + t, c, st))
              (convert_loop iteration c' (map_option (drop_samples (i * unat (dc_channelsIn c))) pIn) (leftIn - i) (leftOut - q) st))"
  by pat_completeness auto
termination
  by (relation "measure (\<lambda>(f, c, b, n, m, st). m)") auto

declare convert_loop.simps [simp del]

text \<open>Formats and rate.\<close>

definition resample_format_iteration :: "bool \<Rightarrow> iteration" where
  "resample_format_iteration hasOut c pIn leftIn leftOut st =
     (case dc_resampler c of
        None \<Rightarrow> None
      | Some r \<Rightarrow>
          let cap = stack_frames (rsm_format r) (rsm_channels r); post = hasPostFormatConversion c;
              n = (if hasPreFormatConversion c then min leftIn cap else leftIn);
              m = (if post then min leftOut cap else leftOut)
          in do {
               (inp, st) \<leftarrow> (if hasPreFormatConversion c then map_option (\<lambda>(b, st). (Some b, st)) (pre_stage c (rsm_format r) pIn n st)
                 else if post then Some (pIn, st) else None);
               (result, mid, i, q, c') \<leftarrow> resample_stage c inp n (post \<or> hasOut) m;
               if result \<noteq> MA_SUCCESS \<or> \<not> post then Some (result, mid, i, q, c', st)
               else map_option (\<lambda>(out, st). (result, out, i, q, c', st)) (post_stage c hasOut mid q (rsm_channels r) st)
             })"

definition ma_data_converter_process_pcm_frames__resample_with_format_conversion ::
    "ma_data_converter \<Rightarrow> pcm_buffer option \<Rightarrow> u64 option \<Rightarrow> bool \<Rightarrow> u64 option \<Rightarrow> lcg \<Rightarrow> converted option" where
  "ma_data_converter_process_pcm_frames__resample_with_format_conversion c pIn pFrameCountIn hasOut pFrameCountOut st =
     map_option (\<lambda>(result, out, i, q, c, st).
         let (i, q) = both_counts pFrameCountIn pFrameCountOut (of_nat i) (of_nat q) in (result, out, i, q, c, st))
       (convert_loop (resample_format_iteration hasOut) c pIn (unat (count_of pFrameCountIn)) (unat (count_of pFrameCountOut)) st)"

definition ma_data_converter_process_pcm_frames__resample_only ::
    "ma_data_converter \<Rightarrow> pcm_buffer option \<Rightarrow> u64 option \<Rightarrow> bool \<Rightarrow> u64 option \<Rightarrow> lcg \<Rightarrow> converted option" where
  "ma_data_converter_process_pcm_frames__resample_only c pIn pFrameCountIn hasOut pFrameCountOut st =
     (if \<not> hasPreFormatConversion c \<and> \<not> hasPostFormatConversion c
      then (case dc_resampler c of
          None \<Rightarrow> None
        | Some r \<Rightarrow> map_option (\<lambda>(result, out, i, q, r). (result, out, i, q, c\<lparr>dc_resampler := Some r\<rparr>, st))
            (ma_resampler_process_pcm_frames r pIn pFrameCountIn hasOut pFrameCountOut))
      else ma_data_converter_process_pcm_frames__resample_with_format_conversion c pIn pFrameCountIn hasOut pFrameCountOut st)"

text \<open>The frames that the resampler wants for \<open>m\<close> frames, or a guess if it cannot tell.\<close>

definition wanted_input :: "ma_resampler \<Rightarrow> nat \<Rightarrow> nat" where
  "wanted_input r m =
     (case ma_resampler_get_required_input_frame_count (Some r) (of_nat m) (Some 0) of
        (MA_SUCCESS, Some n) \<Rightarrow> unat n
      | _ \<Rightarrow> unat (of_nat m * ucast (rsm_sampleRateIn r) div ucast (rsm_sampleRateOut r) :: u64))"

text \<open>Rate first, then channels; nothing is done with the result if there is no output.\<close>

definition resample_first_iteration :: "bool \<Rightarrow> iteration" where
  "resample_first_iteration hasOut c pIn leftIn leftOut st =
     (case dc_resampler c of
        None \<Rightarrow> None
      | Some r \<Rightarrow>
          let cc = channelConverter c; post = hasPostFormatConversion c;
              inCap = stack_frames (rsm_format r) (rsm_channels r);
              m = min leftOut inCap;
              m = (if post then min m (stack_frames (cc_format cc) (channelsOut cc)) else m);
              n = (if hasPreFormatConversion c then min leftIn inCap else leftIn);
              n = min n (wanted_input r m)
          in do {
               (inp, st) \<leftarrow> (case pIn of
                  None \<Rightarrow> Some (None, st)
                | Some _ \<Rightarrow> if hasPreFormatConversion c then map_option (\<lambda>(b, st). (Some b, st)) (pre_stage c (rsm_format r) pIn n st)
                    else Some (pIn, st));
               (result, mid, i, q, c') \<leftarrow> resample_stage c inp n True m;
               if result \<noteq> MA_SUCCESS then Some (result, mid, i, q, c', st)
               else if \<not> hasOut then Some (MA_SUCCESS, empty_buffer (dc_formatOut c), i, q, c', st)
               else do {
                 (result, out) \<leftarrow> ma_channel_converter_process_pcm_frames (Some cc) (Some (empty_buffer (cc_format cc))) (Some mid) (of_nat q);
                 if result \<noteq> MA_SUCCESS \<or> \<not> post then Some (result, the out, i, q, c', st)
                 else map_option (\<lambda>(out, st). (result, out, i, q, c', st)) (post_stage c True (the out) q (channelsOut cc) st)
               }
             })"

text \<open>Channels first, then rate.\<close>

definition channels_first_iteration :: "bool \<Rightarrow> iteration" where
  "channels_first_iteration hasOut c pIn leftIn leftOut st =
     (case dc_resampler c of
        None \<Rightarrow> None
      | Some r \<Rightarrow>
          let cc = channelConverter c; post = hasPostFormatConversion c;
              midCap = stack_frames (cc_format cc) (channelsOut cc);
              m = min leftOut midCap;
              m = (if post then min m (stack_frames (rsm_format r) (rsm_channels r)) else m);
              n = (if hasPreFormatConversion c then min leftIn (stack_frames (cc_format cc) (channelsIn cc)) else leftIn);
              n = min (min n midCap) (wanted_input r m)
          in do {
               (inp, st) \<leftarrow> (case pIn of
                  None \<Rightarrow> Some (None, st)
                | Some _ \<Rightarrow> if hasPreFormatConversion c then map_option (\<lambda>(b, st). (Some b, st)) (pre_stage c (cc_format cc) pIn n st)
                    else Some (pIn, st));
               (result, mid) \<leftarrow> ma_channel_converter_process_pcm_frames (Some cc) (Some (empty_buffer (cc_format cc))) inp (of_nat n);
               if result \<noteq> MA_SUCCESS then Some (result, empty_buffer (dc_formatOut c), 0, 0, c, st)
               else do {
                 (result, out, i, q, c') \<leftarrow> resample_stage c mid n (post \<or> hasOut) m;
                 if result \<noteq> MA_SUCCESS \<or> \<not> post then Some (result, out, i, q, c', st)
                 else map_option (\<lambda>(out, st). (result, out, i, q, c', st)) (post_stage c hasOut out q (dc_channelsOut c) st)
               }
             })"

text \<open>These two return at once on an error, without telling how many frames were processed.\<close>

definition run_both :: "iteration \<Rightarrow> ma_data_converter \<Rightarrow> pcm_buffer option \<Rightarrow> u64 option \<Rightarrow> u64 option \<Rightarrow> lcg \<Rightarrow> converted option" where
  "run_both iteration c pIn pFrameCountIn pFrameCountOut st =
     map_option (\<lambda>(result, out, i, q, c, st).
         let (i, q) = both_counts pFrameCountIn pFrameCountOut (of_nat i) (of_nat q)
         in if result \<noteq> MA_SUCCESS then (result, out, pFrameCountIn, pFrameCountOut, c, st) else (result, out, i, q, c, st))
       (convert_loop iteration c pIn (unat (count_of pFrameCountIn)) (unat (count_of pFrameCountOut)) st)"

definition ma_data_converter_process_pcm_frames__resample_first ::
    "ma_data_converter \<Rightarrow> pcm_buffer option \<Rightarrow> u64 option \<Rightarrow> bool \<Rightarrow> u64 option \<Rightarrow> lcg \<Rightarrow> converted option" where
  "ma_data_converter_process_pcm_frames__resample_first c pIn pFrameCountIn hasOut pFrameCountOut st =
     (case dc_resampler c of
        None \<Rightarrow> None
      | Some r \<Rightarrow>
          if rsm_format r = cc_format (channelConverter c) \<and> rsm_channels r = channelsIn (channelConverter c) \<and>
             rsm_channels r < channelsOut (channelConverter c)
          then run_both (resample_first_iteration hasOut) c pIn pFrameCountIn pFrameCountOut st else None)"

definition ma_data_converter_process_pcm_frames__channels_first ::
    "ma_data_converter \<Rightarrow> pcm_buffer option \<Rightarrow> u64 option \<Rightarrow> bool \<Rightarrow> u64 option \<Rightarrow> lcg \<Rightarrow> converted option" where
  "ma_data_converter_process_pcm_frames__channels_first c pIn pFrameCountIn hasOut pFrameCountOut st =
     (case dc_resampler c of
        None \<Rightarrow> None
      | Some r \<Rightarrow>
          if rsm_format r = cc_format (channelConverter c) \<and> rsm_channels r = channelsOut (channelConverter c) \<and>
             rsm_channels r \<le> channelsIn (channelConverter c)
          then run_both (channels_first_iteration hasOut) c pIn pFrameCountIn pFrameCountOut st else None)"

section \<open>The calls\<close>

definition ma_data_converter_process_pcm_frames ::
    "ma_data_converter \<Rightarrow> pcm_buffer option \<Rightarrow> u64 option \<Rightarrow> bool \<Rightarrow> u64 option \<Rightarrow> lcg \<Rightarrow> converted option" where
  "ma_data_converter_process_pcm_frames c =
     (case executionPath c of
        ma_data_converter_execution_path_passthrough \<Rightarrow> ma_data_converter_process_pcm_frames__passthrough c
      | ma_data_converter_execution_path_format_only \<Rightarrow> ma_data_converter_process_pcm_frames__format_only c
      | ma_data_converter_execution_path_channels_only \<Rightarrow> ma_data_converter_process_pcm_frames__channels_only c
      | ma_data_converter_execution_path_resample_only \<Rightarrow> ma_data_converter_process_pcm_frames__resample_only c
      | ma_data_converter_execution_path_resample_first \<Rightarrow> ma_data_converter_process_pcm_frames__resample_first c
      | ma_data_converter_execution_path_channels_first \<Rightarrow> ma_data_converter_process_pcm_frames__channels_first c)"

definition with_resampler ::
    "(ma_resampler option \<Rightarrow> (ma_result \<times> ma_resampler option) option) \<Rightarrow> ma_data_converter option \<Rightarrow> ma_result
      \<Rightarrow> (ma_result \<times> ma_data_converter option) option" where
  "with_resampler f pConverter without =
     (case pConverter of
        None \<Rightarrow> Some (MA_INVALID_ARGS, None)
      | Some c \<Rightarrow>
          if \<not> hasResampler c then Some (without, pConverter)
          else map_option (\<lambda>(result, r). (result, Some (c\<lparr>dc_resampler := r\<rparr>))) (f (dc_resampler c)))"

definition ma_data_converter_set_rate :: "libm \<Rightarrow> ma_data_converter option \<Rightarrow> u32 \<Rightarrow> u32 \<Rightarrow> (ma_result \<times> ma_data_converter option) option" where
  "ma_data_converter_set_rate m pConverter newIn newOut =
     with_resampler (\<lambda>r. ma_resampler_set_rate m r newIn newOut) pConverter MA_INVALID_OPERATION"

definition ma_data_converter_set_rate_ratio :: "libm \<Rightarrow> ma_data_converter option \<Rightarrow> f32 \<Rightarrow> (ma_result \<times> ma_data_converter option) option" where
  "ma_data_converter_set_rate_ratio m pConverter ratioInOut =
     with_resampler (\<lambda>r. ma_resampler_set_rate_ratio m r ratioInOut) pConverter MA_INVALID_OPERATION"

definition ma_data_converter_reset :: "ma_data_converter option \<Rightarrow> (ma_result \<times> ma_data_converter option) option" where
  "ma_data_converter_reset pConverter = with_resampler (\<lambda>r. Some (ma_resampler_reset r)) pConverter MA_SUCCESS"

definition ma_data_converter_get_input_latency :: "ma_data_converter option \<Rightarrow> u64" where
  "ma_data_converter_get_input_latency pConverter =
     (case pConverter of None \<Rightarrow> 0 | Some c \<Rightarrow> if hasResampler c then ma_resampler_get_input_latency (dc_resampler c) else 0)"

definition ma_data_converter_get_output_latency :: "ma_data_converter option \<Rightarrow> u64" where
  "ma_data_converter_get_output_latency pConverter =
     (case pConverter of None \<Rightarrow> 0 | Some c \<Rightarrow> if hasResampler c then ma_resampler_get_output_latency (dc_resampler c) else 0)"

definition converter_count_query :: "(ma_resampler option \<Rightarrow> u64 \<Rightarrow> u64 option \<Rightarrow> ma_result \<times> u64 option) \<Rightarrow> ma_data_converter option \<Rightarrow> u64
    \<Rightarrow> u64 option \<Rightarrow> ma_result \<times> u64 option" where
  "converter_count_query q pConverter n pCount =
     (case pCount of
        None \<Rightarrow> (MA_INVALID_ARGS, None)
      | Some _ \<Rightarrow>
          (case pConverter of
             None \<Rightarrow> (MA_INVALID_ARGS, Some 0)
           | Some c \<Rightarrow> if hasResampler c then q (dc_resampler c) n (Some 0) else (MA_SUCCESS, Some n)))"

definition ma_data_converter_get_required_input_frame_count :: "ma_data_converter option \<Rightarrow> u64 \<Rightarrow> u64 option \<Rightarrow> ma_result \<times> u64 option" where
  "ma_data_converter_get_required_input_frame_count = converter_count_query ma_resampler_get_required_input_frame_count"

definition ma_data_converter_get_expected_output_frame_count :: "ma_data_converter option \<Rightarrow> u64 \<Rightarrow> u64 option \<Rightarrow> ma_result \<times> u64 option" where
  "ma_data_converter_get_expected_output_frame_count = converter_count_query ma_resampler_get_expected_output_frame_count"

text \<open>The names of the next two are exchanged in the code: the input map is taken from the output and vice versa.\<close>

definition ma_data_converter_get_input_channel_map :: "ma_data_converter option \<Rightarrow> channel_map option \<Rightarrow> nat \<Rightarrow> ma_result \<times> channel_map option" where
  "ma_data_converter_get_input_channel_map pConverter pChannelMap channelMapCap =
     (case (pConverter, pChannelMap) of
        (Some c, Some m) \<Rightarrow>
          (MA_SUCCESS,
           if hasChannelConverter c then snd (ma_channel_converter_get_output_channel_map (Some (channelConverter c)) pChannelMap channelMapCap)
           else ma_channel_map_init_standard ma_standard_channel_map_default pChannelMap channelMapCap (dc_channelsOut c))
      | _ \<Rightarrow> (MA_INVALID_ARGS, pChannelMap))"

definition ma_data_converter_get_output_channel_map :: "ma_data_converter option \<Rightarrow> channel_map option \<Rightarrow> nat \<Rightarrow> ma_result \<times> channel_map option" where
  "ma_data_converter_get_output_channel_map pConverter pChannelMap channelMapCap =
     (case (pConverter, pChannelMap) of
        (Some c, Some m) \<Rightarrow>
          (MA_SUCCESS,
           if hasChannelConverter c then snd (ma_channel_converter_get_input_channel_map (Some (channelConverter c)) pChannelMap channelMapCap)
           else ma_channel_map_init_standard ma_standard_channel_map_default pChannelMap channelMapCap (dc_channelsIn c))
      | _ \<Rightarrow> (MA_INVALID_ARGS, pChannelMap))"

end
