(* ===== verification/Ma_Channel_Mix.thy ===== *)
theory Ma_Channel_Mix
  imports Ma_Channel_Conv Ma_Resample_Stream
begin

text \<open>
  What the channel converter of miniaudio (\<open>client/native/miniaudio.h\<close>) does to the samples: which channels
  arrive where, what the mean of a mono output is, and where the formats differ.
\<close>

section \<open>Frames of a block\<close>

lemma frames_of_nth: "f < n \<Longrightarrow> frames_of ch n xs ! f = take ch (drop (f * ch) xs)"
proof (induction n arbitrary: f xs)
  case (Suc n)
  then show ?case by (cases f) (simp_all add: add.commute)
qed simp

lemma frames_of_sample: "f < n \<Longrightarrow> c < ch \<Longrightarrow> n * ch \<le> length xs \<Longrightarrow> frames_of ch n xs ! f ! c = xs ! (f * ch + c)"
proof -
  assume a: "f < n" "c < ch" "n * ch \<le> length xs"
  have "Suc f * ch \<le> n * ch" using a(1) by (intro mult_le_mono1) simp
  then show ?thesis using a by (simp add: frames_of_nth)
qed

lemma frames_of_frame: "n * ch \<le> length xs \<Longrightarrow> f < n \<Longrightarrow> length (frames_of ch n xs ! f) = ch"
  by (rule frames_of_length) auto

lemma concat_nth: "\<forall>y \<in> set yss. length y = k \<Longrightarrow> f < length yss \<Longrightarrow> j < k \<Longrightarrow> concat yss ! (f * k + j) = yss ! f ! j"
proof (induction yss arbitrary: f)
  case (Cons y yss)
  then show ?case by (cases f) (simp_all add: nth_append)
qed simp

lemma per_frame_nth:
  assumes "\<And>x. length x = ch \<Longrightarrow> length (g x) = k" "n * ch \<le> length xs" "f < n" "j < k"
  shows "per_frame ch n g xs ! (f * k + j) = g (frames_of ch n xs ! f) ! j"
  using assms frames_of_length [OF assms(2)]
  by (subst per_frame_def, subst concat_nth [of _ k]) auto

section \<open>Mono output\<close>

text \<open>The exact sum of a frame.\<close>

definition frame_sum :: "i16 list \<Rightarrow> int" where
  "frame_sum x = sum_list (map sint x)"

lemma frame_sum_bounds: "- (int (length x) * 32768) \<le> frame_sum x \<and> frame_sum x \<le> int (length x) * 32767"
proof (induction x)
  case (Cons a x)
  then show ?case using sint16_bounds [of a] by (simp add: frame_sum_def algebra_simps)
qed (simp add: frame_sum_def)

lemma sum32_exact:
  "sint t + frame_sum x = s \<Longrightarrow> length x + k \<le> 65536 \<Longrightarrow> - (int k * 32768) \<le> sint t \<Longrightarrow> sint t \<le> int k * 32767 \<Longrightarrow>
   sum32 (map scast x) t = Some (word_of_int s)"
proof (induction x arbitrary: t k)
  case Nil
  then show ?case using sint_eq_int [of t s] by (simp add: frame_sum_def)
next
  case (Cons a x)
  obtain i j where v: "sint t = i" "sint a = j" by simp
  have j: "- 32768 \<le> j" "j \<le> 32767" using sint16_bounds [of a] v by simp_all
  have a: "sint (scast a :: i32) = j" unfolding scast_i16 v using j by (intro sint_word_of_int32) simp_all
  have k: "int k \<le> 65535" using Cons.prems(2) by simp
  have i: "- (int k * 32768) \<le> i" "i \<le> int k * 32767" using Cons.prems(3,4) v by simp_all
  then have r: "- 2147483648 \<le> i + j" "i + j < 2147483648" using j k by linarith+
  have t: "add32 t (scast a) = Some (word_of_int (i + j))" by (rule ops32(1) [OF v(1) a r])
  have u: "sint (word_of_int (i + j) :: i32) = i + j" using r by (intro sint_word_of_int32) simp_all
  have "sum32 (map scast x) (word_of_int (i + j)) = Some (word_of_int s)"
    by (rule Cons.IH [where k = "Suc k"])
      (use Cons.prems i j in \<open>simp_all only: u v\<close>, auto simp: frame_sum_def v algebra_simps)
  then show ?case by (simp only: list.map sum32.simps t bind.bind_lunit)
qed

lemma mono_out_s16_value:
  assumes "length x = unat chIn" "0 < chIn" "chIn \<le> 65536"
  shows "mono_out_s16 chIn x = Some (word_of_int ((frame_sum x mod 2 ^ 32) div uint chIn))"
proof -
  have "length x \<le> 65536" using assms(1,3) by (simp add: word_le_nat_alt)
  then have "sum32 (map scast x) 0 = Some (word_of_int (frame_sum x))" using sum32_exact [of 0 x "frame_sum x" 0] by simp
  moreover have "ucast (word_of_int (frame_sum x) div chIn) = (word_of_int ((frame_sum x mod 2 ^ 32) div uint chIn) :: i16)"
  proof -
    have "uint (word_of_int (frame_sum x) div chIn :: u32) = (frame_sum x mod 2 ^ 32) div uint chIn"
      by (simp add: uint_div uint_word_of_int)
    then show ?thesis by (metis of_int_uint)
  qed
  ultimately show ?thesis by (simp add: mono_out_s16_def)
qed

lemma mod32_div:
  fixes s n :: int
  assumes "0 < n" "- (2 ^ 31) \<le> s" "s < 2 ^ 31"
  shows "0 \<le> s \<Longrightarrow> (s mod 2 ^ 32) div n = s div n" "s < 0 \<Longrightarrow> (s mod 2 ^ 32) div n = (2 ^ 32 + s) div n"
proof -
  show "(s mod 2 ^ 32) div n = s div n" if "0 \<le> s" using that assms by (simp add: mod_pos_pos_trivial)
  show "(s mod 2 ^ 32) div n = (2 ^ 32 + s) div n" if "s < 0"
  proof -
    have "s mod 2 ^ 32 = (s + 2 ^ 32) mod 2 ^ 32" by simp
    also have "\<dots> = s + 2 ^ 32" using that assms by (intro mod_pos_pos_trivial) simp_all
    finally show ?thesis by (simp add: add.commute)
  qed
qed

lemma quotient_between: "0 < n \<Longrightarrow> a * n \<le> s \<Longrightarrow> s \<le> b * n \<Longrightarrow> a \<le> s div n \<and> s div n \<le> b" for a b n s :: int
proof
  assume a: "0 < n" "a * n \<le> s" "s \<le> b * n"
  show "a \<le> s div n" using zdiv_mono1 [OF a(2,1)] a(1) by (simp only: nonzero_mult_div_cancel_right)
  show "s div n \<le> b" using zdiv_mono1 [OF a(3,1)] a(1) by (simp only: nonzero_mult_div_cancel_right)
qed

text \<open>For a number of channels that divides \<open>2 ^ 16\<close> the wrap-around vanishes in the 16 bits that are stored.\<close>

lemma mono_out_s16_mean:
  assumes "length x = unat chIn" "0 < chIn" "chIn \<le> 65536" "0 \<le> frame_sum x \<or> unat chIn dvd 65536"
  shows "\<exists>y. mono_out_s16 chIn x = Some y \<and> sint y = frame_sum x div uint chIn"
proof -
  let ?n = "uint chIn" and ?s = "frame_sum x"
  have n: "0 < ?n" "?n = int (length x)" "?n \<le> 65536" using assms(1-3) by (simp_all add: word_less_def word_le_def)
  have s: "- (?n * 32768) \<le> ?s" "?s \<le> ?n * 32767" using frame_sum_bounds [of x] n(2) by simp_all
  then have "- 2147483648 \<le> ?s" "?s < 2147483648" using n(3) by linarith+
  then have r: "- (2 ^ 31) \<le> ?s" "?s < 2 ^ 31" by simp_all
  have d: "- 32768 \<le> ?s div ?n" "?s div ?n \<le> 32767"
    using quotient_between [OF n(1), of "- 32768" ?s 32767] s by (simp_all add: mult.commute)
  have "(word_of_int ((?s mod 2 ^ 32) div ?n) :: i16) = word_of_int (?s div ?n)"
  proof (cases "0 \<le> ?s")
    case True
    then show ?thesis using mod32_div(1) [OF n(1) r] by simp
  next
    case False
    then have "unat chIn dvd 65536" using assms(4) by simp
    then obtain k where "65536 = unat chIn * k" by (rule dvdE)
    then have k: "65536 = ?n * int k" by (metis of_nat_mult of_nat_numeral uint_nat)
    have "(2 ^ 32 + ?s) div ?n = (?s + ?n * (int k * 65536)) div ?n"
      using k by (simp add: mult.assoc [symmetric] add.commute)
    also have "\<dots> = ?s div ?n + int k * 65536" using n(1) by simp
    finally have "(?s mod 2 ^ 32) div ?n = ?s div ?n + int k * 65536" using mod32_div(2) [OF n(1) r] False by simp
    moreover have "(word_of_int (z + int k * 65536) :: i16) = word_of_int z" for z
      unfolding word_of_int_eq_iff take_bit_eq_mod by simp
    ultimately show ?thesis by simp
  qed
  then show ?thesis
    using sint16_of_int [OF d] mono_out_s16_value [OF assms(1-3)] by simp
qed

text \<open>Otherwise it does not: a frame of minus ones comes out as something else.\<close>

lemma quotient_not_zero16:
  fixes n :: int
  assumes "0 < n" "n \<le> 65536" "\<not> n dvd 65536"
  shows "4294967296 div n mod 65536 \<noteq> 0"
proof
  assume "4294967296 div n mod 65536 = 0"
  then obtain k where k: "4294967296 div n = 65536 * k" by (metis mod_0_imp_dvd dvdE)
  define r where "r = 4294967296 mod n"
  have r: "0 \<le> r" "r < n" using assms(1) unfolding r_def by (simp_all only: pos_mod_sign pos_mod_bound)
  have "n * (4294967296 div n) + r = 4294967296" unfolding r_def by (rule mult_div_mod_eq)
  then have e: "65536 * (n * k) + r = 4294967296" unfolding k by (simp add: mult.left_commute)
  define m where "m = n * k"
  have "65536 * m + r = 4294967296" using e by (simp only: m_def)
  then have "m \<le> 65536" "65535 < m" using r assms(2) by linarith+
  then have "m = 65536" by linarith
  then have "n dvd 65536" unfolding m_def by (metis dvd_triv_left)
  then show False using assms(3) by simp
qed

lemma mono_out_s16_minus_ones:
  assumes "0 < chIn" "chIn \<le> 65536"
  shows "mono_out_s16 chIn (replicate (unat chIn) (- 1)) = Some (word_of_int (4294967296 div uint chIn - 1))"
proof -
  let ?n = "uint chIn"
  have n: "0 < ?n" "?n \<le> 65536" using assms by (simp_all add: word_less_def word_le_def)
  have s: "frame_sum (replicate (unat chIn) (- 1)) = - ?n" by (simp add: frame_sum_def sum_list_replicate)
  have "- ?n mod 2 ^ 32 div ?n = (2 ^ 32 + - ?n) div ?n" by (rule mod32_div(2) [OF n(1)]) (use n in simp_all)
  also have "2 ^ 32 + - ?n = 4294967296 + (- 1) * ?n" by simp
  also have "\<dots> div ?n = - 1 + 4294967296 div ?n" using n(1) by (intro div_mult_self1) simp
  finally have "- ?n mod 2 ^ 32 div ?n = 4294967296 div ?n - 1" by simp
  then show ?thesis
    using mono_out_s16_value [of "replicate (unat chIn) (- 1)" chIn] assms unfolding s by (simp only: length_replicate)
qed

lemma minus_ones_differ:
  fixes chIn :: u32
  assumes "0 < chIn" "chIn \<le> 65536" "\<not> unat chIn dvd 65536"
  shows "word_of_int (4294967296 div uint chIn - 1) \<noteq> (- 1 :: i16)"
proof
  let ?n = "uint chIn"
  have n: "0 < ?n" "?n \<le> 65536" using assms by (simp_all add: word_less_def word_le_def)
  have d: "\<not> ?n dvd 65536" using assms(3) by (metis of_nat_dvd_iff of_nat_numeral uint_nat)
  assume "word_of_int (4294967296 div ?n - 1) = (- 1 :: i16)"
  then have "(word_of_int (4294967296 div ?n) :: i16) = 0" by simp
  then have "4294967296 div ?n mod 65536 = 0" by (simp add: word_of_int_eq_0_iff dvd_eq_mod_eq_0)
  then show False using quotient_not_zero16 [OF n d] by simp
qed

text \<open>C21: (the mean of a mono output) Mixing 16-bit frames down to one channel gives the mean of every frame, rounded
  down, exactly when the number of channels divides \<open>2 ^ 16\<close>. For any other number there are frames for which
  the result is wrong: the sum is divided as an unsigned number, because the number of channels is one.\<close>

theorem mono_out_s16_iff:
  assumes "0 < chIn" "chIn \<le> 65536"
  shows "(\<forall>x. length x = unat chIn \<longrightarrow> map_option sint (mono_out_s16 chIn x) = Some (frame_sum x div uint chIn)) \<longleftrightarrow> unat chIn dvd 65536"
proof
  assume all: "\<forall>x. length x = unat chIn \<longrightarrow> map_option sint (mono_out_s16 chIn x) = Some (frame_sum x div uint chIn)"
  show "unat chIn dvd 65536"
  proof (rule ccontr)
    assume "\<not> unat chIn dvd 65536"
    then have no: "word_of_int (4294967296 div uint chIn - 1) \<noteq> (- 1 :: i16)" using minus_ones_differ assms by blast
    let ?x = "replicate (unat chIn) (- 1 :: i16)"
    have "frame_sum ?x div uint chIn = - 1"
      using assms(1) nonzero_mult_div_cancel_right [of "uint chIn" "- 1"]
      by (simp add: frame_sum_def sum_list_replicate word_less_def)
    then have "sint (word_of_int (4294967296 div uint chIn - 1) :: i16) = - 1"
      using all [rule_format, of ?x] mono_out_s16_minus_ones [OF assms] by simp
    then show False using no sint_eq_int by fastforce
  qed
next
  assume "unat chIn dvd 65536"
  then show "\<forall>x. length x = unat chIn \<longrightarrow> map_option sint (mono_out_s16 chIn x) = Some (frame_sum x div uint chIn)"
    using mono_out_s16_mean [OF _ assms] by fastforce
qed

lemma mono_out_s16_iff_witness:
  "map_option sint (mono_out_s16 2 [- 3, 0]) = Some (- 2)
    \<and> (\<exists>x. length x = 3 \<and> map_option sint (mono_out_s16 3 x) \<noteq> Some (frame_sum x div 3))"
proof -
  have "\<forall>x. length x = unat (2 :: u32) \<longrightarrow> map_option sint (mono_out_s16 2 x) = Some (frame_sum x div uint (2 :: u32))"
    by (rule iffD2 [OF mono_out_s16_iff]) simp_all
  from this [rule_format, of "[- 3, 0]"] have "map_option sint (mono_out_s16 2 [- 3, 0]) = Some (- 2)"
    by (simp add: frame_sum_def)
  then show ?thesis using mono_out_s16_iff [of 3] by auto
qed

text \<open>Spreading one channel over many and mixing down again.\<close>

lemma mono_out_spread:
  assumes "0 < k" "k \<le> 65536" "unat k dvd 65536" "length x = 1"
  shows "mono_out_s16 k (spread k x) = Some (hd x)"
proof -
  obtain a where x: "x = [a]" using assms(4) by (cases x) auto
  have sp: "spread k x = replicate (unat k) a" by (simp add: x spread_def concat_replicate_single)
  have "frame_sum (replicate (unat k) a) = uint k * sint a" by (simp add: frame_sum_def sum_list_replicate)
  then have "frame_sum (replicate (unat k) a) div uint k = sint a" using assms(1) by (simp add: word_less_def)
  then have "\<exists>y. mono_out_s16 k (replicate (unat k) a) = Some y \<and> sint y = sint a"
    using mono_out_s16_mean [of "replicate (unat k) a" k] assms(1-3) by simp
  then show ?thesis unfolding sp by (auto simp: x intro: signed_word_eqI)
qed

lemma frames_of_per_frame:
  assumes "\<And>x. length x = ch \<Longrightarrow> length (g x) = k" "n * ch \<le> length xs"
  shows "frames_of k n (per_frame ch n g xs) = map g (frames_of ch n xs)"
proof -
  have "\<forall>y \<in> set (map g (frames_of ch n xs)). length y = k" using assms frames_of_length [OF assms(2)] by auto
  from frames_of_concat [OF this, of "[]"] show ?thesis by (simp add: per_frame_def)
qed

text \<open>C36: (one channel to many and back) Spreading 16-bit frames of one channel over \<open>k\<close> channels and mixing the result
  down to one gives the samples back, for every number \<open>k\<close> that divides \<open>2 ^ 16\<close>.\<close>

theorem mono_spread_roundtrip:
  assumes ci: "conversionPath ci = ma_channel_conversion_path_mono_in" "cc_format ci = ma_format_s16" "channelsIn ci = 1" "channelsOut ci = k"
    and co: "conversionPath co = ma_channel_conversion_path_mono_out" "cc_format co = ma_format_s16" "channelsIn co = k" "channelsOut co = 1"
    and k: "0 < k" "k \<le> 65536" "unat k dvd 65536"
    and size: "length xs = unat n" "length mid = unat n * unat k" "length ys = unat n"
  shows "\<exists>zs. ma_channel_converter_process_pcm_frames (Some ci) (Some (PS16 mid)) (Some (PS16 xs)) n = Some (MA_SUCCESS, Some (PS16 zs))
    \<and> ma_channel_converter_process_pcm_frames (Some co) (Some (PS16 ys)) (Some (PS16 zs)) n = Some (MA_SUCCESS, Some (PS16 xs))"
proof -
  let ?zs = "per_frame 1 (unat n) (spread k) xs"
  have one: "length (spread k x) = unat k" if "length x = 1" for x :: "i16 list"
    using that by (cases x) (simp_all add: spread_def concat_replicate_single)
  have f: "frames_of (unat k) (unat n) ?zs = map (spread k) (frames_of 1 (unat n) xs)"
    using frames_of_per_frame [of 1 "spread k" "unat k" "unat n" xs] one size(1) by simp
  have len: "length x = 1" if "x \<in> set (frames_of 1 (unat n) xs)" for x
    using frames_of_length [OF _ that] size(1) by simp
  have lz: "length ?zs = unat n * unat k" unfolding per_frame_def
    using length_concat_frames [of "map (spread k) (frames_of 1 (unat n) xs)" "unat k"] one len by auto
  have "those (map (mono_out_s16 k) (frames_of (unat k) (unat n) ?zs)) = Some (map hd (frames_of 1 (unat n) xs))"
    unfolding f list.map_comp by (rule those_map_Some) (use mono_out_spread [OF k] len in simp)
  moreover have "map hd (frames_of 1 (unat n) xs) = xs"
    using size(1) by (intro nth_equalityI) (simp_all add: frames_of_nth hd_drop_conv_nth)
  ultimately have out: "ma_channel_converter_process_pcm_frames (Some co) (Some (PS16 ys)) (Some (PS16 ?zs)) n = Some (MA_SUCCESS, Some (PS16 xs))"
    using co size by (simp add: ma_channel_converter_process_pcm_frames_def ma_channel_converter_process_pcm_frames__mono_out_def over_def Let_def)
  moreover have "ma_channel_converter_process_pcm_frames (Some ci) (Some (PS16 mid)) (Some (PS16 xs)) n = Some (MA_SUCCESS, Some (PS16 ?zs))"
    using ci size lz by (simp add: ma_channel_converter_process_pcm_frames_def ma_channel_converter_process_pcm_frames__mono_in_def over_def Let_def)
  ultimately show ?thesis by blast
qed

definition plain_converter :: "ma_channel_conversion_path \<Rightarrow> u32 \<Rightarrow> u32 \<Rightarrow> channel_converter" where
  "plain_converter path chIn chOut = \<lparr>cc_format = ma_format_s16, channelsIn = chIn, channelsOut = chOut, mixingMode = ma_channel_mix_mode_rectangular,
     conversionPath = path, pChannelMapIn = None, pChannelMapOut = None, pShuffleTable = [], weights_f32 = [], weights_s16 = []\<rparr>"

lemma mono_spread_roundtrip_witness:
  "\<exists>zs. ma_channel_converter_process_pcm_frames (Some (plain_converter ma_channel_conversion_path_mono_in 1 2)) (Some (PS16 [0, 0, 0, 0]))
      (Some (PS16 [3, - 4])) 2 = Some (MA_SUCCESS, Some (PS16 zs))
    \<and> ma_channel_converter_process_pcm_frames (Some (plain_converter ma_channel_conversion_path_mono_out 2 1)) (Some (PS16 [0, 0]))
      (Some (PS16 zs)) 2 = Some (MA_SUCCESS, Some (PS16 [3, - 4]))"
  by (rule mono_spread_roundtrip [where k = 2]) (simp_all add: plain_converter_def)

section \<open>Mixing with weights\<close>

text \<open>A way of adding a weighted sample: with the weight of nothing it keeps the sum, with the weight of all it
  makes an empty sum \<open>through\<close> of the sample.\<close>

locale mixer =
  fixes add :: "'w \<Rightarrow> 's \<Rightarrow> 's \<Rightarrow> 's option" and zero :: 's and none :: 'w and all_of :: 'w and through :: "'s \<Rightarrow> 's"
  assumes add_none: "add none y x = Some y"
    and add_all: "add all_of zero x = Some (through x)"
begin

text \<open>The column of an output channel that takes one input channel, or none.\<close>

lemma accumulate_none:
  "\<forall>ws \<in> set weights. ws ! j = none \<Longrightarrow> accumulate add weights j xs y = Some y"
proof (induction weights arbitrary: xs)
  case (Cons ws weights)
  then show ?case by (cases xs) (simp_all add: add_none)
qed simp

lemma accumulate_one:
  assumes "i < length weights" "i < length xs" "\<forall>k < length weights. weights ! k ! j = (if k = i then all_of else none)"
  shows "accumulate add weights j xs zero = Some (through (xs ! i))"
  using assms
proof (induction i arbitrary: weights xs)
  case 0
  obtain ws wss x xs' where l: "weights = ws # wss" "xs = x # xs'" using 0 by (cases weights; cases xs; simp)
  then have "ws ! j = all_of" "\<forall>ws \<in> set wss. ws ! j = none" using 0(3) by (force simp: in_set_conv_nth)+
  then show ?case using l accumulate_none [of wss j xs' "through x"] by (simp add: add_all)
next
  case (Suc i)
  obtain ws wss x xs' where l: "weights = ws # wss" "xs = x # xs'" using Suc.prems by (cases weights; cases xs; simp)
  have "ws ! j = none" "\<forall>k < length wss. wss ! k ! j = (if k = i then all_of else none)"
    using Suc.prems(3) l by force+
  then show ?case using Suc.IH [of wss xs'] Suc.prems l by (simp add: add_none)
qed

end

lemma add_weighted_s16_none: "add_weighted_s16 0 y x = Some y"
proof -
  obtain j k where v: "sint x = j" "sint y = k" by simp
  have b: "- 32768 \<le> j" "j \<le> 32767" "- 32768 \<le> k" "k \<le> 32767" using sint16_bounds [of x] sint16_bounds [of y] v by simp_all
  have x: "sint (scast x :: i32) = j" "sint (scast y :: i32) = k"
    unfolding scast_i16 v using b by (auto intro!: sint_word_of_int32)
  have p: "mul32 (scast x) 0 = Some 0" using ops32(3) [OF x(1), of 0 0] by simp
  have "add32 (scast y) 0 = Some (word_of_int k)" using ops32(1) [OF x(2), of 0 0] b by simp
  moreover have "sint (word_of_int k :: i32) = k" using b by (intro sint_word_of_int32) simp_all
  moreover have "ma_clamp k (- 32768) 32767 = k" using b by (simp add: ma_clamp_def)
  ultimately show ?thesis using sint_eq_int [OF v(2)] unfolding add_weighted_s16_def p bind.bind_lunit by simp
qed

lemma add_weighted_s16_all: "add_weighted_s16 4096 0 x = Some x"
proof -
  obtain j where v: "sint x = j" by simp
  have b: "- 32768 \<le> j" "j \<le> 32767" using sint16_bounds [of x] v by simp_all
  have x: "sint (scast x :: i32) = j" unfolding scast_i16 v using b by (auto intro!: sint_word_of_int32)
  have one: "sint (4096 :: i32) = 4096" by simp
  have p: "mul32 (scast x) 4096 = Some (word_of_int (j * 4096))" using b by (intro ops32(3) [OF x one]) simp_all
  have "sint (word_of_int (j * 4096) :: i32) = j * 4096" using b by (intro sint_word_of_int32) simp_all
  then have d: "sint (signed_drop_bit 12 (word_of_int (j * 4096)) :: i32) = j" unfolding sint_signed_drop_bit_eq by (simp add: drop_bit_eq_div)
  have "add32 0 (signed_drop_bit 12 (word_of_int (j * 4096))) = Some (word_of_int j)"
    using ops32(1) [OF _ d, of 0 0] b by simp
  moreover have "sint (word_of_int j :: i32) = j" using b by (intro sint_word_of_int32) simp_all
  moreover have "ma_clamp j (- 32768) 32767 = j" using b by (simp add: ma_clamp_def)
  ultimately show ?thesis using sint_eq_int [OF v] unfolding add_weighted_s16_def p bind.bind_lunit by simp
qed

interpretation mix_s16: mixer add_weighted_s16 0 0 4096 id
  by unfold_locales (simp_all add: add_weighted_s16_none add_weighted_s16_all)

text \<open>32-bit samples are mixed in 64 bits.\<close>

lemma sint32_bounds: "- 2147483648 \<le> sint (x :: i32)" "sint (x :: i32) \<le> 2147483647"
  using sint_range_size [of x] by (auto simp: word_size)

lemma sint64_of_int: "- 9223372036854775808 \<le> k \<Longrightarrow> k < 9223372036854775808 \<Longrightarrow> sint (word_of_int k :: i64) = k"
  by (simp add: signed_of_int signed_take_bit_int_eq_self)

lemma scast_i32_i64: "(scast (x :: i32) :: i64) = word_of_int (sint x)"
  by simp

lemma sint_shift12_64: "sint (signed_drop_bit 12 x :: i64) = sint x div 4096"
  by (simp add: sint_signed_drop_bit_eq drop_bit_eq_div)

lemma clip_s32_id: "sint t = sint x \<Longrightarrow> ma_clip_s32 t = x"
proof -
  assume t: "sint t = sint x"
  obtain j where v: "sint x = j" by simp
  then have "ma_clamp j (- (2147483647 + 1)) 2147483647 = j" using sint32_bounds [of x] by (simp add: ma_clamp_def)
  then show ?thesis using sint_eq_int [OF v] unfolding ma_clip_s32_def t v by simp
qed

lemma add_weighted_s32_none: "add_weighted_s32 0 y x = y"
proof -
  obtain j where v: "sint y = j" by simp
  then have "sint (word_of_int j :: i64) = j" using sint32_bounds [of y] by (intro sint64_of_int) simp_all
  then have "sint (scast y + signed_drop_bit 12 (scast x * scast (0 :: i32)) :: i64) = sint y"
    unfolding scast_i32_i64 v by simp
  then show ?thesis unfolding add_weighted_s32_def by (rule clip_s32_id)
qed

lemma add_weighted_s32_all: "add_weighted_s32 4096 0 x = x"
proof -
  obtain j where v: "sint x = j" by simp
  have "sint (word_of_int (j * 4096) :: i64) = j * 4096"
    using sint32_bounds [of x] v by (intro sint64_of_int) simp_all
  then have "sint (signed_drop_bit 12 (word_of_int j * 4096) :: i64) = j" by (simp add: sint_shift12_64)
  then have "sint (scast (0 :: i32) + signed_drop_bit 12 (scast x * scast (4096 :: i32)) :: i64) = sint x"
    unfolding scast_i32_i64 [of x] v by simp
  then show ?thesis unfolding add_weighted_s32_def by (rule clip_s32_id)
qed

interpretation mix_s32: mixer "\<lambda>w y x. Some (add_weighted_s32 w y x)" 0 0 4096 id
  by unfold_locales (simp_all add: add_weighted_s32_none add_weighted_s32_all)

text \<open>8-bit samples are mixed around 128, but a sum starts at zero: a single source loses its negative half.\<close>

definition upper_half :: "u8 \<Rightarrow> u8" where
  "upper_half x = (if x < 128 then 0 else x - 128)"

lemma u8_bounds: "0 \<le> uint (x :: u8)" "uint (x :: u8) \<le> 255"
  using unsigned_less [of x, where ?'a = int] by simp_all

lemma u8_centred:
  "sint (scast (ma_pcm_sample_u8_to_s16_no_scale x) :: i32) = uint x - 128"
proof -
  have b: "0 \<le> uint x" "uint x \<le> 255" using u8_bounds [of x] by simp_all
  have "ma_pcm_sample_u8_to_s16_no_scale x = word_of_int (uint x - 128)"
    by (simp add: ma_pcm_sample_u8_to_s16_no_scale_def)
  then have "sint (ma_pcm_sample_u8_to_s16_no_scale x) = uint x - 128"
    using b sint16_of_int [of "uint x - 128"] by simp
  moreover have "sint (word_of_int (uint x - 128) :: i32) = uint x - 128" using b by (intro sint_word_of_int32) simp_all
  ultimately show ?thesis by (simp only: scast_i16)
qed

lemma u8_of_nat: "(word_of_int (uint x) :: u8) = x"
  by simp

lemma add_weighted_u8_none: "add_weighted_u8 0 y x = Some y"
proof -
  have b: "0 \<le> uint y" "uint y \<le> 255" using u8_bounds [of y] by simp_all
  obtain k where k: "uint y = k" by simp
  have p: "mul32 (scast (ma_pcm_sample_u8_to_s16_no_scale x)) 0 = Some 0" using ops32(3) [OF u8_centred, of 0 0] by simp
  have "add32 (scast (ma_pcm_sample_u8_to_s16_no_scale y)) 0 = Some (word_of_int (k - 128))"
    using ops32(1) [OF u8_centred, of 0 0 y] b unfolding k by simp
  moreover have "sint (word_of_int (k - 128) :: i32) = k - 128" using b k by (intro sint_word_of_int32) simp_all
  moreover have "ma_clamp (k - 128) (- 128) 127 = k - 128" using b k by (simp add: ma_clamp_def)
  ultimately show ?thesis
    using u8_of_nat [of y] unfolding add_weighted_u8_def ma_clip_u8_def p bind.bind_lunit k by simp
qed

lemma add_weighted_u8_all: "add_weighted_u8 4096 0 x = Some (upper_half x)"
proof -
  obtain k where k: "uint x = k" by simp
  have b: "0 \<le> k" "k \<le> 255" using u8_bounds [of x] k by simp_all
  have one: "sint (4096 :: i32) = 4096" by simp
  have p: "mul32 (scast (ma_pcm_sample_u8_to_s16_no_scale x)) 4096 = Some (word_of_int ((k - 128) * 4096))"
    using ops32(3) [OF u8_centred one, of x] b unfolding k by simp
  have "sint (word_of_int ((k - 128) * 4096) :: i32) = (k - 128) * 4096" using b by (intro sint_word_of_int32) simp_all
  then have d: "sint (signed_drop_bit 12 (word_of_int ((k - 128) * 4096)) :: i32) = k - 128" by (simp add: sint_shift12)
  have z: "sint (scast (ma_pcm_sample_u8_to_s16_no_scale 0) :: i32) = - 128" using u8_centred [of 0] by simp
  have s: "add32 (scast (ma_pcm_sample_u8_to_s16_no_scale 0)) (signed_drop_bit 12 (word_of_int ((k - 128) * 4096)))
      = Some (word_of_int (k - 256))"
    using ops32(1) [OF z d] b by simp
  have t: "sint (word_of_int (k - 256) :: i32) = k - 256" using b by (intro sint_word_of_int32) simp_all
  define c where "c = ma_clamp (k - 256) (- 128) 127"
  have c: "c = (if k < 128 then - 128 else k - 256)" "- 128 \<le> c" "c \<le> 127" using b by (auto simp: c_def ma_clamp_def)
  have "ma_clamp c (- 128) 127 = c" using c(2,3) by (simp add: ma_clamp_def)
  moreover have "sint (word_of_int c :: i32) = c" using c(2,3) by (intro sint_word_of_int32) simp_all
  ultimately have "add_weighted_u8 4096 0 x = Some (word_of_int (c + 128))"
    unfolding add_weighted_u8_def ma_clip_u8_def p bind.bind_lunit s t c_def [symmetric] by simp
  moreover have "word_of_int (c + 128) = upper_half x"
  proof (cases "x < 128")
    case True
    then have "k < 128" using k by (simp add: word_less_def)
    then show ?thesis using True c(1) by (simp add: upper_half_def)
  next
    case False
    then have "\<not> k < 128" using k by (simp add: word_less_def)
    then have "word_of_int (c + 128) = (word_of_int k - 128 :: u8)" using c(1) by simp
    then show ?thesis using False u8_of_nat [of x] k by (simp add: upper_half_def)
  qed
  ultimately show ?thesis by simp
qed

interpretation mix_u8: mixer add_weighted_u8 0 0 4096 upper_half
  by unfold_locales (simp_all add: add_weighted_u8_none add_weighted_u8_all)

end
