(* ===== verification/Ma_Pcm_Float.thy ===== *)
theory Ma_Pcm_Float
  imports Ma_Pcm
begin

text \<open>
  Properties of miniaudio's conversions from and to \<open>f32\<close>, which \<open>Ma_Pcm\<close> models: when they are
  defined, what a round trip does, the unrolled loop and the vector units against the plain loop, and
  when the loop with the 32-bit index ends.
\<close>

section \<open>The unrolled loop\<close>

lemma try_lcg_append:
  "try_lcg f (xs @ ys) st =
     (case try_lcg f xs st of
        None \<Rightarrow> None
      | Some (us, st) \<Rightarrow> map_option (\<lambda>(vs, st). (us @ vs, st)) (try_lcg f ys st))"
proof (induction xs arbitrary: st)
  case Nil
  show ?case by (cases "try_lcg f ys st") simp_all
next
  case (Cons x xs)
  show ?case
  proof (cases "f x st")
    case (Some r)
    then show ?thesis
      by (cases r) (auto simp: Cons.IH option.map_comp comp_def case_prod_beta split: option.splits)
  qed simp
qed

lemma try_lcg_blocks:
  assumes "\<And>k st. k < m \<Longrightarrow> g k st = try_lcg f [n * k..<n * k + n] st"
  shows "map_option (\<lambda>(bs, st). (concat bs, st)) (try_lcg g [0..<m] st) = try_lcg f [0..<n * m] st"
  using assms
proof (induction m)
  case (Suc m)
  have "[0..<n * Suc m] = [0..<n * m] @ [n * m..<n * m + n]"
    using upt_add_eq_append [of 0 "n * m" n] by (simp only: mult_Suc_right add.commute [of n] le0 add_0)
  moreover have "[0..<Suc m] = [0..<m] @ [m]" by simp
  ultimately show ?case
    using Suc.IH [symmetric] Suc.prems
    by (auto simp: try_lcg_append simp del: upt_Suc split: option.splits)
qed simp

text \<open>A loop over blocks of \<open>n\<close> with the rest one by one.\<close>

lemma try_lcg_blocked:
  assumes "\<And>k st. k < count div n \<Longrightarrow> g k st = try_lcg f [n * k..<n * k + n] st"
  shows "(case try_lcg g [0..<count div n] st of None \<Rightarrow> None
      | Some (bs, st) \<Rightarrow> (case try_lcg f [n * (count div n)..<count] st of None \<Rightarrow> None
                         | Some (rest, st) \<Rightarrow> Some (concat bs @ rest, st))) = try_lcg f [0..<count] st"
proof -
  have "[0..<count] = [0..<n * (count div n)] @ [n * (count div n)..<count]"
    using upt_add_eq_append [of 0 "n * (count div n)" "count - n * (count div n)"] by simp
  then show ?thesis
    using try_lcg_blocks [OF assms, symmetric] by (auto simp: try_lcg_append split: option.splits)
qed

definition f32_to_s16_step :: "ma_dither_mode \<Rightarrow> f32 \<Rightarrow> f32 \<Rightarrow> f32 list \<Rightarrow> nat \<Rightarrow> lcg \<Rightarrow> (i16 \<times> lcg) option" where
  "f32_to_s16_step mode mn mx src i st =
     (let (d, st) = ma_dither_f32 mode mn mx st in map_option (\<lambda>v. (v, st)) (f32_to_s16_one (src ! i) d))"

lemma f32_to_s16_four_steps:
  "f32_to_s16_four mode mn mx src i = try_lcg (f32_to_s16_step mode mn mx src) [i..<i + 4]"
proof
  fix st
  obtain d0 s0 where d0: "ma_dither_f32 mode mn mx st = (d0, s0)" by fastforce
  obtain d1 s1 where d1: "ma_dither_f32 mode mn mx s0 = (d1, s1)" by fastforce
  obtain d2 s2 where d2: "ma_dither_f32 mode mn mx s1 = (d2, s2)" by fastforce
  obtain d3 s3 where d3: "ma_dither_f32 mode mn mx s2 = (d3, s3)" by fastforce
  have "[i..<i + 4] = [i + 0, i + 1, i + 2, i + 3]" by (simp add: upt_rec)
  then show "f32_to_s16_four mode mn mx src i st = try_lcg (f32_to_s16_step mode mn mx src) [i..<i + 4] st"
    by (simp add: f32_to_s16_four_def f32_to_s16_step_def d0 d1 d2 d3 del: add_0_right One_nat_def split: option.split)
qed

text \<open>The loop unrolled by four is the plain loop, in every dither mode and from every state of the
  generator: the same samples, the same final state, and undefined in the same cases.\<close>

lemma reference_steps:
  assumes "(if mode \<noteq> ma_dither_mode_none then (f32 (1 / - 32768), f32 (1 / 32767)) else (Fin 0, Fin 0)) = (mn, mx)"
  shows "ma_pcm_f32_to_s16__reference src count mode st = try_lcg (f32_to_s16_step mode mn mx src) [0..<count] st"
  unfolding ma_pcm_f32_to_s16__reference_def assms
  by (simp add: f32_to_s16_step_def [abs_def] f32_to_s16_one_def Let_def option.map_comp comp_def case_prod_beta)

lemma step_eq: "(\<lambda>i st. case ma_dither_f32 mode mn mx st of (d, st) \<Rightarrow> map_option (\<lambda>v. (v, st)) (f32_to_s16_one (src ! i) d))
    = f32_to_s16_step mode mn mx src"
  by (simp add: f32_to_s16_step_def fun_eq_iff)

theorem f32_to_s16_unrolled:
  "ma_pcm_f32_to_s16__optimized src count mode st = ma_pcm_f32_to_s16__reference src count mode st"
proof -
  obtain mn mx where range: "(if mode \<noteq> ma_dither_mode_none then (f32 (1 / - 32768), f32 (1 / 32767)) else (Fin 0, Fin 0))
    = (mn, mx)" by fastforce
  show ?thesis
    unfolding ma_pcm_f32_to_s16__optimized_def reference_steps [OF range] range prod.case Let_def step_eq
    by (rule try_lcg_blocked) (simp add: f32_to_s16_four_steps)
qed

section \<open>When conversions from floats are defined\<close>

lemma clip_Fin: "x \<noteq> NaN \<Longrightarrow> \<exists>r. clip x = Fin r \<and> - 1 \<le> r \<and> r \<le> 1"
  by (cases x) (auto simp: clip_def)

lemma clip_id: "- 1 \<le> r \<Longrightarrow> r \<le> 1 \<Longrightarrow> clip (Fin r) = Fin r"
  by (simp add: clip_def)

lemma trunc_between: "of_int a \<le> x \<Longrightarrow> x \<le> of_int b \<Longrightarrow> a \<le> trunc x \<and> trunc x \<le> b"
  using trunc_mono [of "of_int a" x] trunc_mono [of x "of_int b"] by simp

lemma scaled_bounds:
  assumes r: "- 1 \<le> (r :: rat)" "r \<le> 1" and c: "0 \<le> c"
  shows "- of_int c \<le> r * of_int c" "r * of_int c \<le> of_int c"
  using mult_right_mono [OF r(1), of "of_int c"] mult_right_mono [OF r(2), of "of_int c"] c by simp_all

text \<open>Scaling a clipped sample by an integer the format represents and casting it.\<close>

lemma cast_scaled32:
  assumes "- 1 \<le> r" "r \<le> 1" "0 \<le> c" "c \<le> 2 ^ 24"
  shows "\<exists>v. fp_to_int (- c) c (fp_mul f32 (Fin r) (Fin (of_int c))) = Some v"
proof -
  note b = scaled_bounds [OF assms(1-3)]
  have "\<bar>r * of_int c\<bar> \<le> of_int c" using b by (simp add: abs_le_iff)
  also have "\<dots> \<le> of_int (2 ^ 24)" using assms(4) by (simp only: of_int_le_iff)
  finally have fin: "f32 (r * of_int c) = Fin (rnd32 (r * of_int c))" by (intro f32_Fin) simp
  have c: "rnd32 (of_int c) = of_int c" "rnd32 (- of_int c) = - of_int c"
    using rnd_of_int_exact [of 24 c 149] assms(3,4) by (simp_all add: rnd_uminus)
  have "- of_int c \<le> rnd32 (r * of_int c)" "rnd32 (r * of_int c) \<le> of_int c"
    using rnd_mono [OF _ b(1), of 24 149] rnd_mono [OF _ b(2), of 24 149] by (simp_all add: c)
  then have "- c \<le> trunc (rnd32 (r * of_int c)) \<and> trunc (rnd32 (r * of_int c)) \<le> c"
    by (intro trunc_between) simp_all
  then show ?thesis by (simp add: fin)
qed

lemma fp_to_int_wider:
  "fp_to_int lo hi x = Some v \<Longrightarrow> lo' \<le> lo \<Longrightarrow> hi \<le> hi' \<Longrightarrow> fp_to_int lo' hi' x = Some v"
  by (cases x) (auto split: if_splits)

lemma cast_scaled64:
  assumes "- 1 \<le> r" "r \<le> 1"
  shows "\<exists>v. fp_to_int (- 0x80000000) 0x7FFFFFFF (fp_mul f64 (Fin r) (Fin 2147483647)) = Some v"
proof -
  have b: "- 2147483647 \<le> r * 2147483647" "r * 2147483647 \<le> 2147483647"
    using scaled_bounds [OF assms, of 2147483647] by simp_all
  have "\<bar>r * 2147483647\<bar> \<le> 2147483647" using b by (simp add: abs_le_iff)
  also have "(2147483647 :: rat) \<le> 2 ^ 1023" by simp
  finally have fin: "f64 (r * 2147483647) = Fin (rnd64 (r * 2147483647))" by (rule f64_Fin)
  have c: "rnd64 2147483647 = 2147483647" "rnd64 (- 2147483647) = - 2147483647"
    using rnd_of_int_exact [of 53 2147483647 1074] by (simp_all add: rnd_uminus)
  have "- 2147483647 \<le> rnd64 (r * 2147483647)" "rnd64 (r * 2147483647) \<le> 2147483647"
    using rnd_mono [OF _ b(1), of 53 1074] rnd_mono [OF _ b(2), of 53 1074] by (simp_all add: c)
  then have "- 2147483647 \<le> trunc (rnd64 (r * 2147483647)) \<and> trunc (rnd64 (r * 2147483647)) \<le> 2147483647"
    by (intro trunc_between) simp_all
  then show ?thesis by (simp add: fin)
qed

lemma f32_to_s32_sample_None: "f32_to_s32_sample y = None \<longleftrightarrow> y = NaN"
proof (cases "y = NaN")
  case False
  then obtain r where "clip y = Fin r" "- 1 \<le> r" "r \<le> 1" using clip_Fin by blast
  then show ?thesis using cast_scaled64 [of r] False by (auto simp: f32_to_s32_sample_def)
qed (simp add: f32_to_s32_sample_def clip_def)

section \<open>The loop with the 32-bit index\<close>

lemma f32_to_s32_loop_ends:
  assumes "f32_to_s32_loop src count i dst = Some out"
  shows "unat count < 2 ^ 32"
proof (rule f32_to_s32_loop.raw_induct [where P = "\<lambda>src count i dst out. unat count < 2 ^ 32", OF _ assms])
  fix loop src count i dst out
  assume IH: "\<And>src count i dst out. loop src count i dst = Some out \<Longrightarrow> unat (count :: u64) < 2 ^ 32"
    and eq: "(if ucast (i :: u32) < count
      then case f32_to_s32_sample (src ! unat i) of None \<Rightarrow> None
           | Some v \<Rightarrow> loop src count (i + 1) (dst(unat i := v))
      else Some dst) = Some out"
  show "unat count < 2 ^ 32"
  proof (cases "ucast i < count")
    case True
    then show ?thesis using eq IH by (auto split: option.splits)
  next
    case False
    then have "unat count \<le> unat (ucast i :: u64)" by (simp add: word_less_nat_alt not_less)
    also have "\<dots> = unat i" using unsigned_less [of i, where ?'a = nat] by (simp add: unsigned_ucast_eq take_bit_nat_eq_self)
    also have "\<dots> < 2 ^ 32" using unsigned_less [of i, where ?'a = nat] by simp
    finally show ?thesis .
  qed
qed

lemma f32_to_s32_loop_result:
  assumes "unat count < 2 ^ 32" "unat i = m" "m \<le> unat count"
  shows "f32_to_s32_loop src count i dst =
    map_option (\<lambda>vs j. if m \<le> j \<and> j < unat count then vs ! (j - m) else dst j)
      (those (map (\<lambda>j. f32_to_s32_sample (src ! j)) [m..<unat count]))"
  using assms(2,3)
proof (induction "unat count - m" arbitrary: i m dst)
  case 0
  then have "\<not> ucast i < count" by (simp add: word_less_nat_alt unat_ucast_32_64)
  then show ?case using 0 by (subst f32_to_s32_loop.simps) (auto simp: fun_eq_iff)
next
  case (Suc n)
  then have lt: "ucast i < count" and lt': "m < unat count"
    by (simp_all add: word_less_nat_alt unat_ucast_32_64)
  have i1: "unat (i + 1) = Suc m"
    using lt' assms(1) Suc.prems(1) by (simp add: unat_word_ariths)
  have upt: "[m..<unat count] = m # [Suc m..<unat count]"
    by (rule upt_conv_Cons [OF lt'])
  show ?case
  proof (cases "f32_to_s32_sample (src ! m)")
    case None
    then show ?thesis using Suc.prems(1) by (subst f32_to_s32_loop.simps) (simp add: lt upt)
  next
    case (Some v)
    have "f32_to_s32_loop src count i dst = f32_to_s32_loop src count (i + 1) (dst(m := v))"
      using Suc.prems(1) by (subst f32_to_s32_loop.simps) (simp add: lt Some)
    also have "\<dots> = map_option (\<lambda>vs j. if Suc m \<le> j \<and> j < unat count then vs ! (j - Suc m)
        else (dst(m := v)) j) (those (map (\<lambda>j. f32_to_s32_sample (src ! j)) [Suc m..<unat count]))"
      using Suc.hyps(1) [OF _ i1] Suc.hyps(2) lt' by simp
    also have "\<dots> = map_option (\<lambda>vs j. if m \<le> j \<and> j < unat count then vs ! (j - m) else dst j)
      (those (map (\<lambda>j. f32_to_s32_sample (src ! j)) [m..<unat count]))"
      using lt' by (auto simp: upt Some fun_eq_iff nth_Cons option.map_comp comp_def Suc_le_eq split: nat.splits
          intro!: option.map_cong0) (metis diff_Suc_eq_diff_pred Suc_diff_Suc diff_Suc_1 nat.inject)
    finally show ?thesis .
  qed
qed

lemma those_Some_length: "those xs = Some ys \<Longrightarrow> length ys = length xs"
  by (induction xs arbitrary: ys) (auto split: option.splits)

lemma those_None: "those xs = None \<longleftrightarrow> None \<in> set xs"
  by (induction xs) (auto split: option.splits)

text \<open>C29: \<open>ma_pcm_f32_to_s32\<close> counts in 32 bits against a 64-bit count. With fewer than \<open>2 ^ 32\<close> samples it
  returns exactly when none of them is a NaN, and stores the conversion of each; with more it never
  returns.\<close>

theorem f32_to_s32_returns:
  "ma_pcm_f32_to_s32 src count =
     (if unat count < 2 ^ 32 then those (map (\<lambda>j. f32_to_s32_sample (src ! j)) [0..<unat count]) else None) \<and>
   ((\<exists>ys. ma_pcm_f32_to_s32 src count = Some ys) \<longleftrightarrow> unat count < 2 ^ 32 \<and> (\<forall>j < unat count. src ! j \<noteq> NaN))"
proof -
  have eq: "ma_pcm_f32_to_s32 src count =
     (if unat count < 2 ^ 32 then those (map (\<lambda>j. f32_to_s32_sample (src ! j)) [0..<unat count]) else None)"
  proof (cases "unat count < 2 ^ 32")
    case True
    have "map (\<lambda>j. if j < unat count then vs ! (j - 0) else 0) [0..<unat count] = vs" if "length vs = unat count" for vs :: "i32 list"
      using that by (intro nth_equalityI) simp_all
    then show ?thesis
      using f32_to_s32_loop_result [OF True, of 0 0 src "\<lambda>_. 0"] True those_Some_length
      by (cases "those (map (\<lambda>j. f32_to_s32_sample (src ! j)) [0..<unat count])")
        (auto simp: ma_pcm_f32_to_s32_def dest!: those_Some_length)
  next
    case False
    then have "f32_to_s32_loop src count 0 (\<lambda>_. 0) = None"
      using f32_to_s32_loop_ends [of src count 0 "\<lambda>_. 0"] by (cases "f32_to_s32_loop src count 0 (\<lambda>_. 0)") auto
    then show ?thesis using False by (simp add: ma_pcm_f32_to_s32_def)
  qed
  have "those (map (\<lambda>j. f32_to_s32_sample (src ! j)) [0..<unat count]) = None \<longleftrightarrow> (\<exists>j < unat count. src ! j = NaN)"
    unfolding those_None by (auto simp: image_iff) (metis atLeast0LessThan f32_to_s32_sample_None lessThan_iff)+
  then show ?thesis unfolding eq by auto
qed

theorem f32_to_s32_returns_witness:
  "(\<exists>ys. ma_pcm_f32_to_s32 [PInf, Fin 0, Fin (1 / 2)] 3 = Some ys) \<and> ma_pcm_f32_to_s32 [] 0x100000000 = None"
proof
  have "unat (3 :: u64) = 3" by simp
  then have "\<forall>j < unat (3 :: u64). [PInf, Fin 0, Fin (1 / 2)] ! j \<noteq> NaN"
    by (simp add: less_Suc_eq numeral_3_eq_3)
  then show "\<exists>ys. ma_pcm_f32_to_s32 [PInf, Fin 0, Fin (1 / 2)] 3 = Some ys"
    by (intro conjunct2 [OF f32_to_s32_returns, THEN iffD2]) simp
  show "ma_pcm_f32_to_s32 [] 0x100000000 = None"
    using conjunct1 [OF f32_to_s32_returns [of "[]" "0x100000000"]] by simp
qed

section \<open>The round trip of 16-bit samples through floats\<close>

lemma pow2_literal: "f32 (30517578125 / 10 ^ 15) = Fin (1 / 2 ^ 15)"
proof -
  have e: "(30517578125 / 10 ^ 15 :: rat) = 1 / 2 ^ 15" by simp
  have "repr 24 149 (1 / 2 ^ 15)" by (rule reprI [where m = 1 and j = 15]) simp_all
  then show ?thesis unfolding e by (subst f32_Fin) simp_all
qed

lemma s16_to_f32_exact:
  assumes "- 32768 \<le> k" "k \<le> 32767"
  shows "fp_mul f32 (f32 (of_int k)) (f32 (30517578125 / 10 ^ 15)) = Fin (of_int k / 2 ^ 15)"
proof -
  have two: "f32 (1 / 32768) = Fin (1 / 32768)" using pow2_literal by simp
  have k: "f32 (of_int k) = Fin (of_int k)" using assms by (intro f32_of_int) simp
  have "repr 24 149 (of_int k / 2 ^ 15)" by (rule reprI [where m = k and j = 15]) (use assms in simp_all)
  moreover have "\<bar>of_int k / 2 ^ 15 :: rat\<bar> \<le> 1"
    using assms by (simp add: abs_le_iff divide_le_eq le_divide_eq)
  ultimately have "f32 (of_int k * (1 / 2 ^ 15)) = Fin (of_int k / 2 ^ 15)"
    by (subst f32_Fin) (auto intro: order_trans)
  then show ?thesis by (simp add: k two)
qed

lemma rnd_scaled_floor:
  assumes "1 \<le> n" "n \<le> (32768 :: int)"
  shows "trunc (rnd32 (of_int n / 2 ^ 15 * 32767)) = n - 1"
proof -
  define x :: rat where "x = of_int n / 2 ^ 15 * 32767"
  have x: "x = of_int n - of_int n / 32768" by (simp add: x_def field_simps)
  have n: "1 \<le> rat_of_int n" "rat_of_int n \<le> 32768" using assms by (simp_all only: of_int_1_le_iff of_int_le_numeral_iff)
  have pos: "0 \<le> x" using n by (simp add: x)
  have "of_int (n - 1) \<le> x" using n by (simp add: x field_simps)
  moreover have "repr 24 149 (of_int (n - 1))"
    by (rule reprI [where m = "n - 1" and j = 0]) (use assms in simp_all)
  ultimately have lo: "of_int (n - 1) \<le> rnd32 x" by (intro repr_le_rnd) simp_all
  have "\<bar>rnd32 x - x\<bar> \<le> x / 2 ^ 24 + 1 / 2 ^ (149 + 1)"
    using rnd_nn_error [of 24 x 149] pos by (simp add: rnd_def)
  then have "rnd32 x \<le> x + x / 2 ^ 24 + 1 / 2 ^ 150" by (simp add: abs_le_iff)
  moreover have "x / 2 ^ 24 \<le> of_int n / 2 ^ 24" using n by (simp add: x divide_right_mono)
  moreover have "(1 :: rat) / 2 ^ 150 \<le> of_int n / 2 ^ 24" using n by (simp add: field_simps)
  ultimately have "rnd32 x < of_int n" using n by (simp add: x)
  with lo have "\<lfloor>rnd32 x\<rfloor> = n - 1" by (intro floor_unique) simp_all
  moreover have "0 \<le> rnd32 x" using rnd_nonneg [OF _ pos] by simp
  ultimately show ?thesis by (simp add: trunc_def x_def)
qed

lemma f32_to_s16_of_s16:
  assumes k: "- 32768 \<le> k" "k \<le> 32767"
  shows "f32_to_s16_one (Fin (of_int k / 2 ^ 15)) (Fin 0) = Some (word_of_int (k - sgn k))"
proof -
  have le: "\<bar>of_int k / 2 ^ 15 :: rat\<bar> \<le> 1"
    using k by (simp add: abs_le_iff divide_le_eq le_divide_eq)
  have "repr 24 149 (of_int k / 2 ^ 15)" by (rule reprI [where m = k and j = 15]) (use k in simp_all)
  then have "f32 (of_int k / 2 ^ 15) = Fin (of_int k / 2 ^ 15)"
    using le by (subst f32_Fin) (auto intro: order_trans)
  then have add: "clip (fp_add f32 (Fin (of_int k / 2 ^ 15)) (Fin 0)) = Fin (of_int k / 2 ^ 15)"
    using le by (simp add: abs_le_iff clip_id)
  have "\<bar>of_int k / 2 ^ 15 * 32767 :: rat\<bar> \<le> 32767"
    using mult_right_mono [OF le, of 32767] by (simp add: abs_mult)
  then have "\<bar>of_int k / 2 ^ 15 * 32767 :: rat\<bar> \<le> 2 ^ 127" by (rule order_trans) simp
  then have mul: "f32 (of_int k / 2 ^ 15 * 32767) = Fin (rnd32 (of_int k / 2 ^ 15 * 32767))" by (rule f32_Fin)
  have t: "trunc (rnd32 (of_int k / 2 ^ 15 * 32767)) = k - sgn k"
  proof -
    consider "k = 0" | "0 < k" | "k < 0" by linarith
    then show ?thesis
    proof cases
      case 1
      then show ?thesis using trunc_of_int [of 0] by simp
    next
      case 2
      then show ?thesis using rnd_scaled_floor [of k] k by simp
    next
      case 3
      have "rnd32 (of_int k / 2 ^ 15 * 32767) = - rnd32 (of_int (- k) / 2 ^ 15 * 32767)"
        by (simp add: rnd_uminus [symmetric])
      then show ?thesis using 3 rnd_scaled_floor [of "- k"] k by (simp only: trunc_uminus) simp
    qed
  qed
  have "- 32768 \<le> k - sgn k" "k - sgn k \<le> 32767" using k by (auto simp: sgn_if)
  then show ?thesis
    unfolding f32_to_s16_one_def Let_def add fp_mul.simps mul fp_to_int.simps t by simp
qed

lemma try_lcg_pure:
  "(\<And>i st. i \<in> set xs \<Longrightarrow> f i st = Some (g i, st)) \<Longrightarrow> try_lcg f xs st = Some (map g xs, st)"
  by (induction xs arbitrary: st) simp_all

text \<open>Converting 16-bit samples to floats is exact, but the way back scales by 32767 and truncates: every
  sample but zero comes back exactly one step closer to zero, over the whole range.\<close>

theorem s16_f32_s16:
  "ma_pcm_s16_to_f32 xs (length xs) = map (\<lambda>x. Fin (of_int (sint x) / 2 ^ 15)) xs \<and>
   ma_pcm_f32_to_s16__reference (ma_pcm_s16_to_f32 xs (length xs)) (length xs) ma_dither_mode_none st =
     Some (map (\<lambda>x. word_of_int (sint x - sgn (sint x))) xs, st)"
proof -
  have b: "- 32768 \<le> sint x" "sint x \<le> 32767" for x :: i16
    using sint_ge [of x] sint_lt [of x] by simp_all
  have f: "ma_pcm_s16_to_f32 xs (length xs) = map (\<lambda>x. Fin (of_int (sint x) / 2 ^ 15)) xs"
    unfolding ma_pcm_s16_to_f32_def
    by (rule nth_equalityI) (simp_all only: length_map nth_map length_upt nth_upt minus_nat.diff_0 add_0 s16_to_f32_exact [OF b])
  have one: "ma_pcm_f32_to_s16__reference src count ma_dither_mode_none =
      try_lcg (\<lambda>i st. map_option (\<lambda>v. (v, st)) (f32_to_s16_one (src ! i) (Fin 0))) [0..<count]" for src count
    by (simp add: ma_pcm_f32_to_s16__reference_def f32_to_s16_one_def ma_dither_f32_def Let_def option.map_comp comp_def)
  have "try_lcg (\<lambda>i st. map_option (\<lambda>v. (v, st)) (f32_to_s16_one (map (\<lambda>x. Fin (of_int (sint x) / 2 ^ 15)) xs ! i) (Fin 0)))
      [0..<length xs] st =
    Some (map (\<lambda>i. word_of_int (sint (xs ! i) - sgn (sint (xs ! i)))) [0..<length xs], st)"
    by (rule try_lcg_pure) (simp add: f32_to_s16_of_s16 [OF b, simplified])
  moreover have "map (\<lambda>i. word_of_int (sint (xs ! i) - sgn (sint (xs ! i))) :: i16) [0..<length xs] =
    map (\<lambda>x. word_of_int (sint x - sgn (sint x))) xs"
    by (rule nth_equalityI) simp_all
  ultimately show ?thesis unfolding f one by simp
qed

section \<open>The vector units\<close>

lemma fp_add_0: "in_unit y \<Longrightarrow> \<exists>r. fp_add f32 y (Fin 0) = Fin r \<and> - 1 \<le> r \<and> r \<le> 1"
proof (cases y)
  case (Fin q)
  assume "in_unit y"
  then have q: "- 1 \<le> q" "q \<le> 1" by (simp_all add: Fin)
  have "f32 q = Fin (rnd32 q)" using q by (intro f32_Fin) (simp add: abs_le_iff)
  moreover have "- 1 \<le> rnd32 q" "rnd32 q \<le> 1"
    using rnd_mono [OF _ q(1), of 24 149] rnd_mono [OF _ q(2), of 24 149] rnd_of_int_exact [of 24 1 149]
      rnd_of_int_exact [of 24 "- 1" 149] by simp_all
  ultimately show ?thesis by (simp add: Fin)
qed simp_all

text \<open>Within \<open>[-1, 1]\<close> nothing is clipped and nothing saturates, so a lane computes what the scalar code does.\<close>

lemma lane_eq:
  assumes "in_unit y" "cvt \<in> {mm_cvttps_epi32, vcvtq_s32_f32}"
  shows "f32_to_s16_one y (Fin 0) = Some (f32_to_s16_lane cvt y (Fin 0))"
proof -
  obtain r where r: "fp_add f32 y (Fin 0) = Fin r" "- 1 \<le> r" "r \<le> 1" using fp_add_0 [OF assms(1)] by blast
  obtain v where v: "fp_to_int (- 32767) 32767 (fp_mul f32 (Fin r) (Fin 32767)) = Some v"
    using cast_scaled32 [OF r(2,3), of 32767] by auto
  then obtain z where z: "fp_mul f32 (Fin r) (Fin 32767) = Fin z" "trunc z = v" "- 32767 \<le> v" "v \<le> 32767"
    by (cases "fp_mul f32 (Fin r) (Fin 32767)") (auto simp del: fp_mul.simps split: if_splits)
  have "fp_to_int (- 32768) 32767 (Fin z) = Some v" using z(2-4) by simp
  moreover have "cvt (Fin z) = v" using assms(2) z(2-4) by auto
  ultimately show ?thesis
    using z(3,4) by (simp add: f32_to_s16_one_def f32_to_s16_lane_def Let_def r(1) clip_id [OF r(2,3)] z(1) saturate_s16_def del: fp_mul.simps)
qed

lemma eight_eq:
  assumes "\<And>k. k < 8 \<Longrightarrow> in_unit (src ! (i + k))" "\<And>k. k < 4 \<Longrightarrow> lane k < 4" "cvt \<in> {mm_cvttps_epi32, vcvtq_s32_f32}"
  shows "f32_to_s16_eight cvt lane ma_dither_mode_none mn mx src i st =
    try_lcg (f32_to_s16_step ma_dither_mode_none mn mx src) [i..<i + 8] st"
proof -
  let ?lane = "\<lambda>k. f32_to_s16_lane cvt (src ! k) (Fin 0)"
  have zero: "[Fin 0, Fin 0, Fin 0, Fin 0] ! lane k = Fin 0" if "k < 4" for k
    using assms(2) [OF that] by (auto simp: less_Suc_eq numeral_eq_Suc)
  have "[i..<i + 8] = map (\<lambda>k. i + k) [0..<4] @ map (\<lambda>k. i + 4 + k) [0..<4]"
    by (simp add: upt_rec)
  then have "f32_to_s16_eight cvt lane ma_dither_mode_none mn mx src i st = Some (map ?lane [i..<i + 8], st)"
    using zero by (simp add: f32_to_s16_eight_def four_dithers_def ma_dither_f32_def comp_def)
  moreover have "try_lcg (f32_to_s16_step ma_dither_mode_none mn mx src) js st = Some (map ?lane js, st)"
    if "\<forall>j \<in> set js. in_unit (src ! j)" for js
    using that lane_eq [OF _ assms(3)] by (induction js) (simp_all add: f32_to_s16_step_def ma_dither_f32_def)
  moreover have "in_unit (src ! j)" if "j \<in> set [i..<i + 8]" for j
    using assms(1) [of "j - i"] that by auto
  ultimately show ?thesis by simp
qed

lemma vector_eq:
  assumes "portable_s16 mode src count" "\<And>k. k < 4 \<Longrightarrow> lane k < 4" "cvt \<in> {mm_cvttps_epi32, vcvtq_s32_f32}"
  shows "f32_to_s16_vector cvt lane src count mode st = ma_pcm_f32_to_s16__reference src count mode st"
proof -
  obtain mn mx where range: "(if mode \<noteq> ma_dither_mode_none then (f32 (1 / - 32768), f32 (1 / 32767)) else (Fin 0, Fin 0))
    = (mn, mx)" by fastforce
  have "f32_to_s16_eight cvt lane mode mn mx src (8 * k) st = try_lcg (f32_to_s16_step mode mn mx src) [8 * k..<8 * k + 8] st"
    if "k < count div 8" for k st
  proof (cases "mode = ma_dither_mode_none")
    case True
    have "in_unit (src ! (8 * k + l))" if "l < 8" for l
      using assms(1) True that \<open>k < count div 8\<close> by (simp add: portable_s16_def list_all_iff)
    then show ?thesis using eight_eq [of src "8 * k" lane cvt] assms(2,3) True by blast
  next
    case False
    then show ?thesis using assms(1) that by (simp add: portable_s16_def)
  qed
  then show ?thesis
    unfolding f32_to_s16_vector_def reference_steps [OF range] range prod.case Let_def step_eq by (rule try_lcg_blocked)
qed

text \<open>The dispatch on the vector unit and the alignment of the buffers does not matter for samples within \<open>[-1, 1]\<close>.\<close>

theorem f32_to_s16_every_unit:
  assumes "portable_s16 mode src count" "\<And>k. k < 4 \<Longrightarrow> lane k < 4"
  shows "ma_pcm_f32_to_s16 unit lane aligned src count mode st = ma_pcm_f32_to_s16__reference src count mode st"
  using vector_eq [where cvt = mm_cvttps_epi32, OF assms] vector_eq [where cvt = vcvtq_s32_f32, OF assms(1), of "\<lambda>k. k"]
  by (simp add: ma_pcm_f32_to_s16_def ma_pcm_f32_to_s16__sse2_def ma_pcm_f32_to_s16__neon_def f32_to_s16_unrolled split: vector_unit.split)

text \<open>So whatever \<open>ma_pcm_convert\<close> says is what every build does, wherever the buffers lie.\<close>

lemma convert_f32_to_s16_every_unit:
  assumes "ma_pcm_convert ma_format_s16 (PF32 xs) n mode st = Some (Some (PS16 ys), st')" "\<And>k. k < 4 \<Longrightarrow> lane k < 4"
  shows "ma_pcm_f32_to_s16 unit lane aligned xs n mode st = Some (ys, st')"
proof -
  have portable: "portable_s16 mode xs n" and scalar: "ma_pcm_f32_to_s16 scalar_unit id False xs n mode st = Some (ys, st')"
    using assms(1) by (auto simp: ma_pcm_convert_def split: if_splits)
  show ?thesis
    using scalar assms(2) f32_to_s16_every_unit [OF portable, of lane unit aligned st] f32_to_s16_every_unit [OF portable, of id scalar_unit False st]
    by simp
qed

text \<open>Outside it does: the scalar code clips, the vector units saturate, and SSE2 makes a large positive sample the most negative one.\<close>

lemma vector_const:
  "f32_to_s16_vector cvt id (replicate 8 y) 8 ma_dither_mode_none st = Some (replicate 8 (f32_to_s16_lane cvt y (Fin 0)), st)"
  by (simp add: f32_to_s16_vector_def f32_to_s16_eight_def four_dithers_def ma_dither_f32_def upt_rec Let_def)
    (simp add: numeral_eq_Suc)

lemma scalar_const:
  assumes "f32_to_s16_one y (Fin 0) = Some v"
  shows "ma_pcm_f32_to_s16__optimized (replicate 8 y) 8 ma_dither_mode_none st = Some (replicate 8 v, st)"
proof -
  have "try_lcg (f32_to_s16_step ma_dither_mode_none (Fin 0) (Fin 0) (replicate 8 y)) [0..<8] st = Some (map (\<lambda>_. v) [0..<8], st)"
    using assms by (intro try_lcg_pure) (simp add: f32_to_s16_step_def ma_dither_f32_def)
  then show ?thesis by (simp add: f32_to_s16_unrolled reference_steps [where mn = "Fin 0" and mx = "Fin 0"] map_replicate_const del: upt_rec_numeral)
qed

lemma f32_literals:
  "f32 (- 3 / 2) = Fin (- 3 / 2)" "f32 (- 98301 / 2) = Fin (- 98301 / 2)"
  "f32 131072 = Fin 131072" "f32 4294836224 = Fin 4294836224" "f32 (- 32767) = Fin (- 32767)"
proof -
  show "f32 (- 3 / 2) = Fin (- 3 / 2)"
    using reprI [of "- 3" 24 1 149 "- 3 / 2"] by (subst f32_Fin) simp_all
  show "f32 (- 98301 / 2) = Fin (- 98301 / 2)"
    using reprI [of "- 98301" 24 1 149 "- 98301 / 2"] by (subst f32_Fin) simp_all
  show "f32 131072 = Fin 131072" "f32 (- 32767) = Fin (- 32767)"
    using f32_of_int [of 131072] f32_of_int [of "- 32767"] by simp_all
  show "f32 4294836224 = Fin 4294836224"
    using repr_mult_pow2 [OF reprI [of 32767 24 0 149 32767], of 17] by (subst f32_Fin) simp_all
qed

lemma f32_to_s16_units_differ:
  "ma_pcm_f32_to_s16 scalar_unit id True (replicate 8 (Fin (- 3 / 2))) 8 ma_dither_mode_none st = Some (replicate 8 (- 32767), st)"
  "ma_pcm_f32_to_s16 sse2_unit id True (replicate 8 (Fin (- 3 / 2))) 8 ma_dither_mode_none st = Some (replicate 8 (- 32768), st)"
  "ma_pcm_f32_to_s16 sse2_unit id True (replicate 8 (Fin 131072)) 8 ma_dither_mode_none st = Some (replicate 8 (- 32768), st)"
  "ma_pcm_f32_to_s16 neon_unit id True (replicate 8 (Fin 131072)) 8 ma_dither_mode_none st = Some (replicate 8 32767, st)"
proof -
  have scalar: "f32_to_s16_one (Fin (- 3 / 2)) (Fin 0) = Some (- 32767)"
    using f32_literals by (simp add: f32_to_s16_one_def Let_def clip_def trunc_def)
  have lanes: "f32_to_s16_lane mm_cvttps_epi32 (Fin (- 3 / 2)) (Fin 0) = - 32768"
    "f32_to_s16_lane mm_cvttps_epi32 (Fin 131072) (Fin 0) = - 32768"
    "f32_to_s16_lane vcvtq_s32_f32 (Fin 131072) (Fin 0) = 32767"
    using f32_literals floor_unique [of 49150 "98301 / 2 :: rat"] by (simp_all add: f32_to_s16_lane_def saturate_s16_def trunc_def)
  show "ma_pcm_f32_to_s16 scalar_unit id True (replicate 8 (Fin (- 3 / 2))) 8 ma_dither_mode_none st = Some (replicate 8 (- 32767), st)"
    by (simp only: ma_pcm_f32_to_s16_def vector_unit.case scalar_const [OF scalar])
  show "ma_pcm_f32_to_s16 sse2_unit id True (replicate 8 (Fin (- 3 / 2))) 8 ma_dither_mode_none st = Some (replicate 8 (- 32768), st)"
    "ma_pcm_f32_to_s16 sse2_unit id True (replicate 8 (Fin 131072)) 8 ma_dither_mode_none st = Some (replicate 8 (- 32768), st)"
    by (simp_all only: ma_pcm_f32_to_s16_def ma_pcm_f32_to_s16__sse2_def vector_unit.case vector_const lanes not_True_eq_False if_False)
  show "ma_pcm_f32_to_s16 neon_unit id True (replicate 8 (Fin 131072)) 8 ma_dither_mode_none st = Some (replicate 8 32767, st)"
    by (simp add: ma_pcm_f32_to_s16_def ma_pcm_f32_to_s16__neon_def vector_const [unfolded id_def] lanes)
qed

end
