(* ===== verification/Ma_Framewise.thy ===== *)
theory Ma_Framewise
  imports Ma_Data_Converter Ma_Channel_Mix Ma_Pcm_Float
begin

text \<open>
  The stages of the data converter of miniaudio (\<open>client/native/miniaudio.h\<close>) that keep the rate work frame by frame: converting a
  block is converting each of its frames alone. This is the contract \<open>framewise\<close>; it is what lets the code cut
  a block into pieces that fit its temporary buffers. The conversions of format without dither and the
  channel converter meet it, and so does one such stage after another.
\<close>

section \<open>Buffers as lists of frames\<close>

fun buffer_has :: "nat \<Rightarrow> nat \<Rightarrow> pcm_buffer \<Rightarrow> bool" where
  "buffer_has ch n (PU8 xs) \<longleftrightarrow> n * ch \<le> length xs"
| "buffer_has ch n (PS16 xs) \<longleftrightarrow> n * ch \<le> length xs"
| "buffer_has ch n (PS24 xs) \<longleftrightarrow> n * (ch * 3) \<le> length xs"
| "buffer_has ch n (PS32 xs) \<longleftrightarrow> n * ch \<le> length xs"
| "buffer_has ch n (PF32 xs) \<longleftrightarrow> n * ch \<le> length xs"

fun buffer_frames :: "nat \<Rightarrow> nat \<Rightarrow> pcm_buffer \<Rightarrow> pcm_buffer list" where
  "buffer_frames ch n (PU8 xs) = map PU8 (frames_of ch n xs)"
| "buffer_frames ch n (PS16 xs) = map PS16 (frames_of ch n xs)"
| "buffer_frames ch n (PS24 xs) = map PS24 (frames_of (ch * 3) n xs)"
| "buffer_frames ch n (PS32 xs) = map PS32 (frames_of ch n xs)"
| "buffer_frames ch n (PF32 xs) = map PF32 (frames_of ch n xs)"

text \<open>A frame of \<open>ch\<close> samples of a format, by itself.\<close>

fun is_frame :: "ma_format \<Rightarrow> nat \<Rightarrow> pcm_buffer \<Rightarrow> bool" where
  "is_frame fmt ch (PU8 xs) \<longleftrightarrow> fmt = ma_format_u8 \<and> length xs = ch"
| "is_frame fmt ch (PS16 xs) \<longleftrightarrow> fmt = ma_format_s16 \<and> length xs = ch"
| "is_frame fmt ch (PS24 xs) \<longleftrightarrow> fmt = ma_format_s24 \<and> length xs = ch * 3"
| "is_frame fmt ch (PS32 xs) \<longleftrightarrow> fmt = ma_format_s32 \<and> length xs = ch"
| "is_frame fmt ch (PF32 xs) \<longleftrightarrow> fmt = ma_format_f32 \<and> length xs = ch"

definition buffer_concat :: "ma_format \<Rightarrow> pcm_buffer list \<Rightarrow> pcm_buffer" where
  "buffer_concat fmt bs = foldr buffer_append bs (empty_buffer fmt)"

lemma buffer_concat_simps [simp]:
  "buffer_concat fmt [] = empty_buffer fmt" "buffer_concat fmt (b # bs) = buffer_append b (buffer_concat fmt bs)"
  by (simp_all add: buffer_concat_def)

lemma frames_of_add: "frames_of ch (m + n) xs = frames_of ch m xs @ frames_of ch n (drop (m * ch) xs)"
  by (induction m arbitrary: xs) (simp_all add: add.commute)

lemma length_buffer_frames [simp]: "length (buffer_frames ch n b) = n"
  by (cases b) simp_all

lemma buffer_frames_add: "buffer_frames ch (m + n) b = buffer_frames ch m b @ buffer_frames ch n (drop_samples (m * ch) b)"
  by (cases b) (simp_all add: frames_of_add mult.assoc)

lemma buffer_has_drop: "buffer_has ch (m + n) b \<Longrightarrow> buffer_has ch n (drop_samples (m * ch) b)"
  by (cases b) (simp_all add: add_mult_distrib mult.assoc)

lemma buffer_has_mono: "buffer_has ch n b \<Longrightarrow> m \<le> n \<Longrightarrow> buffer_has ch m b"
  by (cases b) (auto intro: order_trans [OF mult_le_mono1])

lemma drop_samples_format [simp]: "buffer_format (drop_samples n b) = buffer_format b"
  by (cases b) simp_all

lemma buffer_frames_are: "buffer_has ch n b \<Longrightarrow> f \<in> set (buffer_frames ch n b) \<Longrightarrow> is_frame (buffer_format b) ch f"
  by (cases b) (auto dest: frames_of_length)

lemma buffer_frames_one: "is_frame fmt ch b \<Longrightarrow> buffer_frames ch 1 b = [b]"
  by (cases b) auto

lemma is_frame_has: "is_frame fmt ch b \<Longrightarrow> buffer_has ch 1 b \<and> buffer_format b = fmt"
  by (cases b) auto

lemma append_frames:
  "is_frame fmt ch b \<Longrightarrow> buffer_format c = fmt \<Longrightarrow> buffer_format (buffer_append b c) = fmt \<and>
   drop_samples ch (buffer_append b c) = c \<and> buffer_frames ch (Suc n) (buffer_append b c) = b # buffer_frames ch n c \<and>
   (buffer_has ch n c \<longrightarrow> buffer_has ch (Suc n) (buffer_append b c))"
  by (cases b; cases c) (auto simp: drop_append)

lemma buffer_append_assoc:
  "buffer_format a = fmt \<Longrightarrow> buffer_format b = fmt \<Longrightarrow> buffer_format c = fmt \<Longrightarrow>
   buffer_append (buffer_append a b) c = buffer_append a (buffer_append b c)"
  by (cases a; cases b; cases c) auto

lemma append_empty [simp]: "buffer_format b = fmt \<Longrightarrow> buffer_append b (empty_buffer fmt) = b"
  by (cases b) auto

lemma empty_append [simp]: "buffer_format b = fmt \<Longrightarrow> buffer_append (empty_buffer fmt) b = b"
  by (cases b) auto

lemma empty_format: "fmt \<noteq> ma_format_unknown \<Longrightarrow> buffer_format (empty_buffer fmt) = fmt"
  by (cases fmt) auto

lemma append_format [simp]: "buffer_format (buffer_append a b) = buffer_format a"
  by (cases a; cases b) auto

lemma concat_format:
  "fmt \<noteq> ma_format_unknown \<Longrightarrow> \<forall>b \<in> set bs. buffer_format b = fmt \<Longrightarrow> buffer_format (buffer_concat fmt bs) = fmt"
  by (cases bs) (simp_all add: empty_format)

lemma buffer_concat_append:
  "fmt \<noteq> ma_format_unknown \<Longrightarrow> \<forall>b \<in> set (bs @ cs). buffer_format b = fmt \<Longrightarrow>
   buffer_concat fmt (bs @ cs) = buffer_append (buffer_concat fmt bs) (buffer_concat fmt cs)"
  by (induction bs) (simp_all add: concat_format buffer_append_assoc empty_format)

lemma concat_frames:
  "fmt \<noteq> ma_format_unknown \<Longrightarrow> \<forall>b \<in> set bs. is_frame fmt ch b \<Longrightarrow>
   buffer_frames ch (length bs) (buffer_concat fmt bs) = bs \<and> buffer_has ch (length bs) (buffer_concat fmt bs) \<and>
   buffer_format (buffer_concat fmt bs) = fmt"
proof (induction bs)
  case Nil
  then show ?case by (cases fmt) auto
next
  case (Cons b bs)
  then show ?case using append_frames [of fmt ch b "buffer_concat fmt bs" "length bs"] by simp
qed

section \<open>The contract\<close>

lemma those_Some_iff: "those (map f xs) = Some ys \<longleftrightarrow> list_all2 (\<lambda>x y. f x = Some y) xs ys"
  by (induction xs arbitrary: ys) (auto simp: list_all2_Cons1 split: option.splits)

lemma those_map_bind: "those (map (\<lambda>x. Option.bind (f x) g) xs) = Option.bind (those (map f xs)) (\<lambda>ys. those (map g ys))"
proof (induction xs)
  case (Cons x xs)
  show ?case
  proof (cases "f x")
    case (Some y)
    then show ?thesis using Cons.IH by (cases "those (map f xs)") (auto split: option.splits)
  qed simp
qed simp

lemma those_append: "those (xs @ ys) = Option.bind (those xs) (\<lambda>a. map_option ((@) a) (those ys))"
  by (cases "those ys"; induction xs) (auto split: option.splits Option.bind_splits)

text \<open>\<open>F buf n\<close> converts \<open>n\<close> frames; \<open>ok\<close> bounds the blocks (some loops count in 32 bits).\<close>

locale framewise =
  fixes F :: "pcm_buffer \<Rightarrow> nat \<Rightarrow> pcm_buffer option" and fmtIn fmtOut :: ma_format and chIn chOut :: nat and ok :: "nat \<Rightarrow> bool"
  assumes frames: "buffer_format b = fmtIn \<Longrightarrow> buffer_has chIn n b \<Longrightarrow> ok n \<Longrightarrow>
      F b n = map_option (buffer_concat fmtOut) (those (map (\<lambda>f. F f 1) (buffer_frames chIn n b)))"
    and frame: "is_frame fmtIn chIn f \<Longrightarrow> F f 1 = Some g \<Longrightarrow> is_frame fmtOut chOut g"
    and known: "fmtOut \<noteq> ma_format_unknown"
begin

lemma frames_out:
  assumes "list_all2 (\<lambda>f g. F f 1 = Some g) fs gs" "\<forall>f \<in> set fs. is_frame fmtIn chIn f"
  shows "(\<forall>g \<in> set gs. is_frame fmtOut chOut g) \<and> length gs = length fs"
  using assms by (induction fs gs rule: list_all2_induct) (auto dest: frame)

lemma result:
  assumes "buffer_format b = fmtIn" "buffer_has chIn n b" "ok n" "F b n = Some out"
  shows "buffer_format out = fmtOut \<and> buffer_has chOut n out \<and> those (map (\<lambda>f. F f 1) (buffer_frames chIn n b)) = Some (buffer_frames chOut n out)"
proof -
  obtain bs where bs: "those (map (\<lambda>f. F f 1) (buffer_frames chIn n b)) = Some bs" "out = buffer_concat fmtOut bs"
    using assms(4) unfolding frames [OF assms(1-3)] by auto
  have "list_all2 (\<lambda>f g. F f 1 = Some g) (buffer_frames chIn n b) bs" using bs(1) by (simp only: those_Some_iff)
  moreover have "\<forall>f \<in> set (buffer_frames chIn n b). is_frame fmtIn chIn f" using buffer_frames_are [OF assms(2)] assms(1) by blast
  ultimately have "\<forall>g \<in> set bs. is_frame fmtOut chOut g" "length bs = n" using frames_out by fastforce+
  then show ?thesis using concat_frames [OF known, of bs chOut] bs by simp
qed

text \<open>Pieces of a block, one after the other.\<close>

lemma split:
  assumes "buffer_format b = fmtIn" "buffer_has chIn (m + n) b" "ok m" "ok n" "ok (m + n)"
  shows "F b (m + n) = Option.bind (F b m) (\<lambda>x. map_option (buffer_append x) (F (drop_samples (m * chIn) b) n))"
proof -
  let ?c = "drop_samples (m * chIn) b"
  have h: "buffer_has chIn m b" "buffer_has chIn n ?c" using buffer_has_mono [OF assms(2)] buffer_has_drop [OF assms(2)] by simp_all
  have c: "buffer_format ?c = fmtIn" using assms(1) by simp
  let ?those = "\<lambda>fs. those (map (\<lambda>f. F f 1) fs)"
  have "buffer_concat fmtOut (xs @ ys) = buffer_append (buffer_concat fmtOut xs) (buffer_concat fmtOut ys)"
    if "?those (buffer_frames chIn m b) = Some xs" "?those (buffer_frames chIn n ?c) = Some ys" for xs ys
  proof (rule buffer_concat_append [OF known])
    have "\<forall>g \<in> set xs. is_frame fmtOut chOut g"
      using frames_out [of "buffer_frames chIn m b" xs] that(1) buffer_frames_are [OF h(1)] assms(1) by (auto simp: those_Some_iff)
    moreover have "\<forall>g \<in> set ys. is_frame fmtOut chOut g"
      using frames_out [of "buffer_frames chIn n ?c" ys] that(2) buffer_frames_are [OF h(2)] c by (auto simp: those_Some_iff)
    ultimately show "\<forall>g \<in> set (xs @ ys). buffer_format g = fmtOut" using is_frame_has by auto
  qed
  then show ?thesis
    unfolding frames [OF assms(1,2,5)] frames [OF assms(1) h(1) assms(3)] frames [OF c h(2) assms(4)] buffer_frames_add map_append those_append
    by (auto simp: bind_map_option option.map_comp comp_def split: Option.bind_splits option.splits
        intro!: option.map_cong simp flip: One_nat_def)
qed

lemma none: "ok 0 \<Longrightarrow> buffer_format b = fmtIn \<Longrightarrow> F b 0 = Some (empty_buffer fmtOut)"
  using frames [of b 0] by (cases b) simp_all

end

text \<open>One stage after another.\<close>

lemma framewise_seq:
  assumes "framewise F a b ca cb ok" "framewise G b c cb cc ok"
  shows "framewise (\<lambda>x n. Option.bind (F x n) (\<lambda>y. G y n)) a c ca cc ok"
proof (rule framewise.intro)
  show "c \<noteq> ma_format_unknown" by (rule framewise.known [OF assms(2)])
next
  fix f g
  assume "is_frame a ca f" "Option.bind (F f 1) (\<lambda>y. G y 1) = Some g"
  then show "is_frame c cc g"
    using framewise.frame [OF assms(1)] framewise.frame [OF assms(2)] by (auto simp: bind_eq_Some_conv)
next
  fix x n
  assume x: "buffer_format x = a" "buffer_has ca n x" "ok n"
  show "Option.bind (F x n) (\<lambda>y. G y n) =
    map_option (buffer_concat c) (those (map (\<lambda>f. Option.bind (F f 1) (\<lambda>y. G y 1)) (buffer_frames ca n x)))"
  proof (cases "F x n")
    case None
    then have "those (map (\<lambda>f. F f 1) (buffer_frames ca n x)) = None" using framewise.frames [OF assms(1) x] by simp
    then show ?thesis using None by (simp add: those_map_bind)
  next
    case (Some y)
    then show ?thesis
      using framewise.result [OF assms(1) x Some] framewise.frames [OF assms(2), of y n] x(3) by (simp add: those_map_bind)
  qed
qed

end
