(* ===== verification/Ma_Stages.thy ===== *)
theory Ma_Stages
  imports Ma_Framewise
begin

text \<open>
  The stages of the data converter of miniaudio (\<open>client/native/miniaudio.h\<close>) meet the contract \<open>framewise\<close>: the
  conversions of format without dither and the channel converter on each of its paths.
\<close>

section \<open>Buffers as lists\<close>

text \<open>A constructor of buffers: its format and how many elements make a sample.\<close>

locale carrier =
  fixes C :: "'a list \<Rightarrow> pcm_buffer" and fmt :: ma_format and w :: nat
  assumes format: "buffer_format (C xs) = fmt"
    and elements: "buffer_format b = fmt \<Longrightarrow> \<exists>xs. b = C xs"
    and has: "buffer_has ch n (C xs) \<longleftrightarrow> n * (ch * w) \<le> length xs"
    and frames: "buffer_frames ch n (C xs) = map C (frames_of (ch * w) n xs)"
    and frame: "is_frame f ch (C xs) \<longleftrightarrow> f = fmt \<and> length xs = ch * w"
    and append: "buffer_append (C xs) (C ys) = C (xs @ ys)"
    and empty: "empty_buffer fmt = C []"
    and shift: "drop_samples n (C xs) = C (drop (n * w) xs)"
begin

lemma concat: "buffer_concat fmt (map C xss) = C (concat xss)"
  by (induction xss) (simp_all add: empty append)

lemma known: "fmt \<noteq> ma_format_unknown"
  using format [of "[]"] by (cases "C []") auto

end

interpretation c_u8: carrier PU8 ma_format_u8 1
  by unfold_locales (auto elim: buffer_format.elims)

interpretation c_s16: carrier PS16 ma_format_s16 1
  by unfold_locales (auto elim: buffer_format.elims)

interpretation c_s24: carrier PS24 ma_format_s24 3
  by unfold_locales (auto elim: buffer_format.elims)

interpretation c_s32: carrier PS32 ma_format_s32 1
  by unfold_locales (auto elim: buffer_format.elims)

interpretation c_f32: carrier PF32 ma_format_f32 1
  by unfold_locales (auto elim: buffer_format.elims)

unbundle bit_operations_syntax

text \<open>A conversion that takes a list frame by frame.\<close>

lemma those_map_then: "those (map (\<lambda>x. map_option h (f x)) xs) = map_option (map h) (those (map f xs))"
proof (induction xs)
  case (Cons x xs)
  then show ?case by (cases "f x") (simp_all add: option.map_comp comp_def)
qed simp

lemma frames_of_self: "length xs = k \<Longrightarrow> frames_of k 1 xs = [xs]"
  by simp

lemma framewise_lists:
  assumes C: "carrier C fmtIn w" and D: "carrier D fmtOut w'"
    and F: "\<And>xs n. n * (chIn * w) \<le> length xs \<Longrightarrow> ok n \<Longrightarrow>
      F (C xs) n = map_option (\<lambda>yss. D (concat yss)) (those (map g (frames_of (chIn * w) n xs)))"
    and g: "\<And>x y. length x = chIn * w \<Longrightarrow> g x = Some y \<Longrightarrow> length y = chOut * w'"
    and ok: "ok 1"
  shows "framewise F fmtIn fmtOut chIn chOut ok"
proof (rule framewise.intro)
  show "fmtOut \<noteq> ma_format_unknown" by (rule carrier.known [OF D])
  have one: "F (C x) 1 = map_option D (g x)" if "length x = chIn * w" for x
    using F [OF _ ok, of x] that by (cases "g x") simp_all
  fix b n f h
  {
    assume "is_frame fmtIn chIn f" "F f 1 = Some h"
    moreover from this obtain x where "f = C x" using carrier.elements [OF C] is_frame_has by blast
    ultimately show "is_frame fmtOut chOut h"
      using one [of x] g [of x] carrier.frame [OF C] carrier.frame [OF D] by (cases "g x") auto
  next
    assume b: "buffer_format b = fmtIn" "buffer_has chIn n b" "ok n"
    obtain xs where xs: "b = C xs" using carrier.elements [OF C b(1)] by blast
    have len: "n * (chIn * w) \<le> length xs" using b(2) unfolding xs carrier.has [OF C] .
    have "those (map (\<lambda>f. F f 1) (buffer_frames chIn n b)) = those (map (\<lambda>x. map_option D (g x)) (frames_of (chIn * w) n xs))"
      unfolding xs carrier.frames [OF C] list.map_comp comp_def
      by (intro arg_cong [where f = those] map_cong) (auto simp: one [unfolded One_nat_def] dest: frames_of_length [OF len])
    also have "\<dots> = map_option (map D) (those (map g (frames_of (chIn * w) n xs)))"
      by (rule those_map_then)
    finally show "F b n = map_option (buffer_concat fmtOut) (those (map (\<lambda>f. F f 1) (buffer_frames chIn n b)))"
      unfolding xs F [OF len b(3)] by (simp add: option.map_comp comp_def carrier.concat [OF D])
  }
qed

section \<open>Samples and frames\<close>

lemma frames_of_take: "frames_of w k (take (k * w) xs) = frames_of w k xs"
  by (induction w k xs rule: frames_of.induct) (simp_all add: drop_take)

lemma those_concat: "those (concat xss) = map_option concat (those (map those xss))"
proof (induction xss)
  case (Cons xs xss)
  then show ?case by (cases "those xs"; cases "those (map those xss)") (simp_all add: those_append)
qed simp

lemma buffer_frames_samples: "buffer_frames 1 (n * ch) b = concat (map (buffer_frames 1 ch) (buffer_frames ch n b))"
proof (induction n arbitrary: b)
  case 0
  then show ?case by (cases b) simp_all
next
  case (Suc n)
  have "buffer_frames 1 ch b = concat (map (buffer_frames 1 ch) (buffer_frames ch 1 b))"
    by (cases b) (simp_all add: frames_of_take [of 1, simplified] frames_of_take)
  then show ?case
    using buffer_frames_add [of 1 ch "n * ch" b] buffer_frames_add [of ch 1 n b] Suc.IH by simp
qed

lemma is_frame_append: "is_frame fmt k b \<Longrightarrow> is_frame fmt m c \<Longrightarrow> is_frame fmt (k + m) (buffer_append b c)"
  by (cases b; cases c) auto

lemma is_frame_concat:
  "fmt \<noteq> ma_format_unknown \<Longrightarrow> \<forall>b \<in> set bs. is_frame fmt k b \<Longrightarrow> is_frame fmt (length bs * k) (buffer_concat fmt bs)"
proof (induction bs)
  case Nil
  then show ?case by (cases fmt) auto
qed (auto intro: is_frame_append)

lemma buffer_concat_concat:
  "fmt \<noteq> ma_format_unknown \<Longrightarrow> \<forall>bs \<in> set bss. \<forall>b \<in> set bs. buffer_format b = fmt \<Longrightarrow>
   buffer_concat fmt (map (buffer_concat fmt) bss) = buffer_concat fmt (concat bss)"
proof (induction bss)
  case (Cons bs bss)
  have "buffer_concat fmt (bs @ concat bss) = buffer_append (buffer_concat fmt bs) (buffer_concat fmt (concat bss))"
    using Cons.prems by (intro buffer_concat_append) auto
  then show ?case using Cons by simp
qed simp

lemma buffer_has_samples: "buffer_has ch n b = buffer_has 1 (n * ch) b"
  by (cases b) (simp_all add: mult.assoc)

text \<open>What converts samples one by one converts frames of any number of them.\<close>

lemma framewise_channels:
  assumes G: "framewise G fmtIn fmtOut 1 1 few" and few: "\<And>n. ok n \<Longrightarrow> few (n * ch)" and one: "ok 1"
  shows "framewise (\<lambda>b n. G b (n * ch)) fmtIn fmtOut ch ch ok"
proof (rule framewise.intro)
  show known: "fmtOut \<noteq> ma_format_unknown" by (rule framewise.known [OF G])
  let ?samples = "\<lambda>f. those (map (\<lambda>x. G x 1) (buffer_frames 1 ch f))"
  have fch: "few ch" using few [OF one] by simp
  have G_frame: "G f ch = map_option (buffer_concat fmtOut) (?samples f) \<and> (\<forall>bs. ?samples f = Some bs \<longrightarrow>
      (\<forall>b \<in> set bs. is_frame fmtOut 1 b) \<and> length bs = ch)" if "is_frame fmtIn ch f" for f
  proof -
    have f: "buffer_format f = fmtIn" "buffer_has 1 ch f"
      using is_frame_has [OF that] buffer_has_samples [of ch 1 f] by simp_all
    have "\<forall>x \<in> set (buffer_frames 1 ch f). is_frame fmtIn 1 x" using buffer_frames_are [OF f(2)] f(1) by blast
    then show ?thesis
      using framewise.frames [OF G f fch] framewise.frames_out [OF G, of "buffer_frames 1 ch f"] by (auto simp: those_Some_iff)
  qed
  fix b n f h
  {
    assume "is_frame fmtIn ch f" "G f (1 * ch) = Some h"
    then obtain bs where "h = buffer_concat fmtOut bs" "\<forall>b \<in> set bs. is_frame fmtOut 1 b" "length bs = ch"
      using G_frame by auto
    then show "is_frame fmtOut ch h" using is_frame_concat [OF known, of bs 1] by simp
  next
    assume b: "buffer_format b = fmtIn" "buffer_has ch n b" "ok n"
    let ?fs = "buffer_frames ch n b"
    have fs: "\<forall>f \<in> set ?fs. is_frame fmtIn ch f" using buffer_frames_are [OF b(2)] b(1) by blast
    have "G b (n * ch) = map_option (buffer_concat fmtOut) (those (map (\<lambda>x. G x 1) (buffer_frames 1 (n * ch) b)))"
      by (rule framewise.frames [OF G b(1) _ few [OF b(3)]]) (use b(2) buffer_has_samples in blast)
    also have "map (\<lambda>x. G x 1) (buffer_frames 1 (n * ch) b) = concat (map (\<lambda>f. map (\<lambda>x. G x 1) (buffer_frames 1 ch f)) ?fs)"
      unfolding buffer_frames_samples map_concat list.map_comp comp_def ..
    also have "map_option (buffer_concat fmtOut) (those \<dots>) = map_option (\<lambda>bss. buffer_concat fmtOut (concat bss)) (those (map ?samples ?fs))"
      unfolding those_concat option.map_comp list.map_comp comp_def ..
    also have "\<dots> = map_option (\<lambda>bss. buffer_concat fmtOut (map (buffer_concat fmtOut) bss)) (those (map ?samples ?fs))"
    proof (rule option.map_cong0)
      fix bss assume "bss \<in> set_option (those (map ?samples ?fs))"
      then have "list_all2 (\<lambda>f bs. ?samples f = Some bs) ?fs bss" by (simp add: those_Some_iff)
      then have "\<forall>bs \<in> set bss. \<exists>f \<in> set ?fs. ?samples f = Some bs"
        by (induction rule: list_all2_induct) auto
      then have "\<forall>bs \<in> set bss. \<forall>b \<in> set bs. buffer_format b = fmtOut"
        using fs G_frame is_frame_has by blast
      then show "buffer_concat fmtOut (concat bss) = buffer_concat fmtOut (map (buffer_concat fmtOut) bss)"
        using buffer_concat_concat [OF known] by simp
    qed
    also have "\<dots> = map_option (buffer_concat fmtOut) (those (map (\<lambda>f. map_option (buffer_concat fmtOut) (?samples f)) ?fs))"
      by (simp add: those_map_then option.map_comp comp_def)
    also have "map (\<lambda>f. map_option (buffer_concat fmtOut) (?samples f)) ?fs = map (\<lambda>f. G f (1 * ch)) ?fs"
      using fs G_frame by simp
    finally show "G b (n * ch) = map_option (buffer_concat fmtOut) (those (map (\<lambda>f. G f (1 * ch)) ?fs))" .
  }
qed

section \<open>Conversions of format without dither\<close>

text \<open>Without dither the generator is not used.\<close>

definition plain_convert :: "ma_format \<Rightarrow> pcm_buffer \<Rightarrow> nat \<Rightarrow> pcm_buffer option" where
  "plain_convert fmt b n = (case ma_pcm_convert fmt b n ma_dither_mode_none 0 of Some (Some out, st) \<Rightarrow> Some out | _ \<Rightarrow> None)"

lemma try_lcg_stateless:
  "(\<And>i st. i \<in> set is \<Longrightarrow> f i st = map_option (\<lambda>v. (v, st)) (h i)) \<Longrightarrow>
   try_lcg f is st = map_option (\<lambda>vs. (vs, st)) (those (map h is))"
proof (induction "is")
  case (Cons i "is")
  then show ?case by (cases "h i"; cases "those (map h is)") simp_all
qed simp

definition f32_to_u8_one :: "f32 \<Rightarrow> u8 option" where
  "f32_to_u8_one y =
     map_option word_of_int (fp_to_int 0 255 (fp_mul f32 (fp_add f32 (clip (fp_add f32 y (Fin 0))) (Fin 1)) (Fin (255 / 2))))"

lemma f32_to_u8_plain:
  "ma_pcm_f32_to_u8 xs n ma_dither_mode_none st = map_option (\<lambda>ys. (ys, st)) (those (map (\<lambda>i. f32_to_u8_one (xs ! i)) [0..<n]))"
  unfolding ma_pcm_f32_to_u8_def
  by (simp add: ma_dither_f32_def Let_def f32_to_u8_one_def option.map_comp comp_def try_lcg_stateless [where h = "\<lambda>i. f32_to_u8_one (xs ! i)"])

text \<open>From \<open>f32\<close> to \<open>s16\<close> a sample has a result of its own within \<open>[-1, 1]\<close> only: outside, the vector
  units differ from the scalar code, and the result depends on how the samples fall into blocks.\<close>

definition s16_in_unit :: "f32 \<Rightarrow> i16 option" where
  "s16_in_unit y = (if in_unit y then f32_to_s16_one y (Fin 0) else None)"

lemma those_guarded: "those (map (\<lambda>x. if P x then f x else None) xs) = (if list_all P xs then those (map f xs) else None)"
proof (induction xs)
  case (Cons x xs)
  then show ?case by (cases "f x") simp_all
qed simp

lemma f32_to_s16_plain:
  "(if portable_s16 ma_dither_mode_none xs n then stored C (ma_pcm_f32_to_s16 scalar_unit id False xs n ma_dither_mode_none st) else None) =
     map_option (\<lambda>ys. (Some (C ys), st)) (those (map (\<lambda>i. s16_in_unit (xs ! i)) [0..<n]))"
  unfolding ma_pcm_f32_to_s16_def vector_unit.case f32_to_s16_unrolled ma_pcm_f32_to_s16__reference_def
  by (simp add: ma_dither_f32_def Let_def f32_to_s16_one_def option.map_comp comp_def s16_in_unit_def those_guarded portable_s16_def
      try_lcg_stateless [where h = "\<lambda>i. f32_to_s16_one (xs ! i) (Fin 0)"])

lemma f32_to_s32_plain:
  assumes "unat n < 2 ^ 32"
  shows "ma_pcm_f32_to_s32 xs n = those (map (\<lambda>i. f32_to_s32_sample (xs ! i)) [0..<unat n])"
proof -
  have "map (\<lambda>j. if j < unat n then vs ! (j - 0) else 0) [0..<unat n] = vs" if "length vs = unat n" for vs :: "i32 list"
    using that by (intro nth_equalityI) simp_all
  then show ?thesis
    using f32_to_s32_loop_result [OF assms, of 0 0 xs "\<lambda>_. 0"] those_Some_length [of "map (\<lambda>i. f32_to_s32_sample (xs ! i)) [0..<unat n]"]
    by (cases "those (map (\<lambda>i. f32_to_s32_sample (xs ! i)) [0..<unat n])") (simp_all add: ma_pcm_f32_to_s32_def)
qed

lemma plain_convert_stage:
  "convert_stage fmt b n chans ma_dither_mode_none st =
     map_option (\<lambda>out. (out, st)) (plain_convert fmt b (unat (of_nat n * ucast chans :: u64)))"
  unfolding convert_stage_def ma_convert_pcm_frames_format_def plain_convert_def ma_pcm_convert_def
  by (cases b; cases fmt)
    (auto simp: ma_pcm_s16_to_u8_def ma_pcm_s24_to_u8_def ma_pcm_s24_to_s16_def ma_pcm_s32_to_u8_def ma_pcm_s32_to_s16_def
      f32_to_u8_plain f32_to_s16_plain split: option.splits)

text \<open>A loop over samples: the element at \<open>i\<close> depends on the elements of sample \<open>i\<close> only.\<close>

lemma samplewise:
  fixes h :: "'a list \<Rightarrow> nat \<Rightarrow> 'b list option"
  assumes C: "carrier C fmtIn w" and D: "carrier D fmtOut w'"
    and F: "\<And>xs n. few n \<Longrightarrow> F (C xs) n = map_option (\<lambda>yss. D (concat yss)) (those (map (h xs) [0..<n]))"
    and own: "\<And>xs n i. i < n \<Longrightarrow> n * w \<le> length xs \<Longrightarrow> h xs i = h (take w (drop (i * w) xs)) 0"
    and size: "\<And>x y. h x 0 = Some y \<Longrightarrow> length y = w'" and one: "few 1"
  shows "framewise F fmtIn fmtOut 1 1 few"
proof (rule framewise_lists [where g = "\<lambda>x. h x 0" and chIn = 1 and chOut = 1 and ok = few, OF C D _ _ one])
  fix xs :: "'a list" and n
  assume n: "n * (1 * w) \<le> length xs" "few n"
  have "map (h xs) [0..<n] = map (\<lambda>x. h x 0) (frames_of w n xs)"
    using own n(1) by (intro nth_equalityI) (simp_all add: frames_of_nth)
  then show "F (C xs) n = map_option (\<lambda>yss. D (concat yss)) (those (map (\<lambda>x. h x 0) (frames_of (1 * w) n xs)))"
    using F [OF n(2)] by simp
qed (use size in simp)

lemma those_each: "those (map (\<lambda>i. Some (f i)) is) = Some (map f is)"
  by (rule those_map_Some) simp

lemma those_single: "map_option (\<lambda>yss. D (concat yss)) (those (map (\<lambda>i. map_option (\<lambda>y. [y]) (f i)) is)) = map_option D (those (map f is))"
  by (simp add: those_map_then option.map_comp comp_def concat_map_singleton)

lemmas plain_defs = plain_convert_def ma_pcm_convert_def f32_to_u8_plain f32_to_s16_plain those_each

lemma u8_s16_samplewise: "few 1 \<Longrightarrow> framewise (plain_convert ma_format_s16) ma_format_u8 ma_format_s16 1 1 few"
  by (rule samplewise [OF c_u8.carrier_axioms c_s16.carrier_axioms,
      where h = "\<lambda>xs i. Some [push_bit 8 (ucast (xs ! i) - 128)]"])
    (auto simp: plain_defs ma_pcm_u8_to_s16_def hd_drop_conv_nth Let_def)

lemma u8_f32_samplewise: "few 1 \<Longrightarrow> framewise (plain_convert ma_format_f32) ma_format_u8 ma_format_f32 1 1 few"
  by (rule samplewise [OF c_u8.carrier_axioms c_f32.carrier_axioms,
      where h = "\<lambda>xs i. Some [fp_sub f32 (fp_mul f32 (f32 (of_nat (unat (xs ! i)))) (f32 (784313725490196078 / 10 ^ 20))) (Fin 1)]"])
    (auto simp: plain_defs ma_pcm_u8_to_f32_def hd_drop_conv_nth Let_def)

lemma s16_u8_samplewise: "few 1 \<Longrightarrow> framewise (plain_convert ma_format_u8) ma_format_s16 ma_format_u8 1 1 few"
  by (rule samplewise [OF c_s16.carrier_axioms c_u8.carrier_axioms,
      where h = "\<lambda>xs i. Some [ucast (signed_drop_bit 8 (xs ! i) + 128)]"])
    (auto simp: plain_defs ma_pcm_s16_to_u8_def hd_drop_conv_nth Let_def)

lemma s16_s24_samplewise: "few 1 \<Longrightarrow> framewise (plain_convert ma_format_s24) ma_format_s16 ma_format_s24 1 1 few"
  by (rule samplewise [OF c_s16.carrier_axioms c_s24.carrier_axioms,
      where h = "\<lambda>xs i. Some [0, ucast (xs ! i AND 0xFF), ucast (signed_drop_bit 8 (xs ! i))]"])
    (auto simp: plain_defs ma_pcm_s16_to_s24_def hd_drop_conv_nth Let_def)

lemma s16_s32_samplewise: "few 1 \<Longrightarrow> framewise (plain_convert ma_format_s32) ma_format_s16 ma_format_s32 1 1 few"
  by (rule samplewise [OF c_s16.carrier_axioms c_s32.carrier_axioms,
      where h = "\<lambda>xs i. Some [push_bit 16 (scast (xs ! i))]"])
    (auto simp: plain_defs ma_pcm_s16_to_s32_def hd_drop_conv_nth Let_def)

lemma s16_f32_samplewise: "few 1 \<Longrightarrow> framewise (plain_convert ma_format_f32) ma_format_s16 ma_format_f32 1 1 few"
  by (rule samplewise [OF c_s16.carrier_axioms c_f32.carrier_axioms,
      where h = "\<lambda>xs i. Some [fp_mul f32 (f32 (of_int (sint (xs ! i)))) (f32 (30517578125 / 10 ^ 15))]"])
    (auto simp: plain_defs ma_pcm_s16_to_f32_def hd_drop_conv_nth Let_def)

lemma s24_s16_samplewise: "few 1 \<Longrightarrow> framewise (plain_convert ma_format_s16) ma_format_s24 ma_format_s16 1 1 few"
  by (rule samplewise [OF c_s24.carrier_axioms c_s16.carrier_axioms,
      where h = "\<lambda>xs i. Some [ucast (xs ! (i * 3 + 1)) OR push_bit 8 (ucast (xs ! (i * 3 + 2)))]"])
    (auto simp: plain_defs ma_pcm_s24_to_s16_def hd_drop_conv_nth Let_def)

lemma s24_f32_samplewise: "few 1 \<Longrightarrow> framewise (plain_convert ma_format_f32) ma_format_s24 ma_format_f32 1 1 few"
  by (rule samplewise [OF c_s24.carrier_axioms c_f32.carrier_axioms,
      where h = "\<lambda>xs i. Some [fp_mul f32 (f32 (of_int (sint (signed_drop_bit 8 (s24_at xs i))))) (f32 (11920928955078125 / 10 ^ 23))]"])
    (auto simp: plain_defs ma_pcm_s24_to_f32_def s24_at_def hd_drop_conv_nth Let_def)

lemma s32_s16_samplewise: "few 1 \<Longrightarrow> framewise (plain_convert ma_format_s16) ma_format_s32 ma_format_s16 1 1 few"
  by (rule samplewise [OF c_s32.carrier_axioms c_s16.carrier_axioms,
      where h = "\<lambda>xs i. Some [ucast (signed_drop_bit 16 (xs ! i))]"])
    (auto simp: plain_defs ma_pcm_s32_to_s16_def hd_drop_conv_nth Let_def)

lemma s32_f32_samplewise: "few 1 \<Longrightarrow> framewise (plain_convert ma_format_f32) ma_format_s32 ma_format_f32 1 1 few"
  by (rule samplewise [OF c_s32.carrier_axioms c_f32.carrier_axioms,
      where h = "\<lambda>xs i. Some [fp_cast f32 (fp_divc f64 (f64 (of_int (sint (xs ! i)))) 2147483648)]"])
    (auto simp: plain_defs ma_pcm_s32_to_f32_def hd_drop_conv_nth Let_def)

lemma u8_s24_samplewise: "few 1 \<Longrightarrow> framewise (plain_convert ma_format_s24) ma_format_u8 ma_format_s24 1 1 few"
  by (rule samplewise [OF c_u8.carrier_axioms c_s24.carrier_axioms,
      where h = "\<lambda>xs i. Some [0, 0, ucast (ucast (xs ! i) - 128 :: i16)]"])
    (auto simp: plain_defs ma_pcm_u8_to_s24_def hd_drop_conv_nth Let_def)

lemma u8_s32_samplewise: "few 1 \<Longrightarrow> framewise (plain_convert ma_format_s32) ma_format_u8 ma_format_s32 1 1 few"
  by (rule samplewise [OF c_u8.carrier_axioms c_s32.carrier_axioms,
      where h = "\<lambda>xs i. Some [push_bit 24 (ucast (xs ! i) - 128)]"])
    (auto simp: plain_defs ma_pcm_u8_to_s32_def hd_drop_conv_nth Let_def)

lemma s24_u8_samplewise: "few 1 \<Longrightarrow> framewise (plain_convert ma_format_u8) ma_format_s24 ma_format_u8 1 1 few"
  by (rule samplewise [OF c_s24.carrier_axioms c_u8.carrier_axioms,
      where h = "\<lambda>xs i. Some [xs ! (i * 3 + 2) + 128]"])
    (auto simp: plain_defs ma_pcm_s24_to_u8_def hd_drop_conv_nth Let_def)

lemma s24_s32_samplewise: "few 1 \<Longrightarrow> framewise (plain_convert ma_format_s32) ma_format_s24 ma_format_s32 1 1 few"
  by (rule samplewise [OF c_s24.carrier_axioms c_s32.carrier_axioms,
      where h = "\<lambda>xs i. Some [s24_at xs i]"])
    (auto simp: plain_defs ma_pcm_s24_to_s32_def s24_at_def hd_drop_conv_nth Let_def)

lemma s32_u8_samplewise: "few 1 \<Longrightarrow> framewise (plain_convert ma_format_u8) ma_format_s32 ma_format_u8 1 1 few"
  by (rule samplewise [OF c_s32.carrier_axioms c_u8.carrier_axioms,
      where h = "\<lambda>xs i. Some [ucast (signed_drop_bit 24 (xs ! i) + 128)]"])
    (auto simp: plain_defs ma_pcm_s32_to_u8_def hd_drop_conv_nth Let_def)

lemma s32_s24_samplewise: "few 1 \<Longrightarrow> framewise (plain_convert ma_format_s24) ma_format_s32 ma_format_s24 1 1 few"
  by (rule samplewise [OF c_s32.carrier_axioms c_s24.carrier_axioms,
      where h = "\<lambda>xs i. Some [ucast (drop_bit 8 (xs ! i AND 0x0000FF00)), ucast (drop_bit 16 (xs ! i AND 0x00FF0000)),
         ucast (drop_bit 24 (xs ! i AND 0xFF000000))]"])
    (auto simp: plain_defs ma_pcm_s32_to_s24_def hd_drop_conv_nth Let_def)

lemma f32_u8_samplewise: "few 1 \<Longrightarrow> framewise (plain_convert ma_format_u8) ma_format_f32 ma_format_u8 1 1 few"
  by (rule samplewise [OF c_f32.carrier_axioms c_u8.carrier_axioms,
      where h = "\<lambda>xs i. map_option (\<lambda>y. [y]) (f32_to_u8_one (xs ! i))"])
    (auto simp: plain_defs those_map_then concat_map_singleton hd_drop_conv_nth Let_def split: option.splits)

lemma f32_s16_samplewise: "few 1 \<Longrightarrow> framewise (plain_convert ma_format_s16) ma_format_f32 ma_format_s16 1 1 few"
  by (rule samplewise [OF c_f32.carrier_axioms c_s16.carrier_axioms,
      where h = "\<lambda>xs i. map_option (\<lambda>y. [y]) (s16_in_unit (xs ! i))"])
    (auto simp: plain_defs those_map_then concat_map_singleton hd_drop_conv_nth Let_def split: option.splits)


lemma f32_s24_samplewise: "few 1 \<Longrightarrow> framewise (plain_convert ma_format_s24) ma_format_f32 ma_format_s24 1 1 few"
  by (rule samplewise [OF c_f32.carrier_axioms c_s24.carrier_axioms, where h = "\<lambda>xs i. map_option
       (\<lambda>v. let r = word_of_int v :: i32 in [ucast (drop_bit 0 (r AND 0x0000FF)), ucast (drop_bit 8 (r AND 0x00FF00)),
          ucast (drop_bit 16 (r AND 0xFF0000))]) (fp_to_int (- 0x80000000) 0x7FFFFFFF (fp_mul f32 (clip (xs ! i)) (Fin 8388607)))"])
    (auto simp: plain_defs ma_pcm_f32_to_s24_def option.map_comp comp_def hd_drop_conv_nth Let_def split: option.splits)

lemma f32_s32_samplewise:
  assumes "few 1" "\<And>n. few n \<Longrightarrow> n < 2 ^ 32"
  shows "framewise (plain_convert ma_format_s32) ma_format_f32 ma_format_s32 1 1 few"
proof (rule samplewise [OF c_f32.carrier_axioms c_s32.carrier_axioms, where h = "\<lambda>xs i. map_option (\<lambda>y. [y]) (f32_to_s32_sample (xs ! i))"])
  fix xs n
  assume "few n"
  then have n: "unat (of_nat n :: u64) = n" using assms(2) [of n] by (simp add: unat_of_nat take_bit_nat_eq_self)
  have "unat (of_nat n :: u64) < 2 ^ 32" unfolding n using assms(2) \<open>few n\<close> .
  then show "plain_convert ma_format_s32 (PF32 xs) n =
      map_option (\<lambda>yss. PS32 (concat yss)) (those (map (\<lambda>i. map_option (\<lambda>y. [y]) (f32_to_s32_sample (xs ! i))) [0..<n]))"
    using f32_to_s32_plain [of "of_nat n" xs] unfolding n
    by (auto simp: plain_convert_def ma_pcm_convert_def those_map_then concat_map_singleton split: option.splits)
qed (use assms in \<open>auto simp: hd_drop_conv_nth\<close>)

lemmas samplewise_rules = u8_s24_samplewise u8_s32_samplewise s24_u8_samplewise s24_s32_samplewise s32_u8_samplewise s32_s24_samplewise
  u8_s16_samplewise u8_f32_samplewise s16_u8_samplewise s16_s24_samplewise s16_s32_samplewise s16_f32_samplewise
  s24_s16_samplewise s24_f32_samplewise s32_s16_samplewise s32_f32_samplewise f32_u8_samplewise f32_s16_samplewise f32_s24_samplewise
  f32_s32_samplewise

lemma formats_samplewise:
  "a \<noteq> b \<Longrightarrow> a \<noteq> ma_format_unknown \<Longrightarrow> b \<noteq> ma_format_unknown \<Longrightarrow> few 1 \<Longrightarrow> (\<And>n. few n \<Longrightarrow> n < 2 ^ 32) \<Longrightarrow>
   framewise (plain_convert b) a b 1 1 few"
  by (cases a; cases b) (auto intro: samplewise_rules [unfolded One_nat_def])

text \<open>The blocks for which the theory is stated: four million frames, for which no 32-bit index wraps.\<close>

definition small_block :: "nat \<Rightarrow> bool" where
  "small_block n \<longleftrightarrow> n \<le> 2 ^ 22"

lemma small_samples: "small_block n \<Longrightarrow> ch \<le> 254 \<Longrightarrow> n * ch < 2 ^ 32"
  using mult_le_mono [of n "2 ^ 22" ch 254] by (simp add: small_block_def)

lemma formats_framewise:
  assumes "a \<noteq> b" "a \<noteq> ma_format_unknown" "b \<noteq> ma_format_unknown" "ch \<le> 254"
  shows "framewise (\<lambda>x n. plain_convert b x (n * ch)) a b ch ch small_block"
  by (rule framewise_channels [OF formats_samplewise [where few = "\<lambda>n. n < 2 ^ 32", OF assms(1-3)]])
    (use small_samples assms(4) in \<open>auto simp: small_block_def\<close>)

lemma stage_samples:
  fixes chans :: u32
  assumes "small_block n" "chans \<le> 254"
  shows "unat (of_nat n * ucast chans :: u64) = n * unat chans"
proof -
  have c: "unat chans \<le> 254" using assms(2) by (simp add: word_le_nat_alt)
  have "unat (of_nat n :: u64) = n" using assms(1) by (simp add: small_block_def unat_of_nat take_bit_nat_eq_self)
  then show ?thesis using small_samples [OF assms(1) c] by (simp add: unat_word_ariths unat_ucast_32_64)
qed

lemma convert_stage_plain:
  assumes "small_block n" "chans \<le> 254"
  shows "convert_stage fmt b n chans ma_dither_mode_none st = map_option (\<lambda>out. (out, st)) (plain_convert fmt b (n * unat chans))"
  unfolding plain_convert_stage stage_samples [OF assms] ..

text \<open>The conversions of a device that plays or records 16-bit samples on float hardware.\<close>

interpretation to_float: framewise "\<lambda>x n. plain_convert ma_format_f32 x (n * 1)" ma_format_s16 ma_format_f32 1 1 small_block
  by (rule formats_framewise) simp_all

interpretation from_float: framewise "\<lambda>x n. plain_convert ma_format_s16 x (n * 2)" ma_format_f32 ma_format_s16 2 2 small_block
  by (rule formats_framewise) simp_all

end
