(* ===== verification/Ma_Pipeline.thy ===== *)
theory Ma_Pipeline
  imports Ma_Stages
begin

text \<open>
  The data converter of miniaudio (\<open>client/native/miniaudio.h\<close>) between equal sample rates: the paths that convert formats and
  channels, in pieces through temporary buffers, compute what converting each frame alone computes.
\<close>

section \<open>The channel converter, frame by frame\<close>

text \<open>The result of a call that is given an empty output.\<close>

definition mixed :: "channel_converter \<Rightarrow> pcm_buffer \<Rightarrow> nat \<Rightarrow> pcm_buffer option" where
  "mixed cc b n =
     (case ma_channel_converter_process_pcm_frames (Some cc) (Some (empty_buffer (cc_format cc))) (Some b) (of_nat n) of
        Some (MA_SUCCESS, Some out) \<Rightarrow> Some out
      | _ \<Rightarrow> None)"

text \<open>A converter in one of the middle formats whose path fits its channels.\<close>

definition sound_mixer :: "channel_converter \<Rightarrow> bool" where
  "sound_mixer cc \<longleftrightarrow> cc_format cc \<in> {ma_format_s16, ma_format_f32} \<and> channelsIn cc \<le> 254 \<and> channelsOut cc \<le> 254 \<and> channelsOut cc \<noteq> 0 \<and>
     (case conversionPath cc of
        ma_channel_conversion_path_passthrough \<Rightarrow> channelsIn cc = channelsOut cc
      | ma_channel_conversion_path_mono_out \<Rightarrow> channelsOut cc = 1
      | ma_channel_conversion_path_mono_in \<Rightarrow> channelsIn cc = 1
      | ma_channel_conversion_path_shuffle \<Rightarrow> channelsIn cc = channelsOut cc
      | ma_channel_conversion_path_weights \<Rightarrow> True)"

text \<open>What becomes of a frame.\<close>

definition mix_frame_s16 :: "channel_converter \<Rightarrow> i16 list \<Rightarrow> i16 list option" where
  "mix_frame_s16 cc x =
     (case conversionPath cc of
        ma_channel_conversion_path_passthrough \<Rightarrow> Some x
      | ma_channel_conversion_path_mono_out \<Rightarrow> map_option (\<lambda>y. [y]) (mono_out_s16 (channelsIn cc) x)
      | ma_channel_conversion_path_mono_in \<Rightarrow> Some (spread (channelsOut cc) x)
      | ma_channel_conversion_path_shuffle \<Rightarrow> Some (shuffle_frame 0 (pShuffleTable cc) (channelsOut cc) (channelsIn cc) x)
      | ma_channel_conversion_path_weights \<Rightarrow> weighted_frame add_weighted_s16 0 (weights_s16 cc) (channelsOut cc) x)"

definition mix_frame_f32 :: "channel_converter \<Rightarrow> f32 list \<Rightarrow> f32 list option" where
  "mix_frame_f32 cc x =
     (case conversionPath cc of
        ma_channel_conversion_path_passthrough \<Rightarrow> Some x
      | ma_channel_conversion_path_mono_out \<Rightarrow> Some [mono_out_f32 (channelsIn cc) x]
      | ma_channel_conversion_path_mono_in \<Rightarrow> Some (spread (channelsOut cc) x)
      | ma_channel_conversion_path_shuffle \<Rightarrow> Some (shuffle_frame (Fin 0) (pShuffleTable cc) (channelsOut cc) (channelsIn cc) x)
      | ma_channel_conversion_path_weights \<Rightarrow>
          weighted_frame (\<lambda>w y x. Some (add_weighted_f32 w y x)) (Fin 0) (weights_f32 cc) (channelsOut cc) x)"

lemma run_stateless: "run_frames (stateless g) xs () = map_option (\<lambda>ys. (ys, ())) (those (map g xs))"
proof (induction xs)
  case (Cons x xs)
  then show ?case by (cases "g x"; cases "those (map g xs)") (simp_all add: stateless_def)
qed simp

lemma weighted_frames_those:
  "n < 2 ^ 32 \<Longrightarrow> weighted_frames g ch n xs = map_option concat (those (map g (frames_of ch (unat n) xs)))"
  unfolding weighted_frames_def by (subst frames_loop_run) (simp_all add: run_stateless option.map_comp comp_def)

lemma small_count:
  assumes "small_block n"
  shows "unat (of_nat n :: u64) = n" "(of_nat n :: u64) < 2 ^ 32"
proof -
  show n: "unat (of_nat n :: u64) = n" using assms by (simp add: small_block_def unat_of_nat take_bit_nat_eq_self)
  show "(of_nat n :: u64) < 2 ^ 32" using assms unfolding word_less_nat_alt n by (simp add: small_block_def)
qed

lemma small_indices:
  assumes "sound_mixer cc" "small_block n"
  shows "indices_fit cc (of_nat n)"
proof -
  have m: "max (unat (channelsIn cc)) (unat (channelsOut cc)) \<le> 254" "cc_format cc \<noteq> ma_format_s24"
    using assms(1) by (auto simp: sound_mixer_def word_le_nat_alt)
  show ?thesis
    using small_samples [OF assms(2) m(1)] m(2) unfolding indices_fit_def small_count(1) [OF assms(2)] by simp
qed

lemmas mixer_defs = mixed_def ma_channel_converter_process_pcm_frames_def ma_channel_converter_process_pcm_frames__passthrough_def
  ma_channel_converter_process_pcm_frames__mono_out_def ma_channel_converter_process_pcm_frames__mono_in_def
  ma_channel_converter_process_pcm_frames__shuffle_def ma_channel_map_apply_shuffle_table_def
  ma_channel_map_apply_shuffle_table_s16_def ma_channel_map_apply_shuffle_table_f32_def
  ma_channel_converter_process_pcm_frames__weights_def

lemma pass_frames: "those (map Some xss) = Some xss"
  by (induction xss) simp_all

lemma over_nothing [simp]: "over [] xs = xs"
  by (simp add: over_def)

lemmas mixer_frame_simps = Let_def sound_mixer_def per_frame_def those_each weighted_frames_those option.map_comp comp_def those_map_then
  concat_map_singleton stage_samples concat_frames_of

lemma mixed_s16:
  assumes "sound_mixer cc" "cc_format cc = ma_format_s16" "small_block n"
  shows "ma_channel_converter_process_pcm_frames (Some cc) (Some (PS16 [])) (Some (PS16 xs)) (of_nat n) =
    map_option (\<lambda>yss. (MA_SUCCESS, Some (PS16 (concat yss)))) (those (map (mix_frame_s16 cc) (frames_of (unat (channelsIn cc)) n xs)))"
  using assms small_count [OF assms(3)] small_indices [OF assms(1,3)]
  by (cases "conversionPath cc") (simp_all add: mixer_defs mix_frame_s16_def [abs_def] mixer_frame_simps)

lemma mixed_f32:
  assumes "sound_mixer cc" "cc_format cc = ma_format_f32" "small_block n"
  shows "ma_channel_converter_process_pcm_frames (Some cc) (Some (PF32 [])) (Some (PF32 xs)) (of_nat n) =
    map_option (\<lambda>yss. (MA_SUCCESS, Some (PF32 (concat yss)))) (those (map (mix_frame_f32 cc) (frames_of (unat (channelsIn cc)) n xs)))"
  using assms small_count [OF assms(3)] small_indices [OF assms(1,3)]
  by (cases "conversionPath cc") (simp_all add: mixer_defs mix_frame_f32_def [abs_def] mixer_frame_simps)

lemma length_weighted_frame: "weighted_frame add z w chs x = Some y \<Longrightarrow> length y = unat chs"
  by (auto simp: weighted_frame_def dest: those_Some_length)

lemma length_spread: "length x = 1 \<Longrightarrow> length (spread chs x) = unat chs"
  by (cases x) (simp_all add: spread_def concat_replicate_single)

lemma length_mix_frame:
  assumes "sound_mixer cc"
  shows "mix_frame_s16 cc x = Some y \<Longrightarrow> length x = unat (channelsIn cc) \<Longrightarrow> length y = unat (channelsOut cc)"
    and "mix_frame_f32 cc z = Some w \<Longrightarrow> length z = unat (channelsIn cc) \<Longrightarrow> length w = unat (channelsOut cc)"
  using assms
  by (auto simp: mix_frame_s16_def mix_frame_f32_def sound_mixer_def shuffle_frame_def length_spread
      split: ma_channel_conversion_path.splits dest: length_weighted_frame)

lemma mixer_framewise:
  assumes "sound_mixer cc"
  shows "framewise (mixed cc) (cc_format cc) (cc_format cc) (unat (channelsIn cc)) (unat (channelsOut cc)) small_block"
proof -
  have one: "small_block 1" by (simp add: small_block_def)
  consider "cc_format cc = ma_format_s16" | "cc_format cc = ma_format_f32" using assms by (auto simp: sound_mixer_def)
  then show ?thesis
  proof cases
    case 1
    show ?thesis unfolding 1
      by (rule framewise_lists [where g = "mix_frame_s16 cc" and chIn = "unat (channelsIn cc)" and chOut = "unat (channelsOut cc)"
            and ok = small_block, OF c_s16.carrier_axioms c_s16.carrier_axioms _ _ one])
        (use mixed_s16 [OF assms 1] length_mix_frame(1) [OF assms] 1 in \<open>auto simp: mixed_def split: option.splits\<close>)
  next
    case 2
    show ?thesis unfolding 2
      by (rule framewise_lists [where g = "mix_frame_f32 cc" and chIn = "unat (channelsIn cc)" and chOut = "unat (channelsOut cc)"
            and ok = small_block, OF c_f32.carrier_axioms c_f32.carrier_axioms _ _ one])
        (use mixed_f32 [OF assms 2] length_mix_frame(2) [OF assms] 2 in \<open>auto simp: mixed_def split: option.splits\<close>)
  qed
qed

lemma mixer_call:
  assumes "sound_mixer cc" "small_block n" "buffer_format b = cc_format cc"
  shows "ma_channel_converter_process_pcm_frames (Some cc) (Some (empty_buffer (cc_format cc))) (Some b) (of_nat n) =
    map_option (\<lambda>out. (MA_SUCCESS, Some out)) (mixed cc b n)"
proof -
  consider xs where "cc_format cc = ma_format_s16" "b = PS16 xs" | xs where "cc_format cc = ma_format_f32" "b = PF32 xs"
    using assms(1,3) by (cases b) (auto simp: sound_mixer_def)
  then show ?thesis
    by cases (use mixed_s16 [OF assms(1) _ assms(2)] mixed_f32 [OF assms(1) _ assms(2)] in \<open>auto simp: mixed_def split: option.splits\<close>)
qed

text \<open>The stereo down-mix and the spreading of one channel.\<close>

interpretation downmixer: framewise "mixed (plain_converter ma_channel_conversion_path_mono_out 2 1)" ma_format_s16 ma_format_s16 2 1 small_block
  using mixer_framewise [of "plain_converter ma_channel_conversion_path_mono_out 2 1"] by (simp add: plain_converter_def sound_mixer_def)

section \<open>The stages together\<close>

text \<open>A converter without resampler and dither whose stages fit each other.\<close>

definition sound_stages :: "ma_data_converter \<Rightarrow> bool" where
  "sound_stages c \<longleftrightarrow>
     (let cc = channelConverter c; mid = cc_format cc in
      dc_resampler c = None \<and> dc_ditherMode c = ma_dither_mode_none \<and> sound_mixer cc
      \<and> dc_formatIn c \<noteq> ma_format_unknown \<and> dc_formatOut c \<noteq> ma_format_unknown
      \<and> channelsIn cc = dc_channelsIn c \<and> channelsOut cc = dc_channelsOut c
      \<and> (case executionPath c of
           ma_data_converter_execution_path_passthrough \<Rightarrow> dc_formatIn c = dc_formatOut c \<and> dc_channelsIn c = dc_channelsOut c
         | ma_data_converter_execution_path_format_only \<Rightarrow> dc_formatIn c \<noteq> dc_formatOut c \<and> dc_channelsIn c = dc_channelsOut c
         | ma_data_converter_execution_path_channels_only \<Rightarrow>
             hasPreFormatConversion c = (dc_formatIn c \<noteq> mid) \<and> hasPostFormatConversion c = (dc_formatOut c \<noteq> mid)
         | _ \<Rightarrow> False))"

text \<open>A change of format of \<open>n\<close> frames, if one is needed.\<close>

definition reformat :: "ma_format \<Rightarrow> ma_format \<Rightarrow> nat \<Rightarrow> pcm_buffer \<Rightarrow> nat \<Rightarrow> pcm_buffer option" where
  "reformat a b ch x n = (if a \<noteq> b then plain_convert b x (n * ch) else Some x)"

definition pipeline :: "ma_data_converter \<Rightarrow> pcm_buffer \<Rightarrow> nat \<Rightarrow> pcm_buffer option" where
  "pipeline c x n =
     (let cc = channelConverter c; mid = cc_format cc in
      case executionPath c of
        ma_data_converter_execution_path_passthrough \<Rightarrow> Some (copy_samples x (n * unat (dc_channelsOut c)))
      | ma_data_converter_execution_path_format_only \<Rightarrow> plain_convert (dc_formatOut c) x (n * unat (dc_channelsIn c))
      | _ \<Rightarrow> do {
          x \<leftarrow> reformat (dc_formatIn c) mid (unat (dc_channelsIn c)) x n;
          x \<leftarrow> mixed cc x n;
          reformat mid (dc_formatOut c) (unat (dc_channelsOut c)) x n
        })"

lemma reformat_after:
  assumes F: "framewise F a b ci co small_block" and b: "b' \<noteq> ma_format_unknown" "co \<le> 254"
  shows "framewise (\<lambda>x n. Option.bind (F x n) (\<lambda>x. reformat b b' co x n)) a b' ci co small_block"
proof (cases "b = b'")
  case True
  then show ?thesis using F by (simp add: reformat_def)
next
  case False
  then show ?thesis
    using framewise_seq [OF F formats_framewise [OF False framewise.known [OF F] b]] by (simp add: reformat_def)
qed

lemma reformat_before:
  assumes F: "framewise F b c ci co small_block" and b: "a \<noteq> ma_format_unknown" "b \<noteq> ma_format_unknown" "ci \<le> 254"
  shows "framewise (\<lambda>x n. Option.bind (reformat a b ci x n) (\<lambda>x. F x n)) a c ci co small_block"
proof (cases "a = b")
  case True
  then show ?thesis using F by (simp add: reformat_def)
next
  case False
  then show ?thesis using framewise_seq [OF formats_framewise [OF False b] F] by (simp add: reformat_def)
qed

lemma copy_framewise:
  assumes "fmt \<noteq> ma_format_unknown"
  shows "framewise (\<lambda>x n. Some (copy_samples x (n * ch))) fmt fmt ch ch small_block"
proof -
  have one: "small_block 1" by (simp add: small_block_def)
  note defs = ma_pcm_u8_to_u8_def ma_pcm_s16_to_s16_def ma_pcm_s24_to_s24_def ma_pcm_s32_to_s32_def ma_pcm_f32_to_f32_def
    concat_frames_of pass_frames mult.assoc
  show ?thesis using assms
    by (cases fmt)
      (auto intro!: framewise_lists [where g = Some and chIn = ch and chOut = ch and ok = small_block, OF c_u8.carrier_axioms c_u8.carrier_axioms _ _ one]
        framewise_lists [where g = Some and chIn = ch and chOut = ch and ok = small_block, OF c_s16.carrier_axioms c_s16.carrier_axioms _ _ one]
        framewise_lists [where g = Some and chIn = ch and chOut = ch and ok = small_block, OF c_s24.carrier_axioms c_s24.carrier_axioms _ _ one]
        framewise_lists [where g = Some and chIn = ch and chOut = ch and ok = small_block, OF c_s32.carrier_axioms c_s32.carrier_axioms _ _ one]
        framewise_lists [where g = Some and chIn = ch and chOut = ch and ok = small_block, OF c_f32.carrier_axioms c_f32.carrier_axioms _ _ one]
        simp: defs)
qed

lemma pipeline_framewise:
  assumes "sound_stages c"
  shows "framewise (pipeline c) (dc_formatIn c) (dc_formatOut c) (unat (dc_channelsIn c)) (unat (dc_channelsOut c)) small_block"
proof -
  let ?cc = "channelConverter c"
  have s: "sound_mixer ?cc" "channelsIn ?cc = dc_channelsIn c" "channelsOut ?cc = dc_channelsOut c"
      "dc_formatIn c \<noteq> ma_format_unknown" "dc_formatOut c \<noteq> ma_format_unknown"
    using assms by (simp_all add: sound_stages_def Let_def)
  have ch: "unat (dc_channelsIn c) \<le> 254" "unat (dc_channelsOut c) \<le> 254" "cc_format ?cc \<noteq> ma_format_unknown"
    using s by (auto simp: sound_mixer_def word_le_nat_alt)
  show ?thesis
  proof (cases "executionPath c")
    case ma_data_converter_execution_path_passthrough
    then show ?thesis using assms copy_framewise [OF s(4)] by (simp add: pipeline_def [abs_def] sound_stages_def Let_def)
  next
    case ma_data_converter_execution_path_format_only
    then show ?thesis using assms formats_framewise [OF _ s(4,5) ch(1)] by (simp add: pipeline_def [abs_def] sound_stages_def Let_def)
  next
    case ma_data_converter_execution_path_channels_only
    then show ?thesis
      using reformat_before [OF reformat_after [OF mixer_framewise [OF s(1), unfolded s] s(5) ch(2)] s(4) ch(3,1)]
      by (simp add: pipeline_def [abs_def] Let_def)
  qed (use assms in \<open>simp_all add: sound_stages_def Let_def\<close>)
qed

lemma plain_convert_format:
  assumes "a \<noteq> b" "a \<noteq> ma_format_unknown" "b \<noteq> ma_format_unknown" "unat ch \<le> 254" "buffer_format x = a" "buffer_has (unat ch) n x"
    "small_block n" "plain_convert b x (n * unat ch) = Some y"
  shows "buffer_format y = b"
  using framewise.result [OF formats_framewise [OF assms(1-4)] assms(5-8)] by simp

lemma channels_iteration_pipeline:
  assumes c: "sound_stages c" "executionPath c = ma_data_converter_execution_path_channels_only"
      "hasPreFormatConversion c \<or> hasPostFormatConversion c"
    and x: "buffer_format x = dc_formatIn c" "buffer_has (unat (dc_channelsIn c)) n x" "small_block n"
  shows "channels_iteration c (Some x) True n st = map_option (\<lambda>out. (Some out, st)) (pipeline c x n)"
proof -
  let ?cc = "channelConverter c"
  have s: "sound_mixer ?cc" "channelsIn ?cc = dc_channelsIn c" "channelsOut ?cc = dc_channelsOut c" "dc_ditherMode c = ma_dither_mode_none"
      "dc_formatIn c \<noteq> ma_format_unknown" "hasPreFormatConversion c = (dc_formatIn c \<noteq> cc_format ?cc)"
      "hasPostFormatConversion c = (dc_formatOut c \<noteq> cc_format ?cc)"
    using c by (simp_all add: sound_stages_def Let_def)
  have ch: "dc_channelsIn c \<le> 254" "dc_channelsOut c \<le> 254" "cc_format ?cc \<noteq> ma_format_unknown"
    using s by (auto simp: sound_mixer_def)
  have mid: "buffer_format y = cc_format ?cc" if "reformat (dc_formatIn c) (cc_format ?cc) (unat (dc_channelsIn c)) x n = Some y" for y
    using that plain_convert_format [OF _ s(5) ch(3) _ x] ch(1) x(1) by (auto simp: reformat_def word_le_nat_alt split: if_splits)
  have pre: "(if hasPreFormatConversion c then map_option (\<lambda>(b, st). (Some b, st)) (pre_stage c (cc_format ?cc) (Some x) n st)
      else if hasPostFormatConversion c then Some (Some x, st) else None) =
    map_option (\<lambda>y. (Some y, st)) (reformat (dc_formatIn c) (cc_format ?cc) (unat (dc_channelsIn c)) x n)"
    using c(3) s(4,6) by (auto simp: reformat_def pre_stage_def convert_stage_plain [OF x(3) ch(1)] option.map_comp comp_def)
  have post: "(if hasPostFormatConversion c then map_option (\<lambda>(out, st). (Some out, st)) (post_stage c True y n (channelsOut ?cc) st)
      else Some (Some y, st)) = map_option (\<lambda>y. (Some y, st)) (reformat (cc_format ?cc) (dc_formatOut c) (unat (dc_channelsOut c)) y n)" for y
    using s(3,4,7) by (auto simp: reformat_def post_stage_def convert_stage_plain [OF x(3) ch(2)] option.map_comp comp_def)
  show ?thesis
  proof (cases "reformat (dc_formatIn c) (cc_format ?cc) (unat (dc_channelsIn c)) x n")
    case None
    then show ?thesis unfolding channels_iteration_def Let_def pre by (simp add: pipeline_def c(2) Let_def)
  next
    case (Some y)
    then show ?thesis
      using mixer_call [OF s(1) x(3) mid [OF Some]] post
      unfolding channels_iteration_def Let_def pre by (cases "mixed ?cc y n") (auto simp: pipeline_def c(2) Let_def)
  qed
qed

lemma stack_frames_pos:
  assumes "fmt \<noteq> ma_format_unknown" "ch \<noteq> 0" "ch \<le> 254"
  shows "0 < stack_frames fmt ch"
proof -
  have c: "0 < unat ch" "unat ch \<le> 254" using assms(2,3) by (simp_all add: word_le_nat_alt unat_gt_0)
  have b: "unat (ma_get_bytes_per_sample fmt) \<le> 4" "0 < unat (ma_get_bytes_per_sample fmt)" using assms(1) by (cases fmt; simp)+
  have "unat (ma_get_bytes_per_sample fmt) * unat ch \<le> 4 * 254" by (rule mult_le_mono) (use b c in simp_all)
  then have "unat (ma_get_bytes_per_frame fmt ch) = unat (ma_get_bytes_per_sample fmt) * unat ch"
      "unat (ma_get_bytes_per_sample fmt) * unat ch \<le> 1016"
    by (simp_all add: ma_get_bytes_per_frame_def unat_word_ariths)
  then show ?thesis using b c by (simp add: stack_frames_def MA_DATA_CONVERTER_STACK_BUFFER_SIZE_def div_greater_zero_iff)
qed

lemma channels_chunk_bounds:
  assumes "sound_stages c" "executionPath c = ma_data_converter_execution_path_channels_only" "dc_channelsIn c \<noteq> 0" "0 < left"
  shows "0 < channels_chunk c left" "channels_chunk c left \<le> left"
proof -
  let ?cc = "channelConverter c"
  have s: "sound_mixer ?cc" "channelsIn ?cc \<noteq> 0" using assms by (simp_all add: sound_stages_def Let_def)
  then have "0 < stack_frames (cc_format ?cc) (channelsIn ?cc)" "0 < stack_frames (cc_format ?cc) (channelsOut ?cc)"
    by (auto simp: sound_mixer_def intro: stack_frames_pos)
  then show "0 < channels_chunk c left" "channels_chunk c left \<le> left"
    using assms(4) by (auto simp: channels_chunk_def Let_def)
qed

text \<open>The loop over pieces is one run of the stages over the whole block.\<close>

lemma channels_loop_pipeline:
  assumes c: "sound_stages c" "executionPath c = ma_data_converter_execution_path_channels_only"
      "hasPreFormatConversion c \<or> hasPostFormatConversion c" "dc_channelsIn c \<noteq> 0"
    and x: "buffer_format x = dc_formatIn c" "buffer_has (unat (dc_channelsIn c)) left x" "small_block left"
  shows "channels_loop c (Some x) True left st = map_option (\<lambda>out. (out, st)) (pipeline c x left)"
  using x
proof (induction left arbitrary: x rule: less_induct)
  case (less left)
  note F = pipeline_framewise [OF c(1)]
  show ?case
  proof (cases "left = 0")
    case True
    then show ?thesis using framewise.none [OF F _ less.prems(1)] less.prems(3) by (simp add: channels_loop.simps)
  next
    case False
    define n where "n = channels_chunk c left"
    have n: "0 < n" "n \<le> left" using channels_chunk_bounds [OF c(1,2,4)] False by (simp_all add: n_def)
    then have left: "left = n + (left - n)" by simp
    have small: "small_block n" "small_block (left - n)" using less.prems(3) n(2) by (simp_all add: small_block_def)
    have has: "buffer_has (unat (dc_channelsIn c)) (n + (left - n)) x" using less.prems(2) n(2) by simp
    let ?y = "drop_samples (n * unat (dc_channelsIn c)) x"
    have step: "channels_iteration c (Some x) True n st = map_option (\<lambda>out. (Some out, st)) (pipeline c x n)"
      by (rule channels_iteration_pipeline [OF c(1-3) less.prems(1) buffer_has_mono [OF less.prems(2) n(2)] small(1)])
    have rest: "channels_loop c (Some ?y) True (left - n) st = map_option (\<lambda>out. (out, st)) (pipeline c ?y (left - n))"
      by (rule less.IH) (use n less.prems buffer_has_drop [OF has] small in simp_all)
    have "pipeline c x left = Option.bind (pipeline c x n) (\<lambda>a. map_option (buffer_append a) (pipeline c ?y (left - n)))"
      using framewise.split [OF F less.prems(1) has small] less.prems(3) left by simp
    then show ?thesis
      using False n(1) step rest
      by (subst channels_loop.simps)
        (auto simp: Let_def option.map_comp comp_def simp flip: n_def split: option.splits Option.bind_splits)
  qed
qed

text \<open>\<open>converted c x n\<close>: what the converter makes of \<open>n\<close> frames.\<close>

definition converted :: "ma_data_converter \<Rightarrow> pcm_buffer \<Rightarrow> nat \<Rightarrow> pcm_buffer option" where
  "converted c x n =
     map_option (fst \<circ> snd) (ma_data_converter_process_pcm_frames c (Some x) (Some (of_nat n)) True (Some (of_nat n)) 0)"

lemma process_pipeline:
  assumes c: "sound_stages c" "dc_channelsIn c \<noteq> 0"
    and x: "buffer_format x = dc_formatIn c" "buffer_has (unat (dc_channelsIn c)) n x" "small_block n"
    and n: "min i j = of_nat n"
  shows "ma_data_converter_process_pcm_frames c (Some x) (Some i) True (Some j) st =
    map_option (\<lambda>out. (MA_SUCCESS, out, Some (of_nat n), Some (of_nat n), c, st)) (pipeline c x n)"
proof -
  let ?cc = "channelConverter c"
  have s: "sound_mixer ?cc" "channelsIn ?cc = dc_channelsIn c" "channelsOut ?cc = dc_channelsOut c" "dc_ditherMode c = ma_dither_mode_none"
    using c by (simp_all add: sound_stages_def Let_def)
  have ch: "dc_channelsIn c \<le> 254" "dc_channelsOut c \<le> 254" using s by (auto simp: sound_mixer_def)
  show ?thesis
  proof (cases "executionPath c")
    case ma_data_converter_execution_path_passthrough
    then show ?thesis
      using c(1) n stage_samples [OF x(3) ch(2)]
      by (simp add: ma_data_converter_process_pcm_frames_def ma_data_converter_process_pcm_frames__passthrough_def pipeline_def
          sound_stages_def both_counts_def count_of_def Let_def)
  next
    case ma_data_converter_execution_path_format_only
    then show ?thesis
      using c(1) n s small_count [OF x(3)] convert_stage_plain [OF x(3) ch(1)]
      by (simp add: ma_data_converter_process_pcm_frames_def ma_data_converter_process_pcm_frames__format_only_def pipeline_def
          sound_stages_def both_counts_def count_of_def Let_def option.map_comp comp_def)
  next
    case path: ma_data_converter_execution_path_channels_only
    have eq: "hasPreFormatConversion c = (dc_formatIn c \<noteq> cc_format ?cc)" "hasPostFormatConversion c = (dc_formatOut c \<noteq> cc_format ?cc)"
      using c(1) path by (simp_all add: sound_stages_def Let_def)
    show ?thesis
    proof (cases "hasPreFormatConversion c \<or> hasPostFormatConversion c")
      case True
      then show ?thesis
        using channels_loop_pipeline [OF c(1) path True c(2) x] n small_count [OF x(3)]
        by (auto simp: ma_data_converter_process_pcm_frames_def ma_data_converter_process_pcm_frames__channels_only_def path
            both_counts_def count_of_def Let_def option.map_comp comp_def)
    next
      case False
      then have "buffer_format x = cc_format ?cc" using eq x(1) by simp
      then show ?thesis
        using False mixer_call [OF s(1) x(3)] n eq
        by (auto simp: ma_data_converter_process_pcm_frames_def ma_data_converter_process_pcm_frames__channels_only_def path
            both_counts_def count_of_def Let_def option.map_comp comp_def pipeline_def reformat_def)
    qed
  qed (use c in \<open>simp_all add: sound_stages_def Let_def\<close>)
qed

section \<open>Set-up\<close>

text \<open>What a successful set-up for equal rates leaves.\<close>

lemma mixer_init_sound:
  assumes "ma_channel_converter_init_preallocated (Some cfg) (Some c0) = Some (MA_SUCCESS, Some cc)"
    and "ccc_format cfg \<in> {ma_format_s16, ma_format_f32}" "ccc_channelsIn cfg \<le> 254" "ccc_channelsOut cfg \<le> 254"
  shows "sound_mixer cc \<and> cc_format cc = ccc_format cfg \<and> channelsIn cc = ccc_channelsIn cfg \<and> channelsOut cc = ccc_channelsOut cfg"
proof -
  have "ccc_channelsIn cfg \<noteq> 0 \<and> ccc_channelsOut cfg \<noteq> 0"
    using assms(1) by (auto simp: ma_channel_converter_init_preallocated_def ma_channel_converter_get_heap_layout_def split: if_splits)
  moreover have "conversionPath cc = ma_channel_converter_config_get_conversion_path cfg \<and> cc_format cc = ccc_format cfg \<and>
      channelsIn cc = ccc_channelsIn cfg \<and> channelsOut cc = ccc_channelsOut cfg"
    using assms(1)
    by (auto simp: ma_channel_converter_init_preallocated_def fresh_converter_def Let_def split: if_splits ma_channel_conversion_path.splits)
  ultimately show ?thesis
    using assms(2-4)
    by (auto simp: sound_mixer_def ma_channel_converter_config_get_conversion_path_def ma_channel_map_get_conversion_path_def
        ma_channel_map_is_passthrough_def split: if_splits)
qed

lemma mid_format_cases: "\<not> ma_data_converter_config_is_resampler_required cfg \<Longrightarrow>
    ma_data_converter_config_get_mid_format cfg \<in> {ma_format_s16, ma_format_f32}"
  by (auto simp: ma_data_converter_config_get_mid_format_def)

lemma converter_init_sound:
  assumes init: "ma_data_converter_init malloc_ok m (Some cfg) (Some c0) = Some (MA_SUCCESS, Some c)"
    and cfg: "\<not> ma_data_converter_config_is_resampler_required cfg" "dcc_ditherMode cfg = ma_dither_mode_none"
      "dcc_formatIn cfg \<noteq> ma_format_unknown" "dcc_formatOut cfg \<noteq> ma_format_unknown"
      "dcc_channelsIn cfg \<le> 254" "dcc_channelsOut cfg \<le> 254"
  shows "sound_stages c \<and> dc_channelsIn c \<noteq> 0 \<and> dc_formatIn c = dcc_formatIn cfg \<and> dc_formatOut c = dcc_formatOut cfg \<and>
    dc_channelsIn c = dcc_channelsIn cfg \<and> dc_channelsOut c = dcc_channelsOut cfg"
proof -
  let ?ccc = "ma_channel_converter_config_init_from_data_converter_config cfg"
  have ccc: "ccc_format ?ccc = ma_data_converter_config_get_mid_format cfg" "ccc_channelsIn ?ccc = dcc_channelsIn cfg"
      "ccc_channelsOut ?ccc = dcc_channelsOut cfg"
    by (simp_all add: ma_channel_converter_config_init_from_data_converter_config_def ma_channel_converter_config_init_def)
  have pre: "ma_data_converter_init_preallocated m (Some cfg) (Some c0) = Some (MA_SUCCESS, Some c)"
    using init by (auto simp: ma_data_converter_init_def split: prod.splits if_splits)
  then have "fst (ma_data_converter_get_heap_layout (Some cfg)) = MA_SUCCESS"
    by (auto simp: ma_data_converter_init_preallocated_def Let_def split: if_splits)
  then have nonzero: "dcc_channelsIn cfg \<noteq> 0"
    by (auto simp: ma_data_converter_get_heap_layout_def split: if_splits)
  obtain cc where cc: "ma_channel_converter_init_preallocated (Some ?ccc) (Some (fresh_converter ?ccc)) = Some (MA_SUCCESS, Some cc)"
      and c: "set_up_stages cfg cc None = Some c"
    using pre cfg(1) by (auto simp: ma_data_converter_init_preallocated_def Let_def split: if_splits option.splits prod.splits ma_result.splits)
  have "sound_mixer cc \<and> cc_format cc = ma_data_converter_config_get_mid_format cfg \<and> channelsIn cc = dcc_channelsIn cfg \<and>
      channelsOut cc = dcc_channelsOut cfg"
    using mixer_init_sound [OF cc] mid_format_cases [OF cfg(1)] cfg(5,6) ccc by simp
  then show ?thesis
    using c cfg nonzero
    by (auto simp: sound_stages_def set_up_stages_def execution_path_def Let_def split: if_splits)
      (auto simp: sound_mixer_def)
qed

text \<open>16-bit samples of one channel for float hardware of several.\<close>

definition mono_to_float :: "channel_map \<Rightarrow> u32 \<Rightarrow> channel_map \<Rightarrow> u32 \<Rightarrow> ma_data_converter_config" where
  "mono_to_float m k m' rate = (ma_data_converter_config_init ma_format_s16 ma_format_f32 1 k rate rate)
     \<lparr>dcc_pChannelMapIn := Some m, dcc_pChannelMapOut := Some m'\<rparr>"

lemma mono_path_init:
  assumes cfg: "dcc_channelsIn cfg \<noteq> 0" "dcc_channelsOut cfg \<noteq> 0" "dcc_channelsIn cfg = 1 \<or> dcc_channelsOut cfg = 1"
      "dcc_channelsIn cfg \<noteq> dcc_channelsOut cfg" "\<not> ma_data_converter_config_is_resampler_required cfg"
    and maps: "dcc_pChannelMapIn cfg = Some m" "dcc_pChannelMapOut cfg = Some m'" "ma_channel_map_is_valid (Some m) (dcc_channelsIn cfg)"
      "ma_channel_map_is_valid (Some m') (dcc_channelsOut cfg)"
      "if dcc_channelsOut cfg = 1 then m' 0 = MA_CHANNEL_MONO else m 0 = MA_CHANNEL_MONO"
  shows "\<exists>c. ma_data_converter_init True lib (Some cfg) (Some c0) = Some (MA_SUCCESS, Some c) \<and>
    executionPath c = ma_data_converter_execution_path_channels_only \<and>
    conversionPath (channelConverter c) =
      (if dcc_channelsOut cfg = 1 then ma_channel_conversion_path_mono_out else ma_channel_conversion_path_mono_in) \<and>
    cc_format (channelConverter c) = ma_data_converter_config_get_mid_format cfg"
proof -
  let ?ccc = "ma_channel_converter_config_init_from_data_converter_config cfg"
  have ccc: "ccc_format ?ccc = ma_data_converter_config_get_mid_format cfg" "ccc_channelsIn ?ccc = dcc_channelsIn cfg"
      "ccc_channelsOut ?ccc = dcc_channelsOut cfg" "ccc_pChannelMapIn ?ccc = Some m" "ccc_pChannelMapOut ?ccc = Some m'"
    using maps by (simp_all add: ma_channel_converter_config_init_from_data_converter_config_def ma_channel_converter_config_init_def)
  have path: "ma_channel_converter_config_get_conversion_path ?ccc =
      (if dcc_channelsOut cfg = 1 then ma_channel_conversion_path_mono_out else ma_channel_conversion_path_mono_in)"
    using cfg maps(5) by (auto simp: ma_channel_converter_config_get_conversion_path_def ma_channel_map_get_conversion_path_def
        ma_channel_map_is_passthrough_def ccc)
  have layout: "\<exists>h. ma_channel_converter_get_heap_layout (Some ?ccc) = (MA_SUCCESS, Some h)"
    using cfg maps by (simp add: ma_channel_converter_get_heap_layout_def ccc Let_def)
  then have cc: "ma_channel_converter_init_preallocated (Some ?ccc) (Some (fresh_converter ?ccc)) = Some (MA_SUCCESS, Some (fresh_converter ?ccc))"
    by (auto simp: ma_channel_converter_init_preallocated_def path fresh_converter_def Let_def)
  have fresh: "conversionPath (fresh_converter ?ccc) = ma_channel_converter_config_get_conversion_path ?ccc"
      "cc_format (fresh_converter ?ccc) = ma_data_converter_config_get_mid_format cfg"
    by (simp_all add: fresh_converter_def ccc)
  obtain alloc where dl: "ma_data_converter_get_heap_layout (Some cfg) = (MA_SUCCESS, alloc)"
    using layout cfg by (auto simp: ma_data_converter_get_heap_layout_def)
  have "conversionPath (fresh_converter ?ccc) \<noteq> ma_channel_conversion_path_passthrough" unfolding fresh path by simp
  then obtain c where c: "set_up_stages cfg (fresh_converter ?ccc) None = Some c"
      "executionPath c = ma_data_converter_execution_path_channels_only" "channelConverter c = fresh_converter ?ccc"
    by (auto simp: set_up_stages_def execution_path_def Let_def)
  have "ma_data_converter_init True lib (Some cfg) (Some c0) = Some (MA_SUCCESS, Some c)"
    by (simp add: ma_data_converter_init_def ma_data_converter_init_preallocated_def dl cc c(1) cfg(5) Let_def)
  then show ?thesis using c(2,3) fresh path by (intro exI [of _ c]) simp
qed

lemma valid_single: "ma_channel_map_is_valid (Some m) 1"
  by (simp add: ma_channel_map_is_valid_def)

lemma mono_to_float_init:
  assumes "m 0 = MA_CHANNEL_MONO" "ma_channel_map_is_valid (Some m') k" "2 \<le> k"
    and same: "dcc_formatIn cfg = ma_format_s16" "dcc_formatOut cfg = ma_format_f32" "dcc_channelsIn cfg = 1" "dcc_channelsOut cfg = k"
      "dcc_pChannelMapIn cfg = Some m" "dcc_pChannelMapOut cfg = Some m'" "\<not> ma_data_converter_config_is_resampler_required cfg"
  shows "\<exists>c. ma_data_converter_init True lib (Some cfg) (Some c0) = Some (MA_SUCCESS, Some c) \<and>
    executionPath c = ma_data_converter_execution_path_channels_only \<and> conversionPath (channelConverter c) = ma_channel_conversion_path_mono_in \<and>
    cc_format (channelConverter c) = ma_format_f32"
proof -
  have k: "k \<noteq> 1" "k \<noteq> 0" using assms(3) by (auto simp: word_le_nat_alt)
  have "ma_data_converter_config_get_mid_format cfg = ma_format_f32"
    using same by (simp add: ma_data_converter_config_get_mid_format_def)
  then show ?thesis
    using mono_path_init [of cfg m m' lib c0] same assms(1,2) k valid_single [of m] by simp
qed

text \<open>And floats of several channels for 16-bit samples of one.\<close>

lemma float_to_mono_init:
  assumes "m' 0 = MA_CHANNEL_MONO" "ma_channel_map_is_valid (Some m) k" "2 \<le> k"
    and same: "dcc_formatIn cfg = ma_format_f32" "dcc_formatOut cfg = ma_format_s16" "dcc_channelsIn cfg = k" "dcc_channelsOut cfg = 1"
      "dcc_pChannelMapIn cfg = Some m" "dcc_pChannelMapOut cfg = Some m'" "\<not> ma_data_converter_config_is_resampler_required cfg"
  shows "\<exists>c. ma_data_converter_init True lib (Some cfg) (Some c0) = Some (MA_SUCCESS, Some c) \<and>
    executionPath c = ma_data_converter_execution_path_channels_only \<and> conversionPath (channelConverter c) = ma_channel_conversion_path_mono_out \<and>
    cc_format (channelConverter c) = ma_format_s16"
proof -
  have k: "k \<noteq> 1" "k \<noteq> 0" using assms(3) by (auto simp: word_le_nat_alt)
  have "ma_data_converter_config_get_mid_format cfg = ma_format_s16"
    using same by (simp add: ma_data_converter_config_get_mid_format_def)
  then show ?thesis
    using mono_path_init [of cfg m m' lib c0] same assms(1,2) k valid_single [of m'] by simp
qed

definition unit_float :: "i16 \<Rightarrow> f32" where
  "unit_float x = Fin (of_int (sint x) / 2 ^ 15)"

lemma s16_to_f32_take: "n \<le> length xs \<Longrightarrow> ma_pcm_s16_to_f32 xs n = map unit_float (take n xs)"
proof (rule nth_equalityI)
  have b: "- 32768 \<le> sint x" "sint x \<le> 32767" for x :: i16
    using sint_ge [of x] sint_lt [of x] by simp_all
  show "ma_pcm_s16_to_f32 xs n ! i = map unit_float (take n xs) ! i" if "n \<le> length xs" "i < length (ma_pcm_s16_to_f32 xs n)" for i
    using that by (simp only: ma_pcm_s16_to_f32_def length_map nth_map length_upt nth_upt minus_nat.diff_0 add_0 s16_to_f32_exact [OF b]
        unit_float_def length_take nth_take min_absorb2)
qed (simp add: ma_pcm_s16_to_f32_def)

lemma frames_of_singles: "n \<le> length xs \<Longrightarrow> frames_of 1 n xs = map (\<lambda>x. [x]) (take n xs)"
  by (intro nth_equalityI) (simp_all add: frames_of_nth take_Suc hd_drop_conv_nth)

lemma mono_to_float_pipeline:
  assumes c: "sound_stages c" "executionPath c = ma_data_converter_execution_path_channels_only"
      "conversionPath (channelConverter c) = ma_channel_conversion_path_mono_in" "cc_format (channelConverter c) = ma_format_f32"
      "dc_formatIn c = ma_format_s16" "dc_formatOut c = ma_format_f32" "dc_channelsIn c = 1"
    and n: "n \<le> length xs" "small_block n"
  shows "pipeline c (PS16 xs) n = Some (PF32 (concat (map (\<lambda>x. replicate (unat (dc_channelsOut c)) (unit_float x)) (take n xs))))"
proof -
  let ?cc = "channelConverter c" and ?ys = "map unit_float (take n xs)"
  have s: "sound_mixer ?cc" "channelsIn ?cc = 1" "channelsOut ?cc = dc_channelsOut c"
    using c by (simp_all add: sound_stages_def Let_def)
  have conv: "plain_convert ma_format_f32 (PS16 xs) n = Some (PF32 ?ys)"
    using n(1) by (simp add: plain_convert_def ma_pcm_convert_def s16_to_f32_take)
  have "those (map (mix_frame_f32 ?cc) (frames_of 1 n ?ys)) = Some (map (\<lambda>y. replicate (unat (dc_channelsOut c)) y) ?ys)"
    using n(1) c(3) s(3) by (simp add: frames_of_singles [unfolded One_nat_def] comp_def mix_frame_f32_def spread_def concat_replicate_single those_each)
  then have "mixed ?cc (PF32 ?ys) n = Some (PF32 (concat (map (\<lambda>y. replicate (unat (dc_channelsOut c)) y) ?ys)))"
    using mixed_f32 [OF s(1) c(4) n(2), of ?ys] s(2) by (simp add: mixed_def c(4))
  then show ?thesis using conv c by (simp add: pipeline_def reformat_def comp_def)
qed

section \<open>Properties\<close>

text \<open>C18: (the temporary buffers cannot be seen) A converter set up for equal rates, any formats and channels, without dither,
  converts a block of up to \<open>2 ^ 22\<close> frames exactly as it converts the frames one at a time: it returns success with all frames
  taken and given and leaves its state and the generator as they were, and the output is the outputs of the single frames
  in order. At most 254 channels. The block is left open exactly when one of its frames is: a NaN to an integer, or, on the way
  from floats to 16 bits, a value outside \<open>[-1, 1]\<close>, which the scalar code clips to \<open>-32767\<close> or \<open>32767\<close> and the vector units, for
  aligned runs of eight, do not (\<open>f32_to_s16_units_differ\<close>); within it all agree (\<open>f32_to_s16_every_unit\<close>).\<close>

theorem converter_frame_by_frame:
  assumes "ma_data_converter_init malloc_ok lib (Some cfg) (Some c0) = Some (MA_SUCCESS, Some c)"
    and "\<not> ma_data_converter_config_is_resampler_required cfg" "dcc_ditherMode cfg = ma_dither_mode_none"
      "dcc_formatIn cfg \<noteq> ma_format_unknown" "dcc_formatOut cfg \<noteq> ma_format_unknown"
      "dcc_channelsIn cfg \<le> 254" "dcc_channelsOut cfg \<le> 254"
    and "buffer_format x = dcc_formatIn cfg" "buffer_has (unat (dcc_channelsIn cfg)) n x" "n \<le> 2 ^ 22" "min i j = of_nat n"
  shows "ma_data_converter_process_pcm_frames c (Some x) (Some i) True (Some j) st =
    map_option (\<lambda>outs. (MA_SUCCESS, buffer_concat (dcc_formatOut cfg) outs, Some (of_nat n), Some (of_nat n), c, st))
      (those (map (\<lambda>f. converted c f 1) (buffer_frames (unat (dcc_channelsIn cfg)) n x)))"
proof -
  note c = converter_init_sound [OF assms(1-7)]
  have sound: "sound_stages c" "dc_channelsIn c \<noteq> 0" using c by blast+
  note F = pipeline_framewise [OF sound(1)]
  have small: "small_block n" "small_block 1" using assms(10) by (simp_all add: small_block_def)
  have x: "buffer_format x = dc_formatIn c" "buffer_has (unat (dc_channelsIn c)) n x" using assms(8,9) c by simp_all
  have "converted c f 1 = pipeline c f 1" if "f \<in> set (buffer_frames (unat (dc_channelsIn c)) n x)" for f
  proof -
    have "is_frame (dc_formatIn c) (unat (dc_channelsIn c)) f" using buffer_frames_are [OF x(2) that] x(1) by simp
    from is_frame_has [OF this] show ?thesis
      using process_pipeline [OF sound _ _ small(2), of f "of_nat 1" "of_nat 1" 0] by (simp add: converted_def option.map_comp comp_def option.map_ident)
  qed
  then have eq: "map (\<lambda>f. pipeline c f 1) (buffer_frames (unat (dc_channelsIn c)) n x) = map (\<lambda>f. converted c f 1) (buffer_frames (unat (dc_channelsIn c)) n x)"
    by simp
  have same: "dc_channelsIn c = dcc_channelsIn cfg" "dc_formatOut c = dcc_formatOut cfg" using c by simp_all
  show ?thesis
    unfolding process_pipeline [OF sound x small(1) assms(11)] framewise.frames [OF F x small(1)] option.map_comp comp_def
    unfolding same eq [unfolded same] ..
qed

text \<open>Two 16-bit samples for three float channels in standard order.\<close>

lemma converter_frame_by_frame_witness:
  "\<exists>c. ma_data_converter_process_pcm_frames c (Some (PS16 [16384, - 32768])) (Some 2) True (Some 5) 7 =
    Some (MA_SUCCESS, PF32 [Fin (1 / 2), Fin (1 / 2), Fin (1 / 2), Fin (- 1), Fin (- 1), Fin (- 1)], Some 2, Some 2, c, 7)"
proof -
  let ?m = "\<lambda>i. if i = 0 then MA_CHANNEL_MONO else 0" and ?m' = "\<lambda>i. of_nat (i + 2) :: u8"
  let ?cfg = "mono_to_float ?m 3 ?m' 48000"
  have cfg: "dcc_formatIn ?cfg = ma_format_s16" "dcc_formatOut ?cfg = ma_format_f32" "dcc_channelsIn ?cfg = 1" "dcc_channelsOut ?cfg = 3"
      "dcc_pChannelMapIn ?cfg = Some ?m" "dcc_pChannelMapOut ?cfg = Some ?m'" "dcc_ditherMode ?cfg = ma_dither_mode_none"
      "\<not> ma_data_converter_config_is_resampler_required ?cfg"
    by (simp_all add: mono_to_float_def ma_data_converter_config_init_def ma_data_converter_config_init_default_def
        ma_data_converter_config_is_resampler_required_def)
  have valid: "ma_channel_map_is_valid (Some ?m') 3"
    by (simp add: ma_channel_map_is_valid_def ma_channel_map_get_channel_def upt_rec)
  obtain c where c: "ma_data_converter_init True lib (Some ?cfg) (Some c0) = Some (MA_SUCCESS, Some c)"
      "executionPath c = ma_data_converter_execution_path_channels_only" "conversionPath (channelConverter c) = ma_channel_conversion_path_mono_in"
      "cc_format (channelConverter c) = ma_format_f32"
    using mono_to_float_init [of ?m ?m' 3 ?cfg lib c0] valid cfg by auto
  have sound: "sound_stages c" "dc_channelsIn c \<noteq> 0" "dc_formatIn c = ma_format_s16" "dc_formatOut c = ma_format_f32" "dc_channelsIn c = 1"
      "dc_channelsOut c = 3"
    using converter_init_sound [OF c(1)] cfg by simp_all
  have three: "replicate 3 y = [y, y, y]" for y :: f32 by (simp add: numeral_3_eq_3)
  have one: "converted c (PS16 [x]) (Suc 0) = Some (PF32 [unit_float x, unit_float x, unit_float x])" for x
    using process_pipeline [OF sound(1,2), of "PS16 [x]" 1 "of_nat 1" "of_nat 1" 0] mono_to_float_pipeline [OF sound(1) c(2-4) sound(3-5), of 1 "[x]"]
      sound(3,5,6) by (simp add: converted_def small_block_def three)
  have frames: "buffer_frames 1 2 (PS16 [16384, - 32768]) = [PS16 [16384], PS16 [- 32768]]"
    by (simp add: numeral_2_eq_2)
  have m: "min 2 5 = (of_nat 2 :: u64)" by simp
  have "ma_data_converter_process_pcm_frames c (Some (PS16 [16384, - 32768])) (Some 2) True (Some 5) 7 =
      map_option (\<lambda>outs. (MA_SUCCESS, buffer_concat ma_format_f32 outs, Some (of_nat 2), Some (of_nat 2), c, 7))
       (those (map (\<lambda>f. converted c f 1) (buffer_frames 1 2 (PS16 [16384, - 32768]))))"
    using converter_frame_by_frame [OF c(1) cfg(8,7), of "PS16 [16384, - 32768]" 2 2 5 7] cfg m by simp
  then show ?thesis unfolding frames by (intro exI [of _ c]) (simp add: one unit_float_def)
qed

end
