(* ===== verification/Ma_Rb.thy ===== *)
theory Ma_Rb
  imports Prelude
begin

text \<open>
  \<open>ma_rb\<close>, miniaudio's lock-free ring buffer for one reader and one writer
  (\<open>client/native/miniaudio.h\<close>): two encoded offsets whose top bit is a loop flag, so that all bytes
  of the buffer can be used, with acquire and commit on either side. The buffer's memory is a function
  on byte offsets (\<open>None\<close> the null pointer); a null \<open>pRB\<close> is \<open>None\<close>. The abstraction is a byte queue: \<open>rb_contents\<close>.
\<close>

section \<open>Model\<close>

datatype rb_result = MA_SUCCESS | MA_INVALID_ARGS | MA_OUT_OF_MEMORY | MA_OTHER_ERROR

record ma_rb =
  pBuffer :: "(nat \<Rightarrow> u8) option"
  subbufferSizeInBytes :: u32
  subbufferCount :: u32
  subbufferStrideInBytes :: u32
  encodedReadOffset :: u32
  encodedWriteOffset :: u32
  ownsBuffer :: bool
  clearOnWriteAcquire :: bool

definition ma_rb__extract_offset_in_bytes :: "u32 \<Rightarrow> u32" where
  "ma_rb__extract_offset_in_bytes encodedOffset = encodedOffset AND 0x7FFFFFFF"

definition ma_rb__extract_offset_loop_flag :: "u32 \<Rightarrow> u32" where
  "ma_rb__extract_offset_loop_flag encodedOffset = encodedOffset AND 0x80000000"

definition ma_rb__construct_offset :: "u32 \<Rightarrow> u32 \<Rightarrow> u32" where
  "ma_rb__construct_offset offsetInBytes offsetLoopFlag = offsetLoopFlag OR offsetInBytes"

definition ma_rb__deconstruct_offset :: "u32 \<Rightarrow> u32 \<times> u32" where
  "ma_rb__deconstruct_offset e = (ma_rb__extract_offset_in_bytes e, ma_rb__extract_offset_loop_flag e)"

definition ma_align :: "u32 \<Rightarrow> u32 \<Rightarrow> u32" where
  "ma_align x a = (x + (a - 1)) AND NOT (a - 1)"

text \<open>\<open>copied\<close> is the result of copying the allocation callbacks, \<open>allocated\<close> whether the aligned
  allocation succeeds; a preallocated buffer is given by its contents.\<close>

definition ma_rb_init_ex ::
    "u64 \<Rightarrow> u64 \<Rightarrow> u64 \<Rightarrow> (nat \<Rightarrow> u8) option \<Rightarrow> rb_result \<Rightarrow> bool \<Rightarrow> ma_rb option \<Rightarrow> rb_result \<times> ma_rb option" where
  "ma_rb_init_ex sz count stride prealloc copied allocated pRB =
     (case pRB of
        None \<Rightarrow> (MA_INVALID_ARGS, None)
      | Some old \<Rightarrow>
          if sz = 0 \<or> count = 0 then (MA_INVALID_ARGS, Some old)
          else if 0x7FFFFFFF - (32 - 1) < sz then (MA_INVALID_ARGS, Some old)
          else
            let rb = \<lparr>pBuffer = None, subbufferSizeInBytes = 0, subbufferCount = 0,
                      subbufferStrideInBytes = 0, encodedReadOffset = 0, encodedWriteOffset = 0,
                      ownsBuffer = False, clearOnWriteAcquire = False\<rparr>
            in if copied \<noteq> MA_SUCCESS then (copied, Some rb)
            else
              let rb = rb\<lparr>subbufferSizeInBytes := ucast sz, subbufferCount := ucast count\<rparr>
              in case prealloc of
                   Some mem \<Rightarrow> (MA_SUCCESS, Some (rb\<lparr>subbufferStrideInBytes := ucast stride, pBuffer := Some mem\<rparr>))
                 | None \<Rightarrow>
                     let rb = rb\<lparr>subbufferStrideInBytes := ma_align (ucast sz) 32\<rparr>
                     in if allocated then (MA_SUCCESS, Some (rb\<lparr>pBuffer := Some (\<lambda>_. 0), ownsBuffer := True\<rparr>))
                        else (MA_OUT_OF_MEMORY, Some rb))"

definition ma_rb_init ::
    "u64 \<Rightarrow> (nat \<Rightarrow> u8) option \<Rightarrow> rb_result \<Rightarrow> bool \<Rightarrow> ma_rb option \<Rightarrow> rb_result \<times> ma_rb option" where
  "ma_rb_init sz prealloc copied allocated pRB = ma_rb_init_ex sz 1 0 prealloc copied allocated pRB"

definition ma_rb_reset :: "ma_rb option \<Rightarrow> ma_rb option" where
  "ma_rb_reset pRB = map_option (\<lambda>rb. rb\<lparr>encodedReadOffset := 0, encodedWriteOffset := 0\<rparr>) pRB"

text \<open>The result, the granted size (stored through the size pointer) and the offset the returned
  pointer has in the buffer. A null size pointer is \<open>None\<close>, \<open>out\<close> says that the other is not null.\<close>

definition ma_rb_acquire_read :: "ma_rb option \<Rightarrow> u64 option \<Rightarrow> bool \<Rightarrow> rb_result \<times> u64 option \<times> u32 option" where
  "ma_rb_acquire_read pRB pSizeInBytes out =
     (case (pRB, pSizeInBytes) of
        (Some rb, Some bytesRequested) \<Rightarrow>
          if \<not> out then (MA_INVALID_ARGS, pSizeInBytes, None)
          else
            let (writeOffsetInBytes, writeOffsetLoopFlag) = ma_rb__deconstruct_offset (encodedWriteOffset rb);
                (readOffsetInBytes, readOffsetLoopFlag) = ma_rb__deconstruct_offset (encodedReadOffset rb);
                bytesAvailable = (if readOffsetLoopFlag = writeOffsetLoopFlag
                  then ucast (writeOffsetInBytes - readOffsetInBytes)
                  else ucast (subbufferSizeInBytes rb - readOffsetInBytes)) :: u64
            in (MA_SUCCESS, Some (if bytesAvailable < bytesRequested then bytesAvailable else bytesRequested),
                Some (ma_rb__extract_offset_in_bytes (encodedReadOffset rb)))
      | _ \<Rightarrow> (MA_INVALID_ARGS, pSizeInBytes, None))"

definition ma_rb_commit_read :: "ma_rb option \<Rightarrow> u64 \<Rightarrow> rb_result \<times> ma_rb option" where
  "ma_rb_commit_read pRB sizeInBytes =
     (case pRB of
        None \<Rightarrow> (MA_INVALID_ARGS, None)
      | Some rb \<Rightarrow>
          let (readOffsetInBytes, readOffsetLoopFlag) = ma_rb__deconstruct_offset (encodedReadOffset rb);
              newOffset = ucast (ucast readOffsetInBytes + sizeInBytes) :: u32
          in if subbufferSizeInBytes rb < newOffset then (MA_INVALID_ARGS, Some rb)
             else
               let (newOffset, newFlag) =
                     (if newOffset = subbufferSizeInBytes rb then (0, readOffsetLoopFlag XOR 0x80000000)
                      else (newOffset, readOffsetLoopFlag))
               in (MA_SUCCESS, Some (rb\<lparr>encodedReadOffset := ma_rb__construct_offset newOffset newFlag\<rparr>)))"

definition zero_range :: "nat \<Rightarrow> nat \<Rightarrow> (nat \<Rightarrow> u8) \<Rightarrow> (nat \<Rightarrow> u8)" where
  "zero_range at n mem = (\<lambda>j. if at \<le> j \<and> j < at + n then 0 else mem j)"

definition ma_rb_acquire_write ::
    "ma_rb option \<Rightarrow> u64 option \<Rightarrow> bool \<Rightarrow> rb_result \<times> u64 option \<times> u32 option \<times> ma_rb option" where
  "ma_rb_acquire_write pRB pSizeInBytes out =
     (case (pRB, pSizeInBytes) of
        (Some rb, Some bytesRequested) \<Rightarrow>
          if \<not> out then (MA_INVALID_ARGS, pSizeInBytes, None, pRB)
          else
            let (readOffsetInBytes, readOffsetLoopFlag) = ma_rb__deconstruct_offset (encodedReadOffset rb);
                (writeOffsetInBytes, writeOffsetLoopFlag) = ma_rb__deconstruct_offset (encodedWriteOffset rb);
                bytesAvailable = (if writeOffsetLoopFlag = readOffsetLoopFlag
                  then ucast (subbufferSizeInBytes rb - writeOffsetInBytes)
                  else ucast (readOffsetInBytes - writeOffsetInBytes)) :: u64;
                granted = (if bytesAvailable < bytesRequested then bytesAvailable else bytesRequested);
                ptr = ma_rb__extract_offset_in_bytes (encodedWriteOffset rb)
            in (MA_SUCCESS, Some granted, Some ptr,
                Some (if clearOnWriteAcquire rb
                      then rb\<lparr>pBuffer := map_option (zero_range (unat ptr) (unat granted)) (pBuffer rb)\<rparr> else rb))
      | _ \<Rightarrow> (MA_INVALID_ARGS, pSizeInBytes, None, pRB))"

definition ma_rb_commit_write :: "ma_rb option \<Rightarrow> u64 \<Rightarrow> rb_result \<times> ma_rb option" where
  "ma_rb_commit_write pRB sizeInBytes =
     (case pRB of
        None \<Rightarrow> (MA_INVALID_ARGS, None)
      | Some rb \<Rightarrow>
          let (writeOffsetInBytes, writeOffsetLoopFlag) = ma_rb__deconstruct_offset (encodedWriteOffset rb);
              newOffset = ucast (ucast writeOffsetInBytes + sizeInBytes) :: u32
          in if subbufferSizeInBytes rb < newOffset then (MA_INVALID_ARGS, Some rb)
             else
               let (newOffset, newFlag) =
                     (if newOffset = subbufferSizeInBytes rb then (0, writeOffsetLoopFlag XOR 0x80000000)
                      else (newOffset, writeOffsetLoopFlag))
               in (MA_SUCCESS, Some (rb\<lparr>encodedWriteOffset := ma_rb__construct_offset newOffset newFlag\<rparr>)))"

definition ma_rb_seek_read :: "ma_rb option \<Rightarrow> u64 \<Rightarrow> rb_result \<times> ma_rb option" where
  "ma_rb_seek_read pRB offsetInBytes =
     (case pRB of
        None \<Rightarrow> (MA_INVALID_ARGS, None)
      | Some rb \<Rightarrow>
          if ucast (subbufferSizeInBytes rb) < offsetInBytes then (MA_INVALID_ARGS, Some rb)
          else
            let (readOffsetInBytes, readOffsetLoopFlag) = ma_rb__deconstruct_offset (encodedReadOffset rb);
                (writeOffsetInBytes, writeOffsetLoopFlag) = ma_rb__deconstruct_offset (encodedWriteOffset rb);
                sum = ucast readOffsetInBytes + offsetInBytes;
                (newOffset, newFlag) =
                  (if readOffsetLoopFlag = writeOffsetLoopFlag
                   then (if ucast writeOffsetInBytes < sum then writeOffsetInBytes else ucast sum, readOffsetLoopFlag)
                   else if ucast (subbufferSizeInBytes rb) \<le> sum
                        then (ucast sum - subbufferSizeInBytes rb, readOffsetLoopFlag XOR 0x80000000)
                        else (ucast sum, readOffsetLoopFlag))
            in (MA_SUCCESS, Some (rb\<lparr>encodedReadOffset := ma_rb__construct_offset newOffset newFlag\<rparr>)))"

definition ma_rb_seek_write :: "ma_rb option \<Rightarrow> u64 \<Rightarrow> rb_result \<times> ma_rb option" where
  "ma_rb_seek_write pRB offsetInBytes =
     (case pRB of
        None \<Rightarrow> (MA_INVALID_ARGS, None)
      | Some rb \<Rightarrow>
          let (readOffsetInBytes, readOffsetLoopFlag) = ma_rb__deconstruct_offset (encodedReadOffset rb);
              (writeOffsetInBytes, writeOffsetLoopFlag) = ma_rb__deconstruct_offset (encodedWriteOffset rb);
              sum = ucast writeOffsetInBytes + offsetInBytes;
              (newOffset, newFlag) =
                (if readOffsetLoopFlag = writeOffsetLoopFlag
                 then if ucast (subbufferSizeInBytes rb) \<le> sum
                      then (ucast sum - subbufferSizeInBytes rb, writeOffsetLoopFlag XOR 0x80000000)
                      else (ucast sum, writeOffsetLoopFlag)
                 else (if ucast readOffsetInBytes < sum then readOffsetInBytes else ucast sum, writeOffsetLoopFlag))
          in (MA_SUCCESS, Some (rb\<lparr>encodedWriteOffset := ma_rb__construct_offset newOffset newFlag\<rparr>)))"

definition ma_rb_pointer_distance :: "ma_rb option \<Rightarrow> i32" where
  "ma_rb_pointer_distance pRB =
     (case pRB of
        None \<Rightarrow> 0
      | Some rb \<Rightarrow>
          let (readOffsetInBytes, readOffsetLoopFlag) = ma_rb__deconstruct_offset (encodedReadOffset rb);
              (writeOffsetInBytes, writeOffsetLoopFlag) = ma_rb__deconstruct_offset (encodedWriteOffset rb)
          in if readOffsetLoopFlag = writeOffsetLoopFlag then writeOffsetInBytes - readOffsetInBytes
             else writeOffsetInBytes + (subbufferSizeInBytes rb - readOffsetInBytes))"

definition ma_rb_available_read :: "ma_rb option \<Rightarrow> u32" where
  "ma_rb_available_read pRB =
     (case pRB of
        None \<Rightarrow> 0
      | Some rb \<Rightarrow> let dist = ma_rb_pointer_distance pRB in if sint dist < 0 then 0 else dist)"

definition ma_rb_get_subbuffer_size :: "ma_rb option \<Rightarrow> u64" where
  "ma_rb_get_subbuffer_size pRB = (case pRB of None \<Rightarrow> 0 | Some rb \<Rightarrow> ucast (subbufferSizeInBytes rb))"

text \<open>The distance is a signed 32-bit value, converted to \<open>size_t\<close> for the subtraction.\<close>

definition ma_rb_available_write :: "ma_rb option \<Rightarrow> u32" where
  "ma_rb_available_write pRB =
     (case pRB of
        None \<Rightarrow> 0
      | Some rb \<Rightarrow> ucast (ma_rb_get_subbuffer_size pRB - (scast (ma_rb_pointer_distance pRB) :: u64)))"

definition ma_rb_get_subbuffer_stride :: "ma_rb option \<Rightarrow> u64" where
  "ma_rb_get_subbuffer_stride pRB =
     (case pRB of
        None \<Rightarrow> 0
      | Some rb \<Rightarrow> if subbufferStrideInBytes rb = 0 then ucast (subbufferSizeInBytes rb)
                   else ucast (subbufferStrideInBytes rb))"

definition ma_rb_get_subbuffer_offset :: "ma_rb option \<Rightarrow> u64 \<Rightarrow> u64" where
  "ma_rb_get_subbuffer_offset pRB subbufferIndex =
     (case pRB of None \<Rightarrow> 0 | Some rb \<Rightarrow> subbufferIndex * ma_rb_get_subbuffer_stride pRB)"

text \<open>The result is an offset relative to the caller's pointer, \<open>None\<close> for a null pointer.\<close>

definition ma_rb_get_subbuffer_ptr :: "ma_rb option \<Rightarrow> u64 \<Rightarrow> u64 option" where
  "ma_rb_get_subbuffer_ptr pRB subbufferIndex =
     (case pRB of None \<Rightarrow> None | Some rb \<Rightarrow> Some (ma_rb_get_subbuffer_offset pRB subbufferIndex))"

text \<open>The buffer that is freed, if any.\<close>

definition ma_rb_uninit :: "ma_rb option \<Rightarrow> (nat \<Rightarrow> u8) option" where
  "ma_rb_uninit pRB = (case pRB of None \<Rightarrow> None | Some rb \<Rightarrow> if ownsBuffer rb then pBuffer rb else None)"

section \<open>Encoded offsets\<close>

lemma extract_mask: "ma_rb__extract_offset_in_bytes e = take_bit 31 e"
  by (simp add: ma_rb__extract_offset_in_bytes_def take_bit_eq_mask mask_eq_exp_minus_1)

lemma bit_top_int: "bit (0x80000000 :: int) n \<longleftrightarrow> n = 31"
proof -
  have "bit (push_bit 31 1 :: int) n \<longleftrightarrow> n = 31"
    by (auto simp only: bit_push_bit_iff_int bit_1_iff)
  then show ?thesis by simp
qed

lemma bit_top: "bit (0x80000000 :: u32) n \<longleftrightarrow> n = 31"
  by (auto simp: bit_top_int)

lemma extract_flag: "ma_rb__extract_offset_loop_flag e = (if bit e 31 then 0x80000000 else 0)"
proof -
  have "e AND 0x80000000 = (if bit e 31 then 0x80000000 else 0)"
    by (rule bit_word_eqI) (auto simp: bit_and_iff bit_top_int)
  then show ?thesis by (simp add: ma_rb__extract_offset_loop_flag_def)
qed

definition loop_flag :: "bool \<Rightarrow> u32" where
  "loop_flag b = (if b then 0x80000000 else 0)"

lemma loop_flag_inj [simp]: "loop_flag a = loop_flag b \<longleftrightarrow> a = b"
  by (simp add: loop_flag_def)

lemma loop_flag_toggle [simp]: "loop_flag b XOR 0x80000000 = loop_flag (\<not> b)"
  by (simp add: loop_flag_def)

lemma bit_loop_flag: "bit (loop_flag b) n \<longleftrightarrow> b \<and> n = 31"
  by (auto simp: loop_flag_def bit_top_int)

lemma small_take: "unat (x :: u32) < 2 ^ 31 \<Longrightarrow> take_bit 31 x = x"
proof -
  assume "unat x < 2 ^ 31"
  then have "unat (take_bit 31 x) = unat x"
    by (simp add: unsigned_take_bit_eq take_bit_nat_eq_self)
  then show ?thesis by (simp only: word_unat_eq_iff)
qed

lemma small_bit: "unat (x :: u32) < 2 ^ 31 \<Longrightarrow> \<not> bit x 31"
  by (metis small_take bit_take_bit_iff less_irrefl)

lemma extract_construct:
  assumes x: "unat x < 2 ^ 31"
  shows "ma_rb__extract_offset_in_bytes (ma_rb__construct_offset x (loop_flag b)) = x"
    and "ma_rb__extract_offset_loop_flag (ma_rb__construct_offset x (loop_flag b)) = loop_flag b"
proof -
  have "take_bit 31 (loop_flag b OR x) = take_bit 31 x"
    by (rule bit_word_eqI) (auto simp: bit_simps bit_loop_flag)
  then show "ma_rb__extract_offset_in_bytes (ma_rb__construct_offset x (loop_flag b)) = x"
    by (simp add: extract_mask ma_rb__construct_offset_def small_take [OF x])
  show "ma_rb__extract_offset_loop_flag (ma_rb__construct_offset x (loop_flag b)) = loop_flag b"
    using small_bit [OF x]
    by (simp add: extract_flag ma_rb__construct_offset_def bit_simps bit_loop_flag) (simp add: loop_flag_def)
qed

lemma mod_advance_lap:
  assumes "0 < cap" "(n::nat) \<le> cap"
  shows "(N + n) mod cap = (if cap \<le> N mod cap + n then N mod cap + n - cap else N mod cap + n) \<and>
    (N + n) div cap = (if cap \<le> N mod cap + n then N div cap + 1 else N div cap)"
proof -
  have lt: "N mod cap < cap" using assms(1) by simp
  have N: "N + n = (N mod cap + n) + N div cap * cap" by (simp add: algebra_simps)
  have "(N + n) mod cap = (N mod cap + n) mod cap" by (simp add: mod_simps)
  moreover have "(N + n) div cap = N div cap + (N mod cap + n) div cap"
    using assms(1) by (subst N, subst div_mult_self1) simp_all
  moreover have "(N mod cap + n) div cap = (if cap \<le> N mod cap + n then 1 else 0) \<and>
    (N mod cap + n) mod cap = (if cap \<le> N mod cap + n then N mod cap + n - cap else N mod cap + n)"
  proof (cases "cap \<le> N mod cap + n")
    case True
    have "N mod cap + n - cap < cap" using lt assms(2) by linarith
    then show ?thesis using True assms(1) by (simp add: le_div_geq le_mod_geq)
  qed simp
  ultimately show ?thesis by simp
qed

text \<open>The code's offset after \<open>N\<close> bytes in total have passed through a buffer of \<open>cap\<close> bytes.\<close>

definition enc :: "nat \<Rightarrow> nat \<Rightarrow> u32" where
  "enc cap N = ma_rb__construct_offset (of_nat (N mod cap)) (loop_flag (odd (N div cap)))"

lemma unat_small: "n < 2 ^ 31 \<Longrightarrow> unat (of_nat n :: u32) = n"
  by (simp add: unat_of_nat take_bit_nat_eq_self)

lemma deconstruct_enc:
  assumes "0 < cap" "cap < 2 ^ 31"
  shows "ma_rb__deconstruct_offset (enc cap N) = (of_nat (N mod cap), loop_flag (odd (N div cap)))"
proof -
  have "N mod cap < 2 ^ 31" using assms by (meson less_trans mod_less_divisor)
  then show ?thesis by (simp add: ma_rb__deconstruct_offset_def enc_def extract_construct unat_small)
qed

text \<open>The buffer after \<open>W\<close> bytes have been written and \<open>R\<close> bytes read, and the queue of bytes it holds.\<close>

definition rb_at :: "ma_rb \<Rightarrow> nat \<Rightarrow> nat \<Rightarrow> bool" where
  "rb_at rb R W \<longleftrightarrow> 0 < unat (subbufferSizeInBytes rb) \<and> unat (subbufferSizeInBytes rb) < 2 ^ 31 \<and>
     R \<le> W \<and> W \<le> R + unat (subbufferSizeInBytes rb) \<and>
     encodedReadOffset rb = enc (unat (subbufferSizeInBytes rb)) R \<and>
     encodedWriteOffset rb = enc (unat (subbufferSizeInBytes rb)) W \<and> pBuffer rb \<noteq> None"

definition rb_byte :: "ma_rb \<Rightarrow> nat \<Rightarrow> u8" where
  "rb_byte rb i = (case pBuffer rb of None \<Rightarrow> 0 | Some mem \<Rightarrow> mem i)"

definition rb_region :: "ma_rb \<Rightarrow> nat \<Rightarrow> nat \<Rightarrow> u8 list" where
  "rb_region rb at n = map (rb_byte rb) [at..<at + n]"

definition rb_queue :: "ma_rb \<Rightarrow> nat \<Rightarrow> nat \<Rightarrow> u8 list" where
  "rb_queue rb R W = map (\<lambda>i. rb_byte rb (i mod unat (subbufferSizeInBytes rb))) [R..<W]"

text \<open>The owner of an acquired region stores bytes in it.\<close>

definition rb_store :: "ma_rb \<Rightarrow> nat \<Rightarrow> u8 list \<Rightarrow> ma_rb" where
  "rb_store rb at bs = rb\<lparr>pBuffer := map_option
     (\<lambda>mem j. if at \<le> j \<and> j < at + length bs then bs ! (j - at) else mem j) (pBuffer rb)\<rparr>"

lemma div_next:
  assumes "0 < cap" "R \<le> (W::nat)" "W \<le> R + cap"
  shows "W div cap = R div cap \<or> W div cap = R div cap + 1"
proof -
  have "R div cap \<le> W div cap" by (rule div_le_mono [OF assms(2)])
  moreover have "W div cap \<le> R div cap + 1"
    using assms div_le_mono [OF assms(3), of cap] by (simp add: div_add_self2)
  ultimately show ?thesis by linarith
qed

lemma mod_same_loop:
  assumes "R \<le> (W::nat)" "W div cap = R div cap"
  shows "R mod cap \<le> W mod cap \<and> W mod cap = R mod cap + (W - R)"
proof -
  have "R = R div cap * cap + R mod cap" "W = R div cap * cap + W mod cap"
    using assms(2) by (metis div_mult_mod_eq)+
  with assms(1) show ?thesis by linarith
qed

lemma mod_next_loop:
  assumes "0 < cap" "R \<le> (W::nat)" "W div cap = R div cap + 1"
  shows "W mod cap + (cap - R mod cap) = W - R \<and> R mod cap < cap"
proof -
  have "R = R div cap * cap + R mod cap" by simp
  moreover have "W = (R div cap + 1) * cap + W mod cap"
    using assms(3) by (metis div_mult_mod_eq)
  moreover have "R mod cap < cap" using assms(1) by simp
  ultimately have "R mod cap < cap" "W = R div cap * cap + cap + W mod cap" "R = R div cap * cap + R mod cap"
    by (simp_all only: distrib_right mult_1)
  then show ?thesis using assms(2) by linarith
qed

text \<open>Advancing an offset inside the buffer, with the wrap to the start and the flip of the flag.\<close>

lemma mod_advance:
  assumes "0 < cap" "(n::nat) \<le> cap - N mod cap"
  shows "(N + n) mod cap = (if N mod cap + n = cap then 0 else N mod cap + n) \<and>
    (N + n) div cap = N div cap + (if N mod cap + n = cap then 1 else 0)"
proof -
  have N: "N + n = N div cap * cap + (N mod cap + n)" by (simp only: div_mult_mod_eq add.assoc [symmetric])
  have le: "N mod cap + n \<le> cap" using assms mod_less_divisor [OF assms(1), of N] by linarith
  have "(N + n) mod cap = (N mod cap + n) mod cap" by (simp add: mod_simps)
  moreover have "(N + n) div cap = N div cap + (N mod cap + n) div cap"
    using assms(1) by (subst N, subst div_mult_self3) simp_all
  ultimately have "(N + n) mod cap = (N mod cap + n) mod cap \<and>
    (N + n) div cap = N div cap + (N mod cap + n) div cap" ..
  with le show ?thesis using assms(1) by (auto simp: div_eq_0_iff le_less)
qed

text \<open>The contiguous bytes the reader, and the writer, can have.\<close>

definition rb_readable :: "nat \<Rightarrow> nat \<Rightarrow> nat \<Rightarrow> nat" where
  "rb_readable cap R W = min (W - R) (cap - R mod cap)"

definition rb_writable :: "nat \<Rightarrow> nat \<Rightarrow> nat \<Rightarrow> nat" where
  "rb_writable cap R W = min (R + cap - W) (cap - W mod cap)"

lemma rb_atD:
  assumes "rb_at rb R W"
  shows "0 < unat (subbufferSizeInBytes rb)" "unat (subbufferSizeInBytes rb) < 2 ^ 31"
    "R \<le> W" "W \<le> R + unat (subbufferSizeInBytes rb)"
    "encodedReadOffset rb = enc (unat (subbufferSizeInBytes rb)) R"
    "encodedWriteOffset rb = enc (unat (subbufferSizeInBytes rb)) W"
    "\<exists>mem. pBuffer rb = Some mem"
    "R mod unat (subbufferSizeInBytes rb) < 2 ^ 31" "W mod unat (subbufferSizeInBytes rb) < 2 ^ 31"
  using assms by (auto simp: rb_at_def intro: less_trans [OF mod_less_divisor])

lemma same_flag:
  assumes "rb_at rb R W"
  shows "odd (R div unat (subbufferSizeInBytes rb)) = odd (W div unat (subbufferSizeInBytes rb)) \<longleftrightarrow>
         W div unat (subbufferSizeInBytes rb) = R div unat (subbufferSizeInBytes rb)"
  using div_next [OF rb_atD(1,3,4) [OF assms]] by auto

lemma same_flag':
  assumes "rb_at rb R W"
  shows "even (W div unat (subbufferSizeInBytes rb)) = even (R div unat (subbufferSizeInBytes rb)) \<longleftrightarrow>
         W div unat (subbufferSizeInBytes rb) = R div unat (subbufferSizeInBytes rb)"
  using same_flag [OF assms] by blast

lemma unat_sub_small: "m \<le> n \<Longrightarrow> n < 2 ^ 31 \<Longrightarrow> unat (of_nat n - of_nat m :: u32) = n - m"
proof -
  assume "m \<le> n" "n < 2 ^ 31"
  then have "(of_nat n - of_nat m :: u32) = of_nat (n - m)" by (simp add: of_nat_diff)
  then show ?thesis using \<open>n < 2 ^ 31\<close> by (simp add: unat_small)
qed

lemma of_nat_unat_u32: "(of_nat (unat (x :: u32)) :: u32) = x"
  by (simp add: unat_of_nat)

lemma unat_sub_cap:
  assumes "m \<le> unat (x :: u32)" "unat x < 2 ^ 31"
  shows "unat (x - of_nat m) = unat x - m"
  using unat_sub_small [OF assms] by (simp only: of_nat_unat_u32)

lemma unat_up: "unat (ucast (x :: u32) :: u64) = unat x"
  using unsigned_less [of x, where ?'a = nat] by (simp add: unsigned_ucast_eq take_bit_nat_eq_self)

lemma unat_if_min: "unat (if (a :: u64) < b then a else b) = min (unat b) (unat a)"
  by (auto simp: word_less_nat_alt min_def)

lemma acquire_read_at:
  assumes at: "rb_at rb R W"
  obtains n where "ma_rb_acquire_read (Some rb) (Some req) True =
      (MA_SUCCESS, Some n, Some (of_nat (R mod unat (subbufferSizeInBytes rb))))"
    "unat n = min (unat req) (rb_readable (unat (subbufferSizeInBytes rb)) R W)"
proof -
  define cap where "cap = unat (subbufferSizeInBytes rb)"
  note d = rb_atD [OF at, folded cap_def]
  define avail :: u32 where "avail = (if W div cap = R div cap
      then of_nat (W mod cap) - of_nat (R mod cap) else subbufferSizeInBytes rb - of_nat (R mod cap))"
  have avail: "unat avail = rb_readable cap R W"
  proof (cases "W div cap = R div cap")
    case True
    note m = mod_same_loop [OF d(3) True]
    have "unat avail = W - R"
      using m unat_sub_small [OF conjunct1 [OF m] d(9)] by (simp add: avail_def True)
    moreover have "W mod cap < cap" using d(1) by simp
    ultimately show ?thesis using m by (simp add: rb_readable_def)
  next
    case False
    then have n: "W div cap = R div cap + 1" using div_next [OF d(1,3,4)] by simp
    note m = mod_next_loop [OF d(1,3) n]
    have "unat avail = cap - R mod cap"
      using False m d(2) by (simp add: avail_def unat_sub_cap cap_def)
    then show ?thesis using m by (simp add: rb_readable_def)
  qed
  show thesis
  proof (rule that)
    show "ma_rb_acquire_read (Some rb) (Some req) True =
      (MA_SUCCESS, Some (if ucast avail < req then ucast avail else req), Some (of_nat (R mod unat (subbufferSizeInBytes rb))))"
      using same_flag [OF at] deconstruct_enc [OF d(1,2)]
      by (simp add: ma_rb_acquire_read_def d(5,6) avail_def ma_rb__deconstruct_offset_def flip: cap_def)
    show "unat (if ucast avail < req then ucast avail else req) =
      min (unat req) (rb_readable (unat (subbufferSizeInBytes rb)) R W)"
      by (simp only: unat_if_min unat_up avail cap_def [symmetric])
  qed
qed

lemma acquire_write_at:
  assumes at: "rb_at rb R W"
  obtains n where "ma_rb_acquire_write (Some rb) (Some req) True =
      (MA_SUCCESS, Some n, Some (of_nat (W mod unat (subbufferSizeInBytes rb))),
       Some (if clearOnWriteAcquire rb
             then rb\<lparr>pBuffer := map_option (zero_range (W mod unat (subbufferSizeInBytes rb)) (unat n)) (pBuffer rb)\<rparr>
             else rb))"
    "unat n = min (unat req) (rb_writable (unat (subbufferSizeInBytes rb)) R W)"
proof -
  define cap where "cap = unat (subbufferSizeInBytes rb)"
  note d = rb_atD [OF at, folded cap_def]
  define avail :: u32 where "avail = (if W div cap = R div cap
      then subbufferSizeInBytes rb - of_nat (W mod cap) else of_nat (R mod cap) - of_nat (W mod cap))"
  have avail: "unat avail = rb_writable cap R W"
  proof (cases "W div cap = R div cap")
    case True
    note m = mod_same_loop [OF d(3) True]
    have w: "W mod cap < cap" using d(1) by simp
    then have "unat avail = cap - W mod cap"
      using True d(2) by (simp add: avail_def unat_sub_cap cap_def)
    then show ?thesis using m w d(3) by (simp add: rb_writable_def)
  next
    case False
    then have n: "W div cap = R div cap + 1" using div_next [OF d(1,3,4)] by simp
    note m = mod_next_loop [OF d(1,3) n]
    have le: "W mod cap \<le> R mod cap" using m d(4) by linarith
    have "unat avail = R mod cap - W mod cap"
      using False le d(8) by (simp add: avail_def unat_sub_small)
    moreover have "R mod cap - W mod cap = R + cap - W" "R + cap - W \<le> cap - W mod cap"
      using m le d(3,4) by linarith+
    ultimately show ?thesis by (simp add: rb_writable_def)
  qed
  show thesis
  proof (rule that)
    show "ma_rb_acquire_write (Some rb) (Some req) True =
      (MA_SUCCESS, Some (if ucast avail < req then ucast avail else req), Some (of_nat (W mod unat (subbufferSizeInBytes rb))),
       Some (if clearOnWriteAcquire rb
             then rb\<lparr>pBuffer := map_option (zero_range (W mod unat (subbufferSizeInBytes rb))
                (unat (if ucast avail < req then ucast avail else req))) (pBuffer rb)\<rparr>
             else rb))"
      using same_flag [OF at] same_flag' [OF at] deconstruct_enc [OF d(1,2)] unat_small [OF d(9)]
      by (simp add: ma_rb_acquire_write_def Let_def d(5,6) avail_def ma_rb__deconstruct_offset_def flip: cap_def)
    show "unat (if ucast avail < req then ucast avail else req) =
      min (unat req) (rb_writable (unat (subbufferSizeInBytes rb)) R W)"
      by (simp only: unat_if_min unat_up avail cap_def [symmetric])
  qed
qed

text \<open>Both commits compute the next offset in the same way.\<close>

lemma advance_code:
  assumes cap: "0 < unat (sz :: u32)" "unat sz < 2 ^ 31" and n: "unat (k :: u64) \<le> unat sz - N mod unat sz"
  shows "(let newOffset = ucast (ucast (of_nat (N mod unat sz) :: u32) + k) :: u32
          in newOffset \<le> sz \<and>
             (let (a, f) = (if newOffset = sz then (0, loop_flag (odd (N div unat sz)) XOR 0x80000000)
                            else (newOffset, loop_flag (odd (N div unat sz))))
              in ma_rb__construct_offset a f = enc (unat sz) (N + unat k)))"
proof -
  have m: "N mod unat sz < unat sz" using cap(1) by simp
  have sum: "N mod unat sz + unat k \<le> unat sz" using n m by linarith
  define off where "off = (ucast (ucast (of_nat (N mod unat sz) :: u32) + k) :: u32)"
  have u: "unat off = N mod unat sz + unat k"
  proof -
    have "unat (ucast (of_nat (N mod unat sz) :: u32) + k) = N mod unat sz + unat k"
      using sum m cap(2) by (simp add: unat_word_ariths unat_up unat_small)
    then show ?thesis using sum cap(2) by (simp add: off_def unsigned_ucast_eq take_bit_nat_eq_self)
  qed
  have eq: "off = of_nat (N mod unat sz + unat k)" by (metis of_nat_unat_u32 u)
  have eq': "of_nat (N mod unat sz) + ucast k = off" by (simp add: eq)
  have iff: "off = sz \<longleftrightarrow> N mod unat sz + unat k = unat sz" by (simp only: word_unat_eq_iff u)
  have "off \<le> sz" using sum by (simp add: word_le_nat_alt u)
  then show ?thesis
    unfolding off_def [symmetric] Let_def
    using mod_advance [OF cap(1) n] by (auto simp: iff enc_def eq')
qed

lemma commit_read_at:
  assumes at: "rb_at rb R W" and k: "unat k \<le> rb_readable (unat (subbufferSizeInBytes rb)) R W"
  shows "ma_rb_commit_read (Some rb) k =
     (MA_SUCCESS, Some (rb\<lparr>encodedReadOffset := enc (unat (subbufferSizeInBytes rb)) (R + unat k)\<rparr>))"
proof -
  note d = rb_atD [OF at]
  have "unat k \<le> unat (subbufferSizeInBytes rb) - R mod unat (subbufferSizeInBytes rb)"
    using k by (simp add: rb_readable_def)
  from advance_code [OF d(1,2) this] show ?thesis
    by (auto simp: ma_rb_commit_read_def d(5) deconstruct_enc [OF d(1,2)] Let_def not_less split: if_splits)
qed

lemma commit_write_at:
  assumes at: "rb_at rb R W" and k: "unat k \<le> rb_writable (unat (subbufferSizeInBytes rb)) R W"
  shows "ma_rb_commit_write (Some rb) k =
     (MA_SUCCESS, Some (rb\<lparr>encodedWriteOffset := enc (unat (subbufferSizeInBytes rb)) (W + unat k)\<rparr>))"
proof -
  note d = rb_atD [OF at]
  have "unat k \<le> unat (subbufferSizeInBytes rb) - W mod unat (subbufferSizeInBytes rb)"
    using k by (simp add: rb_writable_def)
  from advance_code [OF d(1,2) this] show ?thesis
    by (auto simp: ma_rb_commit_write_def d(6) deconstruct_enc [OF d(1,2)] Let_def not_less split: if_splits)
qed

lemma rb_at_read:
  assumes "rb_at rb R W" "k \<le> rb_readable (unat (subbufferSizeInBytes rb)) R W"
  shows "rb_at (rb\<lparr>encodedReadOffset := enc (unat (subbufferSizeInBytes rb)) (R + k)\<rparr>) (R + k) W"
  using assms by (auto simp: rb_at_def rb_readable_def)

lemma rb_at_write:
  assumes "rb_at rb R W" "k \<le> rb_writable (unat (subbufferSizeInBytes rb)) R W"
  shows "rb_at (rb\<lparr>encodedWriteOffset := enc (unat (subbufferSizeInBytes rb)) (W + k)\<rparr>) R (W + k)"
  using assms by (auto simp: rb_at_def rb_writable_def)

lemma rb_at_mem [simp]:
  "rb_at (rb\<lparr>pBuffer := map_option f (pBuffer rb)\<rparr>) R W \<longleftrightarrow> rb_at rb R W"
  by (simp add: rb_at_def)

lemma rb_store_sel [simp]:
  "rb_at (rb_store rb at bs) R W \<longleftrightarrow> rb_at rb R W"
  "subbufferSizeInBytes (rb_store rb at bs) = subbufferSizeInBytes rb"
  "encodedReadOffset (rb_store rb at bs) = encodedReadOffset rb"
  "encodedWriteOffset (rb_store rb at bs) = encodedWriteOffset rb"
  by (simp_all add: rb_store_def)

lemma rb_byte_store:
  "pBuffer rb \<noteq> None \<Longrightarrow>
   rb_byte (rb_store rb at bs) j = (if at \<le> j \<and> j < at + length bs then bs ! (j - at) else rb_byte rb j)"
  by (auto simp: rb_byte_def rb_store_def split: option.split)

definition small_ring :: "u32 \<Rightarrow> u32 \<Rightarrow> ma_rb" where
  "small_ring rd wr = \<lparr>pBuffer = Some (\<lambda>_. 0), subbufferSizeInBytes = 8, subbufferCount = 1,
     subbufferStrideInBytes = 8, encodedReadOffset = rd, encodedWriteOffset = wr,
     ownsBuffer = True, clearOnWriteAcquire = False\<rparr>"

lemma small_ring_at: "rb_at (small_ring 6 0x80000001) 6 9"
  by (simp add: rb_at_def small_ring_def enc_def ma_rb__construct_offset_def loop_flag_def)

section \<open>The byte queue\<close>

lemma length_rb_queue [simp]: "length (rb_queue rb R W) = W - R"
  by (simp add: rb_queue_def)

lemma length_rb_region [simp]: "length (rb_region rb at n) = n"
  by (simp add: rb_region_def)

lemma rb_byte_offsets [simp]:
  "rb_byte (rb\<lparr>encodedReadOffset := e\<rparr>) = rb_byte rb"
  "rb_byte (rb\<lparr>encodedWriteOffset := e\<rparr>) = rb_byte rb"
  by (simp_all add: rb_byte_def fun_eq_iff)

lemma rb_queue_offsets [simp]:
  "rb_queue (rb\<lparr>encodedReadOffset := e\<rparr>) = rb_queue rb"
  "rb_queue (rb\<lparr>encodedWriteOffset := e\<rparr>) = rb_queue rb"
  by (simp_all add: rb_queue_def fun_eq_iff)

lemma mod_contiguous: "0 < cap \<Longrightarrow> i < cap - R mod cap \<Longrightarrow> (R + i) mod cap = R mod cap + (i::nat)"
  using mod_advance [of cap i R] by (simp split: if_splits)

lemma region_queue:
  assumes "rb_at rb R W" "n \<le> rb_readable (unat (subbufferSizeInBytes rb)) R W"
  shows "rb_region rb (R mod unat (subbufferSizeInBytes rb)) n = take n (rb_queue rb R W)"
  using assms(2) rb_atD(1) [OF assms(1)]
  by (intro nth_equalityI) (auto simp: rb_region_def rb_queue_def rb_readable_def mod_contiguous)

lemma queue_drop: "R \<le> W \<Longrightarrow> rb_queue rb (R + n) W = drop n (rb_queue rb R W)"
  by (simp add: rb_queue_def drop_map)

lemma write_apart:
  assumes "rb_at rb R W" "n \<le> rb_writable (unat (subbufferSizeInBytes rb)) R W" "R \<le> i" "i < W"
  shows "\<not> (W mod unat (subbufferSizeInBytes rb) \<le> i mod unat (subbufferSizeInBytes rb) \<and>
            i mod unat (subbufferSizeInBytes rb) < W mod unat (subbufferSizeInBytes rb) + n)"
proof
  define cap where "cap = unat (subbufferSizeInBytes rb)"
  note d = rb_atD [OF assms(1), folded cap_def]
  assume "W mod unat (subbufferSizeInBytes rb) \<le> i mod unat (subbufferSizeInBytes rb) \<and>
          i mod unat (subbufferSizeInBytes rb) < W mod unat (subbufferSizeInBytes rb) + n"
  then obtain j where j: "i mod cap = W mod cap + j" "j < n"
    by (auto simp: cap_def dest!: le_Suc_ex)
  have "(W + j) mod cap = W mod cap + j"
    using j(2) assms(2) d(1) by (intro mod_contiguous) (auto simp: rb_writable_def cap_def)
  then have "cap dvd W + j - i" using j(1) assms(4) by (metis mod_eq_dvd_iff_nat less_imp_le_nat trans_le_add1)
  moreover have "0 < W + j - i" "W + j - i < cap"
    using j(2) assms(2-4) d(3,4) by (auto simp: rb_writable_def cap_def)
  ultimately show False using nat_dvd_not_less by blast
qed

lemma queue_store:
  assumes "rb_at rb R W" "off + length bs \<le> rb_writable (unat (subbufferSizeInBytes rb)) R W"
  shows "rb_queue (rb_store rb (W mod unat (subbufferSizeInBytes rb) + off) bs) R W = rb_queue rb R W"
  using write_apart [OF assms] rb_atD(7) [OF assms(1)]
  by (auto simp: rb_queue_def rb_byte_store add.assoc)

lemma region_store:
  assumes "rb_at rb R W" "off + length bs \<le> rb_writable (unat (subbufferSizeInBytes rb)) R W"
    "n \<le> rb_readable (unat (subbufferSizeInBytes rb)) R W"
  shows "rb_region (rb_store rb (W mod unat (subbufferSizeInBytes rb) + off) bs) (R mod unat (subbufferSizeInBytes rb)) n =
         rb_region rb (R mod unat (subbufferSizeInBytes rb)) n"
proof -
  define rb' where "rb' = rb_store rb (W mod unat (subbufferSizeInBytes rb) + off) bs"
  have [simp]: "subbufferSizeInBytes rb' = subbufferSizeInBytes rb" "rb_at rb' R W"
    using assms(1) by (simp_all add: rb'_def)
  have "rb_region rb' (R mod unat (subbufferSizeInBytes rb')) n = take n (rb_queue rb' R W)"
    by (rule region_queue) (use assms(3) in simp_all)
  also have "\<dots> = take n (rb_queue rb R W)"
    by (simp only: rb'_def queue_store [OF assms(1,2)])
  also have "\<dots> = rb_region rb (R mod unat (subbufferSizeInBytes rb)) n"
    by (simp only: region_queue [OF assms(1,3)])
  finally show ?thesis by (simp add: rb'_def)
qed

lemma zero_range_store:
  "rb\<lparr>pBuffer := map_option (zero_range a n) (pBuffer rb)\<rparr> = rb_store rb a (replicate n 0)"
proof -
  have "zero_range a n = (\<lambda>mem j. if a \<le> j \<and> j < a + n then replicate n 0 ! (j - a) else mem j)"
    by (auto simp: zero_range_def fun_eq_iff)
  then show ?thesis by (simp add: rb_store_def)
qed

lemma region_stored:
  "pBuffer rb \<noteq> None \<Longrightarrow> rb_region (rb_store rb at bs) at (length bs) = bs"
  by (rule nth_equalityI) (auto simp: rb_region_def rb_byte_store)

text \<open>The acquisition of a write region, in the form of a store (of zeros when the buffer clears).\<close>

lemma acquire_write_store:
  assumes at: "rb_at rb R W"
  obtains n zs where "ma_rb_acquire_write (Some rb) (Some req) True =
      (MA_SUCCESS, Some n, Some (of_nat (W mod unat (subbufferSizeInBytes rb))),
       Some (rb_store rb (W mod unat (subbufferSizeInBytes rb) + 0) zs))"
    "unat n = min (unat req) (rb_writable (unat (subbufferSizeInBytes rb)) R W)" "length zs \<le> unat n"
proof -
  obtain n where n: "ma_rb_acquire_write (Some rb) (Some req) True =
      (MA_SUCCESS, Some n, Some (of_nat (W mod unat (subbufferSizeInBytes rb))),
       Some (if clearOnWriteAcquire rb
             then rb\<lparr>pBuffer := map_option (zero_range (W mod unat (subbufferSizeInBytes rb)) (unat n)) (pBuffer rb)\<rparr>
             else rb))"
    "unat n = min (unat req) (rb_writable (unat (subbufferSizeInBytes rb)) R W)"
    by (rule acquire_write_at [OF at])
  have id: "rb = rb_store rb a []" for a
  proof -
    have "map_option (\<lambda>mem j. if a \<le> j \<and> j < a + length [] then [] ! (j - a) else mem j) (pBuffer rb) = pBuffer rb"
      by (cases "pBuffer rb") (auto simp: fun_eq_iff)
    then show ?thesis unfolding rb_store_def by simp
  qed
  show thesis
  proof (cases "clearOnWriteAcquire rb")
    case True
    show thesis by (rule that [of n "replicate (unat n) 0"]) (use n True in \<open>simp_all add: zero_range_store\<close>)
  next
    case False
    show thesis by (rule that [of n "[]"]) (use n False id in simp_all)
  qed
qed

lemma queue_append:
  assumes "rb_at rb R W" "n \<le> rb_writable (unat (subbufferSizeInBytes rb)) R W"
  shows "rb_queue rb R (W + n) = rb_queue rb R W @ rb_region rb (W mod unat (subbufferSizeInBytes rb)) n"
proof -
  note d = rb_atD [OF assms(1)]
  have "map (\<lambda>i. rb_byte rb (i mod unat (subbufferSizeInBytes rb))) [W..<W + n] =
        rb_region rb (W mod unat (subbufferSizeInBytes rb)) n"
  proof (rule nth_equalityI)
    fix i assume "i < length (map (\<lambda>i. rb_byte rb (i mod unat (subbufferSizeInBytes rb))) [W..<W + n])"
    then have i: "i < n" by simp
    then have "i < unat (subbufferSizeInBytes rb) - W mod unat (subbufferSizeInBytes rb)"
      using assms(2) unfolding rb_writable_def by linarith
    from i mod_contiguous [OF d(1) this]
    show "map (\<lambda>i. rb_byte rb (i mod unat (subbufferSizeInBytes rb))) [W..<W + n] ! i =
          rb_region rb (W mod unat (subbufferSizeInBytes rb)) n ! i"
      by (simp add: rb_region_def)
  qed simp
  moreover have "[R..<W + n] = [R..<W] @ [W..<W + n]" by (rule upt_add_eq_append [OF d(3)])
  ultimately show ?thesis by (simp add: rb_queue_def)
qed

text \<open>C23: One side at a time, against the byte queue. Reading: \<open>ma_rb_acquire_read\<close> grants the smaller of
  the request and the bytes that are contiguous, they are the front of the queue, and committing them
  drops them from it. Writing: what is stored in a region \<open>ma_rb_acquire_write\<close> granted is appended to the
  queue by the commit, and no queued byte changes.\<close>

theorem ma_rb_is_a_queue:
  assumes at: "rb_at rb R W"
  shows "(\<exists>n p. ma_rb_acquire_read (Some rb) (Some req) True = (MA_SUCCESS, Some n, Some p) \<and>
           (0 < unat req \<and> R < W \<longrightarrow> 0 < unat n) \<and> unat n \<le> unat req \<and>
           rb_region rb (unat p) (unat n) = take (unat n) (rb_queue rb R W) \<and>
           (\<forall>k. unat k \<le> unat n \<longrightarrow>
              (\<exists>rb'. ma_rb_commit_read (Some rb) k = (MA_SUCCESS, Some rb') \<and> rb_at rb' (R + unat k) W \<and>
                     rb_queue rb' (R + unat k) W = drop (unat k) (rb_queue rb R W)))) \<and>
         (\<exists>n p rb1. ma_rb_acquire_write (Some rb) (Some req) True = (MA_SUCCESS, Some n, Some p, Some rb1) \<and>
           (0 < unat req \<and> W < R + unat (subbufferSizeInBytes rb) \<longrightarrow> 0 < unat n) \<and> unat n \<le> unat req \<and>
           (\<forall>bs k. length bs = unat k \<and> unat k \<le> unat n \<longrightarrow>
              (\<exists>rb'. ma_rb_commit_write (Some (rb_store rb1 (unat p) bs)) k = (MA_SUCCESS, Some rb') \<and>
                     rb_at rb' R (W + unat k) \<and> rb_queue rb' R (W + unat k) = rb_queue rb R W @ bs)))"
proof (intro conjI)
  define cap where "cap = unat (subbufferSizeInBytes rb)"
  note d = rb_atD [OF at, folded cap_def]
  have lt: "R mod cap < cap" "W mod cap < cap" using d(1) by simp_all
  obtain n where n: "ma_rb_acquire_read (Some rb) (Some req) True = (MA_SUCCESS, Some n, Some (of_nat (R mod cap)))"
    "unat n = min (unat req) (rb_readable cap R W)"
    unfolding cap_def by (rule acquire_read_at [OF at])
  have pos: "0 < unat req \<and> R < W \<longrightarrow> 0 < unat n" using lt by (simp add: n(2) rb_readable_def)
  have "rb_region rb (R mod cap) (unat n) = take (unat n) (rb_queue rb R W)"
    unfolding cap_def by (rule region_queue [OF at]) (simp add: n(2) cap_def)
  moreover have "\<exists>rb'. ma_rb_commit_read (Some rb) k = (MA_SUCCESS, Some rb') \<and> rb_at rb' (R + unat k) W \<and>
      rb_queue rb' (R + unat k) W = drop (unat k) (rb_queue rb R W)" if "unat k \<le> unat n" for k
  proof -
    have "unat k \<le> rb_readable (unat (subbufferSizeInBytes rb)) R W" using that n(2) by (simp add: cap_def)
    from commit_read_at [OF at this] rb_at_read [OF at this] show ?thesis
      by (simp add: queue_drop [OF d(3)])
  qed
  ultimately show "\<exists>n p. ma_rb_acquire_read (Some rb) (Some req) True = (MA_SUCCESS, Some n, Some p) \<and>
           (0 < unat req \<and> R < W \<longrightarrow> 0 < unat n) \<and> unat n \<le> unat req \<and>
           rb_region rb (unat p) (unat n) = take (unat n) (rb_queue rb R W) \<and>
           (\<forall>k. unat k \<le> unat n \<longrightarrow>
              (\<exists>rb'. ma_rb_commit_read (Some rb) k = (MA_SUCCESS, Some rb') \<and> rb_at rb' (R + unat k) W \<and>
                     rb_queue rb' (R + unat k) W = drop (unat k) (rb_queue rb R W)))"
    using n pos unat_small [OF d(8)] by (intro exI [of _ n] exI [of _ "of_nat (R mod cap)"]) simp
  obtain n zs where w: "ma_rb_acquire_write (Some rb) (Some req) True =
      (MA_SUCCESS, Some n, Some (of_nat (W mod cap)), Some (rb_store rb (W mod cap + 0) zs))"
    "unat n = min (unat req) (rb_writable cap R W)" "length zs \<le> unat n"
    unfolding cap_def by (rule acquire_write_store [OF at])
  have posw: "0 < unat req \<and> W < R + cap \<longrightarrow> 0 < unat n" using lt by (simp add: w(2) rb_writable_def)
  define rb1 where "rb1 = rb_store rb (W mod cap + 0) zs"
  have zs: "0 + length zs \<le> rb_writable (unat (subbufferSizeInBytes rb)) R W"
    using w(2,3) by (simp add: cap_def)
  have q1: "rb_queue rb1 R W = rb_queue rb R W"
    unfolding rb1_def cap_def by (rule queue_store [OF at zs])
  have at1: "rb_at rb1 R W" and cap1: "subbufferSizeInBytes rb1 = subbufferSizeInBytes rb"
    using at by (simp_all add: rb1_def)
  have "\<exists>rb'. ma_rb_commit_write (Some (rb_store rb1 (W mod cap) bs)) k = (MA_SUCCESS, Some rb') \<and>
      rb_at rb' R (W + unat k) \<and> rb_queue rb' R (W + unat k) = rb_queue rb R W @ bs"
    if k: "length bs = unat k" "unat k \<le> unat n" for bs k
  proof -
    define rb2 where "rb2 = rb_store rb1 (W mod cap) bs"
    have bs: "0 + length bs \<le> rb_writable (unat (subbufferSizeInBytes rb1)) R W"
      using k w(2) by (simp add: cap1 cap_def)
    have at2: "rb_at rb2 R W" and cap2: "subbufferSizeInBytes rb2 = subbufferSizeInBytes rb"
      using at1 by (simp_all add: rb2_def cap1)
    have "rb_queue rb2 R W = rb_queue rb R W"
      using queue_store [OF at1 bs] by (simp add: rb2_def q1 cap1 cap_def)
    moreover have "rb_region rb2 (W mod unat (subbufferSizeInBytes rb2)) (unat k) = bs"
      using region_stored [of rb1 "W mod cap" bs] rb_atD(7) [OF at1] k(1) by (auto simp: rb2_def cap1 cap2 cap_def)
    moreover have kw: "unat k \<le> rb_writable (unat (subbufferSizeInBytes rb2)) R W"
      using k w(2) by (simp add: cap2 cap_def)
    ultimately have "rb_queue rb2 R (W + unat k) = rb_queue rb R W @ bs"
      using queue_append [OF at2 kw] by simp
    with commit_write_at [OF at2 kw] rb_at_write [OF at2 kw] show ?thesis
      by (simp add: rb2_def)
  qed
  with w posw show "\<exists>n p rb1. ma_rb_acquire_write (Some rb) (Some req) True = (MA_SUCCESS, Some n, Some p, Some rb1) \<and>
           (0 < unat req \<and> W < R + unat (subbufferSizeInBytes rb) \<longrightarrow> 0 < unat n) \<and> unat n \<le> unat req \<and>
           (\<forall>bs k. length bs = unat k \<and> unat k \<le> unat n \<longrightarrow>
              (\<exists>rb'. ma_rb_commit_write (Some (rb_store rb1 (unat p) bs)) k = (MA_SUCCESS, Some rb') \<and>
                     rb_at rb' R (W + unat k) \<and> rb_queue rb' R (W + unat k) = rb_queue rb R W @ bs))"
    using unat_small [OF d(9)]
    by (intro exI [of _ n] exI [of _ "of_nat (W mod cap)"] exI [of _ rb1]) (simp add: rb1_def cap_def)
qed

theorem ma_rb_is_a_queue_witness:
  "(\<exists>n p. ma_rb_acquire_read (Some (small_ring 6 0x80000001)) (Some 5) True = (MA_SUCCESS, Some n, Some p) \<and>
      0 < unat n \<and> unat n \<le> 5) \<and>
   (\<exists>n p rb1. ma_rb_acquire_write (Some (small_ring 6 0x80000001)) (Some 5) True = (MA_SUCCESS, Some n, Some p, Some rb1) \<and>
      0 < unat n \<and> unat n \<le> 5)"
proof -
  note q = ma_rb_is_a_queue [OF small_ring_at, of 5]
  have "subbufferSizeInBytes (small_ring 6 0x80000001) = 8" by (simp add: small_ring_def)
  then show ?thesis using conjunct1 [OF q] conjunct2 [OF q] by auto
qed

section \<open>One reader and one writer\<close>

text \<open>The two threads interleave at the granularity of the code's atomic operations: an acquire loads the
  other side's offset (\<open>rd_seen\<close>, \<open>wr_seen\<close>) and continues with that value, which may be stale by then;
  a commit is one exchange. \<open>sent\<close> and \<open>received\<close> record the bytes committed by either side.\<close>

record spsc =
  the_rb :: ma_rb
  rd_seen :: "u32 option"
  wr_seen :: "u32 option"
  rd_held :: nat
  wr_held :: nat
  sent :: "u8 list"
  received :: "u8 list"

inductive spsc_step :: "spsc \<Rightarrow> spsc \<Rightarrow> bool" where
  read_load: "spsc_step s (s\<lparr>rd_seen := Some (encodedWriteOffset (the_rb s))\<rparr>)"
| read_acquire: "rd_seen s = Some e \<Longrightarrow>
    ma_rb_acquire_read (Some ((the_rb s)\<lparr>encodedWriteOffset := e\<rparr>)) (Some req) True = (MA_SUCCESS, Some n, p) \<Longrightarrow>
    spsc_step s (s\<lparr>rd_seen := None, rd_held := unat n\<rparr>)"
| read_commit: "unat k \<le> rd_held s \<Longrightarrow> rd_seen s = None \<Longrightarrow>
    ma_rb_commit_read (Some (the_rb s)) k = (MA_SUCCESS, Some rb') \<Longrightarrow>
    spsc_step s (s\<lparr>the_rb := rb', rd_held := 0, received := received s @
      rb_region (the_rb s) (unat (ma_rb__extract_offset_in_bytes (encodedReadOffset (the_rb s)))) (unat k)\<rparr>)"
| write_load: "spsc_step s (s\<lparr>wr_seen := Some (encodedReadOffset (the_rb s))\<rparr>)"
| write_acquire: "wr_seen s = Some e \<Longrightarrow>
    ma_rb_acquire_write (Some ((the_rb s)\<lparr>encodedReadOffset := e\<rparr>)) (Some req) True = (MA_SUCCESS, Some n, p, Some rb') \<Longrightarrow>
    spsc_step s (s\<lparr>the_rb := (the_rb s)\<lparr>pBuffer := pBuffer rb'\<rparr>, wr_seen := None, wr_held := unat n\<rparr>)"
| write_store: "at + length bs \<le> wr_held s \<Longrightarrow> wr_seen s = None \<Longrightarrow>
    spsc_step s (s\<lparr>the_rb := rb_store (the_rb s)
      (unat (ma_rb__extract_offset_in_bytes (encodedWriteOffset (the_rb s))) + at) bs\<rparr>)"
| write_commit: "unat k \<le> wr_held s \<Longrightarrow> wr_seen s = None \<Longrightarrow>
    ma_rb_commit_write (Some (the_rb s)) k = (MA_SUCCESS, Some rb') \<Longrightarrow>
    spsc_step s (s\<lparr>the_rb := rb', wr_held := 0, sent := sent s @
      rb_region (the_rb s) (unat (ma_rb__extract_offset_in_bytes (encodedWriteOffset (the_rb s)))) (unat k)\<rparr>)"

definition spsc_start :: "ma_rb \<Rightarrow> spsc" where
  "spsc_start r = \<lparr>the_rb = r, rd_seen = None, wr_seen = None, rd_held = 0, wr_held = 0, sent = [], received = []\<rparr>"

definition spsc_inv :: "spsc \<Rightarrow> bool" where
  "spsc_inv s \<longleftrightarrow> rb_at (the_rb s) (length (received s)) (length (sent s)) \<and>
     sent s = received s @ rb_queue (the_rb s) (length (received s)) (length (sent s)) \<and>
     rd_held s \<le> rb_readable (unat (subbufferSizeInBytes (the_rb s))) (length (received s)) (length (sent s)) \<and>
     wr_held s \<le> rb_writable (unat (subbufferSizeInBytes (the_rb s))) (length (received s)) (length (sent s)) \<and>
     (\<forall>e. rd_seen s = Some e \<longrightarrow> (\<exists>W. e = enc (unat (subbufferSizeInBytes (the_rb s))) W \<and>
        length (received s) \<le> W \<and> W \<le> length (sent s))) \<and>
     (\<forall>e. wr_seen s = Some e \<longrightarrow> (\<exists>R. e = enc (unat (subbufferSizeInBytes (the_rb s))) R \<and>
        R \<le> length (received s) \<and> length (sent s) \<le> R + unat (subbufferSizeInBytes (the_rb s))))"

lemma readable_mono: "W \<le> W' \<Longrightarrow> rb_readable cap R W \<le> rb_readable cap R W'"
  by (auto simp: rb_readable_def)

lemma writable_mono: "R \<le> R' \<Longrightarrow> rb_writable cap R W \<le> rb_writable cap R' W"
  by (auto simp: rb_writable_def)

lemma own_offset:
  assumes "rb_at rb R W"
  shows "unat (ma_rb__extract_offset_in_bytes (encodedReadOffset rb)) = R mod unat (subbufferSizeInBytes rb)"
    and "unat (ma_rb__extract_offset_in_bytes (encodedWriteOffset rb)) = W mod unat (subbufferSizeInBytes rb)"
  using rb_atD [OF assms] deconstruct_enc [of "unat (subbufferSizeInBytes rb)"]
  by (simp_all add: ma_rb__deconstruct_offset_def unat_small)

lemma ma_rb_init_at:
  assumes "ma_rb_init sz prealloc copied allocated (Some old) = (MA_SUCCESS, Some r)"
  shows "rb_at r 0 0"
proof -
  have sz: "0 < sz" "sz \<le> 0x7FFFFFE0" and c: "copied = MA_SUCCESS"
    using assms by (auto simp: ma_rb_init_def ma_rb_init_ex_def Let_def word_neq_0_conv not_less split: if_splits)
  have u: "unat sz \<le> 0x7FFFFFE0" using sz(2) by (simp add: word_le_nat_alt)
  then have "unat (ucast sz :: u32) = unat sz" by (simp add: unsigned_ucast_eq take_bit_nat_eq_self)
  moreover have "0 < unat sz" using sz(1) by (simp add: word_less_nat_alt)
  moreover have "enc cap 0 = 0" for cap
    by (simp add: enc_def ma_rb__construct_offset_def loop_flag_def)
  ultimately show ?thesis using u sz c assms
    by (auto simp: ma_rb_init_def ma_rb_init_ex_def rb_at_def Let_def split: option.splits if_splits)
qed

lemma spsc_inv_start: "rb_at r 0 0 \<Longrightarrow> spsc_inv (spsc_start r)"
  by (simp add: spsc_inv_def spsc_start_def rb_queue_def)

lemma spsc_invD:
  assumes "spsc_inv s"
  shows "rb_at (the_rb s) (length (received s)) (length (sent s))"
    "sent s = received s @ rb_queue (the_rb s) (length (received s)) (length (sent s))"
    "rd_held s \<le> rb_readable (unat (subbufferSizeInBytes (the_rb s))) (length (received s)) (length (sent s))"
    "wr_held s \<le> rb_writable (unat (subbufferSizeInBytes (the_rb s))) (length (received s)) (length (sent s))"
    "rd_seen s = Some e \<Longrightarrow> \<exists>W. e = enc (unat (subbufferSizeInBytes (the_rb s))) W \<and>
        length (received s) \<le> W \<and> W \<le> length (sent s)"
    "wr_seen s = Some e \<Longrightarrow> \<exists>R. e = enc (unat (subbufferSizeInBytes (the_rb s))) R \<and>
        R \<le> length (received s) \<and> length (sent s) \<le> R + unat (subbufferSizeInBytes (the_rb s))"
  using assms unfolding spsc_inv_def by blast+

lemma spsc_read_acquire_inv:
  assumes i: "spsc_inv s" and e: "rd_seen s = Some e"
    and a: "ma_rb_acquire_read (Some ((the_rb s)\<lparr>encodedWriteOffset := e\<rparr>)) (Some req) True = (MA_SUCCESS, Some n, p)"
  shows "spsc_inv (s\<lparr>rd_seen := None, rd_held := unat n\<rparr>)"
proof -
  note d = spsc_invD [OF i]
  from d(5) [OF e] obtain W where W: "e = enc (unat (subbufferSizeInBytes (the_rb s))) W"
    "length (received s) \<le> W" "W \<le> length (sent s)" by blast
  have at: "rb_at ((the_rb s)\<lparr>encodedWriteOffset := e\<rparr>) (length (received s)) W"
    using d(1) W by (auto simp: rb_at_def)
  obtain m where "ma_rb_acquire_read (Some ((the_rb s)\<lparr>encodedWriteOffset := e\<rparr>)) (Some req) True = (MA_SUCCESS, Some m,
      Some (of_nat (length (received s) mod unat (subbufferSizeInBytes ((the_rb s)\<lparr>encodedWriteOffset := e\<rparr>)))))"
    "unat m = min (unat req) (rb_readable (unat (subbufferSizeInBytes ((the_rb s)\<lparr>encodedWriteOffset := e\<rparr>))) (length (received s)) W)"
    by (rule acquire_read_at [OF at])
  then have "unat n \<le> rb_readable (unat (subbufferSizeInBytes (the_rb s))) (length (received s)) W" using a by simp
  also have "\<dots> \<le> rb_readable (unat (subbufferSizeInBytes (the_rb s))) (length (received s)) (length (sent s))"
    by (rule readable_mono [OF W(3)])
  finally show ?thesis using i by (simp add: spsc_inv_def)
qed

lemma spsc_read_commit_inv:
  assumes i: "spsc_inv s" and k: "unat k \<le> rd_held s" and e: "rd_seen s = None"
    and c: "ma_rb_commit_read (Some (the_rb s)) k = (MA_SUCCESS, Some rb')"
  shows "spsc_inv (s\<lparr>the_rb := rb', rd_held := 0, received := received s @
      rb_region (the_rb s) (unat (ma_rb__extract_offset_in_bytes (encodedReadOffset (the_rb s)))) (unat k)\<rparr>)"
proof -
  note d = spsc_invD [OF i]
  have kr: "unat k \<le> rb_readable (unat (subbufferSizeInBytes (the_rb s))) (length (received s)) (length (sent s))"
    using k d(3) by simp
  have rb': "rb' = (the_rb s)\<lparr>encodedReadOffset :=
      enc (unat (subbufferSizeInBytes (the_rb s))) (length (received s) + unat k)\<rparr>"
    using c commit_read_at [OF d(1) kr] by simp
  have n: "min (length (sent s) - length (received s)) (unat k) = unat k"
    using kr by (simp add: rb_readable_def)
  have "rb_region (the_rb s) (unat (ma_rb__extract_offset_in_bytes (encodedReadOffset (the_rb s)))) (unat k) =
      take (unat k) (rb_queue (the_rb s) (length (received s)) (length (sent s)))"
    by (simp only: own_offset [OF d(1)] region_queue [OF d(1) kr])
  moreover have "sent s = (received s @ take (unat k) (rb_queue (the_rb s) (length (received s)) (length (sent s)))) @
      drop (unat k) (rb_queue (the_rb s) (length (received s)) (length (sent s)))"
    using d(2) by simp
  moreover have "rb_writable (unat (subbufferSizeInBytes (the_rb s))) (length (received s)) (length (sent s)) \<le>
      rb_writable (unat (subbufferSizeInBytes (the_rb s))) (length (received s) + unat k) (length (sent s))"
    by (rule writable_mono) simp
  moreover have "\<exists>R. a = enc (unat (subbufferSizeInBytes (the_rb s))) R \<and> R \<le> length (received s) + unat k \<and>
      length (sent s) \<le> R + unat (subbufferSizeInBytes (the_rb s))" if "wr_seen s = Some a" for a
    using d(6) [OF that] by (blast intro: trans_le_add1)
  ultimately show ?thesis
    using rb_at_read [OF d(1) kr] d(4) e rb_atD(3) [OF d(1)] n
    by (simp add: spsc_inv_def rb' queue_drop)
qed

lemma spsc_write_acquire_inv:
  assumes i: "spsc_inv s" and e: "wr_seen s = Some e"
    and a: "ma_rb_acquire_write (Some ((the_rb s)\<lparr>encodedReadOffset := e\<rparr>)) (Some req) True = (MA_SUCCESS, Some n, p, Some rb')"
  shows "spsc_inv (s\<lparr>the_rb := (the_rb s)\<lparr>pBuffer := pBuffer rb'\<rparr>, wr_seen := None, wr_held := unat n\<rparr>)"
    and "rb_region ((the_rb s)\<lparr>pBuffer := pBuffer rb'\<rparr>) (length (received s) mod unat (subbufferSizeInBytes (the_rb s))) (rd_held s) =
      rb_region (the_rb s) (length (received s) mod unat (subbufferSizeInBytes (the_rb s))) (rd_held s)"
proof -
  note d = spsc_invD [OF i]
  from d(6) [OF e] obtain R where R: "e = enc (unat (subbufferSizeInBytes (the_rb s))) R"
    "R \<le> length (received s)" "length (sent s) \<le> R + unat (subbufferSizeInBytes (the_rb s))" by blast
  define old where "old = (the_rb s)\<lparr>encodedReadOffset := e\<rparr>"
  have cap: "subbufferSizeInBytes old = subbufferSizeInBytes (the_rb s)" by (simp add: old_def)
  have at: "rb_at old R (length (sent s))"
    using d(1) R by (auto simp: rb_at_def old_def)
  obtain m zs where m: "ma_rb_acquire_write (Some old) (Some req) True = (MA_SUCCESS, Some m,
      Some (of_nat (length (sent s) mod unat (subbufferSizeInBytes old))),
      Some (rb_store old (length (sent s) mod unat (subbufferSizeInBytes old) + 0) zs))"
    "unat m = min (unat req) (rb_writable (unat (subbufferSizeInBytes old)) R (length (sent s)))" "length zs \<le> unat m"
    by (rule acquire_write_store [OF at])
  have nm: "n = m" and rb': "rb' = rb_store old (length (sent s) mod unat (subbufferSizeInBytes old) + 0) zs"
    using a m(1) by (simp_all add: old_def)
  have new: "(the_rb s)\<lparr>pBuffer := pBuffer rb'\<rparr> = rb_store (the_rb s) (length (sent s) mod unat (subbufferSizeInBytes (the_rb s)) + 0) zs"
    by (simp add: rb' rb_store_def old_def)
  have n: "unat n \<le> rb_writable (unat (subbufferSizeInBytes (the_rb s))) (length (received s)) (length (sent s))"
    using m(2) writable_mono [OF R(2)] by (simp add: nm cap le_trans [OF min.cobounded2])
  have zs: "0 + length zs \<le> rb_writable (unat (subbufferSizeInBytes (the_rb s))) (length (received s)) (length (sent s))"
    using m(3) n by (simp add: nm)
  show "spsc_inv (s\<lparr>the_rb := (the_rb s)\<lparr>pBuffer := pBuffer rb'\<rparr>, wr_seen := None, wr_held := unat n\<rparr>)"
    using i n unfolding spsc_inv_def by (simp add: new queue_store [OF d(1) zs, simplified])
  show "rb_region ((the_rb s)\<lparr>pBuffer := pBuffer rb'\<rparr>) (length (received s) mod unat (subbufferSizeInBytes (the_rb s))) (rd_held s) =
      rb_region (the_rb s) (length (received s) mod unat (subbufferSizeInBytes (the_rb s))) (rd_held s)"
    by (simp only: new region_store [OF d(1) zs d(3)])
qed

lemma spsc_write_store_inv:
  assumes i: "spsc_inv s" and h: "off + length bs \<le> wr_held s" and e: "wr_seen s = None"
  shows "spsc_inv (s\<lparr>the_rb := rb_store (the_rb s) (unat (ma_rb__extract_offset_in_bytes (encodedWriteOffset (the_rb s))) + off) bs\<rparr>)"
    and "rb_region (rb_store (the_rb s) (unat (ma_rb__extract_offset_in_bytes (encodedWriteOffset (the_rb s))) + off) bs)
        (length (received s) mod unat (subbufferSizeInBytes (the_rb s))) (rd_held s) =
      rb_region (the_rb s) (length (received s) mod unat (subbufferSizeInBytes (the_rb s))) (rd_held s)"
proof -
  note d = spsc_invD [OF i]
  have h': "off + length bs \<le> rb_writable (unat (subbufferSizeInBytes (the_rb s))) (length (received s)) (length (sent s))"
    using h d(4) by simp
  show "spsc_inv (s\<lparr>the_rb := rb_store (the_rb s) (unat (ma_rb__extract_offset_in_bytes (encodedWriteOffset (the_rb s))) + off) bs\<rparr>)"
    using i unfolding spsc_inv_def own_offset [OF d(1)]
    by (simp add: queue_store [OF d(1) h'])
  show "rb_region (rb_store (the_rb s) (unat (ma_rb__extract_offset_in_bytes (encodedWriteOffset (the_rb s))) + off) bs)
        (length (received s) mod unat (subbufferSizeInBytes (the_rb s))) (rd_held s) =
      rb_region (the_rb s) (length (received s) mod unat (subbufferSizeInBytes (the_rb s))) (rd_held s)"
    by (simp only: own_offset [OF d(1)] region_store [OF d(1) h' d(3)])
qed

lemma spsc_write_commit_inv:
  assumes i: "spsc_inv s" and k: "unat k \<le> wr_held s" and e: "wr_seen s = None"
    and c: "ma_rb_commit_write (Some (the_rb s)) k = (MA_SUCCESS, Some rb')"
  shows "spsc_inv (s\<lparr>the_rb := rb', wr_held := 0, sent := sent s @
      rb_region (the_rb s) (unat (ma_rb__extract_offset_in_bytes (encodedWriteOffset (the_rb s)))) (unat k)\<rparr>)"
proof -
  note d = spsc_invD [OF i]
  have kw: "unat k \<le> rb_writable (unat (subbufferSizeInBytes (the_rb s))) (length (received s)) (length (sent s))"
    using k d(4) by simp
  have rb': "rb' = (the_rb s)\<lparr>encodedWriteOffset :=
      enc (unat (subbufferSizeInBytes (the_rb s))) (length (sent s) + unat k)\<rparr>"
    using c commit_write_at [OF d(1) kw] by simp
  have "rb_readable (unat (subbufferSizeInBytes (the_rb s))) (length (received s)) (length (sent s)) \<le>
      rb_readable (unat (subbufferSizeInBytes (the_rb s))) (length (received s)) (length (sent s) + unat k)"
    by (rule readable_mono) simp
  moreover have "\<exists>W. a = enc (unat (subbufferSizeInBytes (the_rb s))) W \<and> length (received s) \<le> W \<and>
      W \<le> length (sent s) + unat k" if "rd_seen s = Some a" for a
    using d(5) [OF that] by (blast intro: trans_le_add1)
  ultimately show ?thesis
    using rb_at_write [OF d(1) kw] d(2,3) e queue_append [OF d(1) kw]
    by (simp add: spsc_inv_def rb' own_offset [OF d(1)])
qed

lemma spsc_step_inv:
  assumes "spsc_step s s'" "spsc_inv s"
  shows "spsc_inv s' \<and>
    rb_region (the_rb s') (length (received s) mod unat (subbufferSizeInBytes (the_rb s))) (rd_held s) =
    rb_region (the_rb s) (length (received s) mod unat (subbufferSizeInBytes (the_rb s))) (rd_held s)"
  using assms
proof cases
  case read_load
  then show ?thesis using assms(2) rb_atD(3,6) [OF spsc_invD(1) [OF assms(2)]] by (auto simp: spsc_inv_def)
next
  case (read_acquire e req n p)
  then show ?thesis using spsc_read_acquire_inv [OF assms(2)] by simp
next
  case (read_commit k rb')
  have "unat k \<le> rb_readable (unat (subbufferSizeInBytes (the_rb s))) (length (received s)) (length (sent s))"
    using read_commit(2) spsc_invD(3) [OF assms(2)] by simp
  from commit_read_at [OF spsc_invD(1) [OF assms(2)] this] read_commit(4)
  have "rb_region rb' = rb_region (the_rb s)" by (auto simp: rb_region_def fun_eq_iff)
  then show ?thesis using spsc_read_commit_inv [OF assms(2) read_commit(2-4)] by (simp add: read_commit(1))
next
  case write_load
  then show ?thesis using assms(2) rb_atD(4,5) [OF spsc_invD(1) [OF assms(2)]] by (auto simp: spsc_inv_def)
next
  case (write_acquire e req n p rb')
  then show ?thesis using spsc_write_acquire_inv [OF assms(2) write_acquire(2,3)] by simp
next
  case (write_store off bs)
  then show ?thesis using spsc_write_store_inv [OF assms(2) write_store(2,3)] by simp
next
  case (write_commit k rb')
  have "unat k \<le> rb_writable (unat (subbufferSizeInBytes (the_rb s))) (length (received s)) (length (sent s))"
    using write_commit(2) spsc_invD(4) [OF assms(2)] by simp
  from commit_write_at [OF spsc_invD(1) [OF assms(2)] this] write_commit(4)
  have "rb_region rb' = rb_region (the_rb s)" by (auto simp: rb_region_def fun_eq_iff)
  then show ?thesis using spsc_write_commit_inv [OF assms(2) write_commit(2-4)] by (simp add: write_commit(1))
qed

lemma spsc_reachable_inv: "spsc_step\<^sup>*\<^sup>* s s' \<Longrightarrow> spsc_inv s \<Longrightarrow> spsc_inv s'"
  by (induction rule: rtranclp_induct) (auto dest: spsc_step_inv)

text \<open>C22: The ring buffer is safe for one reader and one writer without a lock, at the granularity of its
  atomic loads and exchanges and with stale loads: after any interleaving from \<open>ma_rb_init\<close>, what the
  reader has received followed by what the buffer holds is exactly what the writer has sent (nothing is
  lost, doubled or reordered), no more than the capacity is outstanding, and no further step of either
  thread changes a byte of the region the reader holds.\<close>

theorem ma_rb_lock_free:
  assumes "ma_rb_init sz prealloc copied allocated (Some old) = (MA_SUCCESS, Some r)"
    and "spsc_step\<^sup>*\<^sup>* (spsc_start r) s"
  shows "sent s = received s @ rb_queue (the_rb s) (length (received s)) (length (sent s)) \<and>
    length (sent s) \<le> length (received s) + unat (subbufferSizeInBytes (the_rb s)) \<and>
    (\<forall>s'. spsc_step s s' \<longrightarrow>
       rb_region (the_rb s') (unat (ma_rb__extract_offset_in_bytes (encodedReadOffset (the_rb s)))) (rd_held s) =
       rb_region (the_rb s) (unat (ma_rb__extract_offset_in_bytes (encodedReadOffset (the_rb s)))) (rd_held s))"
proof -
  have i: "spsc_inv s"
    by (rule spsc_reachable_inv [OF assms(2) spsc_inv_start [OF ma_rb_init_at [OF assms(1)]]])
  note d = spsc_invD [OF i]
  show ?thesis
    using d(2) rb_atD(4) [OF d(1)] spsc_step_inv [OF _ i] by (simp add: own_offset [OF d(1)])
qed

definition demo_ring :: ma_rb where
  "demo_ring = (small_ring 0 0)\<lparr>subbufferStrideInBytes := 32\<rparr>"

text \<open>One delivery: the writer acquires four bytes, stores three and commits them.\<close>

definition demo_run :: "spsc \<Rightarrow> spsc" where
  "demo_run s0 =
     (let s1 = s0\<lparr>wr_seen := Some (encodedReadOffset (the_rb s0))\<rparr>;
          s2 = s1\<lparr>the_rb := (the_rb s1)\<lparr>pBuffer := pBuffer (the_rb s1)\<rparr>, wr_seen := None, wr_held := unat (4 :: u64)\<rparr>;
          s3 = s2\<lparr>the_rb := rb_store (the_rb s2)
                 (unat (ma_rb__extract_offset_in_bytes (encodedWriteOffset (the_rb s2))) + 0) [1, 2, 3]\<rparr>
      in s3\<lparr>the_rb := (the_rb s3)\<lparr>encodedWriteOffset := 3\<rparr>, wr_held := 0, sent := sent s3 @
            rb_region (the_rb s3) (unat (ma_rb__extract_offset_in_bytes (encodedWriteOffset (the_rb s3)))) (unat (3 :: u64))\<rparr>)"

lemma demo_init: "ma_rb_init 8 None MA_SUCCESS True (Some demo_ring) = (MA_SUCCESS, Some demo_ring)"
  by (simp add: ma_rb_init_def ma_rb_init_ex_def demo_ring_def small_ring_def Let_def ma_align_def)

lemma demo_reaches: "spsc_step\<^sup>*\<^sup>* (spsc_start demo_ring) (demo_run (spsc_start demo_ring))"
proof -
  define s0 where "s0 = spsc_start demo_ring"
  define s1 where "s1 = s0\<lparr>wr_seen := Some (encodedReadOffset (the_rb s0))\<rparr>"
  define s2 where "s2 = s1\<lparr>the_rb := (the_rb s1)\<lparr>pBuffer := pBuffer (the_rb s1)\<rparr>, wr_seen := None, wr_held := unat (4 :: u64)\<rparr>"
  define s3 where "s3 = s2\<lparr>the_rb := rb_store (the_rb s2)
    (unat (ma_rb__extract_offset_in_bytes (encodedWriteOffset (the_rb s2))) + 0) [1, 2, 3]\<rparr>"
  note defs = s0_def s1_def s2_def s3_def spsc_start_def demo_ring_def small_ring_def
    ma_rb__extract_offset_in_bytes_def ma_rb__extract_offset_loop_flag_def ma_rb__deconstruct_offset_def
    ma_rb__construct_offset_def
  have "spsc_step s0 s1" unfolding s1_def by (rule write_load)
  moreover have "spsc_step s1 s2" unfolding s2_def
    by (rule write_acquire [where e = 0 and req = 4 and n = 4 and p = "Some 0"])
       (simp_all add: defs ma_rb_acquire_write_def)
  moreover have "spsc_step s2 s3" unfolding s3_def
    by (rule write_store) (simp_all add: defs)
  moreover have "spsc_step s3 (demo_run s0)"
    unfolding demo_run_def Let_def s1_def [symmetric] s2_def [symmetric] s3_def [symmetric]
    by (rule write_commit [where k = 3]) (simp_all add: defs ma_rb_commit_write_def rb_store_def)
  ultimately show ?thesis unfolding s0_def by (meson converse_rtranclp_into_rtranclp rtranclp.rtrancl_refl)
qed

theorem ma_rb_lock_free_witness:
  "sent (demo_run (spsc_start demo_ring)) = [1, 2, 3] \<and>
   [1, 2, 3] = received (demo_run (spsc_start demo_ring)) @ rb_queue (the_rb (demo_run (spsc_start demo_ring))) 0 3"
proof -
  have s: "sent (demo_run (spsc_start demo_ring)) = [1, 2, 3]" "received (demo_run (spsc_start demo_ring)) = []"
    by (simp_all add: demo_run_def spsc_start_def demo_ring_def small_ring_def rb_region_def rb_byte_store
        ma_rb__extract_offset_in_bytes_def upt_conv_Cons)
  with conjunct1 [OF ma_rb_lock_free [OF demo_init demo_reaches]] show ?thesis
    by (simp add: numeral_3_eq_3)
qed

section \<open>Distance, seeking\<close>

text \<open>The getters tell the truth: what \<open>ma_rb_available_read\<close> reports is the number of queued bytes,
  \<open>ma_rb_available_write\<close> the free space, and the distance is never negative.\<close>

theorem ma_rb_available:
  assumes at: "rb_at rb R W"
  shows "unat (ma_rb_available_read (Some rb)) = length (rb_queue rb R W) \<and>
    unat (ma_rb_available_write (Some rb)) = unat (subbufferSizeInBytes rb) - length (rb_queue rb R W) \<and>
    sint (ma_rb_pointer_distance (Some rb)) = int (length (rb_queue rb R W))"
proof -
  define cap where "cap = unat (subbufferSizeInBytes rb)"
  note d = rb_atD [OF at, folded cap_def]
  have lt: "W - R \<le> cap" "W - R < 2 ^ 31" using d(2,4) by simp_all
  have dist: "ma_rb_pointer_distance (Some rb) = of_nat (W - R)"
  proof (cases "W div cap = R div cap")
    case True
    note m = mod_same_loop [OF d(3) True]
    have "(of_nat (W mod cap) - of_nat (R mod cap) :: u32) = of_nat (W - R)" using m by simp
    then show ?thesis using same_flag [OF at] True
      by (simp add: ma_rb_pointer_distance_def d(5,6) deconstruct_enc [OF d(1,2)] flip: cap_def)
  next
    case False
    then have n: "W div cap = R div cap + 1" using div_next [OF d(1,3,4)] by simp
    note m = mod_next_loop [OF d(1,3) n]
    have "of_nat (W mod cap) + (subbufferSizeInBytes rb - of_nat (R mod cap)) = (of_nat (W mod cap + (cap - R mod cap)) :: u32)"
      using less_imp_le [OF conjunct2 [OF m]] of_nat_unat_u32 [of "subbufferSizeInBytes rb", folded cap_def]
      by (simp add: of_nat_diff)
    then show ?thesis using same_flag [OF at] False m
      by (simp add: ma_rb_pointer_distance_def d(5,6) deconstruct_enc [OF d(1,2)] flip: cap_def)
  qed
  have s: "sint (of_nat (W - R) :: u32) = int (W - R)"
    using lt(2) by (simp add: signed_of_nat signed_take_bit_int_eq_self)
  have "(scast (of_nat (W - R) :: u32) :: u64) = of_nat (W - R)"
    by (metis s of_int_of_nat_eq scast_eq)
  moreover have "(ucast (subbufferSizeInBytes rb) :: u64) = of_nat cap"
    by (simp add: cap_def)
  ultimately have "ma_rb_available_write (Some rb) = ucast (of_nat (cap - (W - R)) :: u64)"
    using lt(1) by (simp add: ma_rb_available_write_def dist ma_rb_get_subbuffer_size_def of_nat_diff)
  then have "unat (ma_rb_available_write (Some rb)) = cap - (W - R)"
    using d(2) by (simp add: unsigned_ucast_eq unat_of_nat take_bit_nat_eq_self)
  then show ?thesis
    using s lt(2) by (simp add: dist ma_rb_available_read_def cap_def unat_small)
qed

theorem ma_rb_available_witness:
  "unat (ma_rb_available_read (Some (small_ring 6 0x80000001))) = 3 \<and>
   unat (ma_rb_available_write (Some (small_ring 6 0x80000001))) = 5"
  using ma_rb_available [OF small_ring_at] by (simp add: small_ring_def)

text \<open>The states in which the two seeks keep the ring a queue: the distance does not pass the other side.\<close>

lemma ma_rb_seek_read_at:
  assumes at: "rb_at rb R W" and off: "unat k \<le> W - R"
  shows "ma_rb_seek_read (Some rb) k =
    (MA_SUCCESS, Some (rb\<lparr>encodedReadOffset := enc (unat (subbufferSizeInBytes rb)) (R + unat k)\<rparr>))"
proof -
  define cap where "cap = unat (subbufferSizeInBytes rb)"
  note d = rb_atD [OF at, folded cap_def]
  have lt: "R mod cap < cap" "W mod cap < cap" using d(1) by simp_all
  have kc: "unat k \<le> cap" using off d(4) by simp
  then have "\<not> ucast (subbufferSizeInBytes rb) < k" by (simp add: word_less_nat_alt unat_up cap_def)
  define total where "total = (ucast (of_nat (R mod cap) :: u32) + k :: u64)"
  have total: "unat total = R mod cap + unat k"
    using kc lt d(2,8) by (simp add: total_def unat_word_ariths unat_up unat_small)
  have low: "(ucast total :: u32) = of_nat (R mod cap + unat k)"
    by (metis total of_nat_unat)
  show ?thesis
  proof (cases "W div cap = R div cap")
    case True
    note m = mod_same_loop [OF d(3) True]
    have "unat (ucast (of_nat (W mod cap) :: u32) :: u64) = W mod cap"
      by (simp only: unat_up unat_small [OF d(9)])
    then have "\<not> ucast (of_nat (W mod cap) :: u32) < total"
      unfolding word_less_nat_alt total using m off by linarith
    have "(R + unat k) mod cap = R mod cap + unat k \<and> (R + unat k) div cap = R div cap"
      using mod_advance [OF d(1), of "unat k" R] m off lt by auto
    then have e: "enc cap (R + unat k) = ma_rb__construct_offset (of_nat (R mod cap + unat k)) (loop_flag (odd (R div cap)))"
      by (simp add: enc_def del: of_nat_add)
    show ?thesis
      using same_flag [OF at] True \<open>\<not> ucast (of_nat (W mod cap) :: u32) < total\<close> \<open>\<not> ucast (subbufferSizeInBytes rb) < k\<close>
      by (simp add: ma_rb_seek_read_def d(5,6) deconstruct_enc [OF d(1,2)] Let_def total_def [symmetric]
          low e del: of_nat_add flip: cap_def)
  next
    case False
    have le: "ucast (subbufferSizeInBytes rb) \<le> total \<longleftrightarrow> cap \<le> R mod cap + unat k"
      by (simp add: word_le_nat_alt unat_up total cap_def)
    have wrap: "(of_nat (R mod cap + unat k) :: u32) - subbufferSizeInBytes rb = of_nat (R mod cap + unat k - cap)"
      if "cap \<le> R mod cap + unat k"
      using that of_nat_unat_u32 [of "subbufferSizeInBytes rb", folded cap_def]
      by (simp add: of_nat_diff del: of_nat_add)
    have step: "(R + unat k) mod cap = (if cap \<le> R mod cap + unat k then R mod cap + unat k - cap else R mod cap + unat k) \<and>
      (R + unat k) div cap = (if cap \<le> R mod cap + unat k then R div cap + 1 else R div cap)"
      by (rule mod_advance_lap [OF d(1) kc])
    have e: "enc cap (R + unat k) = ma_rb__construct_offset
        (of_nat (if cap \<le> R mod cap + unat k then R mod cap + unat k - cap else R mod cap + unat k))
        (loop_flag (odd (if cap \<le> R mod cap + unat k then R div cap + 1 else R div cap)))"
      by (simp only: enc_def step)
    show ?thesis
      using same_flag [OF at] False \<open>\<not> ucast (subbufferSizeInBytes rb) < k\<close>
      by (auto simp: ma_rb_seek_read_def d(5,6) deconstruct_enc [OF d(1,2)] Let_def total_def [symmetric]
          low le e wrap simp del: of_nat_add simp flip: cap_def)
  qed
qed

text \<open>Seeking the reader forward by no more than what is queued drops exactly those bytes.\<close>

theorem ma_rb_seek_read_drops:
  assumes "rb_at rb R W" "unat k \<le> length (rb_queue rb R W)"
  shows "\<exists>rb'. ma_rb_seek_read (Some rb) k = (MA_SUCCESS, Some rb') \<and> rb_at rb' (R + unat k) W \<and>
    rb_queue rb' (R + unat k) W = drop (unat k) (rb_queue rb R W)"
  using ma_rb_seek_read_at [OF assms(1)] assms rb_atD(3) [OF assms(1)]
  by (auto simp: queue_drop rb_at_def)

theorem ma_rb_seek_read_drops_witness:
  "\<exists>rb'. ma_rb_seek_read (Some (small_ring 6 0x80000001)) 2 = (MA_SUCCESS, Some rb') \<and> rb_at rb' 8 9"
  using ma_rb_seek_read_drops [OF small_ring_at, of 2] by auto

text \<open>Seeking further than what is queued is not refused when the writer has wrapped: the code only
  stops at the write offset when both are on the same lap. Here 3 of 8 bytes are queued and the reader
  seeks by 8: it lands on the writer's lap past the writer, and the next \<open>ma_rb_acquire_read\<close> grants 4294967291 bytes of an 8 byte buffer.\<close>

theorem ma_rb_seek_read_escapes:
  "rb_at (small_ring 6 0x80000001) 6 9 \<and> length (rb_queue (small_ring 6 0x80000001) 6 9) = 3 \<and>
   ma_rb_seek_read (Some (small_ring 6 0x80000001)) 8 = (MA_SUCCESS, Some (small_ring 0x80000006 0x80000001)) \<and>
   ma_rb_acquire_read (Some (small_ring 0x80000006 0x80000001)) (Some 0x100000000) True =
     (MA_SUCCESS, Some 4294967291, Some 6)"
  using small_ring_at
  by (simp add: small_ring_def ma_rb_seek_read_def ma_rb_acquire_read_def ma_rb__deconstruct_offset_def
      ma_rb__extract_offset_in_bytes_def ma_rb__extract_offset_loop_flag_def ma_rb__construct_offset_def)

text \<open>The writer's seek has the same gap on the writer's side: nothing stops it when both are on one
  lap. In an empty ring of 8 bytes, both offsets at 2, a seek of 16 succeeds and stores the offset 10,
  outside of the buffer; \<open>ma_rb_available_read\<close> then answers 16.\<close>

theorem ma_rb_seek_write_escapes:
  "rb_at (small_ring 2 2) 2 2 \<and>
   ma_rb_seek_write (Some (small_ring 2 2)) 16 = (MA_SUCCESS, Some (small_ring 2 0x8000000A)) \<and>
   ma_rb__extract_offset_in_bytes 0x8000000A = 10 \<and>
   ma_rb_available_read (Some (small_ring 2 0x8000000A)) = 16"
proof -
  have "rb_at (small_ring 2 2) 2 2"
    by (simp add: rb_at_def small_ring_def enc_def ma_rb__construct_offset_def loop_flag_def)
  then show ?thesis
    by (simp add: small_ring_def ma_rb_seek_write_def ma_rb_available_read_def ma_rb_pointer_distance_def
        ma_rb__deconstruct_offset_def ma_rb__extract_offset_in_bytes_def ma_rb__extract_offset_loop_flag_def
        ma_rb__construct_offset_def)
qed

end
