(* ===== verification/Ma_Pcm_Rb.thy ===== *)
theory Ma_Pcm_Rb
  imports Ma_Rb Ma_Pcm Ma_Channels
begin

text \<open>
  \<open>ma_pcm_rb\<close>, miniaudio's ring buffer of PCM frames over \<open>ma_rb\<close>, with its data source callbacks, and
  \<open>ma_duplex_rb\<close> (\<open>client/native/miniaudio.h\<close>). Sizes in frames are multiplied by the bytes per frame in
  32 bits. The divisions are by the bytes per frame, which \<open>ma_pcm_rb_init_ex\<close> refuses to be 0;
  initialising the data source part has no way to fail and is left out.
\<close>

section \<open>Model\<close>

record ma_pcm_rb =
  base_rb :: ma_rb
  rb_format :: ma_format
  rb_channels :: u32
  rb_sampleRate :: u32

definition zero_rb :: ma_rb where
  "zero_rb = \<lparr>pBuffer = None, subbufferSizeInBytes = 0, subbufferCount = 0, subbufferStrideInBytes = 0,
     encodedReadOffset = 0, encodedWriteOffset = 0, ownsBuffer = False, clearOnWriteAcquire = False\<rparr>"

definition ma_pcm_rb_get_bpf :: "ma_pcm_rb \<Rightarrow> u32" where
  "ma_pcm_rb_get_bpf p = ma_get_bytes_per_frame (rb_format p) (rb_channels p)"

definition ma_pcm_rb_init_ex ::
    "ma_format \<Rightarrow> u32 \<Rightarrow> u32 \<Rightarrow> u32 \<Rightarrow> u32 \<Rightarrow> (nat \<Rightarrow> u8) option \<Rightarrow> rb_result \<Rightarrow> bool \<Rightarrow>
     ma_pcm_rb option \<Rightarrow> rb_result \<times> ma_pcm_rb option" where
  "ma_pcm_rb_init_ex fmt channels subbufferSizeInFrames count subbufferStrideInFrames prealloc copied allocated pRB =
     (case pRB of
        None \<Rightarrow> (MA_INVALID_ARGS, None)
      | Some _ \<Rightarrow>
          let p = \<lparr>base_rb = zero_rb, rb_format = ma_format_unknown, rb_channels = 0, rb_sampleRate = 0\<rparr>;
              bpf = ma_get_bytes_per_frame fmt channels
          in if bpf = 0 then (MA_INVALID_ARGS, Some p)
             else
               let (result, r) = ma_rb_init_ex (ucast (subbufferSizeInFrames * bpf)) (ucast count)
                     (ucast (subbufferStrideInFrames * bpf)) prealloc copied allocated (Some (base_rb p));
                   p = p\<lparr>base_rb := the r\<rparr>
               in if result \<noteq> MA_SUCCESS then (result, Some p)
                  else (MA_SUCCESS, Some (p\<lparr>rb_format := fmt, rb_channels := channels, rb_sampleRate := 0\<rparr>)))"

definition ma_pcm_rb_init ::
    "ma_format \<Rightarrow> u32 \<Rightarrow> u32 \<Rightarrow> (nat \<Rightarrow> u8) option \<Rightarrow> rb_result \<Rightarrow> bool \<Rightarrow>
     ma_pcm_rb option \<Rightarrow> rb_result \<times> ma_pcm_rb option" where
  "ma_pcm_rb_init fmt channels bufferSizeInFrames prealloc copied allocated pRB =
     ma_pcm_rb_init_ex fmt channels bufferSizeInFrames 1 0 prealloc copied allocated pRB"

definition ma_pcm_rb_uninit :: "ma_pcm_rb option \<Rightarrow> (nat \<Rightarrow> u8) option" where
  "ma_pcm_rb_uninit pRB = (case pRB of None \<Rightarrow> None | Some p \<Rightarrow> ma_rb_uninit (Some (base_rb p)))"

definition ma_pcm_rb_reset :: "ma_pcm_rb option \<Rightarrow> ma_pcm_rb option" where
  "ma_pcm_rb_reset pRB = map_option (\<lambda>p. p\<lparr>base_rb := the (ma_rb_reset (Some (base_rb p)))\<rparr>) pRB"

definition ma_pcm_rb_acquire_read :: "ma_pcm_rb option \<Rightarrow> u32 option \<Rightarrow> bool \<Rightarrow> rb_result \<times> u32 option \<times> u32 option" where
  "ma_pcm_rb_acquire_read pRB pSizeInFrames out =
     (case (pRB, pSizeInFrames) of
        (Some p, Some frames) \<Rightarrow>
          (let (result, sizeInBytes, ptr) =
                 ma_rb_acquire_read (Some (base_rb p)) (Some (ucast (frames * ma_pcm_rb_get_bpf p))) out
           in if result \<noteq> MA_SUCCESS then (result, pSizeInFrames, ptr)
              else (MA_SUCCESS, Some (ucast (the sizeInBytes div ucast (ma_pcm_rb_get_bpf p))), ptr))
      | _ \<Rightarrow> (MA_INVALID_ARGS, pSizeInFrames, None))"

definition ma_pcm_rb_commit_read :: "ma_pcm_rb option \<Rightarrow> u32 \<Rightarrow> rb_result \<times> ma_pcm_rb option" where
  "ma_pcm_rb_commit_read pRB sizeInFrames =
     (case pRB of
        None \<Rightarrow> (MA_INVALID_ARGS, None)
      | Some p \<Rightarrow>
          let (result, r) = ma_rb_commit_read (Some (base_rb p)) (ucast (sizeInFrames * ma_pcm_rb_get_bpf p))
          in (result, Some (p\<lparr>base_rb := the r\<rparr>)))"

definition ma_pcm_rb_acquire_write ::
    "ma_pcm_rb option \<Rightarrow> u32 \<Rightarrow> bool \<Rightarrow> rb_result \<times> u32 \<times> u32 option \<times> ma_pcm_rb option" where
  "ma_pcm_rb_acquire_write pRB frames out =
     (case pRB of
        None \<Rightarrow> (MA_INVALID_ARGS, frames, None, None)
      | Some p \<Rightarrow>
          let (result, sizeInBytes, ptr, r) =
                ma_rb_acquire_write (Some (base_rb p)) (Some (ucast (frames * ma_pcm_rb_get_bpf p))) out
          in if result \<noteq> MA_SUCCESS then (result, frames, ptr, pRB)
             else (MA_SUCCESS, ucast (the sizeInBytes div ucast (ma_pcm_rb_get_bpf p)), ptr,
                   Some (p\<lparr>base_rb := the r\<rparr>)))"

definition ma_pcm_rb_commit_write :: "ma_pcm_rb option \<Rightarrow> u32 \<Rightarrow> rb_result \<times> ma_pcm_rb option" where
  "ma_pcm_rb_commit_write pRB sizeInFrames =
     (case pRB of
        None \<Rightarrow> (MA_INVALID_ARGS, None)
      | Some p \<Rightarrow>
          let (result, r) = ma_rb_commit_write (Some (base_rb p)) (ucast (sizeInFrames * ma_pcm_rb_get_bpf p))
          in (result, Some (p\<lparr>base_rb := the r\<rparr>)))"

definition ma_pcm_rb_seek_read :: "ma_pcm_rb option \<Rightarrow> u32 \<Rightarrow> rb_result \<times> ma_pcm_rb option" where
  "ma_pcm_rb_seek_read pRB offsetInFrames =
     (case pRB of
        None \<Rightarrow> (MA_INVALID_ARGS, None)
      | Some p \<Rightarrow>
          let (result, r) = ma_rb_seek_read (Some (base_rb p)) (ucast (offsetInFrames * ma_pcm_rb_get_bpf p))
          in (result, Some (p\<lparr>base_rb := the r\<rparr>)))"

definition ma_pcm_rb_seek_write :: "ma_pcm_rb option \<Rightarrow> u32 \<Rightarrow> rb_result \<times> ma_pcm_rb option" where
  "ma_pcm_rb_seek_write pRB offsetInFrames =
     (case pRB of
        None \<Rightarrow> (MA_INVALID_ARGS, None)
      | Some p \<Rightarrow>
          let (result, r) = ma_rb_seek_write (Some (base_rb p)) (ucast (offsetInFrames * ma_pcm_rb_get_bpf p))
          in (result, Some (p\<lparr>base_rb := the r\<rparr>)))"

text \<open>The signed distance is divided by an unsigned number, hence as an unsigned one.\<close>

definition ma_pcm_rb_pointer_distance :: "ma_pcm_rb option \<Rightarrow> i32" where
  "ma_pcm_rb_pointer_distance pRB =
     (case pRB of None \<Rightarrow> 0 | Some p \<Rightarrow> ma_rb_pointer_distance (Some (base_rb p)) div ma_pcm_rb_get_bpf p)"

definition ma_pcm_rb_available_read :: "ma_pcm_rb option \<Rightarrow> u32" where
  "ma_pcm_rb_available_read pRB =
     (case pRB of None \<Rightarrow> 0 | Some p \<Rightarrow> ma_rb_available_read (Some (base_rb p)) div ma_pcm_rb_get_bpf p)"

definition ma_pcm_rb_available_write :: "ma_pcm_rb option \<Rightarrow> u32" where
  "ma_pcm_rb_available_write pRB =
     (case pRB of None \<Rightarrow> 0 | Some p \<Rightarrow> ma_rb_available_write (Some (base_rb p)) div ma_pcm_rb_get_bpf p)"

definition ma_pcm_rb_get_subbuffer_size :: "ma_pcm_rb option \<Rightarrow> u32" where
  "ma_pcm_rb_get_subbuffer_size pRB =
     (case pRB of None \<Rightarrow> 0 | Some p \<Rightarrow> ucast (ma_rb_get_subbuffer_size (Some (base_rb p)) div ucast (ma_pcm_rb_get_bpf p)))"

definition ma_pcm_rb_get_subbuffer_stride :: "ma_pcm_rb option \<Rightarrow> u32" where
  "ma_pcm_rb_get_subbuffer_stride pRB =
     (case pRB of None \<Rightarrow> 0 | Some p \<Rightarrow> ucast (ma_rb_get_subbuffer_stride (Some (base_rb p)) div ucast (ma_pcm_rb_get_bpf p)))"

definition ma_pcm_rb_get_subbuffer_offset :: "ma_pcm_rb option \<Rightarrow> u32 \<Rightarrow> u32" where
  "ma_pcm_rb_get_subbuffer_offset pRB subbufferIndex =
     (case pRB of None \<Rightarrow> 0
      | Some p \<Rightarrow> ucast (ma_rb_get_subbuffer_offset (Some (base_rb p)) (ucast subbufferIndex) div ucast (ma_pcm_rb_get_bpf p)))"

definition ma_pcm_rb_get_subbuffer_ptr :: "ma_pcm_rb option \<Rightarrow> u32 \<Rightarrow> u64 option" where
  "ma_pcm_rb_get_subbuffer_ptr pRB subbufferIndex =
     (case pRB of None \<Rightarrow> None | Some p \<Rightarrow> ma_rb_get_subbuffer_ptr (Some (base_rb p)) (ucast subbufferIndex))"

definition ma_pcm_rb_get_format :: "ma_pcm_rb option \<Rightarrow> ma_format" where
  "ma_pcm_rb_get_format pRB = (case pRB of None \<Rightarrow> ma_format_unknown | Some p \<Rightarrow> rb_format p)"

definition ma_pcm_rb_get_channels :: "ma_pcm_rb option \<Rightarrow> u32" where
  "ma_pcm_rb_get_channels pRB = (case pRB of None \<Rightarrow> 0 | Some p \<Rightarrow> rb_channels p)"

definition ma_pcm_rb_get_sample_rate :: "ma_pcm_rb option \<Rightarrow> u32" where
  "ma_pcm_rb_get_sample_rate pRB = (case pRB of None \<Rightarrow> 0 | Some p \<Rightarrow> rb_sampleRate p)"

definition ma_pcm_rb_set_sample_rate :: "ma_pcm_rb option \<Rightarrow> u32 \<Rightarrow> ma_pcm_rb option" where
  "ma_pcm_rb_set_sample_rate pRB rate = map_option (\<lambda>p. p\<lparr>rb_sampleRate := rate\<rparr>) pRB"

section \<open>The data source\<close>

definition silence_byte :: "ma_format \<Rightarrow> u8" where
  "silence_byte fmt = (if fmt = ma_format_u8 then 128 else 0)"

definition ma_silence_pcm_frames :: "u64 \<Rightarrow> ma_format \<Rightarrow> u32 \<Rightarrow> u8 list" where
  "ma_silence_pcm_frames frameCount fmt channels =
     replicate (unat frameCount * unat (ma_get_bytes_per_frame fmt channels)) (silence_byte fmt)"

definition ma_copy_pcm_frames :: "(nat \<Rightarrow> u8) \<Rightarrow> nat \<Rightarrow> u64 \<Rightarrow> ma_format \<Rightarrow> u32 \<Rightarrow> u8 list" where
  "ma_copy_pcm_frames mem off frameCount fmt channels =
     map mem [off..<off + unat frameCount * unat (ma_get_bytes_per_frame fmt channels)]"

text \<open>The loop appends the bytes it stores to \<open>out\<close>; the last component is \<open>totalFramesRead\<close> at the exit.\<close>

partial_function (option) pcm_rb_read_loop ::
    "u64 \<Rightarrow> ma_pcm_rb \<Rightarrow> u64 \<Rightarrow> u8 list \<Rightarrow> (ma_pcm_rb \<times> u8 list \<times> u64) option" where
  "pcm_rb_read_loop frameCount p done_frames out =
     (if done_frames < frameCount
      then let framesToRead = frameCount - done_frames;
               framesToRead = (if 0xFFFFFFFF < framesToRead then 0xFFFFFFFF else framesToRead);
               (result, mapped, ptr) = ma_pcm_rb_acquire_read (Some p) (Some (ucast framesToRead)) True
           in if result \<noteq> MA_SUCCESS then Some (p, out, done_frames)
              else if the mapped = 0 then Some (p, out, done_frames)
              else let out = out @ ma_copy_pcm_frames (rb_byte (base_rb p)) (unat (the ptr)) (ucast (the mapped))
                             (rb_format p) (rb_channels p);
                       (result, q) = ma_pcm_rb_commit_read (Some p) (the mapped)
                   in if result \<noteq> MA_SUCCESS then Some (the q, out, done_frames)
                      else pcm_rb_read_loop frameCount (the q) (done_frames + ucast (the mapped)) out
      else Some (p, out, done_frames))"

definition ma_pcm_rb_data_source__on_read :: "ma_pcm_rb \<Rightarrow> u64 \<Rightarrow> (ma_pcm_rb \<times> u8 list \<times> u64) option" where
  "ma_pcm_rb_data_source__on_read p frameCount =
     (case pcm_rb_read_loop frameCount p 0 [] of
        None \<Rightarrow> None
      | Some (p, out, done_frames) \<Rightarrow>
          if done_frames < frameCount
          then Some (p, out @ ma_silence_pcm_frames (frameCount - done_frames) (rb_format p) (rb_channels p), frameCount)
          else Some (p, out, done_frames))"

text \<open>A null out-pointer is \<open>None\<close>.\<close>

definition ma_pcm_rb_data_source__on_get_data_format ::
    "ma_pcm_rb \<Rightarrow> ma_format option \<Rightarrow> u32 option \<Rightarrow> u32 option \<Rightarrow> channel_map option \<Rightarrow> nat \<Rightarrow>
     ma_format option \<times> u32 option \<times> u32 option \<times> channel_map option" where
  "ma_pcm_rb_data_source__on_get_data_format p pFormat pChannels pSampleRate pChannelMap channelMapCap =
     (map_option (\<lambda>_. rb_format p) pFormat, map_option (\<lambda>_. rb_channels p) pChannels,
      map_option (\<lambda>_. rb_sampleRate p) pSampleRate,
      ma_channel_map_init_standard ma_standard_channel_map_default pChannelMap channelMapCap (rb_channels p))"

section \<open>The duplex ring buffer\<close>

definition ma_calculate_frame_count_after_resampling :: "u32 \<Rightarrow> u32 \<Rightarrow> u64 \<Rightarrow> u64" where
  "ma_calculate_frame_count_after_resampling sampleRateOut sampleRateIn frameCountIn =
     (if sampleRateIn = 0 \<or> sampleRateOut = 0 \<or> frameCountIn = 0 then 0
      else if sampleRateOut = sampleRateIn then frameCountIn
      else let outputFrameCount = (frameCountIn * ucast sampleRateOut) div ucast sampleRateIn;
               fromFrac = (outputFrameCount * ucast (sampleRateIn div sampleRateOut)) div ucast sampleRateOut;
               preliminary = outputFrameCount * ucast (sampleRateIn mod sampleRateOut) + fromFrac
           in if preliminary \<le> frameCountIn then outputFrameCount + 1 else outputFrameCount)"

definition ma_duplex_rb_init ::
    "ma_format \<Rightarrow> u32 \<Rightarrow> u32 \<Rightarrow> u32 \<Rightarrow> u32 \<Rightarrow> rb_result \<Rightarrow> bool \<Rightarrow> ma_pcm_rb \<Rightarrow> rb_result \<times> ma_pcm_rb" where
  "ma_duplex_rb_init fmt channels sampleRate internalSampleRate internalPeriod copied allocated p =
     (let sizeInFrames = ucast (ma_calculate_frame_count_after_resampling sampleRate internalSampleRate (ucast (internalPeriod * 5))) :: u32
      in if sizeInFrames = 0 then (MA_INVALID_ARGS, p)
         else
           let (result, q) = ma_pcm_rb_init fmt channels sizeInFrames None copied allocated (Some p)
           in if result \<noteq> MA_SUCCESS then (result, the q)
              else (MA_SUCCESS, the (snd (ma_pcm_rb_seek_write q (internalPeriod * 2)))))"

section \<open>Frames\<close>

text \<open>The buffer holds \<open>F\<close> frames of \<open>b\<close> bytes; \<open>R\<close> frames have been read and \<open>W\<close> written.\<close>

definition pcm_at :: "ma_pcm_rb \<Rightarrow> nat \<Rightarrow> nat \<Rightarrow> nat \<Rightarrow> nat \<Rightarrow> bool" where
  "pcm_at p F b R W \<longleftrightarrow> unat (ma_pcm_rb_get_bpf p) = b \<and> 0 < b \<and>
     unat (subbufferSizeInBytes (base_rb p)) = F * b \<and> rb_at (base_rb p) (R * b) (W * b)"

definition pcm_queue :: "ma_pcm_rb \<Rightarrow> nat \<Rightarrow> nat \<Rightarrow> nat \<Rightarrow> u8 list" where
  "pcm_queue p b R W = rb_queue (base_rb p) (R * b) (W * b)"

lemma readable_frames: "rb_readable (F * b) (R * b) (W * b) = rb_readable F R W * b"
  by (simp add: rb_readable_def mult_mod_left [symmetric] diff_mult_distrib [symmetric] nat_mult_min_left)

lemma writable_frames: "rb_writable (F * b) (R * b) (W * b) = rb_writable F R W * b"
  by (simp add: rb_writable_def mult_mod_left [symmetric] diff_mult_distrib [symmetric] add_mult_distrib [symmetric]
      nat_mult_min_left)

lemma unat_mult_small: "unat (x :: u32) * unat y < 2 ^ 32 \<Longrightarrow> unat (x * y) = unat x * unat y"
  by (simp add: unat_word_ariths)

lemma pcm_acquire_read_at:
  assumes at: "pcm_at p F b R W" and f: "unat frames * b < 2 ^ 32"
  shows "\<exists>n ptr. ma_pcm_rb_acquire_read (Some p) (Some frames) True = (MA_SUCCESS, Some n, Some ptr) \<and>
      unat n = min (unat frames) (rb_readable F R W) \<and> unat ptr = R * b mod (F * b)"
proof -
  note a = at [unfolded pcm_at_def]
  have rb: "rb_at (base_rb p) (R * b) (W * b)" and cap: "unat (subbufferSizeInBytes (base_rb p)) = F * b"
    and b: "unat (ma_pcm_rb_get_bpf p) = b" "0 < b" using a by simp_all
  obtain m where m: "ma_rb_acquire_read (Some (base_rb p)) (Some (ucast (frames * ma_pcm_rb_get_bpf p))) True =
      (MA_SUCCESS, Some m, Some (of_nat (R * b mod unat (subbufferSizeInBytes (base_rb p)))))"
    "unat m = min (unat (ucast (frames * ma_pcm_rb_get_bpf p) :: u64))
       (rb_readable (unat (subbufferSizeInBytes (base_rb p))) (R * b) (W * b))"
    by (rule acquire_read_at [OF rb])
  have "unat (frames * ma_pcm_rb_get_bpf p) = unat frames * b"
    using unat_mult_small [of frames "ma_pcm_rb_get_bpf p"] f by (simp add: b)
  then have mn: "unat m = min (unat frames) (rb_readable F R W) * b"
    using m(2) by (simp add: unat_up cap readable_frames nat_mult_min_left)
  define n :: u32 where "n = ucast (m div ucast (ma_pcm_rb_get_bpf p))"
  have "unat (m div ucast (ma_pcm_rb_get_bpf p)) = min (unat frames) (rb_readable F R W)"
    using b by (simp add: unat_div unat_up mn)
  moreover have "min (unat frames) (rb_readable F R W) < 2 ^ 32"
    using unsigned_less [of frames, where ?'a = nat] by simp
  ultimately have "unat n = min (unat frames) (rb_readable F R W)"
    by (simp add: n_def unsigned_ucast_eq take_bit_nat_eq_self)
  moreover have "unat (of_nat (R * b mod (F * b)) :: u32) = R * b mod (F * b)"
    using rb_atD(8) [OF rb] by (intro unat_small) (simp only: cap)
  ultimately show ?thesis
    by (intro exI [of _ n] exI [of _ "of_nat (R * b mod (F * b))"]) (simp add: ma_pcm_rb_acquire_read_def m(1) n_def cap)
qed

lemma pcm_commit_read_at:
  assumes at: "pcm_at p F b R W" and k: "unat k \<le> rb_readable F R W"
  shows "\<exists>q. ma_pcm_rb_commit_read (Some p) k = (MA_SUCCESS, Some q) \<and> pcm_at q F b (R + unat k) W \<and>
      pcm_queue q b (R + unat k) W = drop (unat k * b) (pcm_queue p b R W) \<and>
      rb_format q = rb_format p \<and> rb_channels q = rb_channels p"
proof -
  note a = at [unfolded pcm_at_def]
  have rb: "rb_at (base_rb p) (R * b) (W * b)" and cap: "unat (subbufferSizeInBytes (base_rb p)) = F * b"
    and b: "unat (ma_pcm_rb_get_bpf p) = b" "0 < b" using a by simp_all
  note d = rb_atD [OF rb]
  have kb: "unat k * b \<le> rb_readable (F * b) (R * b) (W * b)" using k by (simp add: readable_frames)
  also have "\<dots> \<le> F * b" by (simp add: rb_readable_def)
  also have "F * b < 2 ^ 31" by (rule d(2) [unfolded cap])
  finally have "unat k * b < 2 ^ 31" .
  then have "unat k * b < 2 ^ 32" by (rule less_trans) simp
  then have u: "unat (ucast (k * ma_pcm_rb_get_bpf p) :: u64) = unat k * b"
    using unat_mult_small [of k "ma_pcm_rb_get_bpf p"] by (simp add: unat_up b)
  have kb': "unat (ucast (k * ma_pcm_rb_get_bpf p) :: u64) \<le> rb_readable (unat (subbufferSizeInBytes (base_rb p))) (R * b) (W * b)"
    using kb by (simp add: u cap)
  note c = commit_read_at [OF rb kb', unfolded u cap]
  have "rb_at ((base_rb p)\<lparr>encodedReadOffset := enc (F * b) (R * b + unat k * b)\<rparr>) (R * b + unat k * b) (W * b)"
    using rb_at_read [OF rb kb'] by (simp add: u cap)
  moreover have "ma_pcm_rb_commit_read (Some p) k = (MA_SUCCESS, Some (p\<lparr>base_rb :=
      (base_rb p)\<lparr>encodedReadOffset := enc (F * b) (R * b + unat k * b)\<rparr>\<rparr>))"
    by (simp add: ma_pcm_rb_commit_read_def c)
  ultimately show ?thesis
    using a queue_drop [OF d(3), of "base_rb p" "unat k * b"]
    by (simp add: pcm_at_def pcm_queue_def ma_pcm_rb_get_bpf_def add_mult_distrib)
qed

lemma copy_is_queue:
  assumes at: "pcm_at p F b R W" and n: "unat n \<le> rb_readable F R W"
  shows "ma_copy_pcm_frames (rb_byte (base_rb p)) (R * b mod (F * b)) (ucast (n :: u32)) (rb_format p) (rb_channels p) =
    take (unat n * b) (pcm_queue p b R W)"
proof -
  have rb: "rb_at (base_rb p) (R * b) (W * b)" and cap: "unat (subbufferSizeInBytes (base_rb p)) = F * b"
    and b: "unat (ma_get_bytes_per_frame (rb_format p) (rb_channels p)) = b"
    using at by (simp_all add: pcm_at_def ma_pcm_rb_get_bpf_def)
  have "unat n * b \<le> rb_readable (unat (subbufferSizeInBytes (base_rb p))) (R * b) (W * b)"
    using n by (simp add: cap readable_frames)
  from region_queue [OF rb this] show ?thesis
    by (simp add: ma_copy_pcm_frames_def pcm_queue_def rb_region_def unat_up b cap)
qed

lemma pcm_atD:
  assumes "pcm_at p F b R W"
  shows "0 < b" "0 < F" "R \<le> W" "W \<le> R + F"
proof -
  have b: "0 < b" and cap: "unat (subbufferSizeInBytes (base_rb p)) = F * b" and rb: "rb_at (base_rb p) (R * b) (W * b)"
    using assms by (simp_all add: pcm_at_def)
  note d = rb_atD [OF rb, unfolded cap]
  show "0 < b" "0 < F" "R \<le> W" using b d(1,3) by simp_all
  show "W \<le> R + F" using d(4) b by (simp add: add_mult_distrib [symmetric])
qed

text \<open>The loop hands out the frames that are queued, up to the number that is missing.\<close>

lemma pcm_rb_read_loop_at:
  assumes "pcm_at p F b R W" "unat frameCount * b < 2 ^ 32" "unat t \<le> unat frameCount"
  shows "\<exists>q. pcm_rb_read_loop frameCount p t out =
      Some (q, out @ take (min (unat frameCount - unat t) (W - R) * b) (pcm_queue p b R W),
            t + of_nat (min (unat frameCount - unat t) (W - R))) \<and>
    pcm_at q F b (R + min (unat frameCount - unat t) (W - R)) W \<and>
    pcm_queue q b (R + min (unat frameCount - unat t) (W - R)) W =
      drop (min (unat frameCount - unat t) (W - R) * b) (pcm_queue p b R W) \<and>
    rb_format q = rb_format p \<and> rb_channels q = rb_channels p"
  using assms(1,3)
proof (induction "min (unat frameCount - unat t) (W - R)" arbitrary: p t out R rule: less_induct)
  case less
  note at = less.prems(1)
  note d = pcm_atD [OF at]
  let ?m = "min (unat frameCount - unat t) (W - R)"
  show ?case
  proof (cases "t < frameCount")
    case False
    then have "?m = 0" by (simp add: word_less_nat_alt)
    then show ?thesis using False at by (subst pcm_rb_read_loop.simps) simp
  next
    case True
    define f where "f = frameCount - t"
    have lt: "unat t < unat frameCount" using True by (simp add: word_less_nat_alt)
    then have f: "unat f = unat frameCount - unat t"
      unfolding f_def by (simp add: unat_sub_if')
    have "unat frameCount \<le> unat frameCount * b" using d(1) by simp
    then have fc: "unat frameCount < 2 ^ 32" by (rule le_less_trans [OF _ assms(2)])
    then have f32: "unat f < 2 ^ 32" using f by simp
    have nocap: "(if 0xFFFFFFFF < f then 0xFFFFFFFF else f) = f"
      using f32 by (simp add: word_less_nat_alt)
    have uf: "unat (ucast f :: u32) = unat f" using f32 by (simp add: unsigned_ucast_eq take_bit_nat_eq_self)
    have "unat f * b \<le> unat frameCount * b" using f by simp
    then have "unat (ucast f :: u32) * b < 2 ^ 32" using assms(2) by (simp only: uf)
    from pcm_acquire_read_at [OF at this] obtain n ptr where
      acq: "ma_pcm_rb_acquire_read (Some p) (Some (ucast f)) True = (MA_SUCCESS, Some n, Some ptr)"
      and n: "unat n = min (unat f) (rb_readable F R W)" and ptr: "unat ptr = R * b mod (F * b)" by (auto simp only: uf)
    show ?thesis
    proof (cases "n = 0")
      case n0: True
      have "R mod F < F" using d(2) by simp
      then have "W - R = 0" using n n0 f lt by (auto simp: rb_readable_def min_def split: if_splits)
      then have "?m = 0" by simp
      moreover have "pcm_rb_read_loop frameCount p t out = Some (p, out, t)"
        using acq n0 True by (subst pcm_rb_read_loop.simps) (simp add: f_def [symmetric] nocap)
      ultimately show ?thesis using at by simp
    next
      case n0: False
      then have npos: "0 < unat n" by (simp add: word_neq_0_conv word_less_nat_alt)
      have nr: "unat n \<le> rb_readable F R W" using n by simp
      obtain q where com: "ma_pcm_rb_commit_read (Some p) n = (MA_SUCCESS, Some q)"
        and q: "pcm_at q F b (R + unat n) W"
        "pcm_queue q b (R + unat n) W = drop (unat n * b) (pcm_queue p b R W)"
        "rb_format q = rb_format p" "rb_channels q = rb_channels p"
        using pcm_commit_read_at [OF at nr] by blast
      have copy: "ma_copy_pcm_frames (rb_byte (base_rb p)) (unat ptr) (ucast n) (rb_format p) (rb_channels p) =
          take (unat n * b) (pcm_queue p b R W)"
        by (simp only: ptr copy_is_queue [OF at nr])
      have step: "pcm_rb_read_loop frameCount p t out =
        pcm_rb_read_loop frameCount q (t + ucast n) (out @ take (unat n * b) (pcm_queue p b R W))"
        using acq com n0 True
        by (subst pcm_rb_read_loop.simps) (simp add: f_def [symmetric] nocap copy)
      have nle: "unat n \<le> unat frameCount - unat t" "unat n \<le> W - R"
        using n f by (simp_all add: rb_readable_def min.coboundedI1 min.coboundedI2)
      have t': "unat (t + ucast n) = unat t + unat n"
        using nle lt fc by (simp add: unat_word_ariths unat_up)
      define m' where "m' = min (unat frameCount - unat (t + ucast n)) (W - (R + unat n))"
      have m': "?m = unat n + m'" using nle unfolding m'_def t' by simp
      have rec: "\<exists>q'. pcm_rb_read_loop frameCount q (t + ucast n) (out @ take (unat n * b) (pcm_queue p b R W)) =
          Some (q', (out @ take (unat n * b) (pcm_queue p b R W)) @ take (m' * b) (pcm_queue q b (R + unat n) W),
             t + ucast n + of_nat m') \<and> pcm_at q' F b (R + unat n + m') W \<and>
          pcm_queue q' b (R + unat n + m') W = drop (m' * b) (pcm_queue q b (R + unat n) W) \<and>
          rb_format q' = rb_format q \<and> rb_channels q' = rb_channels q"
        unfolding m'_def by (rule less.hyps) (use m' npos q(1) nle lt in \<open>simp_all add: m'_def t'\<close>)
      have tk: "take (unat n * b) xs @ take (m' * b) (drop (unat n * b) xs) = take ((unat n + m') * b) xs" for xs :: "u8 list"
        by (simp add: add_mult_distrib take_add)
      have "t + ucast n + of_nat m' = t + (of_nat (unat n + m') :: u64)" by simp
      then show ?thesis
        using rec unfolding step m' q(2-4) by (simp add: tk add_mult_distrib add.commute [of "m' * b"] add.assoc)
    qed
  qed
qed

lemma pcm_rb_read_loop_start:
  assumes "pcm_at p F b R W" "unat frameCount * b < 2 ^ 32"
  shows "\<exists>q. pcm_rb_read_loop frameCount p 0 [] =
      Some (q, take (min (unat frameCount) (W - R) * b) (pcm_queue p b R W), of_nat (min (unat frameCount) (W - R))) \<and>
    pcm_at q F b (R + min (unat frameCount) (W - R)) W \<and>
    pcm_queue q b (R + min (unat frameCount) (W - R)) W = drop (min (unat frameCount) (W - R) * b) (pcm_queue p b R W) \<and>
    rb_format q = rb_format p \<and> rb_channels q = rb_channels p"
  using pcm_rb_read_loop_at [OF assms, of 0 "[]"] by simp

text \<open>C24: Reading a PCM ring buffer as a data source always returns, and returns exactly the frames asked for:
  the queued ones first, in order and across the end of the buffer, then silence in the buffer's
  format; what was handed out has left the queue. The request has to be smaller than \<open>2 ^ 32\<close> bytes.\<close>

theorem pcm_rb_on_read:
  assumes "pcm_at p F b R W" "unat frameCount * b < 2 ^ 32"
  shows "\<exists>q n. n = min (unat frameCount) (W - R) \<and>
    ma_pcm_rb_data_source__on_read p frameCount =
      Some (q, take (n * b) (pcm_queue p b R W) @ replicate ((unat frameCount - n) * b) (silence_byte (rb_format p)), frameCount) \<and>
    pcm_at q F b (R + n) W \<and> pcm_queue q b (R + n) W = drop (n * b) (pcm_queue p b R W)"
proof -
  define n where "n = min (unat frameCount) (W - R)"
  obtain q where q: "pcm_rb_read_loop frameCount p 0 [] = Some (q, take (n * b) (pcm_queue p b R W), of_nat n)"
    "pcm_at q F b (R + n) W" "pcm_queue q b (R + n) W = drop (n * b) (pcm_queue p b R W)"
    "rb_format q = rb_format p" "rb_channels q = rb_channels p"
    using pcm_rb_read_loop_start [OF assms] unfolding n_def by blast
  have le: "n \<le> unat frameCount" by (simp add: n_def)
  then have un: "unat (of_nat n :: u64) = n"
    using unsigned_less [of frameCount, where ?'a = nat] by (simp add: unat_of_nat take_bit_nat_eq_self)
  have b: "unat (ma_get_bytes_per_frame (rb_format p) (rb_channels p)) = b"
    using assms(1) by (simp add: pcm_at_def ma_pcm_rb_get_bpf_def)
  show ?thesis
  proof (cases "n = unat frameCount")
    case True
    then have "(of_nat n :: u64) = frameCount" by simp
    then show ?thesis using q True
      by (intro exI [of _ q] exI [of _ n]) (simp add: ma_pcm_rb_data_source__on_read_def n_def)
  next
    case False
    then have lt: "of_nat n < frameCount" using le un by (simp add: word_less_nat_alt)
    have "unat (frameCount - of_nat n) = unat frameCount - n" using le un by (simp add: unat_sub_if')
    then have "ma_silence_pcm_frames (frameCount - of_nat n) (rb_format q) (rb_channels q) =
        replicate ((unat frameCount - n) * b) (silence_byte (rb_format p))"
      by (simp add: ma_silence_pcm_frames_def q(4,5) b)
    then show ?thesis using q lt
      by (intro exI [of _ q] exI [of _ n]) (simp add: ma_pcm_rb_data_source__on_read_def n_def [symmetric])
  qed
qed

definition demo_pcm_rb :: ma_pcm_rb where
  "demo_pcm_rb = \<lparr>base_rb = (small_ring 6 0x80000002)\<lparr>pBuffer := Some of_nat\<rparr>, rb_format = ma_format_s16,
     rb_channels = 1, rb_sampleRate = 48000\<rparr>"

lemma demo_pcm_rb_at: "pcm_at demo_pcm_rb 4 2 3 5"
  by (simp add: pcm_at_def demo_pcm_rb_def small_ring_def ma_pcm_rb_get_bpf_def ma_get_bytes_per_frame_def
      rb_at_def enc_def ma_rb__construct_offset_def loop_flag_def)

theorem pcm_rb_on_read_witness:
  "\<exists>q. ma_pcm_rb_data_source__on_read demo_pcm_rb 3 = Some (q, [6, 7, 0, 1, 0, 0], 3) \<and> pcm_at q 4 2 5 5"
proof -
  have "unat (3 :: u64) * 2 < 2 ^ 32" by simp
  from pcm_rb_on_read [OF demo_pcm_rb_at this] obtain q where
    q: "ma_pcm_rb_data_source__on_read demo_pcm_rb 3 = Some (q, take 4 (pcm_queue demo_pcm_rb 2 3 5) @
        replicate 2 (silence_byte (rb_format demo_pcm_rb)), 3)" "pcm_at q 4 2 5 5"
    by auto
  have "pcm_queue demo_pcm_rb 2 3 5 = [6, 7, 0, 1]"
    by (simp add: pcm_queue_def rb_queue_def demo_pcm_rb_def small_ring_def rb_byte_def upt_rec)
  then show ?thesis using q by (simp add: silence_byte_def demo_pcm_rb_def numeral_2_eq_2)
qed

text \<open>Sizes in frames are multiplied in 32 bits: a request whose size in bytes is a multiple of \<open>2 ^ 32\<close>
  is answered with silence alone, whatever is queued.\<close>

lemma pcm_rb_read_wraps:
  assumes at: "pcm_at p F b R W" and t: "frameCount \<noteq> 0" "unat frameCount < 2 ^ 32"
    and w: "(ucast frameCount :: u32) * ma_pcm_rb_get_bpf p = 0"
  shows "pcm_rb_read_loop frameCount p 0 [] = Some (p, [], 0)"
proof -
  have rb: "rb_at (base_rb p) (R * b) (W * b)" using at by (simp add: pcm_at_def)
  obtain m where m: "ma_rb_acquire_read (Some (base_rb p)) (Some 0) True =
      (MA_SUCCESS, Some m, Some (of_nat (R * b mod unat (subbufferSizeInBytes (base_rb p)))))"
    "unat m = min (unat (0 :: u64)) (rb_readable (unat (subbufferSizeInBytes (base_rb p))) (R * b) (W * b))"
    by (rule acquire_read_at [OF rb])
  have "m = 0" using m(2) by (simp add: unat_eq_0)
  then have "ma_pcm_rb_acquire_read (Some p) (Some (ucast frameCount)) True =
      (MA_SUCCESS, Some 0, Some (of_nat (R * b mod unat (subbufferSizeInBytes (base_rb p)))))"
    using m(1) w by (simp add: ma_pcm_rb_acquire_read_def)
  moreover have "\<not> 0xFFFFFFFF < frameCount" "0 < frameCount"
    using t by (simp_all add: word_less_nat_alt word_neq_0_conv)
  ultimately show ?thesis by (subst pcm_rb_read_loop.simps) simp
qed

end
