(* ===== verification/Ma_Device_Io.thy ===== *)
theory Ma_Device_Io
  imports Ma_Pipeline Ma_Data Ma_Pcm_Rb
begin

text \<open>
  Between the backend and the data callback of a device (\<open>client/native/miniaudio.h\<close>): the data converters of
  \<open>ma_device__post_init_setup\<close>, and the helpers with which the backends fetch frames from the client and
  hand them frames in the format of the hardware. \<open>wrap\<close> makes a buffer of the client's samples and \<open>unwrap\<close>
  reads one. \<open>junk\<close> is what the temporary buffer on the stack holds in the iteration that starts with so many
  frames done. A call lists what it writes. \<open>None\<close> is undefined, a failed assertion or an endless loop.
\<close>

section \<open>State\<close>

record io_side =
  io_format :: ma_format
  io_channels :: u32
  io_channelMap :: channel_map
  internalFormat :: ma_format
  internalChannels :: u32
  internalSampleRate :: u32
  internalChannelMap :: channel_map
  internalPeriodSizeInFrames :: u32
  io_channelMixMode :: ma_channel_mix_mode
  io_calculateLFE :: bool
  io_converter :: ma_data_converter

record 's device_io =
  io_type :: ma_device_type
  io_sampleRate :: u32
  io_algorithm :: ma_resample_algorithm
  io_lpfOrder :: u32
  io_capture :: io_side
  io_playback :: io_side
  pInputCache :: "'s list option"
  inputCacheCap :: u64
  inputCacheConsumed :: u64
  inputCacheRemaining :: u64

definition captures :: "ma_device_type \<Rightarrow> bool" where
  "captures t \<longleftrightarrow> t \<in> {ma_device_type_capture, ma_device_type_duplex, ma_device_type_loopback}"

definition plays :: "ma_device_type \<Rightarrow> bool" where
  "plays t \<longleftrightarrow> t \<in> {ma_device_type_playback, ma_device_type_duplex}"

section \<open>Set-up of the converters\<close>

text \<open>What the client left open is taken from the hardware.\<close>

definition complete_side :: "io_side \<Rightarrow> io_side option" where
  "complete_side s =
     (let s = (if io_format s = ma_format_unknown then s\<lparr>io_format := internalFormat s\<rparr> else s);
          s = (if io_channels s = 0 then s\<lparr>io_channels := internalChannels s\<rparr> else s)
      in if io_channelMap s 0 \<noteq> MA_CHANNEL_NONE then Some s
         else if \<not> io_channels s \<le> 254 then None
         else map_option (\<lambda>m. s\<lparr>io_channelMap := m\<rparr>)
           (if internalChannels s = io_channels s
            then ma_channel_map_copy (Some (io_channelMap s)) (Some (internalChannelMap s)) (io_channels s)
            else if io_channelMixMode s = ma_channel_mix_mode_simple
            then ma_channel_map_init_blank (Some (io_channelMap s)) (io_channels s)
            else ma_channel_map_init_standard ma_standard_channel_map_default (Some (io_channelMap s)) 254 (io_channels s)))"

definition capture_converter_config :: "'s device_io \<Rightarrow> ma_data_converter_config" where
  "capture_converter_config d =
     (let s = io_capture d in ma_data_converter_config_init_default
        \<lparr>dcc_formatIn := internalFormat s, dcc_channelsIn := internalChannels s, dcc_sampleRateIn := internalSampleRate s,
         dcc_pChannelMapIn := Some (internalChannelMap s), dcc_formatOut := io_format s, dcc_channelsOut := io_channels s,
         dcc_sampleRateOut := io_sampleRate d, dcc_pChannelMapOut := Some (io_channelMap s), channelMixMode := io_channelMixMode s,
         dcc_calculateLFE := io_calculateLFE s, allowDynamicSampleRate := False, resampling_algorithm := io_algorithm d,
         resampling_lpfOrder := io_lpfOrder d\<rparr>)"

definition playback_converter_config :: "'s device_io \<Rightarrow> ma_data_converter_config" where
  "playback_converter_config d =
     (let s = io_playback d in ma_data_converter_config_init_default
        \<lparr>dcc_formatIn := io_format s, dcc_channelsIn := io_channels s, dcc_sampleRateIn := io_sampleRate d,
         dcc_pChannelMapIn := Some (io_channelMap s), dcc_formatOut := internalFormat s, dcc_channelsOut := internalChannels s,
         dcc_sampleRateOut := internalSampleRate s, dcc_pChannelMapOut := Some (internalChannelMap s),
         channelMixMode := io_channelMixMode s, dcc_calculateLFE := io_calculateLFE s, allowDynamicSampleRate := False,
         resampling_algorithm := io_algorithm d, resampling_lpfOrder := io_lpfOrder d\<rparr>)"

definition init_converter :: "bool \<Rightarrow> libm \<Rightarrow> ma_data_converter_config \<Rightarrow> io_side \<Rightarrow> (ma_result \<times> io_side) option" where
  "init_converter malloc_ok m cfg s =
     map_option (\<lambda>(result, c). (result, case c of None \<Rightarrow> s | Some c \<Rightarrow> s\<lparr>io_converter := c\<rparr>))
       (ma_data_converter_init malloc_ok m (Some cfg) (Some (io_converter s)))"

text \<open>The input cache of duplex devices and of converters that cannot tell how many frames they need. \<open>realloc n\<close>
  is memory for \<open>n\<close> samples, if there is any.\<close>

definition set_up_cache :: "(nat \<Rightarrow> 's list option) \<Rightarrow> 's device_io \<Rightarrow> ma_result \<times> 's device_io" where
  "set_up_cache realloc d =
     (let d = d\<lparr>inputCacheConsumed := 0, inputCacheRemaining := 0\<rparr>; s = io_playback d in
      if io_type d = ma_device_type_duplex \<or>
         fst (ma_data_converter_get_required_input_frame_count (Some (io_converter s)) 1 (Some 0)) \<noteq> Ma_Lpf.MA_SUCCESS
      then
        let cap = ma_calculate_frame_count_after_resampling (internalSampleRate s) (io_sampleRate d) (ucast (internalPeriodSizeInFrames s)) in
        (case realloc (unat cap * unat (io_channels s)) of
           None \<Rightarrow> (Ma_Lpf.MA_OUT_OF_MEMORY, d\<lparr>pInputCache := None, inputCacheCap := 0\<rparr>)
         | Some buf \<Rightarrow> (Ma_Lpf.MA_SUCCESS, d\<lparr>pInputCache := Some buf, inputCacheCap := cap\<rparr>))
      else (Ma_Lpf.MA_SUCCESS, d\<lparr>pInputCache := None, inputCacheCap := 0\<rparr>))"

definition complete_sides :: "ma_device_type \<Rightarrow> 's device_io \<Rightarrow> 's device_io option" where
  "complete_sides t d =
     do {
       c \<leftarrow> (if captures t then complete_side (io_capture d) else Some (io_capture d));
       p \<leftarrow> (if plays t then complete_side (io_playback d) else Some (io_playback d));
       Some (d\<lparr>io_capture := c, io_playback := p,
         io_sampleRate := (if io_sampleRate d = 0 then if captures t then internalSampleRate c else internalSampleRate p else io_sampleRate d)\<rparr>)
     }"

definition ma_device__post_init_setup ::
    "bool \<Rightarrow> bool \<Rightarrow> (nat \<Rightarrow> 's list option) \<Rightarrow> libm \<Rightarrow> ma_device_type \<Rightarrow> 's device_io \<Rightarrow> (ma_result \<times> 's device_io) option" where
  "ma_device__post_init_setup mallocC mallocP realloc m t d =
     do {
       d \<leftarrow> complete_sides t d;
       (result, c) \<leftarrow> (if captures t then init_converter mallocC m (capture_converter_config d) (io_capture d)
         else Some (Ma_Lpf.MA_SUCCESS, io_capture d));
       let d = d\<lparr>io_capture := c\<rparr>;
       if result \<noteq> Ma_Lpf.MA_SUCCESS then Some (result, d)
       else do {
         (result, p) \<leftarrow> (if plays t then init_converter mallocP m (playback_converter_config d) (io_playback d)
           else Some (Ma_Lpf.MA_SUCCESS, io_playback d));
         let d = d\<lparr>io_playback := p\<rparr>;
         if result \<noteq> Ma_Lpf.MA_SUCCESS then Some (result, d)
         else Some (if plays t then set_up_cache realloc d else (Ma_Lpf.MA_SUCCESS, d))
       }
     }"

section \<open>Frames from the client\<close>

text \<open>An iteration: a request for frames in the format of the client, and their conversion. The first of the results
  tells whether the loop goes on; the length of what is written is \<open>q\<close> frames.\<close>

definition read_iteration ::
    "'a sample_ops \<Rightarrow> 'b sample_ops \<Rightarrow> ('a, 'b, 'c) data_callback option \<Rightarrow> ('b list \<Rightarrow> pcm_buffer) \<Rightarrow> 'b list \<Rightarrow> io_side \<Rightarrow> nat
      \<Rightarrow> ('a, 'b, 'c) data_device \<Rightarrow> lcg \<Rightarrow> (bool \<times> pcm_buffer \<times> nat \<times> io_side \<times> ('a, 'b, 'c) data_device \<times> lcg) option" where
  "read_iteration aops pops onData wrap junk s left d st =
     (let m = min left (stack_frames (io_format s) (io_channels s));
          (_, required) = ma_data_converter_get_required_input_frame_count (Some (io_converter s)) (of_nat left) (Some 0);
          m = min m (unat (the required))
      in case ma_device__handle_data_callback aops pops onData d (Some (take (m * unat (io_channels s)) junk)) None (of_nat m) of
           Some (Some xs, d) \<Rightarrow>
             map_option (\<lambda>(result, out, i, q, c, st).
                 if result \<noteq> Ma_Lpf.MA_SUCCESS then (False, empty_buffer (internalFormat s), 0, s\<lparr>io_converter := c\<rparr>, d, st)
                 else (\<not> (count_of i = 0 \<and> count_of q = 0), out, unat (count_of q), s\<lparr>io_converter := c\<rparr>, d, st))
               (ma_data_converter_process_pcm_frames (io_converter s) (Some (wrap xs)) (Some (of_nat m)) True (Some (of_nat left)) st)
         | _ \<Rightarrow> None)"

partial_function (option) read_loop ::
    "'a sample_ops \<Rightarrow> 'b sample_ops \<Rightarrow> ('a, 'b, 'c) data_callback option \<Rightarrow> ('b list \<Rightarrow> pcm_buffer) \<Rightarrow> (nat \<Rightarrow> 'b list) \<Rightarrow> nat
      \<Rightarrow> nat \<Rightarrow> pcm_buffer \<Rightarrow> io_side \<Rightarrow> ('a, 'b, 'c) data_device \<Rightarrow> lcg \<Rightarrow> (pcm_buffer \<times> io_side \<times> ('a, 'b, 'c) data_device \<times> lcg) option" where
  "read_loop aops pops onData wrap junk frameCount processed out s d st =
     (if processed < frameCount then
        (case read_iteration aops pops onData wrap (junk processed) s (frameCount - processed) d st of
           None \<Rightarrow> None
         | Some (again, new, q, s, d, st) \<Rightarrow>
             if again then read_loop aops pops onData wrap junk frameCount (processed + q) (buffer_append out new) s d st
             else Some (buffer_append out new, s, d, st))
      else Some (out, s, d, st))"

text \<open>The same with the input cache, for the converters and devices that have one.\<close>

definition cached_iteration ::
    "'a sample_ops \<Rightarrow> 'b sample_ops \<Rightarrow> ('a, 'b, 'c) data_callback option \<Rightarrow> ('b list \<Rightarrow> pcm_buffer) \<Rightarrow> 'b list \<Rightarrow> nat
      \<Rightarrow> 'b device_io \<Rightarrow> ('a, 'b, 'c) data_device \<Rightarrow> lcg \<Rightarrow> (bool \<times> pcm_buffer \<times> nat \<times> 'b device_io \<times> ('a, 'b, 'c) data_device \<times> lcg) option" where
  "cached_iteration aops pops onData wrap cache left io d st =
     (let s = io_playback io;
          drained = (if 0 < inputCacheRemaining io then
              let m = min (of_nat left) (inputCacheRemaining io) in
              map_option (\<lambda>(result, out, i, q, c, st).
                  let io = io\<lparr>io_playback := s\<lparr>io_converter := c\<rparr>\<rparr> in
                  if result \<noteq> Ma_Lpf.MA_SUCCESS then (False, empty_buffer (internalFormat s), 0, io, st)
                  else (\<not> (count_of i = 0 \<and> count_of q = 0), out, unat (count_of q),
                    io\<lparr>inputCacheConsumed := inputCacheConsumed io + count_of i, inputCacheRemaining := inputCacheRemaining io - count_of i\<rparr>, st))
                (ma_data_converter_process_pcm_frames (io_converter s)
                  (Some (drop_samples (unat (inputCacheConsumed io) * unat (io_channels s)) (wrap cache))) (Some m) True (Some (of_nat left)) st)
            else Some (True, empty_buffer (internalFormat s), 0, io, st))
      in case drained of
           None \<Rightarrow> None
         | Some (again, out, q, io, st) \<Rightarrow>
             if again \<and> inputCacheRemaining io = 0 then
               (case ma_device__handle_data_callback aops pops onData d (Some cache) None (ucast (inputCacheCap io)) of
                  Some (Some xs, d) \<Rightarrow>
                    Some (True, out, q, io\<lparr>pInputCache := Some xs, inputCacheConsumed := 0, inputCacheRemaining := inputCacheCap io\<rparr>, d, st)
                | _ \<Rightarrow> None)
             else Some (again, out, q, io, d, st))"

partial_function (option) cached_loop ::
    "'a sample_ops \<Rightarrow> 'b sample_ops \<Rightarrow> ('a, 'b, 'c) data_callback option \<Rightarrow> ('b list \<Rightarrow> pcm_buffer) \<Rightarrow> nat \<Rightarrow> nat \<Rightarrow> pcm_buffer
      \<Rightarrow> 'b device_io \<Rightarrow> ('a, 'b, 'c) data_device \<Rightarrow> lcg \<Rightarrow> (pcm_buffer \<times> 'b device_io \<times> ('a, 'b, 'c) data_device \<times> lcg) option" where
  "cached_loop aops pops onData wrap frameCount processed out io d st =
     (if processed < frameCount then
        (case pInputCache io of
           None \<Rightarrow> None
         | Some cache \<Rightarrow>
             (case cached_iteration aops pops onData wrap cache (frameCount - processed) io d st of
                None \<Rightarrow> None
              | Some (again, new, q, io, d, st) \<Rightarrow>
                  if again then cached_loop aops pops onData wrap frameCount (processed + q) (buffer_append out new) io d st
                  else Some (buffer_append out new, io, d, st)))
      else Some (out, io, d, st))"

text \<open>\<open>pFramesOut\<close> is the buffer of the backend as the client sees it if there is nothing to convert.\<close>

definition ma_device__read_frames_from_client ::
    "'a sample_ops \<Rightarrow> 'b sample_ops \<Rightarrow> ('a, 'b, 'c) data_callback option \<Rightarrow> ('b list \<Rightarrow> pcm_buffer) \<Rightarrow> (nat \<Rightarrow> 'b list) \<Rightarrow> u32 \<Rightarrow> 'b list
      \<Rightarrow> 'b device_io \<Rightarrow> ('a, 'b, 'c) data_device \<Rightarrow> lcg \<Rightarrow> (pcm_buffer \<times> 'b device_io \<times> ('a, 'b, 'c) data_device \<times> lcg) option" where
  "ma_device__read_frames_from_client aops pops onData wrap junk frameCount pFramesOut io d st =
     (let s = io_playback io in
      if frameCount = 0 then None
      else if executionPath (io_converter s) = ma_data_converter_execution_path_passthrough
      then (case ma_device__handle_data_callback aops pops onData d (Some pFramesOut) None frameCount of
          Some (Some xs, d) \<Rightarrow> Some (wrap xs, io, d, st)
        | _ \<Rightarrow> None)
      else if pInputCache io \<noteq> None
      then cached_loop aops pops onData wrap (unat frameCount) 0 (empty_buffer (internalFormat s)) io d st
      else map_option (\<lambda>(out, s, d, st). (out, io\<lparr>io_playback := s\<rparr>, d, st))
        (read_loop aops pops onData wrap junk (unat frameCount) 0 (empty_buffer (internalFormat s)) s d st))"

section \<open>Frames for the client\<close>

text \<open>\<open>inp\<close> holds the frames not yet converted. The loop ends when a call neither takes nor gives a frame, or on an error.\<close>

partial_function (option) send_loop ::
    "'a sample_ops \<Rightarrow> 'b sample_ops \<Rightarrow> ('a, 'b, 'c) data_callback option \<Rightarrow> (pcm_buffer \<Rightarrow> 'a list option) \<Rightarrow> nat \<Rightarrow> pcm_buffer
      \<Rightarrow> io_side \<Rightarrow> ('a, 'b, 'c) data_device \<Rightarrow> lcg \<Rightarrow> (io_side \<times> ('a, 'b, 'c) data_device \<times> lcg) option" where
  "send_loop aops pops onData unwrap left inp s d st =
     (case ma_data_converter_process_pcm_frames (io_converter s) (Some inp) (Some (of_nat left)) True
          (Some (of_nat (stack_frames (io_format s) (io_channels s)))) st of
        None \<Rightarrow> None
      | Some (result, out, i, q, c, st) \<Rightarrow>
          let s = s\<lparr>io_converter := c\<rparr>; n = unat (count_of i); m = unat (count_of q) in
          if result \<noteq> Ma_Lpf.MA_SUCCESS then Some (s, d, st)
          else
            (case (if 0 < m then (case unwrap out of
                      None \<Rightarrow> None
                    | Some xs \<Rightarrow> map_option snd (ma_device__handle_data_callback aops pops onData d None (Some xs) (of_nat m)))
                   else Some d) of
               None \<Rightarrow> None
             | Some d \<Rightarrow>
                 if n = 0 \<and> m = 0 then Some (s, d, st)
                 else send_loop aops pops onData unwrap (left - n) (drop_samples (n * unat (internalChannels s)) inp) s d st))"

definition ma_device__send_frames_to_client ::
    "'a sample_ops \<Rightarrow> 'b sample_ops \<Rightarrow> ('a, 'b, 'c) data_callback option \<Rightarrow> (pcm_buffer \<Rightarrow> 'a list option) \<Rightarrow> u32 \<Rightarrow> pcm_buffer
      \<Rightarrow> 'b device_io \<Rightarrow> ('a, 'b, 'c) data_device \<Rightarrow> lcg \<Rightarrow> ('b device_io \<times> ('a, 'b, 'c) data_device \<times> lcg) option" where
  "ma_device__send_frames_to_client aops pops onData unwrap frameCount inp io d st =
     (let s = io_capture io in
      if frameCount = 0 then None
      else if executionPath (io_converter s) = ma_data_converter_execution_path_passthrough
      then (case unwrap inp of
          None \<Rightarrow> None
        | Some xs \<Rightarrow> map_option (\<lambda>(_, d). (io, d, st)) (ma_device__handle_data_callback aops pops onData d None (Some xs) frameCount))
      else map_option (\<lambda>(s, d, st). (io\<lparr>io_capture := s\<rparr>, d, st))
        (send_loop aops pops onData unwrap (unat frameCount) inp s d st))"

end
