(* ===== verification/Ma_Device_Stream.thy ===== *)
theory Ma_Device_Stream
  imports Ma_Device_Io Ma_Data_Capture
begin

text \<open>
  Devices whose client and hardware disagree on format or channels, at one sample rate (\<open>client/native/miniaudio.h\<close>): with
  converters between the two, the data path still carries one stream. What the backend fetches is the conversion
  of the client's stream, and what the client is given is the conversion of what the backend delivers, however
  either is cut into blocks and whatever the temporary buffers hold.
\<close>

section \<open>Blocks of converted frames\<close>

lemma frames_of_prefix: "k * w \<le> length xs \<Longrightarrow> frames_of w k (xs @ ys) = frames_of w k xs"
  using frames_of_take [of w k "xs @ ys"] frames_of_take [of w k xs] by simp

lemma buffer_has_wrap: "carrier C fmt 1 \<Longrightarrow> n * ch \<le> length xs \<Longrightarrow> buffer_has ch n (C xs)"
  by (simp add: carrier.has)

lemma pipeline_prefix:
  assumes c: "sound_stages c" and C: "carrier C (dc_formatIn c) 1"
    and m: "m * unat (dc_channelsIn c) \<le> length xs" "small_block m"
  shows "pipeline c (C (xs @ ys)) m = pipeline c (C xs) m"
proof -
  note F = framewise.frames [OF pipeline_framewise [OF c] _ _ m(2)]
  have "buffer_has (unat (dc_channelsIn c)) m (C (xs @ ys))" "buffer_has (unat (dc_channelsIn c)) m (C xs)"
    using m(1) by (simp_all add: buffer_has_wrap [OF C])
  then show ?thesis
    using F [of "C (xs @ ys)"] F [of "C xs"] frames_of_prefix [OF m(1)] by (simp add: carrier.format [OF C] carrier.frames [OF C])
qed

lemma pipeline_blocks:
  assumes c: "sound_stages c" and C: "carrier C (dc_formatIn c) 1"
    and len: "length xs = m * unat (dc_channelsIn c)" "length ys = n * unat (dc_channelsIn c)" and small: "small_block (m + n)"
  shows "pipeline c (C (xs @ ys)) (m + n) =
    Option.bind (pipeline c (C xs) m) (\<lambda>x. map_option (buffer_append x) (pipeline c (C ys) n))"
proof -
  have s: "small_block m" "small_block n" using small by (simp_all add: small_block_def)
  have has: "buffer_has (unat (dc_channelsIn c)) (m + n) (C (xs @ ys))"
    using len by (simp add: buffer_has_wrap [OF C] add_mult_distrib)
  have "drop_samples (m * unat (dc_channelsIn c)) (C (xs @ ys)) = C ys"
    using len by (simp add: carrier.shift [OF C])
  then show ?thesis
    using framewise.split [OF pipeline_framewise [OF c] carrier.format [OF C] has s small] pipeline_prefix [OF c C _ s(1), of xs ys] len(1)
    by simp
qed

lemma sound_required:
  "sound_stages c \<Longrightarrow> ma_data_converter_get_required_input_frame_count (Some c) n (Some 0) = (Ma_Lpf.MA_SUCCESS, Some n)"
  by (simp add: ma_data_converter_get_required_input_frame_count_def converter_count_query_def sound_stages_def Let_def)

text \<open>A side of a device whose converter fits it.\<close>

definition playback_fits :: "io_side \<Rightarrow> bool" where
  "playback_fits s \<longleftrightarrow> sound_stages (io_converter s) \<and> dc_formatIn (io_converter s) = io_format s \<and>
     dc_channelsIn (io_converter s) = io_channels s \<and> dc_formatOut (io_converter s) = internalFormat s \<and>
     dc_channelsOut (io_converter s) = internalChannels s \<and> io_channels s \<noteq> 0"

definition capture_fits :: "io_side \<Rightarrow> bool" where
  "capture_fits s \<longleftrightarrow> sound_stages (io_converter s) \<and> dc_formatIn (io_converter s) = internalFormat s \<and>
     dc_channelsIn (io_converter s) = internalChannels s \<and> dc_formatOut (io_converter s) = io_format s \<and>
     dc_channelsOut (io_converter s) = io_channels s \<and> internalChannels s \<noteq> 0"

lemma client_room:
  assumes "sound_stages c" "dc_channelsIn c \<noteq> 0"
  shows "0 < stack_frames (dc_formatIn c) (dc_channelsIn c)" "0 < stack_frames (dc_formatOut c) (dc_channelsOut c)"
  using assms by (auto simp: sound_stages_def sound_mixer_def Let_def intro!: stack_frames_pos)

section \<open>Playback\<close>

context playback_client
begin

text \<open>The loop over requests to the client serves the client's stream and converts it.\<close>

lemma read_iteration_served:
  assumes s: "playback_fits s" "io_channels s = channels" and C: "carrier wrap (io_format s) 1"
    and ops: "op_silence ops = sil" "op_clip ops = None"
    and junk: "stack_frames (io_format s) (io_channels s) * unat channels \<le> length junk"
    and d: "pull_device channels cap (Fin 1) d" "I (pUserData d)" "0 < left" "small_block left"
  shows "\<exists>m xs e. 0 < m \<and> m \<le> left \<and> served cb sil channels cap m d xs e \<and> length xs = m * unat channels \<and>
    pull_device channels cap (Fin 1) e \<and> I (pUserData e) \<and>
    read_iteration aops ops (Some cb) wrap junk s left d st =
      map_option (\<lambda>new. (True, new, m, s, e, st)) (pipeline (io_converter s) (wrap xs) m)"
proof -
  let ?c = "io_converter s" and ?room = "stack_frames (io_format s) (io_channels s)"
  define m where "m = min left ?room"
  have c: "sound_stages ?c" "dc_formatIn ?c = io_format s" "dc_channelsIn ?c = channels" "dc_channelsIn ?c \<noteq> 0"
    using s by (simp_all add: playback_fits_def)
  have m: "0 < m" "m \<le> left" "small_block m" "m * unat channels \<le> length junk"
    using client_room(1) [OF c(1,4)] c s(2) d(3,4) order_trans [OF mult_le_mono1 junk, of m] by (auto simp: m_def small_block_def)
  have um: "unat (of_nat m :: u32) = m" using m(3) by (simp add: small_block_def unat_of_nat take_bit_nat_eq_self)
  have vol: "masterVolumeFactor d = Fin 1" using d(1) by (simp add: pull_device_def)
  obtain xs e where e: "ma_device__on_data ops cb d (Some (take (m * unat channels) junk)) None (of_nat m) = Some (Some xs, e)"
      "length xs = m * unat channels" "pull_device channels cap (Fin 1) e" "I (pUserData e)" "served cb sil channels cap m d xs e"
    using pull_on_data [OF d(1,2) _ ops(1), of "take (m * unat channels) junk" "of_nat m"] m(4) um by auto
  have "min (of_nat m) (of_nat left :: u64) = of_nat m"
    using m(2) small_count [OF m(3)] small_count [OF d(4)] by (simp add: min_def word_le_nat_alt)
  then have process: "ma_data_converter_process_pcm_frames ?c (Some (wrap xs)) (Some (of_nat m)) True (Some (of_nat left)) st =
      map_option (\<lambda>out. (Ma_Lpf.MA_SUCCESS, out, Some (of_nat m), Some (of_nat m), ?c, st)) (pipeline ?c (wrap xs) m)"
    using process_pipeline [OF c(1,4) _ _ m(3)] c(2,3) e(2) carrier.format [OF C] buffer_has_wrap [OF C] by simp
  have nonzero: "(of_nat m :: u64) \<noteq> 0" using small_count(1) [OF m(3)] m(1) by (metis less_numeral_extra(3) unsigned_0)
  have "min (min left ?room) (unat (of_nat left :: u64)) = m"
    unfolding small_count(1) [OF d(4)] by (simp add: m_def)
  then have "read_iteration aops ops (Some cb) wrap junk s left d st = map_option (\<lambda>new. (True, new, m, s, e, st)) (pipeline ?c (wrap xs) m)"
    using e(1) s(2) nonzero handle_unity [OF vol ops(2)] small_count(1) [OF m(3)]
    by (simp add: read_iteration_def sound_required [OF c(1)] process option.map_comp comp_def count_of_def Let_def)
  then show ?thesis using e m by blast
qed

lemma read_loop_served:
  assumes s: "playback_fits s" "io_channels s = channels" and C: "carrier wrap (io_format s) 1"
    and ops: "op_silence ops = sil" "op_clip ops = None"
    and junk: "\<And>i. stack_frames (io_format s) (io_channels s) * unat channels \<le> length (junk i)"
    and d: "pull_device channels cap (Fin 1) d" "I (pUserData d)" "small_block left" "buffer_format out = internalFormat s"
  shows "\<exists>xs e. served cb sil channels cap left d xs e \<and> length xs = left * unat channels \<and>
    pull_device channels cap (Fin 1) e \<and> I (pUserData e) \<and>
    read_loop aops ops (Some cb) wrap junk (processed + left) processed out s d st =
      map_option (\<lambda>new. (buffer_append out new, s, e, st)) (pipeline (io_converter s) (wrap xs) left)"
  using d
proof (induction left arbitrary: processed out d rule: less_induct)
  case (less left)
  let ?c = "io_converter s"
  have c: "sound_stages ?c" "dc_formatIn ?c = io_format s" "dc_channelsIn ?c = channels" "dc_formatOut ?c = internalFormat s"
    using s by (simp_all add: playback_fits_def)
  have C': "carrier wrap (dc_formatIn ?c) 1" using C c(2) by simp
  show ?case
  proof (cases "left = 0")
    case True
    have "pipeline ?c (wrap []) 0 = Some (empty_buffer (internalFormat s))"
      using framewise.none [OF pipeline_framewise [OF c(1)] _ carrier.format [OF C']] c(4) by (simp add: small_block_def)
    moreover have "served cb sil channels cap 0 d [] d" by (simp add: served_def refills_simps)
    ultimately show ?thesis
      using True less.prems by (intro exI [of _ "[]"] exI [of _ d]) (simp add: read_loop.simps)
  next
    case False
    obtain m xs e where m: "0 < m" "m \<le> left" "served cb sil channels cap m d xs e" "length xs = m * unat channels"
        "pull_device channels cap (Fin 1) e" "I (pUserData e)"
        "read_iteration aops ops (Some cb) wrap (junk processed) s left d st =
          map_option (\<lambda>new. (True, new, m, s, e, st)) (pipeline ?c (wrap xs) m)"
      using read_iteration_served [OF s C ops junk less.prems(1,2) _ less.prems(3)] False by blast
    have rest: "left - m < left" "small_block (left - m)" using m(1,2) less.prems(3) by (simp_all add: small_block_def)
    obtain new where new: "new = pipeline ?c (wrap xs) m" by simp
    let ?out = "\<lambda>x. buffer_append out x"
    have fmt: "buffer_format (?out x) = internalFormat s" for x using less.prems(4) by simp
    obtain ys f where f: "served cb sil channels cap (left - m) e ys f" "length ys = (left - m) * unat channels"
        "pull_device channels cap (Fin 1) f" "I (pUserData f)"
      and run: "\<And>x. new = Some x \<Longrightarrow> read_loop aops ops (Some cb) wrap junk (processed + m + (left - m)) (processed + m) (?out x) s e st =
        map_option (\<lambda>z. (buffer_append (?out x) z, s, f, st)) (pipeline ?c (wrap ys) (left - m))"
    proof (cases new)
      case None
      then show ?thesis using less.IH [OF rest(1) m(5,6) rest(2), of out] less.prems(4) that by blast
    next
      case (Some x)
      then show ?thesis using less.IH [OF rest(1) m(5,6) rest(2) fmt, of "processed + m" x] that by auto
    qed
    have whole: "pipeline ?c (wrap (xs @ ys)) left =
        Option.bind (pipeline ?c (wrap xs) m) (\<lambda>x. map_option (buffer_append x) (pipeline ?c (wrap ys) (left - m)))"
      using pipeline_blocks [OF c(1) C', of xs m ys "left - m"] m(2,4) f(2) c(3) less.prems(3) by simp
    have out: "buffer_append (buffer_append out x) z = buffer_append out (buffer_append x z)"
      if "pipeline ?c (wrap xs) m = Some x" "pipeline ?c (wrap ys) (left - m) = Some z" for x z
    proof -
      note F = framewise.result [OF pipeline_framewise [OF c(1)]]
      have "buffer_format x = internalFormat s"
        using F [OF carrier.format [OF C'] _ _ that(1)] m(2,4) c(3,4) less.prems(3) by (simp add: buffer_has_wrap [OF C'] small_block_def)
      moreover have "buffer_format z = internalFormat s"
        using F [OF carrier.format [OF C'] _ _ that(2)] f(2) c(3,4) rest(2) by (simp add: buffer_has_wrap [OF C'])
      ultimately show ?thesis by (rule buffer_append_assoc [OF less.prems(4)])
    qed
    have "read_loop aops ops (Some cb) wrap junk (processed + left) processed out s d st =
        map_option (\<lambda>new. (buffer_append out new, s, f, st)) (pipeline ?c (wrap (xs @ ys)) left)"
      unfolding whole
      using m(1,2,7) run False out
      by (subst read_loop.simps, cases "pipeline ?c (wrap ys) (left - m)")
        (auto simp: new option.map_comp comp_def split: option.splits Option.bind_splits)
    moreover have "served cb sil channels cap left d (xs @ ys) f"
      using served_append [OF m(3) f(1) less.prems(1,2)] m(2) by simp
    ultimately show ?thesis
      using f m(2,4) by (intro exI [of _ "xs @ ys"] exI [of _ f]) (simp flip: add_mult_distrib)
  qed
qed

end

section \<open>Capture\<close>

lemma framewise_exact:
  assumes F: "framewise F a b ci co ok" and x: "buffer_format x = a" "buffer_has ci n x" "ok n" "F x n = Some out"
  shows "is_frame b (n * co) out"
proof -
  obtain bs where bs: "those (map (\<lambda>f. F f 1) (buffer_frames ci n x)) = Some bs" "out = buffer_concat b bs"
    using x(4) unfolding framewise.frames [OF F x(1-3)] by auto
  have "\<forall>f \<in> set (buffer_frames ci n x). is_frame a ci f" using buffer_frames_are [OF x(2)] x(1) by blast
  then have "\<forall>g \<in> set bs. is_frame b co g" "length bs = n"
    using framewise.frames_out [OF F, of "buffer_frames ci n x" bs] bs(1) by (simp_all add: those_Some_iff)
  then show ?thesis using is_frame_concat [OF framewise.known [OF F], of bs co] bs(2) by simp
qed

lemma stack_frames_small: "small_block (stack_frames fmt ch)"
  using order_trans [OF div_le_dividend [of 4096 "unat (ma_get_bytes_per_frame fmt ch)"], of "2 ^ 22"]
  by (simp add: stack_frames_def small_block_def MA_DATA_CONVERTER_STACK_BUFFER_SIZE_def)

lemma min_counts:
  assumes "small_block m" "small_block n"
  shows "min (of_nat m) (of_nat n :: u64) = of_nat (min m n)"
  using small_count(1) [OF assms(1)] small_count(1) [OF assms(2)] by (auto simp: min_def word_le_nat_alt)

context capture_client
begin

lemma send_loop_fed:
  assumes s: "capture_fits s" "io_channels s = channels" and C: "carrier C (io_format s) 1"
    and unwrap: "\<And>xs. unwrap (C xs) = Some xs" and ops: "op_clip ops = None"
    and d: "push_device channels cap (Fin 1) d" "I (pUserData d)"
    and inp: "buffer_format inp = internalFormat s" "buffer_has (unat (internalChannels s)) left inp" "small_block left"
  shows "case pipeline (io_converter s) inp left of
      None \<Rightarrow> send_loop aops ops (Some cb) unwrap left inp s d st = None
    | Some out \<Rightarrow> \<exists>xs e. out = C xs \<and> length xs = left * unat channels \<and> fed cb channels cap left d xs e \<and>
        push_device channels cap (Fin 1) e \<and> I (pUserData e) \<and>
        send_loop aops ops (Some cb) unwrap left inp s d st = Some (s, e, st)"
  using d inp
proof (induction left arbitrary: inp d rule: less_induct)
  case (less left)
  let ?c = "io_converter s" and ?room = "stack_frames (io_format s) (io_channels s)" and ?ch = "unat (internalChannels s)"
  have c: "sound_stages ?c" "dc_channelsIn ?c \<noteq> 0" "dc_formatIn ?c = internalFormat s" "dc_formatOut ?c = io_format s"
      "dc_channelsIn ?c = internalChannels s" "dc_channelsOut ?c = channels"
    using s by (simp_all add: capture_fits_def)
  note F = pipeline_framewise [OF c(1), unfolded c(3-6)]
  have room: "0 < ?room" using client_room(2) [OF c(1,2)] c s(2) by simp
  define m where "m = min left ?room"
  have m: "m \<le> left" "small_block m" using less.prems(5) by (simp_all add: m_def small_block_def)
  have um: "unat (of_nat m :: u32) = m" using m(2) by (simp add: small_block_def unat_of_nat take_bit_nat_eq_self)
  have has: "buffer_has ?ch m inp" by (rule buffer_has_mono [OF less.prems(4) m(1)])
  have process: "ma_data_converter_process_pcm_frames ?c (Some inp) (Some (of_nat left)) True (Some (of_nat ?room)) st =
      map_option (\<lambda>out. (Ma_Lpf.MA_SUCCESS, out, Some (of_nat m), Some (of_nat m), ?c, st)) (pipeline ?c inp m)"
    using process_pipeline [OF c(1,2) _ _ m(2), of inp "of_nat left" "of_nat ?room"] less.prems(3) has c(3,5)
      min_counts [OF less.prems(5) stack_frames_small] by (simp add: m_def)
  note step = send_loop.simps [of aops ops "Some cb" unwrap left inp s d st, unfolded process]
  show ?case
  proof (cases "left = 0")
    case True
    then have "m = 0" by (simp add: m_def)
    moreover have "pipeline ?c inp 0 = Some (empty_buffer (io_format s))"
      using framewise.none [OF F _ less.prems(3)] by (simp add: small_block_def)
    moreover have "fed cb channels cap 0 d [] d" by (simp add: fed_def completed_simps)
    ultimately show ?thesis
      using True step less.prems(1,2) carrier.empty [OF C] by (auto simp: count_of_def Let_def intro!: exI [of _ "[]"] exI [of _ d])
  next
    case False
    then have m0: "0 < m" using room by (simp add: m_def)
    let ?rest = "drop_samples (m * ?ch) inp"
    have small: "small_block (left - m)" using less.prems(5) by (simp add: small_block_def)
    have split: "pipeline ?c inp left = Option.bind (pipeline ?c inp m) (\<lambda>x. map_option (buffer_append x) (pipeline ?c ?rest (left - m)))"
      using framewise.split [OF F less.prems(3), of m "left - m"] less.prems(4,5) m small by simp
    show ?thesis
    proof (cases "pipeline ?c inp m")
      case None
      then show ?thesis using split step by simp
    next
      case (Some out)
      have "is_frame (io_format s) (m * unat channels) out" by (rule framewise_exact [OF F less.prems(3) has m(2) Some])
      then have out: "buffer_format out = io_format s" using is_frame_has by blast
      obtain xs where "out = C xs" using carrier.elements [OF C out] by blast
      then have xs: "out = C xs" "length xs = m * unat channels"
        using \<open>is_frame (io_format s) (m * unat channels) out\<close> carrier.frame [OF C] by simp_all
      obtain e where e: "ma_device__on_data ops cb d None (Some xs) (of_nat m) = Some (None, e)" "push_device channels cap (Fin 1) e"
          "I (pUserData e)" "fed cb channels cap m d xs e"
        using push_on_data [OF less.prems(1,2), of xs "of_nat m" ops] xs(2) um by auto
      have vol: "masterVolumeFactor d = Fin 1" using less.prems(1) by (simp add: push_device_def)
      have u: "unat (of_nat m :: u64) = m" by (rule small_count(1) [OF m(2)])
      have run: "send_loop aops ops (Some cb) unwrap left inp s d st = send_loop aops ops (Some cb) unwrap (left - m) ?rest s e st"
        unfolding step using m0 by (simp add: Some xs(1) unwrap count_of_def u handle_unity [OF vol ops] e(1) Let_def)
      have "buffer_has ?ch (left - m) ?rest" using buffer_has_drop [of ?ch m "left - m" inp] less.prems(4) m(1) by simp
      from less.IH [OF _ e(2,3) _ this small] less.prems(3) m0 m(1)
      have IH: "case pipeline ?c ?rest (left - m) of
          None \<Rightarrow> send_loop aops ops (Some cb) unwrap (left - m) ?rest s e st = None
        | Some out \<Rightarrow> \<exists>ys f. out = C ys \<and> length ys = (left - m) * unat channels \<and> fed cb channels cap (left - m) e ys f \<and>
            push_device channels cap (Fin 1) f \<and> I (pUserData f) \<and>
            send_loop aops ops (Some cb) unwrap (left - m) ?rest s e st = Some (s, f, st)"
        by simp
      show ?thesis
      proof (cases "pipeline ?c ?rest (left - m)")
        case None
        then show ?thesis using IH split Some run by simp
      next
        case rest: (Some out')
        then obtain ys f where f: "out' = C ys" "length ys = (left - m) * unat channels" "fed cb channels cap (left - m) e ys f"
            "push_device channels cap (Fin 1) f" "I (pUserData f)"
            "send_loop aops ops (Some cb) unwrap (left - m) ?rest s e st = Some (s, f, st)"
          using IH by auto
        have "fed cb channels cap left d (xs @ ys) f"
          using fed_append [OF e(4) f(3) less.prems(1,2) xs(2)] m(1) by simp
        moreover have "length (xs @ ys) = left * unat channels" using xs(2) f(2) m(1) by (simp flip: add_mult_distrib)
        moreover have "pipeline ?c inp left = Some (C (xs @ ys))" using split Some rest f(1) xs(1) by (simp add: carrier.append [OF C])
        ultimately show ?thesis using f run by auto
      qed
    qed
  qed
qed

end

end
