(* ===== verification/Engine_Hardware.thy ===== *)
theory Engine_Hardware
  imports Engine_Device Ma_Device_Stream
begin

text \<open>
  The engine of \<open>libvoice_engine.c\<close> on hardware that does not speak its format: \<open>miniaudio.h\<close> converts between the 16-bit
  mono of the client and the float samples of a device with several channels. Set-up, the converters and the two data
  paths are composed; the results are the sounds played and recorded.
\<close>

section \<open>Set-up for float hardware\<close>

text \<open>A device as \<open>ma_device_init\<close> has it before the set-up of its converters: the client asks for 16-bit mono at some rate, its
  channel map blank or the default one; the hardware runs at that rate in floats with \<open>k\<close> channels.\<close>

definition float_side :: "u32 \<Rightarrow> u32 \<Rightarrow> io_side \<Rightarrow> bool" where
  "float_side rate k s \<longleftrightarrow> io_format s = ma_format_s16 \<and> io_channels s = 1 \<and> io_channelMap s 0 \<in> {MA_CHANNEL_NONE, MA_CHANNEL_MONO} \<and>
     internalFormat s = ma_format_f32 \<and> internalChannels s = k \<and> internalSampleRate s = rate \<and>
     ma_channel_map_is_valid (Some (internalChannelMap s)) k \<and> io_channelMixMode s = ma_channel_mix_mode_rectangular"

lemma standard_mono: "ma_channel_map_init_standard_channel ma_standard_channel_map_default 1 0 = MA_CHANNEL_MONO"
  by (simp add: ma_channel_map_init_standard_channel_def ma_channel_map_init_standard_channel_microsoft_def table_channel_def)

lemma complete_float_side:
  assumes "float_side rate k s" "k \<noteq> 1"
  shows "complete_side s = Some (s\<lparr>io_channelMap := (io_channelMap s)(0 := MA_CHANNEL_MONO)\<rparr>)"
  using assms standard_mono
  by (auto simp: float_side_def complete_side_def ma_channel_map_init_standard_def fun_upd_idem)

lemma float_playback_setup:
  assumes io: "io_type io = ma_device_type_playback" "io_sampleRate io = rate" "float_side rate k (io_playback io)"
    and k: "2 \<le> k" "k \<le> 254" and rate: "rate \<noteq> 0"
  shows "\<exists>io'. ma_device__post_init_setup mallocC True realloc lib ma_device_type_playback io = Some (Ma_Lpf.MA_SUCCESS, io') \<and>
    playback_fits (io_playback io') \<and> io_format (io_playback io') = ma_format_s16 \<and> io_channels (io_playback io') = 1 \<and>
    internalFormat (io_playback io') = ma_format_f32 \<and> internalChannels (io_playback io') = k \<and> pInputCache io' = None \<and>
    executionPath (io_converter (io_playback io')) = ma_data_converter_execution_path_channels_only \<and>
    conversionPath (channelConverter (io_converter (io_playback io'))) = ma_channel_conversion_path_mono_in \<and>
    cc_format (channelConverter (io_converter (io_playback io'))) = ma_format_f32"
proof -
  let ?s = "io_playback io"
  define s1 where "s1 = ?s\<lparr>io_channelMap := (io_channelMap ?s)(0 := MA_CHANNEL_MONO)\<rparr>"
  define io1 where "io1 = io\<lparr>io_playback := s1\<rparr>"
  have k1: "k \<noteq> 1" "k \<noteq> 0" using k(1) by (auto simp: word_le_nat_alt)
  have s: "io_format s1 = ma_format_s16" "io_channels s1 = 1" "internalFormat s1 = ma_format_f32" "internalChannels s1 = k"
      "internalSampleRate s1 = rate" "io_channelMap s1 0 = MA_CHANNEL_MONO" "ma_channel_map_is_valid (Some (internalChannelMap s1)) k"
    using io(3) by (simp_all add: s1_def float_side_def)
  have complete: "complete_sides ma_device_type_playback io = Some io1"
    using complete_float_side [OF io(3) k1(1)] io(2) rate
    by (simp add: complete_sides_def captures_def plays_def io1_def s1_def)
  let ?cfg = "playback_converter_config io1"
  have cfg: "dcc_formatIn ?cfg = ma_format_s16" "dcc_formatOut ?cfg = ma_format_f32" "dcc_channelsIn ?cfg = 1" "dcc_channelsOut ?cfg = k"
      "dcc_pChannelMapIn ?cfg = Some (io_channelMap s1)" "dcc_pChannelMapOut ?cfg = Some (internalChannelMap s1)"
      "\<not> ma_data_converter_config_is_resampler_required ?cfg" "dcc_ditherMode ?cfg = ma_dither_mode_none"
    using s io(2) by (simp_all add: playback_converter_config_def io1_def ma_data_converter_config_init_default_def
        ma_data_converter_config_is_resampler_required_def Let_def)
  obtain c where c: "ma_data_converter_init True lib (Some ?cfg) (Some (io_converter s1)) = Some (Ma_Lpf.MA_SUCCESS, Some c)"
      "executionPath c = ma_data_converter_execution_path_channels_only" "conversionPath (channelConverter c) = ma_channel_conversion_path_mono_in"
      "cc_format (channelConverter c) = ma_format_f32"
    using mono_to_float_init [where cfg = ?cfg, OF s(6,7) k(1) cfg(1-7)] by blast
  have sound: "sound_stages c" "dc_formatIn c = ma_format_s16" "dc_formatOut c = ma_format_f32" "dc_channelsIn c = 1" "dc_channelsOut c = k"
    using converter_init_sound [OF c(1) cfg(7,8)] cfg(1-4) k(2) by simp_all
  let ?s2 = "s1\<lparr>io_converter := c\<rparr>"
  let ?io2 = "io1\<lparr>io_playback := ?s2, inputCacheConsumed := 0, inputCacheRemaining := 0, pInputCache := None, inputCacheCap := 0\<rparr>"
  have "ma_device__post_init_setup mallocC True realloc lib ma_device_type_playback io = Some (Ma_Lpf.MA_SUCCESS, ?io2)"
    using complete c(1) io(1) sound_required [OF sound(1)]
    by (simp add: ma_device__post_init_setup_def captures_def plays_def init_converter_def set_up_cache_def io1_def Let_def)
  moreover have "playback_fits ?s2" using sound s by (simp add: playback_fits_def)
  ultimately show ?thesis using c s by (intro exI [of _ ?io2]) simp
qed

section \<open>Playback\<close>

text \<open>The backend fetches frames again and again; with every request comes what the temporary buffer holds.\<close>

fun hardware_reads ::
    "(u32 \<times> (nat \<Rightarrow> i16 list)) list \<Rightarrow> i16 device_io \<Rightarrow> (i16, i16, 'i engine) data_device \<Rightarrow> lcg
      \<Rightarrow> (pcm_buffer \<times> i16 device_io \<times> (i16, i16, 'i engine) data_device \<times> lcg) option" where
  "hardware_reads [] io d st = Some (empty_buffer (internalFormat (io_playback io)), io, d, st)"
| "hardware_reads ((n, junk) # requests) io d st =
     do {
       (out, io, d, st) \<leftarrow> ma_device__read_frames_from_client s16_ops s16_ops (Some (on_playback (io_channels (io_playback io)))) PS16
         junk n [] io d st;
       (rest, io, d, st) \<leftarrow> hardware_reads requests io d st;
       Some (buffer_append out rest, io, d, st)
     }"

text \<open>A sample on all of \<open>k\<close> float channels.\<close>

definition spread_float :: "nat \<Rightarrow> i16 list \<Rightarrow> f32 list" where
  "spread_float k xs = concat (map (\<lambda>x. replicate k (unit_float x)) xs)"

lemma spread_float_append: "spread_float k (xs @ ys) = spread_float k xs @ spread_float k ys"
  by (simp add: spread_float_def)

lemma mono_side_room: "stack_frames ma_format_s16 1 = 2048"
  by (simp add: stack_frames_def ma_get_bytes_per_frame_def MA_DATA_CONVERTER_STACK_BUFFER_SIZE_def)

lemma hardware_read_once:
  assumes io: "playback_fits (io_playback io)" "io_format (io_playback io) = ma_format_s16" "io_channels (io_playback io) = 1"
      "internalFormat (io_playback io) = ma_format_f32" "internalChannels (io_playback io) = k" "pInputCache io = None"
      "executionPath (io_converter (io_playback io)) = ma_data_converter_execution_path_channels_only"
      "conversionPath (channelConverter (io_converter (io_playback io))) = ma_channel_conversion_path_mono_in"
      "cc_format (channelConverter (io_converter (io_playback io))) = ma_format_f32"
    and d: "pull_device 1 cap (Fin 1) d" "engine_plays 1 cap (pUserData d)"
    and n: "0 < n" "n \<le> 2 ^ 22" and junk: "\<forall>i. 2048 \<le> length (junk i)"
  shows "\<exists>xs e. ma_device__read_frames_from_client s16_ops s16_ops (Some (on_playback 1)) PS16 junk n [] io d st =
      Some (PF32 (spread_float (unat k) xs), io, e, st) \<and> served (on_playback 1) 0 1 cap (unat n) d xs e \<and>
    pull_device 1 cap (Fin 1) e \<and> engine_plays 1 cap (pUserData e) \<and> length xs = unat n"
proof -
  let ?s = "io_playback io" and ?c = "io_converter (io_playback io)"
  have small: "small_block (unat n)" using n(2) by (simp add: small_block_def word_le_nat_alt)
  have C: "carrier PS16 (io_format ?s) 1" using c_s16.carrier_axioms io(2) by simp
  have room: "stack_frames (io_format ?s) (io_channels ?s) * unat (1 :: u32) \<le> length (junk i)" for i
    using junk [rule_format, of i] io(2,3) mono_side_room by simp
  obtain xs e where e: "served (on_playback 1) 0 1 cap (unat n) d xs e" "length xs = unat n * unat (1 :: u32)"
      "pull_device 1 cap (Fin 1) e" "engine_plays 1 cap (pUserData e)"
      "read_loop s16_ops s16_ops (Some (on_playback 1)) PS16 junk (0 + unat n) 0 (PF32 []) ?s d st =
        map_option (\<lambda>new. (buffer_append (PF32 []) new, ?s, e, st)) (pipeline ?c (PS16 xs) (unat n))"
    using playback_client.read_loop_served [where junk = junk and out = "PF32 []" and aops = s16_ops and processed = 0 and st = st,
        OF engine_playback.playback_client_axioms io(1,3) C s16_ops_simps room d small] io(4) by auto
  have "pipeline ?c (PS16 xs) (unat n) = Some (PF32 (spread_float (unat k) xs))"
    using mono_to_float_pipeline [of ?c "unat n" xs] io e(2) small by (simp add: playback_fits_def spread_float_def)
  then have "ma_device__read_frames_from_client s16_ops s16_ops (Some (on_playback 1)) PS16 junk n [] io d st =
      Some (PF32 (spread_float (unat k) xs), io, e, st)"
    using e(5) io(4,6,7) n(1) by (simp add: ma_device__read_frames_from_client_def Let_def)
  then show ?thesis using e by auto
qed

text \<open>C4: (what is heard on other hardware) The engine on a float device with \<open>k\<close> channels, between 2 and 254, at the rate of the
  client. The set-up of the converters succeeds
  and, however the backend cuts its requests and whatever the temporary buffers hold, what it is handed is one stream: the
  samples queued in the device, then the reference mix of the engine, in order, each divided by \<open>2 ^ 15\<close> without
  error and on all \<open>k\<close> channels. The engine's streams lose exactly the samples of the periods fetched.\<close>

theorem engine_heard_on_float_hardware:
  assumes io: "io_type io = ma_device_type_playback" "io_sampleRate io = rate" "float_side rate k (io_playback io)"
    and k: "2 \<le> k" "k \<le> 254" and rate: "rate \<noteq> 0"
    and d: "pull_device 1 cap (Fin 1) d" "engine_plays 1 cap (pUserData d)"
    and requests: "\<forall>(n, junk) \<in> set requests. 0 < n \<and> n \<le> 2 ^ 22 \<and> (\<forall>i. 2048 \<le> length (junk i))"
    and r: "r = sum_list (map (\<lambda>(n, _). unat n) requests)"
  shows "\<exists>io' xs e j. ma_device__post_init_setup mallocC True realloc lib ma_device_type_playback io = Some (Ma_Lpf.MA_SUCCESS, io') \<and>
    hardware_reads requests io' d st = Some (PF32 (spread_float (unat k) xs), io', e, st) \<and>
    xs = take r (queued (playback_side d) @ mix_stream 1 (j * unat cap) (pUserData d)) \<and> length xs = r \<and>
    pUserData e = played (j * unat cap) (pUserData d) \<and> j * unat cap \<le> r + unat cap"
proof -
  obtain io' where io': "ma_device__post_init_setup mallocC True realloc lib ma_device_type_playback io = Some (Ma_Lpf.MA_SUCCESS, io')"
      "playback_fits (io_playback io')" "io_format (io_playback io') = ma_format_s16" "io_channels (io_playback io') = 1"
      "internalFormat (io_playback io') = ma_format_f32" "internalChannels (io_playback io') = k" "pInputCache io' = None"
      "executionPath (io_converter (io_playback io')) = ma_data_converter_execution_path_channels_only"
      "conversionPath (channelConverter (io_converter (io_playback io'))) = ma_channel_conversion_path_mono_in"
      "cc_format (channelConverter (io_converter (io_playback io'))) = ma_format_f32"
    using float_playback_setup [OF io k rate] by blast
  have "\<exists>xs e. hardware_reads requests io' d st = Some (PF32 (spread_float (unat k) xs), io', e, st) \<and>
      served (on_playback 1) 0 1 cap (sum_list (map (\<lambda>(n, _). unat n) requests)) d xs e"
    using d requests
  proof (induction requests arbitrary: d)
    case Nil
    then show ?case by (intro exI [of _ "[]"] exI [of _ d]) (simp add: io'(5) spread_float_def served_def refills_simps)
  next
    case (Cons q requests)
    obtain n junk where q: "q = (n, junk)" by (cases q)
    have n: "0 < n" "n \<le> 2 ^ 22" "\<forall>i. 2048 \<le> length (junk i)" using Cons.prems(3) q by auto
    obtain xs e where e: "ma_device__read_frames_from_client s16_ops s16_ops (Some (on_playback 1)) PS16 junk n [] io' d st =
          Some (PF32 (spread_float (unat k) xs), io', e, st)"
        "served (on_playback 1) 0 1 cap (unat n) d xs e" "pull_device 1 cap (Fin 1) e" "engine_plays 1 cap (pUserData e)"
      using hardware_read_once [OF io'(2-) Cons.prems(1,2) n] by blast
    obtain ys f where f: "hardware_reads requests io' e st = Some (PF32 (spread_float (unat k) ys), io', f, st)"
        "served (on_playback 1) 0 1 cap (sum_list (map (\<lambda>(n, _). unat n) requests)) e ys f"
      using Cons.IH [OF e(3,4)] Cons.prems(3) by auto
    show ?case
      using engine_playback.served_append [OF e(2) f(2) Cons.prems(1,2)] e(1) f(1) io'(4)
      by (intro exI [of _ "xs @ ys"] exI [of _ f]) (simp add: q spread_float_append)
  qed
  then obtain xs e where e: "hardware_reads requests io' d st = Some (PF32 (spread_float (unat k) xs), io', e, st)"
      "served (on_playback 1) 0 1 cap r d xs e" unfolding r by blast
  then show ?thesis using engine_served [OF d e(2)] io'(1) by auto
qed

section \<open>Capture\<close>

lemma float_capture_setup:
  assumes io: "io_type io = ma_device_type_capture" "io_sampleRate io = rate" "float_side rate k (io_capture io)"
    and k: "2 \<le> k" "k \<le> 254" and rate: "rate \<noteq> 0"
  shows "\<exists>io'. ma_device__post_init_setup True mallocP realloc lib ma_device_type_capture io = Some (Ma_Lpf.MA_SUCCESS, io') \<and>
    capture_fits (io_capture io') \<and> io_format (io_capture io') = ma_format_s16 \<and> io_channels (io_capture io') = 1 \<and>
    internalFormat (io_capture io') = ma_format_f32 \<and> internalChannels (io_capture io') = k \<and>
    executionPath (io_converter (io_capture io')) = ma_data_converter_execution_path_channels_only \<and>
    conversionPath (channelConverter (io_converter (io_capture io'))) = ma_channel_conversion_path_mono_out \<and>
    cc_format (channelConverter (io_converter (io_capture io'))) = ma_format_s16"
proof -
  let ?s = "io_capture io"
  define s1 where "s1 = ?s\<lparr>io_channelMap := (io_channelMap ?s)(0 := MA_CHANNEL_MONO)\<rparr>"
  define io1 where "io1 = io\<lparr>io_capture := s1\<rparr>"
  have k1: "k \<noteq> 1" "k \<noteq> 0" using k(1) by (auto simp: word_le_nat_alt)
  have s: "io_format s1 = ma_format_s16" "io_channels s1 = 1" "internalFormat s1 = ma_format_f32" "internalChannels s1 = k"
      "internalSampleRate s1 = rate" "io_channelMap s1 0 = MA_CHANNEL_MONO" "ma_channel_map_is_valid (Some (internalChannelMap s1)) k"
    using io(3) by (simp_all add: s1_def float_side_def)
  have complete: "complete_sides ma_device_type_capture io = Some io1"
    using complete_float_side [OF io(3) k1(1)] io(2) rate
    by (simp add: complete_sides_def captures_def plays_def io1_def s1_def)
  let ?cfg = "capture_converter_config io1"
  have cfg: "dcc_formatIn ?cfg = ma_format_f32" "dcc_formatOut ?cfg = ma_format_s16" "dcc_channelsIn ?cfg = k" "dcc_channelsOut ?cfg = 1"
      "dcc_pChannelMapIn ?cfg = Some (internalChannelMap s1)" "dcc_pChannelMapOut ?cfg = Some (io_channelMap s1)"
      "\<not> ma_data_converter_config_is_resampler_required ?cfg" "dcc_ditherMode ?cfg = ma_dither_mode_none"
    using s io(2) by (simp_all add: capture_converter_config_def io1_def ma_data_converter_config_init_default_def
        ma_data_converter_config_is_resampler_required_def Let_def)
  obtain c where c: "ma_data_converter_init True lib (Some ?cfg) (Some (io_converter s1)) = Some (Ma_Lpf.MA_SUCCESS, Some c)"
      "executionPath c = ma_data_converter_execution_path_channels_only" "conversionPath (channelConverter c) = ma_channel_conversion_path_mono_out"
      "cc_format (channelConverter c) = ma_format_s16"
    using float_to_mono_init [where cfg = ?cfg, OF s(6,7) k(1) cfg(1-7)] by blast
  have sound: "sound_stages c" "dc_formatIn c = ma_format_f32" "dc_formatOut c = ma_format_s16" "dc_channelsIn c = k" "dc_channelsOut c = 1"
    using converter_init_sound [OF c(1) cfg(7,8)] cfg(1-4) k(2) by simp_all
  let ?s2 = "s1\<lparr>io_converter := c\<rparr>"
  have "ma_device__post_init_setup True mallocP realloc lib ma_device_type_capture io = Some (Ma_Lpf.MA_SUCCESS, io1\<lparr>io_capture := ?s2\<rparr>)"
    using complete c(1) by (simp add: ma_device__post_init_setup_def captures_def plays_def init_converter_def io1_def Let_def)
  moreover have "capture_fits ?s2" using sound s k1 by (simp add: capture_fits_def)
  ultimately show ?thesis using c s by (intro exI [of _ "io1\<lparr>io_capture := ?s2\<rparr>"]) simp
qed

text \<open>A float as a 16-bit sample, and the mean of a frame, rounded down.\<close>

definition s16_of_float :: "f32 \<Rightarrow> i16" where
  "s16_of_float x = the (f32_to_s16_one x (Fin 0))"

definition frame_mean :: "nat \<Rightarrow> i16 list \<Rightarrow> i16" where
  "frame_mean k x = word_of_int (frame_sum x div int k)"

lemma f32_to_s16_defined: "in_unit x \<Longrightarrow> s16_in_unit x = Some (s16_of_float x)"
proof -
  assume unit: "in_unit x"
  then have "fp_add f32 x (Fin 0) \<noteq> NaN" by (cases x) (auto simp: f32_def fp_round_def Let_def)
  then obtain r where r: "clip (fp_add f32 x (Fin 0)) = Fin r" "- 1 \<le> r" "r \<le> 1" using clip_Fin by blast
  obtain v where v: "fp_to_int (- 32767) 32767 (fp_mul f32 (Fin r) (Fin 32767)) = Some v" using cast_scaled32 [OF r(2,3), of 32767] by auto
  then have "fp_to_int (- 32768) 32767 (fp_mul f32 (Fin r) (Fin 32767)) = Some v"
    by (rule fp_to_int_wider) simp_all
  then show ?thesis using unit by (simp add: s16_in_unit_def s16_of_float_def f32_to_s16_one_def r(1) Let_def)
qed

lemma float_to_mono_pipeline:
  assumes c: "sound_stages c" "executionPath c = ma_data_converter_execution_path_channels_only"
      "conversionPath (channelConverter c) = ma_channel_conversion_path_mono_out" "cc_format (channelConverter c) = ma_format_s16"
      "dc_formatIn c = ma_format_f32" "dc_formatOut c = ma_format_s16" "dc_channelsIn c = k" "k \<noteq> 0" "unat k dvd 65536"
    and n: "n * unat k \<le> length xs" "small_block n" "\<forall>x \<in> set xs. in_unit x"
  shows "pipeline c (PF32 xs) n = Some (PS16 (map (frame_mean (unat k)) (frames_of (unat k) n (map s16_of_float xs))))"
proof -
  let ?cc = "channelConverter c" and ?k = "unat k"
  let ?ys = "map s16_of_float (take (n * ?k) xs)"
  have s: "sound_mixer ?cc" "channelsIn ?cc = k"
    using c by (simp_all add: sound_stages_def Let_def)
  have k: "0 < k" "k \<le> 65536"
    using s c(8) by (auto simp: sound_mixer_def word_gt_0 word_le_nat_alt)
  have "those (map (\<lambda>i. s16_in_unit (xs ! i)) [0..<n * ?k]) = Some (map (\<lambda>i. s16_of_float (xs ! i)) [0..<n * ?k])"
    using n(1,3) by (intro those_map_Some f32_to_s16_defined) auto
  moreover have "map (\<lambda>i. s16_of_float (xs ! i)) [0..<n * ?k] = ?ys"
    using n(1) by (intro nth_equalityI) simp_all
  ultimately have conv: "plain_convert ma_format_s16 (PF32 xs) (n * ?k) = Some (PS16 ?ys)"
    by (simp add: plain_convert_def ma_pcm_convert_def f32_to_s16_plain)
  have ys: "frames_of ?k n ?ys = frames_of ?k n (map s16_of_float xs)"
    using frames_of_take [of ?k n "map s16_of_float xs"] by (simp add: take_map)
  have mean: "mono_out_s16 k x = Some (frame_mean ?k x)" if len: "length x = ?k" for x
  proof -
    obtain y where y: "mono_out_s16 k x = Some y" "sint y = frame_sum x div uint k"
      using mono_out_s16_mean [OF len k] c(9) by blast
    have "frame_mean ?k x = word_of_int (sint y)" by (simp add: frame_mean_def y(2))
    then show ?thesis using y(1) by simp
  qed
  have each: "mix_frame_s16 ?cc x = Some [frame_mean ?k x]" if "x \<in> set (frames_of ?k n ?ys)" for x
  proof -
    have "length x = ?k" using frames_of_length [OF _ that] n(1) by simp
    from mean [OF this] show ?thesis using c(3) s(2) by (simp add: mix_frame_s16_def)
  qed
  have "those (map (mix_frame_s16 ?cc) (frames_of ?k n ?ys)) = Some (map (\<lambda>x. [frame_mean ?k x]) (frames_of ?k n ?ys))"
    by (rule those_map_Some) (rule each)
  then have "mixed ?cc (PS16 ?ys) n = Some (PS16 (map (frame_mean ?k) (frames_of ?k n ?ys)))"
    using mixed_s16 [OF s(1) c(4) n(2), of ?ys] s(2) by (simp add: mixed_def c(4) concat_map_singleton)
  then show ?thesis using conv c ys by (simp add: pipeline_def reformat_def)
qed

text \<open>The backend delivers blocks of frames.\<close>

fun samples_s16 :: "pcm_buffer \<Rightarrow> i16 list option" where
  "samples_s16 (PS16 xs) = Some xs"
| "samples_s16 _ = None"

fun hardware_delivers ::
    "(u32 \<times> f32 list) list \<Rightarrow> i16 device_io \<Rightarrow> (i16, i16, 'i engine) data_device \<Rightarrow> lcg
      \<Rightarrow> (i16 device_io \<times> (i16, i16, 'i engine) data_device \<times> lcg) option" where
  "hardware_delivers [] io d st = Some (io, d, st)"
| "hardware_delivers ((n, xs) # deliveries) io d st =
     do {
       (io, d, st) \<leftarrow> ma_device__send_frames_to_client s16_ops s16_ops (Some (on_capture (io_channels (io_capture io)))) samples_s16
         n (PF32 xs) io d st;
       hardware_delivers deliveries io d st
     }"

lemma mono_frames_one: "mono_frames 1 xs = xs"
  by (simp add: mono_frames_def map_nth)

lemma frames_of_more: "length xs = m * w \<Longrightarrow> frames_of w (m + n) (xs @ ys) = frames_of w m xs @ frames_of w n ys"
  by (simp add: frames_of_add frames_of_prefix)

definition microphone_frames :: "nat \<Rightarrow> nat \<Rightarrow> f32 list \<Rightarrow> i16 list" where
  "microphone_frames k n xs = map (frame_mean k) (frames_of k n (map s16_of_float xs))"

lemma hardware_deliver_once:
  assumes io: "capture_fits (io_capture io)" "io_format (io_capture io) = ma_format_s16" "io_channels (io_capture io) = 1"
      "internalFormat (io_capture io) = ma_format_f32" "internalChannels (io_capture io) = k"
      "executionPath (io_converter (io_capture io)) = ma_data_converter_execution_path_channels_only"
      "conversionPath (channelConverter (io_converter (io_capture io))) = ma_channel_conversion_path_mono_out"
      "cc_format (channelConverter (io_converter (io_capture io))) = ma_format_s16"
    and k: "k \<noteq> 0" "unat k dvd 65536"
    and d: "push_device 1 cap (Fin 1) d" "engine_records 1 cap (pUserData d)"
    and n: "0 < n" "n \<le> 2 ^ 22" "length xs = unat n * unat k" "\<forall>x \<in> set xs. in_unit x"
  shows "\<exists>e. ma_device__send_frames_to_client s16_ops s16_ops (Some (on_capture 1)) samples_s16 n (PF32 xs) io d st = Some (io, e, st) \<and>
    fed (on_capture 1) 1 cap (unat n) d (microphone_frames (unat k) (unat n) xs) e \<and>
    push_device 1 cap (Fin 1) e \<and> engine_records 1 cap (pUserData e)"
proof -
  let ?s = "io_capture io" and ?c = "io_converter (io_capture io)"
  have small: "small_block (unat n)" using n(2) by (simp add: small_block_def word_le_nat_alt)
  have C: "carrier PS16 (io_format ?s) 1" using c_s16.carrier_axioms io(2) by simp
  have c: "sound_stages ?c" "dc_formatIn ?c = ma_format_f32" "dc_formatOut ?c = ma_format_s16" "dc_channelsIn ?c = k"
    using io by (simp_all add: capture_fits_def)
  have pipe: "pipeline ?c (PF32 xs) (unat n) = Some (PS16 (microphone_frames (unat k) (unat n) xs))"
    unfolding microphone_frames_def
    by (rule float_to_mono_pipeline [OF c(1) io(6-8) c(2-4) k _ small n(4)]) (simp add: n(3))
  have has: "buffer_has (unat (internalChannels ?s)) (unat n) (PF32 xs)" using n(3) io(5) by simp
  have fmt: "buffer_format (PF32 xs) = internalFormat ?s" using io(4) by simp
  have "\<And>xs. samples_s16 (PS16 xs) = Some xs" by simp
  from capture_client.send_loop_fed [where aops = s16_ops and st = st, OF engine_capture.capture_client_axioms io(1,3) C this s16_ops_simps(2) d fmt has small]
  show ?thesis
    using n(1) io(6) unfolding pipe by (auto simp: ma_device__send_frames_to_client_def Let_def)
qed

lemma length_microphone_frames [simp]: "length (microphone_frames k n xs) = n"
  by (simp add: microphone_frames_def)

text \<open>C5: (what is recorded from other hardware) The engine on a float microphone of \<open>k\<close> channels at the rate of the client, where
  \<open>k\<close> is between 2 and 254 and divides \<open>2 ^ 16\<close> (for other \<open>k\<close> the division of \<open>mono_out_s16\<close> goes wrong), and the samples lie
  within \<open>[-1, 1]\<close> (beyond, the vector units and the scalar code of \<open>ma_pcm_f32_to_s16\<close> differ). The set-up of the converters
  succeeds and, however the backend cuts what it delivers, the capture ring is given one stream in order: what the device held,
  then for every frame the mean of its channels as 16-bit samples, rounded down, up to the last full period; the rest stays in the
  device.\<close>

theorem engine_records_from_float_hardware:
  assumes io: "io_type io = ma_device_type_capture" "io_sampleRate io = rate" "float_side rate k (io_capture io)"
    and k: "2 \<le> k" "k \<le> 254" "unat k dvd 65536" and rate: "rate \<noteq> 0"
    and d: "push_device 1 cap (Fin 1) d" "engine_records 1 cap (pUserData d)"
    and deliveries: "\<forall>(n, xs) \<in> set deliveries. 0 < n \<and> n \<le> 2 ^ 22 \<and> length xs = unat n * unat k \<and> (\<forall>x \<in> set xs. in_unit x)"
    and r: "r = sum_list (map (\<lambda>(n, _). unat n) deliveries)" "0 < r"
    and stream: "stream = held (capture_side d) @ microphone_frames (unat k) r (concat (map snd deliveries))"
    and j: "j = (unat (bufferLen (capture_side d)) + r) div unat cap"
  shows "\<exists>io' e. ma_device__post_init_setup True mallocP realloc lib ma_device_type_capture io = Some (Ma_Lpf.MA_SUCCESS, io') \<and>
    hardware_delivers deliveries io' d st = Some (io', e, st) \<and>
    pUserData e = fold capture_put (take (j * unat cap) stream) (pUserData d) \<and>
    held (capture_side e) = drop (j * unat cap) stream \<and> unat (bufferLen (capture_side e)) < unat cap"
proof -
  obtain io' where io': "ma_device__post_init_setup True mallocP realloc lib ma_device_type_capture io = Some (Ma_Lpf.MA_SUCCESS, io')"
      "capture_fits (io_capture io')" "io_format (io_capture io') = ma_format_s16" "io_channels (io_capture io') = 1"
      "internalFormat (io_capture io') = ma_format_f32" "internalChannels (io_capture io') = k"
      "executionPath (io_converter (io_capture io')) = ma_data_converter_execution_path_channels_only"
      "conversionPath (channelConverter (io_converter (io_capture io'))) = ma_channel_conversion_path_mono_out"
      "cc_format (channelConverter (io_converter (io_capture io'))) = ma_format_s16"
    using float_capture_setup [OF io k(1,2) rate] by blast
  have k0: "k \<noteq> 0" using k(1) by (auto simp: word_le_nat_alt)
  let ?frames = "\<lambda>ds. microphone_frames (unat k) (sum_list (map (\<lambda>(n, _). unat n) ds)) (concat (map snd ds))"
  have "\<exists>e. hardware_delivers deliveries io' d st = Some (io', e, st) \<and>
      fed (on_capture 1) 1 cap (sum_list (map (\<lambda>(n, _). unat n) deliveries)) d (?frames deliveries) e"
    using d deliveries
  proof (induction deliveries arbitrary: d)
    case Nil
    then show ?case by (simp add: fed_def completed_simps microphone_frames_def)
  next
    case (Cons q deliveries)
    obtain n xs where q: "q = (n, xs)" by (cases q)
    have n: "0 < n" "n \<le> 2 ^ 22" "length xs = unat n * unat k" "\<forall>x \<in> set xs. in_unit x" using Cons.prems(3) q by auto
    obtain e where e: "ma_device__send_frames_to_client s16_ops s16_ops (Some (on_capture 1)) samples_s16 n (PF32 xs) io' d st = Some (io', e, st)"
        "fed (on_capture 1) 1 cap (unat n) d (microphone_frames (unat k) (unat n) xs) e"
        "push_device 1 cap (Fin 1) e" "engine_records 1 cap (pUserData e)"
      using hardware_deliver_once [OF io'(2-) k0 k(3) Cons.prems(1,2) n] by blast
    obtain f where f: "hardware_delivers deliveries io' e st = Some (io', f, st)"
        "fed (on_capture 1) 1 cap (sum_list (map (\<lambda>(n, _). unat n) deliveries)) e (?frames deliveries) f"
      using Cons.IH [OF e(3,4)] Cons.prems(3) by auto
    have "?frames (q # deliveries) = microphone_frames (unat k) (unat n) xs @ ?frames deliveries"
      using n(3) by (simp add: q microphone_frames_def frames_of_more)
    then show ?case
      using engine_capture.fed_append [OF e(2) f(2) Cons.prems(1,2)] e(1) f(1) io'(4) by (simp add: q)
  qed
  then obtain e where e: "hardware_delivers deliveries io' d st = Some (io', e, st)"
      "fed (on_capture 1) 1 cap r d (?frames deliveries) e" unfolding r(1) by blast
  from engine_fed [OF d e(2) _ r(2) _ j, of stream] show ?thesis
    using io'(1) e(1) stream mono_frames_one by (simp add: r(1))
qed

section \<open>Examples\<close>

text \<open>A stereo float device at 48 kHz before the set-up of its converters, and mono devices as \<open>ma_device_init\<close> leaves them.\<close>

definition example_side :: io_side where
  "example_side = \<lparr>io_format = ma_format_s16, io_channels = 1, io_channelMap = (\<lambda>_. 0), internalFormat = ma_format_f32,
     internalChannels = 2, internalSampleRate = 48000, internalChannelMap = (\<lambda>i. of_nat (i + 2)), internalPeriodSizeInFrames = 480,
     io_channelMixMode = ma_channel_mix_mode_rectangular, io_calculateLFE = False,
     io_converter = \<lparr>dc_formatIn = ma_format_unknown, dc_formatOut = ma_format_unknown, dc_channelsIn = 0, dc_channelsOut = 0,
       dc_ditherMode = ma_dither_mode_none, executionPath = ma_data_converter_execution_path_passthrough,
       channelConverter = plain_converter ma_channel_conversion_path_passthrough 0 0, dc_resampler = None, hasPreFormatConversion = False,
       hasPostFormatConversion = False, hasChannelConverter = False\<rparr>\<rparr>"

definition example_io :: "ma_device_type \<Rightarrow> i16 device_io" where
  "example_io t = \<lparr>io_type = t, io_sampleRate = 48000, io_algorithm = ma_resample_algorithm_linear, io_lpfOrder = 4,
     io_capture = example_side, io_playback = example_side, pInputCache = None, inputCacheCap = 0, inputCacheConsumed = 0,
     inputCacheRemaining = 0\<rparr>"

lemma example_side_float: "float_side 48000 2 example_side"
  by (simp add: float_side_def example_side_def ma_channel_map_is_valid_def ma_channel_map_get_channel_def upt_rec)

definition example_mono :: "ma_device_type \<Rightarrow> 'i engine \<Rightarrow> (i16, i16, 'i engine) data_device" where
  "example_mono t s = init_intermediary s16_ops s16_ops 3 0 48000 480 480
     ((example_device t s)\<lparr>capture_side := \<lparr>side_channels = 1, pIntermediaryBuffer = [], bufferCap = 0, bufferLen = 0\<rparr>,
      playback_side := \<lparr>side_channels = 1, pIntermediaryBuffer = [], bufferCap = 0, bufferLen = 0\<rparr>\<rparr>)"

lemma engine_heard_on_float_hardware_witness:
  "\<forall>lib. \<exists>io' xs e. ma_device__post_init_setup True True (\<lambda>_. None) lib ma_device_type_playback (example_io ma_device_type_playback) =
      Some (Ma_Lpf.MA_SUCCESS, io') \<and>
    hardware_reads [(4, \<lambda>_. replicate 2048 7), (1, \<lambda>_. replicate 2048 9)] io'
      (example_mono ma_device_type_playback ((static_init :: nat engine)\<lparr>g_playing := True\<rparr>)) 0 = Some (PF32 (spread_float 2 xs), io', e, 0) \<and>
    length xs = 5"
proof -
  let ?s = "(static_init :: nat engine)\<lparr>g_playing := True\<rparr>"
  let ?d = "example_mono ma_device_type_playback ?s"
  let ?q = "[(4, \<lambda>_. replicate 2048 7), (1, \<lambda>_. replicate 2048 9)] :: (u32 \<times> (nat \<Rightarrow> i16 list)) list"
  have d: "pull_device 1 3 (Fin 1) ?d"
    by (simp add: pull_device_def example_mono_def example_device_def init_intermediary_def side_wf_def Let_def)
  have e: "engine_plays 1 3 (pUserData ?d)"
    using peers_wf_zero
    by (simp add: engine_plays_def example_mono_def example_device_def init_intermediary_def static_init_def gains_ok_def audible_def zero_peer_def)
  have io: "io_type (example_io ma_device_type_playback) = ma_device_type_playback" "io_sampleRate (example_io ma_device_type_playback) = 48000"
      "float_side 48000 2 (io_playback (example_io ma_device_type_playback))"
    using example_side_float by (simp_all add: example_io_def)
  have k: "(2 :: u32) \<le> 2" "(2 :: u32) \<le> 254" "(48000 :: u32) \<noteq> 0" "unat (2 :: u32) = 2" by simp_all
  have q: "\<forall>(n, junk) \<in> set ?q. 0 < n \<and> n \<le> 2 ^ 22 \<and> (\<forall>i. 2048 \<le> length (junk i))" "5 = sum_list (map (\<lambda>(n, _). unat n) ?q)"
    by simp_all
  show ?thesis
    using engine_heard_on_float_hardware [OF io k(1-3) d e q, of True "\<lambda>_. None" _ 0] unfolding k(4) by blast
qed

lemma s16_of_half: "s16_of_float (Fin (1 / 2)) = 16383" "s16_of_float (Fin 0) = 0"
  using f32_to_s16_of_s16 [of 16384] f32_to_s16_of_s16 [of 0] by (simp_all add: s16_of_float_def)

lemma engine_records_from_float_hardware_witness:
  "\<forall>lib. \<exists>io' e. ma_device__post_init_setup True True (\<lambda>_. None) lib ma_device_type_capture (example_io ma_device_type_capture) =
      Some (Ma_Lpf.MA_SUCCESS, io') \<and>
    hardware_delivers [(2, [Fin (1 / 2), Fin (1 / 2), Fin (1 / 2), Fin 0]), (2, replicate 4 (Fin 0))] io'
      (example_mono ma_device_type_capture ((static_init :: nat engine)\<lparr>g_capturing := True\<rparr>)) 0 = Some (io', e, 0) \<and>
    pUserData e = fold capture_put [0, 0, 0, 16383, 8191, 0] ((static_init :: nat engine)\<lparr>g_capturing := True\<rparr>) \<and>
    held (capture_side e) = [0]"
proof -
  let ?s = "(static_init :: nat engine)\<lparr>g_capturing := True\<rparr>"
  let ?d = "example_mono ma_device_type_capture ?s"
  let ?q = "[(2, [Fin (1 / 2), Fin (1 / 2), Fin (1 / 2), Fin 0]), (2, replicate 4 (Fin 0))] :: (u32 \<times> f32 list) list"
  have d: "push_device 1 3 (Fin 1) ?d" "engine_records 1 3 (pUserData ?d)" "pUserData ?d = ?s"
      "unat (bufferLen (capture_side ?d)) = 3" "held (capture_side ?d) = replicate 3 0"
    by (simp_all add: push_device_def engine_records_def example_mono_def example_device_def init_intermediary_def side_wf_def held_def
        s16_ops_def Let_def)
  have io: "io_type (example_io ma_device_type_capture) = ma_device_type_capture" "io_sampleRate (example_io ma_device_type_capture) = 48000"
      "float_side 48000 2 (io_capture (example_io ma_device_type_capture))"
    using example_side_float by (simp_all add: example_io_def)
  have k: "(2 :: u32) \<le> 2" "(2 :: u32) \<le> 254" "unat (2 :: u32) dvd 65536" "(48000 :: u32) \<noteq> 0" "unat (2 :: u32) = 2" by simp_all
  have q: "\<forall>(n, xs) \<in> set ?q. 0 < n \<and> n \<le> 2 ^ 22 \<and> length xs = unat n * unat (2 :: u32) \<and> (\<forall>x \<in> set xs. in_unit x)"
      "4 = sum_list (map (\<lambda>(n, _). unat n) ?q)" "0 < (4 :: nat)"
    by simp_all
  have frames: "microphone_frames (unat (2 :: u32)) 4 (concat (map snd ?q)) = [16383, 8191, 0, 0]"
    unfolding k(5) by (simp add: microphone_frames_def frame_mean_def frame_sum_def s16_of_half numeral_eq_Suc)
  have stream: "[0, 0, 0, 16383, 8191, 0, 0] = held (capture_side ?d) @ microphone_frames (unat (2 :: u32)) 4 (concat (map snd ?q))"
    unfolding frames d(5) by (simp add: numeral_3_eq_3)
  have j: "(2 :: nat) = (unat (bufferLen (capture_side ?d)) + 4) div unat (3 :: u32)" unfolding d(4) by simp
  have parts: "take (2 * unat (3 :: u32)) [0, 0, 0, 16383, 8191, 0, 0 :: i16] = [0, 0, 0, 16383, 8191, 0]"
      "drop (2 * unat (3 :: u32)) [0, 0, 0, 16383, 8191, 0, 0 :: i16] = [0]"
    by simp_all
  show ?thesis
    using engine_records_from_float_hardware [OF io k(1-4) d(1,2) q stream j, of True "\<lambda>_. None" _ 0] unfolding parts d(3) by blast
qed

end
