(* ===== verification/Ma_Interleave.thy ===== *)
theory Ma_Interleave
  imports Ma_Pcm
begin

text \<open>
  Interleaving and deinterleaving of channel buffers in miniaudio (\<open>client/native/miniaudio.h\<close>):
  \<open>ma_pcm_interleave_*\<close>, \<open>ma_pcm_deinterleave_*\<close> for the five formats. The nested loops over frames and
  channels are list comprehensions; the \<open>s24\<close> variants move three bytes per sample, and the one that
  deinterleaves computes its indices in 32 bits.
\<close>

section \<open>Model\<close>

definition interleave_loops :: "'a list list \<Rightarrow> nat \<Rightarrow> nat \<Rightarrow> 'a list" where
  "interleave_loops src frameCount channels =
     concat (map (\<lambda>iFrame. map (\<lambda>iChannel. src ! iChannel ! iFrame) [0..<channels]) [0..<frameCount])"

definition deinterleave_loops :: "'a list \<Rightarrow> nat \<Rightarrow> nat \<Rightarrow> 'a list list" where
  "deinterleave_loops src frameCount channels =
     map (\<lambda>iChannel. map (\<lambda>iFrame. src ! (iFrame * channels + iChannel)) [0..<frameCount]) [0..<channels]"

definition ma_pcm_interleave_u8__reference :: "u8 list list \<Rightarrow> nat \<Rightarrow> nat \<Rightarrow> u8 list" where
  "ma_pcm_interleave_u8__reference src frameCount channels = interleave_loops src frameCount channels"

definition ma_pcm_interleave_u8__optimized :: "u8 list list \<Rightarrow> nat \<Rightarrow> nat \<Rightarrow> u8 list" where
  "ma_pcm_interleave_u8__optimized src frameCount channels =
     (if channels = 1 then take frameCount (src ! 0)
      else if channels = 2
      then concat (map (\<lambda>iFrame. [src ! 0 ! iFrame, src ! 1 ! iFrame]) [0..<frameCount])
      else interleave_loops src frameCount channels)"

definition ma_pcm_interleave_s16 :: "i16 list list \<Rightarrow> nat \<Rightarrow> nat \<Rightarrow> i16 list" where
  "ma_pcm_interleave_s16 src frameCount channels = interleave_loops src frameCount channels"

definition ma_pcm_interleave_s24 :: "u8 list list \<Rightarrow> nat \<Rightarrow> nat \<Rightarrow> u8 list" where
  "ma_pcm_interleave_s24 src frameCount channels =
     concat (map (\<lambda>iFrame. concat (map (\<lambda>iChannel.
       [src ! iChannel ! (iFrame * 3 + 0), src ! iChannel ! (iFrame * 3 + 1), src ! iChannel ! (iFrame * 3 + 2)])
       [0..<channels])) [0..<frameCount])"

definition ma_pcm_interleave_s32 :: "i32 list list \<Rightarrow> nat \<Rightarrow> nat \<Rightarrow> i32 list" where
  "ma_pcm_interleave_s32 src frameCount channels = interleave_loops src frameCount channels"

definition ma_pcm_interleave_f32 :: "f32 list list \<Rightarrow> nat \<Rightarrow> nat \<Rightarrow> f32 list" where
  "ma_pcm_interleave_f32 src frameCount channels = interleave_loops src frameCount channels"

definition ma_pcm_deinterleave_u8 :: "u8 list \<Rightarrow> nat \<Rightarrow> nat \<Rightarrow> u8 list list" where
  "ma_pcm_deinterleave_u8 src frameCount channels = deinterleave_loops src frameCount channels"

definition ma_pcm_deinterleave_s16 :: "i16 list \<Rightarrow> nat \<Rightarrow> nat \<Rightarrow> i16 list list" where
  "ma_pcm_deinterleave_s16 src frameCount channels = deinterleave_loops src frameCount channels"

definition ma_pcm_deinterleave_s32 :: "i32 list \<Rightarrow> nat \<Rightarrow> nat \<Rightarrow> i32 list list" where
  "ma_pcm_deinterleave_s32 src frameCount channels = deinterleave_loops src frameCount channels"

definition ma_pcm_deinterleave_f32 :: "f32 list \<Rightarrow> nat \<Rightarrow> nat \<Rightarrow> f32 list list" where
  "ma_pcm_deinterleave_f32 src frameCount channels = deinterleave_loops src frameCount channels"

text \<open>The frame counter and every index of \<open>ma_pcm_deinterleave_s24\<close> are 32-bit words, the frame count has 64
  bits. The destinations are functions from channel and byte offset.\<close>

definition s24_store :: "u8 list \<Rightarrow> u32 \<Rightarrow> u32 \<Rightarrow> u32 \<Rightarrow> (nat \<Rightarrow> nat \<Rightarrow> u8) \<Rightarrow> (nat \<Rightarrow> nat \<Rightarrow> u8)" where
  "s24_store src channels iFrame iChannel dst =
     dst(unat iChannel := (dst (unat iChannel))
       (unat (iFrame * 3 + 0) := src ! unat (iFrame * 3 * channels + iChannel * 3 + 0),
        unat (iFrame * 3 + 1) := src ! unat (iFrame * 3 * channels + iChannel * 3 + 1),
        unat (iFrame * 3 + 2) := src ! unat (iFrame * 3 * channels + iChannel * 3 + 2)))"

definition s24_frame :: "u8 list \<Rightarrow> u32 \<Rightarrow> u32 \<Rightarrow> (nat \<Rightarrow> nat \<Rightarrow> u8) \<Rightarrow> (nat \<Rightarrow> nat \<Rightarrow> u8)" where
  "s24_frame src channels iFrame dst =
     fold (\<lambda>iChannel. s24_store src channels iFrame (of_nat iChannel)) [0..<unat channels] dst"

partial_function (option) deinterleave_s24_loop ::
    "u8 list \<Rightarrow> u64 \<Rightarrow> u32 \<Rightarrow> u32 \<Rightarrow> (nat \<Rightarrow> nat \<Rightarrow> u8) \<Rightarrow> (nat \<Rightarrow> nat \<Rightarrow> u8) option" where
  "deinterleave_s24_loop src frameCount channels iFrame dst =
     (if ucast iFrame < frameCount
      then deinterleave_s24_loop src frameCount channels (iFrame + 1) (s24_frame src channels iFrame dst)
      else Some dst)"

definition ma_pcm_deinterleave_s24 ::
    "u8 list \<Rightarrow> u64 \<Rightarrow> u32 \<Rightarrow> (nat \<Rightarrow> nat \<Rightarrow> u8) \<Rightarrow> (nat \<Rightarrow> nat \<Rightarrow> u8) option" where
  "ma_pcm_deinterleave_s24 src frameCount channels dst = deinterleave_s24_loop src frameCount channels 0 dst"

section \<open>Properties\<close>

lemma interleave_length [simp]: "length (interleave_loops src frameCount channels) = frameCount * channels"
  by (induction frameCount) (simp_all add: interleave_loops_def)

lemma interleave_nth:
  assumes "f < frameCount" "c < channels"
  shows "interleave_loops src frameCount channels ! (f * channels + c) = src ! c ! f"
  using assms(1)
proof (induction frameCount)
  case (Suc n)
  have split: "interleave_loops src (Suc n) channels =
      interleave_loops src n channels @ map (\<lambda>iChannel. src ! iChannel ! n) [0..<channels]"
    by (simp add: interleave_loops_def)
  show ?case
  proof (cases "f < n")
    case True
    then have "f * channels + c < n * channels"
      using assms(2) by (metis add.commute add_less_le_mono less_eq_Suc_le mult_Suc mult_le_mono1 add_less_cancel_right le_refl order_less_le_trans)
    then show ?thesis using Suc True by (simp add: split nth_append)
  next
    case False
    then show ?thesis using Suc.prems assms(2) by (simp add: split nth_append less_Suc_eq)
  qed
qed simp

lemma deinterleave_interleave:
  assumes "length src = channels" "\<forall>c < channels. length (src ! c) = frameCount"
  shows "deinterleave_loops (interleave_loops src frameCount channels) frameCount channels = src"
  using assms by (auto simp: deinterleave_loops_def interleave_nth intro!: nth_equalityI)

lemma interleave_deinterleave:
  assumes "length xs = frameCount * channels"
  shows "interleave_loops (deinterleave_loops xs frameCount channels) frameCount channels = xs"
proof (rule nth_equalityI)
  fix i
  assume "i < length (interleave_loops (deinterleave_loops xs frameCount channels) frameCount channels)"
  then have i: "i < frameCount * channels" by simp
  then have c: "0 < channels" by (cases channels) simp_all
  have "i div channels < frameCount" "i mod channels < channels"
    using i c by (simp_all add: less_mult_imp_div_less)
  moreover from this have "interleave_loops (deinterleave_loops xs frameCount channels) frameCount channels !
      (i div channels * channels + i mod channels) = xs ! (i div channels * channels + i mod channels)"
    by (simp only: interleave_nth) (simp add: deinterleave_loops_def)
  ultimately show "interleave_loops (deinterleave_loops xs frameCount channels) frameCount channels ! i = xs ! i"
    by simp
qed (use assms in simp)

lemma u8_optimized:
  assumes "length src = channels" "\<forall>p \<in> set src. length p = n"
  shows "ma_pcm_interleave_u8__optimized src n channels = interleave_loops src n channels"
proof -
  consider (one) "channels = 1" | (two) "channels = 2" | (other) "channels \<noteq> 1" "channels \<noteq> 2" by blast
  then show ?thesis
  proof cases
    case one
    then obtain p where "src = [p]" "length p = n" using assms by (cases src) auto
    then show ?thesis using one
      by (simp add: ma_pcm_interleave_u8__optimized_def interleave_loops_def) (metis concat_map_singleton map_nth)
  next
    case two
    then show ?thesis by (simp add: ma_pcm_interleave_u8__optimized_def interleave_loops_def upt_rec numeral_2_eq_2)
  qed (simp add: ma_pcm_interleave_u8__optimized_def)
qed

lemma unat_of_nat_32: "n < 2 ^ 32 \<Longrightarrow> unat (of_nat n :: u32) = n"
  by (simp add: unat_of_nat take_bit_nat_eq_self)

text \<open>Interleaving channel buffers and deinterleaving the result gives the buffers back, and the other
  way round, in each of the formats with one element per sample; and the \<open>u8\<close> interleaver's special
  cases for one and two channels compute what its general loop computes.\<close>

theorem interleave_roundtrip:
  assumes "\<forall>p \<in> set u. length p = n" "\<forall>p \<in> set s. length p = n" "\<forall>p \<in> set w. length p = n" "\<forall>p \<in> set g. length p = n"
    and "length us = n * c" "length ss = n * c" "length ws = n * c" "length gs = n * c"
  shows "ma_pcm_deinterleave_u8 (ma_pcm_interleave_u8__optimized u n (length u)) n (length u) = u \<and>
    ma_pcm_deinterleave_s16 (ma_pcm_interleave_s16 s n (length s)) n (length s) = s \<and>
    ma_pcm_deinterleave_s32 (ma_pcm_interleave_s32 w n (length w)) n (length w) = w \<and>
    ma_pcm_deinterleave_f32 (ma_pcm_interleave_f32 g n (length g)) n (length g) = g \<and>
    ma_pcm_interleave_u8__optimized (ma_pcm_deinterleave_u8 us n c) n c = us \<and>
    ma_pcm_interleave_s16 (ma_pcm_deinterleave_s16 ss n c) n c = ss \<and>
    ma_pcm_interleave_s32 (ma_pcm_deinterleave_s32 ws n c) n c = ws \<and>
    ma_pcm_interleave_f32 (ma_pcm_deinterleave_f32 gs n c) n c = gs \<and>
    ma_pcm_interleave_u8__optimized u n (length u) = ma_pcm_interleave_u8__reference u n (length u)"
proof -
  have u: "ma_pcm_interleave_u8__optimized u n (length u) = interleave_loops u n (length u)"
    by (rule u8_optimized [OF refl assms(1)])
  have us: "ma_pcm_interleave_u8__optimized (deinterleave_loops us n c) n c = interleave_loops (deinterleave_loops us n c) n c"
    by (rule u8_optimized) (auto simp: deinterleave_loops_def)
  have planes: "\<forall>p \<in> set xs. length p = n \<Longrightarrow> \<forall>i < length xs. length (xs ! i) = n" for xs :: "'z list list"
    by simp
  show ?thesis
    unfolding ma_pcm_deinterleave_u8_def ma_pcm_deinterleave_s16_def ma_pcm_deinterleave_s32_def ma_pcm_deinterleave_f32_def
      ma_pcm_interleave_s16_def ma_pcm_interleave_s32_def ma_pcm_interleave_f32_def ma_pcm_interleave_u8__reference_def u us
    using assms by (intro conjI deinterleave_interleave interleave_deinterleave refl) simp_all
qed

theorem interleave_roundtrip_witness:
  "ma_pcm_deinterleave_u8 (ma_pcm_interleave_u8__optimized [[1, 2], [3, 4]] 2 2) 2 2 = [[1, 2], [3, 4]] \<and>
   ma_pcm_deinterleave_s16 (ma_pcm_interleave_s16 [[1, 2], [3, 4], [5, 6]] 2 3) 2 3 = [[1, 2], [3, 4], [5, 6]] \<and>
   ma_pcm_interleave_f32 (ma_pcm_deinterleave_f32 [Fin 1, PInf, Fin 0, NaN] 2 2) 2 2 = [Fin 1, PInf, Fin 0, NaN]"
proof -
  have "\<forall>p \<in> set [[1, 2], [3, 4 :: u8]]. length p = 2" "\<forall>p \<in> set [[1, 2], [3, 4], [5, 6 :: i16]]. length p = 2"
    "\<forall>p \<in> set ([] :: i32 list list). length p = 2" "\<forall>p \<in> set ([] :: f32 list list). length p = 2"
    "length [1, 2, 3, 4 :: u8] = 2 * 2" "length [1, 2, 3, 4 :: i16] = 2 * 2" "length [1, 2, 3, 4 :: i32] = 2 * 2"
    "length [Fin 1, PInf, Fin 0, NaN] = 2 * 2" by simp_all
  note rt = interleave_roundtrip [OF this]
  have "length [[1, 2], [3, 4 :: u8]] = 2" "length [[1, 2], [3, 4], [5, 6 :: i16]] = 3" by simp_all
  with rt show ?thesis by metis
qed

section \<open>The \<open>s24\<close> deinterleaver\<close>

lemma deinterleave_s24_ends:
  assumes "deinterleave_s24_loop src frameCount channels i dst = Some out"
  shows "unat frameCount < 2 ^ 32"
proof (rule deinterleave_s24_loop.raw_induct [where P = "\<lambda>src frameCount channels i dst out. unat frameCount < 2 ^ 32", OF _ assms])
  fix loop :: "u8 list \<Rightarrow> u64 \<Rightarrow> u32 \<Rightarrow> u32 \<Rightarrow> (nat \<Rightarrow> nat \<Rightarrow> u8) \<Rightarrow> (nat \<Rightarrow> nat \<Rightarrow> u8) option"
    and src channels i dst out and frameCount :: u64
  assume IH: "\<And>src frameCount channels i dst out. loop src frameCount channels i dst = Some out \<Longrightarrow> unat frameCount < 2 ^ 32"
    and eq: "(if ucast i < frameCount then loop src frameCount channels (i + 1) (s24_frame src channels i dst) else Some dst) = Some out"
  show "unat frameCount < 2 ^ 32"
  proof (cases "ucast i < frameCount")
    case True
    then show ?thesis using eq IH by auto
  next
    case False
    then show ?thesis using unsigned_less [of i, where ?'a = nat]
      by (simp add: word_less_nat_alt not_less unat_ucast_32_64)
  qed
qed

lemma s24_store_at:
  assumes "unat i * 3 * unat channels + c * 3 + 3 \<le> 2 ^ 32" "c < unat channels"
  shows "s24_store src channels i (of_nat c) dst c' j =
    (if c' = c \<and> unat i * 3 \<le> j \<and> j < unat i * 3 + 3
     then src ! (unat i * 3 * unat channels + c * 3 + (j - unat i * 3)) else dst c' j)"
proof -
  have c: "unat (of_nat c :: u32) = c"
    using assms(2) unsigned_less [of channels, where ?'a = nat] by (intro unat_of_nat_32) simp
  have "unat i * 3 * 1 \<le> unat i * 3 * unat channels" using assms(2) by (intro mult_le_mono2) simp
  then have i3: "unat i * 3 + 3 \<le> 2 ^ 32" using assms(1) by linarith
  have k: "unat (i * 3 + of_nat k) = unat i * 3 + k" if "k < 3" for k
    using i3 that by (simp add: unat_word_ariths unat_of_nat_32)
  have n: "unat (i * 3 * channels + of_nat c * 3 + of_nat k) = unat i * 3 * unat channels + c * 3 + k" if "k < 3" for k
  proof -
    have "unat i * 3 < 2 ^ 32" "unat i * 3 * unat channels < 2 ^ 32" "c * 3 < 2 ^ 32"
      "unat i * 3 * unat channels + c * 3 < 2 ^ 32" "unat i * 3 * unat channels + c * 3 + k < 2 ^ 32"
      using assms(1) i3 that by linarith+
    then show ?thesis using that by (simp add: unat_word_ariths c unat_of_nat_32)
  qed
  have j: "unat i * 3 \<le> j \<and> j < unat i * 3 + 3 \<longleftrightarrow> j = unat i * 3 + 0 \<or> j = unat i * 3 + 1 \<or> j = unat i * 3 + 2"
    by auto
  show ?thesis
    using k [of 0] k [of 1] k [of 2] n [of 0] n [of 1] n [of 2]
    by (simp add: s24_store_def c j)
qed

lemma s24_frame_at:
  assumes "unat i * 3 * unat channels + unat channels * 3 \<le> 2 ^ 32"
  shows "s24_frame src channels i dst c j =
    (if c < unat channels \<and> unat i * 3 \<le> j \<and> j < unat i * 3 + 3
     then src ! (unat i * 3 * unat channels + c * 3 + (j - unat i * 3)) else dst c j)"
proof -
  have "fold (\<lambda>c. s24_store src channels i (of_nat c)) [0..<m] dst c j =
    (if c < m \<and> unat i * 3 \<le> j \<and> j < unat i * 3 + 3
     then src ! (unat i * 3 * unat channels + c * 3 + (j - unat i * 3)) else dst c j)" if "m \<le> unat channels" for m
    using that
  proof (induction m)
    case (Suc m)
    then have "unat i * 3 * unat channels + m * 3 + 3 \<le> 2 ^ 32" using assms by simp
    then show ?case using Suc by (auto simp: s24_store_at less_Suc_eq)
  qed simp
  from this [OF order_refl] show ?thesis by (simp add: s24_frame_def)
qed

lemma deinterleave_s24_result:
  assumes "unat frameCount * 3 * unat channels < 2 ^ 32" "0 < unat channels" "unat i = m" "m \<le> unat frameCount"
  shows "\<exists>out. deinterleave_s24_loop src frameCount channels i dst = Some out \<and>
    (\<forall>c j. out c j = (if c < unat channels \<and> m * 3 \<le> j \<and> j < unat frameCount * 3
       then src ! (j div 3 * 3 * unat channels + c * 3 + j mod 3) else dst c j))"
  using assms(3,4)
proof (induction "unat frameCount - m" arbitrary: i m dst)
  case 0
  then have "\<not> ucast i < frameCount" by (simp add: word_less_nat_alt unat_ucast_32_64)
  then show ?case using 0 by (subst deinterleave_s24_loop.simps) auto
next
  case (Suc n)
  then have lt: "ucast i < frameCount" and lt': "m < unat frameCount"
    by (simp_all add: word_less_nat_alt unat_ucast_32_64)
  have "unat frameCount * 3 * 1 \<le> unat frameCount * 3 * unat channels" using assms(2) by (intro mult_le_mono2) simp
  then have small: "unat frameCount < 2 ^ 32" using assms(1) by linarith
  have i1: "unat (i + 1) = Suc m"
    using lt' small Suc.prems(1) by (simp add: unat_word_ariths)
  have "Suc m * (3 * unat channels) \<le> unat frameCount * (3 * unat channels)" using lt' by (intro mult_le_mono1) simp
  then have room: "unat i * 3 * unat channels + unat channels * 3 \<le> 2 ^ 32"
    using assms(1) Suc.prems(1) by (simp add: algebra_simps)
  have n: "n = unat frameCount - Suc m" using Suc.hyps(2) by simp
  obtain out where out: "deinterleave_s24_loop src frameCount channels (i + 1) (s24_frame src channels i dst) = Some out"
    "\<And>c j. out c j = (if c < unat channels \<and> Suc m * 3 \<le> j \<and> j < unat frameCount * 3
       then src ! (j div 3 * 3 * unat channels + c * 3 + j mod 3) else s24_frame src channels i dst c j)"
    using Suc.hyps(1) [OF n i1 Suc_leI [OF lt'], of "s24_frame src channels i dst"] by blast
  have "out c j = (if c < unat channels \<and> m * 3 \<le> j \<and> j < unat frameCount * 3
       then src ! (j div 3 * 3 * unat channels + c * 3 + j mod 3) else dst c j)" for c j
  proof (cases "m * 3 \<le> j \<and> j < m * 3 + 3")
    case True
    then obtain k where "j = m * 3 + k" "k < 3" by (metis le_add_diff_inverse less_diff_conv2 add.commute)
    then have "j div 3 = m" "j mod 3 = j - m * 3" by simp_all
    then show ?thesis using True lt' Suc.prems(1) by (auto simp: out(2) s24_frame_at [OF room])
  next
    case False
    then show ?thesis using Suc.prems(1) by (auto simp: out(2) s24_frame_at [OF room])
  qed
  moreover have "deinterleave_s24_loop src frameCount channels i dst = Some out"
    using out(1) by (subst deinterleave_s24_loop.simps) (simp add: lt)
  ultimately show ?case by blast
qed

text \<open>\<open>ma_pcm_deinterleave_s24\<close> counts frames in 32 bits against a 64-bit frame count. It never returns
  when there are \<open>2 ^ 32\<close> frames or more; as long as the whole buffer has less than \<open>2 ^ 32\<close> bytes it
  returns, every byte of every sample is in its channel's buffer, and nothing else is written.\<close>

theorem deinterleave_s24_returns:
  "(2 ^ 32 \<le> unat frameCount \<longrightarrow> ma_pcm_deinterleave_s24 src frameCount channels dst = None) \<and>
   (unat frameCount * 3 * unat channels < 2 ^ 32 \<and> 0 < unat channels \<longrightarrow>
     (\<exists>out. ma_pcm_deinterleave_s24 src frameCount channels dst = Some out \<and>
        (\<forall>c j. out c j = (if c < unat channels \<and> j < unat frameCount * 3
           then src ! (j div 3 * 3 * unat channels + c * 3 + j mod 3) else dst c j))))"
proof (intro conjI impI)
  assume "2 ^ 32 \<le> unat frameCount"
  then show "ma_pcm_deinterleave_s24 src frameCount channels dst = None"
    using deinterleave_s24_ends [of src frameCount channels 0 dst]
    by (cases "deinterleave_s24_loop src frameCount channels 0 dst") (auto simp: ma_pcm_deinterleave_s24_def)
next
  assume "unat frameCount * 3 * unat channels < 2 ^ 32 \<and> 0 < unat channels"
  then show "\<exists>out. ma_pcm_deinterleave_s24 src frameCount channels dst = Some out \<and>
        (\<forall>c j. out c j = (if c < unat channels \<and> j < unat frameCount * 3
           then src ! (j div 3 * 3 * unat channels + c * 3 + j mod 3) else dst c j))"
    using deinterleave_s24_result [of frameCount channels 0 0 src dst] by (simp add: ma_pcm_deinterleave_s24_def)
qed

theorem deinterleave_s24_returns_witness:
  "ma_pcm_deinterleave_s24 [] 0x100000000 2 (\<lambda>_ _. 0) = None \<and>
   (\<exists>out. ma_pcm_deinterleave_s24 [1, 2, 3, 4, 5, 6] 1 2 (\<lambda>_ _. 0) = Some out \<and>
      map (out 0) [0..<4] = [1, 2, 3, 0] \<and> map (out 1) [0..<3] = [4, 5, 6])"
proof
  show "ma_pcm_deinterleave_s24 [] 0x100000000 2 (\<lambda>_ _. 0) = None"
    using conjunct1 [OF deinterleave_s24_returns [of "0x100000000" "[]" 2 "\<lambda>_ _. 0"]] by simp
  have "unat (1 :: u64) * 3 * unat (2 :: u32) < 2 ^ 32 \<and> 0 < unat (2 :: u32)" by simp
  with conjunct2 [OF deinterleave_s24_returns [of 1 "[1, 2, 3, 4, 5, 6]" 2 "\<lambda>_ _. 0"]]
  obtain out where out: "ma_pcm_deinterleave_s24 [1, 2, 3, 4, 5, 6] 1 2 (\<lambda>_ _. 0) = Some out"
    "\<And>c j. out c j = (if c < unat (2 :: u32) \<and> j < unat (1 :: u64) * 3
       then [1, 2, 3, 4, 5, 6] ! (j div 3 * 3 * unat (2 :: u32) + c * 3 + j mod 3) else 0)"
    by blast
  then show "\<exists>out. ma_pcm_deinterleave_s24 [1, 2, 3, 4, 5, 6] 1 2 (\<lambda>_ _. 0) = Some out \<and>
      map (out 0) [0..<4] = [1, 2, 3, 0] \<and> map (out 1) [0..<3] = [4, 5, 6]"
    by (intro exI [of _ out]) (simp add: upt_rec)
qed

end
