(* ===== verification/Ma_Channel_Route.thy ===== *)
theory Ma_Channel_Route
  imports Ma_Channel_Mix
begin

text \<open>
  The paths of the channel converter of miniaudio against one specification: an output channel carries the
  input channel of the same position, or silence. The fast paths (copy and shuffle) and the mix with weights
  are the same function of the samples where the code is right, which for the mix of 8-bit samples it is not.
\<close>

section \<open>Routing by position\<close>

definition position_in :: "channel_converter_config \<Rightarrow> nat \<Rightarrow> ma_channel" where
  "position_in cfg i = ma_channel_map_get_channel (ccc_pChannelMapIn cfg) (ccc_channelsIn cfg) (of_nat i)"

definition position_out :: "channel_converter_config \<Rightarrow> nat \<Rightarrow> ma_channel" where
  "position_out cfg j = ma_channel_map_get_channel (ccc_pChannelMapOut cfg) (ccc_channelsOut cfg) (of_nat j)"

definition source_of :: "channel_converter_config \<Rightarrow> nat \<Rightarrow> nat option" where
  "source_of cfg j = find (\<lambda>i. position_in cfg i = position_out cfg j) [0..<unat (ccc_channelsIn cfg)]"

text \<open>Output channel \<open>j\<close> gets what \<open>through\<close> makes of the input channel \<open>src j\<close>, or else \<open>z\<close>.\<close>

definition routed :: "(nat \<Rightarrow> nat option) \<Rightarrow> ('s \<Rightarrow> 's) \<Rightarrow> 's \<Rightarrow> u32 \<Rightarrow> 's list \<Rightarrow> 's list" where
  "routed src through z chOut x = map (\<lambda>j. case src j of Some i \<Rightarrow> through (x ! i) | None \<Rightarrow> z) [0..<unat chOut]"

lemma source_of_cases:
  obtains (at_position) i where "source_of cfg j = Some i" "i < unat (ccc_channelsIn cfg)" "position_in cfg i = position_out cfg j"
    "\<forall>k < i. position_in cfg k \<noteq> position_out cfg j"
  | (nowhere) "source_of cfg j = None" "\<forall>i < unat (ccc_channelsIn cfg). position_in cfg i \<noteq> position_out cfg j"
proof (cases "source_of cfg j")
  case None
  then have "\<forall>i < unat (ccc_channelsIn cfg). position_in cfg i \<noteq> position_out cfg j"
    by (auto simp: source_of_def find_None_iff)
  then show thesis using None nowhere by blast
next
  case (Some i)
  then have "i < unat (ccc_channelsIn cfg) \<and> position_in cfg i = position_out cfg j \<and> (\<forall>k < i. position_in cfg k \<noteq> position_out cfg j)"
    by (auto simp: source_of_def find_Some_iff)
  then show thesis using Some at_position by blast
qed

definition distinct_inputs :: "channel_converter_config \<Rightarrow> bool" where
  "distinct_inputs cfg \<longleftrightarrow> distinct (map (position_in cfg) [0..<unat (ccc_channelsIn cfg)])"

lemma distinct_inputs_inj:
  "distinct_inputs cfg \<Longrightarrow> i < unat (ccc_channelsIn cfg) \<Longrightarrow> k < unat (ccc_channelsIn cfg) \<Longrightarrow> position_in cfg i = position_in cfg k \<Longrightarrow> i = k"
  by (simp add: distinct_inputs_def distinct_map inj_on_def)

section \<open>The weights of the simple mode\<close>

lemma float_to_fixed_1: "ma_channel_converter_float_to_fixed (Fin 1) = Some 4096"
proof -
  have "f32 4096 = Fin 4096" using f32_of_int [of 4096] by simp
  moreover have "trunc 4096 = 4096" using trunc_of_int [of 4096] by simp
  ultimately show ?thesis by (simp add: ma_channel_converter_float_to_fixed_def)
qed

lemma simple_weight:
  "ccc_mixingMode cfg = ma_channel_mix_mode_simple \<Longrightarrow>
   converter_weight ma_channel_converter_float_to_fixed 0 cfg i j = Some (if position_in cfg i = position_out cfg j then 4096 else 0)"
  by (simp add: converter_weight_def weight_exact_def position_in_def position_out_def float_to_fixed_1)

definition simple_weights :: "channel_converter_config \<Rightarrow> i32 list list" where
  "simple_weights cfg = map (\<lambda>i. map (\<lambda>j. if position_in cfg i = position_out cfg j then 4096 else 0) [0..<unat (ccc_channelsOut cfg)])
     [0..<unat (ccc_channelsIn cfg)]"

lemma simple_weight_matrix:
  "ccc_mixingMode cfg = ma_channel_mix_mode_simple \<Longrightarrow> weight_matrix ma_channel_converter_float_to_fixed 0 cfg = Some (simple_weights cfg)"
  by (simp add: weight_matrix_def simple_weights_def simple_weight those_map_Some)

lemma simple_weights_nth:
  "i < unat (ccc_channelsIn cfg) \<Longrightarrow> j < unat (ccc_channelsOut cfg) \<Longrightarrow>
   simple_weights cfg ! i ! j = (if position_in cfg i = position_out cfg j then 4096 else 0)"
  "length (simple_weights cfg) = unat (ccc_channelsIn cfg)"
  by (simp_all add: simple_weights_def)

context mixer
begin

text \<open>A mix routes, if every column of the weights has at most one \<open>all_of\<close> and otherwise \<open>none\<close>.\<close>

lemma weighted_frame_routed:
  assumes "length weights = length x"
    and some: "\<And>j i. j < unat chOut \<Longrightarrow> src j = Some i \<Longrightarrow>
      i < length x \<and> (\<forall>k < length x. weights ! k ! j = (if k = i then all_of else none))"
    and nowhere: "\<And>j. j < unat chOut \<Longrightarrow> src j = None \<Longrightarrow> \<forall>k < length x. weights ! k ! j = none"
  shows "weighted_frame add zero weights chOut x = Some (routed src through zero chOut x)"
proof -
  have "accumulate add weights j x zero = Some (case src j of Some i \<Rightarrow> through (x ! i) | None \<Rightarrow> zero)" if j: "j < unat chOut" for j
  proof (cases "src j")
    case None
    have "\<forall>ws \<in> set weights. ws ! j = none" using nowhere [OF j None] assms(1) by (auto simp: in_set_conv_nth)
    then show ?thesis using None accumulate_none [of weights j x zero] by simp
  next
    case (Some i)
    then show ?thesis using accumulate_one [of i weights x j] some [OF j Some] assms(1) by simp
  qed
  then show ?thesis unfolding weighted_frame_def routed_def by (subst those_map_Some) auto
qed

end

lemma simple_weights_column:
  assumes "distinct_inputs cfg" "j < unat (ccc_channelsOut cfg)"
  shows "source_of cfg j = Some i \<Longrightarrow>
    i < unat (ccc_channelsIn cfg) \<and> (\<forall>k < unat (ccc_channelsIn cfg). simple_weights cfg ! k ! j = (if k = i then 4096 else 0))"
    "source_of cfg j = None \<Longrightarrow> \<forall>k < unat (ccc_channelsIn cfg). simple_weights cfg ! k ! j = 0"
proof -
  show "i < unat (ccc_channelsIn cfg) \<and> (\<forall>k < unat (ccc_channelsIn cfg). simple_weights cfg ! k ! j = (if k = i then 4096 else 0))"
    if "source_of cfg j = Some i"
    using that by (cases cfg j rule: source_of_cases)
      (auto simp: simple_weights_nth assms(2) dest: distinct_inputs_inj [OF assms(1)])
  show "\<forall>k < unat (ccc_channelsIn cfg). simple_weights cfg ! k ! j = 0" if "source_of cfg j = None"
    using that by (cases cfg j rule: source_of_cases) (auto simp: simple_weights_nth assms(2))
qed

lemma simple_mix_frame:
  assumes "distinct_inputs cfg" "length x = unat (ccc_channelsIn cfg)"
  shows "weighted_frame add_weighted_s16 0 (simple_weights cfg) (ccc_channelsOut cfg) x
    = Some (routed (source_of cfg) id 0 (ccc_channelsOut cfg) x)"
  using simple_weights_column [OF assms(1)] assms(2)
  by (intro mix_s16.weighted_frame_routed) (auto simp: simple_weights_nth(2))

lemma simple_mix_frame_u8:
  assumes "distinct_inputs cfg" "length x = unat (ccc_channelsIn cfg)"
  shows "weighted_frame add_weighted_u8 0 (simple_weights cfg) (ccc_channelsOut cfg) x
    = Some (routed (source_of cfg) upper_half 0 (ccc_channelsOut cfg) x)"
  using simple_weights_column [OF assms(1)] assms(2)
  by (intro mix_u8.weighted_frame_routed) (auto simp: simple_weights_nth(2))

section \<open>The other paths\<close>

lemma get_channel_copy:
  assumes "i < unat chans"
  shows "ma_channel_map_get_channel (case m of None \<Rightarrow> None
     | Some p \<Rightarrow> ma_channel_map_copy_or_default (Some (\<lambda>i. 0)) (unat chans) (Some p) chans) chans (of_nat i)
   = ma_channel_map_get_channel m chans (of_nat i)"
proof -
  have "unat (of_nat i :: u32) = i" using assms unsigned_less [of chans, where ?'a = nat] by (simp add: unat_of_nat take_bit_nat_eq_self)
  then show ?thesis
    using assms by (cases m)
      (auto simp: ma_channel_map_get_channel_def ma_channel_map_copy_or_default_def ma_channel_map_copy_def word_le_nat_alt word_gt_0)
qed

text \<open>A copy routes, since the positions are the same.\<close>

lemma source_of_unique:
  assumes "distinct_inputs cfg" "i < unat (ccc_channelsIn cfg)" "position_in cfg i = position_out cfg j"
  shows "source_of cfg j = Some i"
proof (cases cfg j rule: source_of_cases)
  case (at_position k)
  then show ?thesis using distinct_inputs_inj [OF assms(1), of k i] assms(2,3) by simp
qed (use assms in auto)

lemma routed_passthrough:
  assumes "ccc_channelsIn cfg = ccc_channelsOut cfg" "\<forall>i < unat (ccc_channelsIn cfg). position_in cfg i = position_out cfg i"
    "distinct_inputs cfg" "length x = unat (ccc_channelsIn cfg)"
  shows "routed (source_of cfg) id z (ccc_channelsOut cfg) x = x"
proof -
  have "source_of cfg j = Some j" if "j < unat (ccc_channelsIn cfg)" for j
    using source_of_unique [OF assms(3) that] assms(2) that by simp
  then show ?thesis using assms(1,4) by (intro nth_equalityI) (auto simp: routed_def)
qed

text \<open>A table entry is the exact match, if there is one.\<close>

lemma shuffle_entry_exact:
  "i \<in> set is \<Longrightarrow> inp i = p \<Longrightarrow> \<forall>k \<in> set is. inp k = p \<longrightarrow> k = i \<Longrightarrow> shuffle_entry p inp is e = of_nat i"
proof (induction "is" arbitrary: e)
  case (Cons k "is")
  show ?case
  proof (cases "inp k = p")
    case True
    then have "k = i" using Cons.prems(3) by simp
    then show ?thesis using True by simp
  next
    case False
    then have "i \<in> set is" using Cons.prems(1,2) by auto
    then show ?thesis using False Cons.IH [OF _ Cons.prems(2)] Cons.prems(3) by simp
  qed
qed simp

text \<open>If all positions of the input are among as many of the output, all of the output are among those of
  the input.\<close>

lemma shuffle_onto:
  assumes "distinct_inputs cfg" "ccc_channelsIn cfg = ccc_channelsOut cfg"
    "\<forall>i < unat (ccc_channelsIn cfg). \<exists>j < unat (ccc_channelsOut cfg). position_out cfg j = position_in cfg i"
    "j < unat (ccc_channelsOut cfg)"
  shows "\<exists>i < unat (ccc_channelsIn cfg). position_in cfg i = position_out cfg j"
proof -
  let ?n = "unat (ccc_channelsIn cfg)"
  let ?I = "position_in cfg ` {..<?n}" and ?O = "position_out cfg ` {..<?n}"
  have "inj_on (position_in cfg) {..<?n}" using distinct_inputs_inj [OF assms(1)] by (auto intro: inj_onI)
  then have "card ?I = ?n" by (simp add: card_image)
  moreover have "?I \<subseteq> ?O" using assms(2,3) by force
  moreover have "card ?O \<le> ?n" using card_image_le [of "{..<?n}" "position_out cfg"] by simp
  ultimately have "?I = ?O" by (intro card_seteq) auto
  moreover have "position_out cfg j \<in> ?O" using assms(2,4) by simp
  ultimately have "position_out cfg j \<in> ?I" by (simp only:)
  then obtain i where "position_out cfg j = position_in cfg i" "i \<in> {..<?n}" by (rule imageE)
  then show ?thesis by auto
qed

lemma contains_iff:
  "ma_channel_map_contains_channel_position chans m p \<longleftrightarrow> (\<exists>i < unat chans. ma_channel_map_get_channel m chans (of_nat i) = p)"
  by (auto simp: ma_channel_map_contains_channel_position_def ma_channel_map_find_channel_position_def find_None_iff
      split: option.splits dest!: find_Some_iff [THEN iffD1])

lemma path_cases:
  assumes "ma_channel_converter_config_get_conversion_path cfg = path"
  shows "path = ma_channel_conversion_path_passthrough \<Longrightarrow> ccc_channelsIn cfg = ccc_channelsOut cfg \<and>
      (\<forall>i < unat (ccc_channelsIn cfg). position_in cfg i = position_out cfg i)"
    "path = ma_channel_conversion_path_shuffle \<Longrightarrow> ccc_channelsIn cfg = ccc_channelsOut cfg \<and>
      (\<forall>i < unat (ccc_channelsIn cfg). \<exists>j < unat (ccc_channelsOut cfg). position_out cfg j = position_in cfg i)"
  using assms unfolding ma_channel_converter_config_get_conversion_path_def ma_channel_map_get_conversion_path_def
    ma_channel_map_is_passthrough_def ma_channel_map_is_equal_def contains_iff position_in_def position_out_def list_all_iff
  by (auto split: if_splits)

text \<open>The shuffle of a frame routes.\<close>

definition shuffle_table :: "channel_converter_config \<Rightarrow> u8 list" where
  "shuffle_table cfg = map (\<lambda>j. shuffle_entry (position_out cfg j) (position_in cfg) [0..<unat (ccc_channelsIn cfg)] MA_CHANNEL_INDEX_NULL)
     [0..<unat (ccc_channelsOut cfg)]"

lemma shuffle_entry_cong: "(\<And>i. i \<in> set is \<Longrightarrow> f i = g i) \<Longrightarrow> shuffle_entry p f is e = shuffle_entry p g is e"
  by (induction "is" arbitrary: e) auto

lemma layout_channels:
  "fst (ma_channel_converter_get_heap_layout (Some cfg)) = MA_SUCCESS \<Longrightarrow> ccc_channelsIn cfg \<noteq> 0 \<and> ccc_channelsOut cfg \<noteq> 0"
  by (auto simp: ma_channel_converter_get_heap_layout_def split: if_splits)

lemma init_channels:
  "ma_channel_converter_init_preallocated (Some cfg) (Some c0) = Some (MA_SUCCESS, Some c) \<Longrightarrow> ccc_channelsIn cfg \<noteq> 0 \<and> ccc_channelsOut cfg \<noteq> 0"
  by (rule layout_channels) (auto simp: ma_channel_converter_init_preallocated_def split: if_splits)

lemma init_shuffle_table:
  assumes "conversionPath (fresh_converter cfg) = ma_channel_conversion_path_shuffle"
    "ma_channel_converter_init_preallocated (Some cfg) (Some c0) = Some (MA_SUCCESS, Some c)"
  shows "c = fresh_converter cfg\<lparr>pShuffleTable := shuffle_table cfg\<rparr>"
proof -
  let ?f = "fresh_converter cfg"
  have ok: "fst (ma_channel_converter_get_heap_layout (Some cfg)) = MA_SUCCESS"
    using assms(2) by (auto simp: ma_channel_converter_init_preallocated_def split: if_splits)
  note nz = init_channels [OF assms(2)]
  have inp: "ma_channel_map_get_channel (pChannelMapIn ?f) (ccc_channelsIn cfg) (of_nat i) = position_in cfg i"
    if "i < unat (ccc_channelsIn cfg)" for i
    using get_channel_copy [OF that, of "ccc_pChannelMapIn cfg"] by (simp add: fresh_converter_def position_in_def)
  have outp: "ma_channel_map_get_channel (pChannelMapOut ?f) (ccc_channelsOut cfg) (of_nat j) = position_out cfg j"
    if "j < unat (ccc_channelsOut cfg)" for j
    using get_channel_copy [OF that, of "ccc_pChannelMapOut cfg"] by (simp add: fresh_converter_def position_out_def)
  have chans: "channelsIn ?f = ccc_channelsIn cfg" "channelsOut ?f = ccc_channelsOut cfg" by (simp_all add: fresh_converter_def)
  have "the (snd (ma_channel_map_build_shuffle_table (pChannelMapIn ?f) (channelsIn ?f) (pChannelMapOut ?f) (channelsOut ?f) (Some [])))
    = shuffle_table cfg"
    unfolding ma_channel_map_build_shuffle_table_def shuffle_table_def chans
    using nz by (auto simp: outp inp intro!: shuffle_entry_cong)
  then show ?thesis
    using assms ok by (simp add: ma_channel_converter_init_preallocated_def Let_def)
qed

lemma routed_shuffle:
  assumes "ma_channel_converter_config_get_conversion_path cfg = ma_channel_conversion_path_shuffle"
    "distinct_inputs cfg" "ccc_channelsIn cfg \<le> 254" "length x = unat (ccc_channelsIn cfg)"
  shows "shuffle_frame z (shuffle_table cfg) (ccc_channelsOut cfg) (ccc_channelsIn cfg) x = routed (source_of cfg) id z (ccc_channelsOut cfg) x"
proof -
  let ?n = "unat (ccc_channelsIn cfg)"
  note p = path_cases(2) [OF assms(1) refl]
  have n: "?n \<le> 254" using assms(3) by (simp add: word_le_nat_alt)
  have "(let i = shuffle_table cfg ! j in if ucast i < ccc_channelsIn cfg then x ! unat i else z)
    = (case source_of cfg j of Some i \<Rightarrow> x ! i | None \<Rightarrow> z)" if j: "j < unat (ccc_channelsOut cfg)" for j
  proof -
    obtain i where i: "i < ?n" "position_in cfg i = position_out cfg j"
      using shuffle_onto [OF assms(2)] p j by blast
    have e: "shuffle_table cfg ! j = of_nat i"
      using j i by (simp add: shuffle_table_def) (intro shuffle_entry_exact, auto dest: distinct_inputs_inj [OF assms(2)])
    have u: "unat (of_nat i :: u8) = i" using i(1) n by (simp add: unat_of_nat take_bit_nat_eq_self)
    then have "unat (ucast (of_nat i :: u8) :: u32) = i" using i(1) n by (simp add: unsigned_ucast_eq take_bit_nat_eq_self)
    then have "ucast (of_nat i :: u8) < ccc_channelsIn cfg" using i(1) by (simp add: word_less_nat_alt)
    then show ?thesis using e u source_of_unique [OF assms(2) i] by simp
  qed
  then show ?thesis by (simp add: shuffle_frame_def routed_def id_def)
qed

section \<open>Every path is the same function\<close>

lemma fresh_simps:
  "cc_format (fresh_converter cfg) = ccc_format cfg" "channelsIn (fresh_converter cfg) = ccc_channelsIn cfg"
  "channelsOut (fresh_converter cfg) = ccc_channelsOut cfg" "mixingMode (fresh_converter cfg) = ccc_mixingMode cfg"
  "conversionPath (fresh_converter cfg) = ma_channel_converter_config_get_conversion_path cfg"
  by (simp_all add: fresh_converter_def)

lemma init_simple_result:
  assumes "ma_channel_converter_init_preallocated (Some cfg) (Some c0) = Some (MA_SUCCESS, Some c)"
    "ccc_format cfg \<noteq> ma_format_f32" "ccc_mixingMode cfg = ma_channel_mix_mode_simple"
  shows "c = (case ma_channel_converter_config_get_conversion_path cfg of
      ma_channel_conversion_path_shuffle \<Rightarrow> fresh_converter cfg\<lparr>pShuffleTable := shuffle_table cfg\<rparr>
    | ma_channel_conversion_path_weights \<Rightarrow> fresh_converter cfg\<lparr>weights_s16 := simple_weights cfg\<rparr>
    | _ \<Rightarrow> fresh_converter cfg)"
proof -
  have ok: "fst (ma_channel_converter_get_heap_layout (Some cfg)) = MA_SUCCESS"
    using assms(1) by (cases "fst (ma_channel_converter_get_heap_layout (Some cfg)) = MA_SUCCESS")
      (simp_all add: ma_channel_converter_init_preallocated_def)
  show ?thesis
  proof (cases "ma_channel_converter_config_get_conversion_path cfg = ma_channel_conversion_path_shuffle")
    case True
    then show ?thesis using init_shuffle_table [OF _ assms(1)] by (simp add: fresh_simps)
  next
    case False
    then show ?thesis
      using assms ok simple_weight_matrix [OF assms(3)]
      by (cases "ma_channel_converter_config_get_conversion_path cfg")
        (simp_all add: ma_channel_converter_init_preallocated_def fresh_simps Let_def)
  qed
qed

lemma init_simple:
  assumes "ma_channel_converter_init_preallocated (Some cfg) (Some c0) = Some (MA_SUCCESS, Some c)"
    "ccc_format cfg \<noteq> ma_format_f32" "ccc_mixingMode cfg = ma_channel_mix_mode_simple"
  shows "cc_format c = ccc_format cfg \<and> channelsIn c = ccc_channelsIn cfg \<and> channelsOut c = ccc_channelsOut cfg
      \<and> conversionPath c = ma_channel_converter_config_get_conversion_path cfg"
    "conversionPath c = ma_channel_conversion_path_shuffle \<Longrightarrow> pShuffleTable c = shuffle_table cfg"
    "conversionPath c = ma_channel_conversion_path_weights \<Longrightarrow> weights_s16 c = simple_weights cfg"
  unfolding init_simple_result [OF assms] by (simp_all add: fresh_simps split: ma_channel_conversion_path.splits)

lemma stateless_run: "(\<And>x. x \<in> set xs \<Longrightarrow> g x = Some (h x)) \<Longrightarrow> run_frames (stateless g) xs () = Some (map h xs, ())"
  by (induction xs) (simp_all add: stateless_def)

lemma weighted_frames_eq:
  assumes "n < 2 ^ 32" "unat n * ch \<le> length xs" "\<And>x. length x = ch \<Longrightarrow> g x = Some (h x)"
  shows "weighted_frames g ch n xs = Some (per_frame ch (unat n) h xs)"
proof -
  have "run_frames (stateless g) (frames_of ch (unat n) xs) () = Some (map h (frames_of ch (unat n) xs), ())"
    by (rule stateless_run) (use assms(3) frames_of_length [OF assms(2)] in auto)
  then show ?thesis
    using frames_loop_run [OF assms(1), of 0 "stateless g" ch xs "()"] by (simp add: weighted_frames_def per_frame_def)
qed

lemma per_frame_cong: "(\<And>x. length x = ch \<Longrightarrow> g x = h x) \<Longrightarrow> n * ch \<le> length xs \<Longrightarrow> per_frame ch n g xs = per_frame ch n h xs"
  unfolding per_frame_def by (intro arg_cong [where f = concat] map_cong) (auto dest: frames_of_length)

lemma per_frame_id: "(\<And>x. length x = ch \<Longrightarrow> g x = x) \<Longrightarrow> n * ch = length xs \<Longrightarrow> per_frame ch n g xs = xs"
  using per_frame_cong [of ch g "\<lambda>x. x" n xs] by (simp add: per_frame_def concat_frames_of)

lemma unat_samples:
  assumes "n < 2 ^ 32"
  shows "unat (n * ucast (ch :: u32) :: u64) = unat n * unat ch"
proof -
  have n: "unat n \<le> 4294967295" using assms by (simp add: word_less_nat_alt)
  have ch: "unat ch \<le> 4294967295" using unsigned_less [of ch, where ?'a = nat] by simp
  have "unat n * unat (ucast ch :: u64) < 2 ^ LENGTH(64)"
    using mult_le_mono [OF n ch] by (simp add: unat_ucast_32_64)
  then show ?thesis using unat_mult_lem [of n "ucast ch"] by (simp only: unat_ucast_32_64)
qed

lemma few_frames: "ch \<noteq> 0 \<Longrightarrow> length xs = unat n * unat ch \<Longrightarrow> length xs < 2 ^ 32 \<Longrightarrow> n < 2 ^ 32" for n :: u64 and ch :: u32
proof -
  assume a: "ch \<noteq> 0" "length xs = unat n * unat ch" "length xs < 2 ^ 32"
  have "unat ch \<noteq> 0" using a(1) by (simp add: unat_eq_0)
  then have "unat n * 1 \<le> unat n * unat ch" by (intro mult_le_mono2) simp
  also have "\<dots> < 4294967296" using a(2,3) by simp
  finally have "unat n < 4294967296" by simp
  then show ?thesis by (simp add: word_less_nat_alt)
qed

text \<open>C19: (the paths of the channel converter are one function) A channel converter of 16-bit samples in the simple mode that was set
  up, on whichever of its three paths for given positions (the copy, the shuffle by a table, the mix with
  fixed-point weights), puts into every output channel the input channel of the same position, and silence
  where there is none; it reports success and leaves the rest of the buffer alone. Inputs do not repeat a
  position, and input and output have fewer than \<open>2 ^ 32\<close> samples.\<close>

theorem conversion_paths_agree:
  assumes init: "ma_channel_converter_init_preallocated (Some cfg) (Some c0) = Some (MA_SUCCESS, Some c)"
    and cfg: "ccc_format cfg = ma_format_s16" "ccc_mixingMode cfg = ma_channel_mix_mode_simple"
    and path: "conversionPath c \<noteq> ma_channel_conversion_path_mono_out" "conversionPath c \<noteq> ma_channel_conversion_path_mono_in"
    and inputs: "distinct_inputs cfg" "ccc_channelsIn cfg \<le> 254"
    and size: "length xs = unat n * unat (ccc_channelsIn cfg)" "length xs < 2 ^ 32" "unat n * unat (ccc_channelsOut cfg) < 2 ^ 32"
  shows "ma_channel_converter_process_pcm_frames (Some c) (Some (PS16 ys)) (Some (PS16 xs)) n = Some (MA_SUCCESS, Some (PS16
    (over ys (per_frame (unat (ccc_channelsIn cfg)) (unat n) (routed (source_of cfg) id 0 (ccc_channelsOut cfg)) xs))))"
proof -
  let ?ch = "unat (ccc_channelsIn cfg)" and ?r = "routed (source_of cfg) id 0 (ccc_channelsOut cfg)"
  note i = init_simple [OF init _ cfg(2)]
  have base: "cc_format c = ma_format_s16" "channelsIn c = ccc_channelsIn cfg" "channelsOut c = ccc_channelsOut cfg"
    "ma_channel_converter_config_get_conversion_path cfg = conversionPath c"
    using i(1) cfg(1) by simp_all
  have n: "n < 2 ^ 32" using few_frames [OF _ size(1,2)] init_channels [OF init] by simp
  have fit: "indices_fit c n" using i(1) cfg(1) size by (auto simp: indices_fit_def max_def)
  note le = eq_imp_le [OF size(1) [symmetric]]
  show ?thesis
  proof (cases "conversionPath c")
    case ma_channel_conversion_path_passthrough
    note p = path_cases(1) [OF base(4) this]
    have "per_frame ?ch (unat n) ?r xs = xs"
      by (rule per_frame_id) (use routed_passthrough [OF _ _ inputs(1)] p size(1) in auto)
    moreover have "unat (n * ucast (ccc_channelsOut cfg) :: u64) = length xs" using unat_samples [OF n] size(1) p by simp
    ultimately show ?thesis
      using ma_channel_conversion_path_passthrough base
      by (simp add: ma_channel_converter_process_pcm_frames_def ma_channel_converter_process_pcm_frames__passthrough_def)
  next
    case ma_channel_conversion_path_shuffle
    note p = path_cases(2) [OF base(4) this]
    have "per_frame ?ch (unat n) (shuffle_frame 0 (shuffle_table cfg) (ccc_channelsOut cfg) (ccc_channelsIn cfg)) xs = per_frame ?ch (unat n) ?r xs"
      by (rule per_frame_cong [OF _ le]) (use routed_shuffle [OF _ inputs] base(4) ma_channel_conversion_path_shuffle in simp)
    moreover have "ccc_channelsOut cfg \<noteq> 0" using init_channels [OF init] by simp
    ultimately show ?thesis
      using ma_channel_conversion_path_shuffle base p i(2) cfg(1)
      by (simp add: ma_channel_converter_process_pcm_frames_def ma_channel_converter_process_pcm_frames__shuffle_def
          ma_channel_map_apply_shuffle_table_def ma_channel_map_apply_shuffle_table_s16_def)
  next
    case ma_channel_conversion_path_weights
    have "weighted_frames (weighted_frame add_weighted_s16 0 (simple_weights cfg) (ccc_channelsOut cfg)) ?ch n xs
        = Some (per_frame ?ch (unat n) ?r xs)"
      by (rule weighted_frames_eq [OF n le]) (rule simple_mix_frame [OF inputs(1)])
    then show ?thesis
      using ma_channel_conversion_path_weights base i(3) cfg(1) fit
      by (simp add: ma_channel_converter_process_pcm_frames_def ma_channel_converter_process_pcm_frames__weights_def Let_def)
  qed (use path in simp_all)
qed

text \<open>For a concrete set-up it is enough that the layout is accepted.\<close>

lemma init_simple_ok:
  assumes "fst (ma_channel_converter_get_heap_layout (Some cfg)) = MA_SUCCESS"
    "ccc_format cfg \<noteq> ma_format_f32" "ccc_mixingMode cfg = ma_channel_mix_mode_simple"
  shows "\<exists>c. ma_channel_converter_init_preallocated (Some cfg) (Some c0) = Some (MA_SUCCESS, Some c)"
  using assms simple_weight_matrix [OF assms(3)]
  by (cases "ma_channel_converter_config_get_conversion_path cfg")
    (simp_all add: ma_channel_converter_init_preallocated_def fresh_simps Let_def)

text \<open>Stereo into right, low-frequency, left: the mix has weights, and the third output is silent.\<close>

definition stereo_to_three :: "ma_format \<Rightarrow> channel_converter_config" where
  "stereo_to_three fmt = ma_channel_converter_config_init fmt 2 (Some (\<lambda>i. if i = 0 then MA_CHANNEL_FRONT_LEFT else MA_CHANNEL_FRONT_RIGHT))
     3 (Some (\<lambda>i. if i = 0 then MA_CHANNEL_FRONT_RIGHT else if i = 1 then MA_CHANNEL_LFE else MA_CHANNEL_FRONT_LEFT)) ma_channel_mix_mode_simple"

lemma stereo_to_three_facts:
  "fst (ma_channel_converter_get_heap_layout (Some (stereo_to_three fmt))) = MA_SUCCESS"
  "ma_channel_converter_config_get_conversion_path (stereo_to_three fmt) = ma_channel_conversion_path_weights"
  "distinct_inputs (stereo_to_three fmt)"
  "map (source_of (stereo_to_three fmt)) [0..<3] = [Some 1, None, Some 0]"
  "ccc_format (stereo_to_three fmt) = fmt" "ccc_mixingMode (stereo_to_three fmt) = ma_channel_mix_mode_simple"
  "ccc_channelsIn (stereo_to_three fmt) = 2" "ccc_channelsOut (stereo_to_three fmt) = 3"
  by code_simp+

lemma conversion_paths_agree_witness:
  "\<forall>c0. \<exists>c. ma_channel_converter_init_preallocated (Some (stereo_to_three ma_format_s16)) (Some c0) = Some (MA_SUCCESS, Some c)
    \<and> ma_channel_converter_process_pcm_frames (Some c) (Some (PS16 [0, 0, 0, 9])) (Some (PS16 [5, - 7])) 1
      = Some (MA_SUCCESS, Some (PS16 [- 7, 0, 5, 9]))"
proof
  fix c0 :: channel_converter
  let ?cfg = "stereo_to_three ma_format_s16"
  obtain c where c: "ma_channel_converter_init_preallocated (Some ?cfg) (Some c0) = Some (MA_SUCCESS, Some c)"
    using init_simple_ok [of ?cfg c0] stereo_to_three_facts by auto
  have "conversionPath c = ma_channel_conversion_path_weights" using init_simple(1) [OF c] stereo_to_three_facts by simp
  then have "ma_channel_converter_process_pcm_frames (Some c) (Some (PS16 [0, 0, 0, 9])) (Some (PS16 [5, - 7])) 1 = Some (MA_SUCCESS,
      Some (PS16 (over [0, 0, 0, 9] (per_frame 2 1 (routed (source_of ?cfg) id 0 3) [5, - 7]))))"
    using conversion_paths_agree [OF c, of "[5, - 7]" 1 "[0, 0, 0, 9]"] by (simp add: stereo_to_three_facts)
  then show "\<exists>c. ma_channel_converter_init_preallocated (Some ?cfg) (Some c0) = Some (MA_SUCCESS, Some c)
      \<and> ma_channel_converter_process_pcm_frames (Some c) (Some (PS16 [0, 0, 0, 9])) (Some (PS16 [5, - 7])) 1 = Some (MA_SUCCESS, Some (PS16 [- 7, 0, 5, 9]))"
    using c stereo_to_three_facts(4) [of ma_format_s16]
    by (auto simp: per_frame_def routed_def over_def upt_rec)
qed

section \<open>Where the paths differ\<close>

text \<open>(8-bit samples mixed with weights lose half of the wave) The same converter for 8-bit samples, on the path
  with weights, writes \<open>upper_half\<close> of the source: a sample below the centre 128 becomes 0, one above it 128
  less. The sum starts from the byte 0, which is the lowest value of the format and not its silence, so
  silence (128) comes out as 0, and an output channel without a source is held at the lowest value.\<close>

theorem mix_u8_loses_half:
  assumes init: "ma_channel_converter_init_preallocated (Some cfg) (Some c0) = Some (MA_SUCCESS, Some c)"
    and cfg: "ccc_format cfg = ma_format_u8" "ccc_mixingMode cfg = ma_channel_mix_mode_simple"
    and path: "conversionPath c = ma_channel_conversion_path_weights"
    and inputs: "distinct_inputs cfg"
    and size: "length xs = unat n * unat (ccc_channelsIn cfg)" "length xs < 2 ^ 32" "unat n * unat (ccc_channelsOut cfg) < 2 ^ 32"
  shows "ma_channel_converter_process_pcm_frames (Some c) (Some (PU8 ys)) (Some (PU8 xs)) n = Some (MA_SUCCESS, Some (PU8
    (over ys (per_frame (unat (ccc_channelsIn cfg)) (unat n) (routed (source_of cfg) upper_half 0 (ccc_channelsOut cfg)) xs))))"
proof -
  note i = init_simple [OF init _ cfg(2)]
  have n: "n < 2 ^ 32" using few_frames [OF _ size(1,2)] init_channels [OF init] by simp
  have fit: "indices_fit c n" using i(1) cfg(1) size by (auto simp: indices_fit_def max_def)
  have "weighted_frames (weighted_frame add_weighted_u8 0 (simple_weights cfg) (ccc_channelsOut cfg)) (unat (ccc_channelsIn cfg)) n xs
      = Some (per_frame (unat (ccc_channelsIn cfg)) (unat n) (routed (source_of cfg) upper_half 0 (ccc_channelsOut cfg)) xs)"
    by (rule weighted_frames_eq [OF n eq_imp_le [OF size(1) [symmetric]]]) (rule simple_mix_frame_u8 [OF inputs])
  then show ?thesis
    using path i(1,3) cfg(1) fit
    by (simp add: ma_channel_converter_process_pcm_frames_def ma_channel_converter_process_pcm_frames__weights_def Let_def)
qed

lemma mix_u8_loses_half_witness:
  "\<forall>c0. \<exists>c. ma_channel_converter_init_preallocated (Some (stereo_to_three ma_format_u8)) (Some c0) = Some (MA_SUCCESS, Some c)
    \<and> ma_channel_converter_process_pcm_frames (Some c) (Some (PU8 [1, 1, 1])) (Some (PU8 [128, 200])) 1
      = Some (MA_SUCCESS, Some (PU8 [72, 0, 0]))"
proof
  fix c0 :: channel_converter
  let ?cfg = "stereo_to_three ma_format_u8"
  obtain c where c: "ma_channel_converter_init_preallocated (Some ?cfg) (Some c0) = Some (MA_SUCCESS, Some c)"
    using init_simple_ok [of ?cfg c0] stereo_to_three_facts by auto
  have "conversionPath c = ma_channel_conversion_path_weights" using init_simple(1) [OF c] stereo_to_three_facts by simp
  then have "ma_channel_converter_process_pcm_frames (Some c) (Some (PU8 [1, 1, 1])) (Some (PU8 [128, 200])) 1 = Some (MA_SUCCESS,
      Some (PU8 (over [1, 1, 1] (per_frame 2 1 (routed (source_of ?cfg) upper_half 0 3) [128, 200]))))"
    using mix_u8_loses_half [OF c, of "[128, 200]" 1 "[1, 1, 1]"] by (simp add: stereo_to_three_facts)
  then show "\<exists>c. ma_channel_converter_init_preallocated (Some ?cfg) (Some c0) = Some (MA_SUCCESS, Some c)
      \<and> ma_channel_converter_process_pcm_frames (Some c) (Some (PU8 [1, 1, 1])) (Some (PU8 [128, 200])) 1 = Some (MA_SUCCESS, Some (PU8 [72, 0, 0]))"
    using c stereo_to_three_facts(4) [of ma_format_u8]
    by (auto simp: per_frame_def routed_def over_def upt_rec upper_half_def)
qed

text \<open>The shuffle of 24-bit samples.\<close>

lemma store_length: "store i x xs = Some ys \<Longrightarrow> length ys = length xs"
  by (auto simp: store_def split: if_splits)

lemma shuffle_s24_channels_length: "shuffle_s24_channels t chIn x base js out = Some ys \<Longrightarrow> length ys = length out"
proof (induction js arbitrary: out)
  case (Cons j js)
  then show ?case by (auto simp: Let_def bind_eq_Some_conv dest!: store_length Cons.IH split: if_splits)
qed simp

lemma shuffle_s24_frames_overrun:
  "frames \<noteq> [] \<Longrightarrow> length out \<le> base + length frames * (unat chOut * 3) + 2 \<Longrightarrow> shuffle_s24_frames t chOut chIn base frames out = None"
proof (induction frames arbitrary: base out)
  case (Cons x frames)
  show ?case
  proof (cases "shuffle_s24_channels t chIn x base [0..<unat chOut] out")
    case (Some ys)
    then have l: "length ys = length out" by (rule shuffle_s24_channels_length)
    show ?thesis
    proof (cases "frames = []")
      case True
      then show ?thesis using Some l Cons.prems(2) by (simp add: store_def add.assoc)
    next
      case False
      then show ?thesis
        using Some l Cons.IH [OF False, of _ "base + unat chOut * 3"] Cons.prems(2)
        by (cases "store (base + unat chOut * 3 + 2) 0 ys") (auto dest: store_length simp: algebra_simps)
    qed
  qed simp
qed simp

text \<open>(the shuffle of 24-bit samples writes outside its buffer) With a buffer that holds exactly the frames asked
  for (or up to two bytes more), shuffling 24-bit samples is undefined, whatever the table and the samples: the
  braces of the loop are misplaced, and the byte cleared after the last frame lies behind the buffer.\<close>

theorem shuffle_s24_overruns:
  assumes "0 < frameCount" "chOut \<noteq> 0" "length out \<le> unat frameCount * (unat chOut * 3) + 2"
  shows "ma_channel_map_apply_shuffle_table (Some (PS24 out)) chOut (Some (PS24 xs)) chIn frameCount (Some table) = None"
  using assms shuffle_s24_frames_overrun [of "frames_of (unat chIn * 3) (unat frameCount) xs" out 0 chOut table chIn]
  by (auto simp: ma_channel_map_apply_shuffle_table_def ma_channel_map_apply_shuffle_table_s24_def word_gt_0 unat_eq_0
      simp flip: length_0_conv)

lemma shuffle_s24_overruns_witness:
  "ma_channel_map_apply_shuffle_table (Some (PS24 [0, 0, 0, 0, 0, 0])) 2 (Some (PS24 [1, 2, 3, 4, 5, 6])) 2 1 (Some [1, 0]) = None"
  by (rule shuffle_s24_overruns) simp_all

end
