(* ===== verification/Spec2Isabelle.thy ===== *)
theory Spec2Isabelle
  imports Engine_Hardware Ma_Channels Ma_Pcm_Rb Ma_Pcm_Float Ma_Interleave
    Ma_Resampling Ma_Channel_Route
begin

text \<open>
  A verification library of the native voice engine of the application (src/client/native): the C file
  \<open>libvoice_engine.c\<close> with its header, the parts of \<open>miniaudio.h\<close> that carry its audio, and the packet
  codec of the Go server that its datagrams pass through.

  \<^bold>\<open>The program.\<close> A client records speech in a capture callback on an audio thread, which down-mixes to
  mono and queues 16-bit samples in a ring of 32768 slots. The application polls
  \<open>voice_engine_capture_frame\<close> for frames of 960 samples (20 ms), which measures the level, runs the voice
  activity detector and hands the bytes out; the application sends them in a datagram with a 20-byte
  header. A forwarding server decodes and re-encodes headers. The receiving client passes each datagram to
  \<open>voice_engine_feed_inbound_packet\<close>, which finds or allocates one of 32 peer streams and appends the
  samples to its ring; slot 0 is kept for the loopback of the microphone test. A playback callback mixes
  all streams, limits the sum and writes it to every channel. Devices, context and threads are
  miniaudio's: the engine opens, starts, stops and closes them and shares its state with the callbacks
  under one recursive mutex.

  \<^bold>\<open>The engine.\<close> \<open>Prelude\<close> has the C integers as words, truncating division, bytes and bounded strings;
  \<open>CFloat\<close> has \<open>float\<close> and \<open>double\<close> as rationals rounded to nearest even, with infinities and NaN.
    \<^item> \<open>Ring\<close>: \<open>RING_BUFFER_SIZE\<close>, the index arithmetic, and the locales of a ring seen as a queue, which
      \<open>Engine_State\<close> interprets for the capture ring and the peer rings.
    \<^item> \<open>Engine_State\<close>: the structs of the header and all static variables as one record, the mutex as a
      depth, the log of calls into miniaudio.
    \<^item> \<open>Peers\<close>, \<open>Wire\<close>, \<open>Inbound\<close>: the stream pool, \<open>Encode\<close> and \<open>Decode\<close> of
      src/backend/internal/audio, the parser of a received datagram.
    \<^item> \<open>Mixer\<close>, \<open>Limiter\<close>, \<open>Playback\<close>: \<open>mix_audio_streams\<close> and \<open>ma_playback_callback\<close>, the cubic limiter in
      binary32, and the mixer against the sample-by-sample reference \<open>mix_value\<close>.
    \<^item> \<open>Level\<close>, \<open>Capture\<close>: level and energy, \<open>ma_capture_callback\<close> and \<open>voice_engine_capture_frame\<close>.
    \<^item> \<open>Devices\<close>, \<open>Hardware\<close>, \<open>Protocol\<close>: enumeration and selection of devices, init, destroy, start, stop
      and the setters, and the automaton of miniaudio's life-cycle rules.
    \<^item> \<open>Engine\<close>: all of it as a transition system \<open>engine_step\<close> with the reachable states.
  The lemmas about a ring show that it is a queue while fewer than 32768 samples wait; those of \<open>Inbound\<close>
  and \<open>Capture\<close> cover every branch, errors included; those of \<open>Playback\<close> show definedness, equality with
  the reference and how closely the limiter follows its curve \<open>x - 4/27 x^3\<close> (src/tests/adversarial_voice_engine_test.c
  expects \<open>x - x^3/3\<close> instead; \<open>mixer_half_scale\<close> has the value where it fails); \<open>Engine\<close> proves the invariants (memory safety, absence of
  undefined behaviour, the protocol) by induction over \<open>engine_reachable\<close>. This theory composes a speaker,
  the codec and a listener.

  \<^bold>\<open>The parts of miniaudio.\<close>
    \<^item> \<open>Ma_Device\<close>: \<open>ma_device_start\<close>, \<open>ma_device_stop\<close>, \<open>ma_device_uninit\<close>, the end of \<open>ma_device_init\<close>
      and \<open>ma_worker_thread\<close>, interleaved at each access to shared state, for any number of client
      threads. An inductive invariant gives the assertions, the results of the calls and, with a rank
      that each step lowers, that all calls return; two runs show what a failed data loop breaks.
    \<^item> \<open>Ma_Rb\<close>, \<open>Ma_Pcm_Rb\<close>: the lock-free ring buffer, as a queue for sequential calls and for one reader
      and one writer whose loads and stores of the two offsets interleave; the ring of PCM frames over it,
      its data source and the duplex ring.
    \<^item> \<open>Ma_Pcm\<close>, \<open>Ma_Pcm_Float\<close>, \<open>Ma_Interleave\<close>: every conversion between sample formats with its dither,
      and the interleaving of channels: round trips, bounds, unrolled loops against plain ones, and where
      the 32-bit counters of some loops keep them from returning. \<open>ma_pcm_f32_to_s16\<close> has bodies for SSE2 and
      NEON that saturate where the scalar code clips: they agree for samples within \<open>[-1, 1]\<close> and no dither,
      and elsewhere (\<open>portable_s16\<close>) \<open>ma_pcm_convert\<close> leaves the result open.
    \<^item> \<open>Ma_Volume\<close>: volume factors and clipping in every format.
    \<^item> \<open>Ma_Data\<close>, \<open>Ma_Data_Capture\<close>: the way of the samples between a backend and the application's data
      callback, with the intermediary buffers that give the callback periods of a fixed size and the
      master volume. Two locales state what a callback has to do; under them, only the stream of samples
      matters and not how the backend cuts it.
    \<^item> \<open>Engine_Device\<close>: the engine's callbacks interpret these locales; what is heard and what is recorded.
    \<^item> \<open>Ma_Channels\<close>: channel maps, their standard tables, comparison, search and printing.
    \<^item> \<open>Ma_Lpf\<close>: biquad and first-order filters and the low-pass filter as a cascade of them; filtering in
      place, frame by frame, against filtering a block.
    \<^item> \<open>Ma_Resample\<close>, \<open>Ma_Resample_Time\<close>, \<open>Ma_Resample_Stream\<close>, \<open>Ma_Resampling\<close>: the linear resampler: its
      set-up, its clock in integers, the loops over frames; how many frames a call takes and gives, the
      independence of the result from the cut into calls, bounds of the interpolated samples.
      \<open>Ma_Resampler\<close> is the front end with the linear backend.
    \<^item> \<open>Ma_Channel_Conv\<close>, \<open>Ma_Channel_Mix\<close>, \<open>Ma_Channel_Route\<close>: the channel converter with its choice of path,
      shuffle tables and weights. A locale states what one frame of a mixer does, interpreted for every
      path and format; mono mixes and means; copy, shuffle and weighted mix as one routing of positions.
    \<^item> \<open>Ma_Data_Converter\<close>: set-up of the data converter, its choice of stages and their order, and the
      six execution paths with their temporary buffers.
    \<^item> \<open>Ma_Framewise\<close>, \<open>Ma_Stages\<close>, \<open>Ma_Pipeline\<close>: the contract of a stage that works frame by frame, as a
      locale closed under composition; every format conversion and every channel conversion meets it, and
      so the converter without resampling does: its temporary buffers cannot be observed.
    \<^item> \<open>Ma_Device_Io\<close>, \<open>Ma_Device_Stream\<close>: \<open>ma_device__post_init_setup\<close>, by which a device sets up its
      converters, and \<open>ma_device__read_frames_from_client\<close> and \<open>ma_device__send_frames_to_client\<close>, which
      convert between the format of the hardware and that of the client; under the locales of
      \<open>Ma_Data\<close> the client sees one stream.
    \<^item> \<open>Engine_Hardware\<close>: the engine on a device with 32-bit float samples and \<open>k\<close> channels, converters
      included: what the hardware is handed and what the capture ring is given.

  \<^bold>\<open>Conventions.\<close> A C integer is a word of its width, read with \<open>unat\<close> or \<open>sint\<close>; a pointer that may be
  null is an option; a buffer is a list when its length is given and otherwise a function from indices;
  errors are result codes, a sum for the Go decoder, and \<open>None\<close> stands for behaviour that C leaves
  undefined, for a failed assertion, for a loop that does not end, or for a result that differs between builds. The operating system's audio is the record \<open>ma_env\<close> of
  answers in the engine theories and the arguments of each step in \<open>Ma_Device\<close>; \<open>log10\<close> is an argument
  with the hypotheses of the locale \<open>libm_log10\<close> (it is 0 at 1 and no NaN on positive numbers), which
  the correctly rounded \<open>log10_rounded\<close> meets.

  \<^bold>\<open>Bounds.\<close> Loops of known length are recursion; chunk loops are functions with a measure; loops that may
  not end are partial functions, and termination is a theorem of its own. The bound \<open>2 ^ 100\<close> on user
  volumes keeps the sum of 32 streams finite in binary32. The square root takes the integer root of
  \<open>x * 4 ^ 1200\<close>, which leaves more than 600 bits even of the least positive double, enough to decide every
  rounding. \<open>27 * (1 + n)\<close> steps are enough for the pending calls of \<open>n\<close> clients on a device. Blocks that
  are converted have at most \<open>2 ^ 22\<close> frames: with at most 254 channels and 3 bytes a sample, the 32-bit
  counters and indices of the conversion loops do not wrap.

  \<^bold>\<open>Assumptions.\<close> An exported function or an audio callback of the engine is one step of \<open>engine_step\<close>:
  the code holds the mutex over the rings and the pool, but reads some flags outside of it. The ring
  \<open>ma_rb\<close> has one reader and one writer, as documented, and the atomics are sequentially consistent; so
  are the device's events, lock and state. Calls of \<open>ma_device_uninit\<close> are alone with the device, as its
  documentation demands, and backend callbacks return. Products of the LCG that overflow a signed integer
  wrap, as with the usual compilers. What \<open>sscanf\<close> stores for a number that does not fit
  is an argument, since the C standard leaves it open.

  \<^bold>\<open>Not modelled.\<close> The vector versions of loops that copy or call the scalar code; of miniaudio its backends, decoders,
  node graph, resource manager and high-level engine, which the voice engine does not call, the filters
  other than the low-pass filter, and the choice of a backend with its device descriptors, which is
  the operating system's part of \<open>ma_device_init\<close>; flushing of denormals in the data callback; the duplex
  device; the server's sockets, hubs and storage in Go; the Flutter application in Dart; the
  generated desktop runners. A custom resampling backend is a table of functions of the application,
  which the voice engine does not install.
\<close>

section \<open>One speaker, heard alone\<close>

lemma hdr_Encode:
  assumes "Magic p = 0x56" "length (Payload p) < 65536"
  shows "Encode p ! 0 = 0x56" "hdr_sender (Encode p) = SenderID p"
    "unat (hdr_payload_len (Encode p)) = length (Payload p)"
    "hdr_vad (Encode p) = VAD p" "drop 20 (Encode p) = Payload p"
proof -
  show "Encode p ! 0 = 0x56" using assms by (simp add: Encode_nth)
  show "hdr_sender (Encode p) = SenderID p"
    using Encode_nth(5) [of p] by (simp add: hdr_sender_def get_be32_def)
  have "hdr_payload_len (Encode p) = of_nat (length (Payload p))"
    using Encode_nth(8) [of p] by (simp add: hdr_payload_len_def get_be16_def)
  then show "unat (hdr_payload_len (Encode p)) = length (Payload p)"
    using assms(2) by (simp add: unat_of_nat take_bit_nat_eq_self)
  show "hdr_vad (Encode p) = VAD p"
    using Encode_nth(4) [of p] by (simp add: hdr_vad_def flags_vad_bit)
qed (rule Encode_nth)

lemma inbound_accepted_Encode:
  assumes "Magic p = 0x56" "length (Payload p) \<le> 4076" "SenderID p \<noteq> 0"
  shows "inbound_accepted (Encode p) (of_nat (length (Encode p)))"
proof -
  have n: "unat (of_nat (20 + length (Payload p)) :: u32) = 20 + length (Payload p)"
    using assms(2) by (intro unat_of_nat_u32) simp
  have "unat (hdr_payload_len (Encode p)) = length (Payload p)" using hdr_Encode(3) [OF assms(1)] assms(2) by simp
  then have "unat (20 + ucast (hdr_payload_len (Encode p)) :: u32) = 20 + length (Payload p)"
    using assms(2) by (simp add: unat_word_ariths unsigned_ucast_eq take_bit_nat_eq_self)
  then have "20 + ucast (hdr_payload_len (Encode p)) \<le> (of_nat (length (Encode p)) :: u32)"
    using n by (simp add: word_le_nat_alt)
  moreover have "20 \<le> (of_nat (length (Encode p)) :: u32)" using n by (simp add: word_le_nat_alt)
  ultimately show ?thesis
    using assms hdr_Encode(1,2) [OF assms(1)] by (simp add: inbound_accepted_def)
qed

lemma contribute_nth: "t < length xs \<Longrightarrow> contribute g xs t a = contribute g [xs ! t] 0 a"
  by (simp add: contribute_def)

lemma foldl_skip: "(\<And>a i. i \<in> set is \<Longrightarrow> f a i = a) \<Longrightarrow> foldl f a is = a"
  by (induction "is" arbitrary: a) auto

lemma mix_value_single:
  assumes "i < 32" "audible lb ps i" "\<And>j. j < 32 \<Longrightarrow> j \<noteq> i \<Longrightarrow> audible lb ps j \<Longrightarrow> peer_pending (ps j) = []"
  shows "mix_value lb ps t = contribute (user_volume (ps i)) (peer_pending (ps i)) t (Fin 0)"
proof -
  let ?f = "\<lambda>a j. if audible lb ps j then contribute (user_volume (ps j)) (peer_pending (ps j)) t a else a"
  have skip: "?f a j = a" if "j < 32" "j \<noteq> i" for a j using assms(3) that by (simp add: contribute_def)
  have "[0..<MAX_PEERS] = [0..<i] @ i # [Suc i..<32]"
    using assms(1) upt_add_eq_append [of 0 i "32 - i"] upt_conv_Cons [of i 32] by (simp add: MAX_PEERS_def)
  then have "mix_value lb ps t = foldl ?f (?f (foldl ?f (Fin 0) [0..<i]) i) [Suc i..<32]"
    by (simp only: mix_value_def foldl_append foldl.simps)
  also have "foldl ?f (Fin 0) [0..<i] = Fin 0" by (rule foldl_skip) (use skip assms(1) in auto)
  also have "foldl ?f (?f (Fin 0) i) [Suc i..<32] = ?f (Fin 0) i" by (rule foldl_skip) (use skip in auto)
  finally show ?thesis using assms(2) by simp
qed

lemma limit_samples_map:
  "(\<And>x. x \<in> set xs \<Longrightarrow> limit_sample (f x) = Some (g x)) \<Longrightarrow> limit_samples (map f xs) = Some (map g xs)"
  by (induction xs) auto

lemma limit_samples_single:
  assumes "i < 32" "audible lb ps i" "user_volume (ps i) = Fin 1"
    and "\<And>j. j < 32 \<Longrightarrow> j \<noteq> i \<Longrightarrow> audible lb ps j \<Longrightarrow> peer_pending (ps j) = []"
    and "peer_pending (ps i) = xs"
  shows "limit_samples (map (mix_value lb ps) [0..<length xs])
    = Some (map (\<lambda>x. word_of_int (limited_int (of_int (sint x)))) xs)"
proof -
  have one: "limit_sample (mix_value lb ps t) = Some (word_of_int (limited_int (of_int (sint (xs ! t)))))"
    if "t < length xs" for t
  proof -
    have "mix_value lb ps t = contribute (Fin 1) xs t (Fin 0)"
      using mix_value_single [OF assms(1,2,4), of t] unfolding assms(3,5) .
    also have "\<dots> = contribute (Fin 1) [xs ! t] 0 (Fin 0)" using that by (rule contribute_nth)
    finally show ?thesis by (simp only: one_stream_unity [OF refl])
  qed
  have "limit_samples (map (mix_value lb ps) [0..<length xs])
      = Some (map (\<lambda>t. word_of_int (limited_int (of_int (sint (xs ! t))))) [0..<length xs])"
    by (rule limit_samples_map, rule one) simp
  also have "map (\<lambda>t. word_of_int (limited_int (of_int (sint (xs ! t)))) :: i16) [0..<length xs]
      = map (\<lambda>x. word_of_int (limited_int (of_int (sint x)))) xs"
    by (rule nth_equalityI) simp_all
  finally show ?thesis .
qed

text \<open>\<open>tests/adversarial_voice_engine_test.c\<close> feeds one peer 960 samples of 16384 at volume one and expects a mix between
  15000 and 15050, from \<open>x - x^3/3\<close>. The code has \<open>x - 4/27 x^3\<close>, and the mix is 15776.\<close>

lemma mixer_half_scale:
  assumes "peers_wf (g_peers s)" "\<not> g_local_deafened s"
    and "i < 32" "audible (g_mic_test_loopback s) (g_peers s) i" "user_volume (g_peers s i) = Fin 1"
    and "\<And>j. j < 32 \<Longrightarrow> j \<noteq> i \<Longrightarrow> audible (g_mic_test_loopback s) (g_peers s) j \<Longrightarrow> peer_pending (g_peers s j) = []"
    and "peer_pending (g_peers s i) = replicate 960 16384"
  shows "\<exists>s'. mix_audio_streams True 960 s = Some (replicate 960 15776, s')"
proof -
  have "word_of_int (limited_int (of_int (sint (16384 :: i16)))) = (15776 :: i16)"
    using limit_sample_Fin [of 16384] limiter_half_scale by simp
  moreover have "limit_samples (map (mix_value (g_mic_test_loopback s) (g_peers s)) [0..<length (replicate 960 (16384 :: i16))])
      = Some (map (\<lambda>x. word_of_int (limited_int (of_int (sint x)))) (replicate 960 (16384 :: i16)))"
    by (rule limit_samples_single [of i]) (use assms in blast)+
  ultimately have "limit_samples (map (mix_value (g_mic_test_loopback s) (g_peers s)) [0..<960]) = Some (replicate 960 15776)"
    by (simp only: length_replicate map_replicate)
  then show ?thesis using mix_audio_streams_eq [OF assms(1,2), of 960] by simp
qed

section \<open>The stages of the path\<close>

lemma capture_960:
  assumes "libm_log10 lg" "capture_valid s" "capture_pending s = []" "g_capturing s" "\<not> g_local_muted s" "length xs = 960"
  shows "\<exists>out s1. voice_engine_capture_frame lg (Some []) 1920 None None None
      (ma_capture_callback None (Some (\<lambda>i. xs ! i)) 960 s) = Some (out, s1) \<and>
    co_buffer out = Some (bytes_of_samples xs)"
proof -
  have xs: "captured 1 (\<lambda>i. xs ! i) 960 = xs" using assms(6) by (simp add: captured_def map_nth [of xs, unfolded assms(6)])
  let ?t = "fold capture_put xs s"
  have cb: "ma_capture_callback None (Some (\<lambda>i. xs ! i)) 960 s = ?t" using assms(4) by (simp add: capture_callback_eq xs)
  have pend: "capture_pending ?t = xs" "capture_valid ?t"
    using capture_queue.contents_fold [OF assms(2), of xs] capture_queue.valid_fold [OF assms(2), of xs] assms(3,6)
    by simp_all
  have rdy: "capture_ready 1920 ?t" using assms(4,5) by (simp add: capture_ready_def fold_capture_put_modes)
  obtain speaking left where "vad_step (g_vad_mode ?t) (g_vad_threshold ?t) (vad_hangover_ms (g_config ?t))
      (g_ptt_pressed ?t) (frame_dbfs lg (take 960 (capture_pending ?t))) (g_hangover_ms_left ?t) = (speaking, left)"
    by fastforce
  from capture_frame_live_eq [OF assms(1) pend(2) rdy _ this, of "[]" None None None]
  obtain d energy s1 where "voice_engine_capture_frame lg (Some []) 1920 None None None ?t =
      Some (frame_out xs d speaking energy [] None None None, s1)"
    using assms(6) unfolding pend(1) by auto
  then show ?thesis unfolding cb using assms(6) by (auto simp: frame_out_def write_bytes_def)
qed

lemma Decode_Encode:
  assumes "Magic p = 0x56" "Version p = 1" "IsValidPacketType (PType p)" "length (Payload p) \<le> 4076"
  shows "\<exists>q. Decode (Encode p) = Inr q \<and> Payload q = Payload p \<and> SenderID q = SenderID p"
proof -
  have len: "unat (of_nat (length (Payload p)) :: u16) = length (Payload p)"
    using assms(4) by (simp add: unat_of_nat)
  then have "\<not> (4076 :: u16) < of_nat (length (Payload p))"
    using assms(4) by (simp add: word_less_nat_alt)
  then show ?thesis
    using assms len
    by (simp add: Decode_def Encode_nth Encode_nth(2) [simplified] flags_roundtrip)
qed

lemma limited_sample_gentle:
  "limit_sample (Fin (of_int (sint x))) = Some (word_of_int (limited_int (of_int (sint x)))) \<and>
   \<bar>sint (word_of_int (limited_int (of_int (sint x))) :: i16)\<bar> \<le> \<bar>sint x\<bar> \<and>
   (0 \<le> sint x \<longrightarrow> 0 \<le> sint (word_of_int (limited_int (of_int (sint x))) :: i16))" for x :: i16
proof -
  obtain k where k: "sint x = k" by simp
  have b: "\<bar>k\<bar> \<le> 32768" using sint16_bounds [of x] k by (simp add: abs_le_iff)
  have "\<bar>rat_of_int k\<bar> \<le> of_int 32768" using b by (simp only: of_int_abs [symmetric] of_int_le_iff)
  also have "\<dots> \<le> (2 :: rat) ^ 128" by simp
  finally have "limit_sample (Fin (of_int k)) = Some (word_of_int (limited_int (of_int k)))" by (rule limit_sample_Fin)
  moreover have "sint (word_of_int (limited_int (of_int k)) :: i16) = limited_int (of_int k)"
    using limited_int_bound [of "of_int k"] by (intro sint16_of_int) (auto simp: abs_le_iff)
  ultimately show ?thesis
    using limited_int_abs_le [OF b] limited_int_le [of k] b unfolding k by auto
qed

lemma fed_peer:
  assumes "Magic p = 0x56" "SenderID p \<noteq> 0" "Payload p = bytes_of_samples xs" "length xs = 960"
    and "peers_wf (g_peers t)" "find_peer (g_peers t) (SenderID p) = None" "find_free (g_peers t) = Some i"
  shows "\<exists>q. g_peers (fst (voice_engine_feed_inbound_packet (Some (Encode p)) (of_nat (length (Encode p))) t))
      = (g_peers t)(i := q) \<and> is_active q \<and> user_volume q = Fin 1 \<and> peer_pending q = xs"
proof -
  let ?a = "alloc_peer (SenderID p) (Fin 1) (g_peers t i)"
  have acc: "inbound_accepted (Encode p) (of_nat (length (Encode p)))"
    by (rule inbound_accepted_Encode) (use assms in simp_all)
  have len: "length (Payload p) < 65536" using assms(3,4) by simp
  note h = hdr_Encode [OF assms(1) len]
  have peers: "g_peers (fst (voice_engine_feed_inbound_packet (Some (Encode p)) (of_nat (length (Encode p))) t))
      = (g_peers t)(i := buffer_payload (Encode p) ?a)"
    using feed_accepted [OF acc, of t] assms(6,7) by (simp add: h peer_for_sender_def)
  have n: "unat (samples_to_write (hdr_payload_len (Encode p))) = 960"
    using assms(3,4) by (simp add: unat_samples_to_write h)
  have "peer_pending (buffer_payload (Encode p) ?a) = peer_pending ?a @
      take (unat (samples_to_write (hdr_payload_len (Encode p)))) (samples_of_bytes (drop 20 (Encode p)))"
    by (rule buffer_payload_pending) (simp_all add: n ring_contents_empty_iff [of 0 0] ring_available_def)
  then have "peer_pending (buffer_payload (Encode p) ?a) = xs"
    using assms(3,4) peer_pending_alloc [of "SenderID p" "Fin 1" "g_peers t i"] unfolding n h(5) by simp
  then show ?thesis using peers by (auto simp: frame_simps)
qed

lemma fed_and_played:
  assumes "Magic p = 0x56" "SenderID p \<noteq> 0" "Payload p = bytes_of_samples xs" "length xs = 960"
    and wf: "peers_wf (g_peers t)" and "g_playing t" "\<not> g_local_deafened t"
    and "find_peer (g_peers t) (SenderID p) = None" and free: "find_free (g_peers t) \<noteq> None"
    and quiet: "\<forall>j < 32. audible (g_mic_test_loopback t) (g_peers t) j \<longrightarrow> peer_pending (g_peers t j) = []"
    and device: "0 < unat chans" "960 * unat chans < 2 ^ 32"
  shows "\<exists>out' t2. ma_playback_callback (Some chans) (Some mem) 960
      (fst (voice_engine_feed_inbound_packet (Some (Encode p)) (of_nat (length (Encode p))) t)) = Some (Some out', t2) \<and>
    (\<forall>f < 960. \<forall>c < unat chans. out' (f * unat chans + c) = word_of_int (limited_int (of_int (sint (xs ! f)))))"
proof -
  let ?t1 = "fst (voice_engine_feed_inbound_packet (Some (Encode p)) (of_nat (length (Encode p))) t)"
  let ?lb = "g_mic_test_loopback ?t1"
  obtain i where i: "find_free (g_peers t) = Some i" using free by auto
  note i32 = find_free_SomeD [OF i]
  obtain q where q: "g_peers ?t1 = (g_peers t)(i := q)" "is_active q" "user_volume q = Fin 1" "peer_pending q = xs"
    using fed_peer [OF assms(1-4) wf assms(8) i] by blast
  have modes: "g_playing ?t1 = g_playing t" "g_local_deafened ?t1 = g_local_deafened t" "?lb = g_mic_test_loopback t"
    by (rule feed_modes)+
  have mix: "limit_samples (map (mix_value ?lb (g_peers ?t1)) [0..<length xs])
      = Some (map (\<lambda>x. word_of_int (limited_int (of_int (sint x)))) xs)"
    by (rule limit_samples_single [of i])
      (use i32 q quiet modes in \<open>auto simp: audible_def\<close>)
  have ch: "unat (callback_channels (Some chans)) = unat chans"
    using device(1) by (simp add: callback_channels_def word_less_nat_alt)
  have lt: "f * unat chans + c < 960 * unat chans" if "f < 960" "c < unat chans" for f c
  proof -
    have "f * unat chans + c < (f + 1) * unat chans" using that by simp
    also have "\<dots> \<le> 960 * unat chans" using that by (intro mult_le_mono) auto
    finally show ?thesis .
  qed
  have cb: "ma_playback_callback (Some chans) (Some mem) 960 ?t1 = map_option (\<lambda>ys. (Some (\<lambda>j. if j < unat (960 :: u32) * unat (callback_channels (Some chans))
                              then ys ! (j div unat (callback_channels (Some chans))) else mem j),
        ?t1\<lparr>g_peers := advance ?lb (unat (960 :: u32)) (g_peers ?t1)\<rparr>))
      (limit_samples (map (mix_value ?lb (g_peers ?t1)) [0..<unat (960 :: u32)]))"
    by (rule playback_callback_eq)
      (use feed_peers_wf [OF wf] modes assms(6,7) device(2) in \<open>simp_all add: ch\<close>)
  show ?thesis
    unfolding cb using mix assms(4) lt by (auto simp: ch)
qed

section \<open>Properties\<close>

text \<open>C1: Voice arrives. A speaker's client records 960 samples and takes them as a frame; the frame
  becomes the payload of a packet which the server's decoder accepts; a listener who plays, is not
  deafened, has room for this user and hears nobody else is fed that packet. Then the listener's next
  960-frame callback writes, to every channel of the device, sample for sample, the speaker's samples
  through the limiter: same order, same sign, none lost, none louder.\<close>

theorem voice_end_to_end:
  assumes lg: "libm_log10 lg"
    and speaker: "capture_valid s" "capture_pending s = []" "g_capturing s" "\<not> g_local_muted s" "length xs = 960"
    and packet: "Magic p = 0x56" "Version p = 1" "IsValidPacketType (PType p)" "SenderID p \<noteq> 0"
    and listener: "peers_wf (g_peers t)" "g_playing t" "\<not> g_local_deafened t"
      "find_peer (g_peers t) (SenderID p) = None" "find_free (g_peers t) \<noteq> None"
      "\<forall>j < 32. audible (g_mic_test_loopback t) (g_peers t) j \<longrightarrow> peer_pending (g_peers t j) = []"
    and device: "0 < unat chans" "960 * unat chans < 2 ^ 32"
  shows "\<exists>out s1 payload datagram decoded out' t2.
    voice_engine_capture_frame lg (Some []) 1920 None None None
      (ma_capture_callback None (Some (\<lambda>i. xs ! i)) 960 s) = Some (out, s1) \<and>
    co_buffer out = Some payload \<and> datagram = Encode (p\<lparr>Payload := payload\<rparr>) \<and>
    Decode datagram = Inr decoded \<and> Payload decoded = payload \<and> SenderID decoded = SenderID p \<and>
    ma_playback_callback (Some chans) (Some mem) 960
      (fst (voice_engine_feed_inbound_packet (Some datagram) (of_nat (length datagram)) t)) = Some (Some out', t2) \<and>
    (\<forall>f < 960. \<forall>c < unat chans. \<exists>y. out' (f * unat chans + c) = y \<and>
       limit_sample (Fin (of_int (sint (xs ! f)))) = Some y \<and>
       \<bar>sint y\<bar> \<le> \<bar>sint (xs ! f)\<bar> \<and> (0 \<le> sint (xs ! f) \<longrightarrow> 0 \<le> sint y))"
proof -
  obtain out s1 where out: "voice_engine_capture_frame lg (Some []) 1920 None None None
      (ma_capture_callback None (Some (\<lambda>i. xs ! i)) 960 s) = Some (out, s1)"
    "co_buffer out = Some (bytes_of_samples xs)"
    using capture_960 [OF lg speaker] by blast
  let ?q = "p\<lparr>Payload := bytes_of_samples xs\<rparr>"
  let ?d = "Encode ?q"
  have len: "length (bytes_of_samples xs) = 1920" using speaker(5) by simp
  obtain decoded where dec: "Decode ?d = Inr decoded" "Payload decoded = bytes_of_samples xs" "SenderID decoded = SenderID p"
    using Decode_Encode [of ?q] packet len by auto
  obtain out' t2 where play: "ma_playback_callback (Some chans) (Some mem) 960
      (fst (voice_engine_feed_inbound_packet (Some ?d) (of_nat (length ?d)) t)) = Some (Some out', t2)"
    "\<forall>f < 960. \<forall>c < unat chans. out' (f * unat chans + c) = word_of_int (limited_int (of_int (sint (xs ! f))))"
    using fed_and_played [of ?q xs t chans mem] packet listener device speaker(5) by auto
  have "limit_sample (Fin (of_int (sint x))) = Some (word_of_int (limited_int (of_int (sint x)))) \<and>
      \<bar>sint (word_of_int (limited_int (of_int (sint x))) :: i16)\<bar> \<le> \<bar>sint x\<bar> \<and>
      (0 \<le> sint x \<longrightarrow> 0 \<le> sint (word_of_int (limited_int (of_int (sint x))) :: i16))" for x :: i16
    by (rule limited_sample_gentle)
  then show ?thesis using out dec play by blast
qed

lemma voice_end_to_end_witness:
  "\<exists>out s1 payload out' t2.
    voice_engine_capture_frame log10_rounded (Some []) 1920 None None None
      (ma_capture_callback None (Some (\<lambda>i. replicate 960 100 ! i)) 960 (recorded [])) = Some (out, s1) \<and>
    co_buffer out = Some payload \<and>
    ma_playback_callback (Some 2) (Some (\<lambda>_. 0)) 960
      (fst (voice_engine_feed_inbound_packet
         (Some (Encode \<lparr>Magic = 0x56, Version = 1, PType = 1, Flags = 0, VAD = True, EnergyLevel = 3, SenderID = 5,
            ChannelID = 1, Sequence = 1, PayloadLen = 0, Timestamp = 0, Payload = payload\<rparr>))
         (of_nat (length (Encode \<lparr>Magic = 0x56, Version = 1, PType = 1, Flags = 0, VAD = True, EnergyLevel = 3, SenderID = 5,
            ChannelID = 1, Sequence = 1, PayloadLen = 0, Timestamp = 0, Payload = payload\<rparr>)))
         ((static_init :: nat engine)\<lparr>g_playing := True\<rparr>))) = Some (Some out', t2)"
proof -
  let ?t = "(static_init :: nat engine)\<lparr>g_playing := True\<rparr>"
  have t: "peers_wf (g_peers ?t)" "g_playing ?t" "\<not> g_local_deafened ?t" "find_peer (g_peers ?t) 5 = None"
    "find_free (g_peers ?t) \<noteq> None" "\<forall>j < 32. audible (g_mic_test_loopback ?t) (g_peers ?t) j \<longrightarrow> peer_pending (g_peers ?t j) = []"
    using no_peers by (simp_all add: audible_def) (simp_all add: static_init_def zero_peer_def)
  show ?thesis
    using voice_end_to_end [OF log10_cr.libm_log10_axioms, of "recorded []" "replicate 960 100"
        "\<lparr>Magic = 0x56, Version = 1, PType = 1, Flags = 0, VAD = True, EnergyLevel = 3, SenderID = 5,
            ChannelID = 1, Sequence = 1, PayloadLen = 0, Timestamp = 0, Payload = []\<rparr>" ?t 2 "\<lambda>_. 0"]
      recorded_pending [of "[]"] t by (fastforce simp: IsValidPacketType_def)
qed

end
